(* ===== verification/Prelude.thy ===== *)
theory Prelude imports Complex_Main begin

text \<open>
  Shared vocabulary of the development: identifiers, instants, JSON payloads, the row lists
  that stand for database tables and the generic lemmas on them.

  \<^item> A UUID is a natural number; an operation that mints one takes it as an argument.
  \<^item> A \<open>datetime\<close> is an \<open>instant\<close>: whole microseconds since the epoch, the resolution
    of Python's \<open>datetime\<close>. \<open>timedelta(seconds=n)\<close> is \<open>seconds n\<close>.
  \<^item> A table is the list of its rows, in insertion order. A primary-key lookup is \<open>get_row\<close>,
    an ORM attribute assignment is \<open>upd_row\<close>, an SQL \<open>UPDATE .. WHERE\<close> is
    \<open>update_where\<close>, an insert appends.
  \<^item> The locale \<open>keyed_rows\<close> is the contract of a table as its clients use it.
\<close>

section \<open>Identifiers, time, payloads\<close>

type_synonym uuid = nat
type_synonym instant = int

definition seconds :: "int \<Rightarrow> int" where
  "seconds n = n * 1000000"

definition minutes :: "int \<Rightarrow> int" where
  "minutes n = seconds (n * 60)"

lemma seconds_mono [simp]: "seconds a \<le> seconds b \<longleftrightarrow> a \<le> b"
  by (simp add: seconds_def)

lemma seconds_less [simp]: "seconds a < seconds b \<longleftrightarrow> a < b"
  by (simp add: seconds_def)

lemma seconds_nonneg [simp]: "0 \<le> seconds a \<longleftrightarrow> 0 \<le> a"
  by (simp add: seconds_def)

lemma seconds_pos [simp]: "0 < seconds a \<longleftrightarrow> 0 < a"
  by (simp add: seconds_def)

text \<open>Values of the JSON payloads the code stores with events and audit rows.\<close>

datatype jval =
    JNull
  | JBool bool
  | JInt int
  | JRat rat
  | JStr string
  | JId uuid
  | JList "jval list"
  | JObj "(string \<times> jval) list"

type_synonym payload = "(string \<times> jval) list"

definition j_opt_int :: "int option \<Rightarrow> jval" where
  "j_opt_int v = (case v of None \<Rightarrow> JNull | Some i \<Rightarrow> JInt i)"

definition j_opt_str :: "string option \<Rightarrow> jval" where
  "j_opt_str v = (case v of None \<Rightarrow> JNull | Some s \<Rightarrow> JStr s)"

definition j_opt_rat :: "rat option \<Rightarrow> jval" where
  "j_opt_rat v = (case v of None \<Rightarrow> JNull | Some x \<Rightarrow> JRat x)"

section \<open>Results and text\<close>

text \<open>
  A call that may raise returns \<open>Inl error\<close> or \<open>Inr value\<close>; \<open>rbind\<close> is the propagation of an
  uncaught exception.
\<close>

fun rbind :: "'e + 'a \<Rightarrow> ('a \<Rightarrow> 'e + 'b) \<Rightarrow> 'e + 'b" where
  "rbind (Inl e) f = Inl e"
| "rbind (Inr x) f = f x"

lemma rbind_Inr_iff: "rbind m f = Inr y \<longleftrightarrow> (\<exists>x. m = Inr x \<and> f x = Inr y)"
  by (cases m) simp_all

lemma rbind_Inl_iff: "rbind m f = Inl e \<longleftrightarrow> m = Inl e \<or> (\<exists>x. m = Inr x \<and> f x = Inl e)"
  by (cases m) simp_all

text \<open>\<open>str.isspace\<close> on the 8-bit characters of the model, \<open>str.strip\<close> and slices.\<close>

definition py_space :: "char \<Rightarrow> bool" where
  "py_space c \<longleftrightarrow> (let n = of_char c :: nat in
    n \<in> {9, 10, 11, 12, 13, 28, 29, 30, 31, 32, 133, 160})"

definition py_strip :: "string \<Rightarrow> string" where
  "py_strip s = rev (dropWhile py_space (rev (dropWhile py_space s)))"

definition last_n :: "nat \<Rightarrow> 'a list \<Rightarrow> 'a list" where
  "last_n n xs = drop (length xs - n) xs"

lemma py_strip_Nil [simp]: "py_strip [] = []"
  by (simp add: py_strip_def)

section \<open>Tables as row lists\<close>

definition get_row :: "('r \<Rightarrow> 'k) \<Rightarrow> 'k \<Rightarrow> 'r list \<Rightarrow> 'r option" where
  "get_row key k rows = find (\<lambda>r. key r = k) rows"

definition upd_row :: "('r \<Rightarrow> 'k) \<Rightarrow> 'k \<Rightarrow> ('r \<Rightarrow> 'r) \<Rightarrow> 'r list \<Rightarrow> 'r list" where
  "upd_row key k f rows = map (\<lambda>r. if key r = k then f r else r) rows"

definition update_where :: "('r \<Rightarrow> bool) \<Rightarrow> ('r \<Rightarrow> 'r) \<Rightarrow> 'r list \<Rightarrow> 'r list" where
  "update_where P f rows = map (\<lambda>r. if P r then f r else r) rows"

definition count_where :: "('r \<Rightarrow> bool) \<Rightarrow> 'r list \<Rightarrow> nat" where
  "count_where P rows = length (filter P rows)"

text \<open>Primary keys are unique: the invariant of every table.\<close>

definition keys_distinct :: "('r \<Rightarrow> 'k) \<Rightarrow> 'r list \<Rightarrow> bool" where
  "keys_distinct key rows \<longleftrightarrow> distinct (map key rows)"

lemma get_row_Nil [simp]: "get_row key k [] = None"
  by (simp add: get_row_def)

lemma get_row_Cons: "get_row key k (r # rs) = (if key r = k then Some r else get_row key k rs)"
  by (simp add: get_row_def)

lemma get_row_SomeD: "get_row key k rows = Some r \<Longrightarrow> r \<in> set rows \<and> key r = k"
  by (induction rows) (auto simp: get_row_Cons split: if_splits)

lemma get_row_key: "get_row key k rows = Some r \<Longrightarrow> key r = k"
  by (blast dest: get_row_SomeD)

lemma get_row_in: "get_row key k rows = Some r \<Longrightarrow> r \<in> set rows"
  by (blast dest: get_row_SomeD)

lemma get_row_None: "get_row key k rows = None \<longleftrightarrow> k \<notin> key ` set rows"
  by (induction rows) (auto simp: get_row_Cons)

lemma get_row_append:
  "get_row key k (xs @ ys) = (case get_row key k xs of None \<Rightarrow> get_row key k ys | Some r \<Rightarrow> Some r)"
  by (induction xs) (auto simp: get_row_Cons)

lemma get_row_Some_iff:
  "keys_distinct key rows \<Longrightarrow> get_row key k rows = Some r \<longleftrightarrow> r \<in> set rows \<and> key r = k"
  by (induction rows) (auto simp: get_row_Cons keys_distinct_def)

lemma get_upd_row_same:
  assumes "\<And>r. key (f r) = key r"
  shows "get_row key k (upd_row key k f rows) = map_option f (get_row key k rows)"
  by (induction rows) (auto simp: get_row_Cons upd_row_def assms)

lemma get_upd_row_other:
  assumes "\<And>r. key (f r) = key r" and "j \<noteq> k"
  shows "get_row key j (upd_row key k f rows) = get_row key j rows"
  using assms(2) by (induction rows) (auto simp: get_row_Cons upd_row_def assms(1))

lemma get_upd_row:
  assumes "\<And>r. key (f r) = key r"
  shows "get_row key j (upd_row key k f rows) =
    (if j = k then map_option f (get_row key k rows) else get_row key j rows)"
  using get_upd_row_same [of key f k rows] get_upd_row_other [of key f j k rows] assms by simp

lemma map_key_upd_row [simp]:
  "(\<And>r. key (f r) = key r) \<Longrightarrow> map key (upd_row idk k f rows) = map key rows"
  by (simp add: upd_row_def comp_def)

lemma keys_distinct_upd_row [simp]:
  "(\<And>r. key (f r) = key r) \<Longrightarrow>
    keys_distinct key (upd_row idk k f rows) = keys_distinct key rows"
  by (simp add: keys_distinct_def)

lemma set_upd_rowD:
  "r \<in> set (upd_row key k f rows) \<Longrightarrow>
    (r \<in> set rows \<and> key r \<noteq> k) \<or> (\<exists>q \<in> set rows. key q = k \<and> r = f q)"
  by (auto simp: upd_row_def split: if_splits)

lemma length_upd_row [simp]: "length (upd_row key k f rows) = length rows"
  by (simp add: upd_row_def)

lemma keys_distinct_snoc:
  "keys_distinct key (rows @ [r]) \<longleftrightarrow> keys_distinct key rows \<and> get_row key (key r) rows = None"
  by (auto simp: keys_distinct_def get_row_None)

lemma get_row_snoc:
  "get_row key k (rows @ [r]) =
    (case get_row key k rows of None \<Rightarrow> (if key r = k then Some r else None) | Some q \<Rightarrow> Some q)"
  by (simp add: get_row_append get_row_Cons split: option.split)

lemma update_where_key:
  "update_where (\<lambda>r. key r = k \<and> P r) f rows = upd_row key k (\<lambda>r. if P r then f r else r) rows"
  by (auto simp: update_where_def upd_row_def)

lemma map_key_update_where [simp]:
  "(\<And>r. key (f r) = key r) \<Longrightarrow> map key (update_where P f rows) = map key rows"
  by (simp add: update_where_def comp_def)

lemma get_update_where:
  assumes "\<And>r. key (f r) = key r"
  shows "get_row key k (update_where P f rows) =
    map_option (\<lambda>r. if P r then f r else r) (get_row key k rows)"
  by (induction rows) (auto simp: get_row_Cons update_where_def assms)

lemma count_where_append [simp]:
  "count_where P (xs @ ys) = count_where P xs + count_where P ys"
  by (simp add: count_where_def)

lemma count_where_0: "count_where P rows = 0 \<longleftrightarrow> (\<forall>r \<in> set rows. \<not> P r)"
  by (simp add: count_where_def filter_empty_conv)

text \<open>Changing one row's other key to a value no other row has keeps that key unique.\<close>

lemma upd_row_id: "i \<notin> idk ` set rows \<Longrightarrow> upd_row idk i f rows = rows"
  by (induction rows) (auto simp: upd_row_def)

lemma upd_row_Cons: "upd_row idk i f (r # rs) = (if idk r = i then f r else r) # upd_row idk i f rs"
  by (simp add: upd_row_def)

lemma keys_distinct_Cons: "keys_distinct key (r # rs) \<longleftrightarrow> key r \<notin> key ` set rs \<and> keys_distinct key rs"
  by (simp add: keys_distinct_def)

lemma keys_distinct_upd_change:
  assumes "keys_distinct idk rows" "keys_distinct key rows"
    and "\<And>r q. r \<in> set rows \<Longrightarrow> idk r = i \<Longrightarrow> q \<in> set rows \<Longrightarrow> idk q \<noteq> i \<Longrightarrow> key q \<noteq> key (f r)"
  shows "keys_distinct key (upd_row idk i f rows)"
  using assms
proof (induction rows)
  case (Cons r rs)
  show ?case
  proof (cases "idk r = i")
    case True
    then have i: "i \<notin> idk ` set rs" using Cons.prems(1) by (auto simp: keys_distinct_Cons)
    have "key (f r) \<noteq> key q" if "q \<in> set rs" for q
      using Cons.prems(3) [of r q] True i that by (metis image_eqI list.set_intros(1) list.set_intros(2))
    then show ?thesis using Cons.prems(2) True i by (auto simp: upd_row_Cons upd_row_id keys_distinct_Cons)
  next
    case False
    have "key r \<noteq> key q'" if "q' \<in> set (upd_row idk i f rs)" for q'
      using set_upd_rowD [OF that] Cons.prems(2) Cons.prems(3) [of _ r] False
      by (auto simp: keys_distinct_Cons)
    moreover have "keys_distinct key (upd_row idk i f rs)"
      using Cons.prems by (intro Cons.IH) (auto simp: keys_distinct_Cons)
    ultimately show ?thesis using False by (auto simp: upd_row_Cons keys_distinct_Cons)
  qed
qed (simp add: keys_distinct_def upd_row_def)

lemma get_row_filter_other: "j \<noteq> i \<Longrightarrow> get_row key j (filter (\<lambda>r. key r \<noteq> i) rows) = get_row key j rows"
  by (induction rows) (auto simp: get_row_Cons)

section \<open>The contract of a keyed table\<close>

text \<open>
  What a service relies on when it loads a row by its primary key and assigns to it: the
  assignment is seen by the next load of that key and by no other.
\<close>

locale keyed_rows =
  fixes look :: "'k \<Rightarrow> 's \<Rightarrow> 'r option"
    and modify :: "'k \<Rightarrow> ('r \<Rightarrow> 'r) \<Rightarrow> 's \<Rightarrow> 's"
    and ok :: "('r \<Rightarrow> 'r) \<Rightarrow> bool"
  assumes look_same: "ok f \<Longrightarrow> look k (modify k f s) = map_option f (look k s)"
    and look_other: "ok f \<Longrightarrow> j \<noteq> k \<Longrightarrow> look j (modify k f s) = look j s"
begin

lemma look_modify:
  "ok f \<Longrightarrow> look j (modify k f s) = (if j = k then map_option f (look k s) else look j s)"
  by (simp add: look_same look_other)

lemma look_modify_twice:
  "ok f \<Longrightarrow> ok g \<Longrightarrow> look k (modify k g (modify k f s)) = map_option (g \<circ> f) (look k s)"
  by (simp add: look_same option.map_comp)

lemma modify_none: "ok f \<Longrightarrow> look k (modify k f s) = None \<longleftrightarrow> look k s = None"
  by (simp add: look_same)

lemma modify_keeps:
  assumes "ok f" and "look j s = Some r" and "P r" and "\<And>q. P q \<Longrightarrow> P (f q)"
  shows "\<exists>r'. look j (modify k f s) = Some r' \<and> P r'"
  using assms by (cases "j = k") (simp_all add: look_modify)

end

end
