(* ===== verification/Data_Model.thy ===== *)
theory Data_Model imports Prelude begin

text \<open>
  The data of the program: the enumerations of \<open>app/models/enums.py\<close> as datatypes, the ORM
  classes of \<open>app/models\<close> as records, the database as the record of its tables, the
  repositories of \<open>app/repositories\<close> as queries and updates on it, the audit writer, and the
  settings of \<open>app/core/config.py\<close> that the modelled code reads, with the code's defaults.

  A nullable column is an \<open>option\<close>; a \<open>float\<close> column is a rational; a time of day is the
  number of microseconds since midnight. Tables keep the insertion order, so the newest row of a
  group is its last one.
\<close>

section \<open>Enumerations\<close>

datatype contact_status =
    C_PENDING | C_DIALING | C_IN_CONVERSATION | C_DISCONNECTED | C_RETRY_SCHEDULED
  | C_RECONNECTING | C_COMPLETED | C_COMPLETED_PARTIAL | C_CLOSED | C_NEEDS_REVIEW

datatype campaign_status = CAMP_DRAFT | CAMP_ACTIVE | CAMP_PAUSED | CAMP_COMPLETED

datatype attempt_state =
    A_INITIATED | A_CONNECTED | A_FAILED_TO_CONNECT | A_DROPPED_MID_CALL | A_ENDED_NORMALLY

datatype never_connected_reason =
    NC_NO_ANSWER | NC_BUSY | NC_INVALID_NUMBER | NC_REJECTED | NC_NETWORK_ERROR | NC_PROVIDER_ERROR

datatype mid_call_reason =
    MC_TECHNICAL_ISSUE | MC_NETWORK_PROBLEM | MC_PROVIDER_ERROR | MC_AI_ERROR | MC_UNKNOWN
  | MC_CUSTOMER_HANGUP

datatype recording_consent = RC_GRANTED | RC_DENIED | RC_UNCLEAR | RC_NOT_APPLICABLE

datatype suppression_source = SUP_AGENT_IN_CALL | SUP_MANUAL_API

datatype analysis_status =
    AN_PENDING | AN_PROCESSING | AN_COMPLETED | AN_FAILED | AN_RETRY_WAIT | AN_SKIPPED

datatype session_status = CS_ACTIVE | CS_ENDED

datatype conversation_role = ROLE_AGENT | ROLE_CONTACT | ROLE_SYSTEM

fun contact_status_value :: "contact_status \<Rightarrow> string" where
  "contact_status_value C_PENDING = ''Pending''"
| "contact_status_value C_DIALING = ''Dialing''"
| "contact_status_value C_IN_CONVERSATION = ''InConversation''"
| "contact_status_value C_DISCONNECTED = ''Disconnected''"
| "contact_status_value C_RETRY_SCHEDULED = ''RetryScheduled''"
| "contact_status_value C_RECONNECTING = ''Reconnecting''"
| "contact_status_value C_COMPLETED = ''Completed''"
| "contact_status_value C_COMPLETED_PARTIAL = ''CompletedPartial''"
| "contact_status_value C_CLOSED = ''Closed''"
| "contact_status_value C_NEEDS_REVIEW = ''NeedsReview''"

fun campaign_status_value :: "campaign_status \<Rightarrow> string" where
  "campaign_status_value CAMP_DRAFT = ''draft''"
| "campaign_status_value CAMP_ACTIVE = ''active''"
| "campaign_status_value CAMP_PAUSED = ''paused''"
| "campaign_status_value CAMP_COMPLETED = ''completed''"

fun attempt_state_value :: "attempt_state \<Rightarrow> string" where
  "attempt_state_value A_INITIATED = ''Initiated''"
| "attempt_state_value A_CONNECTED = ''Connected''"
| "attempt_state_value A_FAILED_TO_CONNECT = ''FailedToConnect''"
| "attempt_state_value A_DROPPED_MID_CALL = ''DroppedMidCall''"
| "attempt_state_value A_ENDED_NORMALLY = ''EndedNormally''"

fun never_connected_value :: "never_connected_reason \<Rightarrow> string" where
  "never_connected_value NC_NO_ANSWER = ''no_answer''"
| "never_connected_value NC_BUSY = ''busy''"
| "never_connected_value NC_INVALID_NUMBER = ''invalid_number''"
| "never_connected_value NC_REJECTED = ''rejected''"
| "never_connected_value NC_NETWORK_ERROR = ''network_error''"
| "never_connected_value NC_PROVIDER_ERROR = ''provider_error''"

fun mid_call_value :: "mid_call_reason \<Rightarrow> string" where
  "mid_call_value MC_TECHNICAL_ISSUE = ''technical_issue''"
| "mid_call_value MC_NETWORK_PROBLEM = ''network_problem''"
| "mid_call_value MC_PROVIDER_ERROR = ''provider_error''"
| "mid_call_value MC_AI_ERROR = ''ai_error''"
| "mid_call_value MC_UNKNOWN = ''unknown''"
| "mid_call_value MC_CUSTOMER_HANGUP = ''customer_hangup''"

fun suppression_source_value :: "suppression_source \<Rightarrow> string" where
  "suppression_source_value SUP_AGENT_IN_CALL = ''agent_in_call''"
| "suppression_source_value SUP_MANUAL_API = ''manual_api''"

definition never_connected_reasons :: "never_connected_reason list" where
  "never_connected_reasons =
    [NC_NO_ANSWER, NC_BUSY, NC_INVALID_NUMBER, NC_REJECTED, NC_NETWORK_ERROR, NC_PROVIDER_ERROR]"

definition mid_call_reasons :: "mid_call_reason list" where
  "mid_call_reasons = [MC_TECHNICAL_ISSUE, MC_NETWORK_PROBLEM, MC_PROVIDER_ERROR, MC_AI_ERROR,
    MC_UNKNOWN, MC_CUSTOMER_HANGUP]"

lemma never_connected_value_inj: "never_connected_value r = never_connected_value q \<Longrightarrow> r = q"
  by (cases r; cases q) simp_all

lemma mid_call_value_inj: "mid_call_value r = mid_call_value q \<Longrightarrow> r = q"
  by (cases r; cases q) simp_all

lemma never_connected_reasons_all [simp]: "r \<in> set never_connected_reasons"
  by (cases r) (simp_all add: never_connected_reasons_def)

lemma mid_call_reasons_all [simp]: "r \<in> set mid_call_reasons"
  by (cases r) (simp_all add: mid_call_reasons_def)

section \<open>Rows\<close>

type_synonym time_of_day = int
type_synonym rules = "(string \<times> bool) list"

definition day_us :: int where "day_us = 86400000000"

definition clock :: "int \<Rightarrow> int \<Rightarrow> time_of_day" where
  "clock h m = minutes (h * 60 + m)"

definition valid_time :: "time_of_day \<Rightarrow> bool" where
  "valid_time t \<longleftrightarrow> 0 \<le> t \<and> t < day_us"

record contact =
  c_id :: uuid
  c_campaign :: uuid
  c_phone :: string
  c_number :: string
  c_status :: contact_status
  c_attempt_count :: int
  c_next_retry_at :: "instant option"
  c_retry_attempt_id :: "uuid option"
  c_retry_attempt_number :: "int option"
  c_legal_hold :: bool
  c_purged_at :: "instant option"
  c_created_at :: instant

record call_attempt =
  a_id :: uuid
  a_contact :: uuid
  a_number :: int
  a_state :: attempt_state
  a_conn_reason :: "never_connected_reason option"
  a_disc_reason :: "mid_call_reason option"
  a_consent :: "recording_consent option"
  a_provider :: "string option"
  a_provider_call_id :: "string option"
  a_workflow_id :: "int option"
  a_started_at :: instant
  a_ended_at :: "instant option"
  a_duration :: "rat option"

record campaign =
  camp_id :: uuid
  camp_name :: string
  camp_status :: campaign_status
  camp_timezone :: string
  camp_region :: string
  camp_legal_hold :: bool
  camp_closed_at :: "instant option"
  camp_created_at :: instant

record retry_policy =
  rp_campaign :: uuid
  rp_max_retries :: int
  rp_spacing :: "int list"
  rp_never_connected :: rules
  rp_mid_call :: rules
  rp_window_start :: time_of_day
  rp_window_end :: time_of_day

record suppression =
  s_id :: uuid
  s_contact :: "uuid option"
  s_number :: string
  s_reason :: "string option"
  s_source :: suppression_source
  s_created_by :: "string option"
  s_requested_at :: instant

record call_event =
  e_attempt :: uuid
  e_type :: string
  e_payload :: payload

record audit_row =
  au_actor :: string
  au_action :: string
  au_entity_type :: string
  au_entity :: "uuid option"
  au_metadata :: payload

record processed_event =
  pe_event_id :: string
  pe_event_type :: string
  pe_received_at :: instant

record control =
  ctl_key :: string
  ctl_engaged :: bool
  ctl_reason :: "string option"
  ctl_category :: "string option"
  ctl_engaged_by :: "string option"
  ctl_engaged_at :: "instant option"
  ctl_released_by :: "string option"
  ctl_released_at :: "instant option"

record conversation_session =
  cs_id :: uuid
  cs_attempt :: uuid
  cs_status :: session_status
  cs_started_at :: instant
  cs_ended_at :: "instant option"
  cs_transcript_status :: "string option"
  cs_transcript_reason :: "string option"
  cs_transcript_url :: "string option"

record conversation_message =
  m_session :: uuid
  m_sequence :: int
  m_role :: conversation_role
  m_content :: string

record snapshot =
  sn_attempt :: uuid
  sn_entities :: payload
  sn_progress :: payload
  sn_objections :: "jval list"
  sn_last_utterance :: "string option"
  sn_disconnects :: int
  sn_requires_suppression :: bool
  sn_consent :: recording_consent
  sn_schema :: string

text \<open>\<open>an_output\<close> stands for the columns \<open>complete\<close> fills from the language model's answer, with
  their provenance; \<open>an_budget_day\<close> is a day number.\<close>

record call_analysis =
  an_id :: uuid
  an_attempt :: uuid
  an_session :: "uuid option"
  an_contact :: uuid
  an_campaign :: uuid
  an_status :: analysis_status
  an_attempt_count :: int
  an_output :: payload
  an_lead_score :: "int option"
  an_claim_token :: "uuid option"
  an_lease_expires :: "instant option"
  an_next_attempt :: "instant option"
  an_last_enqueued :: "instant option"
  an_truncated :: bool
  an_budget_day :: "int option"
  an_reserved_cost :: "rat option"
  an_processing_started :: "instant option"
  an_completed_at :: "instant option"
  an_failed_at :: "instant option"
  an_error_code :: "string option"
  an_created_at :: instant

section \<open>The database\<close>

record db =
  contacts :: "contact list"
  attempts :: "call_attempt list"
  campaigns :: "campaign list"
  policies :: "retry_policy list"
  suppressions :: "suppression list"
  events :: "call_event list"
  audits :: "audit_row list"
  processed :: "processed_event list"
  controls :: "control list"
  sessions :: "conversation_session list"
  messages :: "conversation_message list"
  snapshots :: "snapshot list"
  analyses :: "call_analysis list"
  budget_days :: "(int \<times> rat) list"

definition empty_db :: db where
  "empty_db = \<lparr> contacts = [], attempts = [], campaigns = [], policies = [], suppressions = [],
    events = [], audits = [], processed = [], controls = [], sessions = [], messages = [],
    snapshots = [], analyses = [], budget_days = [] \<rparr>"

definition record_audit_event ::
    "string \<Rightarrow> string \<Rightarrow> string \<Rightarrow> uuid option \<Rightarrow> payload \<Rightarrow> db \<Rightarrow> db" where
  "record_audit_event actor action entity_type entity meta d = d\<lparr> audits := audits d @
    [\<lparr> au_actor = actor, au_action = action, au_entity_type = entity_type, au_entity = entity,
       au_metadata = meta \<rparr>] \<rparr>"

definition add_call_event :: "uuid \<Rightarrow> string \<Rightarrow> payload \<Rightarrow> db \<Rightarrow> db" where
  "add_call_event attempt etype pl d = d\<lparr> events := events d @
    [\<lparr> e_attempt = attempt, e_type = etype, e_payload = pl \<rparr>] \<rparr>"

text \<open>\<open>ContactRepository\<close>, \<open>CallAttemptRepository\<close>, \<open>CampaignRepository\<close>: lookups and the
  attribute assignments the services make on a loaded row.\<close>

definition get_contact :: "uuid \<Rightarrow> db \<Rightarrow> contact option" where
  "get_contact i d = get_row c_id i (contacts d)"

definition upd_contact :: "uuid \<Rightarrow> (contact \<Rightarrow> contact) \<Rightarrow> db \<Rightarrow> db" where
  "upd_contact i f d = d\<lparr> contacts := upd_row c_id i f (contacts d) \<rparr>"

definition get_contact_by_phone :: "uuid \<Rightarrow> string \<Rightarrow> db \<Rightarrow> contact option" where
  "get_contact_by_phone camp number d =
    find (\<lambda>c. c_campaign c = camp \<and> c_number c = number) (contacts d)"

definition add_contact :: "contact \<Rightarrow> db \<Rightarrow> db" where
  "add_contact c d = d\<lparr> contacts := contacts d @ [c] \<rparr>"

definition get_attempt :: "uuid \<Rightarrow> db \<Rightarrow> call_attempt option" where
  "get_attempt i d = get_row a_id i (attempts d)"

definition upd_attempt :: "uuid \<Rightarrow> (call_attempt \<Rightarrow> call_attempt) \<Rightarrow> db \<Rightarrow> db" where
  "upd_attempt i f d = d\<lparr> attempts := upd_row a_id i f (attempts d) \<rparr>"

definition get_by_contact_and_number :: "uuid \<Rightarrow> int \<Rightarrow> db \<Rightarrow> call_attempt option" where
  "get_by_contact_and_number contact n d =
    find (\<lambda>a. a_contact a = contact \<and> a_number a = n) (attempts d)"

definition get_by_provider_call_id :: "string \<Rightarrow> db \<Rightarrow> call_attempt option" where
  "get_by_provider_call_id pcid d = find (\<lambda>a. a_provider_call_id a = Some pcid) (attempts d)"

definition get_campaign :: "uuid \<Rightarrow> db \<Rightarrow> campaign option" where
  "get_campaign i d = get_row camp_id i (campaigns d)"

definition upd_campaign :: "uuid \<Rightarrow> (campaign \<Rightarrow> campaign) \<Rightarrow> db \<Rightarrow> db" where
  "upd_campaign i f d = d\<lparr> campaigns := upd_row camp_id i f (campaigns d) \<rparr>"

definition new_attempt :: "instant \<Rightarrow> uuid \<Rightarrow> uuid \<Rightarrow> int \<Rightarrow> call_attempt" where
  "new_attempt now i contact n = \<lparr> a_id = i, a_contact = contact, a_number = n,
    a_state = A_INITIATED, a_conn_reason = None, a_disc_reason = None, a_consent = None,
    a_provider = None, a_provider_call_id = None, a_workflow_id = None, a_started_at = now,
    a_ended_at = None, a_duration = None \<rparr>"

text \<open>
  \<open>CallAttemptRepository.get_or_create\<close>: the row that exists, or an INSERT under a savepoint.
  Between the lookup and the INSERT another transaction may commit: \<open>other\<close> is what it does to
  the database. The unique constraint on (contact, number) then rejects the INSERT and the row
  is read again. The flag is the code's \<open>created\<close>.
\<close>

definition get_or_create ::
    "(db \<Rightarrow> db) \<Rightarrow> instant \<Rightarrow> uuid \<Rightarrow> uuid \<Rightarrow> int \<Rightarrow> db \<Rightarrow> call_attempt \<times> bool \<times> db" where
  "get_or_create other now i contact n d =
    (case get_by_contact_and_number contact n d of
       Some a \<Rightarrow> (a, False, d)
     | None \<Rightarrow>
        (let d' = other d in
         case get_by_contact_and_number contact n d' of
           Some a \<Rightarrow> (a, False, d')
         | None \<Rightarrow>
            (let a = new_attempt now i contact n
             in (a, True, d'\<lparr> attempts := attempts d' @ [a] \<rparr>))))"

text \<open>\<open>claim_event\<close>: the unique index on \<open>event_id\<close> decides who processes a webhook.\<close>

definition claim_event :: "instant \<Rightarrow> string \<Rightarrow> string \<Rightarrow> db \<Rightarrow> bool \<times> db" where
  "claim_event now event_id event_type d =
    (if get_row pe_event_id event_id (processed d) = None
     then (True, d\<lparr> processed := processed d @
       [\<lparr> pe_event_id = event_id, pe_event_type = event_type, pe_received_at = now \<rparr>] \<rparr>)
     else (False, d))"

section \<open>Well-formed databases\<close>

text \<open>The unique constraints of the schema that the modelled code relies on.\<close>

definition attempts_unique :: "db \<Rightarrow> bool" where
  "attempts_unique d \<longleftrightarrow> keys_distinct (\<lambda>a. (a_contact a, a_number a)) (attempts d)"

definition db_ok :: "db \<Rightarrow> bool" where
  "db_ok d \<longleftrightarrow> keys_distinct c_id (contacts d) \<and> keys_distinct a_id (attempts d) \<and>
    keys_distinct camp_id (campaigns d) \<and> attempts_unique d \<and>
    keys_distinct pe_event_id (processed d) \<and> keys_distinct ctl_key (controls d) \<and>
    keys_distinct s_number (suppressions d)"

lemma get_by_contact_and_number_row:
  "get_by_contact_and_number contact n d =
    get_row (\<lambda>a. (a_contact a, a_number a)) (contact, n) (attempts d)"
  by (simp add: get_by_contact_and_number_def get_row_def)

lemma get_by_contact_and_number_SomeD:
  "get_by_contact_and_number contact n d = Some a \<Longrightarrow>
    a \<in> set (attempts d) \<and> a_contact a = contact \<and> a_number a = n"
  unfolding get_by_contact_and_number_row by (drule get_row_SomeD) simp

lemma new_attempt_sel [simp]:
  "a_id (new_attempt now i contact n) = i"
  "a_contact (new_attempt now i contact n) = contact"
  "a_number (new_attempt now i contact n) = n"
  "a_state (new_attempt now i contact n) = A_INITIATED"
  "a_provider_call_id (new_attempt now i contact n) = None"
  "a_conn_reason (new_attempt now i contact n) = None"
  "a_started_at (new_attempt now i contact n) = now"
  by (simp_all add: new_attempt_def)

section \<open>Table access as seen by the services\<close>

lemma get_contact_upd: "(\<And>c. c_id (f c) = c_id c) \<Longrightarrow>
    get_contact j (upd_contact i f d) = (if j = i then map_option f (get_contact i d) else get_contact j d)"
  by (simp add: get_contact_def upd_contact_def get_upd_row)

lemma get_attempt_upd: "(\<And>a. a_id (f a) = a_id a) \<Longrightarrow>
    get_attempt j (upd_attempt i f d) = (if j = i then map_option f (get_attempt i d) else get_attempt j d)"
  by (simp add: get_attempt_def upd_attempt_def get_upd_row)

lemma get_campaign_upd: "(\<And>c. camp_id (f c) = camp_id c) \<Longrightarrow>
    get_campaign j (upd_campaign i f d) = (if j = i then map_option f (get_campaign i d) else get_campaign j d)"
  by (simp add: get_campaign_def upd_campaign_def get_upd_row)

definition keeps_contact_id :: "(contact \<Rightarrow> contact) \<Rightarrow> bool" where
  "keeps_contact_id f \<longleftrightarrow> (\<forall>c. c_id (f c) = c_id c)"

definition keeps_attempt_id :: "(call_attempt \<Rightarrow> call_attempt) \<Rightarrow> bool" where
  "keeps_attempt_id f \<longleftrightarrow> (\<forall>a. a_id (f a) = a_id a)"

definition keeps_campaign_id :: "(campaign \<Rightarrow> campaign) \<Rightarrow> bool" where
  "keeps_campaign_id f \<longleftrightarrow> (\<forall>c. camp_id (f c) = camp_id c)"

interpretation contact_rows: keyed_rows get_contact upd_contact keeps_contact_id
  by unfold_locales (simp_all add: get_contact_upd keeps_contact_id_def)

interpretation attempt_rows: keyed_rows get_attempt upd_attempt keeps_attempt_id
  by unfold_locales (simp_all add: get_attempt_upd keeps_attempt_id_def)

interpretation campaign_rows: keyed_rows get_campaign upd_campaign keeps_campaign_id
  by unfold_locales (simp_all add: get_campaign_upd keeps_campaign_id_def)

text \<open>Each writer touches one table: the frame equations the component proofs simplify with.\<close>

lemma upd_contact_frame [simp]:
  "attempts (upd_contact i f d) = attempts d" "campaigns (upd_contact i f d) = campaigns d"
  "policies (upd_contact i f d) = policies d" "suppressions (upd_contact i f d) = suppressions d"
  "events (upd_contact i f d) = events d" "audits (upd_contact i f d) = audits d"
  "processed (upd_contact i f d) = processed d" "controls (upd_contact i f d) = controls d"
  "sessions (upd_contact i f d) = sessions d"
  "messages (upd_contact i f d) = messages d"
  "snapshots (upd_contact i f d) = snapshots d"
  "analyses (upd_contact i f d) = analyses d"
  "budget_days (upd_contact i f d) = budget_days d"
  by (simp_all add: upd_contact_def)

lemma upd_attempt_frame [simp]:
  "contacts (upd_attempt i f d) = contacts d" "campaigns (upd_attempt i f d) = campaigns d"
  "policies (upd_attempt i f d) = policies d" "suppressions (upd_attempt i f d) = suppressions d"
  "events (upd_attempt i f d) = events d" "audits (upd_attempt i f d) = audits d"
  "processed (upd_attempt i f d) = processed d" "controls (upd_attempt i f d) = controls d"
  "sessions (upd_attempt i f d) = sessions d"
  "messages (upd_attempt i f d) = messages d"
  "snapshots (upd_attempt i f d) = snapshots d"
  "analyses (upd_attempt i f d) = analyses d"
  "budget_days (upd_attempt i f d) = budget_days d"
  by (simp_all add: upd_attempt_def)

lemma upd_campaign_frame [simp]:
  "contacts (upd_campaign i f d) = contacts d" "attempts (upd_campaign i f d) = attempts d"
  "policies (upd_campaign i f d) = policies d" "suppressions (upd_campaign i f d) = suppressions d"
  "events (upd_campaign i f d) = events d" "audits (upd_campaign i f d) = audits d"
  "processed (upd_campaign i f d) = processed d" "controls (upd_campaign i f d) = controls d"
  "sessions (upd_campaign i f d) = sessions d"
  "messages (upd_campaign i f d) = messages d"
  "snapshots (upd_campaign i f d) = snapshots d"
  "analyses (upd_campaign i f d) = analyses d"
  "budget_days (upd_campaign i f d) = budget_days d"
  by (simp_all add: upd_campaign_def)

lemma record_audit_event_frame [simp]:
  "contacts (record_audit_event a b c e m d) = contacts d"
  "attempts (record_audit_event a b c e m d) = attempts d"
  "campaigns (record_audit_event a b c e m d) = campaigns d"
  "policies (record_audit_event a b c e m d) = policies d"
  "suppressions (record_audit_event a b c e m d) = suppressions d"
  "events (record_audit_event a b c e m d) = events d"
  "processed (record_audit_event a b c e m d) = processed d"
  "controls (record_audit_event a b c e m d) = controls d"
  "length (audits (record_audit_event a b c e m d)) = Suc (length (audits d))"
  "sessions (record_audit_event a b c e m d) = sessions d"
  "messages (record_audit_event a b c e m d) = messages d"
  "snapshots (record_audit_event a b c e m d) = snapshots d"
  "analyses (record_audit_event a b c e m d) = analyses d"
  "budget_days (record_audit_event a b c e m d) = budget_days d"
  by (simp_all add: record_audit_event_def)

lemma add_call_event_frame [simp]:
  "contacts (add_call_event a t p d) = contacts d" "attempts (add_call_event a t p d) = attempts d"
  "campaigns (add_call_event a t p d) = campaigns d" "policies (add_call_event a t p d) = policies d"
  "suppressions (add_call_event a t p d) = suppressions d" "audits (add_call_event a t p d) = audits d"
  "processed (add_call_event a t p d) = processed d" "controls (add_call_event a t p d) = controls d"
  "sessions (add_call_event a t p d) = sessions d"
  "messages (add_call_event a t p d) = messages d"
  "snapshots (add_call_event a t p d) = snapshots d"
  "analyses (add_call_event a t p d) = analyses d"
  "budget_days (add_call_event a t p d) = budget_days d"
  by (simp_all add: add_call_event_def)

lemma get_contact_cong [simp]:
  "get_contact j (upd_attempt i f d) = get_contact j d"
  "get_contact j (upd_campaign i g d) = get_contact j d"
  "get_contact j (record_audit_event a b c e m d) = get_contact j d"
  "get_contact j (add_call_event x t p d) = get_contact j d"
  by (simp_all add: get_contact_def)

lemma get_attempt_cong [simp]:
  "get_attempt j (upd_contact i f d) = get_attempt j d"
  "get_attempt j (upd_campaign i g d) = get_attempt j d"
  "get_attempt j (record_audit_event a b c e m d) = get_attempt j d"
  "get_attempt j (add_call_event x t p d) = get_attempt j d"
  by (simp_all add: get_attempt_def)

lemma get_campaign_cong [simp]:
  "get_campaign j (upd_contact i f d) = get_campaign j d"
  "get_campaign j (upd_attempt i g d) = get_campaign j d"
  "get_campaign j (record_audit_event a b c e m d) = get_campaign j d"
  "get_campaign j (add_call_event x t p d) = get_campaign j d"
  by (simp_all add: get_campaign_def)

section \<open>Settings\<close>

record analysis_settings =
  as_initial_delay :: int
  as_max_attempts :: int
  as_lease_s :: int
  as_retry_base_s :: int
  as_retry_max_s :: int
  as_qa_deadline_s :: int
  as_batch :: int
  as_republish_s :: int
  as_lookback_h :: int
  as_max_messages :: int
  as_max_message_chars :: int
  as_max_transcript_chars :: int
  as_cap :: "rat option"
  as_cost :: "rat option"
  as_recheck_s :: int
  as_provider :: string

record settings =
  st_default_region :: string
  st_default_timezone :: string
  st_allowed_dial_regions :: "string list"
  st_hard_start :: time_of_day
  st_hard_end :: time_of_day
  st_window_start :: time_of_day
  st_window_end :: time_of_day
  st_default_max_retries :: int
  st_default_spacing :: "int list"
  st_max_retries_ceiling :: int
  st_min_backoff :: int
  st_max_backoff :: int
  st_daily_dial_cap :: int
  st_daily_spend_cap :: "rat option"
  st_cost_per_minute :: "rat option"
  st_minutes_per_unknown :: rat
  st_budget_timezone :: string
  st_budget_cache_ttl :: int
  st_outbound_kill_switch :: bool
  st_kill_switch_cache :: int
  st_halt_threshold :: int
  st_streak_ttl :: int
  st_global_cps :: int
  st_campaign_cps :: int
  st_provider_cps :: int
  st_global_conc :: int
  st_campaign_conc :: int
  st_provider_conc :: int
  st_lease_ttl :: int
  st_breaker_threshold :: int
  st_breaker_open_s :: int
  st_queue_max_backlog :: int
  st_queue_max_deliveries :: int
  st_queue_reclaim_idle_ms :: int
  st_job_deadline_s :: int
  st_enqueue_page_size :: int
  st_retry_redispatch_s :: int
  st_rebuild_batch :: int
  st_stuck_after_s :: int
  st_sweeper_batch :: int
  st_dograh_connect_us :: int
  st_dograh_read_us :: int
  st_opt_out_dispositions :: "string list"
  st_retry_after_max_s :: int
  st_provider_error_max_retries :: int
  st_reconcile_max_deferrals :: int
  st_calling_engine :: string
  st_telephony_provider :: string
  st_dograh_workflow_id :: "int option"
  st_analysis :: analysis_settings

definition default_analysis_settings :: analysis_settings where
  "default_analysis_settings = \<lparr>
    as_initial_delay = 0, as_max_attempts = 3, as_lease_s = 120,
    as_retry_base_s = 30, as_retry_max_s = 900, as_qa_deadline_s = 1800,
    as_batch = 100, as_republish_s = 300, as_lookback_h = 72,
    as_max_messages = 200, as_max_message_chars = 2000,
    as_max_transcript_chars = 60000, as_cap = None, as_cost = None,
    as_recheck_s = 600, as_provider = ''mock'' \<rparr>"

definition default_settings :: settings where
  "default_settings = \<lparr>
    st_default_region = ''IN'', st_default_timezone = ''Asia/Kolkata'',
    st_allowed_dial_regions = [''IN''],
    st_hard_start = clock 9 0, st_hard_end = clock 21 0,
    st_window_start = clock 9 0, st_window_end = clock 21 0,
    st_default_max_retries = 2, st_default_spacing = [3600, 14400],
    st_max_retries_ceiling = 5, st_min_backoff = 300, st_max_backoff = 604800,
    st_daily_dial_cap = 1000, st_daily_spend_cap = None, st_cost_per_minute = None,
    st_minutes_per_unknown = 1, st_budget_timezone = ''Asia/Kolkata'',
    st_budget_cache_ttl = seconds 2,
    st_outbound_kill_switch = False, st_kill_switch_cache = seconds 2, st_halt_threshold = 5, st_streak_ttl = 3600,
    st_global_cps = 20, st_campaign_cps = 5, st_provider_cps = 20,
    st_global_conc = 100, st_campaign_conc = 30, st_provider_conc = 100,
    st_lease_ttl = 120, st_breaker_threshold = 5, st_breaker_open_s = 30,
    st_queue_max_backlog = 200000, st_queue_max_deliveries = 10,
    st_queue_reclaim_idle_ms = 30000, st_job_deadline_s = 25,
    st_enqueue_page_size = 500, st_retry_redispatch_s = 900, st_rebuild_batch = 500,
    st_stuck_after_s = 3600, st_sweeper_batch = 100,
    st_dograh_connect_us = seconds 5, st_dograh_read_us = seconds 15,
    st_opt_out_dispositions = [''do_not_call''], st_retry_after_max_s = 3600,
    st_provider_error_max_retries = 2, st_reconcile_max_deferrals = 5,
    st_calling_engine = ''native'', st_telephony_provider = ''mock'',
    st_dograh_workflow_id = None,
    st_analysis = default_analysis_settings \<rparr>"

section \<open>Lemmas on claims and attempts\<close>

text \<open>A claimed event is claimed once: the second delivery sees False and changes nothing.\<close>

lemma claim_event_twice:
  "claim_event t i ty (snd (claim_event t' i ty' d)) = (False, snd (claim_event t' i ty' d))"
  by (auto simp: claim_event_def get_row_snoc split: option.splits)

lemma get_or_create_unique:
  assumes "attempts_unique d" "attempts_unique (other d)"
    and "get_or_create other now i contact n d = (a, created, d')"
  shows "attempts_unique d' \<and> get_by_contact_and_number contact n d' = Some a"
proof (cases "get_by_contact_and_number contact n d")
  case None
  show ?thesis
  proof (cases "get_by_contact_and_number contact n (other d)")
    case None2: None
    show ?thesis using assms None None2
      by (auto simp: get_or_create_def Let_def attempts_unique_def keys_distinct_snoc
        get_by_contact_and_number_row get_row_snoc)
  qed (use assms None in \<open>auto simp: get_or_create_def\<close>)
qed (use assms in \<open>auto simp: get_or_create_def\<close>)

end
