(* ===== verification/Calling_Window.thy ===== *)
theory Calling_Window imports Data_Model "HOL-Library.Product_Lexorder" begin

text \<open>
  \<open>app/services/calling_window.py\<close>: the arithmetic of calling windows. A zone is what the code
  uses of a \<open>ZoneInfo\<close>: the UTC offset in force at an instant (\<open>astimezone\<close>) and the offset a
  wall-clock reading is resolved with (\<open>datetime(..., tzinfo=tz).astimezone(UTC)\<close>). The zone
  database is a parameter \<open>tzdb\<close>. Every instant is aware by its type, so the \<open>_aware\<close> check
  has no branch here. The theorems on the next opening hold in zones whose offset does not change
  (the deployment's default zone, Asia/Kolkata, is one of them).
\<close>

section \<open>Zones and wall clocks\<close>

record zone =
  z_offset :: "instant \<Rightarrow> int"
  z_wall_offset :: "int \<Rightarrow> int"

type_synonym tzdb = "string \<Rightarrow> zone option"

datatype window_error = InvalidTimezone | WindowValueError | NoDialableWindow

definition load_timezone :: "tzdb \<Rightarrow> string \<Rightarrow> window_error + zone" where
  "load_timezone db name =
    (if py_strip name = [] \<or> length name > 64 then Inl InvalidTimezone
     else case db name of None \<Rightarrow> Inl InvalidTimezone | Some z \<Rightarrow> Inr z)"

definition wall :: "zone \<Rightarrow> instant \<Rightarrow> int" where
  "wall z t = t + z_offset z t"

definition local_date :: "zone \<Rightarrow> instant \<Rightarrow> int" where
  "local_date z t = wall z t div day_us"

definition local_time :: "zone \<Rightarrow> instant \<Rightarrow> time_of_day" where
  "local_time z t = wall z t mod day_us"

definition wall_reading :: "int \<Rightarrow> int \<Rightarrow> int \<Rightarrow> int \<Rightarrow> int \<Rightarrow> int" where
  "wall_reading date h m s us = date * day_us + seconds (h * 3600 + m * 60 + s) + us"

definition to_utc :: "zone \<Rightarrow> int \<Rightarrow> instant" where
  "to_utc z w = w - z_wall_offset z w"

definition fixed_zone :: "int \<Rightarrow> zone" where
  "fixed_zone off = \<lparr> z_offset = (\<lambda>_. off), z_wall_offset = (\<lambda>_. off) \<rparr>"

section \<open>Windows\<close>

definition intervals :: "time_of_day \<Rightarrow> time_of_day \<Rightarrow> window_error + (int \<times> int) list" where
  "intervals s e =
    (if s = e then Inl WindowValueError
     else if s < e then Inr [(s, e)]
     else Inr ([(s, day_us)] @ (if e > 0 then [(0, e)] else [])))"

definition covers :: "(int \<times> int) list \<Rightarrow> int \<Rightarrow> bool" where
  "covers ivs t = list_ex (\<lambda>(s, e). s \<le> t \<and> t < e) ivs"

definition intersect :: "(int \<times> int) list \<Rightarrow> (int \<times> int) list \<Rightarrow> (int \<times> int) list" where
  "intersect a b = sort [(max s1 s2, min e1 e2). (s1, e1) \<leftarrow> a, (s2, e2) \<leftarrow> b, max s1 s2 < min e1 e2]"

definition is_within_calling_window ::
    "instant \<Rightarrow> zone \<Rightarrow> time_of_day \<Rightarrow> time_of_day \<Rightarrow> window_error + bool" where
  "is_within_calling_window now z s e =
    rbind (intervals s e) (\<lambda>ivs. Inr (covers ivs (local_time z now)))"

definition is_dialable_now :: "instant \<Rightarrow> zone \<Rightarrow> time_of_day \<Rightarrow> time_of_day \<Rightarrow>
    time_of_day \<Rightarrow> time_of_day \<Rightarrow> window_error + bool" where
  "is_dialable_now now z s e hs he =
    rbind (is_within_calling_window now z s e)
      (\<lambda>b. if b then is_within_calling_window now z hs he else Inr False)"

definition window_within_bound ::
    "time_of_day \<Rightarrow> time_of_day \<Rightarrow> time_of_day \<Rightarrow> time_of_day \<Rightarrow> window_error + bool" where
  "window_within_bound s e hs he =
    rbind (intervals hs he) (\<lambda>bound. rbind (intervals s e) (\<lambda>ivs.
      Inr (list_all (\<lambda>(s, e). list_ex (\<lambda>(bs, be). bs \<le> s \<and> e \<le> be) bound) ivs)))"

text \<open>The minute-by-minute scan past a spring-forward gap (at most 180 probes).\<close>

fun scan_open :: "nat \<Rightarrow> zone \<Rightarrow> time_of_day \<Rightarrow> time_of_day \<Rightarrow> time_of_day \<Rightarrow> time_of_day \<Rightarrow>
    instant \<Rightarrow> window_error + instant" where
  "scan_open 0 z s e hs he cand = Inr cand"
| "scan_open (Suc n) z s e hs he cand =
    rbind (is_dialable_now cand z s e hs he)
      (\<lambda>b. if b then Inr cand else scan_open n z s e hs he (cand + minutes 1))"

definition span_open :: "zone \<Rightarrow> int \<Rightarrow> int \<Rightarrow> instant" where
  "span_open z date span_start =
    (let whole = span_start div 1000000 in
     to_utc z (wall_reading date (whole div 3600) (whole mod 3600 div 60) (whole mod 60)
       (span_start - whole * 1000000)))"

definition better :: "instant \<Rightarrow> instant option \<Rightarrow> instant \<Rightarrow> instant option" where
  "better now best cand =
    (if cand > now \<and> (case best of None \<Rightarrow> True | Some b \<Rightarrow> cand < b) then Some cand else best)"

fun best_opening :: "instant \<Rightarrow> zone \<Rightarrow> time_of_day \<Rightarrow> time_of_day \<Rightarrow> time_of_day \<Rightarrow> time_of_day \<Rightarrow>
    (int \<times> int) list \<Rightarrow> instant option \<Rightarrow> window_error + instant option" where
  "best_opening now z s e hs he [] best = Inr best"
| "best_opening now z s e hs he ((date, start) # rest) best =
    rbind (scan_open 180 z s e hs he (span_open z date start))
      (\<lambda>cand. best_opening now z s e hs he rest (better now best cand))"

definition next_window_open :: "instant \<Rightarrow> zone \<Rightarrow> time_of_day \<Rightarrow> time_of_day \<Rightarrow>
    time_of_day \<Rightarrow> time_of_day \<Rightarrow> window_error + instant" where
  "next_window_open now z s e hs he =
    rbind (is_dialable_now now z s e hs he) (\<lambda>open_now.
      if open_now then Inr now
      else rbind (intervals s e) (\<lambda>a. rbind (intervals hs he) (\<lambda>b.
        let spans = intersect a b in
        if spans = [] then Inl NoDialableWindow
        else rbind (best_opening now z s e hs he
               [(local_date z now + d, start). d \<leftarrow> [0, 1, 2], (start, _) \<leftarrow> spans] None)
             (\<lambda>best. case best of None \<Rightarrow> Inl NoDialableWindow | Some t \<Rightarrow> Inr t))))"

section \<open>Facts on intervals\<close>

lemma covers_iff: "covers ivs t \<longleftrightarrow> (\<exists>(s, e) \<in> set ivs. s \<le> t \<and> t < e)"
  by (auto simp: covers_def list_ex_iff)

lemma in_intersect: "(p, q) \<in> set (intersect a b) \<longleftrightarrow>
    (\<exists>s1 e1 s2 e2. (s1, e1) \<in> set a \<and> (s2, e2) \<in> set b \<and> max s1 s2 < min e1 e2 \<and>
      p = max s1 s2 \<and> q = min e1 e2)"
  by (simp add: intersect_def) blast

lemma covers_intersect: "covers (intersect a b) t \<longleftrightarrow> covers a t \<and> covers b t"
proof
  assume "covers (intersect a b) t"
  then show "covers a t \<and> covers b t"
    unfolding covers_iff by (clarsimp simp: in_intersect) (metis (no_types, lifting) case_prodI)
next
  assume "covers a t \<and> covers b t"
  then obtain s1 e1 s2 e2 where "(s1, e1) \<in> set a" "(s2, e2) \<in> set b"
      and t: "s1 \<le> t" "t < e1" "s2 \<le> t" "t < e2"
    unfolding covers_iff by blast
  then have "(max s1 s2, min e1 e2) \<in> set (intersect a b)"
    unfolding in_intersect by force
  with t show "covers (intersect a b) t"
    unfolding covers_iff by (intro bexI [of _ "(max s1 s2, min e1 e2)"]) auto
qed

lemma intervals_wf:
  "valid_time s \<Longrightarrow> valid_time e \<Longrightarrow> intervals s e = Inr ivs \<Longrightarrow> (p, q) \<in> set ivs \<Longrightarrow>
    0 \<le> p \<and> p < q \<and> q \<le> day_us"
  by (auto simp: intervals_def valid_time_def split: if_splits)

lemma intersect_wf:
  assumes "\<forall>(p, q) \<in> set a. 0 \<le> p \<and> p < q \<and> q \<le> day_us" and "(p, q) \<in> set (intersect a b)"
    and "\<forall>(p, q) \<in> set b. 0 \<le> p \<and> p < q \<and> q \<le> day_us"
  shows "0 \<le> p \<and> p < q \<and> q \<le> day_us"
  using assms unfolding in_intersect by force

lemma intervals_ok: "s \<noteq> e \<Longrightarrow> \<exists>ivs. intervals s e = Inr ivs"
  by (simp add: intervals_def)

lemma covers_intervals:
  "valid_time s \<Longrightarrow> valid_time e \<Longrightarrow> valid_time t \<Longrightarrow> intervals s e = Inr ivs \<Longrightarrow>
    covers ivs t \<longleftrightarrow> (if s < e then s \<le> t \<and> t < e else s \<le> t \<or> t < e)"
  by (auto simp: intervals_def valid_time_def covers_def split: if_splits)

lemma local_time_valid [simp]: "valid_time (local_time z t)"
  by (simp add: valid_time_def local_time_def day_us_def)

lemma hms_recompose: "(w div 3600) * 3600 + (w mod 3600 div 60) * 60 + w mod 60 = (w :: int)"
proof -
  have "(w mod 3600 div 60) * 60 + w mod 3600 mod 60 = w mod 3600"
    by (rule div_mult_mod_eq)
  moreover have "w mod 3600 mod 60 = w mod 60"
    by (rule mod_mod_cancel) simp
  ultimately show ?thesis
    using div_mult_mod_eq [of w 3600] by linarith
qed

lemma span_open_eq: "span_open z date p = to_utc z (date * day_us + p)"
  by (simp add: span_open_def Let_def wall_reading_def hms_recompose seconds_def)

lemma fixed_zone_sel [simp]:
  "z_offset (fixed_zone off) t = off" "z_wall_offset (fixed_zone off) t = off"
  by (simp_all add: fixed_zone_def)

lemma local_time_span:
  "0 \<le> p \<Longrightarrow> p < day_us \<Longrightarrow> local_time (fixed_zone off) (span_open (fixed_zone off) date p) = p"
  by (simp add: local_time_def wall_def span_open_eq to_utc_def)

section \<open>The clamp and the save-time check\<close>

lemma is_dialable_now_iff:
  "is_dialable_now now z s e hs he = Inr True \<longleftrightarrow>
    is_within_calling_window now z s e = Inr True \<and> is_within_calling_window now z hs he = Inr True"
  by (auto simp: is_dialable_now_def rbind_Inr_iff)

lemma is_within_iff:
  assumes "valid_time s" "valid_time e"
  shows "is_within_calling_window now z s e = Inr True \<longleftrightarrow>
    s \<noteq> e \<and> (if s < e then s \<le> local_time z now \<and> local_time z now < e
              else s \<le> local_time z now \<or> local_time z now < e)"
proof (cases "s = e")
  case False
  then obtain ivs where "intervals s e = Inr ivs" using intervals_ok by blast
  then show ?thesis using False covers_intervals [OF assms local_time_valid]
    by (simp add: is_within_calling_window_def)
qed (simp add: is_within_calling_window_def intervals_def)

text \<open>
  A call may be placed only when the wall clock of the campaign's zone is inside the campaign's
  window and inside the global hard bound, for daytime and overnight windows alike; the hard bound
  holds whatever the campaign's row says.
\<close>

theorem dialable_now_iff:
  assumes "valid_time s" "valid_time e" "valid_time hs" "valid_time he"
  shows "is_dialable_now now z s e hs he = Inr True \<longleftrightarrow>
    s \<noteq> e \<and> hs \<noteq> he \<and>
    (if s < e then s \<le> local_time z now \<and> local_time z now < e
     else s \<le> local_time z now \<or> local_time z now < e) \<and>
    (if hs < he then hs \<le> local_time z now \<and> local_time z now < he
     else hs \<le> local_time z now \<or> local_time z now < he)"
  using assms by (simp only: is_dialable_now_iff is_within_iff) blast

theorem dialable_now_iff_witness:
  "is_dialable_now (clock 6 0) (fixed_zone (minutes 330)) (clock 10 0) (clock 18 0) (clock 9 0) (clock 21 0)
    = Inr True"
  using dialable_now_iff [of "clock 10 0" "clock 18 0" "clock 9 0" "clock 21 0" "clock 6 0" "fixed_zone (minutes 330)"]
  by (simp add: valid_time_def clock_def day_us_def minutes_def seconds_def local_time_def wall_def)

lemma covering_interval:
  assumes "valid_time hs" "valid_time he" "intervals hs he = Inr bound"
    and "p < q" "0 \<le> p" "q \<le> day_us" "\<And>t. p \<le> t \<Longrightarrow> t < q \<Longrightarrow> covers bound t"
  shows "list_ex (\<lambda>(bs, be). bs \<le> p \<and> q \<le> be) bound"
proof (cases "hs < he")
  case True
  then have b: "bound = [(hs, he)]" using assms(3) by (auto simp: intervals_def split: if_splits)
  from assms(4) assms(7) [of p] assms(7) [of "q - 1"] show ?thesis by (simp add: b covers_def)
next
  case False
  then have b: "bound = (hs, day_us) # (if he > 0 then [(0, he)] else [])" and "he < hs"
    using assms(3) by (auto simp: intervals_def split: if_splits)
  from assms(4) assms(7) [of p] assms(7) [of "q - 1"] assms(7) [of he] assms(5,6) \<open>he < hs\<close>
  show ?thesis by (auto simp: b covers_def split: if_splits)
qed

text \<open>
  The save-time check accepts a window exactly when every time of day of it lies inside the
  hard bound; so a stored window never needs the clamp.
\<close>

theorem window_within_bound_iff_subset:
  assumes "valid_time s" "valid_time e" "valid_time hs" "valid_time he" and "s \<noteq> e" "hs \<noteq> he"
  shows "window_within_bound s e hs he = Inr True \<longleftrightarrow>
    (\<forall>z now. is_within_calling_window now z s e = Inr True \<longrightarrow>
             is_within_calling_window now z hs he = Inr True)"
proof -
  obtain ivs bound where i: "intervals s e = Inr ivs" and b: "intervals hs he = Inr bound"
    using assms intervals_ok by metis
  have w: "window_within_bound s e hs he = Inr True \<longleftrightarrow>
      (\<forall>(p, q) \<in> set ivs. list_ex (\<lambda>(bs, be). bs \<le> p \<and> q \<le> be) bound)"
    by (simp add: window_within_bound_def i b list_all_iff)
  have in_day: "covers ivs t \<Longrightarrow> \<exists>z now. local_time z now = t" for t
    using intervals_wf [OF assms(1,2) i]
    by (intro exI [of _ "fixed_zone 0"] exI [of _ t])
      (fastforce simp: covers_iff local_time_def wall_def)
  have "(\<forall>(p, q) \<in> set ivs. list_ex (\<lambda>(bs, be). bs \<le> p \<and> q \<le> be) bound) \<longleftrightarrow>
      (\<forall>t. covers ivs t \<longrightarrow> covers bound t)" (is "?L \<longleftrightarrow> ?R")
  proof
    assume L: ?L
    show ?R
    proof (intro allI impI)
      fix t assume "covers ivs t"
      then obtain p q where "(p, q) \<in> set ivs" and t: "p \<le> t" "t < q" by (auto simp: covers_iff)
      with L obtain bs be where "(bs, be) \<in> set bound" "bs \<le> p" "q \<le> be"
        by (auto simp: list_ex_iff)
      with t show "covers bound t" by (auto simp: covers_iff intro!: bexI [of _ "(bs, be)"])
    qed
  next
    assume R: ?R
    show ?L
    proof clarify
      fix p q assume pq: "(p, q) \<in> set ivs"
      have "covers bound t" if "p \<le> t" "t < q" for t
        using R pq that by (auto simp: covers_iff)
      with intervals_wf [OF assms(1,2) i pq] covering_interval [OF assms(3,4) b]
      show "list_ex (\<lambda>(bs, be). bs \<le> p \<and> q \<le> be) bound" by blast
    qed
  qed
  with w in_day show ?thesis by (auto simp: is_within_calling_window_def i b)
qed

theorem window_within_bound_witness:
  "window_within_bound (clock 22 0) (clock 6 0) (clock 21 0) (clock 7 0) = Inr True \<longleftrightarrow>
    (\<forall>z now. is_within_calling_window now z (clock 22 0) (clock 6 0) = Inr True \<longrightarrow>
             is_within_calling_window now z (clock 21 0) (clock 7 0) = Inr True)"
  using window_within_bound_iff_subset [of "clock 22 0" "clock 6 0" "clock 21 0" "clock 7 0"]
  by (simp add: valid_time_def clock_def day_us_def minutes_def seconds_def)

section \<open>The next opening\<close>

text \<open>What the fold over the candidate openings keeps: the least candidate after \<open>now\<close>.\<close>

definition fixed_dialable :: "int \<Rightarrow> (int \<times> int) list \<Rightarrow> instant \<Rightarrow> bool" where
  "fixed_dialable off spans t \<longleftrightarrow> covers spans (local_time (fixed_zone off) t)"

lemma is_dialable_spans:
  assumes "intervals s e = Inr a" "intervals hs he = Inr b"
  shows "is_dialable_now t (fixed_zone off) s e hs he = Inr (fixed_dialable off (intersect a b) t)"
  using assms
  by (simp add: is_dialable_now_def is_within_calling_window_def fixed_dialable_def covers_intersect)

lemma best_opening_fixed:
  assumes "intervals s e = Inr a" "intervals hs he = Inr b"
    and "\<forall>(d, p) \<in> set cands. fixed_dialable off (intersect a b) (span_open (fixed_zone off) d p)"
  shows "best_opening now (fixed_zone off) s e hs he cands best =
    Inr (foldl (better now) best (map (\<lambda>(d, p). span_open (fixed_zone off) d p) cands))"
  using assms(3)
proof (induction cands arbitrary: best)
  case (Cons c cands)
  obtain d p where c: "c = (d, p)" by (cases c)
  have "scan_open 180 (fixed_zone off) s e hs he (span_open (fixed_zone off) d p) =
      Inr (span_open (fixed_zone off) d p)"
    using Cons.prems by (simp add: c is_dialable_spans [OF assms(1,2)] numeral_eq_Suc)
  with Cons show ?case by (simp add: c)
qed simp

lemma better_spec:
  "better now best t = r \<Longrightarrow>
    (case r of None \<Rightarrow> best = None \<and> t \<le> now
     | Some m \<Rightarrow> (m = t \<and> t > now \<or> best = Some m) \<and> (t > now \<longrightarrow> m \<le> t) \<and>
         (\<forall>b. best = Some b \<longrightarrow> m \<le> b))"
  by (cases best) (auto simp: better_def split: if_splits)

lemma foldl_better:
  "foldl (better now) best ts = r \<Longrightarrow>
    (case r of None \<Rightarrow> best = None \<and> (\<forall>t \<in> set ts. t \<le> now)
     | Some m \<Rightarrow> (m \<in> set ts \<and> m > now \<or> best = Some m) \<and>
         (\<forall>t \<in> set ts. t > now \<longrightarrow> m \<le> t) \<and> (\<forall>b. best = Some b \<longrightarrow> m \<le> b))"
proof (induction ts arbitrary: best)
  case (Cons t ts)
  obtain q where q: "better now best t = q" by simp
  show ?case
    using Cons.IH [of q] Cons.prems better_spec [OF q] q
    by (cases r; cases q) force+
qed (auto split: option.split)

lemma wall_split: "t + off = local_date (fixed_zone off) t * day_us + local_time (fixed_zone off) t"
  by (simp add: local_date_def local_time_def wall_def)

text \<open>In a zone with a fixed offset, whatever is open at \<open>t\<close> opened at a span start before it.\<close>

lemma opened_before:
  assumes "fixed_dialable off spans t" "\<not> fixed_dialable off spans now" "now \<le> t"
    and "\<forall>(p, q) \<in> set spans. 0 \<le> p \<and> p < q \<and> q \<le> day_us"
  shows "\<exists>p q. (p, q) \<in> set spans \<and>
    now < span_open (fixed_zone off) (local_date (fixed_zone off) t) p \<and>
    span_open (fixed_zone off) (local_date (fixed_zone off) t) p \<le> t"
proof -
  let ?z = "fixed_zone off"
  obtain p q where pq: "(p, q) \<in> set spans" "p \<le> local_time ?z t" "local_time ?z t < q"
    using assms(1) by (auto simp: fixed_dialable_def covers_iff)
  let ?c = "span_open ?z (local_date ?z t) p"
  have c: "?c = local_date ?z t * day_us + p - off" by (simp add: span_open_eq to_utc_def)
  have "?c \<le> t" using wall_split [of t off] pq c by simp
  moreover have "now < ?c"
  proof (rule ccontr)
    assume "\<not> now < ?c"
    then have lo: "local_date ?z t * day_us + p \<le> now + off" using c by simp
    have hi: "now + off \<le> local_date ?z t * day_us + local_time ?z t"
      using assms(3) wall_split [of t off] by simp
    have "0 \<le> p" "local_time ?z t < day_us"
      using assms(4) pq by (auto simp: local_time_def day_us_def)
    with lo hi have "(now + off) div day_us = local_date ?z t"
      by (intro int_div_pos_eq [of _ _ _ "now + off - local_date ?z t * day_us"]) simp_all
    then have "local_date ?z now = local_date ?z t" by (simp add: local_date_def wall_def)
    then have "p \<le> local_time ?z now" "local_time ?z now \<le> local_time ?z t"
      using lo hi wall_split [of now off] by simp_all
    with pq assms(2) show False by (auto simp: fixed_dialable_def covers_iff)
  qed
  ultimately show ?thesis using pq by blast
qed

lemma local_date_mono: "now \<le> t \<Longrightarrow> local_date (fixed_zone off) now \<le> local_date (fixed_zone off) t"
  by (simp add: local_date_def wall_def day_us_def zdiv_mono1)

lemma span_open_mono:
  "d < d' \<Longrightarrow> 0 \<le> p' \<Longrightarrow> p < day_us \<Longrightarrow>
    span_open (fixed_zone off) d p < span_open (fixed_zone off) d' p'"
proof -
  assume "d < d'" "0 \<le> p'" "p < day_us"
  then have "(d + 1) * day_us \<le> d' * day_us" by (intro mult_right_mono) (simp_all add: day_us_def)
  with \<open>p < day_us\<close> \<open>0 \<le> p'\<close> show ?thesis by (simp add: span_open_eq to_utc_def algebra_simps)
qed

lemma after_today: "0 \<le> p \<Longrightarrow> now < span_open (fixed_zone off) (local_date (fixed_zone off) now + 1) p"
  using wall_split [of now off] local_time_valid [of "fixed_zone off" now]
  by (simp add: span_open_eq to_utc_def valid_time_def algebra_simps)

lemma set_candidates:
  "set [(D + d, start). d \<leftarrow> [0, 1, 2], (start, _) \<leftarrow> spans] =
    {(D + d, p) | d p. d \<in> {0, 1, 2} \<and> p \<in> fst ` set spans}" for D :: int
  by force

text \<open>The search among today's, tomorrow's and the spare day's openings, in a fixed-offset zone.\<close>

lemma opening_search:
  assumes wf: "\<forall>(p, q) \<in> set spans. 0 \<le> p \<and> p < q \<and> q \<le> day_us" and ne: "spans \<noteq> []"
    and closed: "\<not> fixed_dialable off spans now"
    and cands: "set cands = {(local_date (fixed_zone off) now + d, p) | d p.
        d \<in> {0, 1, 2} \<and> p \<in> fst ` set spans}"
    and fold: "foldl (better now) None (map (\<lambda>(d, p). span_open (fixed_zone off) d p) cands) = r"
  shows "\<exists>m. r = Some m \<and> now < m \<and> fixed_dialable off spans m \<and>
    (\<forall>t. now \<le> t \<and> t < m \<longrightarrow> \<not> fixed_dialable off spans t)"
proof -
  let ?z = "fixed_zone off" and ?D = "local_date (fixed_zone off) now"
  have spec: "case r of None \<Rightarrow> \<forall>(d, p) \<in> set cands. span_open ?z d p \<le> now
     | Some m \<Rightarrow> (\<exists>(d, p) \<in> set cands. m = span_open ?z d p) \<and> m > now \<and>
         (\<forall>(d, p) \<in> set cands. span_open ?z d p > now \<longrightarrow> m \<le> span_open ?z d p)"
    using foldl_better [OF fold] by (cases r) force+
  obtain p0 q0 where p0: "(p0, q0) \<in> set spans" using ne by (cases spans) auto
  then have c0: "(?D + 1, p0) \<in> set cands" and "0 \<le> p0" "p0 < day_us"
    using wf by (force simp: cands)+
  with after_today have now0: "now < span_open ?z (?D + 1) p0" by blast
  with c0 spec obtain m where m: "r = Some m" by (cases r) fastforce+
  obtain d p where dp: "(d, p) \<in> set cands" "m = span_open ?z d p" using spec m by auto
  then obtain q where pq: "(p, q) \<in> set spans" by (auto simp: cands)
  have "fixed_dialable off spans m"
    using wf pq dp local_time_span [of p off d] by (fastforce simp: fixed_dialable_def covers_iff)
  moreover have "\<not> fixed_dialable off spans t" if t: "now \<le> t" "t < m" for t
  proof
    assume "fixed_dialable off spans t"
    from opened_before [OF this closed t(1) wf] obtain p1 q1 where
      p1: "(p1, q1) \<in> set spans" and c1: "now < span_open ?z (local_date ?z t) p1"
        "span_open ?z (local_date ?z t) p1 \<le> t" by blast
    show False
    proof (cases "local_date ?z t \<le> ?D + 2")
      case True
      then have "local_date ?z t - ?D \<in> {0, 1, 2}" using local_date_mono [OF t(1), of off] by auto
      moreover have "p1 \<in> fst ` set spans" using p1 by force
      ultimately have "(local_date ?z t, p1) \<in> set cands"
        unfolding cands by (intro CollectI exI [of _ "local_date ?z t - ?D"] exI [of _ p1]) simp
      with spec m c1(1) have "m \<le> span_open ?z (local_date ?z t) p1" by fastforce
      with c1(2) t(2) show False by simp
    next
      case False
      have "0 \<le> p1" using wf p1 by auto
      with False span_open_mono [of "?D + 1" "local_date ?z t" p1 p0 off] \<open>p0 < day_us\<close>
      have "span_open ?z (?D + 1) p0 < span_open ?z (local_date ?z t) p1" by simp
      moreover have "m \<le> span_open ?z (?D + 1) p0" using spec m c0 now0 by fastforce
      ultimately show False using c1(2) t(2) by simp
    qed
  qed
  ultimately show ?thesis using spec m by auto
qed

text \<open>
  In a zone with a fixed offset, \<open>next_window_open\<close> returns the earliest instant from \<open>now\<close>
  on at which a call may be placed; it fails only when no instant at all is dialable.
\<close>

theorem next_window_open_earliest:
  assumes "valid_time s" "valid_time e" "valid_time hs" "valid_time he" and "s \<noteq> e" "hs \<noteq> he"
  shows "case next_window_open now (fixed_zone off) s e hs he of
      Inr m \<Rightarrow> now \<le> m \<and> is_dialable_now m (fixed_zone off) s e hs he = Inr True \<and>
        (\<forall>t. now \<le> t \<and> t < m \<longrightarrow> is_dialable_now t (fixed_zone off) s e hs he = Inr False)
    | Inl err \<Rightarrow> err = NoDialableWindow \<and>
        (\<forall>t. is_dialable_now t (fixed_zone off) s e hs he = Inr False)"
proof -
  obtain a b where a: "intervals s e = Inr a" and b: "intervals hs he = Inr b"
    using assms intervals_ok by metis
  let ?z = "fixed_zone off" and ?spans = "intersect a b"
  note dial = is_dialable_spans [OF a b]
  have wf: "\<forall>(p, q) \<in> set ?spans. 0 \<le> p \<and> p < q \<and> q \<le> day_us"
    using intersect_wf intervals_wf [OF assms(1,2) a] intervals_wf [OF assms(3,4) b] by blast
  show ?thesis
  proof (cases "fixed_dialable off ?spans now")
    case False
    note closed = False
    show ?thesis
    proof (cases "?spans = []")
      case True
      then show ?thesis
        by (simp add: next_window_open_def dial a b fixed_dialable_def covers_def)
    next
      case False
      define cands where "cands = [(local_date ?z now + d, start). d \<leftarrow> [0, 1, 2], (start, _) \<leftarrow> ?spans]"
      define r where "r = foldl (better now) None (map (\<lambda>(d, p). span_open ?z d p) cands)"
      have sc: "set cands = {(local_date ?z now + d, p) | d p. d \<in> {0, 1, 2} \<and> p \<in> fst ` set ?spans}"
        unfolding cands_def by (rule set_candidates)
      have "\<forall>(d, p) \<in> set cands. fixed_dialable off ?spans (span_open ?z d p)"
        using wf local_time_span by (fastforce simp: sc fixed_dialable_def covers_iff)
      from best_opening_fixed [OF a b this, of now None]
      have best: "best_opening now ?z s e hs he cands None = Inr r" by (simp add: r_def)
      from opening_search [OF wf False closed sc r_def [symmetric]] obtain m where
        m: "r = Some m" "now < m" "fixed_dialable off ?spans m"
          "\<forall>t. now \<le> t \<and> t < m \<longrightarrow> \<not> fixed_dialable off ?spans t" by blast
      have "next_window_open now ?z s e hs he = Inr m"
        using closed False best m(1)
        by (simp add: next_window_open_def dial a b cands_def Let_def)
      with m show ?thesis by (simp add: dial)
    qed
  qed (auto simp: next_window_open_def dial)
qed

theorem next_window_open_earliest_witness:
  "case next_window_open 0 (fixed_zone (minutes 330)) (clock 10 0) (clock 18 0) (clock 9 0) (clock 21 0) of
      Inr m \<Rightarrow> 0 \<le> m \<and> is_dialable_now m (fixed_zone (minutes 330)) (clock 10 0) (clock 18 0)
          (clock 9 0) (clock 21 0) = Inr True \<and>
        (\<forall>t. 0 \<le> t \<and> t < m \<longrightarrow> is_dialable_now t (fixed_zone (minutes 330)) (clock 10 0)
          (clock 18 0) (clock 9 0) (clock 21 0) = Inr False)
    | Inl err \<Rightarrow> err = NoDialableWindow \<and> (\<forall>t. is_dialable_now t (fixed_zone (minutes 330))
          (clock 10 0) (clock 18 0) (clock 9 0) (clock 21 0) = Inr False)"
  by (rule next_window_open_earliest) (simp_all add: valid_time_def clock_def day_us_def minutes_def seconds_def)

end
