(* ===== verification/Phone.thy ===== *)
theory Phone imports Calling_Window begin

text \<open>
  \<open>app/services/phone.py\<close> and the environment the services read. The \<open>phonenumbers\<close> library, the
  Unicode tables, the zone database and the keyed hash are not code of the repository: they are
  the fields of \<open>env\<close>, next to the settings. \<open>'p\<close> is the library's parsed number.
\<close>

datatype parse_error = ParseTooLong | ParseOther

datatype phone_error = P_EMPTY | P_INVALID_NUMBER | P_TOO_LONG | P_REGION_NOT_ALLOWED

record 'p env =
  ev_settings :: settings
  ev_tzdb :: tzdb
  ev_parse :: "string \<Rightarrow> string option \<Rightarrow> parse_error + 'p"
  ev_format :: "'p \<Rightarrow> string"
  ev_valid :: "'p \<Rightarrow> bool"
  ev_region :: "'p \<Rightarrow> string option"
  ev_nfkc :: "string \<Rightarrow> string"
  ev_upper :: "string \<Rightarrow> string"
  ev_fingerprint :: "string \<Rightarrow> string"

fun phone_error_code :: "phone_error \<Rightarrow> string" where
  "phone_error_code P_EMPTY = ''empty''"
| "phone_error_code P_INVALID_NUMBER = ''invalid_number''"
| "phone_error_code P_TOO_LONG = ''too_long''"
| "phone_error_code P_REGION_NOT_ALLOWED = ''region_not_allowed''"

record normalized_phone =
  np_e164 :: string
  np_region :: string

definition py_digit :: "char \<Rightarrow> bool" where
  "py_digit c \<longleftrightarrow> (let n = of_char c :: nat in 48 \<le> n \<and> n \<le> 57)"

text \<open>\<open>_ALLOWED_CHARS\<close>: an optional plus, then one or more digits, blanks or \<open>( ) . -\<close>.\<close>

definition phone_char :: "char \<Rightarrow> bool" where
  "phone_char c \<longleftrightarrow> py_digit c \<or> py_space c \<or> c \<in> set ''().-''"

definition allowed_chars :: "string \<Rightarrow> bool" where
  "allowed_chars s =
    (case s of [] \<Rightarrow> False
     | c # cs \<Rightarrow> (if c = CHR ''+'' then cs \<noteq> [] \<and> list_all phone_char cs
                 else list_all phone_char (c # cs)))"

definition normalize_phone ::
    "'p env \<Rightarrow> string option \<Rightarrow> string \<Rightarrow> string list option \<Rightarrow> phone_error + normalized_phone" where
  "normalize_phone w raw region allowed =
    (case raw of
       None \<Rightarrow> Inl P_EMPTY
     | Some r \<Rightarrow>
        if py_strip r = [] then Inl P_EMPTY
        else if length (py_strip r) > 64 then Inl P_TOO_LONG
        else let text = ev_nfkc w (py_strip r) in
          if \<not> allowed_chars text \<or> CHR ''+'' \<in> set (drop 1 text) then Inl P_INVALID_NUMBER
          else if length (filter py_digit text) > 15 + 2 then Inl P_TOO_LONG
          else case ev_parse w text (Some region) of
              Inl ParseTooLong \<Rightarrow> Inl P_TOO_LONG
            | Inl ParseOther \<Rightarrow> Inl P_INVALID_NUMBER
            | Inr parsed \<Rightarrow>
                let e164 = ev_format w parsed in
                if length e164 - 1 > 15 then Inl P_TOO_LONG
                else if \<not> ev_valid w parsed then Inl P_INVALID_NUMBER
                else case ev_region w parsed of
                    None \<Rightarrow> Inl P_INVALID_NUMBER
                  | Some rg \<Rightarrow>
                      (case allowed of
                         None \<Rightarrow> Inr \<lparr> np_e164 = e164, np_region = rg \<rparr>
                       | Some rs \<Rightarrow>
                           if rg \<notin> ev_upper w ` set rs then Inl P_REGION_NOT_ALLOWED
                           else Inr \<lparr> np_e164 = e164, np_region = rg \<rparr>))"

definition region_of_e164 :: "'p env \<Rightarrow> string \<Rightarrow> string option" where
  "region_of_e164 w e164 =
    (case ev_parse w e164 None of
       Inl _ \<Rightarrow> None
     | Inr parsed \<Rightarrow> (if \<not> ev_valid w parsed then None else ev_region w parsed))"

definition is_dialable_region :: "'p env \<Rightarrow> string \<Rightarrow> string list \<Rightarrow> bool" where
  "is_dialable_region w e164 allowed =
    (case region_of_e164 w e164 of None \<Rightarrow> False | Some rg \<Rightarrow> rg \<in> ev_upper w ` set allowed)"

definition last4 :: "string \<Rightarrow> string" where
  "last4 e164 = last_n 4 e164"

definition mask_phone_number :: "string \<Rightarrow> string" where
  "mask_phone_number n =
    (if length n \<le> 6 then replicate (length n) (CHR ''*'')
     else take 2 n @ replicate (length n - length (take 2 n) - length (last_n 4 n)) (CHR ''*'')
          @ last_n 4 n)"

text \<open>\<open>suppression_repository.canonical_number\<close>: a number that does not parse is its own key.\<close>

definition canonical_number :: "'p env \<Rightarrow> string \<Rightarrow> string" where
  "canonical_number w number =
    (case normalize_phone w (Some number) (st_default_region (ev_settings w)) None of
       Inr np \<Rightarrow> np_e164 np
     | Inl _ \<Rightarrow> number)"

section \<open>Facts\<close>

lemma normalize_phone_InrD:
  assumes "normalize_phone w raw region allowed = Inr np"
  shows "\<exists>r parsed. raw = Some r \<and> ev_parse w (ev_nfkc w (py_strip r)) (Some region) = Inr parsed \<and>
    np_e164 np = ev_format w parsed \<and> length (np_e164 np) \<le> 16 \<and>
    ev_valid w parsed \<and> ev_region w parsed = Some (np_region np) \<and>
    (\<forall>rs. allowed = Some rs \<longrightarrow> np_region np \<in> ev_upper w ` set rs)"
  using assms
  by (auto simp: normalize_phone_def Let_def split: option.splits if_splits sum.splits parse_error.splits)

lemma normalize_phone_letters:
  "normalize_phone w (Some raw) region allowed = Inr np \<Longrightarrow>
    list_all (\<lambda>c. phone_char c \<or> c = CHR ''+'') (ev_nfkc w (py_strip raw))"
  by (auto simp: normalize_phone_def Let_def allowed_chars_def list_all_iff split: if_splits list.splits)

text \<open>
  A number that is accepted is one the library calls valid, in E.164 form of at most fifteen
  digits, of an allowed region when a region list is given, and it was typed with digits, blanks,
  brackets, dots, hyphens and one leading plus only: no letters, no extensions.
\<close>

theorem normalize_phone_accepts:
  assumes "normalize_phone w (Some raw) region allowed = Inr np"
  shows "(\<exists>parsed. ev_parse w (ev_nfkc w (py_strip raw)) (Some region) = Inr parsed \<and>
      ev_valid w parsed \<and> np_e164 np = ev_format w parsed \<and> ev_region w parsed = Some (np_region np)) \<and>
    length (np_e164 np) \<le> 16 \<and>
    (\<forall>rs. allowed = Some rs \<longrightarrow> np_region np \<in> ev_upper w ` set rs) \<and>
    (\<forall>c \<in> set (drop 1 (ev_nfkc w (py_strip raw))). phone_char c)"
proof -
  have "\<forall>c \<in> set (drop 1 (ev_nfkc w (py_strip raw))). phone_char c"
  proof
    fix c assume c: "c \<in> set (drop 1 (ev_nfkc w (py_strip raw)))"
    then have "c \<noteq> CHR ''+''"
      using assms by (auto simp: normalize_phone_def Let_def split: if_splits)
    moreover have "c \<in> set (ev_nfkc w (py_strip raw))" using c by (meson in_set_dropD)
    ultimately show "phone_char c"
      using normalize_phone_letters [OF assms] by (auto simp: list_all_iff)
  qed
  then show ?thesis using normalize_phone_InrD [OF assms] by auto
qed

lemma length_mask [simp]: "length (mask_phone_number n) = length n"
  by (auto simp: mask_phone_number_def last_n_def)

lemma mask_hides_middle:
  "2 \<le> i \<Longrightarrow> i + 4 < length n \<Longrightarrow> mask_phone_number n ! i = CHR ''*''"
  by (auto simp: mask_phone_number_def last_n_def nth_append)

section \<open>A concrete environment\<close>

text \<open>
  The instance the witnesses run in: a library that takes \<open>+\<close> and digits as they are, prefixes
  \<open>+91\<close> otherwise, knows the region IN by its prefix, and two zones.
\<close>

definition plain_parse :: "string \<Rightarrow> string option \<Rightarrow> parse_error + string" where
  "plain_parse s region =
    (if take 1 s = ''+'' then Inr (filter py_digit s)
     else if region = Some ''IN'' then Inr (''91'' @ filter py_digit s)
     else Inl ParseOther)"

definition plain_env :: "string env" where
  "plain_env = \<lparr> ev_settings = default_settings,
    ev_tzdb = (\<lambda>n. if n = ''Asia/Kolkata'' then Some (fixed_zone (minutes 330))
                   else if n = ''UTC'' then Some (fixed_zone 0) else None),
    ev_parse = plain_parse, ev_format = (\<lambda>p. CHR ''+'' # p),
    ev_valid = (\<lambda>p. length p = 12), ev_region = (\<lambda>p. if take 2 p = ''91'' then Some ''IN'' else None),
    ev_nfkc = (\<lambda>s. s), ev_upper = (\<lambda>s. s), ev_fingerprint = (\<lambda>s. last_n 2 s) \<rparr>"

theorem normalize_phone_accepts_witness:
  "normalize_phone plain_env (Some '' 98765-43210'') ''IN'' (Some [''IN'']) =
      Inr \<lparr> np_e164 = ''+919876543210'', np_region = ''IN'' \<rparr> \<and>
    length ''+919876543210'' \<le> 16"
proof -
  have n: "normalize_phone plain_env (Some '' 98765-43210'') ''IN'' (Some [''IN'']) =
      Inr \<lparr> np_e164 = ''+919876543210'', np_region = ''IN'' \<rparr>"
    by code_simp
  from normalize_phone_accepts [OF n] n show ?thesis by simp
qed

end
