(* ===== verification/Suppression.thy ===== *)
theory Suppression imports Phone begin

text \<open>
  The global do-not-call table: \<open>app/repositories/suppression_repository.py\<close> and
  \<open>app/services/suppression_service.py\<close>. A row's identity is its canonical number; every insert is
  \<open>ON CONFLICT DO NOTHING\<close>. \<open>locale block_list\<close> is what every other component relies on: blocking
  a number blocks it, and no insert ever unblocks another. CSV decoding is the \<open>rows\<close> argument
  of the import; the row ids of an insert are arguments.
\<close>

section \<open>Repository\<close>

definition is_suppressed :: "'p env \<Rightarrow> string \<Rightarrow> db \<Rightarrow> bool" where
  "is_suppressed w number d = list_ex (\<lambda>s. s_number s = canonical_number w number) (suppressions d)"

definition get_by_phone :: "'p env \<Rightarrow> string \<Rightarrow> db \<Rightarrow> suppression option" where
  "get_by_phone w number d = get_row s_number (canonical_number w number) (suppressions d)"

text \<open>\<open>suppressed_among\<close>: originals grouped by key, one query on the keys.\<close>

fun setdefault_append :: "string \<Rightarrow> string \<Rightarrow> (string \<times> string list) list \<Rightarrow> (string \<times> string list) list" where
  "setdefault_append k v [] = [(k, [v])]"
| "setdefault_append k v ((k', vs) # rest) =
    (if k' = k then (k', vs @ [v]) # rest else (k', vs) # setdefault_append k v rest)"

definition group_by_key :: "(string \<Rightarrow> string) \<Rightarrow> string list \<Rightarrow> (string \<times> string list) list" where
  "group_by_key key xs = fold (\<lambda>x. setdefault_append (key x) x) xs []"

definition suppressed_among :: "'p env \<Rightarrow> string list \<Rightarrow> db \<Rightarrow> string set" where
  "suppressed_among w numbers d =
    (if numbers = [] then {}
     else let by_key = group_by_key (canonical_number w) numbers;
              found = filter (\<lambda>k. k \<in> fst ` set by_key) (map s_number (suppressions d))
          in set (concat (map (\<lambda>k. case map_of by_key k of Some os \<Rightarrow> os | None \<Rightarrow> []) found)))"

definition insert_if_absent :: "'p env \<Rightarrow> instant \<Rightarrow> uuid \<Rightarrow> string \<Rightarrow> suppression_source \<Rightarrow>
    string option \<Rightarrow> uuid option \<Rightarrow> string option \<Rightarrow> db \<Rightarrow> uuid option \<times> db" where
  "insert_if_absent w now new_id number source reason contact created_by d =
    (let key = canonical_number w number in
     if list_ex (\<lambda>s. s_number s = key \<or> (contact \<noteq> None \<and> s_contact s = contact)) (suppressions d)
     then (None, d)
     else (Some new_id, d\<lparr> suppressions := suppressions d @
       [\<lparr> s_id = new_id, s_contact = contact, s_number = key, s_reason = reason,
          s_source = source, s_created_by = created_by, s_requested_at = now \<rparr>] \<rparr>))"

fun bulk_insert_if_absent :: "instant \<Rightarrow> (uuid \<times> string) list \<Rightarrow> suppression_source \<Rightarrow>
    string option \<Rightarrow> string option \<Rightarrow> db \<Rightarrow> nat \<times> db" where
  "bulk_insert_if_absent now [] source reason created_by d = (0, d)"
| "bulk_insert_if_absent now ((new_id, number) # rest) source reason created_by d =
    (if list_ex (\<lambda>s. s_number s = number) (suppressions d)
     then bulk_insert_if_absent now rest source reason created_by d
     else let (n, d') = bulk_insert_if_absent now rest source reason created_by
            (d\<lparr> suppressions := suppressions d @
              [\<lparr> s_id = new_id, s_contact = None, s_number = number, s_reason = reason,
                 s_source = source, s_created_by = created_by, s_requested_at = now \<rparr>] \<rparr>)
          in (Suc n, d'))"

definition suppression_by_id :: "uuid \<Rightarrow> db \<Rightarrow> suppression option" where
  "suppression_by_id i d = get_row s_id i (suppressions d)"

definition remove_suppression_row :: "uuid \<Rightarrow> db \<Rightarrow> db" where
  "remove_suppression_row i d = d\<lparr> suppressions := filter (\<lambda>s. s_id s \<noteq> i) (suppressions d) \<rparr>"

section \<open>Service\<close>

datatype app_error =
    NotFoundError | ValidationError string | ConflictError string | ServiceUnavailableError string | AssertionError
  | UncaughtValueError

definition normalize_or_raise :: "'p env \<Rightarrow> string \<Rightarrow> app_error + string" where
  "normalize_or_raise w raw =
    (case normalize_phone w (Some raw) (st_default_region (ev_settings w)) None of
       Inl e \<Rightarrow> Inl (ValidationError (phone_error_code e))
     | Inr np \<Rightarrow> Inr (np_e164 np))"

definition safe_identity :: "'p env \<Rightarrow> string \<Rightarrow> payload" where
  "safe_identity w e164 =
    [(''fingerprint'', JStr (ev_fingerprint w e164)), (''last4'', JStr (last4 e164))]"

definition suppression_add :: "'p env \<Rightarrow> string \<Rightarrow> instant \<Rightarrow> uuid \<Rightarrow> uuid \<Rightarrow> string \<Rightarrow> string option \<Rightarrow>
    uuid option \<Rightarrow> db \<Rightarrow> app_error + (suppression \<times> bool \<times> db)" where
  "suppression_add w actor now id1 id2 raw reason contact_id d =
    rbind (normalize_or_raise w raw) (\<lambda>e164.
    rbind (case contact_id of
             None \<Rightarrow> Inr ()
           | Some c \<Rightarrow> (case get_contact c d of
                None \<Rightarrow> Inl NotFoundError
              | Some contact \<Rightarrow>
                  if c_number contact \<noteq> e164
                  then Inl (ValidationError ''contact_id does not belong to this phone number'')
                  else Inr ())) (\<lambda>_.
      let (new1, d1) = insert_if_absent w now id1 e164 SUP_MANUAL_API reason contact_id (Some actor) d;
          (new2, d2) = (if new1 = None \<and> get_by_phone w e164 d1 = None
            then insert_if_absent w now id2 e164 SUP_MANUAL_API reason None (Some actor) d1
            else (new1, d1))
      in case get_by_phone w e164 d2 of
           None \<Rightarrow> Inl AssertionError
         | Some row \<Rightarrow>
             let created = (new2 \<noteq> None);
                 d3 = (if created
                   then record_audit_event actor ''suppression.added'' ''suppression'' (Some (s_id row))
                     (safe_identity w e164 @ [(''source'', JStr ''manual_api''), (''reason'', j_opt_str reason)]) d2
                   else d2)
             in Inr (row, created, d3)))"

definition suppression_remove ::
    "'p env \<Rightarrow> string \<Rightarrow> uuid \<Rightarrow> string \<Rightarrow> db \<Rightarrow> app_error + db" where
  "suppression_remove w actor sid reason d =
    (case suppression_by_id sid d of
       None \<Rightarrow> Inl NotFoundError
     | Some row \<Rightarrow> Inr (record_audit_event actor ''suppression.removed'' ''suppression'' (Some sid)
         (safe_identity w (s_number row) @
          [(''source'', JStr (suppression_source_value (s_source row))), (''reason'', JStr reason)])
         (remove_suppression_row sid d)))"

text \<open>The import: a pass over the rows, then inserts in chunks of 500.\<close>

definition MAX_IMPORT_ROWS :: nat where "MAX_IMPORT_ROWS = 10000"

record import_scan =
  im_total :: nat
  im_repeated :: nat
  im_unique :: "string list"
  im_errors :: "(nat \<times> string) list"

definition empty_scan :: import_scan where
  "empty_scan = \<lparr> im_total = 0, im_repeated = 0, im_unique = [], im_errors = [] \<rparr>"

definition scan_row :: "'p env \<Rightarrow> nat \<Rightarrow> string \<Rightarrow> import_scan \<Rightarrow> import_scan" where
  "scan_row w row_number raw st =
    (if py_strip raw = [] then st\<lparr> im_errors := im_errors st @ [(row_number, phone_error_code P_EMPTY)] \<rparr>
     else case normalize_phone w (Some raw) (st_default_region (ev_settings w)) None of
         Inl e \<Rightarrow> st\<lparr> im_errors := im_errors st @ [(row_number, phone_error_code e)] \<rparr>
       | Inr np \<Rightarrow>
           if np_e164 np \<in> set (im_unique st) then st\<lparr> im_repeated := im_repeated st + 1 \<rparr>
           else st\<lparr> im_unique := im_unique st @ [np_e164 np] \<rparr>)"

fun scan_rows :: "'p env \<Rightarrow> (nat \<times> string) list \<Rightarrow> import_scan \<Rightarrow> app_error + import_scan" where
  "scan_rows w [] st = Inr st"
| "scan_rows w ((row_number, raw) # rest) st =
    (let st1 = st\<lparr> im_total := im_total st + 1 \<rparr> in
     if im_total st1 > MAX_IMPORT_ROWS then Inl (ValidationError ''Import file exceeds the maximum'')
     else scan_rows w rest (scan_row w row_number raw st1))"

definition CHUNK :: nat where "CHUNK = 500"

function insert_chunks :: "instant \<Rightarrow> (uuid \<times> string) list \<Rightarrow> suppression_source \<Rightarrow> string option \<Rightarrow>
    string option \<Rightarrow> db \<Rightarrow> nat \<times> db" where
  "insert_chunks now rows source reason created_by d =
    (if rows = [] then (0, d)
     else let (n, d1) = bulk_insert_if_absent now (take CHUNK rows) source reason created_by d;
              (m, d2) = insert_chunks now (drop CHUNK rows) source reason created_by d1
          in (n + m, d2))"
  by pat_completeness auto
termination by (relation "measure (\<lambda>(_, rows, _). length rows)") (auto simp: CHUNK_def)

declare insert_chunks.simps [simp del]

record import_result =
  ir_total :: nat
  ir_added :: nat
  ir_already_present :: nat
  ir_invalid :: nat
  ir_errors :: "(nat \<times> string) list"

definition suppression_import :: "'p env \<Rightarrow> string \<Rightarrow> instant \<Rightarrow> (nat \<Rightarrow> uuid) \<Rightarrow> (nat \<times> string) list \<Rightarrow>
    string option \<Rightarrow> db \<Rightarrow> app_error + (import_result \<times> db)" where
  "suppression_import w actor now mint rows reason d =
    rbind (scan_rows w rows empty_scan) (\<lambda>sc.
      let numbers = im_unique sc;
          (added, d1) = insert_chunks now (zip (map mint [0..<length numbers]) numbers)
            SUP_MANUAL_API reason (Some actor) d;
          res = \<lparr> ir_total = im_total sc, ir_added = added,
            ir_already_present = (length numbers - added) + im_repeated sc,
            ir_invalid = length (im_errors sc), ir_errors = im_errors sc \<rparr>
      in Inr (res, record_audit_event actor ''suppression.imported'' ''suppression'' None
           [(''total'', JInt (int (ir_total res))), (''added'', JInt (int added)),
            (''already_present'', JInt (int (ir_already_present res))),
            (''invalid'', JInt (int (ir_invalid res)))] d1))"

section \<open>The block list\<close>

locale block_list =
  fixes blocked :: "'n \<Rightarrow> 's \<Rightarrow> bool" and block :: "'a \<Rightarrow> 'n \<Rightarrow> 's \<Rightarrow> 's"
  assumes block_blocks: "blocked n (block a n s)"
    and block_mono: "blocked n s \<Longrightarrow> blocked n (block a m s)"
begin

lemma blocked_fold: "blocked n s \<Longrightarrow> blocked n (fold (block a) ms s)"
  by (induction ms arbitrary: s) (simp_all add: block_mono)

lemma block_all: "n \<in> set ms \<Longrightarrow> blocked n (fold (block a) ms s)"
  by (induction ms arbitrary: s) (auto simp: block_blocks blocked_fold)

end

definition blocked_numbers :: "db \<Rightarrow> string set" where
  "blocked_numbers d = s_number ` set (suppressions d)"

lemma is_suppressed_iff: "is_suppressed w n d \<longleftrightarrow> canonical_number w n \<in> blocked_numbers d"
  by (force simp: is_suppressed_def blocked_numbers_def list_ex_iff)

lemma is_suppressed_by_phone: "is_suppressed w n d \<longleftrightarrow> get_by_phone w n d \<noteq> None"
  by (auto simp: is_suppressed_iff get_by_phone_def get_row_None blocked_numbers_def)

lemma insert_if_absent_cases:
  assumes "insert_if_absent w now i n src rsn c by d = (r, d')"
  shows "(r = None \<and> d' = d) \<or>
    (r = Some i \<and> canonical_number w n \<notin> blocked_numbers d \<and>
     (\<exists>s. d' = d\<lparr> suppressions := suppressions d @ [s] \<rparr> \<and> s_number s = canonical_number w n \<and>
        s_contact s = c \<and> s_id s = i))"
  using assms
  by (force simp: insert_if_absent_def Let_def list_ex_iff blocked_numbers_def split: if_splits)

lemma insert_if_absent_mono:
  "is_suppressed w m d \<Longrightarrow> is_suppressed w m (snd (insert_if_absent v now i n src rsn c by d))"
  by (auto simp: insert_if_absent_def Let_def is_suppressed_def)

lemma insert_if_absent_blocks:
  "is_suppressed w n (snd (insert_if_absent w now i n src rsn None by d))"
  by (auto simp: insert_if_absent_def Let_def is_suppressed_def)

lemma insert_if_absent_distinct:
  "keys_distinct s_number (suppressions d) \<Longrightarrow>
    keys_distinct s_number (suppressions (snd (insert_if_absent w now i n src rsn c by d)))"
  by (auto simp: insert_if_absent_def Let_def keys_distinct_snoc get_row_None list_ex_iff)

lemma insert_if_absent_frame [simp]:
  "contacts (snd (insert_if_absent w now i n src rsn c by d)) = contacts d"
  "attempts (snd (insert_if_absent w now i n src rsn c by d)) = attempts d"
  "audits (snd (insert_if_absent w now i n src rsn c by d)) = audits d"
  "campaigns (snd (insert_if_absent w now i n src rsn c by d)) = campaigns d"
  "events (snd (insert_if_absent w now i n src rsn c by d)) = events d"
  by (auto simp: insert_if_absent_def Let_def)

interpretation number_blocks: block_list "is_suppressed w"
    "\<lambda>(now, i, src, rsn, by) n d. snd (insert_if_absent w now i n src rsn None by d)" for w
  by unfold_locales (auto simp: insert_if_absent_blocks insert_if_absent_mono)

lemma is_suppressed_cong: "suppressions d' = suppressions d \<Longrightarrow> is_suppressed w n d' = is_suppressed w n d"
  by (simp add: is_suppressed_def)

section \<open>Adding one number\<close>

lemma suppression_add_steps:
  assumes "suppression_add w actor now id1 id2 raw reason contact_id d = Inr (row, created, d')"
  obtains e164 new1 d1 new2 d2 where
    "normalize_or_raise w raw = Inr e164"
    "insert_if_absent w now id1 e164 SUP_MANUAL_API reason contact_id (Some actor) d = (new1, d1)"
    "(if new1 = None \<and> get_by_phone w e164 d1 = None
      then insert_if_absent w now id2 e164 SUP_MANUAL_API reason None (Some actor) d1
      else (new1, d1)) = (new2, d2)"
    "get_by_phone w e164 d2 = Some row" "created = (new2 \<noteq> None)"
    "suppressions d' = suppressions d2"
    "audits d' = (if created then audits d2 @ [last (audits d')] else audits d2)"
proof -
  from assms obtain e164 where e: "normalize_or_raise w raw = Inr e164"
    by (auto simp: suppression_add_def rbind_Inr_iff)
  obtain new1 d1 where 1: "insert_if_absent w now id1 e164 SUP_MANUAL_API reason contact_id (Some actor) d = (new1, d1)"
    by (metis surj_pair)
  obtain new2 d2 where 2: "(if new1 = None \<and> get_by_phone w e164 d1 = None
      then insert_if_absent w now id2 e164 SUP_MANUAL_API reason None (Some actor) d1
      else (new1, d1)) = (new2, d2)" by (metis surj_pair)
  have "get_by_phone w e164 d2 = Some row \<and> created = (new2 \<noteq> None) \<and>
      suppressions d' = suppressions d2 \<and>
      audits d' = (if created then audits d2 @ [last (audits d')] else audits d2)"
    using assms by (auto simp: suppression_add_def e 1 2 rbind_Inr_iff Let_def record_audit_event_def
      split: option.splits if_splits)
  with that e 1 2 show thesis by blast
qed

lemma insert_retry_blocks:
  assumes "insert_if_absent w now id1 n src rsn c by d = (new1, d1)"
    and "(if new1 = None \<and> get_by_phone w n d1 = None
      then insert_if_absent w now id2 n src rsn None by d1 else (new1, d1)) = (new2, d2)"
  shows "is_suppressed w n d2 \<and> (new2 \<noteq> None \<longleftrightarrow> \<not> is_suppressed w n d) \<and>
    (is_suppressed w m d \<longrightarrow> is_suppressed w m d2) \<and> audits d2 = audits d \<and>
    (keys_distinct s_number (suppressions d) \<longrightarrow> keys_distinct s_number (suppressions d2))"
proof (cases "new1 = None \<and> get_by_phone w n d1 = None")
  case True
  then have d1: "d1 = d" using insert_if_absent_cases [OF assms(1)] by auto
  then have i2: "insert_if_absent w now id2 n src rsn None by d = (new2, d2)" using assms(2) True by simp
  have "\<not> is_suppressed w n d" using True d1 by (simp add: is_suppressed_by_phone)
  moreover from this have "new2 \<noteq> None"
    using i2 by (auto simp: insert_if_absent_def Let_def is_suppressed_def list_ex_iff split: if_splits)
  ultimately show ?thesis
    using insert_if_absent_blocks [of w n now id2 src rsn "by" d] insert_if_absent_mono [of w m d w now id2 n]
      insert_if_absent_distinct [of d w now id2 n] insert_if_absent_frame(3) [of w now id2 n] i2
    by (metis snd_conv)
next
  case False
  then have d2: "d2 = d1" "new2 = new1" using assms(2) by (auto split: if_splits)
  have "is_suppressed w n d1 \<and> (new1 \<noteq> None \<longleftrightarrow> \<not> is_suppressed w n d)"
    using insert_if_absent_cases [OF assms(1)] False is_suppressed_by_phone [of w n d1]
    by (auto simp: is_suppressed_iff blocked_numbers_def)
  then show ?thesis
    using insert_if_absent_mono [of w m d w now id1 n] insert_if_absent_distinct [of d w now id1 n]
      insert_if_absent_frame(3) [of w now id1 n] assms(1) d2 by (metis snd_conv)
qed

lemma suppression_add_total:
  "suppression_add w actor now id1 id2 raw reason contact_id d \<noteq> Inl AssertionError"
proof
  assume a: "suppression_add w actor now id1 id2 raw reason contact_id d = Inl AssertionError"
  obtain e164 where e: "normalize_or_raise w raw = Inr e164"
    using a by (cases "normalize_or_raise w raw")
      (auto simp: suppression_add_def normalize_or_raise_def split: sum.splits)
  obtain new1 d1 where 1: "insert_if_absent w now id1 e164 SUP_MANUAL_API reason contact_id (Some actor) d = (new1, d1)"
    by (metis surj_pair)
  obtain new2 d2 where 2: "(if new1 = None \<and> get_by_phone w e164 d1 = None
      then insert_if_absent w now id2 e164 SUP_MANUAL_API reason None (Some actor) d1
      else (new1, d1)) = (new2, d2)" by (metis surj_pair)
  have "get_by_phone w e164 d2 \<noteq> None"
    using insert_retry_blocks [OF 1 2] by (simp add: is_suppressed_by_phone)
  then show False using a
    by (auto simp: suppression_add_def e 1 2 rbind_Inl_iff Let_def split: option.splits if_splits)
qed

text \<open>
  C19: adding a number always leaves it blocked, also when its contact already has a row under an
  older number; no number that was blocked is unblocked, numbers stay unique, and one audit row
  is written exactly when the number was not blocked before. It never fails on its assertion.
\<close>

theorem suppression_add_blocks:
  assumes "suppression_add w actor now id1 id2 raw reason contact_id d = Inr (row, created, d')"
  shows "\<exists>e164. normalize_or_raise w raw = Inr e164 \<and> is_suppressed w e164 d' \<and>
    (created \<longleftrightarrow> \<not> is_suppressed w e164 d) \<and>
    (\<forall>m. is_suppressed w m d \<longrightarrow> is_suppressed w m d') \<and>
    length (audits d') = length (audits d) + (if created then 1 else 0) \<and>
    (keys_distinct s_number (suppressions d) \<longrightarrow> keys_distinct s_number (suppressions d'))"
proof -
  from suppression_add_steps [OF assms] obtain e164 new1 d1 new2 d2 where
    e: "normalize_or_raise w raw = Inr e164"
    and 1: "insert_if_absent w now id1 e164 SUP_MANUAL_API reason contact_id (Some actor) d = (new1, d1)"
    and 2: "(if new1 = None \<and> get_by_phone w e164 d1 = None
      then insert_if_absent w now id2 e164 SUP_MANUAL_API reason None (Some actor) d1
      else (new1, d1)) = (new2, d2)"
    and c: "created = (new2 \<noteq> None)" and sup: "suppressions d' = suppressions d2"
    and au: "audits d' = (if created then audits d2 @ [last (audits d')] else audits d2)" by metis
  have "length (audits d') = length (audits d2) + (if created then 1 else 0)"
    using arg_cong [OF au, of length] by (simp split: if_splits)
  with insert_retry_blocks [OF 1 2] e c show ?thesis
    by (intro exI [of _ e164]) (simp add: is_suppressed_cong [OF sup] sup)
qed

definition moved_contact_db :: db where
  "moved_contact_db = empty_db\<lparr>
    contacts := [\<lparr> c_id = 1, c_campaign = 7, c_phone = ''9876543210'', c_number = ''+919876543210'',
      c_status = C_PENDING, c_attempt_count = 0, c_next_retry_at = None, c_retry_attempt_id = None,
      c_retry_attempt_number = None, c_legal_hold = False, c_purged_at = None, c_created_at = 0 \<rparr>],
    suppressions := [\<lparr> s_id = 3, s_contact = Some 1, s_number = ''+919000000000'', s_reason = None,
      s_source = SUP_AGENT_IN_CALL, s_created_by = None, s_requested_at = 0 \<rparr>] \<rparr>"

theorem suppression_add_blocks_witness:
  "\<exists>row created d'. suppression_add plain_env ''op'' 5 8 9 ''98765 43210'' None (Some 1) moved_contact_db
      = Inr (row, created, d') \<and> created \<and> is_suppressed plain_env ''+919876543210'' d'"
proof -
  have "case suppression_add plain_env ''op'' 5 8 9 ''98765 43210'' None (Some 1) moved_contact_db of
      Inr (row, created, d') \<Rightarrow> created | Inl e \<Rightarrow> False" by code_simp
  then obtain row d' where
    a: "suppression_add plain_env ''op'' 5 8 9 ''98765 43210'' None (Some 1) moved_contact_db = Inr (row, True, d')"
    by (auto split: sum.splits)
  moreover have "normalize_or_raise plain_env ''98765 43210'' = Inr ''+919876543210''" by code_simp
  ultimately show ?thesis using suppression_add_blocks [OF a] by auto
qed

section \<open>One query for many numbers\<close>

lemma setdefault_append_map_of:
  "map_of (setdefault_append k v al) j =
    (if j = k then Some ((case map_of al k of None \<Rightarrow> [] | Some vs \<Rightarrow> vs) @ [v]) else map_of al j)"
  by (induction k v al rule: setdefault_append.induct) auto

lemma group_fold_map_of:
  "map_of (fold (\<lambda>x. setdefault_append (key x) x) xs al) j =
    (let ys = filter (\<lambda>x. key x = j) xs in
     if ys = [] then map_of al j
     else Some ((case map_of al j of None \<Rightarrow> [] | Some vs \<Rightarrow> vs) @ ys))"
  by (induction xs arbitrary: al) (auto simp: setdefault_append_map_of Let_def split: option.splits)

lemma map_of_group:
  "map_of (group_by_key key xs) j =
    (let ys = filter (\<lambda>x. key x = j) xs in if ys = [] then None else Some ys)"
  by (simp add: group_by_key_def group_fold_map_of Let_def)

lemma suppressed_among_set:
  "suppressed_among w numbers d = {n \<in> set numbers. is_suppressed w n d}"
proof (cases "numbers = []")
  case False
  let ?g = "group_by_key (canonical_number w) numbers"
  have key: "k \<in> fst ` set ?g \<longleftrightarrow> (\<exists>n \<in> set numbers. canonical_number w n = k)" for k
    using map_of_eq_None_iff [of ?g k] by (auto simp: map_of_group Let_def filter_empty_conv split: if_splits)
  have val: "(case map_of ?g k of Some os \<Rightarrow> os | None \<Rightarrow> []) = filter (\<lambda>n. canonical_number w n = k) numbers" for k
    by (simp add: map_of_group Let_def)
  have "suppressed_among w numbers d =
      (\<Union>k \<in> {k \<in> s_number ` set (suppressions d). \<exists>n \<in> set numbers. canonical_number w n = k}.
        {n \<in> set numbers. canonical_number w n = k})"
    unfolding suppressed_among_def Let_def val using False by (auto simp: key)
  also have "\<dots> = {n \<in> set numbers. is_suppressed w n d}"
    by (auto simp: is_suppressed_iff blocked_numbers_def)
  finally show ?thesis .
qed (simp add: suppressed_among_def)

text \<open>
  The page query answers exactly as one lookup per number would, in the caller's spellings.
\<close>

theorem suppressed_among_eq:
  "suppressed_among w numbers d = {n \<in> set numbers. is_suppressed w n d}"
  by (rule suppressed_among_set)

section \<open>The import\<close>

lemma bulk_insert_spec:
  assumes "bulk_insert_if_absent now rows src rsn by d = (n, d')"
  shows "blocked_numbers d' = blocked_numbers d \<union> snd ` set rows \<and> n \<le> length rows \<and>
    (distinct (map snd rows) \<longrightarrow> n = length (filter (\<lambda>r. snd r \<notin> blocked_numbers d) rows)) \<and>
    audits d' = audits d \<and> (keys_distinct s_number (suppressions d) \<longrightarrow> keys_distinct s_number (suppressions d'))"
  using assms
proof (induction now rows src rsn "by" d arbitrary: n d' rule: bulk_insert_if_absent.induct)
  case (2 now new_id number rest source reason created_by d)
  show ?case
  proof (cases "number \<in> blocked_numbers d")
    case True
    then have ex: "list_ex (\<lambda>s. s_number s = number) (suppressions d)"
      by (auto simp: blocked_numbers_def list_ex_iff)
    then show ?thesis using 2 True by (auto simp: insert_absorb)
  next
    case False
    then have ex: "\<not> list_ex (\<lambda>s. s_number s = number) (suppressions d)"
      by (auto simp: blocked_numbers_def list_ex_iff)
    let ?d1 = "d\<lparr> suppressions := suppressions d @
        [\<lparr> s_id = new_id, s_contact = None, s_number = number, s_reason = reason,
           s_source = source, s_created_by = created_by, s_requested_at = now \<rparr>] \<rparr>"
    obtain m where m: "bulk_insert_if_absent now rest source reason created_by ?d1 = (m, d')" "n = Suc m"
      using "2.prems" ex by (auto split: prod.splits)
    have b1: "blocked_numbers ?d1 = insert number (blocked_numbers d)"
      by (simp add: blocked_numbers_def)
    have k1: "keys_distinct s_number (suppressions d) \<longrightarrow> keys_distinct s_number (suppressions ?d1)"
      using False by (simp add: keys_distinct_snoc get_row_None blocked_numbers_def)
    have c: "distinct (number # map snd rest) \<Longrightarrow>
        filter (\<lambda>r. snd r \<notin> blocked_numbers ?d1) rest = filter (\<lambda>r. snd r \<notin> blocked_numbers d) rest"
      by (intro filter_cong) (auto simp: b1 image_iff)
    from "2.IH"(2) [OF ex m(1)] show ?thesis using m(2) b1 k1 c False by auto
  qed
qed simp

lemma insert_chunks_spec:
  assumes "insert_chunks now rows src rsn by d = (n, d')"
  shows "blocked_numbers d' = blocked_numbers d \<union> snd ` set rows \<and> n \<le> length rows \<and>
    audits d' = audits d \<and> (keys_distinct s_number (suppressions d) \<longrightarrow> keys_distinct s_number (suppressions d'))"
  using assms
proof (induction now rows src rsn "by" d arbitrary: n d' rule: insert_chunks.induct)
  case (1 now rows src rsn by' d)
  show ?case
  proof (cases "rows = []")
    case False
    obtain n1 d1 n2 where b: "bulk_insert_if_absent now (take CHUNK rows) src rsn by' d = (n1, d1)"
      and c: "insert_chunks now (drop CHUNK rows) src rsn by' d1 = (n2, d')" and n: "n = n1 + n2"
      using "1.prems" False by (subst (asm) insert_chunks.simps) (auto split: prod.splits)
    have "snd ` set rows = snd ` set (take CHUNK rows) \<union> snd ` set (drop CHUNK rows)"
      by (simp flip: image_Un set_append)
    moreover have "n \<le> length rows"
      using bulk_insert_spec [OF b] "1.IH" [OF False b [symmetric] refl c] n by auto
    ultimately show ?thesis
      using bulk_insert_spec [OF b] "1.IH" [OF False b [symmetric] refl c] by (simp add: Un_assoc)
  qed (use "1.prems" in \<open>simp add: insert_chunks.simps\<close>)
qed

definition accepted_as :: "'p env \<Rightarrow> string \<Rightarrow> string \<Rightarrow> bool" where
  "accepted_as w raw m \<longleftrightarrow> py_strip raw \<noteq> [] \<and>
    (\<exists>np. normalize_phone w (Some raw) (st_default_region (ev_settings w)) None = Inr np \<and> np_e164 np = m)"

lemma scan_rows_spec:
  assumes "scan_rows w rows st = Inr sc"
    and "im_total st = length (im_unique st) + im_repeated st + length (im_errors st)"
  shows "im_total sc = im_total st + length rows \<and>
    im_total sc = length (im_unique sc) + im_repeated sc + length (im_errors sc) \<and>
    (\<forall>m. m \<in> set (im_unique sc) \<longleftrightarrow>
      m \<in> set (im_unique st) \<or> (\<exists>(k, raw) \<in> set rows. accepted_as w raw m))"
  using assms
proof (induction w rows st rule: scan_rows.induct)
  case (2 w k raw rest st)
  let ?st1 = "st\<lparr> im_total := im_total st + 1 \<rparr>"
  let ?st2 = "scan_row w k raw ?st1"
  have le: "\<not> im_total ?st1 > MAX_IMPORT_ROWS" and rest: "scan_rows w rest ?st2 = Inr sc"
    using "2.prems"(1) by (auto simp: Let_def split: if_splits)
  have t: "im_total ?st2 = im_total st + 1" by (auto simp: scan_row_def split: sum.splits)
  have bal: "im_total ?st2 = length (im_unique ?st2) + im_repeated ?st2 + length (im_errors ?st2)"
    using "2.prems"(2) by (auto simp: scan_row_def split: sum.splits)
  have u: "m \<in> set (im_unique ?st2) \<longleftrightarrow> m \<in> set (im_unique st) \<or> accepted_as w raw m" for m
    by (auto simp: scan_row_def accepted_as_def split: sum.splits)
  from "2.IH" [OF _ le rest bal] t u show ?case by auto
qed simp

text \<open>
  The import accounts for every row (added, already present or invalid), leaves every number
  that parses blocked, unblocks nothing, keeps numbers unique and writes one audit row. The number
  of an accepted row is one the library maps to itself (its documented E.164 round trip).
\<close>

theorem suppression_import_complete:
  assumes "suppression_import w actor now mint rows reason d = Inr (res, d')"
    and stable: "\<And>raw np. normalize_phone w (Some raw) (st_default_region (ev_settings w)) None = Inr np \<Longrightarrow>
      canonical_number w (np_e164 np) = np_e164 np"
  shows "ir_total res = length rows \<and>
    ir_total res = ir_added res + ir_already_present res + ir_invalid res \<and>
    (\<forall>k raw np. (k, raw) \<in> set rows \<and>
      normalize_phone w (Some raw) (st_default_region (ev_settings w)) None = Inr np \<longrightarrow>
      is_suppressed w (np_e164 np) d') \<and>
    (\<forall>m. is_suppressed w m d \<longrightarrow> is_suppressed w m d') \<and>
    length (audits d') = Suc (length (audits d)) \<and>
    (keys_distinct s_number (suppressions d) \<longrightarrow> keys_distinct s_number (suppressions d'))"
proof -
  obtain sc where sc: "scan_rows w rows empty_scan = Inr sc"
    using assms(1) by (auto simp: suppression_import_def rbind_Inr_iff)
  obtain n d1 where i: "insert_chunks now (zip (map mint [0..<length (im_unique sc)]) (im_unique sc))
      SUP_MANUAL_API reason (Some actor) d = (n, d1)" by (metis surj_pair)
  note sp = scan_rows_spec [OF sc] insert_chunks_spec [OF i]
  have img: "snd ` set (zip (map mint [0..<length (im_unique sc)]) (im_unique sc)) = set (im_unique sc)"
    by (metis length_map length_upt list.set_map map_snd_zip minus_nat.diff_0)
  have d': "suppressions d' = suppressions d1" "length (audits d') = Suc (length (audits d1))"
    and res: "ir_total res = im_total sc" "ir_added res = n" "ir_invalid res = length (im_errors sc)"
      "ir_already_present res = (length (im_unique sc) - n) + im_repeated sc"
    using assms(1) by (auto simp: suppression_import_def sc i rbind_Inr_iff Let_def)
  have bl: "blocked_numbers d' = blocked_numbers d \<union> set (im_unique sc)"
    using sp(2) img d'(1) by (simp add: blocked_numbers_def)
  have nonempty: "normalize_phone w (Some raw) r a = Inr np \<Longrightarrow> py_strip raw \<noteq> []" for raw r a np
    by (auto simp: normalize_phone_def)
  have new: "is_suppressed w (np_e164 np) d'" if "(k, raw) \<in> set rows"
      "normalize_phone w (Some raw) (st_default_region (ev_settings w)) None = Inr np" for k raw np
    using sp(1) that nonempty [OF that(2)] stable [OF that(2)]
    by (force simp: is_suppressed_iff bl empty_scan_def accepted_as_def)
  have bal: "im_total sc = length rows \<and>
      im_total sc = length (im_unique sc) + im_repeated sc + length (im_errors sc)"
    using sp(1) by (simp add: empty_scan_def)
  have "n \<le> length (im_unique sc)" using sp(2) by simp
  then show ?thesis using bal new sp(2) d' res bl by (auto simp: is_suppressed_iff)
qed

lemma dropWhile_none: "list_all (\<lambda>c. \<not> P c) xs \<Longrightarrow> dropWhile P xs = xs"
  by (cases xs) auto

lemma py_strip_id: "list_all (\<lambda>c. \<not> py_space c) s \<Longrightarrow> py_strip s = s"
  by (simp add: py_strip_def dropWhile_none)

lemma plain_parse_digits: "plain_parse s r = Inr p \<Longrightarrow> list_all py_digit p"
  by (auto simp: plain_parse_def list_all_iff py_digit_def split: if_splits)

lemma digit_not_space: "py_digit c \<Longrightarrow> \<not> py_space c \<and> c \<noteq> CHR ''+''"
  by (auto simp: py_digit_def py_space_def Let_def)

lemma plain_stable:
  assumes "normalize_phone plain_env raw r a = Inr np"
  shows "canonical_number plain_env (np_e164 np) = np_e164 np"
proof -
  from normalize_phone_InrD [OF assms] obtain s q p where
    "plain_parse s q = Inr p" "np_e164 np = CHR ''+'' # p" "length p = 12" "take 2 p = ''91''"
    by (auto simp: plain_env_def split: if_splits)
  then have p: "np_e164 np = CHR ''+'' # p" "length p = 12" "take 2 p = ''91''" "list_all py_digit p"
    using plain_parse_digits by blast+
  have "list_all (\<lambda>c. \<not> py_space c) (CHR ''+'' # p)"
    using p(4) digit_not_space by (auto simp: list_all_iff py_space_def)
  then have s: "py_strip (CHR ''+'' # p) = CHR ''+'' # p" by (rule py_strip_id)
  have f: "filter py_digit p = p" "CHR ''+'' \<notin> set p"
    using p(4) digit_not_space by (auto simp: list_all_iff filter_id_conv)
  have n: "\<not> py_digit (CHR ''+'')" by (simp add: py_digit_def)
  have c: "list_all phone_char p" "p \<noteq> []" using p by (auto simp: phone_char_def list_all_iff)
  show ?thesis
    using p f n s c
    by (simp add: canonical_number_def normalize_phone_def plain_env_def plain_parse_def allowed_chars_def
      default_settings_def)
qed

theorem suppression_import_complete_witness:
  "\<exists>res d'. suppression_import plain_env ''op'' 5 (\<lambda>k. 100 + k)
      [(2, ''98765 43210''), (3, ''x''), (4, ''9876543210'')] None empty_db = Inr (res, d') \<and>
    ir_total res = 3 \<and> ir_total res = ir_added res + ir_already_present res + ir_invalid res"
proof -
  have "case suppression_import plain_env ''op'' 5 (\<lambda>k. 100 + k)
      [(2, ''98765 43210''), (3, ''x''), (4, ''9876543210'')] None empty_db of
      Inr _ \<Rightarrow> True | Inl e \<Rightarrow> False" by code_simp
  then obtain res d' where
    i: "suppression_import plain_env ''op'' 5 (\<lambda>k. 100 + k)
      [(2, ''98765 43210''), (3, ''x''), (4, ''9876543210'')] None empty_db = Inr (res, d')"
    by (auto split: sum.splits)
  from suppression_import_complete [OF i] plain_stable
  have "ir_total res = length [(2 :: nat, ''98765 43210''), (3, ''x''), (4, ''9876543210'')] \<and>
      ir_total res = ir_added res + ir_already_present res + ir_invalid res" by blast
  with i show ?thesis by simp
qed

end
