(* ===== verification/Retry_Policy.thy ===== *)
theory Retry_Policy imports Suppression begin

text \<open>
  \<open>app/services/retry_policy_service.py\<close> and \<open>app/models/retry_policy.py\<close>: the default policy, the
  policy in force for a campaign, and the audited update with its validation. A policy row is
  keyed by its campaign.
\<close>

section \<open>Defaults and the policy in force\<close>

definition DEFAULT_NEVER_CONNECTED_RULES :: rules where
  "DEFAULT_NEVER_CONNECTED_RULES = [(''no_answer'', True), (''busy'', True),
    (''invalid_number'', False), (''rejected'', False), (''network_error'', True),
    (''provider_error'', True)]"

definition DEFAULT_MID_CALL_RULES :: rules where
  "DEFAULT_MID_CALL_RULES = [(''technical_issue'', True), (''network_problem'', True),
    (''provider_error'', True), (''ai_error'', True), (''unknown'', True),
    (''customer_hangup'', False)]"

definition build_default_policy :: "settings \<Rightarrow> uuid \<Rightarrow> retry_policy" where
  "build_default_policy st camp = \<lparr> rp_campaign = camp,
    rp_max_retries = st_default_max_retries st, rp_spacing = st_default_spacing st,
    rp_never_connected = DEFAULT_NEVER_CONNECTED_RULES, rp_mid_call = DEFAULT_MID_CALL_RULES,
    rp_window_start = st_window_start st, rp_window_end = st_window_end st \<rparr>"

definition stored_policy :: "uuid \<Rightarrow> db \<Rightarrow> retry_policy option" where
  "stored_policy camp d = get_row rp_campaign camp (policies d)"

definition get_effective_policy :: "settings \<Rightarrow> uuid \<Rightarrow> db \<Rightarrow> retry_policy" where
  "get_effective_policy st camp d =
    (case stored_policy camp d of Some p \<Rightarrow> p | None \<Rightarrow> build_default_policy st camp)"

definition ensure_policy :: "settings \<Rightarrow> uuid \<Rightarrow> db \<Rightarrow> bool \<times> db" where
  "ensure_policy st camp d =
    (if stored_policy camp d = None
     then (True, d\<lparr> policies := policies d @ [build_default_policy st camp] \<rparr>) else (False, d))"

definition upd_policy :: "uuid \<Rightarrow> (retry_policy \<Rightarrow> retry_policy) \<Rightarrow> db \<Rightarrow> db" where
  "upd_policy camp f d = d\<lparr> policies := upd_row rp_campaign camp f (policies d) \<rparr>"

definition window_is_open :: "'p env \<Rightarrow> campaign \<Rightarrow> retry_policy \<Rightarrow> instant \<Rightarrow> window_error + bool" where
  "window_is_open w camp p now =
    rbind (load_timezone (ev_tzdb w) (camp_timezone camp)) (\<lambda>z.
      is_dialable_now now z (rp_window_start p) (rp_window_end p)
        (st_hard_start (ev_settings w)) (st_hard_end (ev_settings w)))"

definition next_open_time :: "'p env \<Rightarrow> campaign \<Rightarrow> retry_policy \<Rightarrow> instant \<Rightarrow> window_error + instant" where
  "next_open_time w camp p now =
    rbind (load_timezone (ev_tzdb w) (camp_timezone camp)) (\<lambda>z.
      next_window_open now z (rp_window_start p) (rp_window_end p)
        (st_hard_start (ev_settings w)) (st_hard_end (ev_settings w)))"

section \<open>Validation and the admin update\<close>

record policy_update =
  pu_max_retries :: int
  pu_spacing :: "int list"
  pu_window_start :: time_of_day
  pu_window_end :: time_of_day
  pu_timezone :: "string option"
  pu_never_connected :: "rules option"
  pu_mid_call :: "rules option"

definition rule_keys_known :: "rules option \<Rightarrow> string list \<Rightarrow> bool" where
  "rule_keys_known rs allowed =
    (case rs of None \<Rightarrow> True | Some al \<Rightarrow> list_all (\<lambda>(k, _). k \<in> set allowed) al)"

definition validate_policy_update :: "settings \<Rightarrow> policy_update \<Rightarrow> app_error + unit" where
  "validate_policy_update st u =
    (if pu_max_retries u > st_max_retries_ceiling st then Inl (ValidationError ''max_retries'')
     else if int (length (pu_spacing u)) \<noteq> pu_max_retries u
       then Inl (ValidationError ''retry_spacing_seconds entries'')
     else if \<not> list_all (\<lambda>s. st_min_backoff st \<le> s \<and> s \<le> st_max_backoff st) (pu_spacing u)
       then Inl (ValidationError ''retry spacing range'')
     else if pu_window_start u = pu_window_end u then Inl (ValidationError ''window must differ'')
     else case window_within_bound (pu_window_start u) (pu_window_end u) (st_hard_start st) (st_hard_end st) of
         Inl _ \<Rightarrow> Inl UncaughtValueError
       | Inr False \<Rightarrow> Inl (ValidationError ''calling window outside the hard window'')
       | Inr True \<Rightarrow>
           if \<not> rule_keys_known (pu_never_connected u) (map never_connected_value never_connected_reasons)
           then Inl (ValidationError ''never_connected_rules'')
           else if \<not> rule_keys_known (pu_mid_call u) (map mid_call_value mid_call_reasons)
           then Inl (ValidationError ''mid_call_rules'')
           else Inr ())"

text \<open>\<open>{**old, **new}\<close>: the newer value of a key wins.\<close>

fun dict_set :: "string \<Rightarrow> bool \<Rightarrow> rules \<Rightarrow> rules" where
  "dict_set k v [] = [(k, v)]"
| "dict_set k v ((k', v') # rest) = (if k' = k then (k, v) # rest else (k', v') # dict_set k v rest)"

definition dict_merge :: "rules \<Rightarrow> rules option \<Rightarrow> rules" where
  "dict_merge old new = (case new of None \<Rightarrow> old | Some al \<Rightarrow> fold (\<lambda>(k, v). dict_set k v) al old)"

definition rules_json :: "rules \<Rightarrow> jval" where
  "rules_json rs = JObj (map (\<lambda>(k, b). (k, JBool b)) rs)"

definition policy_snapshot :: "retry_policy \<Rightarrow> string \<Rightarrow> jval" where
  "policy_snapshot p tz = JObj
    [(''max_retries'', JInt (rp_max_retries p)),
     (''retry_spacing_seconds'', JList (map JInt (rp_spacing p))),
     (''window_start'', JInt (rp_window_start p)), (''window_end'', JInt (rp_window_end p)),
     (''timezone'', JStr tz), (''never_connected_rules'', rules_json (rp_never_connected p)),
     (''mid_call_rules'', rules_json (rp_mid_call p))]"

definition apply_update :: "policy_update \<Rightarrow> retry_policy \<Rightarrow> retry_policy" where
  "apply_update u p = p\<lparr> rp_max_retries := pu_max_retries u, rp_spacing := pu_spacing u,
    rp_window_start := pu_window_start u, rp_window_end := pu_window_end u,
    rp_never_connected := dict_merge (rp_never_connected p) (pu_never_connected u),
    rp_mid_call := dict_merge (rp_mid_call p) (pu_mid_call u) \<rparr>"

definition policy_put ::
    "'p env \<Rightarrow> string \<Rightarrow> uuid \<Rightarrow> policy_update \<Rightarrow> db \<Rightarrow> app_error + db" where
  "policy_put w actor camp u d =
    rbind (validate_policy_update (ev_settings w) u) (\<lambda>_.
    rbind (case pu_timezone u of
             None \<Rightarrow> Inr ()
           | Some tz \<Rightarrow> (case load_timezone (ev_tzdb w) tz of
                Inl _ \<Rightarrow> Inl (ValidationError ''timezone must be a valid IANA timezone name'')
              | Inr _ \<Rightarrow> Inr ())) (\<lambda>_.
    case get_campaign camp d of
      None \<Rightarrow> Inl NotFoundError
    | Some campaign \<Rightarrow>
        let d1 = snd (ensure_policy (ev_settings w) camp d) in
        (case stored_policy camp d1 of
           None \<Rightarrow> Inl AssertionError
         | Some p \<Rightarrow>
             let before = policy_snapshot p (camp_timezone campaign);
                 p' = apply_update u p;
                 tz' = (case pu_timezone u of None \<Rightarrow> camp_timezone campaign | Some tz \<Rightarrow> tz);
                 d2 = upd_policy camp (apply_update u) d1;
                 d3 = upd_campaign camp (\<lambda>c. c\<lparr> camp_timezone := tz' \<rparr>) d2
             in Inr (record_audit_event actor ''retry_policy.updated'' ''campaign'' (Some camp)
                  [(''before'', before), (''after'', policy_snapshot p' tz')] d3))))"

section \<open>Invariant of a policy\<close>

definition keys_of :: "rules \<Rightarrow> string set" where
  "keys_of rs = fst ` set rs"

definition known_rules :: "retry_policy \<Rightarrow> bool" where
  "known_rules p \<longleftrightarrow> keys_of (rp_never_connected p) \<subseteq> range never_connected_value \<and>
    keys_of (rp_mid_call p) \<subseteq> range mid_call_value"

definition policy_ok :: "settings \<Rightarrow> retry_policy \<Rightarrow> bool" where
  "policy_ok st p \<longleftrightarrow>
    int (length (rp_spacing p)) = rp_max_retries p \<and> rp_max_retries p \<le> st_max_retries_ceiling st \<and>
    (\<forall>s \<in> set (rp_spacing p). st_min_backoff st \<le> s \<and> s \<le> st_max_backoff st) \<and>
    rp_window_start p \<noteq> rp_window_end p \<and>
    window_within_bound (rp_window_start p) (rp_window_end p) (st_hard_start st) (st_hard_end st) = Inr True \<and>
    known_rules p"

definition policies_ok :: "settings \<Rightarrow> db \<Rightarrow> bool" where
  "policies_ok st d \<longleftrightarrow> (\<forall>p \<in> set (policies d). policy_ok st p)"

lemma apply_update_campaign [simp]: "rp_campaign (apply_update u p) = rp_campaign p"
  by (simp add: apply_update_def)

lemma stored_upd_policy: "(\<And>p. rp_campaign (f p) = rp_campaign p) \<Longrightarrow>
    stored_policy j (upd_policy camp f d) =
      (if j = camp then map_option f (stored_policy camp d) else stored_policy j d)"
  by (simp add: stored_policy_def upd_policy_def get_upd_row)

definition keeps_policy_key :: "(retry_policy \<Rightarrow> retry_policy) \<Rightarrow> bool" where
  "keeps_policy_key f \<longleftrightarrow> (\<forall>p. rp_campaign (f p) = rp_campaign p)"

interpretation policy_rows: keyed_rows stored_policy upd_policy keeps_policy_key
  by unfold_locales (simp_all add: keeps_policy_key_def stored_upd_policy)

lemma stored_policy_cong: "policies d' = policies d \<Longrightarrow> stored_policy camp d' = stored_policy camp d"
  by (simp add: stored_policy_def)

lemma ensure_policy_stored:
  "stored_policy camp (snd (ensure_policy st camp d)) = Some (get_effective_policy st camp d)"
  by (auto simp: ensure_policy_def get_effective_policy_def stored_policy_def get_row_snoc
    build_default_policy_def split: option.splits)

lemma ensure_policy_other: "j \<noteq> camp \<Longrightarrow> stored_policy j (snd (ensure_policy st camp d)) = stored_policy j d"
  by (auto simp: ensure_policy_def stored_policy_def get_row_snoc build_default_policy_def split: option.splits)

lemma keys_of_dict_set [simp]: "keys_of (dict_set k v al) = insert k (keys_of al)"
  unfolding keys_of_def by (induction k v al rule: dict_set.induct) auto

lemma keys_of_Cons [simp]: "keys_of ((k, v) # al) = insert k (keys_of al)"
  by (simp add: keys_of_def)

lemma keys_of_Nil [simp]: "keys_of [] = {}"
  by (simp add: keys_of_def)

lemma keys_of_fold: "keys_of (fold (\<lambda>(k, v). dict_set k v) al old) = keys_of al \<union> keys_of old"
  by (induction al arbitrary: old) (auto simp del: split_paired_All)

lemma rule_keys_known_Some: "rule_keys_known (Some al) allowed \<longleftrightarrow> keys_of al \<subseteq> set allowed"
  by (induction al) (auto simp: rule_keys_known_def)

lemma keys_of_merge:
  "rule_keys_known rs allowed \<Longrightarrow> keys_of old \<subseteq> K \<Longrightarrow> set allowed \<subseteq> K \<Longrightarrow> keys_of (dict_merge old rs) \<subseteq> K"
  by (cases rs) (simp_all add: rule_keys_known_Some dict_merge_def keys_of_fold)

lemma validate_InrD:
  "validate_policy_update st u = Inr () \<Longrightarrow>
    pu_max_retries u \<le> st_max_retries_ceiling st \<and> int (length (pu_spacing u)) = pu_max_retries u \<and>
    (\<forall>s \<in> set (pu_spacing u). st_min_backoff st \<le> s \<and> s \<le> st_max_backoff st) \<and>
    pu_window_start u \<noteq> pu_window_end u \<and>
    window_within_bound (pu_window_start u) (pu_window_end u) (st_hard_start st) (st_hard_end st) = Inr True \<and>
    rule_keys_known (pu_never_connected u) (map never_connected_value never_connected_reasons) \<and>
    rule_keys_known (pu_mid_call u) (map mid_call_value mid_call_reasons)"
  by (auto simp: validate_policy_update_def list_all_iff split: if_splits sum.splits bool.splits)

lemma validate_ok:
  assumes "validate_policy_update st u = Inr ()" "known_rules p"
  shows "policy_ok st (apply_update u p)"
proof -
  note v = validate_InrD [OF assms(1)]
  have "keys_of (dict_merge (rp_never_connected p) (pu_never_connected u)) \<subseteq> range never_connected_value"
    using v assms(2) by (intro keys_of_merge [of _ "map never_connected_value never_connected_reasons"])
      (auto simp: known_rules_def)
  moreover have "keys_of (dict_merge (rp_mid_call p) (pu_mid_call u)) \<subseteq> range mid_call_value"
    using v assms(2) by (intro keys_of_merge [of _ "map mid_call_value mid_call_reasons"])
      (auto simp: known_rules_def)
  ultimately show ?thesis using v by (simp add: policy_ok_def apply_update_def known_rules_def)
qed

lemma known_default: "known_rules (build_default_policy st camp)"
proof -
  have "keys_of DEFAULT_NEVER_CONNECTED_RULES = set (map never_connected_value never_connected_reasons)"
    by (simp add: keys_of_def DEFAULT_NEVER_CONNECTED_RULES_def never_connected_reasons_def)
  moreover have "keys_of DEFAULT_MID_CALL_RULES = set (map mid_call_value mid_call_reasons)"
    by (simp add: keys_of_def DEFAULT_MID_CALL_RULES_def mid_call_reasons_def)
  ultimately show ?thesis by (auto simp: known_rules_def build_default_policy_def)
qed

lemma default_policy_ok: "policy_ok default_settings (build_default_policy default_settings camp)"
  using known_default [of default_settings camp]
  by (simp add: policy_ok_def build_default_policy_def default_settings_def window_within_bound_def
    intervals_def clock_def minutes_def seconds_def)

lemma stored_policy_in: "stored_policy camp d = Some p \<Longrightarrow> p \<in> set (policies d)"
  unfolding stored_policy_def by (rule get_row_in)

section \<open>The policy in force\<close>

text \<open>
  An accepted update leaves the campaign a stored policy that satisfies every bound of the
  settings (as many spacings as retries, each within the backoff range, a window inside the hard
  bound, known reasons only); it is the policy in force afterwards, every other campaign keeps
  its own, and the change is audited once.
\<close>

theorem policy_put_ok:
  assumes "policy_put w actor camp u d = Inr d'"
    and "known_rules (get_effective_policy (ev_settings w) camp d)"
  shows "stored_policy camp d' = Some (apply_update u (get_effective_policy (ev_settings w) camp d)) \<and>
    policy_ok (ev_settings w) (get_effective_policy (ev_settings w) camp d') \<and>
    (\<forall>j. j \<noteq> camp \<longrightarrow> get_effective_policy (ev_settings w) j d' = get_effective_policy (ev_settings w) j d) \<and>
    length (audits d') = Suc (length (audits d))"
proof -
  have v: "validate_policy_update (ev_settings w) u = Inr ()"
    using assms(1) by (auto simp: policy_put_def rbind_Inr_iff)
  let ?d1 = "snd (ensure_policy (ev_settings w) camp d)"
  have p': "policies d' = policies (upd_policy camp (apply_update u) ?d1)"
    and au: "length (audits d') = Suc (length (audits d))"
    using assms(1)
    by (auto simp: policy_put_def rbind_Inr_iff Let_def upd_policy_def ensure_policy_def split: option.splits if_splits)
  have s: "stored_policy j d' = (if j = camp
      then Some (apply_update u (get_effective_policy (ev_settings w) camp d)) else stored_policy j d)" for j
    by (simp add: stored_policy_cong [OF p'] stored_upd_policy ensure_policy_stored ensure_policy_other)
  show ?thesis
    using s au validate_ok [OF v assms(2)] by (simp add: get_effective_policy_def)
qed

definition sample_campaign :: campaign where
  "sample_campaign = \<lparr> camp_id = 7, camp_name = ''c'', camp_status = CAMP_ACTIVE,
    camp_timezone = ''Asia/Kolkata'', camp_region = ''IN'', camp_legal_hold = False,
    camp_closed_at = None, camp_created_at = 0 \<rparr>"

definition sample_update :: policy_update where
  "sample_update = \<lparr> pu_max_retries = 1, pu_spacing = [600], pu_window_start = clock 10 0,
    pu_window_end = clock 18 0, pu_timezone = None, pu_never_connected = Some [(''busy'', False)],
    pu_mid_call = None \<rparr>"

theorem policy_put_ok_witness:
  "\<exists>d'. policy_put plain_env ''op'' 7 sample_update (empty_db\<lparr> campaigns := [sample_campaign] \<rparr>) = Inr d' \<and>
    policy_ok (ev_settings plain_env) (get_effective_policy (ev_settings plain_env) 7 d')"
proof -
  have "case policy_put plain_env ''op'' 7 sample_update (empty_db\<lparr> campaigns := [sample_campaign] \<rparr>) of
      Inr _ \<Rightarrow> True | Inl _ \<Rightarrow> False" by code_simp
  then obtain d' where p: "policy_put plain_env ''op'' 7 sample_update (empty_db\<lparr> campaigns := [sample_campaign] \<rparr>) = Inr d'"
    by (auto split: sum.splits)
  have "known_rules (get_effective_policy (ev_settings plain_env) 7 (empty_db\<lparr> campaigns := [sample_campaign] \<rparr>))"
    using known_default by (simp add: get_effective_policy_def stored_policy_def empty_db_def)
  from policy_put_ok [OF p this] p show ?thesis by blast
qed

end
