(* ===== verification/Campaigns.thy ===== *)
theory Campaigns imports Retry_Policy begin

text \<open>
  \<open>app/services/campaign_service.py\<close>, \<open>contact_service.py\<close>, \<open>campaign_contact_service.py\<close>,
  \<open>contact_import_service.py\<close> and the membership half of \<open>eligibility_service.py\<close>: the management
  operations. An operation that raises leaves no trace, because its request's transaction is
  rolled back: the model returns the error alone. CSV decoding is the \<open>rows\<close> argument of the import.
\<close>

section \<open>Listing\<close>

definition newest_first :: "('r \<Rightarrow> instant) \<Rightarrow> ('r \<Rightarrow> uuid) \<Rightarrow> 'r list \<Rightarrow> 'r list" where
  "newest_first created key rows = rev (sort_key (\<lambda>r. (created r, key r)) rows)"

definition list_campaigns :: "campaign_status option \<Rightarrow> nat \<Rightarrow> nat \<Rightarrow> db \<Rightarrow> campaign list \<times> nat" where
  "list_campaigns status limit offset d =
    (let rows = filter (\<lambda>c. case status of None \<Rightarrow> True | Some s \<Rightarrow> camp_status c = s) (campaigns d)
     in (take limit (drop offset (newest_first camp_created_at camp_id rows)), length rows))"

definition list_contacts ::
    "uuid option \<Rightarrow> contact_status option \<Rightarrow> nat \<Rightarrow> nat \<Rightarrow> db \<Rightarrow> contact list \<times> nat" where
  "list_contacts camp status limit offset d =
    (let rows = filter (\<lambda>c. (case camp of None \<Rightarrow> True | Some i \<Rightarrow> c_campaign c = i) \<and>
           (case status of None \<Rightarrow> True | Some s \<Rightarrow> c_status c = s)) (contacts d)
     in (take limit (drop offset (newest_first c_created_at c_id rows)), length rows))"

section \<open>Campaigns\<close>

fun allowed_transitions :: "campaign_status \<Rightarrow> campaign_status set" where
  "allowed_transitions CAMP_DRAFT = {CAMP_ACTIVE}"
| "allowed_transitions CAMP_ACTIVE = {CAMP_PAUSED, CAMP_COMPLETED}"
| "allowed_transitions CAMP_PAUSED = {CAMP_ACTIVE, CAMP_COMPLETED}"
| "allowed_transitions CAMP_COMPLETED = {}"

record campaign_update =
  cu_name :: "string option"
  cu_status :: "campaign_status option"
  cu_timezone :: "string option"

definition create_campaign :: "settings \<Rightarrow> string \<Rightarrow> instant \<Rightarrow> uuid \<Rightarrow> string \<Rightarrow> string option \<Rightarrow>
    string option \<Rightarrow> db \<Rightarrow> campaign \<times> db" where
  "create_campaign st actor now i name tz region d =
    (let c = \<lparr> camp_id = i, camp_name = name, camp_status = CAMP_DRAFT,
           camp_timezone = (case tz of Some z \<Rightarrow> if z = [] then st_default_timezone st else z
                            | None \<Rightarrow> st_default_timezone st),
           camp_region = (case region of Some r \<Rightarrow> if r = [] then st_default_region st else r
                          | None \<Rightarrow> st_default_region st),
           camp_legal_hold = False, camp_closed_at = None, camp_created_at = now \<rparr>;
         d1 = d\<lparr> campaigns := campaigns d @ [c] \<rparr>;
         d2 = snd (ensure_policy st i d1)
     in (c, record_audit_event actor ''campaign.created'' ''campaign'' (Some i) [] d2))"

definition transition_status :: "string \<Rightarrow> instant \<Rightarrow> string option \<Rightarrow> campaign \<Rightarrow> campaign_status \<Rightarrow>
    db \<Rightarrow> app_error + (bool \<times> db)" where
  "transition_status actor now request_id c new d =
    (let old = camp_status c in
     if new \<notin> allowed_transitions old then Inl (ValidationError ''Cannot transition campaign'')
     else let d1 = upd_campaign (camp_id c) (\<lambda>r. r\<lparr> camp_status := new,
                 camp_closed_at := (if new = CAMP_COMPLETED then Some now else camp_closed_at r) \<rparr>) d;
              d2 = record_audit_event actor ''campaign.status_changed'' ''campaign'' (Some (camp_id c))
                 [(''from'', JStr (campaign_status_value old)), (''to'', JStr (campaign_status_value new)),
                  (''request_id'', j_opt_str request_id), (''result'', JStr ''applied'')] d1
          in Inr (new \<noteq> CAMP_PAUSED \<and> old = CAMP_PAUSED \<and> new = CAMP_ACTIVE, d2))"

definition update_name :: "string \<Rightarrow> campaign \<Rightarrow> string option \<Rightarrow> db \<Rightarrow> db" where
  "update_name actor c name d =
    (case name of
       Some n \<Rightarrow>
         if n \<noteq> camp_name c then
           record_audit_event actor ''campaign.updated'' ''campaign'' (Some (camp_id c))
             [(''field'', JStr ''name'')] (upd_campaign (camp_id c) (\<lambda>r. r\<lparr> camp_name := n \<rparr>) d)
         else d
     | None \<Rightarrow> d)"

definition update_timezone :: "string \<Rightarrow> campaign \<Rightarrow> string option \<Rightarrow> db \<Rightarrow> db" where
  "update_timezone actor c tz d =
    (case tz of
       Some z \<Rightarrow>
         if z \<noteq> camp_timezone c then
           record_audit_event actor ''campaign.updated'' ''campaign'' (Some (camp_id c))
             [(''field'', JStr ''timezone''), (''before'', JStr (camp_timezone c)), (''after'', JStr z)]
             (upd_campaign (camp_id c) (\<lambda>r. r\<lparr> camp_timezone := z \<rparr>) d)
         else d
     | None \<Rightarrow> d)"

text \<open>\<open>update_campaign\<close>: the flag is the service's \<open>resumed\<close> (the caller re-queues after commit).\<close>

definition update_campaign :: "string \<Rightarrow> instant \<Rightarrow> string option \<Rightarrow> uuid \<Rightarrow> campaign_update \<Rightarrow> db \<Rightarrow>
    app_error + (bool \<times> db)" where
  "update_campaign actor now request_id i u d =
    (case get_campaign i d of
       None \<Rightarrow> Inl NotFoundError
     | Some c \<Rightarrow>
         let d1 = update_name actor c (cu_name u) d;
             d2 = update_timezone actor c (cu_timezone u) d1
         in (case cu_status u of
               Some s \<Rightarrow> if s \<noteq> camp_status c then transition_status actor now request_id c s d2
                         else Inr (False, d2)
             | None \<Rightarrow> Inr (False, d2)))"

section \<open>Contacts\<close>

definition validate_and_normalize :: "'p env \<Rightarrow> string \<Rightarrow> campaign \<Rightarrow> app_error + string" where
  "validate_and_normalize w phone c =
    (case normalize_phone w (Some phone) (camp_region c) (Some (st_allowed_dial_regions (ev_settings w))) of
       Inl e \<Rightarrow> Inl (ValidationError (phone_error_code e))
     | Inr np \<Rightarrow> Inr (np_e164 np))"

definition new_contact :: "instant \<Rightarrow> uuid \<Rightarrow> uuid \<Rightarrow> string \<Rightarrow> string \<Rightarrow> contact" where
  "new_contact now i camp phone number = \<lparr> c_id = i, c_campaign = camp, c_phone = phone,
    c_number = number, c_status = C_PENDING, c_attempt_count = 0, c_next_retry_at = None,
    c_retry_attempt_id = None, c_retry_attempt_number = None, c_legal_hold = False,
    c_purged_at = None, c_created_at = now \<rparr>"

definition create_contact ::
    "'p env \<Rightarrow> string \<Rightarrow> instant \<Rightarrow> uuid \<Rightarrow> uuid \<Rightarrow> string \<Rightarrow> db \<Rightarrow> app_error + db" where
  "create_contact w actor now i camp phone d =
    (case get_campaign camp d of
       None \<Rightarrow> Inl NotFoundError
     | Some c \<Rightarrow>
         rbind (validate_and_normalize w phone c) (\<lambda>number.
           if is_suppressed w number d
           then Inl (ConflictError ''Phone number is suppressed and cannot be added'')
           else if get_contact_by_phone camp number d \<noteq> None
           then Inl (ConflictError ''Contact with this phone number already exists'')
           else Inr (record_audit_event actor ''contact.created'' ''contact'' (Some i)
             [(''campaign_id'', JId camp)] (add_contact (new_contact now i camp phone number) d))))"

text \<open>\<open>existing is not None and existing.id != contact.id\<close>\<close>

definition number_taken :: "uuid \<Rightarrow> string \<Rightarrow> uuid \<Rightarrow> db \<Rightarrow> bool" where
  "number_taken camp number i d =
    (case get_contact_by_phone camp number d of None \<Rightarrow> False | Some other \<Rightarrow> c_id other \<noteq> i)"

definition update_contact ::
    "'p env \<Rightarrow> string \<Rightarrow> uuid \<Rightarrow> string option \<Rightarrow> db \<Rightarrow> app_error + db" where
  "update_contact w actor i phone d =
    (case get_contact i d of
       None \<Rightarrow> Inl NotFoundError
     | Some contact \<Rightarrow>
        (case phone of
           None \<Rightarrow> Inr d
         | Some ph \<Rightarrow>
            (case get_campaign (c_campaign contact) d of
               None \<Rightarrow> Inl AssertionError
             | Some c \<Rightarrow>
                 rbind (validate_and_normalize w ph c) (\<lambda>number.
                   if number = c_number contact then Inr d
                   else if number_taken (c_campaign contact) number i d
                   then Inl (ConflictError ''Contact with this phone number already exists'')
                   else Inr (record_audit_event actor ''contact.updated'' ''contact'' (Some i) []
                     (upd_contact i (\<lambda>r. r\<lparr> c_phone := ph, c_number := number \<rparr>) d))))))"

definition deactivate_contact :: "string \<Rightarrow> uuid \<Rightarrow> db \<Rightarrow> app_error + db" where
  "deactivate_contact actor i d =
    (case get_contact i d of
       None \<Rightarrow> Inl NotFoundError
     | Some contact \<Rightarrow> Inr (record_audit_event actor ''contact.deactivated'' ''contact'' (Some i) []
         (upd_contact i (\<lambda>r. r\<lparr> c_status := C_CLOSED \<rparr>) d)))"

section \<open>Membership\<close>

text \<open>\<open>EligibilityResult\<close>, and \<open>CampaignEligibilityService.check\<close>.\<close>

record eligibility =
  el_eligible :: bool
  el_reason :: "string option"
  el_code :: "string option"

definition eligible :: eligibility where
  "eligible = \<lparr> el_eligible = True, el_reason = None, el_code = None \<rparr>"

definition ineligible :: "string \<Rightarrow> string option \<Rightarrow> eligibility" where
  "ineligible reason code = \<lparr> el_eligible = False, el_reason = Some reason, el_code = code \<rparr>"

definition membership_check :: "'p env \<Rightarrow> contact \<Rightarrow> campaign \<Rightarrow> db \<Rightarrow> eligibility" where
  "membership_check w contact c d =
    (if camp_status c \<notin> {CAMP_DRAFT, CAMP_ACTIVE, CAMP_PAUSED}
     then ineligible (''Campaign is '' @ campaign_status_value (camp_status c) @ '' and not accepting members'') None
     else if c_status contact = C_CLOSED then ineligible ''Contact is closed/deactivated'' None
     else if is_suppressed w (c_number contact) d then ineligible ''Contact is suppressed'' None
     else eligible)"

definition associate :: "'p env \<Rightarrow> string \<Rightarrow> uuid \<Rightarrow> uuid \<Rightarrow> db \<Rightarrow> app_error + db" where
  "associate w actor camp i d =
    (case get_campaign camp d of
       None \<Rightarrow> Inl NotFoundError
     | Some c \<Rightarrow>
        (case get_contact i d of
           None \<Rightarrow> Inl NotFoundError
         | Some contact \<Rightarrow>
             if \<not> el_eligible (membership_check w contact c d)
             then Inl (ConflictError (case el_reason (membership_check w contact c d) of
                  Some r \<Rightarrow> r | None \<Rightarrow> ''Contact is not eligible for campaign''))
             else if c_campaign contact = camp then Inr d
             else (case normalize_phone w (Some (c_number contact)) (camp_region c)
                       (Some (st_allowed_dial_regions (ev_settings w))) of
                 Inl e \<Rightarrow> Inl (ConflictError (phone_error_code e))
               | Inr np \<Rightarrow>
                   if number_taken camp (np_e164 np) i d
                   then Inl (ConflictError ''A contact with this phone number already exists'')
                   else Inr (record_audit_event actor ''campaign.contact_added'' ''contact'' (Some i)
                     [(''from_campaign_id'', JId (c_campaign contact)), (''to_campaign_id'', JId camp)]
                     (upd_contact i (\<lambda>r. r\<lparr> c_campaign := camp, c_number := np_e164 np,
                        c_status := C_PENDING \<rparr>) d)))))"

definition remove_from_campaign :: "string \<Rightarrow> uuid \<Rightarrow> uuid \<Rightarrow> db \<Rightarrow> app_error + db" where
  "remove_from_campaign actor camp i d =
    (case get_campaign camp d of
       None \<Rightarrow> Inl NotFoundError
     | Some _ \<Rightarrow>
        (case get_contact i d of
           None \<Rightarrow> Inl NotFoundError
         | Some contact \<Rightarrow>
             if c_campaign contact \<noteq> camp then Inl NotFoundError
             else Inr (record_audit_event actor ''campaign.contact_removed'' ''contact'' (Some i)
               [(''campaign_id'', JId camp)] (upd_contact i (\<lambda>r. r\<lparr> c_status := C_CLOSED \<rparr>) d))))"

definition campaign_counts :: "uuid \<Rightarrow> db \<Rightarrow> nat \<times> nat \<times> nat" where
  "campaign_counts camp d =
    (let rows = filter (\<lambda>c. c_campaign c = camp) (contacts d);
         sup = (\<lambda>c. c_number c \<in> set (map s_number (suppressions d)))
     in (length rows, count_where (\<lambda>c. c_status c \<noteq> C_CLOSED \<and> \<not> sup c) rows, count_where sup rows))"

section \<open>Bulk import\<close>

record contact_scan =
  cs_total :: nat
  cs_duplicates :: nat
  cs_valid :: "(string \<times> string) list"
  cs_errors :: "(nat \<times> string) list"

definition scan_contact_row :: "'p env \<Rightarrow> nat \<Rightarrow> string \<Rightarrow> contact_scan \<Rightarrow> contact_scan" where
  "scan_contact_row w row_number raw st =
    (if py_strip raw = [] then st\<lparr> cs_errors := cs_errors st @ [(row_number, phone_error_code P_EMPTY)] \<rparr>
     else case normalize_phone w (Some raw) (st_default_region (ev_settings w))
            (Some (st_allowed_dial_regions (ev_settings w))) of
         Inl e \<Rightarrow> st\<lparr> cs_errors := cs_errors st @ [(row_number, phone_error_code e)] \<rparr>
       | Inr np \<Rightarrow>
           if np_e164 np \<in> set (map snd (cs_valid st)) then st\<lparr> cs_duplicates := cs_duplicates st + 1 \<rparr>
           else st\<lparr> cs_valid := cs_valid st @ [(raw, np_e164 np)] \<rparr>)"

fun scan_contact_rows :: "'p env \<Rightarrow> (nat \<times> string) list \<Rightarrow> contact_scan \<Rightarrow> app_error + contact_scan" where
  "scan_contact_rows w [] st = Inr st"
| "scan_contact_rows w ((row_number, raw) # rest) st =
    (let st1 = st\<lparr> cs_total := cs_total st + 1 \<rparr> in
     if cs_total st1 > MAX_IMPORT_ROWS then Inl (ValidationError ''Import file exceeds the maximum'')
     else scan_contact_rows w rest (scan_contact_row w row_number raw st1))"

record contact_import_result =
  ci_campaign :: "uuid option"
  ci_total :: nat
  ci_created :: nat
  ci_duplicates :: nat
  ci_invalid :: nat
  ci_suppressed :: nat

text \<open>The chunks of \<open>add_all\<close> and \<open>flush\<close> append the same rows one after the other.\<close>

definition contact_import :: "'p env \<Rightarrow> string \<Rightarrow> instant \<Rightarrow> uuid \<Rightarrow> (nat \<Rightarrow> uuid) \<Rightarrow> string \<Rightarrow>
    (nat \<times> string) list \<Rightarrow> db \<Rightarrow> app_error + (contact_import_result \<times> db)" where
  "contact_import w actor now camp mint name rows d =
    rbind (scan_contact_rows w rows \<lparr> cs_total = 0, cs_duplicates = 0, cs_valid = [], cs_errors = [] \<rparr>) (\<lambda>sc.
      if cs_valid sc = [] then
        Inr (\<lparr> ci_campaign = None, ci_total = cs_total sc, ci_created = 0, ci_duplicates = cs_duplicates sc,
               ci_invalid = length (cs_errors sc), ci_suppressed = 0 \<rparr>, d)
      else
        let st = ev_settings w;
            n_sup = card (suppressed_among w (map snd (cs_valid sc)) d);
            c = \<lparr> camp_id = camp, camp_name = name, camp_status = CAMP_DRAFT,
                  camp_timezone = st_default_timezone st, camp_region = st_default_region st,
                  camp_legal_hold = False, camp_closed_at = None, camp_created_at = now \<rparr>;
            d1 = snd (ensure_policy st camp (d\<lparr> campaigns := campaigns d @ [c] \<rparr>));
            new = map (\<lambda>(k, raw, number). new_contact now (mint k) camp raw number)
                    (zip [0..<length (cs_valid sc)] (cs_valid sc));
            d2 = d1\<lparr> contacts := contacts d1 @ new \<rparr>;
            created = length (cs_valid sc)
        in Inr (\<lparr> ci_campaign = Some camp, ci_total = cs_total sc, ci_created = created,
               ci_duplicates = cs_duplicates sc, ci_invalid = length (cs_errors sc), ci_suppressed = n_sup \<rparr>,
             record_audit_event actor ''campaign.bulk_import_completed'' ''campaign'' (Some camp)
               [(''created'', JInt (int created)), (''duplicates'', JInt (int (cs_duplicates sc))),
                (''invalid'', JInt (int (length (cs_errors sc)))), (''suppressed'', JInt (int n_sup))] d2))"

section \<open>Campaign transitions\<close>

lemma update_name_campaign:
  "get_campaign j (update_name actor c name d) = (if j = camp_id c
     then map_option (\<lambda>r. if name \<noteq> None \<and> name \<noteq> Some (camp_name c) then r\<lparr> camp_name := the name \<rparr> else r) (get_campaign j d)
     else get_campaign j d)"
  by (cases "get_campaign j d") (auto simp: update_name_def get_campaign_upd split: option.splits)

lemma update_timezone_campaign:
  "get_campaign j (update_timezone actor c tz d) = (if j = camp_id c
     then map_option (\<lambda>r. if tz \<noteq> None \<and> tz \<noteq> Some (camp_timezone c) then r\<lparr> camp_timezone := the tz \<rparr> else r) (get_campaign j d)
     else get_campaign j d)"
  by (cases "get_campaign j d") (auto simp: update_timezone_def get_campaign_upd split: option.splits)

lemma get_campaign_id: "get_campaign i d = Some c \<Longrightarrow> camp_id c = i"
  unfolding get_campaign_def by (rule get_row_key)

lemma update_campaign_result:
  assumes "update_campaign actor now rid i u d = Inr (resumed, d')" and "get_campaign i d = Some c"
  shows "\<exists>c'. get_campaign i d' = Some c' \<and>
    (camp_status c' = camp_status c \<and> camp_closed_at c' = camp_closed_at c \<and> \<not> resumed \<or>
     camp_status c' \<in> allowed_transitions (camp_status c) \<and>
     camp_closed_at c' = (if camp_status c' = CAMP_COMPLETED then Some now else camp_closed_at c) \<and>
     resumed = (camp_status c = CAMP_PAUSED \<and> camp_status c' = CAMP_ACTIVE)) \<and>
    (\<forall>j. j \<noteq> i \<longrightarrow> get_campaign j d' = get_campaign j d) \<and> contacts d' = contacts d"
proof -
  note id = get_campaign_id [OF assms(2)]
  have frame: "contacts (update_timezone actor c tz (update_name actor c nm d)) = contacts d" for tz nm
    by (auto simp: update_timezone_def update_name_def split: option.splits)
  show ?thesis
    using assms id
    by (auto simp: update_campaign_def transition_status_def Let_def update_name_campaign update_timezone_campaign
      get_campaign_upd frame split: option.splits if_splits)
qed

text \<open>A request that raises changes nothing: the campaign keeps the status it had.\<close>

definition run_update :: "string \<Rightarrow> instant \<times> string option \<times> uuid \<times> campaign_update \<Rightarrow> db \<Rightarrow> db" where
  "run_update actor r d = (case r of (now, rid, i, u) \<Rightarrow>
    (case update_campaign actor now rid i u d of Inr (_, d') \<Rightarrow> d' | Inl _ \<Rightarrow> d))"

inductive status_path :: "campaign_status \<Rightarrow> campaign_status \<Rightarrow> bool" where
  path_refl: "status_path s s"
| path_step: "status_path s t \<Longrightarrow> u \<in> allowed_transitions t \<Longrightarrow> status_path s u"

inductive_cases status_path_completedE: "status_path CAMP_COMPLETED s"

lemma status_path_completed: "status_path s t \<Longrightarrow> s = CAMP_COMPLETED \<Longrightarrow> t = CAMP_COMPLETED"
  by (induction rule: status_path.induct) auto

lemma status_path_trans: "status_path t u \<Longrightarrow> status_path s t \<Longrightarrow> status_path s u"
  by (induction rule: status_path.induct) (auto intro: path_step)

lemma run_update_step:
  assumes "get_campaign j d = Some c"
  shows "\<exists>c'. get_campaign j (run_update actor r d) = Some c' \<and> status_path (camp_status c) (camp_status c') \<and>
    (camp_status c = CAMP_COMPLETED \<longrightarrow> camp_closed_at c' = camp_closed_at c)"
proof -
  obtain now rid i u where r: "r = (now, rid, i, u)" by (cases r) auto
  show ?thesis
  proof (cases "update_campaign actor now rid i u d")
    case (Inr q)
    obtain resumed d' where q: "q = (resumed, d')" by (cases q)
    then obtain c0 where c0: "get_campaign i d = Some c0"
      using Inr by (auto simp: update_campaign_def split: option.splits)
    from update_campaign_result [OF Inr [unfolded q] c0] assms c0 show ?thesis
      by (cases "j = i") (auto simp: run_update_def r Inr q intro: path_refl path_step [OF path_refl])
  qed (use assms in \<open>auto simp: run_update_def r intro: path_refl\<close>)
qed

text \<open>
  Whatever sequence of updates is requested, a campaign's status moves only along the allowed
  transitions: a completed campaign stays completed with the closing time it got, and no draft
  completes without having been active.
\<close>

theorem campaign_updates_follow_transitions:
  assumes "get_campaign j d = Some c"
  shows "\<exists>c'. get_campaign j (fold (run_update actor) rs d) = Some c' \<and>
    status_path (camp_status c) (camp_status c') \<and>
    (camp_status c = CAMP_COMPLETED \<longrightarrow> camp_status c' = CAMP_COMPLETED \<and> camp_closed_at c' = camp_closed_at c)"
  using assms
proof (induction rs arbitrary: d c)
  case (Cons r rs)
  from run_update_step [OF Cons.prems, of actor r] obtain c1 where
    c1: "get_campaign j (run_update actor r d) = Some c1" "status_path (camp_status c) (camp_status c1)"
      "camp_status c = CAMP_COMPLETED \<longrightarrow> camp_closed_at c1 = camp_closed_at c" by blast
  from Cons.IH [OF c1(1)] c1 status_path_completed show ?case
    by (auto intro: status_path_trans)
qed (auto intro: path_refl)

theorem campaign_updates_follow_transitions_witness:
  "\<exists>c'. get_campaign 7 (fold (run_update ''op'')
      [(5, None, 7, \<lparr> cu_name = None, cu_status = Some CAMP_COMPLETED, cu_timezone = None \<rparr>),
       (6, None, 7, \<lparr> cu_name = None, cu_status = Some CAMP_ACTIVE, cu_timezone = None \<rparr>)]
      (empty_db\<lparr> campaigns := [sample_campaign] \<rparr>)) = Some c' \<and> status_path CAMP_ACTIVE (camp_status c')"
proof -
  have "get_campaign 7 (empty_db\<lparr> campaigns := [sample_campaign] \<rparr>) = Some sample_campaign"
    by (simp add: get_campaign_def get_row_Cons sample_campaign_def)
  from campaign_updates_follow_transitions [OF this] show ?thesis
    by (metis campaign.select_convs(3) sample_campaign_def)
qed

section \<open>One contact per number and campaign\<close>

definition contact_key :: "contact \<Rightarrow> uuid \<times> string" where
  "contact_key c = (c_campaign c, c_number c)"

definition contacts_unique :: "db \<Rightarrow> bool" where
  "contacts_unique d \<longleftrightarrow> keys_distinct c_id (contacts d) \<and> keys_distinct contact_key (contacts d)"

datatype contact_op =
    Op_create instant uuid uuid string
  | Op_update uuid "string option"
  | Op_deactivate uuid
  | Op_associate uuid uuid
  | Op_remove uuid uuid
  | Op_import instant uuid "nat \<Rightarrow> uuid" string "(nat \<times> string) list"

fun contact_op_result :: "'p env \<Rightarrow> string \<Rightarrow> contact_op \<Rightarrow> db \<Rightarrow> app_error + db" where
  "contact_op_result w actor (Op_create now i camp phone) d = create_contact w actor now i camp phone d"
| "contact_op_result w actor (Op_update i phone) d = update_contact w actor i phone d"
| "contact_op_result w actor (Op_deactivate i) d = deactivate_contact actor i d"
| "contact_op_result w actor (Op_associate camp i) d = associate w actor camp i d"
| "contact_op_result w actor (Op_remove camp i) d = remove_from_campaign actor camp i d"
| "contact_op_result w actor (Op_import now camp mint name rows) d =
    rbind (contact_import w actor now camp mint name rows d) (\<lambda>(_, d'). Inr d')"

text \<open>The identifiers an operation mints are new.\<close>

fun mints_fresh :: "contact_op \<Rightarrow> db \<Rightarrow> bool" where
  "mints_fresh (Op_create now i camp phone) d = (get_contact i d = None)"
| "mints_fresh (Op_import now camp mint name rows) d =
    (inj mint \<and> (\<forall>k. get_contact (mint k) d = None) \<and> (\<forall>c \<in> set (contacts d). c_campaign c \<noteq> camp))"
| "mints_fresh _ d = True"

lemma get_contact_by_phone_row: "get_contact_by_phone camp n d = get_row contact_key (camp, n) (contacts d)"
  by (simp add: get_contact_by_phone_def get_row_def contact_key_def)

lemma contact_key_upd_status [simp]: "contact_key (r\<lparr> c_status := s \<rparr>) = contact_key r"
  by (simp add: contact_key_def)

lemma contacts_unique_cong: "contacts d' = contacts d \<Longrightarrow> contacts_unique d' = contacts_unique d"
  by (simp add: contacts_unique_def)

lemma contacts_unique_status:
  "contacts_unique d \<Longrightarrow> contacts_unique (upd_contact i (\<lambda>r. r\<lparr> c_status := s \<rparr>) d)"
  by (simp add: contacts_unique_def upd_contact_def)

lemma contacts_unique_move:
  assumes u: "contacts_unique d" and keep: "\<And>r. c_id (f r) = c_id r"
    and key: "\<And>r. r \<in> set (contacts d) \<Longrightarrow> c_id r = i \<Longrightarrow> contact_key (f r) = k"
    and free: "\<not> number_taken (fst k) (snd k) i d"
  shows "contacts_unique (upd_contact i f d)"
proof -
  have "contact_key q \<noteq> k" if "q \<in> set (contacts d)" "c_id q \<noteq> i" for q
  proof
    assume "contact_key q = k"
    then have "get_row contact_key k (contacts d) = Some q"
      using u that(1) by (simp add: contacts_unique_def get_row_Some_iff)
    with free that(2) show False by (simp add: number_taken_def get_contact_by_phone_row)
  qed
  then have "keys_distinct contact_key (upd_row c_id i f (contacts d))"
    using u key by (intro keys_distinct_upd_change) (auto simp: contacts_unique_def)
  then show ?thesis using u keep by (simp add: contacts_unique_def upd_contact_def)
qed

lemma create_contact_unique:
  assumes "create_contact w actor now i camp phone d = Inr d'" "contacts_unique d" "get_contact i d = None"
  shows "contacts_unique d'"
  using assms
  by (auto simp: create_contact_def rbind_Inr_iff contacts_unique_def add_contact_def keys_distinct_snoc
    get_contact_by_phone_row get_contact_def new_contact_def contact_key_def split: option.splits if_splits)

lemma update_contact_unique:
  assumes "update_contact w actor i phone d = Inr d'" "contacts_unique d"
  shows "contacts_unique d'"
proof (cases "d' = d")
  case False
  from assms(1) False obtain contact ph number where
    c: "get_contact i d = Some contact"
    and free: "\<not> number_taken (c_campaign contact) number i d"
    and d': "contacts d' = contacts (upd_contact i (\<lambda>r. r\<lparr> c_phone := ph, c_number := number \<rparr>) d)"
    by (clarsimp simp: update_contact_def rbind_Inr_iff split: option.splits if_splits)
  have "contacts_unique (upd_contact i (\<lambda>r. r\<lparr> c_phone := ph, c_number := number \<rparr>) d)"
  proof (rule contacts_unique_move [OF assms(2), where k = "(c_campaign contact, number)"])
    show "\<not> number_taken (fst (c_campaign contact, number)) (snd (c_campaign contact, number)) i d"
      using free by simp
  next
    fix r assume "r \<in> set (contacts d)" "c_id r = i"
    then have "get_row c_id i (contacts d) = Some r"
      using assms(2) by (simp add: contacts_unique_def get_row_Some_iff)
    then have "r = contact" using c by (simp add: get_contact_def)
    then show "contact_key (r\<lparr> c_phone := ph, c_number := number \<rparr>) = (c_campaign contact, number)"
      by (simp add: contact_key_def)
  qed simp
  then show ?thesis by (simp add: contacts_unique_cong [OF d'])
qed (use assms in simp)

lemma associate_unique:
  assumes "associate w actor camp i d = Inr d'" "contacts_unique d"
  shows "contacts_unique d'"
proof (cases "d' = d")
  case False
  from assms(1) obtain c contact where c: "get_campaign camp d = Some c" "get_contact i d = Some contact"
    by (cases "get_campaign camp d"; cases "get_contact i d") (simp_all add: associate_def)
  with assms(1) False obtain np where
    "normalize_phone w (Some (c_number contact)) (camp_region c)
      (Some (st_allowed_dial_regions (ev_settings w))) = Inr np"
    by (cases "normalize_phone w (Some (c_number contact)) (camp_region c)
      (Some (st_allowed_dial_regions (ev_settings w)))") (simp_all add: associate_def split: if_splits)
  with assms(1) False c have free: "\<not> number_taken camp (np_e164 np) i d"
    and d': "contacts d' = contacts (upd_contact i (\<lambda>r. r\<lparr> c_campaign := camp, c_number := np_e164 np,
                        c_status := C_PENDING \<rparr>) d)"
    by (auto simp: associate_def split: if_splits)
  have "contacts_unique (upd_contact i (\<lambda>r. r\<lparr> c_campaign := camp, c_number := np_e164 np,
      c_status := C_PENDING \<rparr>) d)"
    by (rule contacts_unique_move [OF assms(2), where k = "(camp, np_e164 np)"])
       (use free in \<open>simp_all add: contact_key_def\<close>)
  then show ?thesis by (simp add: contacts_unique_cong [OF d'])
qed (use assms in simp)

lemma status_ops_unique:
  "deactivate_contact actor i d = Inr d' \<Longrightarrow> contacts_unique d \<Longrightarrow> contacts_unique d'"
  "remove_from_campaign actor camp i d = Inr d' \<Longrightarrow> contacts_unique d \<Longrightarrow> contacts_unique d'"
  using contacts_unique_status [of d i C_CLOSED]
  by (auto simp: deactivate_contact_def remove_from_campaign_def contacts_unique_def split: option.splits if_splits)

lemma scan_contact_rows_spec:
  assumes "scan_contact_rows w rows st = Inr sc" "distinct (map snd (cs_valid st))"
    and "cs_total st = length (cs_valid st) + cs_duplicates st + length (cs_errors st)"
  shows "distinct (map snd (cs_valid sc)) \<and> cs_total sc = cs_total st + length rows \<and>
    cs_total sc = length (cs_valid sc) + cs_duplicates sc + length (cs_errors sc)"
  using assms
proof (induction w rows st rule: scan_contact_rows.induct)
  case (2 w k raw rest st)
  let ?st1 = "st\<lparr> cs_total := cs_total st + 1 \<rparr>"
  let ?st2 = "scan_contact_row w k raw ?st1"
  have le: "\<not> cs_total ?st1 > MAX_IMPORT_ROWS" and rest: "scan_contact_rows w rest ?st2 = Inr sc"
    using "2.prems"(1) by (auto simp: Let_def split: if_splits)
  have t: "cs_total ?st2 = cs_total st + 1" by (auto simp: scan_contact_row_def split: sum.splits)
  have bal: "cs_total ?st2 = length (cs_valid ?st2) + cs_duplicates ?st2 + length (cs_errors ?st2)"
    using "2.prems"(3) by (auto simp: scan_contact_row_def split: sum.splits)
  have dist: "distinct (map snd (cs_valid ?st2))"
    using "2.prems"(2) by (auto simp: scan_contact_row_def split: sum.splits)
  from "2.IH" [OF _ le rest dist bal] t show ?case by auto
qed simp

definition imported_contacts :: "instant \<Rightarrow> uuid \<Rightarrow> (nat \<Rightarrow> uuid) \<Rightarrow> (string \<times> string) list \<Rightarrow> contact list" where
  "imported_contacts now camp mint valid =
    map (\<lambda>(k, raw, number). new_contact now (mint k) camp raw number) (zip [0..<length valid] valid)"

lemma imported_ids: "map c_id (imported_contacts now camp mint valid) = map mint [0..<length valid]"
proof -
  have "map c_id (imported_contacts now camp mint valid) =
      map mint (map fst (zip [0..<length valid] valid))"
    by (simp add: imported_contacts_def new_contact_def comp_def case_prod_unfold del: map_fst_zip)
  then show ?thesis by simp
qed

lemma imported_keys:
  "map contact_key (imported_contacts now camp mint valid) = map (\<lambda>n. (camp, n)) (map snd valid)"
proof -
  have "map contact_key (imported_contacts now camp mint valid) =
      map (\<lambda>v. (camp, snd v)) (map snd (zip [0..<length valid] valid))"
    by (simp add: imported_contacts_def new_contact_def contact_key_def comp_def case_prod_unfold del: map_snd_zip)
  then show ?thesis by (simp add: comp_def)
qed

lemma contact_import_unique:
  assumes i: "contact_import w actor now camp mint name rows d = Inr (res, d')" and u: "contacts_unique d"
    and fresh: "inj mint" "\<forall>k. get_contact (mint k) d = None" "\<forall>c \<in> set (contacts d). c_campaign c \<noteq> camp"
  shows "contacts_unique d'"
proof -
  obtain sc where sc: "scan_contact_rows w rows
      \<lparr> cs_total = 0, cs_duplicates = 0, cs_valid = [], cs_errors = [] \<rparr> = Inr sc"
    using i by (auto simp: contact_import_def rbind_Inr_iff)
  have "contacts (snd (ensure_policy st j d1)) = contacts d1" for st j d1 by (simp add: ensure_policy_def)
  with i sc have d': "contacts d' = contacts d \<or> contacts d' = contacts d @ imported_contacts now camp mint (cs_valid sc)"
    by (auto simp: contact_import_def imported_contacts_def Let_def split: if_splits)
  have "distinct (map snd (cs_valid sc))" using scan_contact_rows_spec [OF sc] by simp
  then have k: "distinct (map contact_key (imported_contacts now camp mint (cs_valid sc)))"
    unfolding imported_keys by (simp add: distinct_map inj_on_def)
  have id: "distinct (map c_id (imported_contacts now camp mint (cs_valid sc)))"
    unfolding imported_ids using fresh(1) by (simp add: distinct_map inj_on_def)
  have "c_id ` set (contacts d) \<inter> set (map c_id (imported_contacts now camp mint (cs_valid sc))) = {}"
    unfolding imported_ids using fresh(2)
    by (auto simp: get_contact_def get_row_None) (metis imageI)
  moreover have "contact_key ` set (contacts d) \<inter>
      set (map contact_key (imported_contacts now camp mint (cs_valid sc))) = {}"
    unfolding imported_keys using fresh(3) by (auto simp: contact_key_def)
  ultimately show ?thesis using d' u k id by (auto simp: contacts_unique_def keys_distinct_def)
qed

text \<open>
  Every management operation (create, update, deactivate, associate, remove, bulk import)
  keeps at most one contact per number and campaign, given that the identifiers it mints are new.
\<close>

theorem contact_op_unique:
  assumes "contact_op_result w actor op d = Inr d'" and "contacts_unique d" and "mints_fresh op d"
  shows "contacts_unique d'"
  using assms
  by (cases op)
     (auto simp: rbind_Inr_iff intro: create_contact_unique update_contact_unique associate_unique
        status_ops_unique contact_import_unique)

theorem contact_op_unique_witness:
  "\<exists>d'. contact_op_result plain_env ''op'' (Op_create 5 11 7 ''98765 43210'')
      (empty_db\<lparr> campaigns := [sample_campaign] \<rparr>) = Inr d' \<and> contacts_unique d' \<and> contacts d' \<noteq> []"
proof -
  have "case contact_op_result plain_env ''op'' (Op_create 5 11 7 ''98765 43210'')
      (empty_db\<lparr> campaigns := [sample_campaign] \<rparr>) of Inr d' \<Rightarrow> contacts d' \<noteq> [] | Inl _ \<Rightarrow> False"
    by code_simp
  then obtain d' where r: "contact_op_result plain_env ''op'' (Op_create 5 11 7 ''98765 43210'')
      (empty_db\<lparr> campaigns := [sample_campaign] \<rparr>) = Inr d'" "contacts d' \<noteq> []"
    by (auto split: sum.splits)
  have "contacts_unique (empty_db\<lparr> campaigns := [sample_campaign] \<rparr>)"
    by (simp add: contacts_unique_def empty_db_def keys_distinct_def)
  moreover have "mints_fresh (Op_create 5 11 7 ''98765 43210'') (empty_db\<lparr> campaigns := [sample_campaign] \<rparr>)"
    by (simp add: get_contact_def empty_db_def)
  ultimately show ?thesis using contact_op_unique [OF r(1)] r by blast
qed

end
