(* ===== verification/Eligibility.thy ===== *)
theory Eligibility imports Campaigns begin

text \<open>
  The final check before a dial: \<open>DialEligibilityService.check\<close> of
  \<open>app/services/eligibility_service.py\<close>. A zone that cannot be loaded is "outside the window"; a
  degenerate window raises out of the check (\<open>Inl WindowValueError\<close>).
\<close>

definition OUTSIDE_WINDOW :: string where "OUTSIDE_WINDOW = ''outside_calling_window''"
definition REGION_NOT_ALLOWED :: string where "REGION_NOT_ALLOWED = ''region_not_allowed''"

definition transient :: "eligibility \<Rightarrow> bool" where
  "transient e \<longleftrightarrow> el_code e = Some OUTSIDE_WINDOW"

definition dial_check :: "'p env \<Rightarrow> contact \<Rightarrow> campaign \<Rightarrow> retry_policy option \<Rightarrow> instant \<Rightarrow> db \<Rightarrow>
    window_error + eligibility" where
  "dial_check w contact c policy now d =
    (if camp_status c \<noteq> CAMP_ACTIVE
     then Inr (ineligible (''Campaign is '' @ campaign_status_value (camp_status c) @ '', not active'') None)
     else if c_purged_at contact \<noteq> None then Inr (ineligible ''Contact data was purged'' None)
     else if c_status contact \<notin> {C_PENDING, C_DIALING, C_RETRY_SCHEDULED}
     then Inr (ineligible (''Contact is '' @ contact_status_value (c_status contact) @ '', not eligible to dial'') None)
     else if is_suppressed w (c_number contact) d then Inr (ineligible ''Contact is suppressed'' None)
     else if \<not> is_dialable_region w (c_number contact) (st_allowed_dial_regions (ev_settings w))
     then Inr (ineligible ''Destination region is not allowed'' (Some REGION_NOT_ALLOWED))
     else let p = (case policy of Some p \<Rightarrow> p | None \<Rightarrow> build_default_policy (ev_settings w) (camp_id c)) in
       (case window_is_open w c p now of
          Inl InvalidTimezone \<Rightarrow> Inr (ineligible ''Outside calling window'' (Some OUTSIDE_WINDOW))
        | Inl err \<Rightarrow> Inl err
        | Inr False \<Rightarrow> Inr (ineligible ''Outside calling window'' (Some OUTSIDE_WINDOW))
        | Inr True \<Rightarrow> Inr eligible))"

lemma transient_eligible [simp]:
  "\<not> transient eligible" "transient (ineligible r c) \<longleftrightarrow> c = Some OUTSIDE_WINDOW"
  "el_eligible eligible" "\<not> el_eligible (ineligible r c)"
  by (simp_all add: transient_def eligible_def ineligible_def)

lemma code_neq [simp]: "REGION_NOT_ALLOWED \<noteq> OUTSIDE_WINDOW"
  by (simp add: REGION_NOT_ALLOWED_def OUTSIDE_WINDOW_def)

text \<open>
  The final check lets a contact be dialed exactly when its campaign is active, it is not
  purged, it is in a pre-dial status, its number is not suppressed and of an allowed region, and
  the calling window of the policy in force is open, inside the hard bound; a campaign without a
  policy row is judged by the default policy, never by none.
\<close>

theorem dial_check_eligible_iff:
  "(\<exists>e. dial_check w contact c policy now d = Inr e \<and> el_eligible e) \<longleftrightarrow>
    camp_status c = CAMP_ACTIVE \<and> c_purged_at contact = None \<and>
    c_status contact \<in> {C_PENDING, C_DIALING, C_RETRY_SCHEDULED} \<and>
    \<not> is_suppressed w (c_number contact) d \<and>
    is_dialable_region w (c_number contact) (st_allowed_dial_regions (ev_settings w)) \<and>
    (\<exists>z p. load_timezone (ev_tzdb w) (camp_timezone c) = Inr z \<and>
      p = (case policy of Some p \<Rightarrow> p | None \<Rightarrow> build_default_policy (ev_settings w) (camp_id c)) \<and>
      is_within_calling_window now z (rp_window_start p) (rp_window_end p) = Inr True \<and>
      is_within_calling_window now z (st_hard_start (ev_settings w)) (st_hard_end (ev_settings w)) = Inr True)"
proof -
  let ?p = "case policy of Some p \<Rightarrow> p | None \<Rightarrow> build_default_policy (ev_settings w) (camp_id c)"
  have "window_is_open w c ?p now = Inr True \<longleftrightarrow>
    (\<exists>z. load_timezone (ev_tzdb w) (camp_timezone c) = Inr z \<and>
      is_within_calling_window now z (rp_window_start ?p) (rp_window_end ?p) = Inr True \<and>
      is_within_calling_window now z (st_hard_start (ev_settings w)) (st_hard_end (ev_settings w)) = Inr True)"
    by (auto simp: window_is_open_def rbind_Inr_iff is_dialable_now_iff)
  then show ?thesis
    by (auto simp: dial_check_def Let_def split: window_error.splits sum.splits bool.splits)
qed

text \<open>A hold is only ever the window's doing: every other refusal is permanent for the job.\<close>

lemma dial_check_transient:
  assumes "dial_check w contact c policy now d = Inr e" "transient e"
  shows "camp_status c = CAMP_ACTIVE \<and> c_purged_at contact = None \<and>
    c_status contact \<in> {C_PENDING, C_DIALING, C_RETRY_SCHEDULED} \<and>
    \<not> is_suppressed w (c_number contact) d"
  using assms by (auto simp: dial_check_def Let_def split: if_splits)

end
