(* ===== verification/Outbound_Control.thy ===== *)
theory Outbound_Control imports Eligibility begin

text \<open>
  The outbound gate: \<open>app/services/outbound_control.py\<close> (durable flags), \<open>kill_switch.py\<close>,
  \<open>provider_halt.py\<close> (with its Redis streak detector), \<open>spend_cap.py\<close> (daily budget) and
  \<open>outbound_gate.py\<close>. A database or Redis outage is an argument \<open>up\<close> of the operation; the
  in-process caches are explicit state, with the monotonic clock they are aged by. Log records and
  their throttles are left out.
\<close>

section \<open>Durable controls\<close>

definition KILL_SWITCH :: string where "KILL_SWITCH = ''kill_switch''"
definition PROVIDER_HALT :: string where "PROVIDER_HALT = ''provider_halt''"

type_synonym control_cache = "(int \<times> control list) option"

datatype unavailable = ControlUnavailable

definition get_control :: "string \<Rightarrow> control list \<Rightarrow> control option" where
  "get_control key rows = get_row ctl_key key rows"

definition read_all :: "settings \<Rightarrow> int \<Rightarrow> bool \<Rightarrow> bool \<Rightarrow> control_cache \<Rightarrow> db \<Rightarrow>
    (unavailable + control list) \<times> control_cache" where
  "read_all st tick use_cache up cache d =
    (let ttl = max (st_kill_switch_cache st) 0 in
     case (if use_cache \<and> ttl > 0 then cache else None) of
       Some (t0, rows) \<Rightarrow>
         if 0 \<le> tick - t0 \<and> tick - t0 < ttl then (Inr rows, cache)
         else if up then (Inr (controls d), Some (tick, controls d)) else (Inl ControlUnavailable, cache)
     | None \<Rightarrow>
         if up then (Inr (controls d), Some (tick, controls d)) else (Inl ControlUnavailable, cache))"

definition clip :: "string option \<Rightarrow> nat \<Rightarrow> string option" where
  "clip v limit = (case v of None \<Rightarrow> None | Some s \<Rightarrow> if take limit s = [] then None else Some (take limit s))"

definition engaged_row :: "instant \<Rightarrow> string \<Rightarrow> string \<Rightarrow> string option \<Rightarrow> string option \<Rightarrow> control" where
  "engaged_row now key actor reason category = \<lparr> ctl_key = key, ctl_engaged = True,
    ctl_reason = clip reason 200, ctl_category = clip category 64, ctl_engaged_by = Some actor,
    ctl_engaged_at = Some now, ctl_released_by = None, ctl_released_at = None \<rparr>"

text \<open>\<open>INSERT .. ON CONFLICT DO UPDATE .. WHERE NOT engaged RETURNING key\<close>, and the audit row of
  the same transaction.\<close>

definition engage :: "instant \<Rightarrow> bool \<Rightarrow> string \<Rightarrow> string \<Rightarrow> string option \<Rightarrow> string option \<Rightarrow>
    (string \<times> payload) option \<Rightarrow> control_cache \<times> db \<Rightarrow> (unavailable + bool) \<times> control_cache \<times> db" where
  "engage now up key actor reason category audit s =
    (case s of (cache, d) \<Rightarrow>
      if \<not> up then (Inl ControlUnavailable, cache, d)
      else let row = engaged_row now key actor reason category;
               (changed, d1) = (case get_control key (controls d) of
                   None \<Rightarrow> (True, d\<lparr> controls := controls d @ [row] \<rparr>)
                 | Some old \<Rightarrow> if \<not> ctl_engaged old
                     then (True, d\<lparr> controls := upd_row ctl_key key (\<lambda>_. row) (controls d) \<rparr>)
                     else (False, d));
               d2 = (case audit of
                   Some (action, meta) \<Rightarrow> if changed then record_audit_event actor action ''system'' None meta d1 else d1
                 | None \<Rightarrow> d1)
           in (Inr changed, None, d2))"

definition release :: "instant \<Rightarrow> bool \<Rightarrow> string \<Rightarrow> string \<Rightarrow> control_cache \<times> db \<Rightarrow>
    (unavailable + bool) \<times> control_cache \<times> db" where
  "release now up key actor s =
    (case s of (cache, d) \<Rightarrow>
      if \<not> up then (Inl ControlUnavailable, cache, d)
      else (Inr (list_ex (\<lambda>r. ctl_key r = key \<and> ctl_engaged r) (controls d)), None,
        d\<lparr> controls := update_where (\<lambda>r. ctl_key r = key \<and> ctl_engaged r)
             (\<lambda>r. r\<lparr> ctl_engaged := False, ctl_released_by := Some actor, ctl_released_at := Some now \<rparr>)
             (controls d) \<rparr>))"

section \<open>Kill switch\<close>

definition is_engaged :: "string \<Rightarrow> control list \<Rightarrow> bool" where
  "is_engaged key rows = (case get_control key rows of None \<Rightarrow> False | Some r \<Rightarrow> ctl_engaged r)"

definition kill_switch_block_reason :: "settings \<Rightarrow> int \<Rightarrow> bool \<Rightarrow> control_cache \<times> db \<Rightarrow>
    string option \<times> control_cache" where
  "kill_switch_block_reason st tick up s =
    (case s of (cache, d) \<Rightarrow>
      if st_outbound_kill_switch st then (Some ''kill_switch_enabled'', cache)
      else case read_all st tick True up cache d of
          (Inl _, cache') \<Rightarrow> (Some ''kill_switch_unavailable'', cache')
        | (Inr rows, cache') \<Rightarrow>
            (if is_engaged KILL_SWITCH rows then Some ''kill_switch_enabled'' else None, cache'))"

definition kill_switch_enable :: "instant \<Rightarrow> bool \<Rightarrow> string \<Rightarrow> string option \<Rightarrow> control_cache \<times> db \<Rightarrow>
    (unavailable + bool) \<times> control_cache \<times> db" where
  "kill_switch_enable now up actor reason s = engage now up KILL_SWITCH actor reason None None s"

definition kill_switch_disable :: "instant \<Rightarrow> bool \<Rightarrow> string \<Rightarrow> control_cache \<times> db \<Rightarrow>
    (unavailable + bool) \<times> control_cache \<times> db" where
  "kill_switch_disable now up actor s = release now up KILL_SWITCH actor s"

section \<open>Provider halt\<close>

definition provider_halt_block_reason :: "settings \<Rightarrow> int \<Rightarrow> bool \<Rightarrow> control_cache \<times> db \<Rightarrow>
    string option \<times> control_cache" where
  "provider_halt_block_reason st tick up s =
    (case s of (cache, d) \<Rightarrow>
      case read_all st tick True up cache d of
          (Inl _, cache') \<Rightarrow> (Some ''provider_halt_unavailable'', cache')
        | (Inr rows, cache') \<Rightarrow>
            (if is_engaged PROVIDER_HALT rows then Some ''provider_halt_engaged'' else None, cache'))"

text \<open>The two Redis keys of the streak, each with its expiry.\<close>

record streak =
  sk_category :: "(string \<times> instant) option"
  sk_contacts :: "(string list \<times> instant) option"

definition no_streak :: streak where
  "no_streak = \<lparr> sk_category = None, sk_contacts = None \<rparr>"

definition live :: "instant \<Rightarrow> ('a \<times> instant) option \<Rightarrow> 'a option" where
  "live now entry = (case entry of None \<Rightarrow> None | Some (v, expiry) \<Rightarrow> if now < expiry then Some v else None)"

text \<open>\<open>_STREAK_SCRIPT\<close> and its caller: 0 when Redis is down.\<close>

definition note_permanent_failure ::
    "int \<Rightarrow> instant \<Rightarrow> bool \<Rightarrow> string \<Rightarrow> string \<Rightarrow> streak \<Rightarrow> nat \<times> streak" where
  "note_permanent_failure ttl now up category contact sk =
    (if \<not> up then (0, sk)
     else let same = (live now (sk_category sk) = Some category);
              members = (if same then (case live now (sk_contacts sk) of None \<Rightarrow> [] | Some cs \<Rightarrow> cs) else []);
              members' = List.insert contact members;
              expiry = now + seconds ttl
          in (length members', \<lparr> sk_category = Some (category, expiry), sk_contacts = Some (members', expiry) \<rparr>))"

definition reset_streak :: "bool \<Rightarrow> streak \<Rightarrow> streak" where
  "reset_streak up sk = (if up then no_streak else sk)"

definition provider_halt_engage :: "instant \<Rightarrow> bool \<Rightarrow> bool \<Rightarrow> string \<Rightarrow> string \<Rightarrow> string \<Rightarrow> payload \<Rightarrow>
    control_cache \<times> db \<Rightarrow> streak \<Rightarrow> (unavailable + bool) \<times> (control_cache \<times> db) \<times> streak" where
  "provider_halt_engage now up redis_up actor category reason meta s sk =
    (case engage now up PROVIDER_HALT actor (Some reason) (Some category)
        (Some (''provider_halt.engaged'',
          [(''category'', JStr category), (''reason'', JStr reason)] @ meta)) s of
       (r, s') \<Rightarrow> (r, s', if r = Inr True then reset_streak redis_up sk else sk))"

definition provider_halt_release :: "instant \<Rightarrow> bool \<Rightarrow> bool \<Rightarrow> string \<Rightarrow>
    control_cache \<times> db \<Rightarrow> streak \<Rightarrow> (unavailable + bool) \<times> (control_cache \<times> db) \<times> streak" where
  "provider_halt_release now up redis_up actor s sk =
    (case release now up PROVIDER_HALT actor s of
       (r, s') \<Rightarrow> (r, s', if r = Inr True then reset_streak redis_up sk else sk))"

section \<open>Daily budget\<close>

definition round_half_even :: "rat \<Rightarrow> int" where
  "round_half_even x =
    (let f = \<lfloor>x\<rfloor>; r = x - of_int f in
     if r < 1 / 2 then f else if r > 1 / 2 then f + 1 else if even f then f else f + 1)"

definition py_round :: "rat \<Rightarrow> nat \<Rightarrow> rat" where
  "py_round x n = of_int (round_half_even (x * 10 ^ n)) / 10 ^ n"

record budget_status =
  bs_day :: int
  bs_dials :: int
  bs_dial_cap :: int
  bs_minutes :: rat
  bs_spend :: "rat option"
  bs_spend_cap :: "rat option"

definition DAILY_DIAL_CAP_REACHED :: string where
  "DAILY_DIAL_CAP_REACHED = ''budget_daily_dial_cap_reached''"
definition DAILY_SPEND_CAP_REACHED :: string where
  "DAILY_SPEND_CAP_REACHED = ''budget_daily_spend_cap_reached''"
definition BUDGET_UNAVAILABLE :: string where
  "BUDGET_UNAVAILABLE = ''budget_unavailable''"

definition reached :: "budget_status \<Rightarrow> string option" where
  "reached b =
    (if bs_dials b \<ge> bs_dial_cap b then Some DAILY_DIAL_CAP_REACHED
     else case (bs_spend_cap b, bs_spend b) of
         (Some cap, Some spend) \<Rightarrow> if spend \<ge> cap then Some DAILY_SPEND_CAP_REACHED else None
       | _ \<Rightarrow> None)"

definition budget_window :: "zone \<Rightarrow> instant \<Rightarrow> instant \<times> instant \<times> int" where
  "budget_window z now =
    (let date = local_date z now
     in (to_utc z (wall_reading date 0 0 0 0), to_utc z (wall_reading (date + 1) 0 0 0 0), date))"

definition estimated_seconds :: "settings \<Rightarrow> call_attempt \<Rightarrow> rat" where
  "estimated_seconds st a =
    (case a_duration a of Some s \<Rightarrow> s | None \<Rightarrow> st_minutes_per_unknown st * 60)"

definition compute_status :: "'p env \<Rightarrow> instant \<Rightarrow> db \<Rightarrow> window_error + budget_status" where
  "compute_status w now d =
    rbind (load_timezone (ev_tzdb w) (st_budget_timezone (ev_settings w))) (\<lambda>z.
      let st = ev_settings w;
          (start, stop, day) = budget_window z now;
          todays = filter (\<lambda>a. start \<le> a_started_at a \<and> a_started_at a < stop) (attempts d);
          mins = sum_list (map (estimated_seconds st) todays) / 60
      in Inr \<lparr> bs_day = day, bs_dials = int (length todays), bs_dial_cap = st_daily_dial_cap st,
           bs_minutes = py_round mins 2,
           bs_spend = map_option (\<lambda>cost. py_round (mins * cost) 4) (st_cost_per_minute st),
           bs_spend_cap = st_daily_spend_cap st \<rparr>)"

type_synonym budget_config = "int \<times> rat option \<times> rat option \<times> rat \<times> string"

definition config_key :: "settings \<Rightarrow> budget_config" where
  "config_key st = (st_daily_dial_cap st, st_daily_spend_cap st, st_cost_per_minute st,
    st_minutes_per_unknown st, st_budget_timezone st)"

type_synonym budget_cache = "(int \<times> budget_config \<times> budget_status) option"

datatype budget_error = Budget_db_error | Budget_timezone_error

definition current_status :: "'p env \<Rightarrow> int \<Rightarrow> instant \<Rightarrow> bool \<Rightarrow> budget_cache \<Rightarrow> db \<Rightarrow>
    (budget_error + budget_status) \<times> budget_cache" where
  "current_status w tick now up cache d =
    (let st = ev_settings w in
     case load_timezone (ev_tzdb w) (st_budget_timezone st) of
       Inl _ \<Rightarrow> (Inl Budget_timezone_error, cache)
     | Inr z \<Rightarrow>
        (case (case cache of
            Some (t0, key, status) \<Rightarrow>
              if st_budget_cache_ttl st > 0 \<and> tick - t0 < st_budget_cache_ttl st \<and>
                 key = config_key st \<and> bs_day status = local_date z now
              then Some status else None
          | None \<Rightarrow> None) of
          Some status \<Rightarrow> (Inr status, cache)
        | None \<Rightarrow>
            if \<not> up then (Inl Budget_db_error, cache)
            else (case compute_status w now d of
                    Inl _ \<Rightarrow> (Inl Budget_timezone_error, cache)
                  | Inr status \<Rightarrow> (Inr status, Some (tick, config_key st, status)))))"

text \<open>The audit of a reached cap: once per day and cap, across processes through a Redis mark.\<close>

record budget_marks =
  bm_audited :: "(int \<times> string) list"
  bm_redis :: "((int \<times> string) \<times> instant) list"

definition note_reached :: "instant \<Rightarrow> bool \<Rightarrow> string \<Rightarrow> budget_status \<Rightarrow> budget_marks \<times> db \<Rightarrow>
    budget_marks \<times> db" where
  "note_reached now redis_up reason status s =
    (case s of (m, d) \<Rightarrow>
      let mark = (bs_day status, reason) in
      if mark \<in> set (bm_audited m) then (m, d)
      else if \<not> redis_up then (m, d)
      else let first = (\<not> list_ex (\<lambda>(k, expiry). k = mark \<and> now < expiry) (bm_redis m));
               m1 = (if first then m\<lparr> bm_redis := (mark, now + seconds (2 * 86400)) # bm_redis m \<rparr> else m);
               d1 = (if first then record_audit_event ''dialer-worker'' ''spend_cap.reached'' ''system'' None
                   [(''cap'', JStr reason), (''budget_day'', JInt (bs_day status)),
                    (''dials'', JInt (bs_dials status)), (''dial_cap'', JInt (bs_dial_cap status)),
                    (''estimated_spend'', j_opt_rat (bs_spend status)),
                    (''spend_cap'', j_opt_rat (bs_spend_cap status))] d else d)
           in (m1\<lparr> bm_audited := mark # bm_audited m1 \<rparr>, d1))"

definition spend_cap_block_reason :: "'p env \<Rightarrow> int \<Rightarrow> instant \<Rightarrow> bool \<Rightarrow> bool \<Rightarrow>
    budget_cache \<times> budget_marks \<times> db \<Rightarrow> (budget_error + string option) \<times> budget_cache \<times> budget_marks \<times> db" where
  "spend_cap_block_reason w tick now up redis_up s =
    (case s of (cache, m, d) \<Rightarrow>
      case current_status w tick now up cache d of
        (Inl Budget_db_error, cache') \<Rightarrow> (Inr (Some BUDGET_UNAVAILABLE), cache', m, d)
      | (Inl Budget_timezone_error, cache') \<Rightarrow> (Inl Budget_timezone_error, cache', m, d)
      | (Inr status, cache') \<Rightarrow>
          (case reached status of
             None \<Rightarrow> (Inr None, cache', m, d)
           | Some reason \<Rightarrow>
               (case note_reached now redis_up reason status (m, d) of
                  (m', d') \<Rightarrow> (Inr (Some reason), cache', m', d'))))"

section \<open>The gate\<close>

record gate =
  g_controls :: control_cache
  g_budget :: budget_cache
  g_marks :: budget_marks

definition gate_block_reason :: "'p env \<Rightarrow> int \<Rightarrow> instant \<Rightarrow> bool \<Rightarrow> bool \<Rightarrow> gate \<times> db \<Rightarrow>
    (budget_error + string option) \<times> gate \<times> db" where
  "gate_block_reason w tick now up redis_up s =
    (case s of (g, d) \<Rightarrow>
      case kill_switch_block_reason (ev_settings w) tick up (g_controls g, d) of
        (Some r, c1) \<Rightarrow> (Inr (Some r), g\<lparr> g_controls := c1 \<rparr>, d)
      | (None, c1) \<Rightarrow>
          (case provider_halt_block_reason (ev_settings w) tick up (c1, d) of
             (Some r, c2) \<Rightarrow> (Inr (Some r), g\<lparr> g_controls := c2 \<rparr>, d)
           | (None, c2) \<Rightarrow>
               (case spend_cap_block_reason w tick now up redis_up (g_budget g, g_marks g, d) of
                  (r, b, m, d') \<Rightarrow> (r, g\<lparr> g_controls := c2, g_budget := b, g_marks := m \<rparr>, d'))))"

definition is_budget_reason :: "string \<Rightarrow> bool" where
  "is_budget_reason r = (take 7 r = ''budget_'')"

section \<open>Fail closed\<close>

lemma read_all_InrD:
  assumes "read_all st tick True up cache d = (Inr rows, cache')"
  shows "(up \<and> rows = controls d) \<or>
    (\<exists>t0. cache = Some (t0, rows) \<and> 0 \<le> tick - t0 \<and> tick - t0 < max (st_kill_switch_cache st) 0)"
  using assms by (auto simp: read_all_def Let_def split: option.splits if_splits)

lemma read_all_again:
  assumes "read_all st tick True up cache d = (Inr rows, cache')"
    and "read_all st tick True up cache' d = (Inr rows2, cache2)"
  shows "rows2 = rows"
  using assms by (auto simp: read_all_def Let_def split: option.splits if_splits)

lemma read_all_down:
  "read_all st tick True False None d = (Inl ControlUnavailable, None)"
  by (simp add: read_all_def Let_def)

lemma reached_None_iff: "reached b = None \<longleftrightarrow> bs_dials b < bs_dial_cap b \<and>
    (\<forall>cap spend. bs_spend_cap b = Some cap \<and> bs_spend b = Some spend \<longrightarrow> spend < cap)"
  by (auto simp: reached_def split: option.splits)

lemma spend_cap_open:
  assumes "spend_cap_block_reason w tick now up rup (cache, m, d) = (Inr None, s')"
  shows "\<exists>status. reached status = None \<and> ((up \<and> compute_status w now d = Inr status) \<or>
    (\<exists>t0. cache = Some (t0, config_key (ev_settings w), status) \<and>
      tick - t0 < st_budget_cache_ttl (ev_settings w)))"
proof -
  obtain status cache' where "current_status w tick now up cache d = (Inr status, cache')" "reached status = None"
    using assms by (auto simp: spend_cap_block_reason_def split: prod.splits sum.splits option.splits budget_error.splits)
  then show ?thesis
    by (auto simp: current_status_def Let_def split: sum.splits option.splits if_splits)
qed

text \<open>
  The gate lets a call through only when the static switch is off, the control rows could be
  read (now, or less than one cache lifetime ago) and show neither the kill switch nor the
  provider halt, and the budget could be computed and is not spent. Nothing unreadable opens it.
\<close>

theorem gate_open_requires:
  assumes "gate_block_reason w tick now up rup (g, d) = (Inr None, g', d')"
  shows "\<not> st_outbound_kill_switch (ev_settings w) \<and>
    (\<exists>rows. ((up \<and> rows = controls d) \<or>
        (\<exists>t0. g_controls g = Some (t0, rows) \<and> 0 \<le> tick - t0 \<and>
          tick - t0 < max (st_kill_switch_cache (ev_settings w)) 0)) \<and>
      \<not> is_engaged KILL_SWITCH rows \<and> \<not> is_engaged PROVIDER_HALT rows) \<and>
    (\<exists>status. ((up \<and> compute_status w now d = Inr status) \<or>
        (\<exists>t0. g_budget g = Some (t0, config_key (ev_settings w), status) \<and>
          tick - t0 < st_budget_cache_ttl (ev_settings w))) \<and>
      bs_dials status < bs_dial_cap status \<and>
      (\<forall>cap spend. bs_spend_cap status = Some cap \<and> bs_spend status = Some spend \<longrightarrow> spend < cap))"
proof -
  obtain c1 where k: "kill_switch_block_reason (ev_settings w) tick up (g_controls g, d) = (None, c1)"
    using assms by (auto simp: gate_block_reason_def split: prod.splits option.splits)
  obtain c2 where h: "provider_halt_block_reason (ev_settings w) tick up (c1, d) = (None, c2)"
    using assms k by (auto simp: gate_block_reason_def split: prod.splits option.splits)
  obtain s' where b: "spend_cap_block_reason w tick now up rup (g_budget g, g_marks g, d) = (Inr None, s')"
    using assms k h by (auto simp: gate_block_reason_def split: prod.splits)
  obtain rows where r: "read_all (ev_settings w) tick True up (g_controls g) d = (Inr rows, c1)"
      "\<not> is_engaged KILL_SWITCH rows" "\<not> st_outbound_kill_switch (ev_settings w)"
    using k by (auto simp: kill_switch_block_reason_def split: prod.splits sum.splits if_splits)
  obtain rows2 where r2: "read_all (ev_settings w) tick True up c1 d = (Inr rows2, c2)"
      "\<not> is_engaged PROVIDER_HALT rows2"
    using h by (auto simp: provider_halt_block_reason_def split: prod.splits sum.splits if_splits)
  have "rows2 = rows" by (rule read_all_again [OF r(1) r2(1)])
  with r r2 read_all_InrD [OF r(1)] spend_cap_open [OF b] show ?thesis
    unfolding reached_None_iff by blast
qed

text \<open>An outage with nothing cached blocks.\<close>

lemma gate_down_blocks:
  "g_controls g = None \<Longrightarrow> fst (gate_block_reason w tick now False rup (g, d)) \<noteq> Inr None"
  by (simp add: gate_block_reason_def kill_switch_block_reason_def read_all_down)

definition fresh_gate :: gate where
  "fresh_gate = \<lparr> g_controls = None, g_budget = None, g_marks = \<lparr> bm_audited = [], bm_redis = [] \<rparr> \<rparr>"

lemma plain_settings [simp]: "ev_settings plain_env = default_settings"
  by (simp add: plain_env_def)

theorem gate_open_requires_witness:
  "fst (gate_block_reason plain_env 0 1000 True True (fresh_gate, empty_db)) = Inr None \<and>
    \<not> is_engaged KILL_SWITCH (controls empty_db)"
proof -
  have g: "fst (gate_block_reason plain_env 0 1000 True True (fresh_gate, empty_db)) = Inr None"
    by code_simp
  obtain g' d' where "gate_block_reason plain_env 0 1000 True True (fresh_gate, empty_db) = (Inr None, g', d')"
    using g by (metis fst_conv prod.exhaust)
  from gate_open_requires [OF this] have "\<not> is_engaged KILL_SWITCH (controls empty_db)"
    by (auto simp: fresh_gate_def)
  with g show ?thesis by simp
qed

section \<open>One transition, one audit row\<close>

datatype control_cmd =
    Engage instant string "string option" "string option" "(string \<times> payload) option"
  | Release instant string

fun control_call :: "string \<Rightarrow> control_cmd \<Rightarrow> control_cache \<times> db \<Rightarrow> (unavailable + bool) \<times> control_cache \<times> db" where
  "control_call key (Engage now actor reason category audit) s = engage now True key actor reason category audit s"
| "control_call key (Release now actor) s = release now True key actor s"

fun is_engage :: "control_cmd \<Rightarrow> bool" where
  "is_engage (Engage _ _ _ _ _) = True" | "is_engage (Release _ _) = False"

fun engage_audited :: "control_cmd \<Rightarrow> bool" where
  "engage_audited (Engage _ _ _ _ audit) = (audit \<noteq> None)" | "engage_audited (Release _ _) = False"

fun run_control_calls :: "string \<Rightarrow> control_cmd list \<Rightarrow> control_cache \<times> db \<Rightarrow>
    (control_cmd \<times> bool) list \<times> db" where
  "run_control_calls key [] s = ([], snd s)"
| "run_control_calls key (c # cs) s =
    (let (r, s1) = control_call key c s; (rs, d) = run_control_calls key cs s1
     in ((c, r = Inr True) # rs, d))"

lemma engage_True_iff:
  assumes "engage now True key actor reason category audit (cache, d) = (r, cache', d')"
  shows "(r = Inr True \<longleftrightarrow> \<not> is_engaged key (controls d)) \<and> is_engaged key (controls d') \<and>
    length (audits d') = length (audits d) + (if r = Inr True \<and> audit \<noteq> None then 1 else 0) \<and>
    (keys_distinct ctl_key (controls d) \<longrightarrow> keys_distinct ctl_key (controls d'))"
proof -
  let ?row = "engaged_row now key actor reason category"
  have k: "ctl_key ?row = key" "ctl_engaged ?row" by (simp_all add: engaged_row_def)
  show ?thesis
  proof (cases "get_row ctl_key key (controls d)")
    case None
    with assms k show ?thesis
      by (auto simp: engage_def Let_def get_control_def is_engaged_def get_row_snoc keys_distinct_snoc split: option.splits)
  next
    case (Some old)
    have u: "upd_row ctl_key key (\<lambda>_. ?row) rows = upd_row ctl_key key (\<lambda>r. if ctl_key r = key then ?row else r) rows" for rows
      by (auto simp: upd_row_def)
    have "get_row ctl_key key (upd_row ctl_key key (\<lambda>_. ?row) (controls d)) = Some ?row"
      unfolding u using Some k by (subst get_upd_row_same) (auto dest: get_row_key)
    moreover have "keys_distinct ctl_key (controls d) \<longrightarrow>
        keys_distinct ctl_key (upd_row ctl_key key (\<lambda>_. ?row) (controls d))"
      unfolding u using k by simp
    ultimately show ?thesis using assms Some k
      by (auto simp: engage_def Let_def get_control_def is_engaged_def split: option.splits if_splits)
  qed
qed

lemma is_engaged_ex:
  assumes "keys_distinct ctl_key rows"
  shows "is_engaged key rows \<longleftrightarrow> (\<exists>r \<in> set rows. ctl_key r = key \<and> ctl_engaged r)"
proof
  assume "\<exists>r \<in> set rows. ctl_key r = key \<and> ctl_engaged r"
  then obtain r where "r \<in> set rows" "ctl_key r = key" "ctl_engaged r" by blast
  then show "is_engaged key rows"
    using get_row_Some_iff [OF assms, of key r] by (simp add: is_engaged_def get_control_def)
qed (auto simp: is_engaged_def get_control_def dest: get_row_SomeD split: option.splits)

lemma release_True_iff:
  assumes "release now True key actor (cache, d) = (r, cache', d')" "keys_distinct ctl_key (controls d)"
  shows "(r = Inr True \<longleftrightarrow> is_engaged key (controls d)) \<and> \<not> is_engaged key (controls d') \<and>
    audits d' = audits d \<and> keys_distinct ctl_key (controls d')"
proof -
  have "list_ex (\<lambda>r. ctl_key r = key \<and> ctl_engaged r) (controls d) = is_engaged key (controls d)"
    by (simp add: is_engaged_ex [OF assms(2)] list_ex_iff)
  moreover have "\<not> is_engaged key (update_where (\<lambda>r. ctl_key r = key \<and> ctl_engaged r)
      (\<lambda>r. r\<lparr> ctl_engaged := False, ctl_released_by := Some actor, ctl_released_at := Some now \<rparr>) (controls d))"
    by (auto simp: is_engaged_def get_control_def get_update_where dest: get_row_key split: option.splits)
  ultimately show ?thesis using assms by (auto simp: release_def keys_distinct_def)
qed

text \<open>
  In any sequence of engage and release calls on one control, by any callers, the calls that
  report a transition balance: reported engagements minus reported releases is the change of the
  flag, so two callers are never both told they engaged it; and the audited engagements that
  report a transition are exactly the audit rows written.
\<close>

theorem control_transitions_balance:
  assumes "run_control_calls key cs (cache, d) = (rs, d')" and "keys_distinct ctl_key (controls d)"
  shows "length (filter (\<lambda>(c, ok). ok \<and> is_engage c) rs) + (if is_engaged key (controls d) then 1 else 0) =
      length (filter (\<lambda>(c, ok). ok \<and> \<not> is_engage c) rs) + (if is_engaged key (controls d') then 1 else 0) \<and>
    length (audits d') = length (audits d) + length (filter (\<lambda>(c, ok). ok \<and> engage_audited c) rs)"
  using assms
proof (induction cs arbitrary: cache d rs)
  case (Cons c cs)
  obtain r cache1 d1 where c: "control_call key c (cache, d) = (r, cache1, d1)" by (metis surj_pair)
  obtain rs1 where r: "run_control_calls key cs (cache1, d1) = (rs1, d')" "rs = (c, r = Inr True) # rs1"
    using Cons.prems(1) c by (auto split: prod.splits)
  show ?case
  proof (cases c)
    case (Engage now actor reason category audit)
    from engage_True_iff [OF c [unfolded Engage control_call.simps]] Cons.prems(2)
    have e: "(r = Inr True \<longleftrightarrow> \<not> is_engaged key (controls d)) \<and> is_engaged key (controls d1) \<and>
      length (audits d1) = length (audits d) + (if r = Inr True \<and> audit \<noteq> None then 1 else 0) \<and>
      keys_distinct ctl_key (controls d1)" by blast
    with Cons.IH [OF r(1)] show ?thesis by (auto simp: r(2) Engage split: if_splits)
  next
    case (Release now actor)
    from release_True_iff [OF c [unfolded Release control_call.simps] Cons.prems(2)]
    have e: "(r = Inr True \<longleftrightarrow> is_engaged key (controls d)) \<and> \<not> is_engaged key (controls d1) \<and>
      audits d1 = audits d \<and> keys_distinct ctl_key (controls d1)" .
    with Cons.IH [OF r(1)] show ?thesis by (auto simp: r(2) Release split: if_splits)
  qed
qed simp

theorem control_transitions_balance_witness:
  "case run_control_calls KILL_SWITCH [Engage 1 ''a'' None None (Some (''x'', [])),
      Engage 2 ''b'' None None (Some (''x'', [])), Release 3 ''a''] (None, empty_db) of
    (rs, d') \<Rightarrow> length (audits d') = length (filter (\<lambda>(c, ok). ok \<and> engage_audited c) rs)"
proof -
  obtain rs d' where r: "run_control_calls KILL_SWITCH [Engage 1 ''a'' None None (Some (''x'', [])),
      Engage 2 ''b'' None None (Some (''x'', [])), Release 3 ''a''] (None, empty_db) = (rs, d')"
    by (metis surj_pair)
  have "keys_distinct ctl_key (controls empty_db)" by (simp add: keys_distinct_def empty_db_def)
  from control_transitions_balance [OF r this] r show ?thesis by (simp add: empty_db_def)
qed

section \<open>The streak detector\<close>

type_synonym failure = "instant \<times> string \<times> string"

fun run_streak :: "int \<Rightarrow> failure list \<Rightarrow> nat \<times> streak \<Rightarrow> nat \<times> streak" where
  "run_streak ttl [] s = s"
| "run_streak ttl ((t, cat, contact) # fs) (n, sk) =
    run_streak ttl fs (note_permanent_failure ttl t True cat contact sk)"

text \<open>What the operator wants counted: the different contacts of the last run of one category.\<close>

definition last_run :: "failure list \<Rightarrow> string set" where
  "last_run fs = (case rev fs of [] \<Rightarrow> {} | (t, cat, k) # _ \<Rightarrow>
    set (map (\<lambda>f. snd (snd f)) (takeWhile (\<lambda>f. fst (snd f) = cat) (rev fs))))"

definition close_in_time :: "int \<Rightarrow> failure list \<Rightarrow> bool" where
  "close_in_time ttl fs = successively (\<lambda>f g. fst f \<le> fst g \<and> fst g < fst f + seconds ttl) fs"

lemma run_streak_snoc:
  "run_streak ttl (fs @ [(t, cat, k)]) s = note_permanent_failure ttl t True cat k (snd (run_streak ttl fs s))"
proof (induction ttl fs s rule: run_streak.induct)
  case (1 ttl s)
  show ?case by (cases s) simp
qed simp

lemma first_failure: "note_permanent_failure ttl t True cat k no_streak =
    (1, \<lparr> sk_category = Some (cat, t + seconds ttl), sk_contacts = Some ([k], t + seconds ttl) \<rparr>)"
  unfolding note_permanent_failure_def no_streak_def live_def Let_def by simp

lemma live_Some: "now < e \<Longrightarrow> live now (Some (v, e)) = Some v"
  by (simp add: live_def)

lemma next_failure: "t < t0 + seconds ttl \<Longrightarrow>
    note_permanent_failure ttl t True cat k \<lparr> sk_category = Some (c0, t0 + seconds ttl),
      sk_contacts = Some (ms, t0 + seconds ttl) \<rparr> =
    (let ms' = List.insert k (if c0 = cat then ms else []) in (length ms',
      \<lparr> sk_category = Some (cat, t + seconds ttl), sk_contacts = Some (ms', t + seconds ttl) \<rparr>))"
  unfolding note_permanent_failure_def Let_def by (cases "c0 = cat") (simp_all add: live_Some)

lemma run_streak_state:
  assumes "close_in_time ttl fs" "0 < ttl" "fs \<noteq> []"
  shows "\<exists>members. snd (run_streak ttl fs (0, no_streak)) =
      \<lparr> sk_category = Some (fst (snd (last fs)), fst (last fs) + seconds ttl),
        sk_contacts = Some (members, fst (last fs) + seconds ttl) \<rparr> \<and>
    distinct members \<and> set members = last_run fs \<and> fst (run_streak ttl fs (0, no_streak)) = length members"
  using assms
proof (induction fs rule: rev_induct)
  case (snoc f fs)
  obtain t cat k where f: "f = (t, cat, k)" by (cases f)
  show ?case
  proof (cases "fs = []")
    case True
    have r: "run_streak ttl (fs @ [f]) (0, no_streak) = (1, \<lparr> sk_category = Some (cat, t + seconds ttl),
        sk_contacts = Some ([k], t + seconds ttl) \<rparr>)"
      unfolding f True by (simp add: first_failure)
    have "last_run (fs @ [f]) = {k}" unfolding f True by (simp add: last_run_def)
    then show ?thesis unfolding r using f by simp
  next
    case False
    have close: "close_in_time ttl fs" and gap: "t < fst (last fs) + seconds ttl"
      using snoc.prems(1) False by (auto simp: close_in_time_def successively_append_iff f)
    obtain t0 c0 k0 where l: "last fs = (t0, c0, k0)" by (cases "last fs")
    from snoc.IH [OF close snoc.prems(2) False] obtain ms where ms:
      "snd (run_streak ttl fs (0, no_streak)) = \<lparr> sk_category = Some (c0, t0 + seconds ttl),
        sk_contacts = Some (ms, t0 + seconds ttl) \<rparr>" "distinct ms" "set ms = last_run fs" using l by auto
    obtain rest where rv: "rev fs = (t0, c0, k0) # rest"
      using False l by (metis append_butlast_last_id rev_eq_Cons_iff rev_rev_ident)
    have "t < t0 + seconds ttl" using gap l by simp
    then have n: "note_permanent_failure ttl t True cat k (snd (run_streak ttl fs (0, no_streak))) =
      (let ms' = List.insert k (if c0 = cat then ms else []) in (length ms',
        \<lparr> sk_category = Some (cat, t + seconds ttl), sk_contacts = Some (ms', t + seconds ttl) \<rparr>))"
      unfolding ms(1) by (rule next_failure)
    have "last_run (fs @ [f]) = insert k (if c0 = cat then last_run fs else {})"
      by (cases "c0 = cat") (force simp: last_run_def rv f)+
    then show ?thesis unfolding f run_streak_snoc n using ms by (auto simp: Let_def)
  qed
qed simp

text \<open>
  After any run of failures that follow each other within the streak's lifetime, the count
  reported is the number of different contacts in the last unbroken run of the same category: one
  contact failing again is still one, and another category starts over.
\<close>

theorem streak_counts_contacts:
  assumes "close_in_time ttl fs" "0 < ttl" "fs \<noteq> []"
  shows "fst (run_streak ttl fs (0, no_streak)) = card (last_run fs)"
  using run_streak_state [OF assms] by (metis distinct_card)

theorem streak_counts_contacts_witness:
  "fst (run_streak 3600 [(0, ''quota'', ''k1''), (5, ''quota'', ''k2''), (6, ''quota'', ''k1'')] (0, no_streak)) =
    card (last_run [(0, ''quota'', ''k1''), (5, ''quota'', ''k2''), (6, ''quota'', ''k1'')])"
  by (rule streak_counts_contacts) (simp_all add: close_in_time_def seconds_def)

section \<open>The budget day\<close>

text \<open>
  In a zone with a fixed offset, the dials the budget counts are exactly the attempts started
  on today's calendar day of the budget zone, and the budget is open only while they are below the cap.
\<close>

theorem budget_counts_today:
  assumes "load_timezone (ev_tzdb w) (st_budget_timezone (ev_settings w)) = Inr (fixed_zone off)"
  shows "\<exists>status. compute_status w now d = Inr status \<and>
    bs_dials status = int (count_where (\<lambda>a. local_date (fixed_zone off) (a_started_at a) =
      local_date (fixed_zone off) now) (attempts d)) \<and>
    (reached status = None \<longrightarrow> bs_dials status < st_daily_dial_cap (ev_settings w))"
proof -
  let ?z = "fixed_zone off"
  have w: "(to_utc ?z (wall_reading (local_date ?z now) 0 0 0 0) \<le> t \<and>
      t < to_utc ?z (wall_reading (local_date ?z now + 1) 0 0 0 0)) \<longleftrightarrow> local_date ?z t = local_date ?z now" for t
  proof -
    have "to_utc ?z (wall_reading D 0 0 0 0) = D * day_us - off" for D
      by (simp add: to_utc_def wall_reading_def seconds_def)
    then show ?thesis
      using wall_split [of t off] local_time_valid [of ?z t]
        mult_le_cancel_right_pos [of day_us "local_date ?z now" "local_date ?z t"]
      by (auto simp: valid_time_def day_us_def)
  qed
  show ?thesis using assms
    by (auto simp: compute_status_def budget_window_def Let_def count_where_def w reached_None_iff)
qed

theorem budget_counts_today_witness:
  "\<exists>status. compute_status plain_env 1000 empty_db = Inr status \<and> bs_dials status = 0"
proof -
  have "load_timezone (ev_tzdb plain_env) (st_budget_timezone (ev_settings plain_env)) = Inr (fixed_zone (minutes 330))"
    by (simp add: load_timezone_def plain_env_def default_settings_def py_strip_def py_space_def)
  from budget_counts_today [OF this, of 1000 empty_db] show ?thesis
    by (auto simp: empty_db_def count_where_def)
qed

end
