(* ===== verification/Stream_Queue.thy ===== *)
theory Stream_Queue imports Outbound_Control begin

text \<open>
  \<open>app/services/queue/redis_queue.py\<close> and \<open>job.py\<close>: the durable dial queue on a Redis stream with
  one consumer group. The model keeps what the code uses of Redis: the entries in id order, the
  id delivered last, the pending list (id, delivery count, time of the last delivery), the
  dead-letter stream and the enqueue guards with their expiry. An entry holds a job or an unreadable text: the JSON
  codec of a job is the identity. Ids are the numbers of the XADDs. \<open>locale once_guard\<close> is what the
  enqueue services rely on.
\<close>

section \<open>Jobs\<close>

text \<open>\<open>dj_id\<close> stands for the three values that are fresh for each job (job id, trace id, time of
  the enqueue).\<close>

record dial_job =
  dj_id :: uuid
  dj_campaign :: uuid
  dj_contact :: uuid
  dj_attempt :: int
  dj_recovery_type :: "string option"
  dj_previous :: "uuid option"

type_synonym idem_key = "uuid \<times> uuid \<times> int"

definition idempotency_key :: "dial_job \<Rightarrow> idem_key" where
  "idempotency_key j = (dj_campaign j, dj_contact j, dj_attempt j)"

definition new_dial_job :: "uuid \<Rightarrow> uuid \<Rightarrow> uuid \<Rightarrow> int \<Rightarrow> string option \<Rightarrow> uuid option \<Rightarrow> dial_job" where
  "new_dial_job i camp contact n rtype prev = \<lparr> dj_id = i, dj_campaign = camp, dj_contact = contact,
    dj_attempt = n, dj_recovery_type = rtype, dj_previous = prev \<rparr>"

datatype raw_entry = Readable dial_job | Unreadable string

fun parse_entry :: "raw_entry \<Rightarrow> dial_job option" where
  "parse_entry (Readable j) = Some j"
| "parse_entry (Unreadable _) = None"

section \<open>The queue\<close>

datatype dead_reason = REASON_MALFORMED | REASON_MAX_DELIVERIES

record pending =
  pd_id :: nat
  pd_deliveries :: int
  pd_since :: instant

record dead_letter =
  dl_id :: nat
  dl_reason :: dead_reason
  dl_raw :: raw_entry
  dl_deliveries :: int

record stream_queue =
  sq_entries :: "(nat \<times> raw_entry) list"
  sq_next :: nat
  sq_delivered :: nat
  sq_pending :: "pending list"
  sq_dlq :: "dead_letter list"
  sq_guards :: "(idem_key \<times> instant) list"
  sq_letters :: "dead_letter list"

definition empty_queue :: stream_queue where
  "empty_queue = \<lparr> sq_entries = [], sq_next = 0, sq_delivered = 0, sq_pending = [], sq_dlq = [],
    sq_guards = [], sq_letters = [] \<rparr>"

definition xadd :: "raw_entry \<Rightarrow> stream_queue \<Rightarrow> stream_queue" where
  "xadd r q = q\<lparr> sq_entries := sq_entries q @ [(sq_next q, r)], sq_next := Suc (sq_next q) \<rparr>"

definition enqueue :: "dial_job \<Rightarrow> stream_queue \<Rightarrow> stream_queue" where
  "enqueue j q = xadd (Readable j) q"

definition guard_live :: "instant \<Rightarrow> idem_key \<Rightarrow> stream_queue \<Rightarrow> bool" where
  "guard_live now k q = list_ex (\<lambda>(k', expiry). k' = k \<and> now < expiry) (sq_guards q)"

definition clear_guard :: "idem_key \<Rightarrow> stream_queue \<Rightarrow> stream_queue" where
  "clear_guard k q = q\<lparr> sq_guards := filter (\<lambda>(k', _). k' \<noteq> k) (sq_guards q) \<rparr>"

datatype enqueue_outcome = Queued | Guarded | BacklogFull

text \<open>\<open>_ENQUEUE_ONCE_LUA\<close>: one atomic script.\<close>

definition enqueue_once :: "settings \<Rightarrow> instant \<Rightarrow> dial_job \<Rightarrow> idem_key \<Rightarrow> int \<Rightarrow> stream_queue \<Rightarrow>
    enqueue_outcome \<times> stream_queue" where
  "enqueue_once st now j k ttl q =
    (if guard_live now k q then (Guarded, q)
     else if int (length (sq_entries q)) \<ge> st_queue_max_backlog st then (BacklogFull, q)
     else let q1 = xadd (Readable j) q
          in (Queued, q1\<lparr> sq_guards := (k, now + seconds ttl) # sq_guards q1 \<rparr>))"

definition ack :: "nat \<Rightarrow> stream_queue \<Rightarrow> stream_queue" where
  "ack i q = q\<lparr> sq_pending := filter (\<lambda>p. pd_id p \<noteq> i) (sq_pending q),
    sq_entries := filter (\<lambda>(j, _). j \<noteq> i) (sq_entries q) \<rparr>"

definition dead_letter_entry :: "nat \<Rightarrow> raw_entry \<Rightarrow> dead_reason \<Rightarrow> int \<Rightarrow> stream_queue \<Rightarrow> stream_queue" where
  "dead_letter_entry i raw reason n q =
    (let dl = \<lparr> dl_id = i, dl_reason = reason, dl_raw = raw, dl_deliveries = n \<rparr>;
         q1 = ack i (q\<lparr> sq_dlq := sq_dlq q @ [dl] \<rparr>)
     in q1\<lparr> sq_letters := sq_letters q1 @ [dl] \<rparr>)"

definition drain_dead_letters :: "stream_queue \<Rightarrow> dead_letter list \<times> stream_queue" where
  "drain_dead_letters q = (sq_letters q, q\<lparr> sq_letters := [] \<rparr>)"

text \<open>XREADGROUP of one new entry: the first one past the last delivered id becomes pending.\<close>

definition xread_new :: "instant \<Rightarrow> stream_queue \<Rightarrow> ((nat \<times> raw_entry) \<times> stream_queue) option" where
  "xread_new now q =
    (case find (\<lambda>(i, _). sq_delivered q \<le> i) (sq_entries q) of
       None \<Rightarrow> None
     | Some (i, r) \<Rightarrow> Some ((i, r), q\<lparr> sq_delivered := Suc i,
         sq_pending := sq_pending q @ [\<lparr> pd_id = i, pd_deliveries = 1, pd_since = now \<rparr>] \<rparr>))"

lemma found: "find P xs = Some x \<Longrightarrow> x \<in> set xs \<and> P x"
  by (induction xs) (auto split: if_splits)

lemma xread_new_progress:
  "xread_new now q = Some ((i, r), q') \<Longrightarrow>
    (i, r) \<in> set (sq_entries q) \<and> sq_delivered q \<le> i \<and> sq_delivered q' = Suc i \<and> sq_entries q' = sq_entries q"
  unfolding xread_new_def by (auto dest!: found split: option.splits prod.splits)

text \<open>\<open>read_one\<close>: unreadable entries go to the dead-letter stream and the read carries on; None is
  the read that found nothing within the block time.\<close>

definition undelivered :: "stream_queue \<Rightarrow> (nat \<times> raw_entry) list" where
  "undelivered q = filter (\<lambda>(i, _). sq_delivered q \<le> i) (sq_entries q)"

lemma undelivered_shrinks:
  assumes "xread_new now q = Some ((i, r), q1)"
  shows "length (undelivered (dead_letter_entry i r REASON_MALFORMED 1 q1)) < length (undelivered q)"
proof -
  note p = xread_new_progress [OF assms]
  have "undelivered (dead_letter_entry i r REASON_MALFORMED 1 q1) = filter (\<lambda>e. Suc i \<le> fst e) (undelivered q)"
    using p by (auto simp: undelivered_def dead_letter_entry_def ack_def Let_def case_prod_unfold intro!: filter_cong)
  moreover have "(i, r) \<in> set (undelivered q)" using p by (simp add: undelivered_def)
  ultimately show ?thesis
    using length_filter_less [of "(i, r)" "undelivered q" "\<lambda>e. Suc i \<le> fst e"] by simp
qed

function read_one :: "instant \<Rightarrow> stream_queue \<Rightarrow> (nat \<times> dial_job) option \<times> stream_queue" where
  "read_one now q =
    (case xread_new now q of
       None \<Rightarrow> (None, q)
     | Some ((i, r), q1) \<Rightarrow>
         (case parse_entry r of
            Some j \<Rightarrow> (Some (i, j), q1)
          | None \<Rightarrow> read_one now (dead_letter_entry i r REASON_MALFORMED 1 q1)))"
  by pat_completeness auto
termination
  by (relation "measure (\<lambda>(_, q). length (undelivered q))") (auto intro: undelivered_shrinks)

declare read_one.simps [simp del]

text \<open>XAUTOCLAIM from id 0: the first \<open>count\<close> pending entries idle for long enough, each with its
  delivery counted; pending ids whose entry is gone are dropped.\<close>

definition idle_pending :: "instant \<Rightarrow> int \<Rightarrow> nat \<Rightarrow> stream_queue \<Rightarrow> nat list" where
  "idle_pending now idle_us count q =
    take count (map pd_id (filter (\<lambda>p. idle_us \<le> now - pd_since p) (sq_pending q)))"

definition times_delivered :: "nat \<Rightarrow> stream_queue \<Rightarrow> int" where
  "times_delivered i q = (case get_row pd_id i (sq_pending q) of Some p \<Rightarrow> pd_deliveries p | None \<Rightarrow> 1)"

fun reclaim_entries :: "settings \<Rightarrow> (nat \<times> raw_entry) list \<Rightarrow> stream_queue \<Rightarrow>
    (nat \<times> dial_job) list \<times> stream_queue" where
  "reclaim_entries st [] q = ([], q)"
| "reclaim_entries st ((i, r) # rest) q =
    (let n = times_delivered i q in
     case parse_entry r of
       None \<Rightarrow> reclaim_entries st rest (dead_letter_entry i r REASON_MALFORMED n q)
     | Some j \<Rightarrow>
         if n > st_queue_max_deliveries st
         then reclaim_entries st rest (dead_letter_entry i r REASON_MAX_DELIVERIES n q)
         else (let (ready, q') = reclaim_entries st rest q in ((i, j) # ready, q')))"

definition xautoclaim :: "instant \<Rightarrow> int \<Rightarrow> nat \<Rightarrow> stream_queue \<Rightarrow> (nat \<times> raw_entry) list \<times> stream_queue" where
  "xautoclaim now idle_us count q =
    (let ids = idle_pending now idle_us count q;
         claimed = filter (\<lambda>(i, _). i \<in> set ids) (sq_entries q);
         kept = filter (\<lambda>p. pd_id p \<notin> set ids \<or> pd_id p \<in> fst ` set (sq_entries q)) (sq_pending q)
     in (claimed, q\<lparr> sq_pending := update_where (\<lambda>p. pd_id p \<in> set ids)
           (\<lambda>p. p\<lparr> pd_deliveries := pd_deliveries p + 1, pd_since := now \<rparr>) kept \<rparr>))"

definition reclaim_stale :: "settings \<Rightarrow> instant \<Rightarrow> int \<Rightarrow> nat \<Rightarrow> stream_queue \<Rightarrow>
    (nat \<times> dial_job) list \<times> stream_queue" where
  "reclaim_stale st now idle_us count q =
    (case xautoclaim now idle_us count q of (claimed, q1) \<Rightarrow> reclaim_entries st claimed q1)"

text \<open>XCLAIM with RETRYCOUNT 0; a Redis error is swallowed.\<close>

definition reset_deliveries :: "instant \<Rightarrow> bool \<Rightarrow> nat \<Rightarrow> stream_queue \<Rightarrow> stream_queue" where
  "reset_deliveries now redis_up i q =
    (if redis_up \<and> i \<in> fst ` set (sq_entries q)
     then q\<lparr> sq_pending := update_where (\<lambda>p. pd_id p = i) (\<lambda>p. p\<lparr> pd_deliveries := 0, pd_since := now \<rparr>) (sq_pending q) \<rparr>
     else q)"

section \<open>Nothing is lost\<close>

datatype queue_op =
    Q_enqueue dial_job
  | Q_garbage string
  | Q_enqueue_once settings instant dial_job idem_key int
  | Q_read instant
  | Q_ack nat
  | Q_reclaim settings instant int nat
  | Q_reset instant bool nat
  | Q_clear_guard idem_key
  | Q_drain

fun queue_step :: "queue_op \<Rightarrow> stream_queue \<Rightarrow> stream_queue" where
  "queue_step (Q_enqueue j) q = enqueue j q"
| "queue_step (Q_garbage s) q = xadd (Unreadable s) q"
| "queue_step (Q_enqueue_once st now j k ttl) q = snd (enqueue_once st now j k ttl q)"
| "queue_step (Q_read now) q = snd (read_one now q)"
| "queue_step (Q_ack i) q = ack i q"
| "queue_step (Q_reclaim st now idle count) q = snd (reclaim_stale st now idle count q)"
| "queue_step (Q_reset now up i) q = reset_deliveries now up i q"
| "queue_step (Q_clear_guard k) q = clear_guard k q"
| "queue_step Q_drain q = snd (drain_dead_letters q)"

fun acked_by :: "queue_op list \<Rightarrow> nat set" where
  "acked_by [] = {}"
| "acked_by (Q_ack i # ops) = insert i (acked_by ops)"
| "acked_by (_ # ops) = acked_by ops"

definition entry_ids :: "stream_queue \<Rightarrow> nat set" where
  "entry_ids q = fst ` set (sq_entries q)"

definition pending_ids :: "stream_queue \<Rightarrow> nat set" where
  "pending_ids q = pd_id ` set (sq_pending q)"

definition dead_ids :: "stream_queue \<Rightarrow> nat set" where
  "dead_ids q = dl_id ` set (sq_dlq q)"

text \<open>Every entry is waiting to be read or pending, ids are below the next one, and every id ever
  given out is in the stream, in the dead-letter stream or acknowledged.\<close>

definition queue_ok :: "nat set \<Rightarrow> stream_queue \<Rightarrow> bool" where
  "queue_ok acked q \<longleftrightarrow> (\<forall>i \<in> entry_ids q. sq_delivered q \<le> i \<or> i \<in> pending_ids q) \<and>
    (\<forall>i < sq_next q. i \<in> entry_ids q \<or> i \<in> dead_ids q \<or> i \<in> acked)"

lemma queue_ok_mono: "queue_ok A q \<Longrightarrow> A \<subseteq> B \<Longrightarrow> queue_ok B q"
  by (auto simp: queue_ok_def)

lemma entry_ids_ack [simp]: "entry_ids (ack i q) = entry_ids q - {i}"
  by (auto simp: entry_ids_def ack_def)

lemma pending_ids_ack [simp]: "pending_ids (ack i q) = pending_ids q - {i}"
  by (auto simp: pending_ids_def ack_def)

lemma ack_frame [simp]:
  "sq_next (ack i q) = sq_next q" "sq_delivered (ack i q) = sq_delivered q" "dead_ids (ack i q) = dead_ids q"
  "sq_guards (ack i q) = sq_guards q"
  by (simp_all add: ack_def dead_ids_def)

lemma ids_dead_letter [simp]:
  "entry_ids (dead_letter_entry i r reason n q) = entry_ids q - {i}"
  "pending_ids (dead_letter_entry i r reason n q) = pending_ids q - {i}"
  "dead_ids (dead_letter_entry i r reason n q) = insert i (dead_ids q)"
  "sq_next (dead_letter_entry i r reason n q) = sq_next q"
  "sq_delivered (dead_letter_entry i r reason n q) = sq_delivered q"
  by (auto simp: dead_letter_entry_def ack_def Let_def entry_ids_def pending_ids_def dead_ids_def)

lemma queue_ok_dead_letter: "queue_ok A q \<Longrightarrow> queue_ok A (dead_letter_entry i r reason n q)"
  by (auto simp: queue_ok_def)

lemma queue_ok_ack: "queue_ok A q \<Longrightarrow> queue_ok (insert i A) (ack i q)"
  by (auto simp: queue_ok_def)

lemma queue_ok_xadd: "queue_ok A q \<Longrightarrow> sq_delivered q \<le> sq_next q \<Longrightarrow> queue_ok A (xadd r q)"
  by (auto simp: queue_ok_def xadd_def entry_ids_def pending_ids_def dead_ids_def less_Suc_eq)

lemma queue_ok_cong:
  "entry_ids q' = entry_ids q \<Longrightarrow> pending_ids q \<inter> entry_ids q \<subseteq> pending_ids q' \<Longrightarrow> dead_ids q' = dead_ids q \<Longrightarrow>
    sq_next q' = sq_next q \<Longrightarrow> sq_delivered q' = sq_delivered q \<Longrightarrow> queue_ok A q \<Longrightarrow> queue_ok A q'"
  by (auto simp: queue_ok_def)

text \<open>Ids are handed out and delivered in order.\<close>

definition ids_ordered :: "stream_queue \<Rightarrow> bool" where
  "ids_ordered q \<longleftrightarrow> sq_delivered q \<le> sq_next q \<and> sorted_wrt (<) (map fst (sq_entries q)) \<and>
    (\<forall>i \<in> entry_ids q. i < sq_next q)"

lemma sorted_map_filter: "sorted_wrt P (map f xs) \<Longrightarrow> sorted_wrt P (map f (filter Q xs))"
  by (induction xs) auto

lemma ids_ordered_filter:
  "ids_ordered q \<Longrightarrow> sq_entries q' = filter P (sq_entries q) \<Longrightarrow> sq_next q' = sq_next q \<Longrightarrow>
    sq_delivered q' = sq_delivered q \<Longrightarrow> ids_ordered q'"
  by (auto simp: ids_ordered_def entry_ids_def sorted_map_filter)

lemma ids_ordered_ack: "ids_ordered q \<Longrightarrow> ids_ordered (ack i q)"
  by (rule ids_ordered_filter [where P = "\<lambda>(j, _). j \<noteq> i"]) (simp_all add: ack_def)

lemma ids_ordered_dead_letter: "ids_ordered q \<Longrightarrow> ids_ordered (dead_letter_entry i r reason n q)"
  by (rule ids_ordered_filter [where P = "\<lambda>(j, _). j \<noteq> i"]) (simp_all add: dead_letter_entry_def ack_def Let_def)

lemma ids_ordered_xadd: "ids_ordered q \<Longrightarrow> ids_ordered (xadd r q)"
  by (auto simp: ids_ordered_def xadd_def entry_ids_def sorted_wrt_append)

lemma xadd_ok: "queue_ok A q \<and> ids_ordered q \<Longrightarrow> queue_ok A (xadd r q) \<and> ids_ordered (xadd r q)"
  using queue_ok_xadd [of A q r] ids_ordered_xadd [of q r] by (simp add: ids_ordered_def)

lemma find_first:
  assumes "sorted_wrt (<) (map fst xs)" "find (\<lambda>(i, _). (m :: nat) \<le> i) xs = Some (i, r)" "(j, v) \<in> set xs" "m \<le> j"
  shows "i \<le> j"
  using assms by (induction xs) (auto split: if_splits)

lemma xread_new_ok:
  assumes "xread_new now q = Some ((i, r), q')" "queue_ok A q" "ids_ordered q"
  shows "queue_ok A q' \<and> ids_ordered q'"
proof -
  from assms(1) have f: "find (\<lambda>(i, _). sq_delivered q \<le> i) (sq_entries q) = Some (i, r)"
    and q': "q' = q\<lparr> sq_delivered := Suc i,
         sq_pending := sq_pending q @ [\<lparr> pd_id = i, pd_deliveries = 1, pd_since = now \<rparr>] \<rparr>"
    by (auto simp: xread_new_def split: option.splits prod.splits)
  have "j \<in> pending_ids q'" if "j \<in> entry_ids q" "\<not> Suc i \<le> j" for j
  proof (cases "sq_delivered q \<le> j")
    case True
    with find_first [OF _ f, of j] assms(3) that have "i \<le> j" by (auto simp: ids_ordered_def entry_ids_def)
    with that show ?thesis by (simp add: q' pending_ids_def)
  next
    case False
    then show ?thesis using assms(2) that by (auto simp: queue_ok_def q' pending_ids_def)
  qed
  moreover have "i < sq_next q" using found [OF f] assms(3) by (force simp: ids_ordered_def entry_ids_def)
  moreover have "entry_ids q' = entry_ids q" "dead_ids q' = dead_ids q" "sq_next q' = sq_next q"
      "sq_delivered q' = Suc i" "sq_entries q' = sq_entries q"
    by (simp_all add: q' entry_ids_def dead_ids_def)
  ultimately show ?thesis using assms(2,3) unfolding queue_ok_def ids_ordered_def by auto
qed

lemma read_one_ok: "queue_ok A q \<and> ids_ordered q \<Longrightarrow> queue_ok A (snd (read_one now q)) \<and> ids_ordered (snd (read_one now q))"
proof (induction now q rule: read_one.induct)
  case (1 now q)
  show ?case
  proof (cases "xread_new now q")
    case None
    then show ?thesis using "1.prems" by (subst (1 2) read_one.simps) simp
  next
    case (Some x)
    obtain i r q1 where x: "x = ((i, r), q1)" by (metis surj_pair)
    have ok: "queue_ok A q1 \<and> ids_ordered q1" using xread_new_ok [OF Some [unfolded x]] "1.prems" by blast
    show ?thesis
    proof (cases "parse_entry r")
      case None
      from "1.IH" [OF Some x [symmetric] refl None] ok "1.prems" show ?thesis
        by (subst (1 2) read_one.simps) (simp add: Some x None queue_ok_dead_letter ids_ordered_dead_letter)
    next
      case (Some j)
      then show ?thesis using ok "1.prems" \<open>xread_new now q = Some x\<close>
        by (subst (1 2) read_one.simps) (simp add: x)
    qed
  qed
qed

lemma reclaim_entries_ok:
  "queue_ok A q \<and> ids_ordered q \<Longrightarrow>
    queue_ok A (snd (reclaim_entries st es q)) \<and> ids_ordered (snd (reclaim_entries st es q))"
  by (induction st es q rule: reclaim_entries.induct)
     (auto simp: Let_def queue_ok_dead_letter ids_ordered_dead_letter split: option.splits prod.splits)

lemma pending_ids_update [simp]:
  "(\<And>p. pd_id (f p) = pd_id p) \<Longrightarrow> pd_id ` set (update_where P f ps) = pd_id ` set ps"
  by (metis map_key_update_where list.set_map)

lemma xautoclaim_pending:
  "pending_ids q \<inter> entry_ids q \<subseteq> pending_ids (snd (xautoclaim now idle n q))"
  by (auto simp: xautoclaim_def Let_def pending_ids_def entry_ids_def)

lemma xautoclaim_ok:
  assumes "queue_ok A q \<and> ids_ordered q"
  shows "queue_ok A (snd (xautoclaim now idle n q)) \<and> ids_ordered (snd (xautoclaim now idle n q))"
proof
  have e: "entry_ids (snd (xautoclaim now idle n q)) = entry_ids q" "dead_ids (snd (xautoclaim now idle n q)) = dead_ids q"
      "sq_next (snd (xautoclaim now idle n q)) = sq_next q" "sq_delivered (snd (xautoclaim now idle n q)) = sq_delivered q"
    by (simp_all add: xautoclaim_def Let_def entry_ids_def dead_ids_def)
  note p = xautoclaim_pending [of q now idle n]
  show "queue_ok A (snd (xautoclaim now idle n q))"
    using assms by (intro queue_ok_cong [OF e(1) p e(2-4)]) simp
  show "ids_ordered (snd (xautoclaim now idle n q))"
    using assms by (simp add: ids_ordered_def e) (simp add: xautoclaim_def Let_def)
qed

lemma queue_step_ok:
  assumes "queue_ok A q \<and> ids_ordered q"
  shows "queue_ok (A \<union> acked_by [op]) (queue_step op q) \<and> ids_ordered (queue_step op q)"
proof (cases op)
  case (Q_enqueue_once st now j k ttl)
  have "queue_ok A (q2\<lparr> sq_guards := g \<rparr>) = queue_ok A q2" "ids_ordered (q2\<lparr> sq_guards := g \<rparr>) = ids_ordered q2" for q2 g
    by (simp_all add: queue_ok_def ids_ordered_def entry_ids_def pending_ids_def dead_ids_def)
  then show ?thesis using assms xadd_ok [OF assms, of "Readable j"] Q_enqueue_once
    by (simp add: enqueue_once_def Let_def)
next
  case (Q_reclaim st now idle n)
  then show ?thesis using reclaim_entries_ok xautoclaim_ok [OF assms]
    by (auto simp: reclaim_stale_def split: prod.splits) (metis snd_conv)+
next
  case (Q_reset now up i)
  then show ?thesis using assms
    by (auto simp: reset_deliveries_def queue_ok_def ids_ordered_def entry_ids_def pending_ids_def dead_ids_def)
next
  case (Q_read now)
  then show ?thesis using read_one_ok [of A q now] assms by simp
next
  case (Q_ack i)
  then show ?thesis using assms queue_ok_ack [of A q i] by (simp add: ids_ordered_ack)
next
  case (Q_enqueue j)
  then show ?thesis using assms xadd_ok [OF assms] by (simp add: enqueue_def)
next
  case (Q_garbage s)
  then show ?thesis using assms xadd_ok [OF assms] by simp
next
  case (Q_clear_guard k)
  then show ?thesis using assms
    by (auto simp: clear_guard_def queue_ok_def ids_ordered_def entry_ids_def pending_ids_def dead_ids_def)
next
  case Q_drain
  then show ?thesis using assms
    by (auto simp: drain_dead_letters_def queue_ok_def ids_ordered_def entry_ids_def pending_ids_def dead_ids_def)
qed

lemma acked_by_append: "acked_by (xs @ ys) = acked_by xs \<union> acked_by ys"
  by (induction xs rule: acked_by.induct) auto

text \<open>
  C23: after any sequence of enqueues, reads, reclaims, resets and acknowledgements, every message
  ever added is still in the stream, in the dead-letter stream, or was acknowledged; and whatever
  is in the stream is either still to be read or pending for a reclaim. Nothing is trimmed.
\<close>

theorem queue_never_loses:
  "(\<forall>i < sq_next (fold queue_step ops empty_queue).
      i \<in> entry_ids (fold queue_step ops empty_queue) \<or> i \<in> dead_ids (fold queue_step ops empty_queue) \<or>
      i \<in> acked_by ops) \<and>
    (\<forall>i \<in> entry_ids (fold queue_step ops empty_queue).
      sq_delivered (fold queue_step ops empty_queue) \<le> i \<or> i \<in> pending_ids (fold queue_step ops empty_queue))"
proof -
  have "queue_ok (acked_by ops) (fold queue_step ops empty_queue) \<and> ids_ordered (fold queue_step ops empty_queue)"
  proof (induction ops rule: rev_induct)
    case (snoc op ops)
    with queue_step_ok [of "acked_by ops" "fold queue_step ops empty_queue" op] show ?case
      by (simp add: acked_by_append)
  qed (simp add: queue_ok_def ids_ordered_def empty_queue_def entry_ids_def)
  then show ?thesis by (simp add: queue_ok_def)
qed

definition sample_job :: dial_job where
  "sample_job = new_dial_job 3 7 1 1 None None"

theorem queue_never_loses_witness:
  "0 \<in> dead_ids (fold queue_step [Q_garbage ''x'', Q_enqueue sample_job, Q_read 5] empty_queue) \<and>
    1 \<in> pending_ids (fold queue_step [Q_garbage ''x'', Q_enqueue sample_job, Q_read 5] empty_queue)"
proof -
  let ?q = "fold queue_step [Q_garbage ''x'', Q_enqueue sample_job, Q_read 5] empty_queue"
  have n: "sq_next ?q = 2" "entry_ids ?q = {1}" "sq_delivered ?q = 2"
    by code_simp+
  from queue_never_loses [of "[Q_garbage ''x'', Q_enqueue sample_job, Q_read 5]"]
  have "0 < sq_next ?q \<longrightarrow> 0 \<in> entry_ids ?q \<or> 0 \<in> dead_ids ?q \<or> (0 :: nat) \<in> {}"
    "1 \<in> entry_ids ?q \<longrightarrow> sq_delivered ?q \<le> 1 \<or> 1 \<in> pending_ids ?q" by auto
  with n show ?thesis by simp
qed

section \<open>Adding once\<close>

fun add_each :: "('k \<Rightarrow> 'j \<Rightarrow> 's \<Rightarrow> bool \<times> 's) \<Rightarrow> ('k \<times> 'j) list \<Rightarrow> 's \<Rightarrow> ('k \<times> 'j) list \<times> 's" where
  "add_each add [] s = ([], s)"
| "add_each add ((k, j) # rest) s =
    (let (ok, s1) = add k j s; (new, s2) = add_each add rest s1 in (if ok then (k, j) # new else new, s2))"

locale once_guard =
  fixes add :: "'k \<Rightarrow> 'j \<Rightarrow> 's \<Rightarrow> bool \<times> 's" and guarded :: "'k \<Rightarrow> 's \<Rightarrow> bool"
    and items :: "'s \<Rightarrow> 'e list" and item :: "'j \<Rightarrow> 'e"
  assumes added: "add k j s = (True, s') \<Longrightarrow> \<not> guarded k s \<and> guarded k s' \<and> items s' = items s @ [item j]"
    and refused: "add k j s = (False, s') \<Longrightarrow> s' = s"
    and guard_kept: "guarded k s \<Longrightarrow> add k' j s = (b, s') \<Longrightarrow> guarded k s'"
begin

lemma add_each_once:
  "add_each add kjs s = (new, s') \<Longrightarrow>
    distinct (map fst new) \<and> (\<forall>k \<in> fst ` set new. \<not> guarded k s) \<and>
    items s' = items s @ map (item \<circ> snd) new \<and> (\<forall>k. guarded k s \<longrightarrow> guarded k s') \<and>
    fst ` set new \<subseteq> {k. guarded k s'}"
proof (induction kjs arbitrary: s new)
  case (Cons kj rest)
  obtain k j where kj: "kj = (k, j)" by (cases kj)
  obtain ok s1 where a: "add k j s = (ok, s1)" by (metis surj_pair)
  obtain new1 where n: "add_each add rest s1 = (new1, s')" "new = (if ok then (k, j) # new1 else new1)"
    using Cons.prems a kj by (auto split: prod.splits)
  note IH = Cons.IH [OF n(1)]
  show ?case
  proof (cases ok)
    case True
    then show ?thesis using IH added [of k j s s1] guard_kept [of _ s k j ok s1] a n by auto
  next
    case False
    then show ?thesis using IH refused [of k j s s1] a n by auto
  qed
qed simp

end

definition ENQUEUE_GUARD_TTL_SECONDS :: int where
  "ENQUEUE_GUARD_TTL_SECONDS = 3600"

definition add_guarded :: "settings \<Rightarrow> instant \<Rightarrow> idem_key \<Rightarrow> dial_job \<Rightarrow> stream_queue \<Rightarrow> bool \<times> stream_queue" where
  "add_guarded st now k j q =
    (case enqueue_once st now j k ENQUEUE_GUARD_TTL_SECONDS q of (r, q') \<Rightarrow> (r = Queued, q'))"

definition queue_items :: "stream_queue \<Rightarrow> raw_entry list" where
  "queue_items q = map snd (sq_entries q)"

lemma enqueue_once_frame:
  "guard_live now k (xadd r q) = guard_live now k q"
  "queue_items (xadd r q) = queue_items q @ [r]"
  "queue_items (q\<lparr> sq_guards := g \<rparr>) = queue_items q"
  by (simp_all add: guard_live_def xadd_def queue_items_def)

interpretation dial_guard: once_guard "add_guarded st now" "guard_live now" queue_items Readable for st now
proof
  fix k j q q' assume "add_guarded st now k j q = (True, q')"
  then show "\<not> guard_live now k q \<and> guard_live now k q' \<and> queue_items q' = queue_items q @ [Readable j]"
    by (auto simp: add_guarded_def enqueue_once_def Let_def enqueue_once_frame ENQUEUE_GUARD_TTL_SECONDS_def
      split: if_splits) (auto simp: guard_live_def)
next
  fix k j q q' assume "add_guarded st now k j q = (False, q')"
  then show "q' = q" by (auto simp: add_guarded_def enqueue_once_def Let_def split: if_splits)
next
  fix k q k' j b q' assume "guard_live now k q" "add_guarded st now k' j q = (b, q')"
  then show "guard_live now k q'"
    by (auto simp: add_guarded_def enqueue_once_def Let_def guard_live_def xadd_def split: if_splits)
qed

lemma enqueue_once_bound:
  "enqueue_once st now j k ttl q = (Queued, q') \<Longrightarrow> int (length (sq_entries q')) \<le> st_queue_max_backlog st"
  by (auto simp: enqueue_once_def Let_def xadd_def split: if_splits)

section \<open>Holds are not poison\<close>

text \<open>One round of a held message: reclaimed, refused, its counter reset.\<close>

definition hold_round :: "settings \<Rightarrow> instant \<Rightarrow> int \<Rightarrow> nat \<Rightarrow> nat \<Rightarrow> stream_queue \<Rightarrow> stream_queue" where
  "hold_round st now idle count i q = reset_deliveries now True i (snd (reclaim_stale st now idle count q))"

text \<open>A message that is readable, in the stream, and delivered at most \<open>n\<close> times since its last reset.\<close>

definition safe_message :: "nat \<Rightarrow> dial_job \<Rightarrow> int \<Rightarrow> stream_queue \<Rightarrow> bool" where
  "safe_message i j n q \<longleftrightarrow> (i, Readable j) \<in> set (sq_entries q) \<and>
    (\<forall>r. (i, r) \<in> set (sq_entries q) \<longrightarrow> r = Readable j) \<and> i \<in> pending_ids q \<and> times_delivered i q \<le> n"

lemma safe_dead_letter: "i \<noteq> i' \<Longrightarrow> safe_message i j n q \<Longrightarrow> safe_message i j n (dead_letter_entry i' r reason k q)"
  by (auto simp: safe_message_def dead_letter_entry_def ack_def Let_def times_delivered_def
    get_row_filter_other pending_ids_def)

lemma safe_reclaim_entries:
  assumes "safe_message i j n q" "n \<le> st_queue_max_deliveries st"
    and "\<forall>(i', r) \<in> set es. i' = i \<longrightarrow> r = Readable j"
  shows "safe_message i j n (snd (reclaim_entries st es q))"
  using assms
proof (induction st es q rule: reclaim_entries.induct)
  case (2 st i' r rest q)
  have td: "i' = i \<Longrightarrow> times_delivered i q \<le> st_queue_max_deliveries st"
    using "2.prems" by (auto simp: safe_message_def)
  show ?case
  proof (cases "parse_entry r")
    case None
    then have "i \<noteq> i'" using "2.prems"(3) by auto
    with 2 None show ?thesis by (auto simp: Let_def safe_dead_letter)
  next
    case (Some j')
    show ?thesis
    proof (cases "times_delivered i' q > st_queue_max_deliveries st")
      case True
      then have "i \<noteq> i'" using td by auto
      with 2 Some True show ?thesis by (auto simp: Let_def safe_dead_letter)
    next
      case False
      with 2 Some show ?thesis by (auto simp: Let_def split: prod.splits)
    qed
  qed
qed simp

lemma times_delivered_claim:
  assumes "i \<in> entry_ids q" "i \<in> pending_ids q"
  shows "times_delivered i (snd (xautoclaim now idle count q)) \<le> times_delivered i q + 1"
proof -
  let ?ids = "set (idle_pending now idle count q)"
  have k: "get_row pd_id i (filter (\<lambda>p. pd_id p \<in> ?ids \<longrightarrow> pd_id p \<in> fst ` set (sq_entries q)) ps) = get_row pd_id i ps" for ps
    using assms(1) by (induction ps) (auto simp: get_row_Cons entry_ids_def)
  have "get_row pd_id i (sq_pending q) \<noteq> None" using assms(2) by (auto simp: get_row_None pending_ids_def)
  then show ?thesis
    by (auto simp: times_delivered_def xautoclaim_def Let_def get_update_where k)
qed

lemma safe_reset:
  assumes "safe_message i j n q"
  shows "safe_message i j 0 (reset_deliveries now True i q)"
proof -
  let ?f = "\<lambda>p. p\<lparr> pd_deliveries := 0, pd_since := now \<rparr>"
  have "i \<in> fst ` set (sq_entries q)" using assms by (force simp: safe_message_def)
  then have r: "reset_deliveries now True i q =
      q\<lparr> sq_pending := update_where (\<lambda>p. pd_id p = i) ?f (sq_pending q) \<rparr>"
    by (simp add: reset_deliveries_def)
  have "i \<in> pending_ids q" using assms by (simp add: safe_message_def)
  then obtain p where p: "get_row pd_id i (sq_pending q) = Some p"
    by (metis get_row_None not_None_eq pending_ids_def)
  then have "get_row pd_id i (update_where (\<lambda>p. pd_id p = i) ?f (sq_pending q)) = Some (?f p)"
    using get_row_key [OF p] by (simp add: get_update_where)
  then have "times_delivered i (reset_deliveries now True i q) = 0"
    unfolding r by (simp add: times_delivered_def)
  moreover have "pending_ids (reset_deliveries now True i q) = pending_ids q"
    unfolding r by (simp add: pending_ids_def)
  moreover have "sq_entries (reset_deliveries now True i q) = sq_entries q" unfolding r by simp
  ultimately show ?thesis using assms by (simp add: safe_message_def)
qed

lemma safe_hold_round:
  assumes "safe_message i j 0 q" "1 \<le> st_queue_max_deliveries st"
  shows "safe_message i j 0 (hold_round st now idle count i q)"
proof -
  obtain claimed q1 where x: "xautoclaim now idle count q = (claimed, q1)" by (metis surj_pair)
  have e: "sq_entries q1 = sq_entries q" and c: "set claimed \<subseteq> set (sq_entries q)"
    using x by (auto simp: xautoclaim_def Let_def)
  have i: "i \<in> entry_ids q" "i \<in> pending_ids q" using assms(1) by (force simp: safe_message_def entry_ids_def)+
  have "i \<in> pending_ids q1"
    using xautoclaim_pending [of q now idle count] x i by auto
  moreover have "times_delivered i q1 \<le> 1"
    using times_delivered_claim [OF i, of now idle count] x assms(1) by (simp add: safe_message_def)
  ultimately have s1: "safe_message i j 1 q1" using assms(1) by (simp add: safe_message_def e)
  have "\<forall>(i', r) \<in> set claimed. i' = i \<longrightarrow> r = Readable j"
    using c assms(1) by (auto simp: safe_message_def)
  from safe_reclaim_entries [OF s1 assms(2) this]
  have s2: "safe_message i j 1 (snd (reclaim_stale st now idle count q))" by (simp add: reclaim_stale_def x)
  show ?thesis unfolding hold_round_def by (rule safe_reset [OF s2])
qed

text \<open>
  A message that is deliberately held (its counter reset after every round) is never taken for
  poison, however often it is reclaimed; one that is delivered beyond the limit without being
  settled or held goes to the dead-letter stream with its payload and its reason.
\<close>

theorem held_never_poisoned:
  assumes "safe_message i j 0 q" "1 \<le> st_queue_max_deliveries st"
  shows "safe_message i j 0 (fold (\<lambda>(now, idle, count). hold_round st now idle count i) rounds q)"
  using assms(1)
proof (induction rounds arbitrary: q)
  case (Cons r rounds)
  obtain now idle count where "r = (now, idle, count)" by (metis surj_pair)
  then show ?case using Cons safe_hold_round [OF Cons.prems assms(2)] by simp
qed simp

lemma poison_dead_lettered:
  assumes "times_delivered i q > st_queue_max_deliveries st"
  shows "reclaim_entries st [(i, Readable j)] q =
    ([], dead_letter_entry i (Readable j) REASON_MAX_DELIVERIES (times_delivered i q) q)"
  using assms by (simp add: Let_def)

definition held_queue :: stream_queue where
  "held_queue = reset_deliveries 1 True 0 (snd (read_one 0 (enqueue sample_job empty_queue)))"

theorem held_never_poisoned_witness:
  "safe_message 0 sample_job 0
    (fold (\<lambda>(now, idle, count). hold_round default_settings now idle count 0) (replicate 100 (seconds 60, 0, 10)) held_queue)"
proof (rule held_never_poisoned)
  have "sq_entries held_queue = [(0, Readable sample_job)]" "times_delivered 0 held_queue = 0"
      "pending_ids held_queue = {0}" by code_simp+
  then show "safe_message 0 sample_job 0 held_queue" by (simp add: safe_message_def)
qed (simp add: default_settings_def)

end
