(* ===== verification/Analysis_Admission.thy ===== *)
theory Analysis_Admission imports Data_Model begin

text \<open>
  \<open>app/services/analysis/admission.py\<close>, \<open>job.py\<close> and the admission half of \<open>repository.py\<close>: a
  finished call is registered for analysis inside the caller's transaction; the job for Redis is
  returned, to be published after the commit (\<open>publish_after_commit\<close>). \<open>aj_id\<close> stands for the job id,
  trace id and time of a job.
\<close>

record analysis_job =
  aj_id :: uuid
  aj_analysis :: uuid
  aj_attempt :: uuid
  aj_contact :: uuid
  aj_campaign :: uuid
  aj_session :: "uuid option"

definition is_eligible :: "call_attempt \<Rightarrow> contact \<Rightarrow> bool" where
  "is_eligible a c \<longleftrightarrow> a_state a \<in> {A_ENDED_NORMALLY, A_DROPPED_MID_CALL} \<and>
    c_status c \<in> {C_COMPLETED, C_COMPLETED_PARTIAL}"

definition analysis_job_for :: "uuid \<Rightarrow> call_analysis \<Rightarrow> analysis_job" where
  "analysis_job_for i an = \<lparr> aj_id = i, aj_analysis = an_id an, aj_attempt = an_attempt an,
    aj_contact = an_contact an, aj_campaign = an_campaign an, aj_session = an_session an \<rparr>"

definition load_conversation_session :: "uuid \<Rightarrow> db \<Rightarrow> conversation_session option" where
  "load_conversation_session attempt d = get_row cs_attempt attempt (sessions d)"

definition get_by_call_attempt :: "uuid \<Rightarrow> db \<Rightarrow> call_analysis option" where
  "get_by_call_attempt attempt d = get_row an_attempt attempt (analyses d)"

definition get_analysis :: "uuid \<Rightarrow> db \<Rightarrow> call_analysis option" where
  "get_analysis i d = get_row an_id i (analyses d)"

definition new_analysis :: "instant \<Rightarrow> uuid \<Rightarrow> uuid \<Rightarrow> uuid \<Rightarrow> uuid \<Rightarrow> uuid option \<Rightarrow> instant option \<Rightarrow>
    instant option \<Rightarrow> call_analysis" where
  "new_analysis now i attempt contact camp session enq nxt = \<lparr> an_id = i, an_attempt = attempt,
    an_session = session, an_contact = contact, an_campaign = camp, an_status = AN_PENDING,
    an_attempt_count = 0, an_output = [], an_lead_score = None, an_claim_token = None,
    an_lease_expires = None, an_next_attempt = nxt, an_last_enqueued = enq, an_truncated = False,
    an_budget_day = None, an_reserved_cost = None, an_processing_started = None,
    an_completed_at = None, an_failed_at = None, an_error_code = None, an_created_at = now \<rparr>"

text \<open>\<open>other\<close> is what a concurrent transaction commits between the lookup and the INSERT; the unique
  constraint on the attempt then rejects the INSERT. \<open>None\<close> is the failed assertion.\<close>

definition get_or_create_pending :: "(db \<Rightarrow> db) \<Rightarrow> instant \<Rightarrow> uuid \<Rightarrow> uuid \<Rightarrow> uuid \<Rightarrow> uuid \<Rightarrow> uuid option \<Rightarrow>
    instant option \<Rightarrow> instant option \<Rightarrow> db \<Rightarrow> call_analysis \<times> bool \<times> db" where
  "get_or_create_pending other now i attempt contact camp session enq nxt d =
    (case get_by_call_attempt attempt d of
       Some an \<Rightarrow> (an, False, d)
     | None \<Rightarrow>
        (let d' = other d in
         case get_by_call_attempt attempt d' of
           Some an \<Rightarrow> (an, False, d')
         | None \<Rightarrow>
            (let an = new_analysis now i attempt contact camp session enq nxt
             in (an, True, d'\<lparr> analyses := analyses d' @ [an] \<rparr>))))"

definition enqueue_call_analysis :: "settings \<Rightarrow> (db \<Rightarrow> db) \<Rightarrow> instant \<Rightarrow> uuid \<Rightarrow> call_attempt \<Rightarrow> contact \<Rightarrow> db \<Rightarrow>
    analysis_job option \<times> db" where
  "enqueue_call_analysis st other now i a c d =
    (if \<not> is_eligible a c then (None, d)
     else let delay = as_initial_delay (st_analysis st) in
       case get_or_create_pending other now i (a_id a) (c_id c) (c_campaign c)
           (map_option cs_id (load_conversation_session (a_id a) d)) (Some now)
           (if delay \<noteq> 0 then Some (now + seconds delay) else None) d of
         (an, created, d1) \<Rightarrow>
           if \<not> created then (None, d1)
           else (Some (analysis_job_for i an),
             record_audit_event ''analysis-admission'' ''analysis.queued'' ''call_attempt'' (Some (a_id a))
               [(''analysis_id'', JId (an_id an))]
               (add_call_event (a_id a) ''ANALYSIS_QUEUED''
                 [(''analysis_id'', JId (an_id an)), (''trace_id'', JId i)] d1)))"

text \<open>The hook after the commit: a failing publish is swallowed; a rolled back caller publishes nothing.\<close>

definition publish_after_commit :: "bool \<Rightarrow> bool \<Rightarrow> analysis_job option \<Rightarrow> analysis_job list \<Rightarrow> analysis_job list" where
  "publish_after_commit redis_up committed job stream =
    (case job of Some j \<Rightarrow> if committed \<and> redis_up then stream @ [j] else stream | None \<Rightarrow> stream)"

section \<open>Admission is idempotent\<close>

lemma new_analysis_sel [simp]:
  "an_id (new_analysis now i a c camp s e n) = i" "an_attempt (new_analysis now i a c camp s e n) = a"
  "an_status (new_analysis now i a c camp s e n) = AN_PENDING"
  "an_contact (new_analysis now i a c camp s e n) = c" "an_campaign (new_analysis now i a c camp s e n) = camp"
  "an_session (new_analysis now i a c camp s e n) = s" "an_attempt_count (new_analysis now i a c camp s e n) = 0"
  "an_next_attempt (new_analysis now i a c camp s e n) = n" "an_last_enqueued (new_analysis now i a c camp s e n) = e"
  "an_claim_token (new_analysis now i a c camp s e n) = None" "an_lease_expires (new_analysis now i a c camp s e n) = None"
  "an_reserved_cost (new_analysis now i a c camp s e n) = None"
  by (simp_all add: new_analysis_def)

lemma get_by_call_attempt_cong [simp]:
  "get_by_call_attempt j (upd_contact i f d) = get_by_call_attempt j d"
  "get_by_call_attempt j (upd_attempt i g d) = get_by_call_attempt j d"
  "get_by_call_attempt j (record_audit_event a b c e m d) = get_by_call_attempt j d"
  "get_by_call_attempt j (add_call_event x t p d) = get_by_call_attempt j d"
  by (simp_all add: get_by_call_attempt_def)

lemma enqueue_call_analysis_frame:
  assumes "enqueue_call_analysis st id now i a c d = (job, d')"
  shows "contacts d' = contacts d \<and> attempts d' = attempts d \<and> campaigns d' = campaigns d \<and>
    policies d' = policies d \<and> suppressions d' = suppressions d \<and> processed d' = processed d \<and>
    controls d' = controls d \<and> sessions d' = sessions d"
  using assms
  by (auto simp: enqueue_call_analysis_def get_or_create_pending_def Let_def split: if_splits option.splits prod.splits)

text \<open>A duplicate terminal path registers nothing and publishes nothing.\<close>

lemma enqueue_call_analysis_again:
  assumes "enqueue_call_analysis st id now i a c d = (job, d')" "get_by_call_attempt (a_id a) d' \<noteq> None"
  shows "enqueue_call_analysis st' id now' i' a c' d' = (None, d')"
  using assms(2) by (auto simp: enqueue_call_analysis_def get_or_create_pending_def Let_def)

end
