(* ===== verification/Keyset.thy ===== *)
theory Keyset imports Prelude begin

text \<open>
  Keyset pagination as the repositories use it: a page is the first rows, by primary key, past the
  key of the last row of the page before. The lemmas say that the pages of a table partition it.
\<close>

definition past :: "('r \<Rightarrow> nat) \<Rightarrow> nat option \<Rightarrow> 'r \<Rightarrow> bool" where
  "past key after r = (case after of None \<Rightarrow> True | Some k \<Rightarrow> k < key r)"

definition keyset_rest :: "('r \<Rightarrow> nat) \<Rightarrow> nat option \<Rightarrow> 'r list \<Rightarrow> 'r list" where
  "keyset_rest key after rows = filter (past key after) (sort_key key rows)"

definition keyset_page :: "('r \<Rightarrow> nat) \<Rightarrow> nat \<Rightarrow> nat option \<Rightarrow> 'r list \<Rightarrow> 'r list" where
  "keyset_page key sz after rows = take sz (keyset_rest key after rows)"

lemma set_keyset_rest: "set (keyset_rest key after rows) = {r \<in> set rows. past key after r}"
  by (auto simp: keyset_rest_def)

lemma sorted_keyset_rest: "sorted (map key (keyset_rest key after rows))"
  by (simp add: keyset_rest_def sorted_filter)

lemma keyset_page_past: "r \<in> set (keyset_page key sz after rows) \<Longrightarrow> r \<in> set rows \<and> past key after r"
  by (auto simp: keyset_page_def set_keyset_rest dest!: in_set_takeD)

lemma keyset_rest_next:
  assumes "past key after r"
  shows "keyset_rest key (Some (key r)) rows = filter (past key (Some (key r))) (keyset_rest key after rows)"
  using assms by (auto simp: keyset_rest_def past_def intro!: filter_cong split: option.splits)

lemma keyset_rest_shrinks:
  assumes "keyset_page key sz after rows \<noteq> []"
  shows "length (keyset_rest key (Some (key (last (keyset_page key sz after rows)))) rows)
    < length (keyset_rest key after rows)"
proof -
  let ?r = "last (keyset_page key sz after rows)"
  have r: "?r \<in> set (keyset_page key sz after rows)" using assms by simp
  then have "?r \<in> set (keyset_rest key after rows)" by (auto simp: keyset_page_def dest: in_set_takeD)
  moreover have "past key after ?r" using keyset_page_past [OF r] by simp
  ultimately show ?thesis
    using length_filter_less [of ?r "keyset_rest key after rows" "past key (Some (key ?r))"]
    by (simp add: keyset_rest_next past_def)
qed

lemma filter_past_split:
  assumes "sorted (map key (xs @ ys))" "distinct (map key (xs @ ys))" "xs \<noteq> []"
  shows "filter (past key (Some (key (last xs)))) (xs @ ys) = ys"
proof -
  have "x \<in> set xs \<Longrightarrow> key x \<le> key (last xs)" for x
  proof -
    assume "x \<in> set xs"
    then obtain i where "i < length xs" "x = xs ! i" by (metis in_set_conv_nth)
    then show ?thesis using assms(1,3) sorted_nth_mono [of "map key xs" i "length xs - 1"]
      by (simp add: sorted_append last_conv_nth)
  qed
  moreover have "y \<in> set ys \<Longrightarrow> key (last xs) < key y" for y
  proof -
    assume y: "y \<in> set ys"
    have "last xs \<in> set xs" using assms(3) by simp
    then have "key (last xs) \<le> key y" "key (last xs) \<noteq> key y"
      using assms(1,2) y by (auto simp: sorted_append)
    then show ?thesis by simp
  qed
  ultimately have "filter (past key (Some (key (last xs)))) xs = []" "filter (past key (Some (key (last xs)))) ys = ys"
    by (auto simp: past_def filter_empty_conv not_less filter_id_conv)
  then show ?thesis by simp
qed

lemma keyset_rest_after_page:
  assumes "keys_distinct key rows" "keyset_page key sz after rows \<noteq> []"
  shows "keyset_rest key (Some (key (last (keyset_page key sz after rows)))) rows =
    drop sz (keyset_rest key after rows)"
proof -
  let ?all = "keyset_rest key after rows" and ?p = "keyset_page key sz after rows"
  have "last ?p \<in> set ?p" using assms(2) by simp
  then have "past key after (last ?p)" by (rule conjunct2 [OF keyset_page_past])
  moreover have "distinct (map key ?all)"
    using assms(1) by (simp add: keyset_rest_def keys_distinct_def distinct_map inj_on_def)
  moreover have "?all = ?p @ drop sz ?all" by (simp add: keyset_page_def)
  ultimately show ?thesis
    using filter_past_split [of key ?p "drop sz ?all"] sorted_keyset_rest [of key after rows] assms(2)
    by (simp add: keyset_rest_next)
qed

end
