(* ===== verification/Recovery.thy ===== *)
theory Recovery imports Stream_Queue Analysis_Admission Keyset begin

text \<open>
  \<open>app/services/recovery\<close>: \<open>manager.py\<close> decides between a retry and an end, \<open>scheduler.py\<close> keeps the due
  entries in a Redis sorted set, \<open>dispatch.py\<close> moves them to the dial queue, \<open>rebuild.py\<close> restores the
  sorted set from PostgreSQL. A member's text is determined by its fields, so a member is a
  \<open>sched_member\<close>: the job and trace id of a recovery job are derived from its fields (\<open>rj_id\<close> is None) unless
  the dialer put a dial job back with its own ids, and its time is left out of the text. Members of one score stay in list order (Redis orders them by their bytes).
\<close>

section \<open>The schedule\<close>

record recovery_job =
  rj_id :: "uuid option"
  rj_attempt :: uuid
  rj_contact :: uuid
  rj_campaign :: uuid
  rj_number :: int

definition RECONNECT :: string where "RECONNECT = ''RECONNECT''"

definition new_recovery_job :: "uuid \<Rightarrow> uuid \<Rightarrow> uuid \<Rightarrow> int \<Rightarrow> recovery_job" where
  "new_recovery_job attempt contact camp n =
    \<lparr> rj_id = None, rj_attempt = attempt, rj_contact = contact, rj_campaign = camp, rj_number = n \<rparr>"

datatype sched_member = M_retry recovery_job | M_dial dial_job

type_synonym schedule = "(sched_member \<times> instant) list"

definition set_score :: "sched_member \<Rightarrow> instant \<Rightarrow> schedule \<Rightarrow> schedule" where
  "set_score m t s = (if m \<in> fst ` set s then map (\<lambda>(k, x). if k = m then (k, t) else (k, x)) s else s @ [(m, t)])"

definition schedule_job :: "recovery_job \<Rightarrow> instant \<Rightarrow> schedule \<Rightarrow> schedule" where
  "schedule_job j t s = set_score (M_retry j) t s"

definition schedule_dial :: "dial_job \<Rightarrow> instant \<Rightarrow> schedule \<Rightarrow> schedule" where
  "schedule_dial j t s = set_score (M_dial j) t s"

definition reschedule :: "sched_member \<Rightarrow> instant \<Rightarrow> schedule \<Rightarrow> schedule" where
  "reschedule m t s = set_score m t s"

text \<open>\<open>ZADD NX\<close>; the answer is the number of members added.\<close>

fun add_missing :: "(sched_member \<times> instant) list \<Rightarrow> schedule \<Rightarrow> nat \<times> schedule" where
  "add_missing [] s = (0, s)"
| "add_missing ((m, t) # es) s =
    (if m \<in> fst ` set s then add_missing es s
     else (case add_missing es (s @ [(m, t)]) of (n, s') \<Rightarrow> (Suc n, s')))"

definition put_back :: "sched_member \<Rightarrow> instant \<Rightarrow> schedule \<Rightarrow> schedule" where
  "put_back m t s = snd (add_missing [(m, t)] s)"

definition due_jobs :: "instant \<Rightarrow> nat \<Rightarrow> schedule \<Rightarrow> sched_member list" where
  "due_jobs now limit s = map fst (take limit (sort_key snd (filter (\<lambda>(_, t). t \<le> now) s)))"

definition claim_member :: "sched_member \<Rightarrow> schedule \<Rightarrow> bool \<times> schedule" where
  "claim_member m s = (m \<in> fst ` set s, filter (\<lambda>(k, _). k \<noteq> m) s)"

section \<open>The decision\<close>

record decision =
  dec_retry :: bool
  dec_reason :: string
  dec_delay :: int
  dec_next :: int

definition no_retry :: "string \<Rightarrow> decision" where
  "no_retry reason = \<lparr> dec_retry = False, dec_reason = reason, dec_delay = 0, dec_next = 0 \<rparr>"

definition PROVIDER_ERROR :: string where "PROVIDER_ERROR = ''provider_error''"
definition RATE_LIMITED :: string where "RATE_LIMITED = ''provider_rate_limited''"

definition rule_key :: "string \<Rightarrow> string" where
  "rule_key reason = (if reason = RATE_LIMITED then PROVIDER_ERROR else reason)"

definition rule_allows :: "rules \<Rightarrow> string \<Rightarrow> bool" where
  "rule_allows rules reason = (case map_of rules (rule_key reason) of Some b \<Rightarrow> b | None \<Rightarrow> False)"

definition provider_error_failures :: "call_attempt \<Rightarrow> db \<Rightarrow> int" where
  "provider_error_failures a d = int (count_where
    (\<lambda>b. a_contact b = a_contact a \<and> a_provider b = Some ''dograh'' \<and> a_state b = A_FAILED_TO_CONNECT \<and>
      a_conn_reason b = Some NC_PROVIDER_ERROR \<and> a_number b \<le> a_number a) (attempts d))"

text \<open>\<open>_decide\<close>. The spacing list is read at \<open>attempt_number - 1\<close>; Python reads the last element for
  -1, but attempts are numbered from 1.\<close>

definition decide :: "settings \<Rightarrow> call_attempt \<Rightarrow> retry_policy option \<Rightarrow> bool \<Rightarrow> string \<Rightarrow> int option \<Rightarrow> db \<Rightarrow> decision" where
  "decide st a policy never reason retry_after d =
    (case policy of
       None \<Rightarrow> no_retry ''no_retry_policy_configured''
     | Some p \<Rightarrow>
        if \<not> rule_allows (if never then rp_never_connected p else rp_mid_call p) reason
        then no_retry (''reason_not_retryable:'' @ reason)
        else if never \<and> reason \<in> {PROVIDER_ERROR, RATE_LIMITED} \<and>
            provider_error_failures a d > st_provider_error_max_retries st
        then no_retry ''provider_error_budget_exhausted''
        else if a_number a > rp_max_retries p then no_retry ''max_attempts_reached''
        else if a_number a - 1 \<ge> int (length (rp_spacing p)) then no_retry ''max_attempts_reached''
        else let base = rp_spacing p ! nat (a_number a - 1);
                 delay = (case retry_after of
                     Some r \<Rightarrow> if r > 0 then max base (min r (st_retry_after_max_s st)) else base
                   | None \<Rightarrow> base)
             in \<lparr> dec_retry = True, dec_reason = ''scheduled'', dec_delay = delay, dec_next = a_number a + 1 \<rparr>)"

section \<open>Its effects\<close>

definition schedule_retry :: "instant \<Rightarrow> bool \<Rightarrow> call_attempt \<Rightarrow> contact \<Rightarrow> campaign \<Rightarrow> decision \<Rightarrow> db \<times> schedule \<Rightarrow>
    db \<times> schedule" where
  "schedule_retry now redis_up a c camp dec s =
    (case s of (d, sch) \<Rightarrow>
      let job = new_recovery_job (a_id a) (c_id c) (camp_id camp) (dec_next dec);
          due = now + seconds (dec_delay dec);
          d1 = upd_contact (c_id c) (\<lambda>r. r\<lparr> c_status := C_RETRY_SCHEDULED, c_next_retry_at := Some due,
                 c_retry_attempt_id := Some (a_id a), c_retry_attempt_number := Some (dec_next dec) \<rparr>) d;
          sch1 = (if redis_up then schedule_job job due sch else sch);
          meta = [(''next_attempt_number'', JInt (dec_next dec)), (''delay_seconds'', JInt (dec_delay dec))]
      in (record_audit_event ''recovery-manager'' ''recovery.scheduled'' ''call_attempt'' (Some (a_id a)) meta
            (add_call_event (a_id a) ''RECOVERY_SCHEDULED'' meta d1), sch1))"

definition terminalize :: "settings \<Rightarrow> instant \<Rightarrow> uuid \<Rightarrow> call_attempt \<Rightarrow> contact \<Rightarrow> string \<Rightarrow> db \<Rightarrow>
    analysis_job option \<times> db" where
  "terminalize st now aid a c reason d =
    (let meta = [(''reason'', JStr reason)];
         d1 = record_audit_event ''recovery-manager'' ''recovery.terminalized'' ''call_attempt'' (Some (a_id a)) meta
           (add_call_event (a_id a) ''RECOVERY_TERMINALIZED'' meta d);
         f = (if reason = ''suppressed'' then id else (\<lambda>r. r\<lparr> c_status := C_COMPLETED_PARTIAL \<rparr>))
     in enqueue_call_analysis st id now aid a (f c) (upd_contact (c_id c) f d1))"

definition handle_disconnect :: "'p env \<Rightarrow> instant \<Rightarrow> uuid \<Rightarrow> bool \<Rightarrow> call_attempt \<Rightarrow> contact \<Rightarrow> campaign \<Rightarrow> bool \<Rightarrow>
    string \<Rightarrow> int option \<Rightarrow> db \<times> schedule \<Rightarrow> decision \<times> analysis_job option \<times> db \<times> schedule" where
  "handle_disconnect w now aid redis_up a c camp never reason retry_after s =
    (case s of (d, sch) \<Rightarrow>
      let finish = (\<lambda>dec. case terminalize (ev_settings w) now aid a c (dec_reason dec) d of
                       (job, d') \<Rightarrow> (dec, job, d', sch)) in
      if c_status c = C_CLOSED \<or> is_suppressed w (c_number c) d then finish (no_retry ''suppressed'')
      else if camp_status camp = CAMP_COMPLETED then finish (no_retry ''campaign_completed'')
      else let dec = decide (ev_settings w) a (Some (get_effective_policy (ev_settings w) (camp_id camp) d))
                       never reason retry_after d in
        if dec_retry dec
        then (case schedule_retry now redis_up a c camp dec (d, sch) of (d', sch') \<Rightarrow> (dec, None, d', sch'))
        else finish dec)"

section \<open>Dispatch\<close>

definition PAUSE_RECHECK_SECONDS :: int where "PAUSE_RECHECK_SECONDS = 60"
definition DISPATCH_ERROR_RETRY_SECONDS :: int where "DISPATCH_ERROR_RETRY_SECONDS = 30"

definition clear_schedule :: "uuid \<Rightarrow> db \<Rightarrow> db" where
  "clear_schedule contact = upd_contact contact (\<lambda>c. c\<lparr> c_next_retry_at := None, c_retry_attempt_id := None,
     c_retry_attempt_number := None \<rparr>)"

definition set_next_retry :: "uuid \<Rightarrow> instant \<Rightarrow> db \<Rightarrow> db" where
  "set_next_retry contact t = upd_contact contact (\<lambda>c. c\<lparr> c_next_retry_at := Some t \<rparr>)"

definition log_skip :: "recovery_job \<Rightarrow> string \<Rightarrow> bool \<Rightarrow> payload \<Rightarrow> db \<Rightarrow> db" where
  "log_skip j reason resched detail = add_call_event (rj_attempt j) ''RECOVERY_SKIPPED''
    ([(''reason'', JStr reason), (''rescheduled'', JBool resched)] @ detail)"

definition next_window_time :: "'p env \<Rightarrow> campaign \<Rightarrow> retry_policy \<Rightarrow> instant \<Rightarrow> window_error + instant option" where
  "next_window_time w camp p now =
    (case rbind (window_is_open w camp p now)
        (\<lambda>b. if b then Inr None else rbind (next_open_time w camp p now) (\<lambda>t. Inr (Some t))) of
       Inl WindowValueError \<Rightarrow> Inl WindowValueError
     | Inl _ \<Rightarrow> Inr (Some (now + seconds PAUSE_RECHECK_SECONDS))
     | Inr r \<Rightarrow> Inr r)"

type_synonym recovery_state = "db \<times> schedule \<times> stream_queue"

text \<open>What an entry did: an exception (\<open>Inl\<close>), or the number of jobs handed to the dialer. \<open>up\<close> is
  whether Redis answers while the entry is processed; \<open>i\<close> is the id of the dial job.\<close>

definition moved_to :: "bool \<Rightarrow> sched_member \<Rightarrow> instant \<Rightarrow> (db \<Rightarrow> db) \<Rightarrow> recovery_state \<Rightarrow> (unit + nat) \<times> recovery_state" where
  "moved_to up m t f s = (case s of (d, sch, q) \<Rightarrow>
    if up then (Inr 0, f d, reschedule m t sch, q) else (Inl (), s))"

definition process_one :: "'p env \<Rightarrow> instant \<Rightarrow> uuid \<Rightarrow> bool \<Rightarrow> recovery_job \<Rightarrow> recovery_state \<Rightarrow>
    (unit + nat) \<times> recovery_state" where
  "process_one w now i up j s =
    (case s of (d, sch, q) \<Rightarrow>
      case (get_contact (rj_contact j) d, get_campaign (rj_campaign j) d) of
        (Some c, Some camp) \<Rightarrow>
          let st = ev_settings w;
              skip = (\<lambda>reason detail. (Inr 0, log_skip j reason False detail (clear_schedule (c_id c) d), sch, q));
              recheck = now + seconds PAUSE_RECHECK_SECONDS;
              later = (\<lambda>t reason. moved_to up (M_retry j) t
                (\<lambda>d. log_skip j reason True [] (set_next_retry (c_id c) t d)) s) in
          if c_status c = C_CLOSED \<or> is_suppressed w (c_number c) d then skip ''suppressed'' []
          else if c_purged_at c \<noteq> None \<or> c_status c \<noteq> C_RETRY_SCHEDULED
          then skip ''contact_not_retryable'' [(''contact_status'', JStr (contact_status_value (c_status c)))]
          else if camp_status camp = CAMP_COMPLETED then skip ''campaign_completed'' []
          else if camp_status camp = CAMP_PAUSED then later recheck ''campaign_paused''
          else case next_window_time w camp (get_effective_policy st (camp_id camp) d) now of
              Inl _ \<Rightarrow> (Inl (), s)
            | Inr (Some t) \<Rightarrow> later t ''calling_window_closed''
            | Inr None \<Rightarrow>
                if get_by_contact_and_number (c_id c) (rj_number j) d \<noteq> None then skip ''attempt_already_exists'' []
                else if \<not> up then (Inl (), s)
                else let dj = new_dial_job i (camp_id camp) (c_id c) (rj_number j) (Some RECONNECT) (Some (rj_attempt j)) in
                  case enqueue_once st now dj (idempotency_key dj) ENQUEUE_GUARD_TTL_SECONDS q of
                    (BacklogFull, q1) \<Rightarrow> (Inr 0, set_next_retry (c_id c) recheck d, reschedule (M_retry j) recheck sch, q1)
                  | (Guarded, q1) \<Rightarrow> (Inr 0, log_skip j ''already_queued'' False []
                      (set_next_retry (c_id c) (now + seconds (st_retry_redispatch_s st)) d), sch, q1)
                  | (Queued, q1) \<Rightarrow> (Inr 1,
                      record_audit_event ''recovery-dispatcher'' ''recovery.dispatched'' ''contact'' (Some (c_id c))
                        [(''attempt_number'', JInt (rj_number j))]
                        (add_call_event (rj_attempt j) ''RECONNECT_STARTED''
                          [(''next_attempt_number'', JInt (rj_number j)), (''trace_id'', JId i)]
                          (set_next_retry (c_id c) (now + seconds (st_retry_redispatch_s st)) d)), sch, q1)
      | _ \<Rightarrow> (Inr 0, s))"

definition process_deferred_dial :: "'p env \<Rightarrow> instant \<Rightarrow> bool \<Rightarrow> dial_job \<Rightarrow> recovery_state \<Rightarrow>
    (unit + nat) \<times> recovery_state" where
  "process_deferred_dial w now up dj s =
    (case s of (d, sch, q) \<Rightarrow>
      case (get_contact (dj_contact dj) d, get_campaign (dj_campaign dj) d) of
        (Some c, Some camp) \<Rightarrow>
          let st = ev_settings w;
              recheck = now + seconds PAUSE_RECHECK_SECONDS;
              later = (\<lambda>t. moved_to up (M_dial dj) t id s) in
          if c_status c \<noteq> C_PENDING \<or> c_attempt_count c \<noteq> 0 then (Inr 0, s)
          else if is_suppressed w (c_number c) d then (Inr 0, s)
          else if camp_status camp = CAMP_PAUSED then later recheck
          else if camp_status camp \<noteq> CAMP_ACTIVE then (Inr 0, s)
          else case next_window_time w camp (get_effective_policy st (camp_id camp) d) now of
              Inl _ \<Rightarrow> (Inl (), s)
            | Inr (Some t) \<Rightarrow> later t
            | Inr None \<Rightarrow>
                if \<not> up then (Inl (), s)
                else case enqueue_once st now dj (idempotency_key dj) ENQUEUE_GUARD_TTL_SECONDS q of
                    (BacklogFull, q1) \<Rightarrow> (Inr 0, d, reschedule (M_dial dj) recheck sch, q1)
                  | (Guarded, q1) \<Rightarrow> (Inr 0, d, sch, q1)
                  | (Queued, q1) \<Rightarrow> (Inr 1, d, sch, q1)
      | _ \<Rightarrow> (Inr 0, s))"

fun process_member :: "'p env \<Rightarrow> instant \<Rightarrow> uuid \<Rightarrow> bool \<Rightarrow> sched_member \<Rightarrow> recovery_state \<Rightarrow>
    (unit + nat) \<times> recovery_state" where
  "process_member w now i up (M_retry j) s = process_one w now i up j s"
| "process_member w now i up (M_dial dj) s = process_deferred_dial w now up dj s"

text \<open>One entry of the loop: claim it; on an exception roll the database back and put the entry back.
  \<open>up2\<close> is whether Redis answers the put-back.\<close>

definition dispatch_entry :: "'p env \<Rightarrow> instant \<Rightarrow> uuid \<Rightarrow> bool \<Rightarrow> bool \<Rightarrow> sched_member \<Rightarrow> recovery_state \<Rightarrow>
    nat \<times> recovery_state" where
  "dispatch_entry w now i up up2 m s =
    (case s of (d, sch, q) \<Rightarrow>
      case claim_member m sch of
        (False, _) \<Rightarrow> (0, s)
      | (True, sch1) \<Rightarrow>
          (case process_member w now i up m (d, sch1, q) of
             (Inr n, s') \<Rightarrow> (n, s')
           | (Inl _, (_, sch2, q2)) \<Rightarrow>
               (0, d, if up2 then put_back m (now + seconds DISPATCH_ERROR_RETRY_SECONDS) sch2 else sch2, q2)))"

fun dispatch_members :: "'p env \<Rightarrow> instant \<Rightarrow> (sched_member \<Rightarrow> uuid) \<Rightarrow> (sched_member \<Rightarrow> bool \<times> bool) \<Rightarrow>
    sched_member list \<Rightarrow> recovery_state \<Rightarrow> nat \<times> recovery_state" where
  "dispatch_members w now mint redis [] s = (0, s)"
| "dispatch_members w now mint redis (m # ms) s =
    (case dispatch_entry w now (mint m) (fst (redis m)) (snd (redis m)) m s of
       (n, s1) \<Rightarrow> (case dispatch_members w now mint redis ms s1 of (k, s2) \<Rightarrow> (n + k, s2)))"

definition dispatch_due :: "'p env \<Rightarrow> instant \<Rightarrow> (sched_member \<Rightarrow> uuid) \<Rightarrow> (sched_member \<Rightarrow> bool \<times> bool) \<Rightarrow>
    recovery_state \<Rightarrow> nat \<times> recovery_state" where
  "dispatch_due w now mint redis s =
    (case s of (d, sch, q) \<Rightarrow> dispatch_members w now mint redis (due_jobs now 50 sch) s)"

section \<open>Rebuild\<close>

definition job_for :: "contact \<Rightarrow> db \<Rightarrow> recovery_job option" where
  "job_for c d =
    (case (c_retry_attempt_id c, c_retry_attempt_number c) of
       (Some a, Some n) \<Rightarrow> Some (new_recovery_job a (c_id c) (c_campaign c) n)
     | _ \<Rightarrow>
        (case rev (sort_key a_number (filter (\<lambda>a. a_contact a = c_id c) (attempts d))) of
           [] \<Rightarrow> None
         | a # _ \<Rightarrow> Some (new_recovery_job (a_id a) (c_id c) (c_campaign c) (a_number a + 1))))"

definition awaiting :: "contact \<Rightarrow> bool" where
  "awaiting c \<longleftrightarrow> c_status c = C_RETRY_SCHEDULED \<and> c_next_retry_at c \<noteq> None"

text \<open>A contact without a derivable job is logged and left out.\<close>

definition retry_entry :: "db \<Rightarrow> contact \<Rightarrow> (sched_member \<times> instant) list" where
  "retry_entry d c = (case (job_for c d, c_next_retry_at c) of (Some j, Some t) \<Rightarrow> [(M_retry j, t)] | _ \<Rightarrow> [])"

text \<open>One page: rows locked by another rebuilder are skipped.\<close>

definition rebuild_page :: "(uuid \<Rightarrow> bool) \<Rightarrow> nat \<Rightarrow> uuid option \<Rightarrow> db \<Rightarrow> contact list" where
  "rebuild_page locked sz after d = keyset_page c_id sz after (filter (\<lambda>c. awaiting c \<and> \<not> locked (c_id c)) (contacts d))"

function rebuild_loop :: "(uuid \<Rightarrow> bool) \<Rightarrow> nat \<Rightarrow> db \<Rightarrow> uuid option \<Rightarrow> nat \<Rightarrow> schedule \<Rightarrow> nat \<times> schedule" where
  "rebuild_loop locked sz d after n s =
    (let page = rebuild_page locked sz after d in
     if page = [] then (n, s)
     else case add_missing (concat (map (retry_entry d) page)) s of
       (k, s1) \<Rightarrow> if length page < sz then (n + k, s1)
                  else rebuild_loop locked sz d (Some (c_id (last page))) (n + k) s1)"
  by pat_completeness auto
termination
  by (relation "measure (\<lambda>(locked, sz, d, after, n, s).
        length (keyset_rest c_id after (filter (\<lambda>c. awaiting c \<and> \<not> locked (c_id c)) (contacts d))))")
    (auto simp: rebuild_page_def intro: keyset_rest_shrinks)

declare rebuild_loop.simps [simp del]

definition rebuild_schedule :: "settings \<Rightarrow> (uuid \<Rightarrow> bool) \<Rightarrow> db \<Rightarrow> schedule \<Rightarrow> nat \<times> schedule" where
  "rebuild_schedule st locked d s = rebuild_loop locked (nat (st_rebuild_batch st)) d None 0 s"

section \<open>Retries follow the policy\<close>

lemma no_retry_sel [simp]: "dec_retry (no_retry r) = False" "dec_reason (no_retry r) = r"
  by (simp_all add: no_retry_def)

lemma decide_retry_iff:
  "dec_retry (decide st a (Some p) never reason ra d) \<longleftrightarrow>
    rule_allows (if never then rp_never_connected p else rp_mid_call p) reason \<and>
    \<not> (never \<and> reason \<in> {PROVIDER_ERROR, RATE_LIMITED} \<and>
      provider_error_failures a d > st_provider_error_max_retries st) \<and>
    a_number a \<le> rp_max_retries p \<and> a_number a \<le> int (length (rp_spacing p))"
  by (auto simp: decide_def Let_def)

lemma decide_delay:
  assumes "dec_retry (decide st a (Some p) never reason ra d)"
  shows "dec_next (decide st a (Some p) never reason ra d) = a_number a + 1 \<and>
    rp_spacing p ! nat (a_number a - 1) \<le> dec_delay (decide st a (Some p) never reason ra d) \<and>
    dec_delay (decide st a (Some p) never reason ra d) \<le>
      max (rp_spacing p ! nat (a_number a - 1)) (st_retry_after_max_s st)"
  using assms by (auto simp: decide_def Let_def split: option.splits if_splits)

lemma decide_reason_not_suppressed: "dec_reason (decide st a p never reason ra d) \<noteq> ''suppressed''"
  by (auto simp: decide_def Let_def split: option.splits)

lemma terminalize_contact:
  assumes "terminalize st now aid a c reason d = (job, d')" "get_contact (c_id c) d = Some c"
  shows "get_contact (c_id c) d' =
    Some (if reason = ''suppressed'' then c else c\<lparr> c_status := C_COMPLETED_PARTIAL \<rparr>)"
  using assms enqueue_call_analysis_frame
  by (auto simp: terminalize_def Let_def get_contact_upd get_contact_def split: if_splits)
     (fastforce simp: get_contact_def [symmetric] get_contact_upd)+

text \<open>
  C20: a failed or dropped call is retried exactly when nothing blocks the contact, the campaign is not
  finished, the campaign's policy (or the default one) allows the reason, the provider-error budget is
  not spent and both the number of retries and the list of spacings have room. The retry is then due no
  earlier than the policy's spacing and no later than the longer of that and the bounded provider hint;
  it is recorded in PostgreSQL whether or not Redis answers. Otherwise the contact is closed as partial
  (a suppressed contact keeps its status) and nothing is scheduled.
\<close>

theorem retry_follows_policy:
  assumes "handle_disconnect w now aid up a c camp never reason ra (d, sch) = (dec, job, d', sch')"
    and "get_contact (c_id c) d = Some c"
    and "p = get_effective_policy (ev_settings w) (camp_id camp) d"
  shows "(dec_retry dec \<longleftrightarrow>
      c_status c \<noteq> C_CLOSED \<and> \<not> is_suppressed w (c_number c) d \<and> camp_status camp \<noteq> CAMP_COMPLETED \<and>
      rule_allows (if never then rp_never_connected p else rp_mid_call p) reason \<and>
      \<not> (never \<and> reason \<in> {PROVIDER_ERROR, RATE_LIMITED} \<and>
        provider_error_failures a d > st_provider_error_max_retries (ev_settings w)) \<and>
      a_number a \<le> rp_max_retries p \<and> a_number a \<le> int (length (rp_spacing p))) \<and>
    (if dec_retry dec
     then (\<exists>due. get_contact (c_id c) d' = Some (c\<lparr> c_status := C_RETRY_SCHEDULED, c_next_retry_at := Some due,
               c_retry_attempt_id := Some (a_id a), c_retry_attempt_number := Some (a_number a + 1) \<rparr>) \<and>
             now + seconds (rp_spacing p ! nat (a_number a - 1)) \<le> due \<and>
             due \<le> now + seconds (max (rp_spacing p ! nat (a_number a - 1)) (st_retry_after_max_s (ev_settings w))) \<and>
             sch' = (if up then schedule_job (new_recovery_job (a_id a) (c_id c) (camp_id camp) (a_number a + 1)) due sch
                     else sch))
     else sch' = sch \<and> get_contact (c_id c) d' =
            Some (if dec_reason dec = ''suppressed'' then c else c\<lparr> c_status := C_COMPLETED_PARTIAL \<rparr>))"
proof -
  let ?st = "ev_settings w"
  let ?dec = "decide ?st a (Some p) never reason ra d"
  let ?blocked = "c_status c = C_CLOSED \<or> is_suppressed w (c_number c) d"
  consider (blocked) ?blocked | (finished) "\<not> ?blocked" "camp_status camp = CAMP_COMPLETED"
    | (judged) "\<not> ?blocked" "camp_status camp \<noteq> CAMP_COMPLETED" by blast
  then show ?thesis
  proof cases
    case judged
    show ?thesis
    proof (cases "dec_retry ?dec")
      case True
      with assms judged have e: "dec = ?dec" "schedule_retry now up a c camp ?dec (d, sch) = (d', sch')"
        by (auto simp: handle_disconnect_def Let_def split: prod.splits)
      note dl = decide_delay [OF True]
      have "get_contact (c_id c) d' = Some (c\<lparr> c_status := C_RETRY_SCHEDULED, c_next_retry_at := Some (now + seconds (dec_delay ?dec)),
               c_retry_attempt_id := Some (a_id a), c_retry_attempt_number := Some (a_number a + 1) \<rparr>) \<and>
             sch' = (if up then schedule_job (new_recovery_job (a_id a) (c_id c) (camp_id camp) (a_number a + 1)) (now + seconds (dec_delay ?dec)) sch
                     else sch)"
        using e(2) assms(2) dl by (auto simp: schedule_retry_def Let_def get_contact_upd)
      then show ?thesis using True e(1) dl judged decide_retry_iff [of ?st a p never reason ra d] by auto
    next
      case False
      with assms judged have e: "dec = ?dec" "terminalize ?st now aid a c (dec_reason ?dec) d = (job, d')" "sch' = sch"
        by (auto simp: handle_disconnect_def Let_def split: prod.splits)
      then show ?thesis using False judged terminalize_contact [OF e(2) assms(2)] decide_retry_iff [of ?st a p never reason ra d]
        by auto
    qed
  qed (use assms in \<open>auto simp: handle_disconnect_def Let_def dest!: terminalize_contact [OF _ assms(2)] split: prod.splits\<close>)
qed

section \<open>Dispatch never dials a blocked contact\<close>

text \<open>Dispatch only moves the schedule columns of a contact.\<close>

definition unscheduled :: "contact \<Rightarrow> contact" where
  "unscheduled c = c\<lparr> c_next_retry_at := None, c_retry_attempt_id := None, c_retry_attempt_number := None \<rparr>"

definition schedule_only :: "db \<Rightarrow> db \<Rightarrow> bool" where
  "schedule_only d d' \<longleftrightarrow> map unscheduled (contacts d') = map unscheduled (contacts d) \<and>
    attempts d' = attempts d \<and> campaigns d' = campaigns d \<and> policies d' = policies d \<and>
    suppressions d' = suppressions d"

lemma schedule_only_refl [simp]: "schedule_only d d"
  by (simp add: schedule_only_def)

lemma schedule_only_trans: "schedule_only d d1 \<Longrightarrow> schedule_only d1 d2 \<Longrightarrow> schedule_only d d2"
  by (simp add: schedule_only_def)

lemma schedule_only_upd: "(\<And>c. unscheduled (f c) = unscheduled c) \<Longrightarrow> schedule_only d (upd_contact i f d)"
  by (auto simp: schedule_only_def upd_contact_def upd_row_def)

lemma schedule_only_ops [simp]:
  "schedule_only d (clear_schedule i d1) \<longleftrightarrow> schedule_only d d1"
  "schedule_only d (set_next_retry i t d1) \<longleftrightarrow> schedule_only d d1"
  "schedule_only d (log_skip j r b p d1) \<longleftrightarrow> schedule_only d d1"
  "schedule_only d (record_audit_event u v x y z d1) \<longleftrightarrow> schedule_only d d1"
  "schedule_only d (add_call_event u' v' x' d1) \<longleftrightarrow> schedule_only d d1"
  by (auto simp: clear_schedule_def set_next_retry_def log_skip_def schedule_only_def upd_contact_def upd_row_def
    unscheduled_def record_audit_event_def add_call_event_def comp_def if_distrib cong: map_cong if_cong)

lemma get_row_map:
  assumes "map f xs = map f ys" "\<And>r. key (f r) = key r"
  shows "map_option f (get_row key k xs) = map_option f (get_row key k ys)"
  using assms(1)
proof (induction xs arbitrary: ys)
  case (Cons x xs)
  then obtain y ys' where "ys = y # ys'" "f x = f y" "map f xs = map f ys'" by (cases ys) auto
  then show ?case using Cons.IH assms(2) [of x] assms(2) [of y] by (simp add: get_row_Cons)
qed simp

lemma schedule_only_contact:
  assumes "schedule_only d d'" "get_contact i d' = Some c'"
  shows "\<exists>c. get_contact i d = Some c \<and> c_status c = c_status c' \<and> c_number c = c_number c' \<and>
    c_attempt_count c = c_attempt_count c' \<and> c_purged_at c = c_purged_at c'"
proof -
  have "map_option unscheduled (get_contact i d') = map_option unscheduled (get_contact i d)"
    using assms(1) by (simp add: schedule_only_def get_contact_def) (rule get_row_map, auto simp: unscheduled_def)
  with assms(2) obtain c where c: "get_contact i d = Some c" "unscheduled c = unscheduled c'" by (cases "get_contact i d") auto
  then have "c_status (unscheduled c) = c_status (unscheduled c') \<and> c_number (unscheduled c) = c_number (unscheduled c') \<and>
    c_attempt_count (unscheduled c) = c_attempt_count (unscheduled c') \<and> c_purged_at (unscheduled c) = c_purged_at (unscheduled c')"
    by simp
  with c(1) show ?thesis by (simp add: unscheduled_def)
qed

definition may_dial :: "'p env \<Rightarrow> instant \<Rightarrow> dial_job \<Rightarrow> db \<Rightarrow> bool" where
  "may_dial w now j d \<longleftrightarrow> (\<exists>c camp. get_contact (dj_contact j) d = Some c \<and> get_campaign (dj_campaign j) d = Some camp \<and>
    \<not> is_suppressed w (c_number c) d \<and>
    (c_status c = C_RETRY_SCHEDULED \<and> c_purged_at c = None \<or> c_status c = C_PENDING \<and> c_attempt_count c = 0) \<and>
    camp_status camp \<notin> {CAMP_PAUSED, CAMP_COMPLETED} \<and>
    window_is_open w camp (get_effective_policy (ev_settings w) (camp_id camp) d) now = Inr True)"

lemma may_dial_schedule_only: "schedule_only d d' \<Longrightarrow> may_dial w now j d' \<Longrightarrow> may_dial w now j d"
  unfolding may_dial_def
proof (elim exE conjE)
  fix c camp assume s: "schedule_only d d'" and c: "get_contact (dj_contact j) d' = Some c"
    and rest: "get_campaign (dj_campaign j) d' = Some camp" "\<not> is_suppressed w (c_number c) d'"
      "c_status c = C_RETRY_SCHEDULED \<and> c_purged_at c = None \<or> c_status c = C_PENDING \<and> c_attempt_count c = 0"
      "camp_status camp \<notin> {CAMP_PAUSED, CAMP_COMPLETED}"
      "window_is_open w camp (get_effective_policy (ev_settings w) (camp_id camp) d') now = Inr True"
  from schedule_only_contact [OF s c] obtain c0 where c0: "get_contact (dj_contact j) d = Some c0" "c_status c0 = c_status c"
    "c_number c0 = c_number c" "c_attempt_count c0 = c_attempt_count c" "c_purged_at c0 = c_purged_at c" by blast
  have e: "campaigns d' = campaigns d" "policies d' = policies d" "suppressions d' = suppressions d"
    using s by (simp_all add: schedule_only_def)
  show "\<exists>c camp. get_contact (dj_contact j) d = Some c \<and> get_campaign (dj_campaign j) d = Some camp \<and>
    \<not> is_suppressed w (c_number c) d \<and>
    (c_status c = C_RETRY_SCHEDULED \<and> c_purged_at c = None \<or> c_status c = C_PENDING \<and> c_attempt_count c = 0) \<and>
    camp_status camp \<notin> {CAMP_PAUSED, CAMP_COMPLETED} \<and>
    window_is_open w camp (get_effective_policy (ev_settings w) (camp_id camp) d) now = Inr True"
    using c0 rest e is_suppressed_cong [OF e(3), of w "c_number c"]
    by (intro exI [of _ c0] exI [of _ camp]) (simp add: get_campaign_def get_effective_policy_def stored_policy_def)
qed

lemma next_window_time_None: "next_window_time w camp p now = Inr None \<longleftrightarrow> window_is_open w camp p now = Inr True"
  by (auto simp: next_window_time_def split: sum.splits window_error.splits if_splits)
     (auto simp: rbind_Inr_iff rbind_Inl_iff split: if_splits)

lemma get_campaign_id': "get_campaign i d = Some camp \<Longrightarrow> camp_id camp = i"
  by (auto simp: get_campaign_def dest: get_row_key)

lemma get_contact_id: "get_contact i d = Some c \<Longrightarrow> c_id c = i"
  by (auto simp: get_contact_def dest: get_row_key)

text \<open>What one entry can do: nothing to the queue, or one job that may be dialed, added once.\<close>

lemma enqueue_once_cases:
  obtains (queued) q' where "enqueue_once st now j k ttl q = (Queued, q')"
  | (guarded) "enqueue_once st now j k ttl q = (Guarded, q)" "guard_live now k q"
  | (full) "enqueue_once st now j k ttl q = (BacklogFull, q)"
proof (cases "guard_live now k q")
  case False
  then show thesis by (cases "int (length (sq_entries q)) \<ge> st_queue_max_backlog st")
    (auto intro: queued full simp: enqueue_once_def Let_def)
qed (auto intro: guarded simp: enqueue_once_def)

definition entry_result :: "'p env \<Rightarrow> instant \<Rightarrow> (unit + nat) \<Rightarrow> db \<Rightarrow> db \<Rightarrow> stream_queue \<Rightarrow> stream_queue \<Rightarrow> bool" where
  "entry_result w now r d d' q q' \<longleftrightarrow> schedule_only d d' \<and>
    (r \<in> {Inl (), Inr 0} \<and> q' = q \<or>
     r = Inr 1 \<and> (\<exists>j. add_guarded (ev_settings w) now (idempotency_key j) j q = (True, q') \<and> may_dial w now j d))"

lemma moved_to_result: "moved_to up m t f (d, sch, q) = (r, d', sch', q') \<Longrightarrow> schedule_only d (f d) \<Longrightarrow>
    entry_result w now r d d' q q'"
  by (auto simp: moved_to_def entry_result_def split: if_splits)

lemma entry_result_added:
  assumes "enqueue_once (ev_settings w) now j (idempotency_key j) ENQUEUE_GUARD_TTL_SECONDS q = (Queued, q1)"
    and "schedule_only d d'" "may_dial w now j d"
  shows "entry_result w now (Inr (Suc 0)) d d' q q1"
  using assms by (auto simp: entry_result_def add_guarded_def intro!: exI [of _ j])

lemma entry_result_none [simp]: "schedule_only d d' \<Longrightarrow> entry_result w now (Inr 0) d d' q q"
  "entry_result w now (Inl ()) d d q q"
  by (simp_all add: entry_result_def)

lemma deferred_dial_result:
  assumes "process_deferred_dial w now up dj (d, sch, q) = (r, d', sch', q')"
  shows "entry_result w now r d d' q q'"
proof (cases "get_contact (dj_contact dj) d")
  case (Some c)
  show ?thesis
  proof (cases "get_campaign (dj_campaign dj) d")
    case camp: (Some camp)
    let ?nw = "next_window_time w camp (get_effective_policy (ev_settings w) (camp_id camp) d) now"
    show ?thesis
    proof (cases "\<exists>m t. moved_to up m t id (d, sch, q) = (r, d', sch', q')")
      case True
      then show ?thesis using moved_to_result by fastforce
    next
      case False
      show ?thesis
      proof (rule enqueue_once_cases [of "ev_settings w" now dj "idempotency_key dj" ENQUEUE_GUARD_TTL_SECONDS q])
        fix q1 assume q: "enqueue_once (ev_settings w) now dj (idempotency_key dj) ENQUEUE_GUARD_TTL_SECONDS q = (Queued, q1)"
        show ?thesis using assms Some camp False q
          by (auto simp: process_deferred_dial_def Let_def may_dial_def next_window_time_None
            split: if_splits sum.splits option.splits intro!: entry_result_added)
      qed (use assms Some camp False in \<open>auto simp: process_deferred_dial_def Let_def
            split: if_splits sum.splits option.splits\<close>)
    qed
  qed (use assms Some in \<open>simp add: process_deferred_dial_def entry_result_def\<close>)
qed (use assms in \<open>simp add: process_deferred_dial_def entry_result_def\<close>)

lemma process_one_result:
  assumes "process_one w now i up j (d, sch, q) = (r, d', sch', q')"
  shows "entry_result w now r d d' q q'"
proof (cases "get_contact (rj_contact j) d")
  case (Some c)
  show ?thesis
  proof (cases "get_campaign (rj_campaign j) d")
    case camp: (Some camp)
    let ?dj = "new_dial_job i (camp_id camp) (c_id c) (rj_number j) (Some RECONNECT) (Some (rj_attempt j))"
    have id: "c_id c = rj_contact j" "camp_id camp = rj_campaign j"
      using get_contact_id [OF Some] get_campaign_id' [OF camp] by simp_all
    show ?thesis
    proof (cases "\<exists>m t f. schedule_only d (f d) \<and> moved_to up m t f (d, sch, q) = (r, d', sch', q')")
      case True
      then show ?thesis using moved_to_result by fastforce
    next
      case False
      then have no: "moved_to up m t (\<lambda>d. log_skip j x b pl (set_next_retry k u d)) (d, sch, q) \<noteq> (r, d', sch', q')" for m t x b pl k u
        by (metis schedule_only_ops(2,3) schedule_only_refl)
      show ?thesis
      proof (rule enqueue_once_cases [of "ev_settings w" now ?dj "idempotency_key ?dj" ENQUEUE_GUARD_TTL_SECONDS q])
        fix q1 assume q: "enqueue_once (ev_settings w) now ?dj (idempotency_key ?dj) ENQUEUE_GUARD_TTL_SECONDS q = (Queued, q1)"
        have "may_dial w now ?dj d" if "\<not> is_suppressed w (c_number c) d" "c_status c = C_RETRY_SCHEDULED"
            "c_purged_at c = None" "camp_status camp \<noteq> CAMP_PAUSED" "camp_status camp \<noteq> CAMP_COMPLETED"
            "window_is_open w camp (get_effective_policy (ev_settings w) (camp_id camp) d) now = Inr True"
          using that Some camp id by (auto simp: may_dial_def new_dial_job_def)
        then show ?thesis using assms Some camp no q
          by (auto simp: process_one_def Let_def next_window_time_None
            split: if_splits sum.splits option.splits intro!: entry_result_added)
      qed (use assms Some camp no in \<open>auto simp: process_one_def Let_def
            split: if_splits sum.splits option.splits\<close>)
    qed
  qed (use assms Some in \<open>simp add: process_one_def entry_result_def\<close>)
qed (use assms in \<open>simp add: process_one_def entry_result_def\<close>)


lemma dispatch_entry_result:
  assumes "dispatch_entry w now i up up2 m (d, sch, q) = (n, d', sch', q')"
  shows "entry_result w now (Inr n) d d' q q'"
proof (cases "m \<in> fst ` set sch")
  case True
  let ?s = "(d, filter (\<lambda>(k, _). k \<noteq> m) sch, q)"
  obtain r d1 s1 q1 where p: "process_member w now i up m ?s = (r, d1, s1, q1)" by (metis prod_cases4)
  then have "entry_result w now r d d1 q q1"
    by (cases m) (auto dest: deferred_dial_result process_one_result)
  then show ?thesis using assms True p
    by (cases r) (auto simp: dispatch_entry_def claim_member_def entry_result_def)
qed (use assms in \<open>simp add: dispatch_entry_def claim_member_def\<close>)

fun dispatched_keys :: "dial_job list \<Rightarrow> (idem_key \<times> dial_job) list" where
  "dispatched_keys js = map (\<lambda>j. (idempotency_key j, j)) js"

lemma guard_kept_add: "guard_live now k q \<Longrightarrow> add_guarded st now k' j q = (b, q') \<Longrightarrow> guard_live now k q'"
  by (rule dial_guard.guard_kept)

lemma entry_result_cases:
  assumes "entry_result w now (Inr n) d d' q q'"
  obtains (nothing) "n = 0" "schedule_only d d'" "q' = q"
  | (added) j where "n = 1" "schedule_only d d'"
      "add_guarded (ev_settings w) now (idempotency_key j) j q = (True, q')" "may_dial w now j d"
  using assms by (auto simp: entry_result_def)

lemma dispatch_members_result:
  assumes "dispatch_members w now mint redis ms (d, sch, q) = (n, d', sch', q')"
  shows "\<exists>js. schedule_only d d' \<and> n = length js \<and> queue_items q' = queue_items q @ map Readable js \<and>
    distinct (map idempotency_key js) \<and>
    (\<forall>j \<in> set js. may_dial w now j d \<and> \<not> guard_live now (idempotency_key j) q) \<and>
    (\<forall>k. guard_live now k q \<longrightarrow> guard_live now k q')"
  using assms
proof (induction ms arbitrary: d sch q n)
  case (Cons m ms)
  obtain n1 d1 sch1 q1 where e: "dispatch_entry w now (mint m) (fst (redis m)) (snd (redis m)) m (d, sch, q) = (n1, d1, sch1, q1)"
    by (metis prod_cases4)
  obtain n2 where r: "dispatch_members w now mint redis ms (d1, sch1, q1) = (n2, d', sch', q')" "n = n1 + n2"
    using Cons.prems e by (auto split: prod.splits)
  from Cons.IH [OF r(1)] obtain js where js: "schedule_only d1 d'" "n2 = length js"
    "queue_items q' = queue_items q1 @ map Readable js" "distinct (map idempotency_key js)"
    "\<forall>j \<in> set js. may_dial w now j d1 \<and> \<not> guard_live now (idempotency_key j) q1"
    "\<forall>k. guard_live now k q1 \<longrightarrow> guard_live now k q'" by blast
  from dispatch_entry_result [OF e] show ?case
  proof (cases rule: entry_result_cases)
    case nothing
    with js r(2) show ?thesis by (intro exI [of _ js]) (auto intro: schedule_only_trans may_dial_schedule_only)
  next
    case (added j)
    have "\<not> guard_live now (idempotency_key j) q" "guard_live now (idempotency_key j) q1"
      "queue_items q1 = queue_items q @ [Readable j]"
      using dial_guard.added [OF added(3)] by simp_all
    moreover have keep: "guard_live now k q \<longrightarrow> guard_live now k q1" for k using guard_kept_add added(3) by blast
    moreover have "\<forall>j' \<in> set js. may_dial w now j' d \<and> \<not> guard_live now (idempotency_key j') q"
      using js(5) keep may_dial_schedule_only [OF added(2)] by blast
    moreover have "idempotency_key j \<notin> idempotency_key ` set js"
      using js(5) dial_guard.added [OF added(3)] by auto
    moreover have "schedule_only d d'" using added(2) js(1) by (rule schedule_only_trans)
    ultimately show ?thesis using added(1,4) js(2-4,6) r(2)
      by (intro exI [of _ "j # js"]) simp
  qed
qed auto

text \<open>
  C21: whatever is in the schedule and however Redis fails, one dispatch run adds to the dial queue only
  jobs whose contact exists and, in the committed database, still waits for this dial, is not suppressed
  or purged, whose campaign is neither paused nor finished and whose calling window is open now; each
  idempotency key is added at most once and never while its guard stands; the count reported is the
  number added; and the database changes only in the schedule columns.
\<close>

theorem dispatch_safe:
  assumes "dispatch_due w now mint redis (d, sch, q) = (n, d', sch', q')"
  shows "\<exists>js. schedule_only d d' \<and> n = length js \<and> queue_items q' = queue_items q @ map Readable js \<and>
    distinct (map idempotency_key js) \<and>
    (\<forall>j \<in> set js. may_dial w now j d \<and> \<not> guard_live now (idempotency_key j) q)"
  using dispatch_members_result [of w now mint redis "due_jobs now 50 sch" d sch q n d' sch' q'] assms
  by (auto simp: dispatch_due_def)

lemma map_fst_set_score: "map fst (set_score m t s) = (if m \<in> fst ` set s then map fst s else map fst s @ [m])"
  by (auto simp: set_score_def)

lemma set_score_in [simp]: "fst ` set (set_score m t s) = insert m (fst ` set s)"
  using arg_cong [OF map_fst_set_score [of m t s], of set] by auto

lemma put_back_in [simp]: "fst ` set (put_back m t s) = insert m (fst ` set s)"
  by (auto simp: put_back_def)

lemma enqueue_once_guards: "enqueue_once st now j k ENQUEUE_GUARD_TTL_SECONDS q = (Queued, q') \<Longrightarrow> guard_live now k q'"
  by (auto simp: enqueue_once_def Let_def guard_live_def ENQUEUE_GUARD_TTL_SECONDS_def split: if_splits)

section \<open>A stale entry can erase a newer retry\<close>

text \<open>
  After a dispatch the contact still waits until the dialer claims it, so a rebuild puts the entry of the
  dispatched retry back. When that dial has failed and the next retry is scheduled, the old entry comes
  due: its attempt exists, and \<open>_clear_schedule\<close> erases the columns of the newer retry. PostgreSQL then
  no longer holds it: once Redis is lost, no rebuild restores it, although the contact still waits.
\<close>

theorem stale_entry_erases_retry:
  assumes "M_retry j \<in> fst ` set sch" "get_contact (rj_contact j) d = Some c"
    and "get_campaign (rj_campaign j) d = Some camp" "camp_status camp = CAMP_ACTIVE"
    and "c_status c = C_RETRY_SCHEDULED" "c_purged_at c = None" "\<not> is_suppressed w (c_number c) d"
    and "next_window_time w camp (get_effective_policy (ev_settings w) (camp_id camp) d) now = Inr None"
    and "get_by_contact_and_number (rj_contact j) (rj_number j) d \<noteq> None"
    and "dispatch_entry w now i up up2 (M_retry j) (d, sch, q) = (n, d', sch', q')"
  shows "\<exists>c'. get_contact (rj_contact j) d' = Some c' \<and> c_status c' = C_RETRY_SCHEDULED \<and>
    \<not> awaiting c' \<and> retry_entry d' c' = []"
proof -
  have id: "c_id c = rj_contact j" by (rule get_contact_id [OF assms(2)])
  have "d' = log_skip j ''attempt_already_exists'' False [] (clear_schedule (c_id c) d)"
    using assms id by (auto simp: dispatch_entry_def claim_member_def process_one_def Let_def)
  then have "get_contact (rj_contact j) d' = Some (unscheduled c)"
    using assms(2) id by (simp add: log_skip_def clear_schedule_def get_contact_upd unscheduled_def)
  then show ?thesis using assms(5) by (auto simp: awaiting_def unscheduled_def retry_entry_def split: option.splits)
qed

section \<open>Witnesses\<close>

definition sample_contact :: contact where
  "sample_contact = \<lparr> c_id = 1, c_campaign = 7, c_phone = ''+919876543210'', c_number = ''+919876543210'',
    c_status = C_DIALING, c_attempt_count = 1, c_next_retry_at = None, c_retry_attempt_id = None,
    c_retry_attempt_number = None, c_legal_hold = False, c_purged_at = None, c_created_at = 0 \<rparr>"

definition sample_attempt :: call_attempt where
  "sample_attempt = (new_attempt 0 20 1 1)\<lparr> a_state := A_FAILED_TO_CONNECT, a_conn_reason := Some NC_NO_ANSWER \<rparr>"

definition sample_db :: db where
  "sample_db = empty_db\<lparr> contacts := [sample_contact], campaigns := [sample_campaign], attempts := [sample_attempt] \<rparr>"

lemma sample_not_suppressed [simp]: "suppressions d = [] \<Longrightarrow> \<not> is_suppressed w n d"
  by (simp add: is_suppressed_def)

theorem retry_follows_policy_witness:
  "\<exists>dec job d' sch'. handle_disconnect plain_env 0 9 True sample_attempt sample_contact sample_campaign True ''no_answer''
      (Some 7200) (sample_db, []) = (dec, job, d', sch') \<and> dec_retry dec \<and>
    (\<exists>due. sch' = [(M_retry (new_recovery_job 20 1 7 2), due)] \<and> seconds 3600 \<le> due \<and> due \<le> seconds 3600)"
proof -
  obtain dec job d' sch' where h: "handle_disconnect plain_env 0 9 True sample_attempt sample_contact sample_campaign True
      ''no_answer'' (Some 7200) (sample_db, []) = (dec, job, d', sch')" by (metis prod_cases4)
  have c: "get_contact (c_id sample_contact) sample_db = Some sample_contact"
    by (simp add: get_contact_def sample_db_def sample_contact_def get_row_Cons)
  have p: "get_effective_policy (ev_settings plain_env) (camp_id sample_campaign) sample_db =
      build_default_policy default_settings 7"
    by (simp add: get_effective_policy_def stored_policy_def sample_db_def empty_db_def sample_campaign_def)
  note r = retry_follows_policy [OF h c refl]
  have s: "suppressions sample_db = []" by (simp add: sample_db_def empty_db_def)
  have "dec_retry dec"
    using r s unfolding p
    by (simp add: sample_contact_def sample_campaign_def rule_allows_def rule_key_def build_default_policy_def
      DEFAULT_NEVER_CONNECTED_RULES_def RATE_LIMITED_def PROVIDER_ERROR_def sample_attempt_def default_settings_def)
  then show ?thesis using h r unfolding p
    by (auto simp: build_default_policy_def default_settings_def sample_attempt_def schedule_job_def set_score_def
      sample_contact_def sample_campaign_def)
qed

definition waiting_db :: db where
  "waiting_db = sample_db\<lparr> contacts := [sample_contact\<lparr> c_status := C_RETRY_SCHEDULED, c_next_retry_at := Some 0,
    c_retry_attempt_id := Some 20, c_retry_attempt_number := Some 2 \<rparr>] \<rparr>"

definition waiting_job :: recovery_job where "waiting_job = new_recovery_job 20 1 7 2"

definition noon :: instant where "noon = seconds 23400"

theorem dispatch_safe_witness:
  "\<exists>d' sch' q' j. dispatch_due plain_env noon (\<lambda>_. 99) (\<lambda>_. (True, True)) (waiting_db, [(M_retry waiting_job, 0)], empty_queue) =
      (1, d', sch', q') \<and> queue_items q' = [Readable j] \<and> may_dial plain_env noon j waiting_db"
proof -
  let ?r = "dispatch_due plain_env noon (\<lambda>_. 99) (\<lambda>_. (True, True)) (waiting_db, [(M_retry waiting_job, 0)], empty_queue)"
  have "fst ?r = 1" by code_simp
  then obtain d' sch' q' where r: "?r = (1, d', sch', q')" by (metis prod_cases4 fst_conv)
  from dispatch_safe [OF r] obtain js where js: "length js = 1" "queue_items q' = map Readable js"
      "\<forall>j \<in> set js. may_dial plain_env noon j waiting_db"
    by (auto simp: queue_items_def empty_queue_def)
  then obtain j where "js = [j]" by (cases js) auto
  with js r show ?thesis by auto
qed

definition stale_db :: db where
  "stale_db = sample_db\<lparr> attempts := [sample_attempt, sample_attempt\<lparr> a_id := 21, a_number := 2 \<rparr>],
    contacts := [sample_contact\<lparr> c_status := C_RETRY_SCHEDULED, c_next_retry_at := Some (noon + seconds 3600),
    c_retry_attempt_id := Some 21, c_retry_attempt_number := Some 3 \<rparr>] \<rparr>"

theorem stale_entry_erases_retry_witness:
  "\<exists>n d' sch' q' c'. dispatch_entry plain_env noon 99 True True (M_retry waiting_job)
      (stale_db, [(M_retry waiting_job, 0), (M_retry (new_recovery_job 21 1 7 3), noon + seconds 3600)], empty_queue) = (n, d', sch', q') \<and>
    get_contact 1 d' = Some c' \<and> c_status c' = C_RETRY_SCHEDULED \<and> retry_entry d' c' = []"
proof -
  let ?c = "sample_contact\<lparr> c_status := C_RETRY_SCHEDULED, c_next_retry_at := Some (noon + seconds 3600),
    c_retry_attempt_id := Some 21, c_retry_attempt_number := Some 3 \<rparr>"
  obtain n d' sch' q' where r: "dispatch_entry plain_env noon 99 True True (M_retry waiting_job)
      (stale_db, [(M_retry waiting_job, 0), (M_retry (new_recovery_job 21 1 7 3), noon + seconds 3600)], empty_queue) = (n, d', sch', q')"
    by (metis prod_cases4)
  have c: "get_contact (rj_contact waiting_job) stale_db = Some ?c"
    and camp: "get_campaign (rj_campaign waiting_job) stale_db = Some sample_campaign"
    and a: "get_by_contact_and_number (rj_contact waiting_job) (rj_number waiting_job) stale_db \<noteq> None"
    and s: "\<not> is_suppressed plain_env n stale_db" for n
    by (simp_all add: waiting_job_def new_recovery_job_def get_contact_def get_campaign_def get_row_Cons stale_db_def
      sample_db_def sample_contact_def sample_campaign_def is_suppressed_def empty_db_def get_by_contact_and_number_def
      sample_attempt_def)
  have w: "next_window_time plain_env sample_campaign
      (get_effective_policy (ev_settings plain_env) (camp_id sample_campaign) stale_db) noon = Inr None" by code_simp
  have "camp_status sample_campaign = CAMP_ACTIVE" by (simp add: sample_campaign_def)
  then show ?thesis using stale_entry_erases_retry [OF _ c camp _ _ _ s w a r] r
    by (auto simp: waiting_job_def new_recovery_job_def sample_contact_def)
qed

end
