(* ===== verification/Enqueue.thy ===== *)
theory Enqueue imports Recovery begin

text \<open>
  \<open>app/services/queue/enqueue_service.py\<close>: the first attempt of every waiting contact of a campaign is
  queued, page by page. Other processes change the database while the scan runs: \<open>view n\<close> is the
  database as page \<open>n\<close> reads it. The scan has no bound of its own (contacts may be added for ever), so
  the loop takes fuel; \<open>enqueue_terminates\<close> says how much is enough.
\<close>

definition MAX_ENQUEUE_PER_REQUEST :: int where "MAX_ENQUEUE_PER_REQUEST = 100000"

definition first_attempt_due :: "uuid \<Rightarrow> contact \<Rightarrow> bool" where
  "first_attempt_due camp c \<longleftrightarrow> c_campaign c = camp \<and> c_status c = C_PENDING \<and> c_attempt_count c = 0"

definition eligible_enqueue_page :: "uuid \<Rightarrow> uuid option \<Rightarrow> nat \<Rightarrow> db \<Rightarrow> (uuid \<times> string) list" where
  "eligible_enqueue_page camp after limit d =
    map (\<lambda>c. (c_id c, c_number c)) (keyset_page c_id limit after (filter (first_attempt_due camp) (contacts d)))"

record scan =
  es_discovered :: int
  es_enqueued :: int
  es_suppressed :: int
  es_duplicate :: int
  es_pages :: int
  es_complete :: bool
  es_backlog_full :: bool

definition new_scan :: scan where
  "new_scan = \<lparr> es_discovered = 0, es_enqueued = 0, es_suppressed = 0, es_duplicate = 0, es_pages = 0,
    es_complete = True, es_backlog_full = False \<rparr>"

definition first_job :: "(uuid \<Rightarrow> uuid) \<Rightarrow> uuid \<Rightarrow> uuid \<Rightarrow> dial_job" where
  "first_job mint camp contact = new_dial_job (mint contact) camp contact 1 None None"

text \<open>One page; \<open>up contact\<close> is whether Redis answers for that contact, the flag is a Redis error.\<close>

fun enqueue_items :: "settings \<Rightarrow> instant \<Rightarrow> (uuid \<Rightarrow> uuid) \<Rightarrow> uuid \<Rightarrow> string set \<Rightarrow> (uuid \<Rightarrow> bool) \<Rightarrow>
    (uuid \<times> string) list \<Rightarrow> scan \<Rightarrow> stream_queue \<Rightarrow> bool \<times> scan \<times> stream_queue" where
  "enqueue_items st now mint camp blk up [] sc q = (False, sc, q)"
| "enqueue_items st now mint camp blk up ((contact, phone) # rest) sc q =
    (if es_enqueued sc \<ge> MAX_ENQUEUE_PER_REQUEST then (False, sc\<lparr> es_complete := False \<rparr>, q)
     else if phone \<in> blk
     then enqueue_items st now mint camp blk up rest
       (sc\<lparr> es_suppressed := es_suppressed sc + 1, es_discovered := es_discovered sc + 1 \<rparr>) q
     else if \<not> up contact then (True, sc, q)
     else let j = first_job mint camp contact in
       case enqueue_once st now j (idempotency_key j) ENQUEUE_GUARD_TTL_SECONDS q of
         (BacklogFull, q1) \<Rightarrow> (False, sc\<lparr> es_complete := False, es_backlog_full := True \<rparr>, q1)
       | (Queued, q1) \<Rightarrow> enqueue_items st now mint camp blk up rest
           (sc\<lparr> es_enqueued := es_enqueued sc + 1, es_discovered := es_discovered sc + 1 \<rparr>) q1
       | (Guarded, q1) \<Rightarrow> enqueue_items st now mint camp blk up rest
           (sc\<lparr> es_duplicate := es_duplicate sc + 1, es_discovered := es_discovered sc + 1 \<rparr>) q1)"

text \<open>The scan: \<open>Inl\<close> with the counts is a Redis error, \<open>Inr\<close> the end of the loop.\<close>

fun enqueue_loop :: "nat \<Rightarrow> 'p env \<Rightarrow> instant \<Rightarrow> (uuid \<Rightarrow> uuid) \<Rightarrow> uuid \<Rightarrow> (uuid \<Rightarrow> bool) \<Rightarrow> (nat \<Rightarrow> db) \<Rightarrow> nat \<Rightarrow>
    uuid option \<Rightarrow> scan \<Rightarrow> stream_queue \<Rightarrow> ((scan + scan) \<times> stream_queue) option" where
  "enqueue_loop 0 w now mint camp up view n after sc q = None"
| "enqueue_loop (Suc fuel) w now mint camp up view n after sc q =
    (if \<not> es_complete sc then Some (Inr sc, q)
     else let d = view n;
              page = eligible_enqueue_page camp after (nat (st_enqueue_page_size (ev_settings w))) d in
       if page = [] then Some (Inr sc, q)
       else case enqueue_items (ev_settings w) now mint camp (suppressed_among w (map snd page) d) up page sc q of
           (True, sc1, q1) \<Rightarrow> Some (Inl sc1, q1)
         | (False, sc1, q1) \<Rightarrow> enqueue_loop fuel w now mint camp up view (Suc n)
             (if es_complete sc1 then Some (fst (last page)) else after)
             (sc1\<lparr> es_pages := es_pages sc1 + 1 \<rparr>) q1)"

definition scan_counts :: "scan \<Rightarrow> payload" where
  "scan_counts sc = [(''enqueued'', JInt (es_enqueued sc)), (''skipped_suppressed'', JInt (es_suppressed sc)),
    (''skipped_duplicate'', JInt (es_duplicate sc)), (''discovered'', JInt (es_discovered sc)),
    (''pages_processed'', JInt (es_pages sc)), (''complete'', JBool (es_complete sc)),
    (''backlog_full'', JBool (es_backlog_full sc))]"

text \<open>\<open>enqueue_campaign\<close>: \<open>None\<close> is out of fuel. \<open>tick\<close> and \<open>db_up\<close> belong to the kill switch; the last page's
  database receives the audit row, which every error but the missing campaign commits too.\<close>

definition enqueue_campaign :: "nat \<Rightarrow> 'p env \<Rightarrow> int \<Rightarrow> bool \<Rightarrow> instant \<Rightarrow> (uuid \<Rightarrow> uuid) \<Rightarrow> (uuid \<Rightarrow> bool) \<Rightarrow> (nat \<Rightarrow> db) \<Rightarrow>
    string \<Rightarrow> uuid \<Rightarrow> control_cache \<times> db \<times> stream_queue \<Rightarrow>
    ((app_error + scan) \<times> control_cache \<times> db \<times> stream_queue) option" where
  "enqueue_campaign fuel w tick db_up now mint up view actor camp s =
    (case s of (cache, d, q) \<Rightarrow>
      let seen = (\<lambda>n. if n = 0 then d else view n);
          audit = (\<lambda>action meta. record_audit_event actor action ''campaign'' (Some camp) meta) in
      case get_campaign camp d of
        None \<Rightarrow> Some (Inl NotFoundError, cache, d, q)
      | Some c \<Rightarrow>
          if camp_status c \<noteq> CAMP_ACTIVE
          then Some (Inl (ValidationError (campaign_status_value (camp_status c))), cache, d, q)
          else case kill_switch_block_reason (ev_settings w) tick db_up (cache, d) of
            (Some r, cache1) \<Rightarrow>
              if r = ''kill_switch_unavailable''
              then Some (Inl (ServiceUnavailableError ''control''), cache1, d, q)
              else Some (Inl (ConflictError ''kill_switch''), cache1,
                audit ''campaign.enqueue_blocked'' [(''reason'', JStr r)] d, q)
          | (None, cache1) \<Rightarrow>
              (case enqueue_loop fuel w now mint camp up seen 0 None new_scan q of
                 None \<Rightarrow> None
               | Some (Inl sc, q1) \<Rightarrow> Some (Inl (ServiceUnavailableError ''queue''), cache1,
                   audit ''campaign.enqueue_failed'' [(''enqueued'', JInt (es_enqueued sc)),
                     (''discovered'', JInt (es_discovered sc)), (''pages_processed'', JInt (es_pages sc))]
                     (seen (nat (es_pages sc))), q1)
               | Some (Inr sc, q1) \<Rightarrow> Some (Inr sc, cache1,
                   audit ''campaign.enqueued'' (scan_counts sc) (seen (nat (es_pages sc))), q1)))"

text \<open>\<open>requeue_after_resume\<close>: the resume has happened; the refusals of the enqueue are swallowed.\<close>

definition requeue_after_resume :: "nat \<Rightarrow> 'p env \<Rightarrow> int \<Rightarrow> bool \<Rightarrow> instant \<Rightarrow> (uuid \<Rightarrow> uuid) \<Rightarrow> (uuid \<Rightarrow> bool) \<Rightarrow>
    (nat \<Rightarrow> db) \<Rightarrow> string \<Rightarrow> uuid \<Rightarrow> control_cache \<times> db \<times> stream_queue \<Rightarrow>
    ((app_error + scan option) \<times> control_cache \<times> db \<times> stream_queue) option" where
  "requeue_after_resume fuel w tick db_up now mint up view actor camp s =
    map_option (\<lambda>(r, s'). (case r of
        Inr sc \<Rightarrow> Inr (Some sc)
      | Inl (ConflictError _) \<Rightarrow> Inr None
      | Inl (ServiceUnavailableError _) \<Rightarrow> Inr None
      | Inl (ValidationError _) \<Rightarrow> Inr None
      | Inl e \<Rightarrow> Inl e, s'))
      (enqueue_campaign fuel w tick db_up now mint up view actor camp s)"

section \<open>What the scan adds\<close>

lemma first_job_key [simp]: "idempotency_key (first_job mint camp c) = (camp, c, 1)"
  by (simp add: first_job_def new_dial_job_def idempotency_key_def)

lemma add_each_append:
  "add_each add (xs @ ys) s = (case add_each add xs s of (n1, s1) \<Rightarrow> case add_each add ys s1 of (n2, s2) \<Rightarrow> (n1 @ n2, s2))"
proof (induction xs arbitrary: s)
  case (Cons x xs)
  obtain k j where "x = (k, j)" by (metis surj_pair)
  with Cons show ?case by (auto split: prod.splits)
qed simp

definition tallied :: "scan \<Rightarrow> bool" where
  "tallied sc \<longleftrightarrow> es_discovered sc = es_enqueued sc + es_suppressed sc + es_duplicate sc \<and>
    es_enqueued sc \<le> MAX_ENQUEUE_PER_REQUEST"

lemma tallied_pages [simp]: "tallied (sc\<lparr> es_pages := n \<rparr>) = tallied sc"
  by (simp add: tallied_def)

definition page_jobs :: "(uuid \<Rightarrow> uuid) \<Rightarrow> uuid \<Rightarrow> string set \<Rightarrow> (uuid \<times> string) list \<Rightarrow> (idem_key \<times> dial_job) set" where
  "page_jobs mint camp blk page = {((camp, c, 1), first_job mint camp c) | c. \<exists>phone. (c, phone) \<in> set page \<and> phone \<notin> blk}"

lemma page_jobs_Cons: "page_jobs mint camp blk page \<subseteq> page_jobs mint camp blk (x # page)"
  by (auto simp: page_jobs_def)

definition added_from :: "settings \<Rightarrow> instant \<Rightarrow> (idem_key \<times> dial_job) set \<Rightarrow> scan \<Rightarrow> scan \<Rightarrow> stream_queue \<Rightarrow> stream_queue \<Rightarrow> bool" where
  "added_from st now jobs sc sc' q q' \<longleftrightarrow> (\<exists>kjs new. add_each (add_guarded st now) kjs q = (new, q') \<and> set kjs \<subseteq> jobs \<and>
    int (length new) = es_enqueued sc' - es_enqueued sc)"

lemma added_from_refl: "es_enqueued sc' = es_enqueued sc \<Longrightarrow> added_from st now jobs sc sc' q q"
  unfolding added_from_def by (intro exI [of _ "[]"] exI [of _ "[]"]) simp

lemma added_from_trans:
  assumes "added_from st now A sc sc1 q q1" "added_from st now B sc1 sc2 q1 q2"
  shows "added_from st now (A \<union> B) sc sc2 q q2"
proof -
  from assms obtain k1 n1 k2 n2 where a: "add_each (add_guarded st now) k1 q = (n1, q1)" "set k1 \<subseteq> A"
    "int (length n1) = es_enqueued sc1 - es_enqueued sc" "add_each (add_guarded st now) k2 q1 = (n2, q2)"
    "set k2 \<subseteq> B" "int (length n2) = es_enqueued sc2 - es_enqueued sc1"
    unfolding added_from_def by blast
  then show ?thesis unfolding added_from_def
    by (intro exI [of _ "k1 @ k2"] exI [of _ "n1 @ n2"]) (auto simp: add_each_append)
qed

lemma added_from_mono: "added_from st now A sc sc' q q' \<Longrightarrow> A \<subseteq> B \<Longrightarrow> added_from st now B sc sc' q q'"
  unfolding added_from_def by blast

lemma added_from_one:
  assumes "add_guarded st now k j q = (b, q')" "(k, j) \<in> A" "es_enqueued sc' = es_enqueued sc + (if b then 1 else 0)"
  shows "added_from st now A sc sc' q q'"
  unfolding added_from_def using assms
  by (intro exI [of _ "[(k, j)]"] exI [of _ "if b then [(k, j)] else []"]) auto

lemma enqueue_items_result:
  assumes "enqueue_items st now mint camp blk up page sc q = (err, sc', q')" "tallied sc"
  shows "tallied sc' \<and> added_from st now (page_jobs mint camp blk page) sc sc' q q' \<and>
    (\<forall>k. guard_live now k q \<longrightarrow> guard_live now k q') \<and> es_pages sc' = es_pages sc \<and>
    (\<not> err \<and> es_complete sc' \<longrightarrow> es_complete sc \<and>
      (\<forall>c phone. (c, phone) \<in> set page \<and> phone \<notin> blk \<longrightarrow> guard_live now (camp, c, 1) q'))"
  using assms
proof (induction page arbitrary: sc q)
  case (Cons x page)
  obtain c phone where x: "x = (c, phone)" by (metis surj_pair)
  let ?j = "first_job mint camp c"
  consider (cap) "es_enqueued sc \<ge> MAX_ENQUEUE_PER_REQUEST"
    | (blocked) "es_enqueued sc < MAX_ENQUEUE_PER_REQUEST" "phone \<in> blk"
    | (down) "es_enqueued sc < MAX_ENQUEUE_PER_REQUEST" "phone \<notin> blk" "\<not> up c"
    | (go) "es_enqueued sc < MAX_ENQUEUE_PER_REQUEST" "phone \<notin> blk" "up c" by linarith
  then show ?case
  proof cases
    case blocked
    let ?sc = "sc\<lparr> es_suppressed := es_suppressed sc + 1, es_discovered := es_discovered sc + 1 \<rparr>"
    have e: "enqueue_items st now mint camp blk up page ?sc q = (err, sc', q')" "tallied ?sc"
      using Cons.prems blocked x by (auto simp: tallied_def)
    have "added_from st now (page_jobs mint camp blk page) sc sc' q q'"
      using Cons.IH [OF e] by (auto simp: added_from_def)
    then have "added_from st now (page_jobs mint camp blk (x # page)) sc sc' q q'"
      by (rule added_from_mono [OF _ page_jobs_Cons])
    then show ?thesis using Cons.IH [OF e] blocked x by auto
  next
    case go
    have step: ?thesis if e: "enqueue_items st now mint camp blk up page sc1 q1 = (err, sc', q')" and t: "tallied sc1"
        and a: "add_guarded st now (camp, c, 1) ?j q = (b, q1)" and n: "es_enqueued sc1 = es_enqueued sc + (if b then 1 else 0)"
        and g: "guard_live now (camp, c, 1) q1" and p: "es_pages sc1 = es_pages sc" "es_complete sc1 = es_complete sc" for sc1 q1 b
    proof -
      note IH = Cons.IH [OF e t]
      have one: "added_from st now {((camp, c, 1), ?j)} sc sc1 q q1" by (rule added_from_one [OF a _ n]) simp
      have "added_from st now (page_jobs mint camp blk page) sc1 sc' q1 q'" using IH by blast
      from added_from_trans [OF one this] have "added_from st now (page_jobs mint camp blk (x # page)) sc sc' q q'"
        by (rule added_from_mono) (use go x in \<open>auto simp: page_jobs_def\<close>)
      moreover have "\<forall>k. guard_live now k q \<longrightarrow> guard_live now k q1" using dial_guard.guard_kept a by blast
      ultimately show ?thesis using IH g p x by auto
    qed
    show ?thesis
    proof (rule enqueue_once_cases [of st now ?j "idempotency_key ?j" ENQUEUE_GUARD_TTL_SECONDS q])
      fix q1 assume qd: "enqueue_once st now ?j (idempotency_key ?j) ENQUEUE_GUARD_TTL_SECONDS q = (Queued, q1)"
      show ?thesis
        by (rule step [of "sc\<lparr> es_enqueued := es_enqueued sc + 1, es_discovered := es_discovered sc + 1 \<rparr>" q1 True])
           (use Cons.prems go x qd enqueue_once_guards [OF qd] in \<open>auto simp: tallied_def add_guarded_def Let_def\<close>)
    next
      assume gd: "enqueue_once st now ?j (idempotency_key ?j) ENQUEUE_GUARD_TTL_SECONDS q = (Guarded, q)"
        "guard_live now (idempotency_key ?j) q"
      show ?thesis
        by (rule step [of "sc\<lparr> es_duplicate := es_duplicate sc + 1, es_discovered := es_discovered sc + 1 \<rparr>" q False])
           (use Cons.prems go x gd in \<open>auto simp: tallied_def add_guarded_def Let_def\<close>)
    next
      assume "enqueue_once st now ?j (idempotency_key ?j) ENQUEUE_GUARD_TTL_SECONDS q = (BacklogFull, q)"
      then show ?thesis using Cons.prems go x by (auto simp: Let_def tallied_def intro: added_from_refl)
    qed
  qed (use Cons.prems x in \<open>auto simp: tallied_def intro: added_from_refl\<close>)
qed (auto intro: added_from_refl)

section \<open>The whole scan\<close>

text \<open>The jobs a scan may add: contacts some page found waiting and not suppressed.\<close>

definition scan_jobs :: "'p env \<Rightarrow> (uuid \<Rightarrow> uuid) \<Rightarrow> uuid \<Rightarrow> (nat \<Rightarrow> db) \<Rightarrow> (idem_key \<times> dial_job) set" where
  "scan_jobs w mint camp view = {((camp, k, 1), first_job mint camp k) | k.
    \<exists>n. \<exists>c \<in> set (contacts (view n)). c_id c = k \<and> first_attempt_due camp c \<and> \<not> is_suppressed w (c_number c) (view n)}"

lemma page_contact: "(k, phone) \<in> set (eligible_enqueue_page camp after sz d) \<Longrightarrow>
    \<exists>c \<in> set (contacts d). c_id c = k \<and> c_number c = phone \<and> first_attempt_due camp c"
  by (auto simp: eligible_enqueue_page_def dest!: keyset_page_past)

lemma page_jobs_scan:
  assumes "page = eligible_enqueue_page camp after sz (view n)"
  shows "page_jobs mint camp (suppressed_among w (map snd page) (view n)) page \<subseteq> scan_jobs w mint camp view"
proof
  fix x assume "x \<in> page_jobs mint camp (suppressed_among w (map snd page) (view n)) page"
  then obtain k phone where x: "x = ((camp, k, 1), first_job mint camp k)" "(k, phone) \<in> set page"
    "phone \<notin> suppressed_among w (map snd page) (view n)" by (auto simp: page_jobs_def)
  then have "\<not> is_suppressed w phone (view n)" by (force simp: suppressed_among_set)
  moreover obtain c where "c \<in> set (contacts (view n))" "c_id c = k" "c_number c = phone" "first_attempt_due camp c"
    using page_contact x(2) assms by blast
  ultimately show "x \<in> scan_jobs w mint camp view" using x(1) by (auto simp: scan_jobs_def)
qed

lemma enqueue_loop_added:
  assumes "enqueue_loop fuel w now mint camp up view n after sc q = Some (r, q')" "tallied sc"
  shows "\<exists>sc'. (r = Inl sc' \<or> r = Inr sc') \<and> tallied sc' \<and>
    added_from (ev_settings w) now (scan_jobs w mint camp view) sc sc' q q'"
  using assms
proof (induction fuel arbitrary: n after sc q)
  case (Suc fuel)
  let ?page = "eligible_enqueue_page camp after (nat (st_enqueue_page_size (ev_settings w))) (view n)"
  let ?blk = "suppressed_among w (map snd ?page) (view n)"
  obtain err sc1 q1 where i: "enqueue_items (ev_settings w) now mint camp ?blk up ?page sc q = (err, sc1, q1)" by (metis prod_cases3)
  note res = enqueue_items_result [OF i Suc.prems(2)]
  have one: "added_from (ev_settings w) now (scan_jobs w mint camp view) sc sc1 q q1"
    by (rule added_from_mono [OF _ page_jobs_scan [OF refl]]) (use res in blast)
  show ?case
  proof (cases "es_complete sc \<and> ?page \<noteq> [] \<and> \<not> err")
    case False
    then consider (stopped) "\<not> es_complete sc \<or> ?page = []" | (failed) "es_complete sc" "?page \<noteq> []" err by blast
    then show ?thesis
    proof cases
      case stopped
      then have "r = Inr sc \<and> q' = q" using Suc.prems(1) by (auto simp: Let_def split: if_splits)
      then show ?thesis using Suc.prems(2) added_from_refl by blast
    next
      case failed
      then have "r = Inl sc1 \<and> q' = q1" using Suc.prems(1) i by (simp add: Let_def)
      then show ?thesis using res one by blast
    qed
  next
    case True
    let ?sc2 = "sc1\<lparr> es_pages := es_pages sc1 + 1 \<rparr>"
    obtain after' where "enqueue_loop fuel w now mint camp up view (Suc n) after' ?sc2 q1 = Some (r, q')"
      using Suc.prems(1) i True by (auto simp: Let_def)
    from Suc.IH [OF this] res obtain sc' where sc': "r = Inl sc' \<or> r = Inr sc'" "tallied sc'"
      "added_from (ev_settings w) now (scan_jobs w mint camp view) ?sc2 sc' q1 q'" by auto
    then have "added_from (ev_settings w) now (scan_jobs w mint camp view) sc1 sc' q1 q'" by (simp add: added_from_def)
    from added_from_trans [OF one this] sc' show ?thesis by auto
  qed
qed simp

text \<open>
  C25: whatever other processes do to the database between the pages and however the scan ends (done,
  request limit, full queue, Redis error), the scan adds to the queue only first attempts of contacts of
  this campaign that some page found waiting, never attempted and not suppressed; each at most once and
  none whose guard stood; the count it reports is the number added, at most the limit per request, and
  the contacts handled are those queued, suppressed or already queued.
\<close>

theorem enqueue_adds_due_contacts:
  assumes "enqueue_loop fuel w now mint camp up view 0 None new_scan q = Some (r, q')"
  shows "\<exists>sc new. (r = Inl sc \<or> r = Inr sc) \<and> queue_items q' = queue_items q @ map (Readable \<circ> snd) new \<and>
    distinct (map fst new) \<and> set new \<subseteq> scan_jobs w mint camp view \<and>
    (\<forall>k \<in> fst ` set new. \<not> guard_live now k q) \<and>
    es_enqueued sc = int (length new) \<and> es_enqueued sc \<le> MAX_ENQUEUE_PER_REQUEST \<and>
    es_discovered sc = es_enqueued sc + es_suppressed sc + es_duplicate sc"
proof -
  have "tallied new_scan" by (simp add: tallied_def new_scan_def MAX_ENQUEUE_PER_REQUEST_def)
  from enqueue_loop_added [OF assms this] obtain sc kjs new where s: "r = Inl sc \<or> r = Inr sc" "tallied sc"
    "add_each (add_guarded (ev_settings w) now) kjs q = (new, q')" "set kjs \<subseteq> scan_jobs w mint camp view"
    "int (length new) = es_enqueued sc - es_enqueued new_scan" unfolding added_from_def by blast
  have "set new \<subseteq> set kjs" using s(3)
  proof (induction kjs arbitrary: q new)
    case (Cons kj kjs)
    obtain k j where kj: "kj = (k, j)" by (metis surj_pair)
    obtain b q1 where a: "add_guarded (ev_settings w) now k j q = (b, q1)" by (metis surj_pair)
    obtain new1 q2 where n: "add_each (add_guarded (ev_settings w) now) kjs q1 = (new1, q2)" by (metis surj_pair)
    then have "q2 = q'" "new = (if b then (k, j) # new1 else new1)" using Cons.prems kj a by auto
    with n Cons.IH kj show ?case by auto
  qed simp
  with s dial_guard.add_each_once [OF s(3)] show ?thesis
    by (intro exI [of _ sc] exI [of _ new]) (auto simp: tallied_def new_scan_def)
qed

section \<open>The scan ends\<close>

text \<open>
  The scan ends. If the contacts seen during the scan come from a finite set of ids, two more rounds
  than that set has elements are enough fuel, whatever the pages hold and however Redis fails.
\<close>

theorem enqueue_terminates:
  assumes "\<And>n. c_id ` set (contacts (view n)) \<subseteq> ids" "finite ids" "card ids + 2 \<le> fuel"
  shows "enqueue_loop fuel w now mint camp up view n None sc q \<noteq> None"
proof -
  let ?left = "\<lambda>after. card {k \<in> ids. case after of None \<Rightarrow> True | Some a \<Rightarrow> a < k}"
  have "?left after + 2 \<le> fuel \<Longrightarrow> enqueue_loop fuel w now mint camp up view n after sc q \<noteq> None" for fuel after n sc q
  proof (induction fuel arbitrary: n after sc q)
    case (Suc fuel)
    let ?page = "eligible_enqueue_page camp after (nat (st_enqueue_page_size (ev_settings w))) (view n)"
    obtain err sc1 q1 where i: "enqueue_items (ev_settings w) now mint camp (suppressed_among w (map snd ?page) (view n)) up ?page sc q
      = (err, sc1, q1)" by (metis prod_cases3)
    show ?case
    proof (cases "es_complete sc \<and> ?page \<noteq> [] \<and> \<not> err")
      case True
      have "last ?page \<in> set ?page" using True by simp
      then have "(fst (last ?page), snd (last ?page)) \<in> set ?page" by simp
      then obtain c where c: "c \<in> set (contacts (view n))" "c_id c = fst (last ?page)" "past c_id after c"
        unfolding eligible_enqueue_page_def by (auto dest!: keyset_page_past)
      have k: "c_id c \<in> ids" using c(1) assms(1) by blast
      have "c_id c \<in> {k \<in> ids. case after of None \<Rightarrow> True | Some a \<Rightarrow> a < k}" "c_id c \<notin> {k \<in> ids. fst (last ?page) < k}"
        using k c by (auto simp: past_def split: option.splits)
      moreover have "{k \<in> ids. fst (last ?page) < k} \<subseteq> {k \<in> ids. case after of None \<Rightarrow> True | Some a \<Rightarrow> a < k}"
        using c(2,3) by (auto simp: past_def split: option.splits)
      ultimately have "{k \<in> ids. fst (last ?page) < k} \<subset> {k \<in> ids. case after of None \<Rightarrow> True | Some a \<Rightarrow> a < k}"
        by blast
      then have less: "?left (Some (fst (last ?page))) < ?left after" using assms(2) by (simp add: psubset_card_mono)
      show ?thesis
      proof (cases "es_complete sc1")
        case True
        then show ?thesis using Suc i \<open>_ \<and> _ \<and> _\<close> less by (simp add: Let_def)
      next
        case False
        obtain f where "fuel = Suc f" using Suc.prems by (cases fuel) auto
        then show ?thesis using False i \<open>_ \<and> _ \<and> _\<close> by (simp add: Let_def)
      qed
    qed (use i in \<open>auto simp: Let_def split: if_splits\<close>)
  qed simp
  then show ?thesis using assms(3) by simp
qed

section \<open>Witnesses\<close>

definition small_env :: "string env" where
  "small_env = plain_env\<lparr> ev_settings := default_settings\<lparr> st_enqueue_page_size := 2 \<rparr> \<rparr>"

definition pending_db :: db where
  "pending_db = empty_db\<lparr> contacts := [sample_contact\<lparr> c_status := C_PENDING, c_attempt_count := 0 \<rparr>],
    campaigns := [sample_campaign] \<rparr>"

lemma small_run:
  "case enqueue_loop 3 small_env 0 (\<lambda>k. k) 7 (\<lambda>_. True) (\<lambda>_. pending_db) 0 None new_scan empty_queue of
     Some (Inr sc, _) \<Rightarrow> es_complete sc \<and> es_enqueued sc = 1 | _ \<Rightarrow> False"
  by code_simp

lemma small_run_result:
  obtains sc q' where "enqueue_loop 3 small_env 0 (\<lambda>k. k) 7 (\<lambda>_. True) (\<lambda>_. pending_db) 0 None new_scan empty_queue =
    Some (Inr sc, q')" "es_complete sc" "es_enqueued sc = 1"
  using small_run by (auto split: option.splits sum.splits)

theorem enqueue_adds_due_contacts_witness:
  "\<exists>sc q'. enqueue_loop 3 small_env 0 (\<lambda>k. k) 7 (\<lambda>_. True) (\<lambda>_. pending_db) 0 None new_scan empty_queue = Some (Inr sc, q') \<and>
    length (queue_items q') = 1"
proof -
  obtain sc q' where r: "enqueue_loop 3 small_env 0 (\<lambda>k. k) 7 (\<lambda>_. True) (\<lambda>_. pending_db) 0 None new_scan empty_queue =
    Some (Inr sc, q')" "es_enqueued sc = 1" by (rule small_run_result)
  have "queue_items empty_queue = []" by (simp add: queue_items_def empty_queue_def)
  with enqueue_adds_due_contacts [OF r(1)] r show ?thesis by auto
qed

theorem enqueue_terminates_witness:
  "enqueue_loop 3 small_env 0 (\<lambda>k. k) 7 (\<lambda>_. False) (\<lambda>_. pending_db) 0 None new_scan empty_queue \<noteq> None"
  by (rule enqueue_terminates [of _ "{1}"]) (simp_all add: pending_db_def sample_contact_def)

end
