(* ===== verification/Schedule_Contract.thy ===== *)
theory Schedule_Contract imports Enqueue begin

text \<open>
  What the recovery scheduler and the enqueue scan owe to PostgreSQL: a dial that is owed stays in the schedule or
  becomes a job, the rebuild restores every owed retry, and a complete scan leaves nobody out.
\<close>

section \<open>Guards and jobs\<close>

text \<open>A job of this idempotency key stands in the queue.\<close>

definition in_queue :: "idem_key \<Rightarrow> stream_queue \<Rightarrow> bool" where
  "in_queue k q \<longleftrightarrow> (\<exists>j. Readable j \<in> set (queue_items q) \<and> idempotency_key j = k)"

lemma add_guarded_guard:
  "add_guarded st now k j q = (b, q') \<Longrightarrow> guard_live now k' q' \<Longrightarrow> guard_live now k' q \<or> b \<and> k' = k"
  by (auto simp: add_guarded_def enqueue_once_def Let_def xadd_def guard_live_def split: if_splits)

lemma add_each_guard:
  "add_each (add_guarded st now) kjs q = (new, q') \<Longrightarrow> guard_live now k q' \<Longrightarrow> guard_live now k q \<or> k \<in> fst ` set new"
proof (induction kjs arbitrary: q new)
  case (Cons kj kjs)
  obtain k0 j where kj: "kj = (k0, j)" by (metis surj_pair)
  obtain b q1 where a: "add_guarded st now k0 j q = (b, q1)" by (metis surj_pair)
  obtain new1 q2 where n: "add_each (add_guarded st now) kjs q1 = (new1, q2)" by (metis surj_pair)
  then have e: "q2 = q'" "new = (if b then (k0, j) # new1 else new1)" using Cons.prems(1) kj a by auto
  from Cons.IH [OF n [unfolded e(1)] Cons.prems(2)] add_guarded_guard [OF a, of k] show ?case by (auto simp: e(2))
qed simp

lemma add_each_subset: "add_each add kjs q = (new, q') \<Longrightarrow> set new \<subseteq> set kjs"
proof (induction kjs arbitrary: q new)
  case (Cons kj kjs)
  obtain k j where kj: "kj = (k, j)" by (metis surj_pair)
  obtain b q1 where a: "add k j q = (b, q1)" by (metis surj_pair)
  obtain new1 q2 where n: "add_each add kjs q1 = (new1, q2)" by (metis surj_pair)
  then have "q2 = q'" "new = (if b then (k, j) # new1 else new1)" using Cons.prems kj a by auto
  with n Cons.IH kj show ?case by auto
qed simp

lemma enqueue_once_queued:
  assumes "enqueue_once st now j k ttl q = (Queued, q')"
  shows "queue_items q' = queue_items q @ [Readable j] \<and> (\<forall>k'. guard_live now k' q' \<longrightarrow> guard_live now k' q \<or> k' = k)"
  using assms by (auto simp: enqueue_once_def Let_def xadd_def queue_items_def guard_live_def split: if_splits)

section \<open>Nothing owed is dropped\<close>

fun member_key :: "sched_member \<Rightarrow> idem_key" where
  "member_key (M_retry j) = (rj_campaign j, rj_contact j, rj_number j)"
| "member_key (M_dial j) = idempotency_key j"

text \<open>The dial of an entry is still owed: its contact waits for it and nothing blocks it for good.\<close>

fun owed :: "'p env \<Rightarrow> sched_member \<Rightarrow> db \<Rightarrow> bool" where
  "owed w (M_retry j) d \<longleftrightarrow> (\<exists>c camp. get_contact (rj_contact j) d = Some c \<and> get_campaign (rj_campaign j) d = Some camp \<and>
    c_status c = C_RETRY_SCHEDULED \<and> c_purged_at c = None \<and> \<not> is_suppressed w (c_number c) d \<and>
    camp_status camp \<noteq> CAMP_COMPLETED \<and> get_by_contact_and_number (rj_contact j) (rj_number j) d = None)"
| "owed w (M_dial j) d \<longleftrightarrow> (\<exists>c camp. get_contact (dj_contact j) d = Some c \<and> get_campaign (dj_campaign j) d = Some camp \<and>
    c_status c = C_PENDING \<and> c_attempt_count c = 0 \<and> \<not> is_suppressed w (c_number c) d \<and>
    camp_status camp \<in> {CAMP_ACTIVE, CAMP_PAUSED})"

lemma moved_to_keeps: "moved_to up m t f (d, sch, q) = (Inr n, d', sch', q') \<Longrightarrow> m \<in> fst ` set sch'"
  by (auto simp: moved_to_def reschedule_def split: if_splits)

lemma owed_processed:
  assumes "process_member w now i up m (d, sch, q) = (Inr n, d', sch', q')" "owed w m d"
  shows "m \<in> fst ` set sch' \<or> in_queue (member_key m) q' \<or> guard_live now (member_key m) q"
proof (cases m)
  case (M_dial dj)
  with assms(2) obtain c camp where c: "get_contact (dj_contact dj) d = Some c" "get_campaign (dj_campaign dj) d = Some camp"
    "c_status c = C_PENDING" "c_attempt_count c = 0" "\<not> is_suppressed w (c_number c) d"
    "camp_status camp = CAMP_ACTIVE \<or> camp_status camp = CAMP_PAUSED" by auto
  show ?thesis
  proof (rule enqueue_once_cases [of "ev_settings w" now dj "idempotency_key dj" ENQUEUE_GUARD_TTL_SECONDS q])
    fix q1 assume e: "enqueue_once (ev_settings w) now dj (idempotency_key dj) ENQUEUE_GUARD_TTL_SECONDS q = (Queued, q1)"
    have "in_queue (member_key m) q1" using enqueue_once_queued [OF e] M_dial by (auto simp: in_queue_def)
    then show ?thesis using assms(1) c M_dial e
      by (auto simp: process_deferred_dial_def Let_def reschedule_def split: if_splits sum.splits option.splits dest!: moved_to_keeps)
  qed (use assms(1) c M_dial in \<open>auto simp: process_deferred_dial_def Let_def reschedule_def split: if_splits sum.splits option.splits
          dest!: moved_to_keeps\<close>)
next
  case (M_retry j)
  with assms(2) obtain c camp where c: "get_contact (rj_contact j) d = Some c" "get_campaign (rj_campaign j) d = Some camp"
    "c_status c = C_RETRY_SCHEDULED" "c_purged_at c = None" "\<not> is_suppressed w (c_number c) d"
    "camp_status camp \<noteq> CAMP_COMPLETED" "get_by_contact_and_number (rj_contact j) (rj_number j) d = None" by auto
  have ids: "c_id c = rj_contact j" "camp_id camp = rj_campaign j"
    using get_contact_id [OF c(1)] get_campaign_id' [OF c(2)] by simp_all
  let ?dj = "new_dial_job i (camp_id camp) (c_id c) (rj_number j) (Some RECONNECT) (Some (rj_attempt j))"
  have k: "idempotency_key ?dj = member_key m" using M_retry ids by (simp add: idempotency_key_def new_dial_job_def)
  show ?thesis
  proof (rule enqueue_once_cases [of "ev_settings w" now ?dj "idempotency_key ?dj" ENQUEUE_GUARD_TTL_SECONDS q])
    fix q1 assume e: "enqueue_once (ev_settings w) now ?dj (idempotency_key ?dj) ENQUEUE_GUARD_TTL_SECONDS q = (Queued, q1)"
    have "in_queue (member_key m) q1" using enqueue_once_queued [OF e] k by (auto simp: in_queue_def)
    then show ?thesis using assms(1) c M_retry k ids e
      by (auto simp: process_one_def Let_def reschedule_def split: if_splits sum.splits option.splits dest!: moved_to_keeps)
  qed (use assms(1) c M_retry k ids in \<open>auto simp: process_one_def Let_def reschedule_def split: if_splits sum.splits option.splits
          dest!: moved_to_keeps\<close>)
qed

text \<open>The other entries stay where they are.\<close>

lemma moved_to_others: "moved_to up m t f (d, sch, q) = (r, d', sch', q') \<Longrightarrow> k \<in> fst ` set sch \<Longrightarrow> k \<in> fst ` set sch'"
  by (auto simp: moved_to_def reschedule_def split: if_splits del: imageE)

lemma process_member_others:
  assumes "process_member w now i up m (d, sch, q) = (r, d', sch', q')" "k \<in> fst ` set sch"
  shows "k \<in> fst ` set sch'"
proof (cases m)
  case (M_retry j)
  with assms show ?thesis
    by (auto simp: process_one_def Let_def reschedule_def split: if_splits sum.splits option.splits prod.splits enqueue_outcome.splits
      dest: moved_to_others del: imageE)
next
  case (M_dial j)
  with assms show ?thesis
    by (auto simp: process_deferred_dial_def Let_def reschedule_def split: if_splits sum.splits option.splits prod.splits enqueue_outcome.splits
      dest: moved_to_others del: imageE)
qed

lemma claimed_others: "k \<noteq> m \<Longrightarrow> k \<in> fst ` set sch \<Longrightarrow> k \<in> fst ` set (filter (\<lambda>(k, _). k \<noteq> m) sch)"
  by force

lemma entry_others:
  assumes "dispatch_entry w now i up up2 m (d, sch, q) = (n, d', sch', q')" "k \<noteq> m" "k \<in> fst ` set sch"
  shows "k \<in> fst ` set sch'"
proof (cases "m \<in> fst ` set sch")
  case True
  let ?sch = "filter (\<lambda>(k, _). k \<noteq> m) sch"
  obtain r d1 s1 q1 where p: "process_member w now i up m (d, ?sch, q) = (r, d1, s1, q1)" by (metis prod_cases4)
  have "k \<in> fst ` set s1" by (rule process_member_others [OF p claimed_others [OF assms(2,3)]])
  then show ?thesis using assms(1) True p by (cases r) (auto simp: dispatch_entry_def claim_member_def split: if_splits del: imageE)
qed (use assms in \<open>auto simp: dispatch_entry_def claim_member_def del: imageE\<close>)

lemma entry_owed:
  assumes "dispatch_entry w now i up True m (d, sch, q) = (n, d', sch', q')" "m \<in> fst ` set sch" "owed w m d"
  shows "m \<in> fst ` set sch' \<or> in_queue (member_key m) q' \<or> guard_live now (member_key m) q"
proof -
  let ?s = "(d, filter (\<lambda>(k, _). k \<noteq> m) sch, q)"
  obtain r d1 s1 q1 where p: "process_member w now i up m ?s = (r, d1, s1, q1)" by (metis prod_cases4)
  show ?thesis
  proof (cases r)
    case (Inl u)
    with assms p show ?thesis by (auto simp: dispatch_entry_def claim_member_def)
  next
    case (Inr k)
    with assms(1,2) p have e: "sch' = s1" "q' = q1" by (auto simp: dispatch_entry_def claim_member_def)
    from p Inr have "process_member w now i up m ?s = (Inr k, d1, s1, q1)" by simp
    from owed_processed [OF this assms(3)] show ?thesis unfolding e .
  qed
qed

text \<open>An entry only appends to the queue, and a guard it sets has its job there; the dial stays owed.\<close>

lemma entry_queue:
  assumes "dispatch_entry w now i up up2 m (d, sch, q) = (n, d', sch', q')"
  shows "(in_queue k q \<longrightarrow> in_queue k q') \<and> (guard_live now k q' \<longrightarrow> guard_live now k q \<or> in_queue k q')"
  using dispatch_entry_result [OF assms]
proof (cases rule: entry_result_cases)
  case (added j)
  have "queue_items q' = queue_items q @ [Readable j]" using dial_guard.added [OF added(3)] by simp
  then show ?thesis using add_guarded_guard [OF added(3), of k] by (auto simp: in_queue_def)
qed simp

lemma schedule_only_campaign: "schedule_only d d' \<Longrightarrow> get_campaign i d' = get_campaign i d \<and> attempts d' = attempts d \<and>
    suppressions d' = suppressions d"
  by (simp add: schedule_only_def get_campaign_def)

lemma schedule_only_contact':
  assumes "schedule_only d d'" "get_contact i d = Some c"
  shows "\<exists>c'. get_contact i d' = Some c' \<and> c_status c' = c_status c \<and> c_number c' = c_number c \<and>
    c_attempt_count c' = c_attempt_count c \<and> c_purged_at c' = c_purged_at c"
proof -
  have "map_option unscheduled (get_contact i d') = map_option unscheduled (get_contact i d)"
    using assms(1) by (simp add: schedule_only_def get_contact_def) (rule get_row_map, auto simp: unscheduled_def)
  then obtain c' where "get_contact i d' = Some c'" using assms(2) by auto
  with schedule_only_contact [OF assms(1) this] assms(2) show ?thesis by auto
qed

lemma owed_schedule_only:
  assumes "schedule_only d d'" "owed w m d"
  shows "owed w m d'"
proof -
  note s = schedule_only_campaign [OF assms(1)]
  have sup: "is_suppressed w n d' = is_suppressed w n d" for n using s by (simp add: is_suppressed_def)
  have num: "get_by_contact_and_number a b d' = get_by_contact_and_number a b d" for a b
    using s by (simp add: get_by_contact_and_number_def)
  show ?thesis
  proof (cases m)
    case (M_retry j)
    with assms(2) obtain c where c: "get_contact (rj_contact j) d = Some c" by auto
    from schedule_only_contact' [OF assms(1) c] assms(2) M_retry s sup num c show ?thesis by auto
  next
    case (M_dial j)
    with assms(2) obtain c where c: "get_contact (dj_contact j) d = Some c" by auto
    from schedule_only_contact' [OF assms(1) c] assms(2) M_dial s sup num c show ?thesis by auto
  qed
qed

lemma members_guards:
  assumes "dispatch_members w now mint redis ms (d, sch, q) = (n, d', sch', q')" "guard_live now k q'"
  shows "guard_live now k q \<or> in_queue k q'"
proof -
  have "(in_queue k q \<longrightarrow> in_queue k q') \<and> (guard_live now k q' \<longrightarrow> guard_live now k q \<or> in_queue k q')"
    using assms(1)
  proof (induction ms arbitrary: d sch q n)
    case (Cons m ms)
    obtain n1 d1 sch1 q1 where e: "dispatch_entry w now (mint m) (fst (redis m)) (snd (redis m)) m (d, sch, q) = (n1, d1, sch1, q1)"
      by (metis prod_cases4)
    obtain n2 where r: "dispatch_members w now mint redis ms (d1, sch1, q1) = (n2, d', sch', q')"
      using Cons.prems e by (auto split: prod.splits)
    from Cons.IH [OF r] entry_queue [OF e, of k] show ?case by blast
  qed simp
  with assms(2) show ?thesis by blast
qed

lemma members_owed:
  assumes "dispatch_members w now mint redis ms (d, sch, q) = (n, d', sch', q')" "\<And>k. snd (redis k)" "owed w m d"
    and "m \<in> fst ` set sch \<or> in_queue (member_key m) q \<or> g" "guard_live now (member_key m) q \<Longrightarrow> in_queue (member_key m) q \<or> g"
  shows "m \<in> fst ` set sch' \<or> in_queue (member_key m) q' \<or> g"
  using assms(1,3,4,5)
proof (induction ms arbitrary: d sch q n)
  case (Cons k ms)
  obtain n1 d1 sch1 q1 where e: "dispatch_entry w now (mint k) (fst (redis k)) (snd (redis k)) k (d, sch, q) = (n1, d1, sch1, q1)"
    by (metis prod_cases4)
  obtain n2 where r: "dispatch_members w now mint redis ms (d1, sch1, q1) = (n2, d', sch', q')"
    using Cons.prems(1) e by (auto split: prod.splits)
  have e': "dispatch_entry w now (mint k) (fst (redis k)) True k (d, sch, q) = (n1, d1, sch1, q1)" using e assms(2) by simp
  have "schedule_only d d1" using dispatch_entry_result [OF e] by (simp add: entry_result_def)
  then have o: "owed w m d1" using Cons.prems(2) by (rule owed_schedule_only)
  note q = entry_queue [OF e, of "member_key m"]
  have g: "guard_live now (member_key m) q1 \<Longrightarrow> in_queue (member_key m) q1 \<or> g" using q Cons.prems(4) by blast
  have "m \<in> fst ` set sch1 \<or> in_queue (member_key m) q1 \<or> g"
  proof (cases "m \<in> fst ` set sch")
    case True
    show ?thesis
    proof (cases "k = m")
      case True
      with entry_owed [OF e' [unfolded True]] Cons.prems(2,4) \<open>m \<in> fst ` set sch\<close> q show ?thesis by auto
    next
      case False
      then have "m \<noteq> k" by simp
      from entry_others [OF e this True] show ?thesis by blast
    qed
  qed (use Cons.prems(3) q in blast)
  from Cons.IH [OF r o this g] show ?case .
qed auto

text \<open>
  C26: a dispatch run never drops a scheduled dial that is still owed, as long as Redis answers the put-back of an entry that
  raised. After the run its entry is in the schedule (not yet due, paused campaign, closed window, full
  queue, any exception), or a job for this very dial stands in the queue, or a guard for it stood before the
  run: the code then takes it as already queued. The run sets no guard without its job.
\<close>

theorem owed_entry_kept:
  assumes "dispatch_due w now mint redis (d, sch, q) = (n, d', sch', q')" "\<And>k. snd (redis k)"
    and "m \<in> fst ` set sch" "owed w m d"
  shows "(m \<in> fst ` set sch' \<or> (\<exists>j. Readable j \<in> set (queue_items q') \<and> idempotency_key j = member_key m) \<or>
      guard_live now (member_key m) q) \<and>
    (\<forall>k. guard_live now k q' \<and> \<not> guard_live now k q \<longrightarrow> (\<exists>j. Readable j \<in> set (queue_items q') \<and> idempotency_key j = k))"
proof -
  have r: "dispatch_members w now mint redis (due_jobs now 50 sch) (d, sch, q) = (n, d', sch', q')"
    using assms(1) by (simp add: dispatch_due_def)
  have "in_queue k q'" if "guard_live now k q'" "\<not> guard_live now k q" for k
    using members_guards [OF r that(1)] that(2) by blast
  with members_owed [OF r assms(2,4), of "guard_live now (member_key m) q"] assms(3) show ?thesis
    unfolding in_queue_def by blast
qed

section \<open>The rebuild refines the database\<close>

lemma add_missing_append:
  "add_missing (xs @ ys) s =
    (case add_missing xs s of (n, s1) \<Rightarrow> case add_missing ys s1 of (k, s2) \<Rightarrow> (n + k, s2))"
proof (induction xs arbitrary: s)
  case (Cons e xs)
  obtain m t where "e = (m, t)" by (metis surj_pair)
  with Cons show ?case by (cases "m \<in> fst ` set s") (simp_all split: prod.splits)
qed simp

lemma add_missing_map_of:
  "map_of (snd (add_missing es s)) m = (case map_of s m of Some t \<Rightarrow> Some t | None \<Rightarrow> map_of es m)"
proof (induction es s rule: add_missing.induct)
  case (2 k t es s)
  show ?case
  proof (cases "k \<in> fst ` set s")
    case True
    then obtain u where "map_of s k = Some u" by (metis map_of_eq_None_iff not_None_eq)
    then show ?thesis using 2 True by (auto split: option.splits)
  next
    case False
    then have "map_of s k = None" by (simp add: map_of_eq_None_iff)
    then show ?thesis using 2 False by (auto split: option.splits prod.splits simp: map_add_def)
  qed
qed (simp split: option.splits)

lemma add_missing_nothing: "(\<And>m. m \<in> fst ` set es \<Longrightarrow> m \<in> fst ` set s) \<Longrightarrow> add_missing es s = (0, s)"
  by (induction es) auto

lemma rebuild_loop_eq:
  assumes "keys_distinct c_id (contacts d)" "1 \<le> sz"
  shows "rebuild_loop locked sz d after n s =
    (case add_missing (concat (map (retry_entry d)
        (keyset_rest c_id after (filter (\<lambda>c. awaiting c \<and> \<not> locked (c_id c)) (contacts d))))) s of (k, s') \<Rightarrow> (n + k, s'))"
  using assms
proof (induction locked sz d after n s rule: rebuild_loop.induct)
  case (1 locked sz d after n s)
  let ?rows = "filter (\<lambda>c. awaiting c \<and> \<not> locked (c_id c)) (contacts d)"
  let ?rest = "keyset_rest c_id after ?rows" and ?page = "rebuild_page locked sz after d"
  have page: "?page = take sz ?rest" by (simp add: rebuild_page_def keyset_page_def)
  have kd: "keys_distinct c_id ?rows" using "1.prems"(1) by (simp add: keys_distinct_def distinct_map_filter)
  obtain k s1 where a: "add_missing (concat (map (retry_entry d) ?page)) s = (k, s1)" by (metis surj_pair)
  consider (empty) "?page = []" | (short) "?page \<noteq> []" "length ?page < sz" | (full) "?page \<noteq> []" "\<not> length ?page < sz"
    by blast
  then show ?case
  proof cases
    case empty
    then have "?rest = []" using page "1.prems"(2) by auto
    with empty show ?thesis by (subst rebuild_loop.simps) simp
  next
    case short
    then have "?rest = ?page" using page by simp
    with short a show ?thesis by (subst rebuild_loop.simps) (simp add: Let_def)
  next
    case full
    have next_rest: "keyset_rest c_id (Some (c_id (last ?page))) ?rows = drop sz ?rest"
      using keyset_rest_after_page [OF kd] full(1) by (simp add: rebuild_page_def)
    have "?rest = ?page @ drop sz ?rest" using page by simp
    then have c: "concat (map (retry_entry d) ?rest) =
        concat (map (retry_entry d) ?page) @ concat (map (retry_entry d) (drop sz ?rest))"
      by (metis concat_append map_append)
    have "rebuild_loop locked sz d (Some (c_id (last ?page))) (n + k) s1 =
        (case add_missing (concat (map (retry_entry d) (keyset_rest c_id (Some (c_id (last ?page))) ?rows))) s1 of
          (k', s') \<Rightarrow> (n + k + k', s'))"
      by (rule "1.IH") (use full a "1.prems" in simp_all)
    then show ?thesis using full a
      by (subst rebuild_loop.simps) (simp add: Let_def next_rest c add_missing_append split: prod.splits)
  qed
qed

lemma retry_entry_key: "x \<in> set (retry_entry d c) \<Longrightarrow> \<exists>j. fst x = M_retry j \<and> rj_contact j = c_id c"
  by (auto simp: retry_entry_def job_for_def new_recovery_job_def split: option.splits list.splits)

lemma retry_entries_distinct: "keys_distinct c_id cs \<Longrightarrow> distinct (map fst (concat (map (retry_entry d) cs)))"
proof (induction cs)
  case (Cons c cs)
  have "distinct (map fst (retry_entry d c))" by (auto simp: retry_entry_def split: option.splits)
  moreover have "fst ` set (retry_entry d c) \<inter> fst ` set (concat (map (retry_entry d) cs)) = {}"
  proof -
    have "x \<notin> set (concat (map (retry_entry d) cs))" if x: "fst x = fst y" "y \<in> set (retry_entry d c)" for x y
    proof
      assume "x \<in> set (concat (map (retry_entry d) cs))"
      then obtain c' where c': "c' \<in> set cs" "x \<in> set (retry_entry d c')" by auto
      with x have "c_id c = c_id c'" by (auto dest!: retry_entry_key)
      with c'(1) Cons.prems show False by (auto simp: keys_distinct_Cons)
    qed
    then have "fst x \<noteq> fst y" if "x \<in> set (concat (map (retry_entry d) cs))" "y \<in> set (retry_entry d c)" for x y
      using that by blast
    note ne = this
    show ?thesis
    proof (rule equals0I)
      fix m assume "m \<in> fst ` set (retry_entry d c) \<inter> fst ` set (concat (map (retry_entry d) cs))"
      then obtain y x where "y \<in> set (retry_entry d c)" "m = fst y"
        "x \<in> set (concat (map (retry_entry d) cs))" "m = fst x" by (elim IntE imageE)
      with ne show False by metis
    qed
  qed
  ultimately show ?case using Cons by (simp add: keys_distinct_Cons)
qed simp

text \<open>
  What PostgreSQL says is scheduled, in its own words: a contact waits for a retry and has its time. The retry is the one
  written beside it, or, where an older version wrote none, the one after the contact's latest attempt.
\<close>

definition owed_retry :: "db \<Rightarrow> contact \<Rightarrow> sched_member \<Rightarrow> instant \<Rightarrow> bool" where
  "owed_retry d c m t \<longleftrightarrow> c_status c = C_RETRY_SCHEDULED \<and> c_next_retry_at c = Some t \<and>
    (if c_retry_attempt_id c \<noteq> None \<and> c_retry_attempt_number c \<noteq> None
     then m = M_retry \<lparr> rj_id = None, rj_attempt = the (c_retry_attempt_id c), rj_contact = c_id c, rj_campaign = c_campaign c,
       rj_number = the (c_retry_attempt_number c) \<rparr>
     else \<exists>a \<in> set (attempts d). a_contact a = c_id c \<and> (\<forall>b \<in> set (attempts d). a_contact b = c_id c \<longrightarrow> a_number b \<le> a_number a) \<and>
       m = M_retry \<lparr> rj_id = None, rj_attempt = a_id a, rj_contact = c_id c, rj_campaign = c_campaign c, rj_number = a_number a + 1 \<rparr>)"

lemma latest_attempt:
  assumes "keys_distinct (\<lambda>a. (a_contact a, a_number a)) as" "xs = rev (sort_key a_number (filter (\<lambda>a. a_contact a = k) as))"
  shows "(case xs of [] \<Rightarrow> P None | a # _ \<Rightarrow> P (Some a)) \<longleftrightarrow>
    (if \<exists>a \<in> set as. a_contact a = k
     then \<exists>a \<in> set as. a_contact a = k \<and> (\<forall>b \<in> set as. a_contact b = k \<longrightarrow> a_number b \<le> a_number a) \<and> P (Some a)
     else P None)"
proof (cases xs)
  case Nil
  then have "set (sort_key a_number (filter (\<lambda>a. a_contact a = k) as)) = {}" using assms(2) by simp
  then have "\<not> (\<exists>a \<in> set as. a_contact a = k)" by (simp add: filter_empty_conv)
  with Nil show ?thesis by (simp only: list.case if_False)
next
  case (Cons a ys)
  have "set xs = {a \<in> set as. a_contact a = k}" unfolding assms(2) by simp
  then have a: "a \<in> set as" "a_contact a = k" using Cons by auto
  have "sorted (map a_number (rev xs))" unfolding assms(2) by simp
  then have "\<forall>b \<in> set xs. a_number b \<le> a_number a" unfolding Cons by (auto simp: sorted_append)
  then have max: "\<forall>b \<in> set as. a_contact b = k \<longrightarrow> a_number b \<le> a_number a"
    using \<open>set xs = _\<close> by auto
  have uniq: "b = a" if b: "b \<in> set as" "a_contact b = k" "\<forall>c \<in> set as. a_contact c = k \<longrightarrow> a_number c \<le> a_number b" for b
  proof -
    have "a_number b \<le> a_number a" "a_number a \<le> a_number b" using max b a by blast+
    then have "a_number b = a_number a" by simp
    with a b assms(1) show ?thesis unfolding keys_distinct_def distinct_map by (auto dest: inj_onD)
  qed
  have "(\<exists>b \<in> set as. a_contact b = k \<and> (\<forall>c \<in> set as. a_contact c = k \<longrightarrow> a_number c \<le> a_number b) \<and> P (Some b)) \<longleftrightarrow> P (Some a)"
    using a max uniq by blast
  moreover have "\<exists>a \<in> set as. a_contact a = k" using a by blast
  ultimately show ?thesis using Cons by (simp only: list.case if_True)
qed

lemma owed_retry_iff:
  assumes "keys_distinct (\<lambda>a. (a_contact a, a_number a)) (attempts d)"
  shows "awaiting c \<and> (m, t) \<in> set (retry_entry d c) \<longleftrightarrow> owed_retry d c m t"
proof (cases "c_status c = C_RETRY_SCHEDULED \<and> c_next_retry_at c = Some t \<and> (c_retry_attempt_id c = None \<or> c_retry_attempt_number c = None)")
  case True
  define xs where "xs = rev (sort_key a_number (filter (\<lambda>a. a_contact a = c_id c) (attempts d)))"
  define P :: "call_attempt option \<Rightarrow> bool" where "P = (\<lambda>x. \<exists>a. x = Some a \<and> m = M_retry (new_recovery_job (a_id a) (c_id c) (c_campaign c) (a_number a + 1)))"
  have j: "job_for c d = (case xs of [] \<Rightarrow> None | a # _ \<Rightarrow> Some (new_recovery_job (a_id a) (c_id c) (c_campaign c) (a_number a + 1)))"
    using True unfolding job_for_def xs_def by (auto split: option.splits)
  have "awaiting c \<and> (m, t) \<in> set (retry_entry d c) \<longleftrightarrow> (\<exists>r. job_for c d = Some r \<and> m = M_retry r)"
    using True by (auto simp: awaiting_def retry_entry_def split: option.splits)
  also have "\<dots> \<longleftrightarrow> (case xs of [] \<Rightarrow> P None | a # _ \<Rightarrow> P (Some a))"
    unfolding j P_def by (auto split: list.splits)
  also have "\<dots> \<longleftrightarrow> owed_retry d c m t" unfolding latest_attempt [OF assms xs_def]
    using True by (auto simp: owed_retry_def new_recovery_job_def P_def)
  finally show ?thesis .
qed (auto simp: awaiting_def retry_entry_def owed_retry_def job_for_def new_recovery_job_def split: option.splits)

lemma map_of_owed:
  assumes "keys_distinct c_id (contacts d)" "keys_distinct (\<lambda>a. (a_contact a, a_number a)) (attempts d)"
  shows "map_of (concat (map (retry_entry d) (keyset_rest c_id None (filter awaiting (contacts d))))) m = Some t \<longleftrightarrow>
    (\<exists>c \<in> set (contacts d). owed_retry d c m t)"
proof -
  let ?rest = "keyset_rest c_id None (filter awaiting (contacts d))"
  have "keys_distinct c_id (filter awaiting (contacts d))"
    using assms(1) by (simp add: keys_distinct_def distinct_map_filter)
  then have "keys_distinct c_id ?rest"
    by (simp add: keyset_rest_def past_def keys_distinct_def distinct_map)
  from map_of_eq_Some_iff [OF retry_entries_distinct [OF this], of d m t]
  have "map_of (concat (map (retry_entry d) ?rest)) m = Some t \<longleftrightarrow> (\<exists>c \<in> set (contacts d). awaiting c \<and> (m, t) \<in> set (retry_entry d c))"
    by (auto simp: set_keyset_rest past_def)
  then show ?thesis using owed_retry_iff [OF assms(2)] by simp
qed

lemma add_missing_length: "add_missing es s = (n, s') \<Longrightarrow> length s' = length s + n"
  by (induction es s arbitrary: n rule: add_missing.induct) (auto split: if_splits prod.splits)

text \<open>
  C27: whatever was lost of the Redis schedule, after one rebuild every retry that PostgreSQL says is owed is in it: at
  the time stored beside the contact when it was missing, at the time it had when it was there. Nothing else is
  added and nothing is taken away, whatever the page size: an entry PostgreSQL knows nothing of stays, and the
  dispatcher deals with it. The count reported is the number added, and a second run adds nothing.
\<close>

theorem rebuild_restores_schedule:
  assumes "keys_distinct c_id (contacts d)" "keys_distinct (\<lambda>a. (a_contact a, a_number a)) (attempts d)"
    and "1 \<le> st_rebuild_batch st" "rebuild_schedule st (\<lambda>_. False) d sch = (n, sch')"
  shows "(map_of sch' m = Some t \<longleftrightarrow> map_of sch m = Some t \<or>
      map_of sch m = None \<and> (\<exists>c \<in> set (contacts d). owed_retry d c m t)) \<and>
    length sch' = length sch + n \<and> rebuild_schedule st (\<lambda>_. False) d sch' = (0, sch')"
proof -
  let ?es = "concat (map (retry_entry d) (keyset_rest c_id None (filter awaiting (contacts d))))"
  have b: "1 \<le> nat (st_rebuild_batch st)" using assms(3) by simp
  have eq: "rebuild_schedule st (\<lambda>_. False) d s = add_missing ?es s" for s
    using rebuild_loop_eq [OF assms(1) b, of "\<lambda>_. False" None 0 s]
    by (simp add: rebuild_schedule_def split: prod.splits)
  have m: "map_of sch' m = (case map_of sch m of Some t \<Rightarrow> Some t | None \<Rightarrow> map_of ?es m)" for m
    using add_missing_map_of [of ?es sch m] assms(4) unfolding eq by simp
  have "k \<in> fst ` set sch'" if "k \<in> fst ` set ?es" for k
  proof -
    have "map_of ?es k \<noteq> None" using that by (simp add: map_of_eq_None_iff)
    then have "map_of sch' k \<noteq> None" unfolding m by (auto split: option.splits)
    then show ?thesis by (simp add: map_of_eq_None_iff)
  qed
  then have again: "add_missing ?es sch' = (0, sch')" by (rule add_missing_nothing)
  have "map_of sch' m = Some t \<longleftrightarrow> map_of sch m = Some t \<or> map_of sch m = None \<and> (\<exists>c \<in> set (contacts d). owed_retry d c m t)"
    using map_of_owed [OF assms(1,2), of m t] unfolding m by (auto split: option.splits)
  moreover have "length sch' = length sch + n" using add_missing_length assms(4) unfolding eq by blast
  ultimately show ?thesis using again by (simp add: eq)
qed

section \<open>Nobody is jumped over\<close>

text \<open>A contact that stays due and unsuppressed while the scan runs.\<close>

definition stays_due :: "'p env \<Rightarrow> uuid \<Rightarrow> (nat \<Rightarrow> db) \<Rightarrow> uuid \<Rightarrow> bool" where
  "stays_due w camp view k \<longleftrightarrow> (\<forall>n. \<exists>c \<in> set (contacts (view n)). c_id c = k \<and> first_attempt_due camp c \<and>
    \<not> is_suppressed w (c_number c) (view n))"

lemma due_in_page:
  assumes "keys_distinct c_id (contacts d)" "c \<in> set (contacts d)" "first_attempt_due camp c"
    and "past c_id after c" "1 \<le> sz"
  shows "eligible_enqueue_page camp after sz d \<noteq> [] \<and>
    ((c_id c, c_number c) \<in> set (eligible_enqueue_page camp after sz d) \<or>
     fst (last (eligible_enqueue_page camp after sz d)) < c_id c)"
proof -
  let ?rows = "filter (first_attempt_due camp) (contacts d)"
  let ?rest = "keyset_rest c_id after ?rows" and ?p = "keyset_page c_id sz after ?rows"
  have c: "c \<in> set ?rest" using assms by (simp add: set_keyset_rest)
  then have ne: "?p \<noteq> []" using assms(5) by (cases ?rest) (auto simp: keyset_page_def take_Cons split: nat.split)
  have kd: "keys_distinct c_id ?rows" using assms(1) by (simp add: keys_distinct_def distinct_map_filter)
  have "c_id (last ?p) < c_id c" if "c \<notin> set ?p"
  proof -
    have "c \<in> set (drop sz ?rest)" using c that unfolding keyset_page_def by (metis UnE append_take_drop_id set_append)
    then have "c \<in> set (keyset_rest c_id (Some (c_id (last ?p))) ?rows)" using keyset_rest_after_page [OF kd ne] by simp
    then show ?thesis by (simp add: set_keyset_rest past_def)
  qed
  then show ?thesis using ne by (auto simp: eligible_enqueue_page_def last_map)
qed

lemma enqueue_loop_covers:
  assumes "enqueue_loop fuel w now mint camp up view n after sc q = Some (Inr sc', q')" "es_complete sc'"
    and "tallied sc" "stays_due w camp view k" "\<And>n. keys_distinct c_id (contacts (view n))"
    and "1 \<le> st_enqueue_page_size (ev_settings w)"
    and "(case after of None \<Rightarrow> False | Some a \<Rightarrow> k \<le> a) \<Longrightarrow> guard_live now (camp, k, 1) q"
  shows "guard_live now (camp, k, 1) q'"
  using assms(1,3,7)
proof (induction fuel arbitrary: n after sc q)
  case (Suc fuel)
  let ?sz = "nat (st_enqueue_page_size (ev_settings w))"
  let ?page = "eligible_enqueue_page camp after ?sz (view n)"
  let ?blk = "suppressed_among w (map snd ?page) (view n)"
  obtain c where c: "c \<in> set (contacts (view n))" "c_id c = k" "first_attempt_due camp c"
    "\<not> is_suppressed w (c_number c) (view n)" using assms(4) by (auto simp: stays_due_def)
  have sz: "1 \<le> ?sz" using assms(6) by simp
  note dp = due_in_page [OF assms(5) c(1,3) _ sz]
  obtain err sc1 q1 where i: "enqueue_items (ev_settings w) now mint camp ?blk up ?page sc q = (err, sc1, q1)" by (metis prod_cases3)
  note res = enqueue_items_result [OF i Suc.prems(2)]
  have behind: "guard_live now (camp, k, 1) q" if "\<not> past c_id after c"
    using that c(2) Suc.prems(3) by (auto simp: past_def split: option.splits)
  show ?case
  proof (cases "es_complete sc \<and> ?page \<noteq> []")
    case False
    then have e: "sc' = sc \<and> q' = q" using Suc.prems(1) by (auto simp: Let_def split: if_splits)
    with False assms(2) have "?page = []" by simp
    with dp have "\<not> past c_id after c" by blast
    then show ?thesis using behind e by simp
  next
    case True
    let ?sc2 = "sc1\<lparr> es_pages := es_pages sc1 + 1 \<rparr>" and ?last = "fst (last ?page)"
    have ne: "\<not> err" using Suc.prems(1) i True by (cases err) (auto simp: Let_def)
    then have r: "\<not> err" "enqueue_loop fuel w now mint camp up view (Suc n) (if es_complete sc1 then Some ?last else after)
        ?sc2 q1 = Some (Inr sc', q')" using Suc.prems(1) i True by (auto simp: Let_def split: if_splits)
    show ?thesis
    proof (rule Suc.IH [OF r(2)])
      show "tallied ?sc2" using res by simp
      assume a: "case (if es_complete sc1 then Some ?last else after) of None \<Rightarrow> False | Some a \<Rightarrow> k \<le> a"
      show "guard_live now (camp, k, 1) q1"
      proof (cases "past c_id after c \<and> es_complete sc1")
        case True
        then have "(k, c_number c) \<in> set ?page" using a dp [of after] c(2) by auto
        moreover have "c_number c \<notin> ?blk" using c(4) by (simp add: suppressed_among_set)
        ultimately show ?thesis using res r(1) True by blast
      next
        case False
        have "\<not> past c_id after c" if "\<not> es_complete sc1" using a c(2) that by (auto simp: past_def split: option.splits)
        with False have "guard_live now (camp, k, 1) q" using behind by blast
        then show ?thesis using res by blast
      qed
    qed
  qed
qed simp

text \<open>
  C28: when the scan reports that it is complete, every contact that stayed due and unsuppressed while
  it ran has its first job in the queue, unless a guard for that first attempt already stood when the scan began: the code then
  counts it as already queued. The keyset pages jump over nobody, whatever other contacts enter or leave the set
  in between.
\<close>

theorem enqueue_complete_covers:
  assumes "enqueue_loop fuel w now mint camp up view 0 None new_scan q = Some (Inr sc, q')" "es_complete sc"
    and "\<And>n. keys_distinct c_id (contacts (view n))" "1 \<le> st_enqueue_page_size (ev_settings w)"
    and "stays_due w camp view k" "\<not> guard_live now (camp, k, 1) q"
  shows "Readable (first_job mint camp k) \<in> set (queue_items q')"
proof -
  have t: "tallied new_scan" by (simp add: tallied_def new_scan_def MAX_ENQUEUE_PER_REQUEST_def)
  have g: "guard_live now (camp, k, 1) q'"
    by (rule enqueue_loop_covers [OF assms(1,2) t assms(5,3,4)]) simp_all
  from enqueue_loop_added [OF assms(1) t] obtain kjs new where a: "add_each (add_guarded (ev_settings w) now) kjs q = (new, q')"
    "set kjs \<subseteq> scan_jobs w mint camp view" unfolding added_from_def by blast
  have "(camp, k, 1) \<in> fst ` set new" using add_each_guard [OF a(1) g] assms(6) by blast
  moreover have "set new \<subseteq> set kjs" by (rule add_each_subset [OF a(1)])
  ultimately have "((camp, k, 1), first_job mint camp k) \<in> set new" using a(2) by (auto simp: scan_jobs_def)
  moreover have "queue_items q' = queue_items q @ map (Readable \<circ> snd) new" using dial_guard.add_each_once [OF a(1)] by blast
  ultimately show ?thesis by force
qed

section \<open>Witnesses\<close>

theorem owed_entry_kept_witness:
  "\<exists>n d' sch' q' j. dispatch_due plain_env noon (\<lambda>_. 99) (\<lambda>_. (True, True)) (waiting_db, [(M_retry waiting_job, 0)], empty_queue) =
      (n, d', sch', q') \<and> Readable j \<in> set (queue_items q') \<and> idempotency_key j = (7, 1, 2)"
proof -
  let ?r = "dispatch_due plain_env noon (\<lambda>_. 99) (\<lambda>_. (True, True)) (waiting_db, [(M_retry waiting_job, 0)], empty_queue)"
  obtain n d' sch' q' where r: "?r = (n, d', sch', q')" by (metis prod_cases4)
  have "owed plain_env (M_retry waiting_job) waiting_db"
    by (simp add: waiting_job_def new_recovery_job_def get_contact_def get_campaign_def get_row_Cons waiting_db_def
      sample_db_def sample_contact_def sample_campaign_def is_suppressed_def empty_db_def get_by_contact_and_number_def
      sample_attempt_def)
  moreover have "fst (snd (snd ?r)) = []" by code_simp
  moreover have "member_key (M_retry waiting_job) = (7, 1, 2)" by (simp add: waiting_job_def new_recovery_job_def)
  moreover have "\<not> guard_live noon (7, 1, 2) empty_queue" by (simp add: guard_live_def empty_queue_def)
  ultimately show ?thesis using owed_entry_kept [OF r, of "M_retry waiting_job"] r by auto
qed

theorem rebuild_restores_schedule_witness:
  "map_of (snd (rebuild_schedule default_settings (\<lambda>_. False) waiting_db [])) (M_retry waiting_job) = Some 0"
proof -
  obtain n sch' where r: "rebuild_schedule default_settings (\<lambda>_. False) waiting_db [] = (n, sch')" by (metis surj_pair)
  have k: "keys_distinct c_id (contacts waiting_db)" "keys_distinct (\<lambda>a. (a_contact a, a_number a)) (attempts waiting_db)"
    by (simp_all add: waiting_db_def sample_db_def keys_distinct_def)
  have "\<exists>c \<in> set (contacts waiting_db). owed_retry waiting_db c (M_retry waiting_job) 0"
    by (simp add: waiting_db_def owed_retry_def waiting_job_def new_recovery_job_def sample_contact_def)
  with rebuild_restores_schedule [OF k _ r] r show ?thesis by (simp add: default_settings_def)
qed

theorem enqueue_complete_covers_witness:
  "\<exists>sc q'. enqueue_loop 3 small_env 0 (\<lambda>k. k) 7 (\<lambda>_. True) (\<lambda>_. pending_db) 0 None new_scan empty_queue = Some (Inr sc, q') \<and>
    Readable (first_job (\<lambda>k. k) 7 1) \<in> set (queue_items q')"
proof -
  obtain sc q' where r: "enqueue_loop 3 small_env 0 (\<lambda>k. k) 7 (\<lambda>_. True) (\<lambda>_. pending_db) 0 None new_scan empty_queue =
    Some (Inr sc, q')" "es_complete sc" by (rule small_run_result)
  have s: "stays_due small_env 7 (\<lambda>_. pending_db) 1"
    by (simp add: stays_due_def pending_db_def sample_contact_def first_attempt_due_def empty_db_def)
  have k: "keys_distinct c_id (contacts pending_db)" by (simp add: pending_db_def keys_distinct_def)
  have z: "1 \<le> st_enqueue_page_size (ev_settings small_env)" "\<not> guard_live 0 (7, 1, 1) empty_queue"
    by (simp_all add: small_env_def guard_live_def empty_queue_def)
  from enqueue_complete_covers [OF r k z(1) s z(2)] r show ?thesis by blast
qed

end
