(* ===== verification/Py_Int.thy ===== *)
theory Py_Int imports Prelude begin

text \<open>
  \<open>int(text)\<close> and \<open>int(text, 16)\<close> of the standard library: the text may have spaces around it, a sign and
  single underscores between its digits. A failed conversion (the code's \<open>ValueError\<close>) is None.
\<close>

definition digit_of :: "char \<Rightarrow> nat option" where
  "digit_of c = (let n = of_char c :: nat in
     if 48 \<le> n \<and> n \<le> 57 then Some (n - 48)
     else if 97 \<le> n \<and> n \<le> 122 then Some (n - 87)
     else if 65 \<le> n \<and> n \<le> 90 then Some (n - 55) else None)"

text \<open>Digits with single underscores between them; the flag says that the last character was a digit.\<close>

fun int_digits :: "nat \<Rightarrow> nat \<Rightarrow> bool \<Rightarrow> string \<Rightarrow> nat option" where
  "int_digits b acc dig [] = (if dig then Some acc else None)"
| "int_digits b acc dig (c # cs) =
    (if c = CHR ''_'' then (if dig then int_digits b acc False cs else None)
     else case digit_of c of
       Some k \<Rightarrow> if k < b then int_digits b (b * acc + k) True cs else None
     | None \<Rightarrow> None)"

definition split_sign :: "string \<Rightarrow> bool \<times> string" where
  "split_sign s = (case s of c # cs \<Rightarrow> if c = CHR ''-'' then (True, cs) else if c = CHR ''+'' then (False, cs) else (False, s)
     | [] \<Rightarrow> (False, s))"

definition hex_prefix :: "string \<Rightarrow> string" where
  "hex_prefix s = (if take 2 s \<in> {''0x'', ''0X''} then (if take 1 (drop 2 s) = ''_'' then drop 3 s else drop 2 s) else s)"

text \<open>Decimal text of more than 4300 digits is refused.\<close>

definition py_int :: "nat \<Rightarrow> string \<Rightarrow> int option" where
  "py_int base s =
    (case split_sign (py_strip s) of (neg, t) \<Rightarrow>
       let u = (if base = 16 then hex_prefix t else t) in
       if base = 10 \<and> count_where (\<lambda>c. c \<noteq> CHR ''_'') u > 4300 then None
       else map_option (\<lambda>n. if neg then - int n else int n) (int_digits base 0 False u))"

end
