(* ===== verification/Dograh_Outcome.thy ===== *)
theory Dograh_Outcome imports Data_Model Py_Int begin

text \<open>
  \<open>app/services/telephony/dograh_client.py\<close> and \<open>dograh_outcome.py\<close>: what an HTTP exchange with the
  Dograh server means. The exchange itself (the fault, or the status, the header and the decoded body) is
  an argument, and so is the reading of an HTTP date (\<open>email.utils.parsedate_to_datetime\<close>). Text is
  8-bit; \<open>str.lower\<close> is written out for it.
\<close>

section \<open>The client's error taxonomy\<close>

datatype error_category = TIMEOUT | CONNECTION_ERROR | AUTHENTICATION_ERROR | VALIDATION_ERROR | RATE_LIMITED_CAT
  | PROVIDER_UNAVAILABLE | PROVIDER_REJECTED | AMBIGUOUS_REQUEST | UNKNOWN_PROVIDER_ERROR

fun category_value :: "error_category \<Rightarrow> string" where
  "category_value TIMEOUT = ''timeout''"
| "category_value CONNECTION_ERROR = ''connection_error''"
| "category_value AUTHENTICATION_ERROR = ''authentication_error''"
| "category_value VALIDATION_ERROR = ''validation_error''"
| "category_value RATE_LIMITED_CAT = ''rate_limited''"
| "category_value PROVIDER_UNAVAILABLE = ''provider_unavailable''"
| "category_value PROVIDER_REJECTED = ''provider_rejected''"
| "category_value AMBIGUOUS_REQUEST = ''ambiguous_request''"
| "category_value UNKNOWN_PROVIDER_ERROR = ''unknown_provider_error''"

record api_error =
  ae_status :: int
  ae_category :: error_category
  ae_retry_after :: "int option"

definition is_ambiguous :: "api_error \<Rightarrow> bool" where
  "is_ambiguous e \<longleftrightarrow> ae_category e \<in> {AMBIGUOUS_REQUEST, TIMEOUT}"

definition classify_status_code :: "int \<Rightarrow> error_category" where
  "classify_status_code code =
    (if code = 408 then AMBIGUOUS_REQUEST
     else if code \<in> {401, 403} then AUTHENTICATION_ERROR
     else if code = 429 then RATE_LIMITED_CAT
     else if code = 404 then PROVIDER_REJECTED
     else if code \<in> {500, 502, 504} then AMBIGUOUS_REQUEST
     else if code \<ge> 500 then PROVIDER_UNAVAILABLE
     else if 400 \<le> code \<and> code < 500 then VALIDATION_ERROR
     else UNKNOWN_PROVIDER_ERROR)"

definition py_digits :: "string \<Rightarrow> bool" where
  "py_digits s \<longleftrightarrow> s \<noteq> [] \<and> list_all (\<lambda>c. 48 \<le> (of_char c :: nat) \<and> (of_char c :: nat) \<le> 57) s"

definition digits_value :: "string \<Rightarrow> int" where
  "digits_value s = fold (\<lambda>c n. 10 * n + (of_char c - 48)) s 0"

definition parse_retry_after :: "(string \<Rightarrow> instant option) \<Rightarrow> int \<Rightarrow> instant \<Rightarrow> string option \<Rightarrow> int option" where
  "parse_retry_after http_date max_s now v =
    (case v of None \<Rightarrow> None
     | Some raw \<Rightarrow>
        let t = py_strip raw in
        if t = [] \<or> length t > 64 then None
        else if py_digits t then Some (min (digits_value t) max_s)
        else case http_date t of None \<Rightarrow> None
          | Some t0 \<Rightarrow> if t0 - now < 0 then None else Some (min ((t0 - now) div 1000000) max_s))"

datatype http_fault = ConnectTimeout | PoolTimeout | ReadTimeout | WriteTimeout | OtherTimeout
  | ReadError | WriteError | RemoteProtocolError | ConnectError | OtherHttpError

fun fault_category :: "http_fault \<Rightarrow> error_category" where
  "fault_category ConnectTimeout = CONNECTION_ERROR"
| "fault_category PoolTimeout = CONNECTION_ERROR"
| "fault_category ReadTimeout = AMBIGUOUS_REQUEST"
| "fault_category WriteTimeout = AMBIGUOUS_REQUEST"
| "fault_category OtherTimeout = TIMEOUT"
| "fault_category ReadError = AMBIGUOUS_REQUEST"
| "fault_category WriteError = AMBIGUOUS_REQUEST"
| "fault_category RemoteProtocolError = AMBIGUOUS_REQUEST"
| "fault_category ConnectError = CONNECTION_ERROR"
| "fault_category OtherHttpError = UNKNOWN_PROVIDER_ERROR"

text \<open>An answer: the status, the \<open>Retry-After\<close> header and the decoded body (None: not JSON).\<close>

datatype exchange = Fault http_fault | Answer int "string option" "jval option"

definition send :: "(string \<Rightarrow> instant option) \<Rightarrow> int \<Rightarrow> instant \<Rightarrow> exchange \<Rightarrow> api_error + int \<times> jval option" where
  "send http_date max_s now x =
    (case x of
       Fault f \<Rightarrow> Inl \<lparr> ae_status = 0, ae_category = fault_category f, ae_retry_after = None \<rparr>
     | Answer code header body \<Rightarrow>
        if code \<ge> 400
        then Inl \<lparr> ae_status = code, ae_category = classify_status_code code,
               ae_retry_after = (if code = 429 then parse_retry_after http_date max_s now header else None) \<rparr>
        else Inr (code, body))"

definition parse_trigger_response :: "int \<times> jval option \<Rightarrow> api_error + int" where
  "parse_trigger_response r =
    (case snd r of
       Some (JObj fs) \<Rightarrow>
         (case map_of fs ''workflow_run_id'' of
            Some (JInt n) \<Rightarrow> if n > 0 then Inr n
              else Inl \<lparr> ae_status = fst r, ae_category = AMBIGUOUS_REQUEST, ae_retry_after = None \<rparr>
          | _ \<Rightarrow> Inl \<lparr> ae_status = fst r, ae_category = AMBIGUOUS_REQUEST, ae_retry_after = None \<rparr>)
     | _ \<Rightarrow> Inl \<lparr> ae_status = fst r, ae_category = AMBIGUOUS_REQUEST, ae_retry_after = None \<rparr>)"

definition trigger_call :: "(string \<Rightarrow> instant option) \<Rightarrow> int \<Rightarrow> instant \<Rightarrow> exchange \<Rightarrow> api_error + int" where
  "trigger_call http_date max_s now x = rbind (send http_date max_s now x) parse_trigger_response"

section \<open>The run listing\<close>

fun as_int :: "jval \<Rightarrow> int option" where
  "as_int (JInt n) = Some n"
| "as_int (JBool b) = Some (if b then 1 else 0)"
| "as_int (JRat r) = Some (if r < 0 then \<lceil>r\<rceil> else \<lfloor>r\<rfloor>)"
| "as_int (JStr s) = py_int 10 s"
| "as_int _ = None"

text \<open>The matching runs of one page; None is a run of an unexpected shape.\<close>

definition run_matches :: "uuid \<Rightarrow> jval \<Rightarrow> (int list) option" where
  "run_matches attempt run =
    (case run of
       JObj fs \<Rightarrow>
         (let context = (case map_of fs ''initial_context'' of
              None \<Rightarrow> Some [] | Some JNull \<Rightarrow> Some [] | Some (JObj c) \<Rightarrow> Some c
            | Some (JBool False) \<Rightarrow> Some [] | Some (JList []) \<Rightarrow> Some [] | Some (JStr []) \<Rightarrow> Some []
            | Some (JInt n) \<Rightarrow> if n = 0 then Some [] else None
            | Some (JRat r) \<Rightarrow> if r = 0 then Some [] else None | Some _ \<Rightarrow> None) in
          case context of None \<Rightarrow> None
          | Some c \<Rightarrow> if map_of c ''call_attempt_id'' = Some (JId attempt)
              then (case map_of fs ''id'' of None \<Rightarrow> None | Some v \<Rightarrow> map_option (\<lambda>n. [n]) (as_int v))
              else Some [])
     | _ \<Rightarrow> None)"

fun page_matches :: "uuid \<Rightarrow> jval list \<Rightarrow> (int list) option" where
  "page_matches attempt [] = Some []"
| "page_matches attempt (r # rs) =
    (case run_matches attempt r of None \<Rightarrow> None
     | Some ms \<Rightarrow> map_option (\<lambda>rest. ms @ rest) (page_matches attempt rs))"

text \<open>Iterating the decoded \<open>runs\<close>: an empty object or text is an empty iteration, any other one yields
  text, which has no \<open>get\<close>.\<close>

fun iterated :: "jval \<Rightarrow> jval list option" where
  "iterated (JList rs) = Some rs"
| "iterated (JObj []) = Some []"
| "iterated (JStr []) = Some []"
| "iterated _ = None"

definition read_page :: "uuid \<Rightarrow> int \<times> jval option \<Rightarrow> api_error + int list \<times> int" where
  "read_page attempt r =
    (let bad = Inl \<lparr> ae_status = fst r, ae_category = UNKNOWN_PROVIDER_ERROR, ae_retry_after = None \<rparr> in
     case snd r of
       Some (JObj fs) \<Rightarrow>
         (case (map_of fs ''runs'', map_of fs ''total_pages'') of
            (Some runs, Some v) \<Rightarrow>
              (case (as_int v, Option.bind (iterated runs) (page_matches attempt)) of
                 (Some n, Some ms) \<Rightarrow> Inr (ms, n) | _ \<Rightarrow> bad)
          | _ \<Rightarrow> bad)
     | _ \<Rightarrow> bad)"

definition RECONCILE_MAX_PAGES :: nat where "RECONCILE_MAX_PAGES = 5"

text \<open>Pages \<open>page .. RECONCILE_MAX_PAGES\<close>, \<open>left\<close> of them to go; \<open>answers p\<close> is the exchange for page p.\<close>

fun find_runs_from :: "(string \<Rightarrow> instant option) \<Rightarrow> int \<Rightarrow> instant \<Rightarrow> uuid \<Rightarrow> (nat \<Rightarrow> exchange) \<Rightarrow> nat \<Rightarrow> nat \<Rightarrow>
    int list \<Rightarrow> api_error + int list" where
  "find_runs_from http_date max_s now attempt answers page 0 found =
     Inl \<lparr> ae_status = 0, ae_category = UNKNOWN_PROVIDER_ERROR, ae_retry_after = None \<rparr>"
| "find_runs_from http_date max_s now attempt answers page (Suc left) found =
    rbind (rbind (send http_date max_s now (answers page)) (read_page attempt)) (\<lambda>(ms, total).
      if int page \<ge> total then Inr (sorted_list_of_set (set (found @ ms)))
      else find_runs_from http_date max_s now attempt answers (Suc page) left (found @ ms))"

definition find_runs_for_attempt :: "(string \<Rightarrow> instant option) \<Rightarrow> int \<Rightarrow> instant \<Rightarrow> uuid \<Rightarrow> (nat \<Rightarrow> exchange) \<Rightarrow>
    api_error + int list" where
  "find_runs_for_attempt http_date max_s now attempt answers =
    find_runs_from http_date max_s now attempt answers 1 RECONCILE_MAX_PAGES []"

section \<open>The trigger's failure\<close>

definition REASON_PROVIDER_ERROR :: string where "REASON_PROVIDER_ERROR = ''provider_error''"
definition REASON_RATE_LIMITED :: string where "REASON_RATE_LIMITED = ''provider_rate_limited''"
definition REASON_CONFIGURATION :: string where "REASON_CONFIGURATION = ''provider_configuration_error''"
definition REASON_UNRECOGNIZED :: string where "REASON_UNRECOGNIZED = ''unrecognized_status''"

datatype trigger_policy = P_AMBIGUOUS | P_RATE_LIMITED | P_PERMANENT | P_TRANSIENT

record trigger_failure =
  tf_policy :: trigger_policy
  tf_reason :: string
  tf_retry_after :: "int option"

definition classify_trigger_error :: "api_error \<Rightarrow> trigger_failure" where
  "classify_trigger_error e =
    (if is_ambiguous e then \<lparr> tf_policy = P_AMBIGUOUS, tf_reason = REASON_PROVIDER_ERROR, tf_retry_after = None \<rparr>
     else if ae_category e = RATE_LIMITED_CAT
     then \<lparr> tf_policy = P_RATE_LIMITED, tf_reason = REASON_RATE_LIMITED, tf_retry_after = ae_retry_after e \<rparr>
     else if ae_category e \<in> {AUTHENTICATION_ERROR, PROVIDER_REJECTED, VALIDATION_ERROR}
     then \<lparr> tf_policy = P_PERMANENT, tf_reason = REASON_CONFIGURATION, tf_retry_after = None \<rparr>
     else \<lparr> tf_policy = P_TRANSIENT, tf_reason = REASON_PROVIDER_ERROR, tf_retry_after = None \<rparr>)"

definition provider_configuration_category :: "api_error \<Rightarrow> string option" where
  "provider_configuration_category e =
    (if ae_status e \<in> {401, 403} then Some ''authentication_error''
     else if ae_status e = 404 then Some ''provider_rejected''
     else if ae_status e = 402 then Some ''quota_exhausted'' else None)"

section \<open>The vocabulary of call outcomes\<close>

definition lower_char :: "char \<Rightarrow> char" where
  "lower_char c = (let n = of_char c :: nat in
    if 65 \<le> n \<and> n \<le> 90 \<or> 192 \<le> n \<and> n \<le> 222 \<and> n \<noteq> 215 then char_of (n + 32) else c)"

definition is_sep :: "char \<Rightarrow> bool" where
  "is_sep c \<longleftrightarrow> py_space c \<or> c = CHR ''-'' \<or> c = CHR ''_''"

function collapse :: "string \<Rightarrow> string" where
  "collapse [] = []"
| "collapse (c # cs) = (if is_sep c then CHR ''_'' # collapse (dropWhile is_sep cs) else c # collapse cs)"
  by pat_completeness auto
termination by (relation "measure length") (auto simp: length_dropWhile_le le_imp_less_Suc)

definition strip_char :: "char \<Rightarrow> string \<Rightarrow> string" where
  "strip_char x s = rev (dropWhile (\<lambda>c. c = x) (rev (dropWhile (\<lambda>c. c = x) s)))"

definition token :: "string option \<Rightarrow> string" where
  "token v = strip_char CHR ''_'' (collapse (map lower_char (py_strip (case v of None \<Rightarrow> [] | Some s \<Rightarrow> s))))"

record call_outcome =
  co_state :: attempt_state
  co_never :: "never_connected_reason option"
  co_mid :: "mid_call_reason option"
  co_key :: "string option"
  co_recognized :: bool
  co_non_final :: bool
  co_basis :: string

definition oc_never :: "never_connected_reason \<Rightarrow> call_outcome" where
  "oc_never r = \<lparr> co_state = A_FAILED_TO_CONNECT, co_never = Some r, co_mid = None,
    co_key = Some (never_connected_value r), co_recognized = True, co_non_final = False, co_basis = ''status'' \<rparr>"

definition oc_dropped :: "mid_call_reason \<Rightarrow> call_outcome" where
  "oc_dropped r = \<lparr> co_state = A_DROPPED_MID_CALL, co_never = None, co_mid = Some r,
    co_key = Some (mid_call_value r), co_recognized = True, co_non_final = False, co_basis = ''status'' \<rparr>"

definition oc_ended :: call_outcome where
  "oc_ended = \<lparr> co_state = A_ENDED_NORMALLY, co_never = None, co_mid = None, co_key = None,
    co_recognized = True, co_non_final = False, co_basis = ''status'' \<rparr>"

definition oc_non_final :: call_outcome where
  "oc_non_final = \<lparr> co_state = A_FAILED_TO_CONNECT, co_never = None, co_mid = None, co_key = None,
    co_recognized = True, co_non_final = True, co_basis = ''status'' \<rparr>"

definition oc_unrecognized :: call_outcome where
  "oc_unrecognized = \<lparr> co_state = A_FAILED_TO_CONNECT, co_never = Some NC_PROVIDER_ERROR, co_mid = None,
    co_key = Some REASON_UNRECOGNIZED, co_recognized = False, co_non_final = False, co_basis = ''unrecognized'' \<rparr>"

definition vocabulary :: "(string \<times> call_outcome) list" where
  "vocabulary =
    [(''completed'', oc_ended), (''user_hangup'', oc_ended), (''end_call'', oc_ended),
     (''call_transferred'', oc_ended), (''transfer_call'', oc_ended), (''call_duration_exceeded'', oc_ended),
     (''user_idle_max_duration_exceeded'', oc_ended),
     (''busy'', oc_never NC_BUSY), (''no_answer'', oc_never NC_NO_ANSWER),
     (''voicemail_detected'', oc_never NC_NO_ANSWER), (''failed'', oc_never NC_PROVIDER_ERROR),
     (''canceled'', oc_never NC_PROVIDER_ERROR), (''error'', oc_never NC_PROVIDER_ERROR),
     (''unexpected_error'', oc_dropped MC_TECHNICAL_ISSUE), (''pipeline_error'', oc_dropped MC_TECHNICAL_ISSUE),
     (''system_cancelled'', oc_dropped MC_TECHNICAL_ISSUE),
     (''initiated'', oc_non_final), (''ringing'', oc_non_final), (''in_progress'', oc_non_final),
     (''answered'', oc_non_final)]"

definition known_as :: "string option \<Rightarrow> call_outcome option" where
  "known_as v = map_of vocabulary (token v)"

definition with_basis :: "call_outcome \<Rightarrow> string \<Rightarrow> call_outcome" where
  "with_basis x basis = x\<lparr> co_basis := basis \<rparr>"

definition classify_call_outcome :: "string option \<Rightarrow> string option \<Rightarrow> call_outcome" where
  "classify_call_outcome status disposition =
    (case known_as status of
       None \<Rightarrow>
         (case known_as disposition of
            Some x \<Rightarrow> if \<not> co_non_final x \<and> co_state x \<noteq> A_ENDED_NORMALLY then with_basis x ''disposition''
                      else oc_unrecognized
          | None \<Rightarrow> oc_unrecognized)
     | Some s \<Rightarrow>
         (case known_as disposition of
            None \<Rightarrow> s
          | Some x \<Rightarrow>
              if co_non_final x \<or> co_non_final s then s
              else if (co_state s = A_ENDED_NORMALLY) \<noteq> (co_state x = A_ENDED_NORMALLY)
              then with_basis oc_unrecognized ''conflict'' else s))"

definition is_opt_out :: "string option \<Rightarrow> string option \<Rightarrow> string list \<Rightarrow> bool" where
  "is_opt_out disposition mapped configured =
    (let codes = map (\<lambda>c. token (Some c)) (filter (\<lambda>c. py_strip c \<noteq> []) configured) in
     codes \<noteq> [] \<and> list_ex (\<lambda>v. case v of None \<Rightarrow> False | Some s \<Rightarrow> s \<noteq> [] \<and> token v \<in> set codes)
       [disposition, mapped])"

section \<open>Spellings\<close>

lemma lower_char_twice [simp]: "lower_char (lower_char c) = lower_char c"
proof -
  have "(of_char c :: nat) < 256" by simp
  then show ?thesis
    by (auto simp: lower_char_def Let_def)
qed

text \<open>What \<open>collapse\<close> leaves: no separator but the underscore, and no two of those in a row.\<close>

fun collapsed :: "string \<Rightarrow> bool" where
  "collapsed [] = True"
| "collapsed (c # cs) = ((is_sep c \<longrightarrow> c = CHR ''_'' \<and> (case cs of [] \<Rightarrow> True | x # _ \<Rightarrow> \<not> is_sep x)) \<and> collapsed cs)"

lemma hd_dropWhile_sep: "dropWhile is_sep cs = x # xs \<Longrightarrow> \<not> is_sep x"
  by (metis hd_dropWhile list.distinct(1) list.sel(1))

lemma hd_collapse: "collapse cs = x # xs \<Longrightarrow> \<exists>y ys. cs = y # ys \<and> (\<not> is_sep y \<longrightarrow> x = y)"
  by (cases cs) (auto split: if_splits)

lemma collapsed_collapse: "collapsed (collapse s)"
proof (induction s rule: collapse.induct)
  case (2 c cs)
  show ?case
  proof (cases "is_sep c")
    case True
    have "\<not> is_sep x" if "collapse (dropWhile is_sep cs) = x # xs" for x xs
      using hd_collapse [OF that] hd_dropWhile_sep by metis
    then show ?thesis using 2(1) True by (auto split: list.split)
  qed (use 2(2) in \<open>auto\<close>)
qed simp

lemma collapse_collapsed: "collapsed s \<Longrightarrow> collapse s = s"
proof (induction s)
  case (Cons c cs)
  have "dropWhile is_sep cs = cs" if "is_sep c" using Cons.prems that by (cases cs) auto
  then show ?case using Cons by auto
qed simp

lemma collapsed_suffix: "collapsed (xs @ ys) \<Longrightarrow> collapsed ys"
  by (induction xs) auto

lemma collapsed_prefix: "collapsed (xs @ ys) \<Longrightarrow> collapsed xs"
proof (induction xs)
  case (Cons c cs)
  then show ?case by (cases cs) auto
qed simp

lemma last_dropWhile_eq: "dropWhile P xs \<noteq> [] \<Longrightarrow> last (dropWhile P xs) = last xs"
  by (induction xs) auto

lemma strip_char_parts: "\<exists>l r. s = l @ strip_char x s @ r"
proof -
  let ?u = "dropWhile (\<lambda>c. c = x) s"
  have "s = takeWhile (\<lambda>c. c = x) s @ ?u" by simp
  moreover have "?u = strip_char x s @ rev (takeWhile (\<lambda>c. c = x) (rev ?u))"
    unfolding strip_char_def by (metis rev_append rev_rev_ident takeWhile_dropWhile_id)
  ultimately show ?thesis by metis
qed

lemma strip_char_ends: "strip_char x s = t \<Longrightarrow> t = [] \<or> hd t \<noteq> x \<and> last t \<noteq> x"
proof -
  assume t: "strip_char x s = t"
  let ?u = "dropWhile (\<lambda>c. c = x) s" and ?r = "dropWhile (\<lambda>c. c = x) (rev (dropWhile (\<lambda>c. c = x) s))"
  have "hd ?r \<noteq> x \<and> last ?r \<noteq> x" if r: "?r \<noteq> []"
  proof
    show "hd ?r \<noteq> x" by (rule hd_dropWhile [OF r])
    have u: "?u \<noteq> []" using r by (metis dropWhile.simps(1) rev.simps(1))
    have "last ?r = hd ?u" using last_dropWhile_eq [OF r] u by (simp only: last_rev)
    then show "last ?r \<noteq> x" using hd_dropWhile [OF u] by metis
  qed
  then show ?thesis using t by (auto simp: strip_char_def hd_rev last_rev)
qed

lemma dropWhile_hd: "xs = [] \<or> \<not> P (hd xs) \<Longrightarrow> dropWhile P xs = xs"
  by (cases xs) auto

lemma strip_char_stripped: "t = [] \<or> hd t \<noteq> x \<and> last t \<noteq> x \<Longrightarrow> strip_char x t = t"
  by (cases "t = []") (simp_all add: strip_char_def dropWhile_hd hd_rev)

lemma strip_char_twice [simp]: "strip_char x (strip_char x s) = strip_char x s"
  by (rule strip_char_stripped [OF strip_char_ends [OF refl]])

lemma collapse_no_space: "c \<in> set (collapse s) \<Longrightarrow> \<not> py_space c"
proof (induction s rule: collapse.induct)
  case (2 d s)
  then show ?case by (auto simp: is_sep_def py_space_def split: if_splits)
qed simp

lemma collapse_lower: "(\<forall>c \<in> set s. lower_char c = c) \<Longrightarrow> c \<in> set (collapse s) \<Longrightarrow> lower_char c = c"
proof (induction s rule: collapse.induct)
  case (2 d s)
  have "lower_char CHR ''_'' = CHR ''_''" by (simp add: lower_char_def)
  with 2 show ?case by (auto split: if_splits dest: set_dropWhileD)
qed simp

lemma py_strip_no_space: "(\<forall>c \<in> set s. \<not> py_space c) \<Longrightarrow> py_strip s = s"
  by (cases "s = []") (simp_all add: py_strip_def dropWhile_hd hd_rev)

text \<open>
  The spelling of a provider value is canonical: reading a token as a value gives the token again, so
  every spelling of a value (case, blanks, hyphens, underscores) is the same vocabulary entry.
\<close>

theorem token_canonical: "token (Some (token v)) = token v"
proof -
  let ?s = "map lower_char (py_strip (case v of None \<Rightarrow> [] | Some s \<Rightarrow> s))"
  obtain l r where p: "collapse ?s = l @ token v @ r" using strip_char_parts [of "collapse ?s" "CHR ''_''"] by (auto simp: token_def)
  have "\<forall>c \<in> set (token v). \<not> py_space c" using collapse_no_space [of _ ?s] p by auto
  then have strip: "py_strip (token v) = token v" by (rule py_strip_no_space)
  have "\<forall>c \<in> set (token v). lower_char c = c" using collapse_lower [of ?s] p by auto
  then have lower: "map lower_char (token v) = token v" by (simp add: map_idI)
  have "collapsed (l @ token v @ r)" using collapsed_collapse [of ?s] p by simp
  then have "collapsed (token v)" by (blast dest: collapsed_suffix collapsed_prefix)
  then have "collapse (token v) = token v" by (rule collapse_collapsed)
  then have "token (Some (token v)) = strip_char CHR ''_'' (token v)" unfolding token_def [of "Some (token v)"] by (simp add: strip lower)
  also have "\<dots> = token v" by (simp add: token_def)
  finally show ?thesis .
qed

section \<open>Classification errs on the safe side\<close>

lemma vocabulary_cases:
  assumes "known_as v = Some x"
  shows "x \<in> {oc_ended, oc_non_final, oc_never NC_BUSY, oc_never NC_NO_ANSWER, oc_never NC_PROVIDER_ERROR,
    oc_dropped MC_TECHNICAL_ISSUE}"
  using map_of_SomeD [OF assms [unfolded known_as_def]] by (auto simp: vocabulary_def)

lemma outcome_sel [simp]:
  "co_state oc_ended = A_ENDED_NORMALLY" "co_state oc_non_final = A_FAILED_TO_CONNECT"
  "co_state (oc_never r) = A_FAILED_TO_CONNECT" "co_state (oc_dropped m) = A_DROPPED_MID_CALL"
  "co_state oc_unrecognized = A_FAILED_TO_CONNECT"
  "co_key oc_ended = None" "co_key oc_non_final = None" "co_key (oc_never r) = Some (never_connected_value r)"
  "co_key (oc_dropped m) = Some (mid_call_value m)" "co_key oc_unrecognized = Some REASON_UNRECOGNIZED"
  "co_non_final oc_ended = False" "co_non_final oc_non_final" "co_non_final (oc_never r) = False"
  "co_non_final (oc_dropped m) = False" "co_non_final oc_unrecognized = False"
  "co_state (with_basis x b) = co_state x" "co_key (with_basis x b) = co_key x"
  "co_non_final (with_basis x b) = co_non_final x"
  by (simp_all add: oc_ended_def oc_non_final_def oc_never_def oc_dropped_def oc_unrecognized_def with_basis_def)

text \<open>
  A call counts as ended normally exactly when its status is a known success word that the disposition
  does not contradict; a reason that could be retried comes only from a known failure word, and never
  beside a known success word; anything else is \<open>unrecognized\<close> or not final, so no redial follows from a
  value that is unknown or contradictory.
\<close>

theorem classify_conservative:
  "(co_state (classify_call_outcome s d) = A_ENDED_NORMALLY \<longleftrightarrow>
      known_as s = Some oc_ended \<and> known_as d \<in> {None, Some oc_ended, Some oc_non_final}) \<and>
    (\<forall>k. co_key (classify_call_outcome s d) = Some k \<and> k \<noteq> REASON_UNRECOGNIZED \<longrightarrow>
      known_as s \<noteq> Some oc_ended \<and> known_as s \<noteq> Some oc_non_final \<and>
      (known_as d \<noteq> Some oc_ended) \<and>
      (\<exists>x. (known_as s = Some x \<or> known_as s = None \<and> known_as d = Some x) \<and> co_key x = Some k)) \<and>
    (known_as s = None \<and> known_as d = None \<longrightarrow> co_key (classify_call_outcome s d) = Some REASON_UNRECOGNIZED)"
proof -
  have ne: "oc_ended \<noteq> oc_non_final" "oc_non_final \<noteq> oc_ended" "oc_never r \<noteq> oc_ended" "oc_never r \<noteq> oc_non_final"
    "oc_dropped m \<noteq> oc_ended" "oc_dropped m \<noteq> oc_non_final" for r m
    by (simp_all add: oc_ended_def oc_non_final_def oc_never_def oc_dropped_def)
  show ?thesis
  proof (cases "known_as s")
    case None
    show ?thesis
    proof (cases "known_as d")
      case (Some y)
      from vocabulary_cases [OF Some] show ?thesis
        by (elim insertE emptyE) (simp_all add: classify_call_outcome_def None Some ne)
    qed (use None in \<open>simp add: classify_call_outcome_def\<close>)
  next
    case s: (Some x)
    show ?thesis
    proof (cases "known_as d")
      case None
      from vocabulary_cases [OF s] show ?thesis
        by (elim insertE emptyE) (simp_all add: classify_call_outcome_def None s ne)
    next
      case (Some y)
      from vocabulary_cases [OF s] vocabulary_cases [OF Some] show ?thesis
        by (elim insertE emptyE) (simp_all add: classify_call_outcome_def Some s ne)
    qed
  qed
qed

section \<open>What may have placed a call is ambiguous\<close>

text \<open>The exchanges after which no call can exist: the request did not leave, or was refused.\<close>

fun refused_or_unsent :: "exchange \<Rightarrow> bool" where
  "refused_or_unsent (Fault f) = (f \<in> {ConnectTimeout, PoolTimeout, ConnectError, OtherHttpError})"
| "refused_or_unsent (Answer code h body) = (code \<ge> 400 \<and> code \<notin> {408, 500, 502, 504})"

lemma classify_status_ambiguous: "classify_status_code code \<in> {AMBIGUOUS_REQUEST, TIMEOUT} \<longleftrightarrow> code \<in> {408, 500, 502, 504}"
  by (auto simp: classify_status_code_def)

lemma parse_trigger_error: "parse_trigger_response r = Inl e \<Longrightarrow> is_ambiguous e"
  by (auto simp: parse_trigger_response_def is_ambiguous_def split: option.splits jval.splits if_splits)

lemma ambiguous_policy: "tf_policy (classify_trigger_error e) = P_AMBIGUOUS \<longleftrightarrow> is_ambiguous e"
  by (simp add: classify_trigger_error_def)

lemma parse_trigger_status: "parse_trigger_response r = Inl e \<Longrightarrow> ae_status e = fst r"
  by (auto simp: parse_trigger_response_def split: option.splits jval.splits if_splits)

lemma trigger_error:
  assumes "trigger_call http_date max_s now x = Inl e"
  shows "is_ambiguous e \<longleftrightarrow> \<not> refused_or_unsent x" "provider_configuration_category e \<noteq> None \<Longrightarrow> refused_or_unsent x"
proof (atomize (full), cases x)
  case (Fault f)
  then show "(is_ambiguous e \<longleftrightarrow> \<not> refused_or_unsent x) \<and> (provider_configuration_category e \<noteq> None \<longrightarrow> refused_or_unsent x)"
    using assms by (cases f) (auto simp: trigger_call_def send_def is_ambiguous_def provider_configuration_category_def)
next
  case (Answer code h body)
  show "(is_ambiguous e \<longleftrightarrow> \<not> refused_or_unsent x) \<and> (provider_configuration_category e \<noteq> None \<longrightarrow> refused_or_unsent x)"
  proof (cases "code \<ge> 400")
    case True
    then show ?thesis using assms Answer classify_status_ambiguous [of code]
      by (auto simp: trigger_call_def send_def is_ambiguous_def provider_configuration_category_def)
  next
    case False
    with assms Answer have "parse_trigger_response (code, body) = Inl e" by (simp add: trigger_call_def send_def)
    with parse_trigger_error [OF this] parse_trigger_status [OF this] False Answer show ?thesis
      by (simp add: provider_configuration_category_def)
  qed
qed

lemma trigger_success:
  assumes "trigger_call http_date max_s now x = Inr n"
  shows "0 < n \<and> \<not> refused_or_unsent x"
  using assms by (cases x) (auto simp: trigger_call_def send_def parse_trigger_response_def
    split: option.splits jval.splits if_splits)

text \<open>
  A failed trigger is ambiguous exactly when the provider may have placed the call: every timeout or
  loss after the request left, 408, 500, 502, 504, and any accepted request whose answer names no run.
  An ambiguous failure is never handled as permanent, as rate limited or as a configuration error, and
  only a positive run id counts as success.
\<close>

theorem trigger_ambiguity_exact:
  "(\<forall>e. trigger_call http_date max_s now x = Inl e \<longrightarrow>
      (is_ambiguous e \<longleftrightarrow> \<not> refused_or_unsent x) \<and>
      (tf_policy (classify_trigger_error e) = P_AMBIGUOUS \<longleftrightarrow> \<not> refused_or_unsent x) \<and>
      (provider_configuration_category e \<noteq> None \<longrightarrow> refused_or_unsent x)) \<and>
    (\<forall>n. trigger_call http_date max_s now x = Inr n \<longrightarrow> 0 < n \<and> \<not> refused_or_unsent x)"
  using trigger_error [of http_date max_s now x] trigger_success [of http_date max_s now x] ambiguous_policy by blast

lemma digits_value_nonneg: "py_digits s \<Longrightarrow> 0 \<le> digits_value s"
proof -
  have "0 \<le> n \<Longrightarrow> list_all (\<lambda>c. 48 \<le> (of_char c :: nat) \<and> (of_char c :: nat) \<le> 57) s \<Longrightarrow>
      0 \<le> fold (\<lambda>c n. 10 * n + (of_char c - 48)) s (n :: int)" for n
  proof (induction s arbitrary: n)
    case (Cons c s)
    have "(48 :: int) \<le> of_char c" using Cons.prems(2) by (metis list.pred_inject(2) of_nat_of_char of_nat_numeral zle_int)
    with Cons show ?case by simp
  qed simp
  then show "py_digits s \<Longrightarrow> 0 \<le> digits_value s" by (simp add: py_digits_def digits_value_def)
qed

text \<open>
  Whatever the provider sends as \<open>Retry-After\<close>, the hint is absent or a number of seconds between 0
  and the configured maximum, and only a 429 carries one.
\<close>

theorem retry_after_bounded:
  "(\<forall>n. parse_retry_after http_date max_s now v = Some n \<longrightarrow> min 0 max_s \<le> n \<and> n \<le> max_s) \<and>
    (\<forall>e. send http_date max_s now x = Inl e \<and> ae_retry_after e \<noteq> None \<longrightarrow> ae_status e = 429)"
proof -
  have "0 \<le> n \<or> max_s \<le> n" "n \<le> max_s" if "parse_retry_after http_date max_s now v = Some n" for n
    using that digits_value_nonneg
    by (fastforce simp: parse_retry_after_def Let_def pos_imp_zdiv_nonneg_iff split: option.splits if_splits)+
  then show ?thesis by (force simp: send_def split: exchange.splits if_splits)
qed

section \<open>No run found means the window was read\<close>

lemma find_runs_from_pages:
  assumes "find_runs_from http_date max_s now attempt answers p left found = Inr ms"
  shows "\<exists>k pages. k < left \<and> (\<forall>i \<le> k. rbind (send http_date max_s now (answers (p + i))) (read_page attempt) = Inr (pages i)) \<and>
    snd (pages k) \<le> int (p + k) \<and> set ms = set found \<union> (\<Union>i \<le> k. set (fst (pages i)))"
  using assms
proof (induction left arbitrary: p found)
  case (Suc left)
  then obtain m total where r: "rbind (send http_date max_s now (answers p)) (read_page attempt) = Inr (m, total)"
    by (auto simp: rbind_Inr_iff)
  show ?case
  proof (cases "int p \<ge> total")
    case True
    then show ?thesis using Suc.prems r by (intro exI [of _ 0] exI [of _ "\<lambda>_. (m, total)"]) auto
  next
    case False
    then have "find_runs_from http_date max_s now attempt answers (Suc p) left (found @ m) = Inr ms"
      using Suc.prems r by simp
    from Suc.IH [OF this] obtain k pages where k: "k < left"
      "\<forall>i \<le> k. rbind (send http_date max_s now (answers (Suc p + i))) (read_page attempt) = Inr (pages i)"
      "snd (pages k) \<le> int (Suc p + k)" "set ms = set (found @ m) \<union> (\<Union>i \<le> k. set (fst (pages i)))" by blast
    let ?pages = "\<lambda>i. case i of 0 \<Rightarrow> (m, total) | Suc j \<Rightarrow> pages j"
    have "\<forall>i \<le> Suc k. rbind (send http_date max_s now (answers (p + i))) (read_page attempt) = Inr (?pages i)"
      using k(2) r by (auto split: nat.split)
    moreover have "(\<Union>i \<le> Suc k. set (fst (?pages i))) = set m \<union> (\<Union>i \<le> k. set (fst (pages i)))"
      by (auto simp: atMost_Suc_eq_insert_0)
    ultimately show ?thesis using k by (intro exI [of _ "Suc k"] exI [of _ ?pages]) auto
  qed
qed simp

text \<open>
  The lookup answers only when it has read every page of the window (at most five, each well-formed):
  its runs are exactly those the pages attribute to the attempt, so "no run" is never a partial answer.
\<close>

theorem find_runs_complete:
  assumes "find_runs_for_attempt http_date max_s now attempt answers = Inr ms"
  shows "\<exists>k pages. 1 \<le> k \<and> k \<le> 5 \<and> snd (pages k) \<le> int k \<and>
    (\<forall>i. 1 \<le> i \<and> i \<le> k \<longrightarrow> rbind (send http_date max_s now (answers i)) (read_page attempt) = Inr (pages i)) \<and>
    set ms = (\<Union>i \<in> {1..k}. set (fst (pages i)))"
proof -
  from find_runs_from_pages [OF assms [unfolded find_runs_for_attempt_def]] obtain k pages where k: "k < RECONCILE_MAX_PAGES"
    "\<forall>i \<le> k. rbind (send http_date max_s now (answers (1 + i))) (read_page attempt) = Inr (pages i)"
    "snd (pages k) \<le> int (1 + k)" "set ms = set [] \<union> (\<Union>i \<le> k. set (fst (pages i)))" by blast
  have "{1..Suc k} = Suc ` {..k}" by (auto simp: image_Suc_atMost)
  then have "(\<Union>i \<in> {1..Suc k}. set (fst (pages (i - 1)))) = (\<Union>i \<le> k. set (fst (pages i)))" by simp
  moreover have "rbind (send http_date max_s now (answers i)) (read_page attempt) = Inr (pages (i - 1))"
    if "1 \<le> i" "i \<le> Suc k" for i using k(2) that by (cases i) auto
  ultimately show ?thesis using k
    by (intro exI [of _ "Suc k"] exI [of _ "\<lambda>i. pages (i - 1)"]) (auto simp: RECONCILE_MAX_PAGES_def)
qed

section \<open>Witnesses\<close>

theorem classify_conservative_witness:
  "co_state (classify_call_outcome (Some '' User-Hangup '') None) = A_ENDED_NORMALLY \<and>
    known_as (Some ''user hangup'') = Some oc_ended \<and>
    co_key (classify_call_outcome (Some ''vanished'') (Some ''qualified'')) = Some REASON_UNRECOGNIZED"
proof -
  have k: "known_as (Some '' User-Hangup '') = Some oc_ended" "known_as (Some ''user hangup'') = Some oc_ended"
      "known_as None = None" "known_as (Some ''vanished'') = None" "known_as (Some ''qualified'') = None"
    by code_simp+
  then show ?thesis
    using classify_conservative [of "Some '' User-Hangup ''" None]
      classify_conservative [of "Some ''vanished''" "Some ''qualified''"] by simp
qed

theorem trigger_ambiguity_exact_witness:
  "\<exists>e. trigger_call (\<lambda>_. None) 3600 0 (Answer 504 None None) = Inl e \<and> is_ambiguous e \<and>
    tf_policy (classify_trigger_error e) = P_AMBIGUOUS"
proof -
  have "\<exists>e. trigger_call (\<lambda>_. None) 3600 0 (Answer 504 None None) = Inl e" by (simp add: trigger_call_def send_def)
  then obtain e where e: "trigger_call (\<lambda>_. None) 3600 0 (Answer 504 None None) = Inl e" by blast
  with trigger_ambiguity_exact [of "\<lambda>_. None" 3600 0 "Answer 504 None None"] show ?thesis by simp
qed

theorem retry_after_bounded_witness:
  "parse_retry_after (\<lambda>_. None) 3600 0 (Some '' 99999 '') = Some 3600 \<and> (3600 :: int) \<le> 3600"
proof -
  have p: "parse_retry_after (\<lambda>_. None) 3600 0 (Some '' 99999 '') = Some 3600" by code_simp
  from retry_after_bounded [of "\<lambda>_. None" 3600 0 "Some '' 99999 ''" "Fault ReadTimeout"] p show ?thesis by blast
qed

definition one_run_page :: jval where
  "one_run_page = JObj [(''runs'', JList [JObj [(''id'', JInt 44), (''initial_context'', JObj [(''call_attempt_id'', JId 20)])]]),
    (''total_pages'', JInt 1)]"

theorem find_runs_complete_witness:
  "find_runs_for_attempt (\<lambda>_. None) 3600 0 20 (\<lambda>_. Answer 200 None (Some one_run_page)) = Inr [44] \<and>
    (\<exists>ms. read_page 20 (200, Some one_run_page) = Inr ms)"
proof -
  have f: "find_runs_for_attempt (\<lambda>_. None) 3600 0 20 (\<lambda>_. Answer 200 None (Some one_run_page)) = Inr [44]" by code_simp
  from find_runs_complete [OF f] have "\<exists>ms. rbind (send (\<lambda>_. None) 3600 0 (Answer 200 None (Some one_run_page))) (read_page 20) = Inr ms"
    by blast
  with f show ?thesis by (simp add: send_def)
qed

end
