(* ===== verification/Reconciliation.thy ===== *)
theory Reconciliation imports Recovery Dograh_Outcome begin

text \<open>
  The part of \<open>app/services/queue/dialer_worker.py\<close> that asks Dograh what an ambiguous trigger did, and
  \<open>app/services/telephony/dograh_reconciliation.py\<close>: the lookup, the adoption of a run, the gate before a
  retry is dialed and its bounded deferrals. Logging is left out. What Dograh answers is the exchange of
  each page, what other transactions commit between two reads is a function on the database.
\<close>

section \<open>Run ids as text\<close>

fun decimal :: "nat \<Rightarrow> string" where
  "decimal n = (if n < 10 then [char_of (48 + n)] else decimal (n div 10) @ [char_of (48 + n mod 10)])"

declare decimal.simps [simp del]

definition int_text :: "int \<Rightarrow> string" where
  "int_text i = (if i < 0 then CHR ''-'' # decimal (nat (- i)) else decimal (nat i))"

lemma digit_char: "n < 10 \<Longrightarrow> (of_char (char_of (48 + n) :: char) :: nat) = 48 + n"
  by (simp add: of_char_of)

lemma digit_char_int:
  assumes "n < 10"
  shows "(of_char (char_of (48 + n) :: char) :: int) = 48 + int n"
proof -
  have "(of_char (char_of (48 + n) :: char) :: int) = int (of_char (char_of (48 + n) :: char))"
    by (simp only: of_nat_of_char)
  also have "\<dots> = int (48 + n)" by (simp only: digit_char [OF assms])
  finally show ?thesis by simp
qed

lemma digits_value_snoc: "digits_value (s @ [c]) = 10 * digits_value s + (of_char c - 48)"
  by (simp add: digits_value_def)

lemma decimal_value: "py_digits (decimal n) \<and> digits_value (decimal n) = int n"
proof (induction n rule: decimal.induct)
  case (1 n)
  show ?case
  proof (cases "n < 10")
    case True
    then have "decimal n = [char_of (48 + n)]" by (simp add: decimal.simps)
    then show ?thesis using digit_char [OF True] digit_char_int [OF True] True
      by (simp only: py_digits_def digits_value_def list.pred_inject fold_simps) simp
  next
    case False
    let ?m = "n mod 10" and ?c = "char_of (48 + n mod 10) :: char"
    have c: "(of_char ?c :: nat) = 48 + ?m" "(of_char ?c :: int) = 48 + int ?m"
      by (rule digit_char, simp) (rule digit_char_int, simp)
    have e: "decimal n = decimal (n div 10) @ [?c]" using False by (simp add: decimal.simps [of n])
    have v: "10 * int (n div 10) + int ?m = int n" by presburger
    from 1 [OF False] have i: "py_digits (decimal (n div 10))" "digits_value (decimal (n div 10)) = int (n div 10)" by auto
    have "digits_value (decimal n) = int n" unfolding e digits_value_snoc i(2) c(2) using v by linarith
    moreover have "py_digits (decimal n)" unfolding e using i(1) c(1) by (simp only: py_digits_def list_all_append list.pred_inject) simp
    ultimately show ?thesis by simp
  qed
qed

lemma int_text_inj:
  assumes "0 \<le> i" "0 \<le> j" "int_text i = int_text j"
  shows "i = j"
proof -
  have "decimal (nat i) = decimal (nat j)" using assms by (simp add: int_text_def)
  then have "digits_value (decimal (nat i)) = digits_value (decimal (nat j))" by (rule arg_cong)
  then have "int (nat i) = int (nat j)" by (simp only: decimal_value)
  then show ?thesis using assms by simp
qed

section \<open>The events of an attempt\<close>

definition AMBIGUOUS_TRIGGER_EVENT :: string where "AMBIGUOUS_TRIGGER_EVENT = ''DOGRAH_TRIGGER_AMBIGUOUS''"

definition is_unresolved_ambiguous_trigger :: "call_attempt \<Rightarrow> db \<Rightarrow> bool" where
  "is_unresolved_ambiguous_trigger a d \<longleftrightarrow>
    a_state a = A_FAILED_TO_CONNECT \<and> a_provider_call_id a = None \<and>
    list_ex (\<lambda>e. e_attempt e = a_id a \<and> e_type e = AMBIGUOUS_TRIGGER_EVENT) (events d)"

definition reopen_for_adoption :: "uuid \<Rightarrow> uuid \<Rightarrow> db \<Rightarrow> db" where
  "reopen_for_adoption attempt contact d =
    upd_contact contact (\<lambda>c. c\<lparr> c_status := C_DIALING \<rparr>)
      (upd_attempt attempt (\<lambda>a. a\<lparr> a_state := A_INITIATED, a_ended_at := None, a_conn_reason := None \<rparr>) d)"

section \<open>What a job came to\<close>

datatype job_outcome = ADMITTED_AND_DIALED | NOT_ADMITTED | NOT_ELIGIBLE | ALREADY_PROCESSED | AMBIGUOUS_RECOVERY
  | IN_FLIGHT | RECONCILED | RECONCILE_MULTIPLE | OUTBOUND_BLOCKED | PROVIDER_HALTED | RECONCILE_DEFERRED
  | RECONCILE_EXPIRED | CAMPAIGN_PAUSED | CAMPAIGN_PAUSED_HELD | JOB_OUTSIDE_WINDOW | WINDOW_DEFERRED | WINDOW_HELD
  | BUDGET_BLOCKED | NO_JOB | DEADLINE_EXCEEDED

section \<open>The lookup\<close>

text \<open>\<open>client\<close> is one use of the Dograh client: None when it is not configured, otherwise its answer.\<close>

record lookup =
  lk_configured :: bool
  lk_pages :: "nat \<Rightarrow> exchange"

definition reconcile_ids :: "contact \<Rightarrow> call_attempt \<Rightarrow> dial_job \<Rightarrow> payload" where
  "reconcile_ids c a j = [(''campaign_id'', JId (c_campaign c)), (''contact_id'', JId (c_id c)),
     (''call_attempt_id'', JId (a_id a)), (''job_id'', JId (dj_id j))]"

definition reconcile_audit :: "string \<Rightarrow> uuid \<Rightarrow> payload \<Rightarrow> db \<Rightarrow> db" where
  "reconcile_audit action attempt meta d = record_audit_event ''dialer-worker'' action ''call_attempt'' (Some attempt) meta d"

definition lookup_runs :: "(string \<Rightarrow> instant option) \<Rightarrow> int \<Rightarrow> instant \<Rightarrow> lookup \<Rightarrow> call_attempt \<Rightarrow> string \<Rightarrow> payload \<Rightarrow>
    db \<Rightarrow> (string + int list) \<times> db" where
  "lookup_runs http_date max_s now lk a stage ids d =
    (let failed = (\<lambda>kind err. (Inl kind, reconcile_audit (''dograh.reconciliation_lookup_'' @ kind) (a_id a)
           (ids @ [(''stage'', JStr stage), (''error_type'', JStr err)]) d)) in
     if \<not> lk_configured lk then failed ''error'' ''DograhConfigurationError''
     else case find_runs_for_attempt http_date max_s now (a_id a) (lk_pages lk) of
         Inl e \<Rightarrow> failed (if ae_category e \<in> {TIMEOUT, AMBIGUOUS_REQUEST} then ''timeout'' else ''error'') ''DograhApiError''
       | Inr runs \<Rightarrow> (Inr runs, d))"

definition resolve_found_runs :: "call_attempt \<Rightarrow> int list \<Rightarrow> string \<Rightarrow> payload \<Rightarrow> db \<Rightarrow> job_outcome \<times> db" where
  "resolve_found_runs a runs stage ids d =
    (if length runs > 1
     then (RECONCILE_MULTIPLE,
       reconcile_audit ''dograh.reconciliation_multiple_runs'' (a_id a)
         (ids @ [(''stage'', JStr stage), (''workflow_run_ids'', JList (map JInt runs))])
         (add_call_event (a_id a) ''DOGRAH_RECONCILE_MULTIPLE''
           [(''workflow_run_ids'', JList (map JInt runs)), (''stage'', JStr stage)] d))
     else (RECONCILED,
       reconcile_audit ''dograh.reconciliation_run_adopted'' (a_id a)
         (ids @ [(''stage'', JStr stage), (''workflow_run_id'', JInt (hd runs))])
         (add_call_event (a_id a) ''DOGRAH_TRIGGER_RECONCILED''
           [(''workflow_run_id'', JInt (hd runs)), (''stage'', JStr stage)]
           (upd_attempt (a_id a) (\<lambda>r. r\<lparr> a_provider := Some ''dograh'',
              a_provider_call_id := Some (int_text (hd runs)) \<rparr>) d))))"

text \<open>The first lookup: the outcome when it resolved something, and the note kept with the failure.\<close>

definition reconcile_with_dograh :: "(string \<Rightarrow> instant option) \<Rightarrow> int \<Rightarrow> instant \<Rightarrow> lookup \<Rightarrow> call_attempt \<Rightarrow> contact \<Rightarrow>
    dial_job \<Rightarrow> db \<Rightarrow> (job_outcome option \<times> string) \<times> db" where
  "reconcile_with_dograh http_date max_s now lk a c j d =
    (let ids = reconcile_ids c a j in
     case lookup_runs http_date max_s now lk a ''first'' ids d of
       (Inl _, d1) \<Rightarrow> ((None, ''unavailable''), d1)
     | (Inr [], d1) \<Rightarrow> ((None, ''no_run_found''), d1)
     | (Inr runs, d1) \<Rightarrow>
         (case resolve_found_runs a runs ''first'' ids d1 of
            (out, d2) \<Rightarrow> ((Some out, if out = RECONCILED then ''adopted'' else ''multiple''), d2)))"

section \<open>The gate before an ambiguous retry\<close>

definition DEFERRED_ACTION :: string where "DEFERRED_ACTION = ''dograh.reconciliation_deferred''"

definition deferrals :: "uuid \<Rightarrow> db \<Rightarrow> nat" where
  "deferrals attempt d = count_where
    (\<lambda>r. au_entity_type r = ''call_attempt'' \<and> au_entity r = Some attempt \<and> au_action r = DEFERRED_ACTION) (audits d)"

definition defer_or_expire :: "settings \<Rightarrow> call_attempt \<Rightarrow> contact \<Rightarrow> payload \<Rightarrow> string \<Rightarrow> db \<Rightarrow> job_outcome \<times> db" where
  "defer_or_expire st prev c ids failure d =
    (let n = int (deferrals (a_id prev) d) in
     if n \<ge> st_reconcile_max_deferrals st
     then (RECONCILE_EXPIRED, upd_contact (c_id c) (\<lambda>r. r\<lparr> c_status := C_COMPLETED_PARTIAL \<rparr>)
       (reconcile_audit ''dograh.reconciliation_expired'' (a_id prev)
         (ids @ [(''deferrals'', JInt n), (''lookup_failure'', JStr failure)]) d))
     else (RECONCILE_DEFERRED, reconcile_audit DEFERRED_ACTION (a_id prev)
         (ids @ [(''lookup_failure'', JStr failure), (''deferrals'', JInt (n + 1))]) d))"

text \<open>The second lookup. \<open>others\<close> is what other transactions commit before the row lock is taken. None lets
  the retry go on; \<open>Inl\<close> is the exception of a row that is gone.\<close>

definition second_reconciliation_gate :: "settings \<Rightarrow> (string \<Rightarrow> instant option) \<Rightarrow> instant \<Rightarrow> lookup \<Rightarrow> (db \<Rightarrow> db) \<Rightarrow>
    contact \<Rightarrow> dial_job \<Rightarrow> db \<Rightarrow> (unit + job_outcome option) \<times> db" where
  "second_reconciliation_gate st http_date now lk others c j d =
    (case get_by_contact_and_number (c_id c) (dj_attempt j - 1) d of
       None \<Rightarrow> (Inr None, d)
     | Some prev \<Rightarrow>
        let ids = reconcile_ids c prev j in
        if a_state prev = A_INITIATED then (Inr (Some ALREADY_PROCESSED), d)
        else if a_provider_call_id prev \<noteq> None \<or> \<not> is_unresolved_ambiguous_trigger prev d then (Inr None, d)
        else case lookup_runs http_date (st_retry_after_max_s st) now lk prev ''second'' ids d of
          (Inl failure, d1) \<Rightarrow> (case defer_or_expire st prev c ids failure d1 of (out, d2) \<Rightarrow> (Inr (Some out), d2))
        | (Inr runs, d1) \<Rightarrow>
            (let d2 = others d1 in
             case get_attempt (a_id prev) d2 of
               None \<Rightarrow> (Inl (), d2)
             | Some p \<Rightarrow>
                 if a_state p \<noteq> A_FAILED_TO_CONNECT \<or> a_provider_call_id p \<noteq> None \<or>
                    get_by_contact_and_number (c_id c) (dj_attempt j) d2 \<noteq> None
                 then (Inr (Some ALREADY_PROCESSED), d2)
                 else if runs \<noteq> []
                 then (case resolve_found_runs p runs ''second'' ids (reopen_for_adoption (a_id p) (c_id c) d2) of
                         (out, d3) \<Rightarrow> (Inr (Some out), d3))
                 else (Inr None, reconcile_audit ''dograh.reconciliation_retry_allowed'' (a_id p)
                         (ids @ [(''stage'', JStr ''second''), (''next_attempt_number'', JInt (dj_attempt j))]) d2)))"

end
