(* ===== verification/Leases.thy ===== *)
theory Leases imports Data_Model begin

text \<open>
  \<open>app/services/queue/concurrency_lease.py\<close>, \<open>app/services/telephony/circuit_breaker.py\<close> and
  \<open>app/services/queue/admission_controller.py\<close>. The three Lua scripts are atomic: each is one
  function on the store. A scope's sorted set is its list of (lease, expiry) with the expiry of
  the whole key; times are milliseconds of the Redis clock. The holder text
  \<open>lease|expires|since|worker\<close> is a record. \<open>locale slot_pool\<close> is what admission relies on.
\<close>

section \<open>The store\<close>

datatype scope = Global | Campaign string | Provider string

record holder =
  h_lease :: string
  h_expires :: int
  h_since :: int
  h_worker :: string
  h_key_expiry :: int

record lease_store =
  ls_members :: "scope \<Rightarrow> (string \<times> int) list"
  ls_key_expiry :: "scope \<Rightarrow> int"
  ls_holders :: "string \<Rightarrow> holder option"

record lease_config =
  lc_ttl :: int
  lc_global :: int
  lc_campaign :: int
  lc_provider :: int
  lc_worker :: string

record lease =
  le_id :: string
  le_holder :: string
  le_campaign :: string
  le_provider :: string

datatype lease_reason = R_duplicate | R_global | R_campaign | R_provider

definition scope_keys :: "string \<Rightarrow> string \<Rightarrow> scope list" where
  "scope_keys camp prov = [Global, Campaign camp, Provider prov]"

fun scope_limit :: "lease_config \<Rightarrow> scope \<Rightarrow> int" where
  "scope_limit c Global = lc_global c"
| "scope_limit c (Campaign _) = lc_campaign c"
| "scope_limit c (Provider _) = lc_provider c"

fun scope_reason :: "scope \<Rightarrow> lease_reason" where
  "scope_reason Global = R_global"
| "scope_reason (Campaign _) = R_campaign"
| "scope_reason (Provider _) = R_provider"

definition empty_store :: lease_store where
  "empty_store = \<lparr> ls_members = (\<lambda>_. []), ls_key_expiry = (\<lambda>_. 0), ls_holders = (\<lambda>_. None) \<rparr>"

text \<open>What Redis answers for a key at a time: an expired key is an empty set.\<close>

definition members :: "int \<Rightarrow> lease_store \<Rightarrow> scope \<Rightarrow> (string \<times> int) list" where
  "members now s k = (if now < ls_key_expiry s k then ls_members s k else [])"

definition holder_at :: "int \<Rightarrow> lease_store \<Rightarrow> string \<Rightarrow> holder option" where
  "holder_at now s h =
    (case ls_holders s h of Some r \<Rightarrow> if now < h_key_expiry r then Some r else None | None \<Rightarrow> None)"

definition unexpired :: "int \<Rightarrow> (string \<times> int) list \<Rightarrow> (string \<times> int) list" where
  "unexpired now ms = filter (\<lambda>(_, e). now < e) ms"

text \<open>\<open>ZADD\<close> sets the score of a member, adding it when absent; \<open>XX\<close> only sets it.\<close>

definition zadd :: "string \<Rightarrow> int \<Rightarrow> (string \<times> int) list \<Rightarrow> (string \<times> int) list" where
  "zadd i e ms = (if i \<in> fst ` set ms then map (\<lambda>(j, x). if j = i then (j, e) else (j, x)) ms else ms @ [(i, e)])"

definition zadd_xx :: "string \<Rightarrow> int \<Rightarrow> (string \<times> int) list \<Rightarrow> (string \<times> int) list" where
  "zadd_xx i e ms = map (\<lambda>(j, x). if j = i then (j, e) else (j, x)) ms"

definition purge :: "int \<Rightarrow> scope list \<Rightarrow> lease_store \<Rightarrow> lease_store" where
  "purge now ks s = s\<lparr> ls_members := (\<lambda>k. if k \<in> set ks then unexpired now (members now s k) else ls_members s k) \<rparr>"

text \<open>\<open>_ACQUIRE_LUA\<close>.\<close>

definition acquire :: "lease_config \<Rightarrow> int \<Rightarrow> string \<Rightarrow> string \<Rightarrow> string \<Rightarrow> string \<Rightarrow> lease_store \<Rightarrow>
    (lease_reason + lease) \<times> lease_store" where
  "acquire c now lease_id camp prov holder s =
    (let expires = now + lc_ttl c;
         ks = scope_keys camp prov;
         s1 = purge now ks s in
     if (case holder_at now s1 holder of Some r \<Rightarrow> h_expires r > now | None \<Rightarrow> False)
     then (Inl R_duplicate, s1)
     else case find (\<lambda>k. int (length (members now s1 k)) \<ge> scope_limit c k) ks of
         Some k \<Rightarrow> (Inl (scope_reason k), s1)
       | None \<Rightarrow>
           (Inr \<lparr> le_id = lease_id, le_holder = holder, le_campaign = camp, le_provider = prov \<rparr>,
            s1\<lparr> ls_members := (\<lambda>k. if k \<in> set ks then zadd lease_id expires (members now s1 k) else ls_members s1 k),
               ls_key_expiry := (\<lambda>k. if k \<in> set ks then expires else ls_key_expiry s1 k),
               ls_holders := (ls_holders s1)(holder := Some \<lparr> h_lease = lease_id, h_expires = expires,
                  h_since = now, h_worker = lc_worker c, h_key_expiry = expires \<rparr>) \<rparr>))"

text \<open>\<open>_RENEW_LUA\<close>: every scope must still hold the lease, unexpired.\<close>

definition holds_live :: "int \<Rightarrow> string \<Rightarrow> (string \<times> int) list \<Rightarrow> bool" where
  "holds_live now i ms = (case map_of ms i of None \<Rightarrow> False | Some e \<Rightarrow> now < e)"

definition renew :: "lease_config \<Rightarrow> int \<Rightarrow> lease \<Rightarrow> lease_store \<Rightarrow> bool \<times> lease_store" where
  "renew c now l s =
    (let expires = now + lc_ttl c;
         ks = scope_keys (le_campaign l) (le_provider l) in
     if \<not> list_all (\<lambda>k. holds_live now (le_id l) (members now s k)) ks then (False, s)
     else (True,
       s\<lparr> ls_members := (\<lambda>k. if k \<in> set ks then zadd_xx (le_id l) expires (members now s k) else ls_members s k),
          ls_key_expiry := (\<lambda>k. if k \<in> set ks then expires else ls_key_expiry s k),
          ls_holders := (case holder_at now s (le_holder l) of
              Some r \<Rightarrow> if h_lease r = le_id l
                then (ls_holders s)(le_holder l := Some (r\<lparr> h_expires := expires, h_key_expiry := expires \<rparr>))
                else ls_holders s
            | None \<Rightarrow> ls_holders s) \<rparr>))"

text \<open>\<open>_RELEASE_LUA\<close>.\<close>

definition release_lease :: "int \<Rightarrow> lease \<Rightarrow> lease_store \<Rightarrow> bool \<times> lease_store" where
  "release_lease now l s =
    (let ks = scope_keys (le_campaign l) (le_provider l) in
     (list_ex (\<lambda>k. le_id l \<in> fst ` set (members now s k)) ks,
      s\<lparr> ls_members := (\<lambda>k. if k \<in> set ks then filter (\<lambda>(j, _). j \<noteq> le_id l) (members now s k) else ls_members s k),
         ls_holders := (case holder_at now s (le_holder l) of
             Some r \<Rightarrow> if h_lease r = le_id l then (ls_holders s)(le_holder l := None) else ls_holders s
           | None \<Rightarrow> ls_holders s) \<rparr>))"

section \<open>Limits\<close>

datatype lease_op =
    L_acquire int string string string string
  | L_renew int lease
  | L_release int lease

fun lease_step :: "lease_config \<Rightarrow> lease_op \<Rightarrow> lease_store \<Rightarrow> lease_store" where
  "lease_step c (L_acquire now i camp prov h) s = snd (acquire c now i camp prov h s)"
| "lease_step c (L_renew now l) s = snd (renew c now l s)"
| "lease_step c (L_release now l) s = snd (release_lease now l s)"

text \<open>No scope ever holds more members than its limit.\<close>

definition within_limits :: "lease_config \<Rightarrow> lease_store \<Rightarrow> bool" where
  "within_limits c s \<longleftrightarrow> (\<forall>k. int (length (ls_members s k)) \<le> max 0 (scope_limit c k) \<and>
    distinct (map fst (ls_members s k)))"

lemma map_fst_zadd_xx [simp]: "map fst (zadd_xx i e ms) = map fst ms"
  by (induction ms) (auto simp: zadd_xx_def)

lemma length_zadd: "length (zadd i e ms) \<le> Suc (length ms)"
  by (simp add: zadd_def)

lemma map_fst_zadd: "map fst (zadd i e ms) = (if i \<in> fst ` set ms then map fst ms else map fst ms @ [i])"
  using map_fst_zadd_xx [of i e ms] by (simp add: zadd_def zadd_xx_def)

lemma distinct_zadd: "distinct (map fst ms) \<Longrightarrow> distinct (map fst (zadd i e ms))"
  by (auto simp: map_fst_zadd)

lemma distinct_map_fst_filter: "distinct (map fst ms) \<Longrightarrow> distinct (map fst (filter P ms))"
  by (induction ms) auto

lemma find_None_all: "find P xs = None \<Longrightarrow> x \<in> set xs \<Longrightarrow> \<not> P x"
  by (induction xs) (auto split: if_splits)

lemma members_le: "length (members now s k) \<le> length (ls_members s k)"
  by (simp add: members_def)

lemma length_unexpired: "length (unexpired now ms) \<le> length ms"
  by (simp add: unexpired_def)

lemma distinct_unexpired: "distinct (map fst ms) \<Longrightarrow> distinct (map fst (unexpired now ms))"
  by (simp add: unexpired_def distinct_map_fst_filter)

lemma members_within:
  "within_limits c s \<Longrightarrow> int (length (members now s k)) \<le> max 0 (scope_limit c k) \<and> distinct (map fst (members now s k))"
  by (auto simp: within_limits_def members_def)

lemma purge_within: "within_limits c s \<Longrightarrow> within_limits c (purge now ks s)"
proof -
  assume w: "within_limits c s"
  have "int (length (unexpired now (members now s k))) \<le> max 0 (scope_limit c k)" for k
    using members_within [OF w, of now k] length_unexpired [of now "members now s k"] by linarith
  with w members_within [OF w] distinct_unexpired show ?thesis
    by (simp add: within_limits_def purge_def)
qed

lemma acquire_within:
  assumes "within_limits c s"
  shows "within_limits c (snd (acquire c now i camp prov h s))"
proof -
  let ?ks = "scope_keys camp prov"
  let ?s1 = "purge now ?ks s"
  have w1: "within_limits c ?s1" by (rule purge_within [OF assms])
  show ?thesis
  proof (cases "find (\<lambda>k. int (length (members now ?s1 k)) \<ge> scope_limit c k) ?ks")
    case None
    have "int (length (zadd i e (members now ?s1 k))) \<le> max 0 (scope_limit c k)" if "k \<in> set ?ks" for k e
      using find_None_all [OF None that] length_zadd [of i e "members now ?s1 k"] by linarith
    moreover have "distinct (map fst (zadd i e (members now ?s1 k)))" for k e
      using w1 by (auto simp: within_limits_def members_def intro!: distinct_zadd)
    ultimately show ?thesis using w1 None
      by (auto simp: acquire_def Let_def within_limits_def split: option.splits)
  qed (use w1 in \<open>auto simp: acquire_def Let_def split: option.splits\<close>)
qed

lemma renew_within:
  assumes "within_limits c s"
  shows "within_limits c (snd (renew c now l s))"
proof -
  have "length (zadd_xx i e ms) = length ms" for i e ms by (simp add: zadd_xx_def)
  then show ?thesis using assms members_within [OF assms]
    by (simp add: renew_def Let_def within_limits_def)
qed

lemma release_within:
  assumes "within_limits c s"
  shows "within_limits c (snd (release_lease now l s))"
proof -
  have "int (length (filter P (members now s k))) \<le> max 0 (scope_limit c k)" for P k
    using members_within [OF assms, of now k] length_filter_le [of P "members now s k"] by linarith
  moreover have "distinct (map fst (filter P (members now s k)))" for P k
    using members_within [OF assms, of now k] by (blast intro: distinct_map_fst_filter)
  ultimately show ?thesis using assms
    by (simp add: release_lease_def Let_def within_limits_def)
qed

text \<open>
  C22: whatever the workers do with leases, in any order and at any times, no scope ever holds more
  leases than its limit; in particular the number of live calls of a campaign, of a provider and
  overall stays within the configured concurrency.
\<close>

theorem leases_within_limits:
  "length (unexpired now (members now (fold (lease_step c) ops empty_store) k)) \<le> nat (scope_limit c k)"
proof -
  have "within_limits c (fold (lease_step c) ops empty_store)"
  proof (induction ops rule: rev_induct)
    case (snoc op ops)
    then show ?case by (cases op) (simp_all add: acquire_within renew_within release_within)
  qed (simp add: within_limits_def empty_store_def)
  then have "int (length (members now (fold (lease_step c) ops empty_store) k)) \<le> max 0 (scope_limit c k)"
    by (simp add: members_within)
  with length_unexpired [of now "members now (fold (lease_step c) ops empty_store) k"] show ?thesis
    by linarith
qed

section \<open>Ownership\<close>

text \<open>The slots held at a time: which lease is live in which scope.\<close>

definition slots :: "int \<Rightarrow> lease_store \<Rightarrow> (string \<times> scope) set" where
  "slots now s = {(i, k). i \<in> fst ` set (unexpired now (members now s k))}"

definition own_slots :: "lease \<Rightarrow> (string \<times> scope) set" where
  "own_slots l = {le_id l} \<times> set (scope_keys (le_campaign l) (le_provider l))"

lemma in_slots: "(i, k) \<in> slots now s \<longleftrightarrow> (\<exists>e. (i, e) \<in> set (members now s k) \<and> now < e)"
  by (force simp: slots_def unexpired_def)

lemma in_unexpired [simp]: "(i, e) \<in> set (unexpired now ms) \<longleftrightarrow> (i, e) \<in> set ms \<and> now < e"
  by (simp add: unexpired_def)

lemma members_purge: "members now (purge now ks s) k =
    (if k \<in> set ks then unexpired now (members now s k) else members now s k)"
  by (simp add: purge_def members_def unexpired_def)

lemma slots_purge [simp]: "slots now (purge now ks s) = slots now s"
  by (auto simp: in_slots members_purge split: if_splits)

lemma holders_purge [simp]: "ls_holders (purge now ks s) = ls_holders s" "holder_at t (purge now ks s) h = holder_at t s h"
  by (simp_all add: purge_def holder_at_def)

lemma in_zadd: "(j, x) \<in> set (zadd i e ms) \<Longrightarrow> j = i \<or> (j, x) \<in> set ms"
  by (auto simp: zadd_def split: if_splits)

lemma zadd_in: "(i, e) \<in> set (zadd i e ms)"
  by (force simp: zadd_def)

lemma acquire_InrD:
  assumes "acquire c now i camp prov h s = (Inr l, s')"
  shows "l = \<lparr> le_id = i, le_holder = h, le_campaign = camp, le_provider = prov \<rparr> \<and>
    slots now s' \<subseteq> slots now s \<union> own_slots l \<and>
    (0 < lc_ttl c \<longrightarrow> own_slots l \<subseteq> slots now s') \<and>
    ls_holders s' h = Some \<lparr> h_lease = i, h_expires = now + lc_ttl c, h_since = now,
      h_worker = lc_worker c, h_key_expiry = now + lc_ttl c \<rparr>"
proof -
  let ?ks = "scope_keys camp prov" let ?s1 = "purge now ?ks s"
  have l: "l = \<lparr> le_id = i, le_holder = h, le_campaign = camp, le_provider = prov \<rparr>"
    and s': "s' = ?s1\<lparr> ls_members := (\<lambda>k. if k \<in> set ?ks then zadd i (now + lc_ttl c) (members now ?s1 k) else ls_members ?s1 k),
      ls_key_expiry := (\<lambda>k. if k \<in> set ?ks then now + lc_ttl c else ls_key_expiry ?s1 k),
      ls_holders := (ls_holders ?s1)(h := Some \<lparr> h_lease = i, h_expires = now + lc_ttl c,
        h_since = now, h_worker = lc_worker c, h_key_expiry = now + lc_ttl c \<rparr>) \<rparr>"
    using assms by (auto simp: acquire_def Let_def split: if_splits option.splits)
  have m: "members now s' k = (if k \<in> set ?ks then (if 0 < lc_ttl c then zadd i (now + lc_ttl c) (members now ?s1 k) else [])
      else members now ?s1 k)" for k
    by (simp add: s' members_def)
  have "slots now s' \<subseteq> slots now ?s1 \<union> own_slots l"
  proof (rule subrelI)
    fix j k assume "(j, k) \<in> slots now s'"
    then obtain e where "(j, e) \<in> set (members now s' k)" "now < e" by (auto simp: in_slots)
    then have "(j, e) \<in> set (members now ?s1 k) \<or> (j = i \<and> k \<in> set ?ks)"
      using in_zadd [of j e i "now + lc_ttl c" "members now ?s1 k"] by (auto simp: m split: if_splits)
    with \<open>now < e\<close> show "(j, k) \<in> slots now ?s1 \<union> own_slots l"
      by (auto simp: in_slots l own_slots_def simp del: slots_purge)
  qed
  moreover have "own_slots l \<subseteq> slots now s'" if "0 < lc_ttl c"
  proof (rule subrelI)
    fix j k assume "(j, k) \<in> own_slots l"
    then have "j = i" "k \<in> set ?ks" by (auto simp: l own_slots_def)
    with that zadd_in [of i "now + lc_ttl c"] show "(j, k) \<in> slots now s'"
      unfolding in_slots by (intro exI [of _ "now + lc_ttl c"]) (simp add: m)
  qed
  moreover have "ls_holders s' h = Some \<lparr> h_lease = i, h_expires = now + lc_ttl c, h_since = now,
      h_worker = lc_worker c, h_key_expiry = now + lc_ttl c \<rparr>" by (simp add: s')
  ultimately show ?thesis using l by (metis slots_purge)
qed

lemma acquire_InlD:
  assumes "acquire c now i camp prov h s = (Inl r, s')"
  shows "slots now s' = slots now s \<and> ls_holders s' = ls_holders s"
  using assms by (auto simp: acquire_def Let_def split: if_splits option.splits)

lemma members_release: "members now (snd (release_lease now l s)) k =
    (if k \<in> set (scope_keys (le_campaign l) (le_provider l))
     then filter (\<lambda>(j, _). j \<noteq> le_id l) (members now s k) else members now s k)"
  by (simp add: release_lease_def Let_def members_def)

lemma release_slots:
  "slots now (snd (release_lease now l s)) = slots now s - own_slots l"
proof -
  have "(i, k) \<in> slots now (snd (release_lease now l s)) \<longleftrightarrow> (i, k) \<in> slots now s - own_slots l" for i k
    by (auto simp: in_slots members_release own_slots_def)
  then show ?thesis by auto
qed

lemma holds_live_slot: "holds_live now i (members now s k) \<Longrightarrow> (i, k) \<in> slots now s"
  by (auto simp: holds_live_def in_slots split: option.splits dest!: map_of_SomeD)

lemma in_zadd_xx: "(j, x) \<in> set (zadd_xx i e ms) \<Longrightarrow> j = i \<or> (j, x) \<in> set ms"
  by (auto simp: zadd_xx_def split: if_splits)

lemma renew_slots: "slots now (snd (renew c now l s)) \<subseteq> slots now s \<union> own_slots l"
proof (rule subrelI)
  fix j k assume "(j, k) \<in> slots now (snd (renew c now l s))"
  then obtain e where e: "(j, e) \<in> set (members now (snd (renew c now l s)) k)" "now < e" by (auto simp: in_slots)
  have "members now (snd (renew c now l s)) k = members now s k \<or>
    (k \<in> set (scope_keys (le_campaign l) (le_provider l)) \<and>
      members now (snd (renew c now l s)) k \<in> {[], zadd_xx (le_id l) (now + lc_ttl c) (members now s k)})"
    by (simp add: renew_def Let_def members_def)
  with e in_zadd_xx [of j e "le_id l" "now + lc_ttl c" "members now s k"]
  have "(j, e) \<in> set (members now s k) \<or> (j = le_id l \<and> k \<in> set (scope_keys (le_campaign l) (le_provider l)))"
    by auto
  with e(2) show "(j, k) \<in> slots now s \<union> own_slots l" by (auto simp: in_slots own_slots_def)
qed

text \<open>
  A release frees exactly the slots of its own lease and a renewal brings no slot into being:
  a stale worker, whose lease expired or was reclaimed, cannot free, extend or recreate anybody's slot.
\<close>

theorem lease_ownership:
  "slots now (snd (release_lease now l s)) = slots now s - own_slots l \<and>
    (\<forall>h. h \<noteq> le_holder l \<longrightarrow> ls_holders (snd (release_lease now l s)) h = ls_holders s h) \<and>
    slots now (snd (renew c now l s)) \<subseteq> slots now s \<union> own_slots l \<and>
    (fst (renew c now l s) \<longrightarrow> own_slots l \<subseteq> slots now s) \<and>
    (\<not> fst (renew c now l s) \<longrightarrow> snd (renew c now l s) = s)"
proof -
  have "own_slots l \<subseteq> slots now s" if "fst (renew c now l s)"
    using that holds_live_slot by (auto simp: renew_def Let_def own_slots_def list_all_iff split: if_splits)
  moreover have "ls_holders (snd (release_lease now l s)) h = ls_holders s h" if "h \<noteq> le_holder l" for h
    using that by (auto simp: release_lease_def Let_def split: option.splits)
  moreover have "snd (renew c now l s) = s" if "\<not> fst (renew c now l s)"
    using that by (auto simp: renew_def Let_def split: if_splits)
  ultimately show ?thesis using release_slots renew_slots by blast
qed

theorem lease_ownership_witness:
  "slots 5 (snd (release_lease 5 \<lparr> le_id = ''a'', le_holder = ''h'', le_campaign = ''c'', le_provider = ''p'' \<rparr>
      empty_store)) = {} \<and>
    \<not> fst (renew \<lparr> lc_ttl = 9, lc_global = 1, lc_campaign = 1, lc_provider = 1, lc_worker = ''w'' \<rparr> 5
      \<lparr> le_id = ''a'', le_holder = ''h'', le_campaign = ''c'', le_provider = ''p'' \<rparr> empty_store)"
proof -
  have e: "slots 5 empty_store = {}" by (auto simp: in_slots empty_store_def members_def)
  have "own_slots \<lparr> le_id = ''a'', le_holder = ''h'', le_campaign = ''c'', le_provider = ''p'' \<rparr> \<noteq> {}"
    by (simp add: own_slots_def scope_keys_def)
  with lease_ownership [of 5 "\<lparr> le_id = ''a'', le_holder = ''h'', le_campaign = ''c'', le_provider = ''p'' \<rparr>" empty_store] e
  show ?thesis by auto
qed

section \<open>One lease per holder\<close>

fun op_time :: "lease_op \<Rightarrow> int" where
  "op_time (L_acquire now _ _ _ _) = now" | "op_time (L_renew now _) = now" | "op_time (L_release now _) = now"

fun releases :: "string \<Rightarrow> lease_op \<Rightarrow> bool" where
  "releases i (L_release _ l) = (le_id l = i)" | "releases i _ = False"

definition held_until :: "string \<Rightarrow> string \<Rightarrow> int \<Rightarrow> lease_store \<Rightarrow> bool" where
  "held_until h i t s \<longleftrightarrow> (\<exists>r. ls_holders s h = Some r \<and> h_lease r = i \<and> t \<le> h_expires r \<and> t \<le> h_key_expiry r)"

lemma held_duplicate:
  "held_until h i t s \<Longrightarrow> now < t \<Longrightarrow> acquire c now j camp prov h s = (Inl R_duplicate, purge now (scope_keys camp prov) s)"
  by (auto simp: held_until_def acquire_def Let_def holder_at_def)

lemma held_step:
  assumes "held_until h i t s" "op_time op < t" "t \<le> op_time op + lc_ttl c" "\<not> releases i op"
  shows "held_until h i t (lease_step c op s)"
proof (cases op)
  case (L_acquire now j camp prov h')
  show ?thesis
  proof (cases "h' = h")
    case True
    then show ?thesis using assms L_acquire by (simp add: held_duplicate held_until_def)
  next
    case False
    then have "ls_holders (snd (acquire c now j camp prov h' s)) h = ls_holders s h"
      by (auto simp: acquire_def Let_def split: option.splits)
    then show ?thesis using assms(1) by (simp add: L_acquire held_until_def)
  qed
next
  case (L_renew now l)
  then show ?thesis using assms
    by (auto simp: held_until_def renew_def Let_def holder_at_def split: option.splits if_splits)
next
  case (L_release now l)
  then show ?thesis using assms
    by (auto simp: held_until_def release_lease_def Let_def holder_at_def split: option.splits if_splits)
qed

text \<open>
  Once a holder (an attempt's idempotency key) has a lease, no second lease is given for it
  until the first has expired or was released, whatever other workers acquire, renew or release in
  between: a duplicate delivery of the job cannot dial beside the first.
\<close>

theorem one_lease_per_holder:
  assumes "acquire c t i camp prov h s = (Inr l, s1)"
    and "\<forall>op \<in> set ops. t \<le> op_time op \<and> op_time op < t + lc_ttl c \<and> \<not> releases i op"
    and "t \<le> now" "now < t + lc_ttl c"
  shows "fst (acquire c now j camp' prov' h (fold (lease_step c) ops s1)) = Inl R_duplicate"
proof -
  have "held_until h i (t + lc_ttl c) s1"
    using acquire_InrD [OF assms(1)] by (simp add: held_until_def)
  with assms(2) have "held_until h i (t + lc_ttl c) (fold (lease_step c) ops s1)"
  proof (induction ops arbitrary: s1)
    case (Cons op ops)
    then show ?case using held_step [of h i "t + lc_ttl c" s1 op c] by simp
  qed simp
  with assms(4) show ?thesis by (simp add: held_duplicate)
qed

definition small_config :: lease_config where
  "small_config = \<lparr> lc_ttl = 120000, lc_global = 2, lc_campaign = 1, lc_provider = 2, lc_worker = ''w'' \<rparr>"

theorem one_lease_per_holder_witness:
  "fst (acquire small_config 100 ''b'' ''c2'' ''p'' ''job'' (fold (lease_step small_config)
      [L_acquire 50 ''x'' ''c2'' ''p'' ''other'']
      (snd (acquire small_config 0 ''a'' ''c1'' ''p'' ''job'' empty_store)))) = Inl R_duplicate"
proof -
  obtain l s1 where a: "acquire small_config 0 ''a'' ''c1'' ''p'' ''job'' empty_store = (Inr l, s1)"
    by (simp add: acquire_def small_config_def empty_store_def purge_def members_def holder_at_def unexpired_def
      scope_keys_def Let_def)
  from one_lease_per_holder [OF a, of "[L_acquire 50 ''x'' ''c2'' ''p'' ''other'']" 100] a show ?thesis
    by (simp add: small_config_def)
qed

end
