(* ===== verification/Admission.thy ===== *)
theory Admission imports Leases begin

text \<open>
  \<open>app/services/telephony/circuit_breaker.py\<close> and \<open>app/services/queue/admission_controller.py\<close>:
  whether one more call may be placed now. A Redis failure at each point is an argument
  (\<open>faults\<close>). A CPS counter is keyed by its scope and its second, so it is never used again after its two
  second life: the model keeps it.
\<close>

section \<open>Circuit breaker\<close>

record breaker =
  cb_errors :: int
  cb_open_until :: "instant option"

definition closed_breaker :: breaker where
  "closed_breaker = \<lparr> cb_errors = 0, cb_open_until = None \<rparr>"

definition breaker_is_open :: "instant \<Rightarrow> breaker \<Rightarrow> bool" where
  "breaker_is_open now b = (case cb_open_until b of None \<Rightarrow> False | Some t \<Rightarrow> now < t)"

definition record_success :: "breaker \<Rightarrow> breaker" where
  "record_success b = b\<lparr> cb_errors := 0 \<rparr>"

definition record_failure :: "settings \<Rightarrow> instant \<Rightarrow> breaker \<Rightarrow> breaker" where
  "record_failure st now b =
    (let n = cb_errors b + 1; b1 = b\<lparr> cb_errors := n \<rparr> in
     if n \<ge> st_breaker_threshold st
     then b1\<lparr> cb_open_until := Some (now + seconds (st_breaker_open_s st)) \<rparr> else b1)"

datatype provider_outcome = Succeeded | Failed instant

fun breaker_step :: "settings \<Rightarrow> provider_outcome \<Rightarrow> breaker \<Rightarrow> breaker" where
  "breaker_step st Succeeded b = record_success b"
| "breaker_step st (Failed now) b = record_failure st now b"

text \<open>The failures since the last success, newest first.\<close>

definition trailing_failures :: "provider_outcome list \<Rightarrow> provider_outcome list" where
  "trailing_failures os = takeWhile (\<lambda>x. x \<noteq> Succeeded) (rev os)"

fun failure_time :: "provider_outcome \<Rightarrow> instant" where
  "failure_time (Failed t) = t" | "failure_time Succeeded = 0"

lemma breaker_errors: "cb_errors (fold (breaker_step st) os closed_breaker) = int (length (trailing_failures os))"
proof (induction os rule: rev_induct)
  case (snoc x os)
  then show ?case
    by (cases x) (simp_all add: trailing_failures_def record_success_def record_failure_def Let_def)
qed (simp add: closed_breaker_def trailing_failures_def)

text \<open>
  After any history of outcomes that ends in a failure, the circuit is opened, for its whole
  open time from that failure, exactly when the threshold of consecutive failures has been reached;
  below the threshold the failure leaves it as it was.
\<close>

theorem breaker_opens_at_threshold:
  "(let b = fold (breaker_step st) os closed_breaker; b' = fold (breaker_step st) (os @ [Failed t]) closed_breaker in
    if int (length (trailing_failures (os @ [Failed t]))) \<ge> st_breaker_threshold st
    then \<forall>now. breaker_is_open now b' \<longleftrightarrow> now < t + seconds (st_breaker_open_s st)
    else \<forall>now. breaker_is_open now b' \<longleftrightarrow> breaker_is_open now b)"
proof -
  have "int (length (trailing_failures (os @ [Failed t]))) = cb_errors (fold (breaker_step st) os closed_breaker) + 1"
    unfolding breaker_errors by (simp add: trailing_failures_def)
  then show ?thesis by (simp add: Let_def record_failure_def breaker_is_open_def)
qed

section \<open>Calls per second\<close>

type_synonym cps_key = "scope \<times> int"
type_synonym counters = "cps_key \<Rightarrow> int"

definition incr :: "cps_key \<Rightarrow> counters \<Rightarrow> counters" where
  "incr k cs = cs(k := cs k + 1)"

definition rollback :: "cps_key list \<Rightarrow> counters \<Rightarrow> counters" where
  "rollback ks cs = fold (\<lambda>k cs. cs(k := cs k - 1)) ks cs"

datatype cps_result = Cps_ok | Cps_exceeded | Cps_error

text \<open>The INCR loop: \<open>fails\<close> says which INCR finds Redis down; \<open>rollback_fails\<close> is a failure of the
  DECRs, which also surfaces as the Redis error.\<close>

fun cps_loop :: "(nat \<Rightarrow> bool) \<Rightarrow> bool \<Rightarrow> nat \<Rightarrow> (cps_key \<times> int) list \<Rightarrow> cps_key list \<Rightarrow> counters \<Rightarrow>
    cps_result \<times> counters" where
  "cps_loop fails rollback_fails n [] ds cs = (Cps_ok, cs)"
| "cps_loop fails rollback_fails n ((k, limit) # rest) ds cs =
    (if fails n then (Cps_error, cs)
     else let cs1 = incr k cs; ds1 = ds @ [k] in
       if cs1 k > limit
       then (if rollback_fails then (Cps_error, cs1) else (Cps_exceeded, rollback ds1 cs1))
       else cps_loop fails rollback_fails (Suc n) rest ds1 cs1)"

record cps_limits =
  cl_global :: int
  cl_campaign :: int
  cl_provider :: int

definition cps_keys :: "cps_limits \<Rightarrow> int \<Rightarrow> string \<Rightarrow> string \<Rightarrow> (cps_key \<times> int) list" where
  "cps_keys cl second camp prov =
    [((Global, second), cl_global cl), ((Campaign camp, second), cl_campaign cl),
     ((Provider prov, second), cl_provider cl)]"

section \<open>Admission\<close>

record faults =
  f_breaker :: bool
  f_acquire :: "bool option"
  f_incr :: "nat \<Rightarrow> bool"
  f_rollback :: bool
  f_release :: bool

definition no_faults :: faults where
  "no_faults = \<lparr> f_breaker = False, f_acquire = None, f_incr = (\<lambda>_. False), f_rollback = False, f_release = False \<rparr>"

datatype admission = Admitted lease | Circuit_open | Duplicate_lease | Concurrency_exceeded | Cps_exceeded_result
  | Redis_error

text \<open>\<open>release\<close> never raises: with Redis down the lease is left to its TTL.\<close>

definition safe_release :: "bool \<Rightarrow> int \<Rightarrow> lease \<Rightarrow> lease_store \<Rightarrow> lease_store" where
  "safe_release fails now l s = (if fails then s else snd (release_lease now l s))"

text \<open>\<open>f_acquire = Some did_run\<close>: the acquire call failed, after the script did_run or before.\<close>

definition try_admit :: "cps_limits \<Rightarrow> lease_config \<Rightarrow> faults \<Rightarrow> instant \<Rightarrow> int \<Rightarrow> int \<Rightarrow> string \<Rightarrow> string \<Rightarrow>
    string \<Rightarrow> string \<Rightarrow> breaker \<Rightarrow> lease_store \<times> counters \<Rightarrow> admission \<times> lease_store \<times> counters" where
  "try_admit cl lc f now now_ms second lease_id camp prov holder b st =
    (case st of (s, cs) \<Rightarrow>
      if f_breaker f then (Redis_error, s, cs)
      else if breaker_is_open now b then (Circuit_open, s, cs)
      else case f_acquire f of
        Some did_run \<Rightarrow>
          let s1 = (if did_run then snd (acquire lc now_ms lease_id camp prov holder s) else s);
              l = \<lparr> le_id = lease_id, le_holder = holder, le_campaign = camp, le_provider = prov \<rparr>
          in (Redis_error, safe_release (f_release f) now_ms l s1, cs)
      | None \<Rightarrow>
          (case acquire lc now_ms lease_id camp prov holder s of
             (Inl R_duplicate, s1) \<Rightarrow> (Duplicate_lease, s1, cs)
           | (Inl _, s1) \<Rightarrow> (Concurrency_exceeded, s1, cs)
           | (Inr l, s1) \<Rightarrow>
               (case cps_loop (f_incr f) (f_rollback f) 0 (cps_keys cl second camp prov) [] cs of
                  (Cps_ok, cs1) \<Rightarrow> (Admitted l, s1, cs1)
                | (Cps_exceeded, cs1) \<Rightarrow> (Cps_exceeded_result, safe_release (f_release f) now_ms l s1, cs1)
                | (Cps_error, cs1) \<Rightarrow> (Redis_error, safe_release (f_release f) now_ms l s1, cs1))))"

section \<open>The slot contract\<close>

locale slot_pool =
  fixes take_slot :: "'a \<Rightarrow> 's \<Rightarrow> ('r + 'l) \<times> 's" and give_back :: "'l \<Rightarrow> 's \<Rightarrow> 's"
    and held :: "'s \<Rightarrow> 'x set" and own :: "'l \<Rightarrow> 'x set"
  assumes taken: "take_slot a s = (Inr l, s') \<Longrightarrow> held s' \<subseteq> held s \<union> own l"
    and rejected: "take_slot a s = (Inl r, s') \<Longrightarrow> held s' \<subseteq> held s"
    and given_back: "held (give_back l s) \<subseteq> held s - own l"
begin

lemma undo: "take_slot a s = (Inr l, s') \<Longrightarrow> held (give_back l s') \<subseteq> held s"
  using taken given_back [of l s'] by blast

end

interpretation lease_slots: slot_pool "\<lambda>(i, camp, prov, h). acquire c now i camp prov h"
    "\<lambda>l s. snd (release_lease now l s)" "slots now" own_slots for c now
proof
  fix a :: "string \<times> string \<times> string \<times> string" and s l s'
  assume "(case a of (i, camp, prov, h) \<Rightarrow> acquire c now i camp prov h) s = (Inr l, s')"
  then show "slots now s' \<subseteq> slots now s \<union> own_slots l" by (auto split: prod.splits dest!: acquire_InrD)
next
  fix a :: "string \<times> string \<times> string \<times> string" and s r s'
  assume "(case a of (i, camp, prov, h) \<Rightarrow> acquire c now i camp prov h) s = (Inl r, s')"
  then show "slots now s' \<subseteq> slots now s" by (auto split: prod.splits dest!: acquire_InlD)
next
  fix l s show "slots now (snd (release_lease now l s)) \<subseteq> slots now s - own_slots l"
    by (simp add: release_slots)
qed

lemma acquire_undo:
  assumes "acquire c now i camp prov h s = (Inr l, s')"
  shows "slots now (snd (release_lease now l s')) \<subseteq> slots now s"
  using lease_slots.undo [of c now "(i, camp, prov, h)" s l s'] assms by simp

lemma rollback_apply: "rollback ks cs x = cs x - int (count_list ks x)"
  unfolding rollback_def by (induction ks arbitrary: cs) auto

lemma cps_loop_exceeded:
  assumes "cps_loop fails rf n kls ds cs = (Cps_exceeded, cs')" "distinct (map fst kls)"
  shows "cs' = rollback ds cs"
  using assms
proof (induction fails rf n kls ds cs rule: cps_loop.induct)
  case (2 fails rf n k limit rest ds cs)
  have undo: "rollback (ds @ [k]) (incr k cs) = rollback ds cs"
    by (rule ext) (simp add: rollback_apply incr_def)
  show ?case using 2 undo by (auto simp: Let_def split: if_splits)
qed simp

text \<open>
  An admission that is not granted leaves no slot behind, unless Redis was down for the release
  itself (then the lease's TTL frees it): whether it is refused by the circuit, the concurrency,
  the rate or a Redis error, no slot is held that was not held before; and a refusal for the rate
  also gives back every call it had counted.
\<close>

theorem refused_admission_holds_nothing:
  assumes "try_admit cl lc f now t second i camp prov h b (s, cs) = (r, s', cs')"
    and "\<forall>l. r \<noteq> Admitted l" and "\<not> f_release f"
  shows "slots t s' \<subseteq> slots t s \<and> (r \<noteq> Redis_error \<longrightarrow> cs' = cs)"
proof (cases "f_breaker f \<or> breaker_is_open now b")
  case True
  then show ?thesis using assms(1) by (auto simp: try_admit_def split: if_splits)
next
  case False
  let ?l = "\<lparr> le_id = i, le_holder = h, le_campaign = camp, le_provider = prov \<rparr>"
  show ?thesis
  proof (cases "f_acquire f")
    case (Some did_run)
    obtain q s1 where a: "acquire lc t i camp prov h s = (q, s1)" by (metis surj_pair)
    have "slots t (snd (release_lease t ?l s1)) \<subseteq> slots t s"
      using a acquire_undo [of lc t i camp prov h s] acquire_InrD [of lc t i camp prov h s]
        acquire_InlD [of lc t i camp prov h s] release_slots [of t ?l s1] by (cases q) fastforce+
    moreover have "slots t (snd (release_lease t ?l s)) \<subseteq> slots t s" by (simp add: release_slots)
    ultimately show ?thesis using assms False Some a
      by (auto simp: try_admit_def Let_def safe_release_def split: if_splits)
  next
    case None
    obtain q s1 where a: "acquire lc t i camp prov h s = (q, s1)" by (metis surj_pair)
    show ?thesis
    proof (cases q)
      case (Inl reason)
      then show ?thesis using assms False None a acquire_InlD [of lc t i camp prov h s reason s1]
        by (cases reason) (auto simp: try_admit_def)
    next
      case (Inr l)
      obtain res cs1 where c: "cps_loop (f_incr f) (f_rollback f) 0 (cps_keys cl second camp prov) [] cs = (res, cs1)"
        by (metis surj_pair)
      have "distinct (map fst (cps_keys cl second camp prov))" by (simp add: cps_keys_def)
      with c have "res = Cps_exceeded \<Longrightarrow> cs1 = cs"
        using cps_loop_exceeded [of "f_incr f" "f_rollback f" 0 "cps_keys cl second camp prov" "[]" cs cs1]
        by (simp add: rollback_def)
      with acquire_undo [of lc t i camp prov h s l s1] show ?thesis using assms False None a Inr c
        by (cases res) (auto simp: try_admit_def safe_release_def)
    qed
  qed
qed

theorem refused_admission_witness:
  "\<exists>s' cs'. try_admit \<lparr> cl_global = 0, cl_campaign = 5, cl_provider = 5 \<rparr> small_config no_faults 0 0 0
      ''a'' ''c'' ''p'' ''h'' closed_breaker (empty_store, \<lambda>_. 0) = (Cps_exceeded_result, s', cs') \<and>
    slots 0 s' = {} \<and> cs' = (\<lambda>_. 0)"
proof -
  obtain r s' cs' where t: "try_admit \<lparr> cl_global = 0, cl_campaign = 5, cl_provider = 5 \<rparr> small_config no_faults 0 0 0
      ''a'' ''c'' ''p'' ''h'' closed_breaker (empty_store, \<lambda>_. 0) = (r, s', cs')" by (metis prod_cases3)
  then have r: "r = Cps_exceeded_result"
    by (simp add: try_admit_def no_faults_def breaker_is_open_def closed_breaker_def acquire_def small_config_def
      empty_store_def purge_def members_def holder_at_def unexpired_def scope_keys_def Let_def cps_keys_def incr_def
      rollback_def)
  have "slots 0 empty_store = {}" by (auto simp: in_slots empty_store_def members_def)
  moreover have "\<not> f_release no_faults" by (simp add: no_faults_def)
  ultimately show ?thesis using refused_admission_holds_nothing [OF t] r t by auto
qed

end
