(* ===== verification/Trigger.thy ===== *)
theory Trigger imports Reconciliation Admission begin

text \<open>
  The part of \<open>app/services/queue/dialer_worker.py\<close> that places a call on a claimed attempt, and what follows
  from the answer: \<open>_place_call\<close>, \<open>_place_call_via_dograh\<close>, \<open>_hold_for_provider_halt\<close>,
  \<open>_record_dograh_trigger_failure\<close> and \<open>_handle_never_connected_failure\<close>. What the outside answers to one job
  (clocks, the provider, faults of Redis and PostgreSQL, what other transactions commit) is the record
  \<open>answers\<close>. \<open>dw_sent\<close> is a ghost: the trigger requests that left this process, each with its attempt and
  whether it may have placed a call.
\<close>

section \<open>State and answers\<close>

record dialer =
  dw_db :: db
  dw_sched :: schedule
  dw_gate :: gate
  dw_breaker :: breaker
  dw_streak :: streak
  dw_sent :: "(uuid \<times> bool) list"

datatype moment = At_read | At_stage1 | At_window | At_age | At_lookup | At_eligibility | At_second_lookup | At_gate
  | At_claim | At_trigger | At_end | At_settle

text \<open>Where the process dies or the deadline strikes, if at all: before the claim is committed, between the
  commit and the request, or after the request left.\<close>

datatype cut = No_cut | Before_claim | After_claim | After_send

datatype call_result = Call_initiated "string option" | Call_failed "never_connected_reason option" | Call_ambiguous

record answers =
  an_clock :: "moment \<Rightarrow> instant"
  an_gate :: "moment \<Rightarrow> int \<times> bool \<times> bool"
  an_others :: "moment \<Rightarrow> db \<Rightarrow> db"
  an_lookup :: "moment \<Rightarrow> lookup"
  an_new_attempt :: uuid
  an_analysis :: uuid
  an_configured :: bool
  an_trigger :: exchange
  an_http_date :: "string \<Rightarrow> instant option"
  an_redis :: "moment \<Rightarrow> bool"
  an_halt_up :: bool
  an_provider :: string
  an_native :: call_result
  an_native_found :: call_result
  an_conversation :: "db \<Rightarrow> db"
  an_cut :: cut

datatype job_fault = Raised | Deadline

type_synonym 'r job_step = "(job_fault + 'r) \<times> dialer"

section \<open>After a failure to connect\<close>

definition handle_never_connected :: "'p env \<Rightarrow> answers \<Rightarrow> uuid \<Rightarrow> uuid \<Rightarrow> string \<Rightarrow> int option \<Rightarrow> dialer \<Rightarrow> dialer" where
  "handle_never_connected w an attempt contact reason retry_after s =
    (case (get_attempt attempt (dw_db s), get_contact contact (dw_db s)) of
       (Some a, Some c) \<Rightarrow>
         (case get_campaign (c_campaign c) (dw_db s) of
            None \<Rightarrow> s
          | Some camp \<Rightarrow>
             (case handle_disconnect w (an_clock an At_end) (an_analysis an) (an_redis an At_end) a c camp True reason retry_after
                 (dw_db s, dw_sched s) of
                (_, _, d, sch) \<Rightarrow> s\<lparr> dw_db := d, dw_sched := sch \<rparr>))
     | _ \<Rightarrow> s)"

definition j_opt_entry :: "string \<Rightarrow> jval option \<Rightarrow> payload" where
  "j_opt_entry k v = (case v of None \<Rightarrow> [] | Some x \<Rightarrow> [(k, x)])"

definition failed_to_connect :: "instant \<Rightarrow> string \<Rightarrow> never_connected_reason option \<Rightarrow> call_attempt \<Rightarrow> call_attempt" where
  "failed_to_connect now provider reason a = a\<lparr> a_provider := Some provider, a_state := A_FAILED_TO_CONNECT,
     a_conn_reason := reason, a_ended_at := Some now \<rparr>"

definition record_trigger_failure :: "'p env \<Rightarrow> answers \<Rightarrow> uuid \<Rightarrow> contact \<Rightarrow> string \<Rightarrow> int option \<Rightarrow> string \<Rightarrow>
    string option \<Rightarrow> string \<Rightarrow> int option \<Rightarrow> dialer \<Rightarrow> dialer" where
  "record_trigger_failure w an attempt c etype code category note reason retry_after s =
    (let pl = [(''status_code'', j_opt_int code), (''category'', JStr category), (''reason_key'', JStr reason)]
           @ j_opt_entry ''reconcile'' (map_option JStr note)
           @ j_opt_entry ''retry_after_seconds'' (map_option JInt retry_after);
         meta = [(''campaign_id'', JId (c_campaign c)), (''status_code'', j_opt_int code),
           (''category'', JStr category), (''retry_after_seconds'', j_opt_int retry_after)];
         d = record_audit_event ''dialer-worker'' (''dograh.'' @ reason) ''call_attempt'' (Some attempt) meta
               (add_call_event attempt etype pl
                 (upd_attempt attempt (failed_to_connect (an_clock an At_end) ''dograh'' (Some NC_PROVIDER_ERROR)) (dw_db s)))
     in handle_never_connected w an attempt (c_id c) reason retry_after (s\<lparr> dw_db := d \<rparr>))"

section \<open>The hold for a provider halt\<close>

definition HELD_EVENT_TYPE :: string where "HELD_EVENT_TYPE = ''DOGRAH_PROVIDER_HALT_HELD''"
definition RESUMED_EVENT_TYPE :: string where "RESUMED_EVENT_TYPE = ''DOGRAH_PROVIDER_HALT_RESUMED''"
definition CONFIGURATION_ERROR :: string where "CONFIGURATION_ERROR = ''configuration_error''"
definition SYSTEMIC_FAILURE :: string where "SYSTEMIC_FAILURE = ''systemic_failure''"

definition reason_for :: "string \<Rightarrow> int option \<Rightarrow> nat option \<Rightarrow> string option \<Rightarrow> string" where
  "reason_for category code n source =
    (let status = (case code of None \<Rightarrow> ''n/a'' | Some i \<Rightarrow> int_text i) in
     if category = ''authentication_error''
     then ''Provider rejected the API credential (HTTP '' @ status @ ''). Check or rotate the key, then release.''
     else if category = ''provider_rejected''
     then ''Provider does not recognise the configured workflow/trigger (HTTP '' @ status @
       ''). Check the trigger id, then release.''
     else if category = ''quota_exhausted''
     then ''Provider reports exhausted quota or credit (HTTP '' @ status @ ''). Top up, then release.''
     else if category = CONFIGURATION_ERROR
     then ''The provider client is not configured. Fix the settings, then release.''
     else if category = SYSTEMIC_FAILURE
     then (case n of None \<Rightarrow> ''n/a'' | Some k \<Rightarrow> decimal k) @ '' consecutive permanent provider failures ('' @
       (case source of None \<Rightarrow> ''unknown'' | Some x \<Rightarrow> x) @
       '') across different contacts. Investigate the provider, then release.''
     else ''Provider problem ('' @ category @ '').'')"

text \<open>The contact as it was before the claim (\<open>_Prior\<close>).\<close>

type_synonym prior = "contact_status \<times> int"

definition held_db :: "instant \<Rightarrow> uuid \<Rightarrow> uuid \<Rightarrow> prior \<Rightarrow> string \<Rightarrow> int option \<Rightarrow> db \<Rightarrow> db" where
  "held_db now attempt contact prior category code d =
    upd_contact contact (\<lambda>c. c\<lparr> c_status := fst prior, c_attempt_count := snd prior \<rparr>)
      (add_call_event attempt HELD_EVENT_TYPE [(''category'', JStr category), (''status_code'', j_opt_int code)]
        (upd_attempt attempt (failed_to_connect now ''dograh'' (Some NC_PROVIDER_ERROR)) d))"

text \<open>\<open>d0\<close> is the committed state: what is left when the halt cannot be written.\<close>

definition hold_for_provider_halt :: "answers \<Rightarrow> db \<Rightarrow> call_attempt \<Rightarrow> contact \<Rightarrow> prior \<Rightarrow> string \<Rightarrow> int option \<Rightarrow>
    string option \<Rightarrow> nat option \<Rightarrow> dialer \<Rightarrow> job_outcome job_step" where
  "hold_for_provider_halt an d0 a c prior category code source n s =
    (let d = held_db (an_clock an At_end) (a_id a) (c_id c) prior category code (dw_db s);
         meta = [(''status_code'', j_opt_int code), (''campaign_id'', JId (c_campaign c)), (''attempt_id'', JId (a_id a))] in
     case provider_halt_engage (an_clock an At_end) (an_halt_up an) (an_redis an At_end) ''system'' category
         (reason_for category code n source) meta (g_controls (dw_gate s), d) (dw_streak s) of
       (Inl _, _, sk) \<Rightarrow> (Inl Raised, s\<lparr> dw_db := d0 \<rparr>)
     | (Inr _, (cache, d'), sk) \<Rightarrow>
         (Inr PROVIDER_HALTED, s\<lparr> dw_db := d', dw_gate := (dw_gate s)\<lparr> g_controls := cache \<rparr>, dw_streak := sk \<rparr>))"

section \<open>The trigger\<close>

text \<open>\<open>initial_context\<close> names the attempt; it comes back in the webhook and in the run listing. A request that
  the provider refused, or that never left, cannot have placed a call (\<open>refused_or_unsent\<close>).\<close>

definition set_breaker :: "breaker \<Rightarrow> dialer \<Rightarrow> dialer" where
  "set_breaker b s = s\<lparr> dw_breaker := b \<rparr>"

definition breaker_failed :: "'p env \<Rightarrow> answers \<Rightarrow> dialer \<Rightarrow> dialer" where
  "breaker_failed w an s = set_breaker (record_failure (ev_settings w) (an_clock an At_end) (dw_breaker s)) s"

text \<open>An ambiguous answer: ask Dograh first, then fall back to the recovery policy.\<close>

definition after_ambiguous_trigger :: "'p env \<Rightarrow> answers \<Rightarrow> db \<Rightarrow> call_attempt \<Rightarrow> contact \<Rightarrow> dial_job \<Rightarrow> api_error \<Rightarrow>
    dialer \<Rightarrow> job_outcome option job_step" where
  "after_ambiguous_trigger w an d0 a c j e s =
    (case reconcile_with_dograh (an_http_date an) (st_retry_after_max_s (ev_settings w)) (an_clock an At_lookup)
        (an_lookup an At_lookup) a c j (dw_db s) of
       ((found, note), d) \<Rightarrow>
         if \<not> an_redis an At_trigger then (Inl Raised, s\<lparr> dw_db := d0 \<rparr>)
         else let s1 = s\<lparr> dw_db := d \<rparr> in
           (case found of
              Some RECONCILED \<Rightarrow> (Inr (Some RECONCILED), set_breaker (record_success (dw_breaker s1)) s1)
            | Some out \<Rightarrow> (Inr (Some out), breaker_failed w an s1)
            | None \<Rightarrow> (Inr None, record_trigger_failure w an (a_id a) c AMBIGUOUS_TRIGGER_EVENT (Some (ae_status e))
                (category_value (ae_category e)) (Some note) REASON_PROVIDER_ERROR None (breaker_failed w an s1))))"

definition after_refused_trigger :: "'p env \<Rightarrow> answers \<Rightarrow> db \<Rightarrow> call_attempt \<Rightarrow> contact \<Rightarrow> dial_job \<Rightarrow> prior \<Rightarrow> api_error \<Rightarrow>
    dialer \<Rightarrow> job_outcome option job_step" where
  "after_refused_trigger w an d0 a c j prior e s =
    (let st = ev_settings w; f = classify_trigger_error e;
         (n, sk) = (if tf_policy f = P_PERMANENT
           then note_permanent_failure (st_streak_ttl st) (an_clock an At_trigger) (an_redis an At_trigger)
             (category_value (ae_category e)) (decimal (c_id c)) (dw_streak s)
           else (0, dw_streak s));
         s1 = s\<lparr> dw_streak := sk \<rparr> in
     if tf_policy f = P_PERMANENT \<and> int n \<ge> st_halt_threshold st
     then (case hold_for_provider_halt an d0 a c prior SYSTEMIC_FAILURE (Some (ae_status e))
             (Some (category_value (ae_category e))) (Some n) s1 of (r, s2) \<Rightarrow> (map_sum id Some r, s2))
     else if \<not> an_redis an At_trigger then (Inl Raised, s1\<lparr> dw_db := d0 \<rparr>)
     else (Inr None, record_trigger_failure w an (a_id a) c ''DOGRAH_TRIGGER_FAILED'' (Some (ae_status e))
       (category_value (ae_category e)) None (tf_reason f) (tf_retry_after f) (breaker_failed w an s1)))"

definition after_accepted_trigger :: "answers \<Rightarrow> db \<Rightarrow> call_attempt \<Rightarrow> int \<Rightarrow> dialer \<Rightarrow> job_outcome option job_step" where
  "after_accepted_trigger an d0 a run s =
    (if \<not> an_redis an At_trigger then (Inl Raised, s\<lparr> dw_db := d0 \<rparr>)
     else (Inr None, s\<lparr> dw_breaker := record_success (dw_breaker s), dw_streak := reset_streak (an_redis an At_end) (dw_streak s),
       dw_db := add_call_event (a_id a) ''DOGRAH_CALL_TRIGGERED'' [(''workflow_run_id'', JInt run)]
         (upd_attempt (a_id a) (\<lambda>r. r\<lparr> a_provider := Some ''dograh'', a_provider_call_id := Some (int_text run) \<rparr>) (dw_db s)) \<rparr>))"

text \<open>\<open>db.commit()\<close> comes first: the database of \<open>s\<close> is durable when the request leaves.\<close>

definition place_call_via_dograh :: "'p env \<Rightarrow> answers \<Rightarrow> call_attempt \<Rightarrow> contact \<Rightarrow> dial_job \<Rightarrow> prior \<Rightarrow> dialer \<Rightarrow>
    job_outcome option job_step" where
  "place_call_via_dograh w an a c j prior s =
    (let d0 = dw_db s in
     if an_cut an = After_claim then (Inl Deadline, s)
     else if \<not> an_configured an
     then (case hold_for_provider_halt an d0 a c prior CONFIGURATION_ERROR None None None s of
             (r, s1) \<Rightarrow> (map_sum id Some r, s1))
     else let s1 = s\<lparr> dw_sent := dw_sent s @ [(a_id a, \<not> refused_or_unsent (an_trigger an))] \<rparr> in
       if an_cut an = After_send then (Inl Deadline, s1)
       else case trigger_call (an_http_date an) (st_retry_after_max_s (ev_settings w)) (an_clock an At_trigger) (an_trigger an) of
         Inr run \<Rightarrow> after_accepted_trigger an d0 a run s1
       | Inl e \<Rightarrow>
           (case provider_configuration_category e of
              Some category \<Rightarrow>
                (case hold_for_provider_halt an d0 a c prior category (Some (ae_status e)) None None s1 of
                   (r, s2) \<Rightarrow> (map_sum id Some r, s2))
            | None \<Rightarrow>
                if is_ambiguous e then after_ambiguous_trigger w an d0 a c j e s1
                else after_refused_trigger w an d0 a c j prior e s1))"

section \<open>The native provider\<close>

definition place_call_native :: "'p env \<Rightarrow> answers \<Rightarrow> db \<Rightarrow> call_attempt \<Rightarrow> contact \<Rightarrow> dialer \<Rightarrow> job_outcome option job_step" where
  "place_call_native w an d0 a c s =
    (let r = (if an_native an = Call_ambiguous then an_native_found an else an_native an) in
     if an_cut an \<noteq> No_cut \<or> \<not> an_redis an At_trigger
     then (Inl (if an_cut an \<noteq> No_cut then Deadline else Raised), s\<lparr> dw_db := d0 \<rparr>)
     else case r of
       Call_initiated pcid \<Rightarrow>
         (Inr None, set_breaker (record_success (dw_breaker s))
           (s\<lparr> dw_db := an_conversation an
              (upd_contact (c_id c) (\<lambda>r. r\<lparr> c_status := C_IN_CONVERSATION \<rparr>)
                (upd_attempt (a_id a) (\<lambda>r. r\<lparr> a_provider := Some (an_provider an), a_provider_call_id := pcid,
                   a_state := A_CONNECTED \<rparr>) (dw_db s))) \<rparr>))
     | _ \<Rightarrow>
         (let reason = (case r of Call_failed x \<Rightarrow> x | _ \<Rightarrow> None);
              s1 = (breaker_failed w an s)\<lparr> dw_db :=
                upd_attempt (a_id a) (failed_to_connect (an_clock an At_end) (an_provider an) reason) (dw_db s) \<rparr>
          in (Inr None, case reason of
               None \<Rightarrow> s1
             | Some x \<Rightarrow> handle_never_connected w an (a_id a) (c_id c) (never_connected_value x) None s1)))"

definition place_call :: "'p env \<Rightarrow> answers \<Rightarrow> db \<Rightarrow> call_attempt \<Rightarrow> contact \<Rightarrow> dial_job \<Rightarrow> prior \<Rightarrow> dialer \<Rightarrow>
    job_outcome option job_step" where
  "place_call w an d0 a c j prior s =
    (if st_calling_engine (ev_settings w) = ''dograh'' then place_call_via_dograh w an a c j prior s
     else place_call_native w an d0 a c s)"

end
