(* ===== verification/Dialer.thy ===== *)
theory Dialer imports Trigger begin

text \<open>
  \<open>app/services/queue/dialer_worker.py\<close>: what becomes of one job. \<open>dial\<close> is \<open>_dial\<close>, split where its
  early returns split it; \<open>process_claimed_job\<close> adds the gate, the settlement of paused campaigns and closed
  windows, admission, the commit and the acknowledgement; \<open>process_one_job\<close> and \<open>reclaim_and_redrive\<close> are the two
  sources of jobs. A result \<open>Inl\<close> is an exception, with the database rolled back to its last commit.
\<close>

section \<open>Held and unresolved attempts\<close>

definition latest_event_type :: "uuid \<Rightarrow> db \<Rightarrow> string option" where
  "latest_event_type attempt d =
    map_option e_type (find (\<lambda>e. e_attempt e = attempt) (rev (events d)))"

definition is_held_attempt :: "call_attempt \<Rightarrow> db \<Rightarrow> bool" where
  "is_held_attempt a d \<longleftrightarrow> a_provider_call_id a = None \<and> a_state a = A_FAILED_TO_CONNECT \<and>
    latest_event_type (a_id a) d = Some HELD_EVENT_TYPE"

definition resume_held_attempt :: "instant \<Rightarrow> uuid \<Rightarrow> db \<Rightarrow> db" where
  "resume_held_attempt now attempt d =
    add_call_event attempt RESUMED_EVENT_TYPE
      [(''note'', JStr ''provider halt released; re-dialing on the same attempt'')]
      (upd_attempt attempt (\<lambda>a. a\<lparr> a_state := A_INITIATED, a_conn_reason := None, a_ended_at := None,
         a_started_at := now \<rparr>) d)"

definition resolve_unresolved_claim :: "'p env \<Rightarrow> answers \<Rightarrow> call_attempt \<Rightarrow> contact \<Rightarrow> dial_job \<Rightarrow> dialer \<Rightarrow>
    job_outcome \<times> dialer" where
  "resolve_unresolved_claim w an a c j s =
    (let st = ev_settings w in
     if a_state a \<noteq> A_INITIATED then (ALREADY_PROCESSED, s)
     else if an_clock an At_age - a_started_at a < st_dograh_connect_us st + st_dograh_read_us st + seconds 5
     then (IN_FLIGHT, s)
     else case reconcile_with_dograh (an_http_date an) (st_retry_after_max_s st) (an_clock an At_lookup)
         (an_lookup an At_lookup) a c j (dw_db s) of
       ((Some out, _), d) \<Rightarrow> (out, s\<lparr> dw_db := d \<rparr>)
     | ((None, note), d) \<Rightarrow> (AMBIGUOUS_RECOVERY,
         record_trigger_failure w an (a_id a) c AMBIGUOUS_TRIGGER_EVENT None ''orphaned_claim'' (Some note)
           REASON_PROVIDER_ERROR None (s\<lparr> dw_db := d \<rparr>)))"

section \<open>The gate\<close>

definition gate_check :: "'p env \<Rightarrow> answers \<Rightarrow> moment \<Rightarrow> dialer \<Rightarrow> (budget_error + string option) \<times> dialer" where
  "gate_check w an m s =
    (case an_gate an m of (tick, up, redis_up) \<Rightarrow>
      case gate_block_reason w tick (an_clock an m) up redis_up (dw_gate s, dw_db s) of
        (r, g, d) \<Rightarrow> (r, s\<lparr> dw_gate := g, dw_db := d \<rparr>))"

definition gate_outcome :: "string \<Rightarrow> job_outcome" where
  "gate_outcome reason = (if is_budget_reason reason then BUDGET_BLOCKED else OUTBOUND_BLOCKED)"

section \<open>The claim\<close>

definition claimed_contact :: "bool \<Rightarrow> contact \<Rightarrow> contact" where
  "claimed_contact created c = c\<lparr> c_attempt_count := c_attempt_count c + (if created then 1 else 0),
    c_status := C_DIALING, c_next_retry_at := None, c_retry_attempt_id := None, c_retry_attempt_number := None \<rparr>"

text \<open>\<open>c\<close> is the contact as the session holds it: its columns, not those another transaction wrote since,
  are the prior state and the base of the counter.\<close>

definition claim_and_place :: "'p env \<Rightarrow> answers \<Rightarrow> db \<Rightarrow> contact \<Rightarrow> call_attempt option \<Rightarrow> dial_job \<Rightarrow> dialer \<Rightarrow>
    job_outcome job_step" where
  "claim_and_place w an d0 c held j s =
    (let now = an_clock an At_claim;
         prior = (c_status c, c_attempt_count c);
         (a, created, d1) = (case held of
             Some h \<Rightarrow> (h, True, resume_held_attempt now (a_id h) (dw_db s))
           | None \<Rightarrow> get_or_create (an_others an At_claim) now (an_new_attempt an) (c_id c) (dj_attempt j) (dw_db s)) in
     if \<not> created \<and> (a_provider_call_id a \<noteq> None \<or> st_calling_engine (ev_settings w) = ''dograh'')
     then (Inr ALREADY_PROCESSED, s\<lparr> dw_db := d1 \<rparr>)
     else let d2 = upd_contact (c_id c) (\<lambda>r. (claimed_contact created r)\<lparr>
                c_attempt_count := c_attempt_count c + (if created then 1 else 0) \<rparr>) d1 in
       (case place_call w an d0 a c j prior (s\<lparr> dw_db := d2 \<rparr>) of
          (r, s1) \<Rightarrow> (map_sum id (\<lambda>out. case out of None \<Rightarrow> ADMITTED_AND_DIALED | Some x \<Rightarrow> x) r, s1)))"

text \<open>From the check of a paused campaign to the last gate.\<close>

definition dial_checked :: "'p env \<Rightarrow> answers \<Rightarrow> db \<Rightarrow> contact \<Rightarrow> campaign \<Rightarrow> call_attempt option \<Rightarrow> dial_job \<Rightarrow> dialer \<Rightarrow>
    job_outcome job_step" where
  "dial_checked w an d0 c camp held j s =
    (let st = ev_settings w; stop = (\<lambda>out s. (Inr out, s)); fail = (\<lambda>s. (Inl Raised, s\<lparr> dw_db := d0 \<rparr>)) in
     if camp_status camp = CAMP_PAUSED then stop CAMPAIGN_PAUSED s
     else case dial_check w c camp (Some (get_effective_policy st (camp_id camp) (dw_db s)))
         (an_clock an At_eligibility) (dw_db s) of
       Inl _ \<Rightarrow> fail s
     | Inr e \<Rightarrow>
       if \<not> el_eligible e then stop (if transient e then JOB_OUTSIDE_WINDOW else NOT_ELIGIBLE) s
       else case (if st_calling_engine st = ''dograh'' \<and> dj_attempt j > 1
           then second_reconciliation_gate st (an_http_date an) (an_clock an At_second_lookup) (an_lookup an At_second_lookup)
             (an_others an At_second_lookup) c j (dw_db s)
           else (Inr None, dw_db s)) of
         (Inl _, d) \<Rightarrow> fail s
       | (Inr (Some out), d) \<Rightarrow> stop out (s\<lparr> dw_db := d \<rparr>)
       | (Inr None, d) \<Rightarrow>
           (case gate_check w an At_gate (s\<lparr> dw_db := d \<rparr>) of
              (Inl _, s1) \<Rightarrow> fail s1
            | (Inr (Some reason), s1) \<Rightarrow> stop (gate_outcome reason) s1
            | (Inr None, s1) \<Rightarrow> claim_and_place w an d0 c held j s1))"

definition dial :: "'p env \<Rightarrow> answers \<Rightarrow> dial_job \<Rightarrow> dialer \<Rightarrow> job_outcome job_step" where
  "dial w an j s =
    (let d0 = dw_db s in
     case (get_contact (dj_contact j) d0, get_campaign (dj_campaign j) d0) of
       (Some c, Some camp) \<Rightarrow>
         (let dograh = (st_calling_engine (ev_settings w) = ''dograh'') in
          case get_by_contact_and_number (c_id c) (dj_attempt j) d0 of
            None \<Rightarrow> dial_checked w an d0 c camp None j s
          | Some a \<Rightarrow>
              if a_provider_call_id a \<noteq> None then (Inr ALREADY_PROCESSED, s)
              else if \<not> dograh then dial_checked w an d0 c camp None j s
              else if is_held_attempt a d0 then dial_checked w an d0 c camp (Some a) j s
              else (case resolve_unresolved_claim w an a c j s of (out, s1) \<Rightarrow> (Inr out, s1)))
     | _ \<Rightarrow> (Inr NOT_ELIGIBLE, s))"

section \<open>Settling a job that cannot be dialed now\<close>

definition campaign_is_paused :: "uuid \<Rightarrow> db \<Rightarrow> bool" where
  "campaign_is_paused camp d = (map_option camp_status (get_campaign camp d) = Some CAMP_PAUSED)"

definition job_dialed :: "dial_job \<Rightarrow> db \<Rightarrow> bool" where
  "job_dialed j d = (case get_by_contact_and_number (dj_contact j) (dj_attempt j) d of
     None \<Rightarrow> False | Some a \<Rightarrow> a_provider_call_id a \<noteq> None)"

definition rebuildable :: "dial_job \<Rightarrow> db \<Rightarrow> bool" where
  "rebuildable j d \<longleftrightarrow> dj_attempt j = 1 \<and> dj_recovery_type j = None \<and>
    (case get_contact (dj_contact j) d of None \<Rightarrow> False | Some c \<Rightarrow> c_status c = C_PENDING \<and> c_attempt_count c = 0)"

text \<open>The Redis commands of a settlement, in their order; \<open>run_ops\<close> executes the first \<open>n\<close> of them, which is what
  has happened when the process dies or Redis fails in between.\<close>

datatype redis_op = R_schedule sched_member instant | R_clear_guard idem_key | R_ack nat

fun exec_op :: "redis_op \<Rightarrow> schedule \<times> stream_queue \<Rightarrow> schedule \<times> stream_queue" where
  "exec_op (R_schedule m t) (sch, q) = (set_score m t sch, q)"
| "exec_op (R_clear_guard k) (sch, q) = (sch, clear_guard k q)"
| "exec_op (R_ack i) (sch, q) = (sch, ack i q)"

definition run_ops :: "nat \<Rightarrow> redis_op list \<Rightarrow> schedule \<times> stream_queue \<Rightarrow> schedule \<times> stream_queue" where
  "run_ops n ops s = fold exec_op (take n ops) s"

definition settle_paused :: "nat \<Rightarrow> dial_job \<Rightarrow> db \<Rightarrow> job_outcome \<times> redis_op list" where
  "settle_paused i j d =
    (if rebuildable j d then (CAMPAIGN_PAUSED, [R_clear_guard (idempotency_key j), R_ack i])
     else if job_dialed j d then (ALREADY_PROCESSED, [R_ack i])
     else (CAMPAIGN_PAUSED_HELD, []))"

text \<open>None is the exception of a window that cannot be computed; \<open>Some (closed, opening)\<close> otherwise.\<close>

definition closed_window :: "'p env \<Rightarrow> dial_job \<Rightarrow> instant \<Rightarrow> db \<Rightarrow> (bool \<times> instant option) option" where
  "closed_window w j now d =
    (case get_campaign (dj_campaign j) d of
       None \<Rightarrow> Some (False, None)
     | Some camp \<Rightarrow>
        if camp_status camp \<noteq> CAMP_ACTIVE then Some (False, None)
        else let p = get_effective_policy (ev_settings w) (camp_id camp) d in
          case rbind (window_is_open w camp p now)
              (\<lambda>b. if b then Inr None else rbind (next_open_time w camp p now) (\<lambda>t. Inr (Some t))) of
            Inl WindowValueError \<Rightarrow> None
          | Inl _ \<Rightarrow> Some (True, None)
          | Inr None \<Rightarrow> Some (False, None)
          | Inr (Some t) \<Rightarrow> Some (True, Some t))"

text \<open>The retry goes back with the ids of the dial job.\<close>

definition retry_again :: "dial_job \<Rightarrow> uuid \<Rightarrow> recovery_job" where
  "retry_again j prev =
    (new_recovery_job prev (dj_contact j) (dj_campaign j) (dj_attempt j))\<lparr> rj_id := Some (dj_id j) \<rparr>"

definition settle_outside_window :: "nat \<Rightarrow> dial_job \<Rightarrow> instant option \<Rightarrow> db \<Rightarrow> job_outcome \<times> redis_op list" where
  "settle_outside_window i j due d =
    (case (if rebuildable j d then due else None) of
       Some t \<Rightarrow> (WINDOW_DEFERRED, [R_schedule (M_dial j) t, R_clear_guard (idempotency_key j), R_ack i])
     | None \<Rightarrow>
         if job_dialed j d then (ALREADY_PROCESSED, [R_ack i])
         else (case (dj_recovery_type j, dj_previous j, due) of
           (Some _, Some prev, Some t) \<Rightarrow> (WINDOW_DEFERRED, [R_schedule (M_retry (retry_again j prev)) t, R_ack i])
         | _ \<Rightarrow> (WINDOW_HELD, [])))"

section \<open>One claimed job\<close>

record worker =
  wk_dialer :: dialer
  wk_queue :: stream_queue
  wk_leases :: "lease_store \<times> counters"

text \<open>What the services of one delivery answer: the fault, the two clocks, the second and the lease id of each
  admission try, the fault of the release, and how many Redis commands of the settlement are executed.\<close>

record delivery =
  dl_answers :: answers
  dl_admit :: "nat \<Rightarrow> faults \<times> instant \<times> int \<times> int \<times> string"
  dl_release :: "bool \<times> int"
  dl_ops :: nat
  dl_reset :: "instant \<times> bool"

definition left_unacked :: "job_outcome set" where
  "left_unacked = {IN_FLIGHT, RECONCILE_DEFERRED, OUTBOUND_BLOCKED, PROVIDER_HALTED, BUDGET_BLOCKED,
     CAMPAIGN_PAUSED_HELD, WINDOW_HELD}"

definition key_text :: "idem_key \<Rightarrow> string" where
  "key_text k = (case k of (camp, contact, n) \<Rightarrow> decimal camp @ '':'' @ decimal contact @ '':'' @ int_text n)"

definition ADMISSION_RETRY_ATTEMPTS :: nat where "ADMISSION_RETRY_ATTEMPTS = 5"

definition cps_limits_of :: "settings \<Rightarrow> cps_limits" where
  "cps_limits_of st = \<lparr> cl_global = st_global_cps st, cl_campaign = st_campaign_cps st, cl_provider = st_provider_cps st \<rparr>"

definition lease_config_of :: "settings \<Rightarrow> string \<Rightarrow> lease_config" where
  "lease_config_of st worker = \<lparr> lc_ttl = st_lease_ttl st * 1000, lc_global = st_global_conc st,
    lc_campaign = st_campaign_conc st, lc_provider = st_provider_conc st, lc_worker = worker \<rparr>"

text \<open>Inl is the \<open>RedisError\<close> that \<open>try_admit\<close> raises again: it ends the loop and the job.\<close>

fun admit_loop :: "settings \<Rightarrow> string \<Rightarrow> string \<Rightarrow> dial_job \<Rightarrow> (nat \<Rightarrow> faults \<times> instant \<times> int \<times> int \<times> string) \<Rightarrow> nat \<Rightarrow> breaker \<Rightarrow>
    lease_store \<times> counters \<Rightarrow> (unit + lease option) \<times> lease_store \<times> counters" where
  "admit_loop st worker prov j ans 0 b s = (Inr None, s)"
| "admit_loop st worker prov j ans (Suc n) b s =
    (case ans n of (f, now, now_ms, second, i) \<Rightarrow>
      case try_admit (cps_limits_of st) (lease_config_of st worker) f now now_ms second i (decimal (dj_campaign j)) prov
          (key_text (idempotency_key j)) b s of
        (Admitted l, s1) \<Rightarrow> (Inr (Some l), s1)
      | (Redis_error, s1) \<Rightarrow> (Inl (), s1)
      | (_, s1) \<Rightarrow> admit_loop st worker prov j ans n b s1)"

definition settled :: "delivery \<Rightarrow> job_outcome \<times> redis_op list \<Rightarrow> worker \<Rightarrow> (job_fault + job_outcome) \<times> worker" where
  "settled dl r s =
    (case r of (out, ops) \<Rightarrow>
      case run_ops (dl_ops dl) ops (dw_sched (wk_dialer s), wk_queue s) of
        (sch, q) \<Rightarrow> (if dl_ops dl < length ops then Inl Raised else Inr out,
          s\<lparr> wk_dialer := (wk_dialer s)\<lparr> dw_sched := sch \<rparr>, wk_queue := q \<rparr>))"

text \<open>After admission: the dial, its commit or rollback, the release of the lease, and the settlement.\<close>

definition dial_admitted :: "'p env \<Rightarrow> delivery \<Rightarrow> nat \<Rightarrow> dial_job \<Rightarrow> lease \<Rightarrow> worker \<Rightarrow> (job_fault + job_outcome) \<times> worker" where
  "dial_admitted w dl i j l s =
    (let an = dl_answers dl in
     case (if an_cut an = Before_claim then (Inl Deadline, wk_dialer s) else dial w an j (wk_dialer s)) of
       (r, ds) \<Rightarrow>
         let s1 = s\<lparr> wk_dialer := ds, wk_leases := (case wk_leases s of (ls, cs) \<Rightarrow>
               (safe_release (fst (dl_release dl)) (snd (dl_release dl)) l ls, cs)) \<rparr> in
         (case r of
            Inl e \<Rightarrow> (Inl e, s1)
          | Inr CAMPAIGN_PAUSED \<Rightarrow> settled dl (settle_paused i j (dw_db ds)) s1
          | Inr JOB_OUTSIDE_WINDOW \<Rightarrow>
              (case closed_window w j (an_clock an At_settle) (dw_db ds) of
                 None \<Rightarrow> (Inl Raised, s1)
               | Some (_, due) \<Rightarrow> settled dl (settle_outside_window i j due (dw_db ds)) s1)
          | Inr out \<Rightarrow> settled dl (out, if out \<in> left_unacked then [] else [R_ack i]) s1))"

definition process_claimed :: "'p env \<Rightarrow> string \<Rightarrow> delivery \<Rightarrow> nat \<Rightarrow> dial_job \<Rightarrow> worker \<Rightarrow> (job_fault + job_outcome) \<times> worker" where
  "process_claimed w name dl i j s =
    (let st = ev_settings w; an = dl_answers dl;
         prov = (if st_calling_engine st = ''dograh'' then ''dograh'' else an_provider an) in
     case gate_check w an At_stage1 (wk_dialer s) of
       (Inl _, ds) \<Rightarrow> (Inl Raised, s\<lparr> wk_dialer := ds \<rparr>)
     | (Inr (Some reason), ds) \<Rightarrow> (Inr (gate_outcome reason), s\<lparr> wk_dialer := ds \<rparr>)
     | (Inr None, ds) \<Rightarrow>
        let s1 = s\<lparr> wk_dialer := ds \<rparr> in
        if campaign_is_paused (dj_campaign j) (dw_db ds) then settled dl (settle_paused i j (dw_db ds)) s1
        else case closed_window w j (an_clock an At_window) (dw_db ds) of
          None \<Rightarrow> (Inl Raised, s1)
        | Some (True, due) \<Rightarrow> settled dl (settle_outside_window i j due (dw_db ds)) s1
        | Some (False, _) \<Rightarrow>
            (case admit_loop st name prov j (dl_admit dl) ADMISSION_RETRY_ATTEMPTS (dw_breaker ds) (wk_leases s1) of
               (Inl _, ls) \<Rightarrow> (Inl Raised, s1\<lparr> wk_leases := ls \<rparr>)
             | (Inr None, ls) \<Rightarrow> (Inr NOT_ADMITTED, s1\<lparr> wk_leases := ls \<rparr>)
             | (Inr (Some l), ls) \<Rightarrow> dial_admitted w dl i j l (s1\<lparr> wk_leases := ls \<rparr>)))"

text \<open>\<open>process_claimed_job\<close>: None is an exception that reaches the loop.\<close>

definition process_claimed_job :: "'p env \<Rightarrow> string \<Rightarrow> delivery \<Rightarrow> nat \<Rightarrow> dial_job \<Rightarrow> worker \<Rightarrow> job_outcome option \<times> worker" where
  "process_claimed_job w name dl i j s =
    (case process_claimed w name dl i j s of
       (Inl Deadline, s1) \<Rightarrow> (Some DEADLINE_EXCEEDED, s1)
     | (Inl Raised, s1) \<Rightarrow> (None, s1)
     | (Inr out, s1) \<Rightarrow> (Some out, if out \<in> left_unacked
         then s1\<lparr> wk_queue := reset_deliveries (fst (dl_reset dl)) (snd (dl_reset dl)) i (wk_queue s1) \<rparr> else s1))"

section \<open>Dead letters\<close>

definition dead_reason_value :: "dead_reason \<Rightarrow> string" where
  "dead_reason_value r = (case r of REASON_MALFORMED \<Rightarrow> ''malformed_payload'' | REASON_MAX_DELIVERIES \<Rightarrow> ''max_deliveries_exceeded'')"

definition parked :: "contact \<Rightarrow> contact" where
  "parked c = (if c_status c \<in> {C_PENDING, C_RETRY_SCHEDULED}
    then c\<lparr> c_status := C_NEEDS_REVIEW, c_next_retry_at := None, c_retry_attempt_id := None,
      c_retry_attempt_number := None \<rparr> else c)"

definition record_dead_letter :: "dead_letter \<Rightarrow> db \<Rightarrow> db" where
  "record_dead_letter l d =
    (let meta = [(''reason'', JStr (dead_reason_value (dl_reason l))), (''message_id'', JInt (int (dl_id l))),
           (''times_delivered'', JInt (dl_deliveries l)), (''dlq_stream'', JStr ''dlq'')];
         log = (\<lambda>ty entity extra. record_audit_event ''dead-letter-handler'' ''queue.dead_lettered'' ty entity (meta @ extra)) in
     case parse_entry (dl_raw l) of
       None \<Rightarrow> log ''queue_message'' None [] d
     | Some j \<Rightarrow>
         let number = [(''attempt_number'', JInt (dj_attempt j))] in
         (case get_contact (dj_contact j) d of
            None \<Rightarrow> log ''queue_message'' None number d
          | Some c \<Rightarrow> log ''contact'' (Some (c_id c)) (number @ [(''previous_status'', JStr (contact_status_value (c_status c)))])
              (upd_contact (c_id c) parked d)))"

text \<open>\<open>fails\<close>: the letters whose transaction fails; they are only logged.\<close>

definition handle_dead_letters :: "(dead_letter \<Rightarrow> bool) \<Rightarrow> worker \<Rightarrow> worker" where
  "handle_dead_letters fails s =
    (case drain_dead_letters (wk_queue s) of (letters, q) \<Rightarrow>
      s\<lparr> wk_queue := q, wk_dialer := (wk_dialer s)\<lparr> dw_db :=
        fold (\<lambda>l d. if fails l then d else record_dead_letter l d) letters (dw_db (wk_dialer s)) \<rparr> \<rparr>)"

section \<open>The two sources of jobs\<close>

definition process_one_job :: "'p env \<Rightarrow> string \<Rightarrow> (dead_letter \<Rightarrow> bool) \<Rightarrow> delivery \<Rightarrow> worker \<Rightarrow> job_outcome option \<times> worker" where
  "process_one_job w name fails dl s =
    (case gate_check w (dl_answers dl) At_read (wk_dialer s) of
       (Inl _, ds) \<Rightarrow> (None, s\<lparr> wk_dialer := ds \<rparr>)
     | (Inr (Some reason), ds) \<Rightarrow> (Some (gate_outcome reason), s\<lparr> wk_dialer := ds \<rparr>)
     | (Inr None, ds) \<Rightarrow>
         (case read_one (an_clock (dl_answers dl) At_read) (wk_queue s) of
            (read, q) \<Rightarrow>
              let s1 = handle_dead_letters fails (s\<lparr> wk_dialer := ds, wk_queue := q \<rparr>) in
              (case read of None \<Rightarrow> (Some NO_JOB, s1)
               | Some (i, j) \<Rightarrow> process_claimed_job w name dl i j s1)))"

fun redrive :: "'p env \<Rightarrow> string \<Rightarrow> (nat \<Rightarrow> delivery) \<Rightarrow> (nat \<times> dial_job) list \<Rightarrow> worker \<Rightarrow> nat \<times> worker" where
  "redrive w name dls [] s = (0, s)"
| "redrive w name dls ((i, j) # rest) s =
    (case process_claimed_job w name (dls i) i j s of
       (None, s1) \<Rightarrow> redrive w name dls rest s1
     | (Some _, s1) \<Rightarrow> (case redrive w name dls rest s1 of (n, s2) \<Rightarrow> (Suc n, s2)))"

definition reclaim_and_redrive :: "'p env \<Rightarrow> string \<Rightarrow> (dead_letter \<Rightarrow> bool) \<Rightarrow> instant \<Rightarrow> (nat \<Rightarrow> delivery) \<Rightarrow> worker \<Rightarrow>
    nat \<times> worker" where
  "reclaim_and_redrive w name fails now dls s =
    (case reclaim_stale (ev_settings w) now (st_queue_reclaim_idle_ms (ev_settings w) * 1000) 10 (wk_queue s) of
       (ready, q) \<Rightarrow> redrive w name dls ready (handle_dead_letters fails (s\<lparr> wk_queue := q \<rparr>)))"

end
