(* ===== verification/Dialer_Safety.thy ===== *)
theory Dialer_Safety imports Dialer begin

text \<open>
  What \<open>Dialer\<close> guarantees over any history of deliveries, redeliveries, crashes and changes by other
  processes: one attempt never leaves two requests that may have placed a call.
\<close>

section \<open>Held attempts appear only where the hold makes them\<close>

definition held_id :: "uuid \<Rightarrow> db \<Rightarrow> bool" where
  "held_id i d \<longleftrightarrow> (\<exists>a. get_attempt i d = Some a \<and> is_held_attempt a d)"

definition has_attempt :: "uuid \<Rightarrow> db \<Rightarrow> bool" where
  "has_attempt i d \<longleftrightarrow> get_attempt i d \<noteq> None"

definition claimed :: "uuid \<Rightarrow> int \<Rightarrow> db \<Rightarrow> bool" where
  "claimed c n d \<longleftrightarrow> (c, n) \<in> set (map (\<lambda>a. (a_contact a, a_number a)) (attempts d))"

lemma claimed_iff: "claimed c n d \<longleftrightarrow> get_by_contact_and_number c n d \<noteq> None"
  unfolding claimed_def get_by_contact_and_number_row get_row_None by auto

lemma claimed_upd:
  assumes "\<And>a. a_contact (f a) = a_contact a" "\<And>a. a_number (f a) = a_number a"
  shows "claimed c n (upd_attempt k f d) = claimed c n d"
  unfolding claimed_def upd_attempt_def using assms by simp

text \<open>A change that keeps every attempt, holds none, and does not use the fresh id \<open>i0\<close>.\<close>

definition carries :: "uuid \<Rightarrow> db \<Rightarrow> db \<Rightarrow> bool" where
  "carries i0 d d' \<longleftrightarrow>
    (keys_distinct a_id (attempts d) \<longrightarrow> keys_distinct a_id (attempts d')) \<and>
    (\<forall>i. has_attempt i d \<longrightarrow> has_attempt i d') \<and>
    (\<forall>i. held_id i d' \<longrightarrow> held_id i d \<or> \<not> has_attempt i d) \<and>
    (has_attempt i0 d' \<longrightarrow> has_attempt i0 d) \<and>
    (\<forall>c n. claimed c n d \<longrightarrow> claimed c n d')"

lemma carries_refl [simp]: "carries i d d"
  by (simp add: carries_def)

lemma carries_trans: "carries i d d1 \<Longrightarrow> carries i d1 d2 \<Longrightarrow> carries i d d2"
  unfolding carries_def by blast

lemma held_id_same:
  assumes "attempts d' = attempts d" "events d' = events d"
  shows "held_id i d' = held_id i d"
  unfolding held_id_def is_held_attempt_def latest_event_type_def get_attempt_def assms by (rule refl)

lemma carries_same:
  assumes "attempts d' = attempts d" "events d' = events d"
  shows "carries i d d'"
  unfolding carries_def has_attempt_def claimed_def get_attempt_def held_id_same [OF assms] assms(1) by blast

lemma carries_contact [simp]: "carries i d (upd_contact k f d)"
  by (rule carries_same) simp_all

lemma record_audit_attempts_events: "attempts (record_audit_event a b c e m d) = attempts d"
  "events (record_audit_event a b c e m d) = events d" by simp_all

lemma carries_audit [simp]: "carries i d (record_audit_event a b c e m d)"
  by (rule carries_same) simp_all

lemma latest_event_added [simp]:
  "latest_event_type i (add_call_event k t p d) = (if k = i then Some t else latest_event_type i d)"
  by (simp add: latest_event_type_def add_call_event_def)

lemma latest_event_upd_attempt [simp]: "latest_event_type i (upd_attempt k f d) = latest_event_type i d"
  by (simp add: latest_event_type_def)

lemma carries_event [simp]: "t \<noteq> HELD_EVENT_TYPE \<Longrightarrow> carries i d (add_call_event k t p d)"
  by (auto simp: carries_def has_attempt_def held_id_def is_held_attempt_def claimed_def)

lemma keys_upd_attempt [simp]:
  "(\<And>a. a_id (f a) = a_id a) \<Longrightarrow> keys_distinct a_id (attempts (upd_attempt k f d)) = keys_distinct a_id (attempts d)"
  by (simp add: upd_attempt_def)

lemma carries_upd_event [simp]:
  assumes "t \<noteq> HELD_EVENT_TYPE" "\<And>a. a_id (f a) = a_id a"
    and "\<And>a. a_contact (f a) = a_contact a" "\<And>a. a_number (f a) = a_number a"
  shows "carries i d (add_call_event k t p (upd_attempt k f d))"
proof -
  have "held_id j (add_call_event k t p (upd_attempt k f d)) \<Longrightarrow> held_id j d" for j
  proof -
    assume h: "held_id j (add_call_event k t p (upd_attempt k f d))"
    then obtain a where a: "get_attempt j (upd_attempt k f d) = Some a"
      "is_held_attempt a (add_call_event k t p (upd_attempt k f d))" by (auto simp: held_id_def)
    have id: "a_id a = j" using a(1) unfolding get_attempt_def by (blast dest: get_row_key)
    have "j \<noteq> k" using a(2) assms(1) id by (auto simp: is_held_attempt_def)
    then show "held_id j d" using a id assms(2) by (simp add: held_id_def get_attempt_upd is_held_attempt_def)
  qed
  moreover have "claimed c n (add_call_event k t p (upd_attempt k f d)) = claimed c n d" for c n
    using claimed_upd [OF assms(3,4)] by (simp add: claimed_def)
  ultimately show ?thesis using assms(2) by (auto simp: carries_def has_attempt_def get_attempt_upd)
qed

text \<open>An attempt in another state than a failed connect is not held.\<close>

lemma carries_upd_state:
  assumes "\<And>a. a_id (f a) = a_id a" "\<And>a. a_state (f a) \<noteq> A_FAILED_TO_CONNECT \<or> a_provider_call_id (f a) \<noteq> None"
    and "\<And>a. a_contact (f a) = a_contact a" "\<And>a. a_number (f a) = a_number a"
  shows "carries i d (upd_attempt k f d)"
proof -
  have "held_id j (upd_attempt k f d) \<Longrightarrow> held_id j d" for j
  proof (cases "j = k")
    case True
    then show "held_id j (upd_attempt k f d) \<Longrightarrow> held_id j d"
      using assms(2) by (fastforce simp: held_id_def get_attempt_upd assms(1) is_held_attempt_def)
  qed (auto simp: held_id_def get_attempt_upd assms(1) is_held_attempt_def)
  then show ?thesis using assms(1) claimed_upd [OF assms(3,4)] by (auto simp: carries_def has_attempt_def get_attempt_upd)
qed

lemma not_held_type [simp]: "AMBIGUOUS_TRIGGER_EVENT \<noteq> HELD_EVENT_TYPE" "RESUMED_EVENT_TYPE \<noteq> HELD_EVENT_TYPE"
  "''DOGRAH_TRIGGER_FAILED'' \<noteq> HELD_EVENT_TYPE" "''DOGRAH_TRIGGER_RECONCILED'' \<noteq> HELD_EVENT_TYPE"
  "''DOGRAH_RECONCILE_MULTIPLE'' \<noteq> HELD_EVENT_TYPE" "''DOGRAH_CALL_TRIGGERED'' \<noteq> HELD_EVENT_TYPE"
  "''RECOVERY_SCHEDULED'' \<noteq> HELD_EVENT_TYPE" "''RECOVERY_TERMINALIZED'' \<noteq> HELD_EVENT_TYPE"
  "''ANALYSIS_QUEUED'' \<noteq> HELD_EVENT_TYPE"
  by (simp_all add: AMBIGUOUS_TRIGGER_EVENT_def RESUMED_EVENT_TYPE_def HELD_EVENT_TYPE_def)

section \<open>The services only carry\<close>

lemma carries_enqueue_analysis:
  assumes "enqueue_call_analysis st id now i a c d = (job, d')"
  shows "carries k d d'"
proof -
  have "carries k d (d\<lparr> analyses := x \<rparr>)" for x by (rule carries_same) simp_all
  then show ?thesis using assms
    by (auto simp: enqueue_call_analysis_def get_or_create_pending_def Let_def
      split: if_splits option.splits prod.splits intro: carries_trans [OF _ carries_trans [OF carries_event carries_audit]])
qed

lemma carries_terminalize:
  assumes "terminalize st now aid a c reason d = (job, d')"
  shows "carries k d d'"
proof -
  from assms show ?thesis unfolding terminalize_def Let_def
    by (rule carries_trans [OF carries_trans [OF carries_trans [OF carries_event carries_audit] carries_contact]
      carries_enqueue_analysis, rotated]) simp
qed

lemma carries_handle_disconnect:
  assumes "handle_disconnect w now aid up a c camp never reason ra (d, sch) = (dec, job, d', sch')"
  shows "carries k d d'"
proof -
  have s: "schedule_retry now up a c camp x (d, sch) = (d', sch') \<Longrightarrow> carries k d d'" for x
    by (auto simp: schedule_retry_def Let_def intro: carries_trans [OF carries_contact carries_trans [OF carries_event carries_audit]])
  from assms show ?thesis
    by (auto simp: handle_disconnect_def Let_def split: if_splits prod.splits dest: s carries_terminalize)
qed

lemma handle_never_connected_carries: "carries k (dw_db s) (dw_db (handle_never_connected w an i c reason ra s))"
  by (auto simp: handle_never_connected_def split: option.splits prod.splits dest: carries_handle_disconnect)

lemma handle_never_connected_sent [simp]: "dw_sent (handle_never_connected w an i c reason ra s) = dw_sent s"
  by (auto simp: handle_never_connected_def split: option.splits prod.splits)

lemma failed_to_connect_id [simp]: "a_id (failed_to_connect now p r a) = a_id a"
  "a_contact (failed_to_connect now p r a) = a_contact a" "a_number (failed_to_connect now p r a) = a_number a"
  by (simp_all add: failed_to_connect_def)

lemma record_trigger_failure_carries:
  assumes "etype \<noteq> HELD_EVENT_TYPE"
  shows "carries k (dw_db s) (dw_db (record_trigger_failure w an i c etype code cat note reason ra s))"
proof -
  have h: "carries k (dw_db s) d \<Longrightarrow> carries k (dw_db s) (dw_db (handle_never_connected w an i (c_id c) reason ra (s\<lparr> dw_db := d \<rparr>)))" for d
    by (erule carries_trans) (use handle_never_connected_carries [of k "s\<lparr> dw_db := d \<rparr>"] in simp)
  show ?thesis unfolding record_trigger_failure_def Let_def
    by (rule h, rule carries_trans [OF carries_upd_event carries_audit]) (simp_all add: assms)
qed

lemma record_trigger_failure_sent [simp]:
  "dw_sent (record_trigger_failure w an i c etype code cat note reason ra s) = dw_sent s"
  by (simp add: record_trigger_failure_def Let_def)

lemma reconcile_audit_carries [simp]: "carries k d (reconcile_audit a i m d)"
  by (simp add: reconcile_audit_def)

lemma lookup_runs_carries: "lookup_runs hdt m now lk a stage ids d = (r, d') \<Longrightarrow> carries k d d'"
  by (auto simp: lookup_runs_def Let_def split: if_splits sum.splits)

lemma resolve_found_runs_carries: "resolve_found_runs a runs stage ids d = (out, d') \<Longrightarrow> carries k d d'"
  unfolding resolve_found_runs_def by (auto split: if_splits intro!: carries_trans [OF _ reconcile_audit_carries])

lemma reconcile_with_dograh_carries:
  assumes "reconcile_with_dograh hdt m now lk a c j d = (r, d')"
  shows "carries k d d'"
  using assms unfolding reconcile_with_dograh_def Let_def
  by (auto split: prod.splits sum.splits list.splits if_splits dest!: lookup_runs_carries [where k = k] resolve_found_runs_carries [where k = k]
    intro: carries_trans)

lemma reopen_carries: "carries k d (reopen_for_adoption i c d)"
  unfolding reopen_for_adoption_def
  by (rule carries_trans [OF carries_upd_state carries_contact]) simp_all

lemma second_gate_carries:
  assumes "second_reconciliation_gate st hdt now lk others c j d = (r, d')" "\<And>x. carries k x (others x)"
  shows "carries k d d'"
proof -
  have deferred: "defer_or_expire st' prev c' ids failure x = (out, y) \<Longrightarrow> carries k x y" for st' prev c' ids failure x out y
    by (auto simp: defer_or_expire_def Let_def split: if_splits intro: carries_trans [OF reconcile_audit_carries carries_contact])
  have found: "carries k x y" if "lookup_runs hdt m now lk a stage ids x0 = (q, x1)" "x = x0"
      "resolve_found_runs p runs stage' ids' (reopen_for_adoption i c' (others x1)) = (out, y)" for x y m a stage ids x0 q x1 p runs stage' ids' i c' out
    using lookup_runs_carries [OF that(1)] resolve_found_runs_carries [OF that(3)] reopen_carries assms(2) that(2)
    by (metis carries_trans)
  have gone: "carries k x0 (others x1)" if "lookup_runs hdt m now lk a stage ids x0 = (q, x1)" for m a stage ids x0 q x1
    using lookup_runs_carries [OF that] assms(2) by (blast intro: carries_trans)
  from assms(1) show ?thesis unfolding second_reconciliation_gate_def Let_def
    by (auto split: option.splits if_splits prod.splits sum.splits dest: found gone lookup_runs_carries deferred
      intro: carries_trans carries_trans [OF gone reconcile_audit_carries])
qed

section \<open>The invariant\<close>

definition possible_calls :: "dialer \<Rightarrow> uuid list" where
  "possible_calls s = map fst (filter snd (dw_sent s))"

definition calls_ok :: "dialer \<Rightarrow> bool" where
  "calls_ok s \<longleftrightarrow> keys_distinct a_id (attempts (dw_db s)) \<and> distinct (possible_calls s) \<and>
    (\<forall>i \<in> set (possible_calls s). has_attempt i (dw_db s) \<and> \<not> held_id i (dw_db s))"

lemma possible_calls_sent: "dw_sent s' = dw_sent s \<Longrightarrow> possible_calls s' = possible_calls s"
  by (simp add: possible_calls_def)

lemma calls_ok_carries:
  assumes "calls_ok s" "carries k (dw_db s) (dw_db s')" "dw_sent s' = dw_sent s"
  shows "calls_ok s'"
  using assms(1,2) unfolding calls_ok_def carries_def possible_calls_sent [OF assms(3)] by blast

lemma calls_ok_same_db: "calls_ok s \<Longrightarrow> dw_db s' = dw_db s \<Longrightarrow> dw_sent s' = dw_sent s \<Longrightarrow> calls_ok s'"
  by (rule calls_ok_carries [where k = 0]) simp_all

lemma gate_block_attempts:
  assumes "gate_block_reason w tick now up rup (g, d) = (r, g', d')"
  shows "attempts d' = attempts d \<and> events d' = events d"
  using assms by (auto simp: gate_block_reason_def spend_cap_block_reason_def note_reached_def Let_def
    split: prod.splits option.splits sum.splits budget_error.splits if_splits)

lemma gate_check_carries:
  assumes "gate_check w an m s = (r, s')"
  shows "carries k (dw_db s) (dw_db s') \<and> dw_sent s' = dw_sent s"
  using assms by (auto simp: gate_check_def split: prod.splits dest!: gate_block_attempts intro: carries_same)

text \<open>The hold is the only step that makes an attempt held; its attempt has not sent a possible call.\<close>

lemma engage_attempts:
  assumes "provider_halt_engage now up rup actor cat reason meta (c, d) sk = (r, (c', d'), sk')"
  shows "attempts d' = attempts d \<and> events d' = events d"
  using assms by (auto simp: provider_halt_engage_def engage_def Let_def split: prod.splits if_splits option.splits)

lemma held_db_others:
  assumes "held_id i (held_db now k c prior cat code d)" "i \<noteq> k"
  shows "held_id i d"
proof -
  obtain a where a: "get_attempt i (held_db now k c prior cat code d) = Some a"
    "is_held_attempt a (held_db now k c prior cat code d)" using assms(1) by (auto simp: held_id_def)
  have "a_id a = i" using a(1) unfolding get_attempt_def by (rule get_row_key)
  moreover have "get_attempt i d = Some a" using a(1) assms(2) by (simp add: held_db_def get_attempt_upd)
  ultimately show ?thesis using a(2) assms(2) by (simp add: held_id_def held_db_def is_held_attempt_def latest_event_type_def add_call_event_def)
qed

lemma held_db_keeps:
  "keys_distinct a_id (attempts d) \<Longrightarrow> keys_distinct a_id (attempts (held_db now k c prior cat code d))"
  "has_attempt i (held_db now k c prior cat code d) = has_attempt i d"
  by (auto simp: held_db_def has_attempt_def get_attempt_upd)

lemma calls_ok_hold:
  assumes "hold_for_provider_halt an d0 a c prior cat code source n s = (r, s')"
    and "calls_ok s" "calls_ok (s\<lparr> dw_db := d0 \<rparr>)" "a_id a \<notin> set (possible_calls s)"
  shows "calls_ok s' \<and> dw_sent s' = dw_sent s"
proof -
  let ?h = "held_db (an_clock an At_end) (a_id a) (c_id c) prior cat code (dw_db s)"
  have "calls_ok s'" if "attempts d' = attempts ?h" "events d' = events ?h" "dw_db s' = d'" "dw_sent s' = dw_sent s" for d'
  proof -
    have p: "possible_calls (s\<lparr> dw_db := ?h \<rparr>) = possible_calls s" by (simp add: possible_calls_def)
    have "\<not> held_id i ?h" if "i \<in> set (possible_calls s)" for i
      using that assms(2,4) held_db_others [of i _ "a_id a"] unfolding calls_ok_def by metis
    then have "calls_ok (s\<lparr> dw_db := ?h \<rparr>)" using assms(2) unfolding calls_ok_def p by (simp add: held_db_keeps)
    then show ?thesis by (rule calls_ok_carries [where k = 0]) (use that in \<open>auto intro: carries_same\<close>)
  qed
  with assms(1,3) show ?thesis
    by (auto simp: hold_for_provider_halt_def Let_def split: prod.splits sum.splits dest!: engage_attempts)
qed

section \<open>Placing a call\<close>

lemma sent_one:
  assumes "calls_ok s" "has_attempt i (dw_db s)" "\<not> held_id i (dw_db s)" "i \<notin> set (possible_calls s)"
  shows "calls_ok (s\<lparr> dw_sent := dw_sent s @ [(i, b)] \<rparr>)"
  using assms by (auto simp: calls_ok_def possible_calls_def)

lemma set_breaker_sel [simp]: "dw_db (set_breaker b s) = dw_db s" "dw_sent (set_breaker b s) = dw_sent s"
  "dw_db (breaker_failed w an s) = dw_db s" "dw_sent (breaker_failed w an s) = dw_sent s"
  by (simp_all add: set_breaker_def breaker_failed_def)

lemma calls_ok_breaker [simp]: "calls_ok (breaker_failed w an s) = calls_ok s" "calls_ok (set_breaker b s) = calls_ok s"
  by (simp_all add: calls_ok_def possible_calls_def)

lemma calls_ok_failure:
  assumes "calls_ok s" "etype \<noteq> HELD_EVENT_TYPE"
  shows "calls_ok (record_trigger_failure w an i c etype code cat memo reason ra s)"
  by (rule calls_ok_carries [OF assms(1) record_trigger_failure_carries [OF assms(2), where k = 0]]) simp

lemma after_ambiguous_trigger_ok:
  assumes "after_ambiguous_trigger w an d0 a c j e s = (r, s')" "calls_ok s" "calls_ok (s\<lparr> dw_db := d0 \<rparr>)"
  shows "calls_ok s' \<and> dw_sent s' = dw_sent s"
proof -
  obtain found memo d where f: "reconcile_with_dograh (an_http_date an) (st_retry_after_max_s (ev_settings w))
      (an_clock an At_lookup) (an_lookup an At_lookup) a c j (dw_db s) = ((found, memo), d)" by (metis prod.exhaust)
  have c: "carries 0 (dw_db s) d" by (rule reconcile_with_dograh_carries [OF f])
  have ok: "calls_ok (s\<lparr> dw_db := d \<rparr>)" by (rule calls_ok_carries [OF assms(2), of 0]) (simp_all add: c)
  show ?thesis using assms(1,3) ok f
    by (auto simp: after_ambiguous_trigger_def Let_def split: if_splits option.splits job_outcome.splits
      intro: calls_ok_failure)
qed

lemma after_refused_trigger_ok:
  assumes "after_refused_trigger w an d0 a c j prior e s = (r, s')" "calls_ok s" "calls_ok (s\<lparr> dw_db := d0 \<rparr>)"
    and "a_id a \<notin> set (possible_calls s)"
  shows "calls_ok s' \<and> dw_sent s' = dw_sent s"
proof -
  have ok: "calls_ok (s\<lparr> dw_streak := sk \<rparr>)" "calls_ok (s\<lparr> dw_streak := sk, dw_db := d0 \<rparr>)"
    "possible_calls (s\<lparr> dw_streak := sk \<rparr>) = possible_calls s" for sk
    using calls_ok_same_db [OF assms(2), of "s\<lparr> dw_streak := sk \<rparr>"]
      calls_ok_same_db [OF assms(3), of "s\<lparr> dw_streak := sk, dw_db := d0 \<rparr>"] by (simp_all add: possible_calls_def)
  from assms(1) show ?thesis unfolding after_refused_trigger_def Let_def
    by (auto split: prod.splits if_splits dest!: calls_ok_hold simp: ok assms(2,3,4) intro!: calls_ok_failure)
qed

lemma after_accepted_trigger_ok:
  assumes "after_accepted_trigger an d0 a run s = (r, s')" "calls_ok s" "calls_ok (s\<lparr> dw_db := d0 \<rparr>)"
  shows "calls_ok s' \<and> dw_sent s' = dw_sent s"
  using assms by (auto simp: after_accepted_trigger_def split: if_splits
    intro!: calls_ok_carries [OF assms(2), where k = 0] carries_upd_event)

lemma place_call_via_dograh_ok:
  assumes "place_call_via_dograh w an a c j prior s = (r, s')" "calls_ok s"
    and "has_attempt (a_id a) (dw_db s)" "\<not> held_id (a_id a) (dw_db s)" "a_id a \<notin> set (possible_calls s)"
  shows "calls_ok s' \<and> (\<exists>b. dw_sent s' \<in> {dw_sent s, dw_sent s @ [(a_id a, b)]})"
proof -
  let ?x = "an_trigger an" and ?s1 = "s\<lparr> dw_sent := dw_sent s @ [(a_id a, \<not> refused_or_unsent (an_trigger an))] \<rparr>"
  have s1: "calls_ok ?s1" by (rule sent_one [OF assms(2-5)])
  have db: "?s1\<lparr> dw_db := dw_db s \<rparr> = ?s1" "s\<lparr> dw_db := dw_db s \<rparr> = s" by simp_all
  have unsent: "a_id a \<notin> set (possible_calls ?s1)" if "refused_or_unsent ?x"
    using assms(5) that by (simp add: possible_calls_def)
  show ?thesis
  proof (cases "an_cut an = After_claim \<or> \<not> an_configured an \<or> an_cut an = After_send")
    case True
    then show ?thesis using assms(1,2,5) s1
      by (auto simp: place_call_via_dograh_def Let_def split: if_splits prod.splits dest!: calls_ok_hold)
  next
    case False
    let ?t = "trigger_call (an_http_date an) (st_retry_after_max_s (ev_settings w)) (an_clock an At_trigger) ?x"
    show ?thesis
    proof (cases ?t)
      case (Inr run)
      with False assms(1) have "after_accepted_trigger an (dw_db s) a run ?s1 = (r, s')"
        by (simp add: place_call_via_dograh_def Let_def)
      from after_accepted_trigger_ok [OF this s1] s1 show ?thesis unfolding db by auto
    next
      case (Inl e)
      note t = trigger_error [OF Inl]
      show ?thesis
      proof (cases "provider_configuration_category e")
        case None
        show ?thesis
        proof (cases "is_ambiguous e")
          case True
          with False None Inl assms(1) have "after_ambiguous_trigger w an (dw_db s) a c j e ?s1 = (r, s')"
            by (simp add: place_call_via_dograh_def Let_def)
          from after_ambiguous_trigger_ok [OF this s1] s1 show ?thesis unfolding db by auto
        next
          case sure: False
          with False None Inl assms(1) have "after_refused_trigger w an (dw_db s) a c j prior e ?s1 = (r, s')"
            by (simp add: place_call_via_dograh_def Let_def)
          from after_refused_trigger_ok [OF this s1] s1 sure t unsent show ?thesis unfolding db by auto
        qed
      next
        case (Some category)
        with False Inl assms(1) obtain r1 where
          "hold_for_provider_halt an (dw_db s) a c prior category (Some (ae_status e)) None None ?s1 = (r1, s')"
          by (auto simp: place_call_via_dograh_def Let_def split: prod.splits)
        from calls_ok_hold [OF this s1] s1 Some t unsent show ?thesis unfolding db by auto
      qed
    qed
  qed
qed

lemma get_attempt_id: "get_attempt i d = Some a \<Longrightarrow> a_id a = i"
  unfolding get_attempt_def by (rule get_row_key)

lemma by_number_get_attempt:
  assumes "keys_distinct a_id (attempts d)" "get_by_contact_and_number c n d = Some a"
  shows "get_attempt (a_id a) d = Some a"
  using assms(2) get_row_Some_iff [OF assms(1)]
  by (auto simp: get_attempt_def dest: get_by_contact_and_number_SomeD)

text \<open>What other transactions and the start of a conversation may do during the job: they keep attempts and do not
  use the fresh id.\<close>

definition others_ok :: "answers \<Rightarrow> bool" where
  "others_ok an \<longleftrightarrow> (\<forall>m d. carries (an_new_attempt an) d (an_others an m d)) \<and>
    (\<forall>d. carries (an_new_attempt an) d (an_conversation an d))"

lemma get_or_create_new:
  assumes "get_or_create other now i contact n d = (a, True, d')" "keys_distinct a_id (attempts d)"
    "\<not> has_attempt i d" "carries i d (other d)"
  shows "a_id a = i" "has_attempt i d'" "\<not> held_id i d'"
    "keys_distinct a_id (attempts d')" "\<And>k. has_attempt k d \<Longrightarrow> has_attempt k d'"
    "\<And>k. held_id k d' \<Longrightarrow> held_id k d \<or> \<not> has_attempt k d"
proof -
  have d': "d' = (other d)\<lparr> attempts := attempts (other d) @ [a] \<rparr>" "a = new_attempt now i contact n"
    using assms(1) by (auto simp: get_or_create_def Let_def split: option.splits)
  have o: "keys_distinct a_id (attempts (other d))" "\<not> has_attempt i (other d)"
    using assms(2-4) by (auto simp: carries_def)
  have g: "get_attempt k d' = (if k = i then Some a else get_attempt k (other d))" for k
    using o(2) by (auto simp: d' get_attempt_def get_row_snoc has_attempt_def split: option.splits)
  have le: "latest_event_type k d' = latest_event_type k (other d)" for k by (simp add: latest_event_type_def d'(1))
  have st: "a_state a = A_INITIATED" by (simp add: d'(2))
  have h: "held_id k d' \<longleftrightarrow> k \<noteq> i \<and> held_id k (other d)" for k
    unfolding held_id_def g is_held_attempt_def le using st by auto
  show "a_id a = i" "has_attempt i d'" "\<not> held_id i d'" using d'(2) g h by (simp_all add: has_attempt_def)
  show "keys_distinct a_id (attempts d')" using o by (simp add: d' keys_distinct_snoc has_attempt_def get_attempt_def)
  show "has_attempt k d \<Longrightarrow> has_attempt k d'" for k using assms(4) g [of k] by (auto simp: carries_def has_attempt_def)
  show "held_id k d' \<Longrightarrow> held_id k d \<or> \<not> has_attempt k d" for k using assms(4) h [of k] by (auto simp: carries_def)
qed

lemma resume_held:
  assumes "has_attempt i d"
  shows "carries k d (resume_held_attempt now i d)" "has_attempt i (resume_held_attempt now i d)"
    "\<not> held_id i (resume_held_attempt now i d)"
proof -
  show "carries k d (resume_held_attempt now i d)" unfolding resume_held_attempt_def by (rule carries_upd_event) simp_all
  then show "has_attempt i (resume_held_attempt now i d)" using assms by (simp add: carries_def)
  show "\<not> held_id i (resume_held_attempt now i d)"
    by (auto simp: resume_held_attempt_def held_id_def get_attempt_upd is_held_attempt_def)
qed

lemma claim_and_place_ok:
  assumes "claim_and_place w an d0 c held j s = (r, s')" "st_calling_engine (ev_settings w) = ''dograh''"
    and "calls_ok s" "others_ok an" "\<not> has_attempt (an_new_attempt an) (dw_db s)"
    and "\<And>h. held = Some h \<Longrightarrow> has_attempt (a_id h) (dw_db s) \<and> a_id h \<notin> set (possible_calls s)"
  shows "calls_ok s' \<and> (\<exists>i b. dw_sent s' \<in> {dw_sent s, dw_sent s @ [(i, b)]})"
proof -
  let ?now = "an_clock an At_claim" and ?k = "an_new_attempt an"
  have place: ?thesis if p: "place_call w an d0 a c j prior (s\<lparr> dw_db := upd_contact (c_id c) f d1 \<rparr>) = (r1, s')"
      and ok: "calls_ok (s\<lparr> dw_db := d1 \<rparr>)" "has_attempt (a_id a) d1" "\<not> held_id (a_id a) d1" "a_id a \<notin> set (possible_calls s)"
    for a prior f d1 r1
  proof -
    let ?s = "s\<lparr> dw_db := upd_contact (c_id c) f d1 \<rparr>"
    have e: "place_call_via_dograh w an a c j prior ?s = (r1, s')" using p assms(2) by (simp add: place_call_def)
    have "calls_ok ?s" by (rule calls_ok_carries [OF ok(1), where k = 0]) simp_all
    moreover have "has_attempt (a_id a) (dw_db ?s)" using ok(2) by (simp add: has_attempt_def)
    moreover have "\<not> held_id (a_id a) (dw_db ?s)" using ok(3) held_id_same [of "dw_db ?s" d1] by simp
    moreover have "a_id a \<notin> set (possible_calls ?s)" using ok(4) by (simp add: possible_calls_def)
    ultimately have "calls_ok s' \<and> (\<exists>b. dw_sent s' \<in> {dw_sent ?s, dw_sent ?s @ [(a_id a, b)]})"
      by (rule place_call_via_dograh_ok [OF e])
    then show ?thesis by auto
  qed
  show ?thesis
  proof (cases held)
    case (Some h)
    from assms(6) [OF Some] have h: "has_attempt (a_id h) (dw_db s)" "a_id h \<notin> set (possible_calls s)" by simp_all
    note res = resume_held [OF h(1), where now = ?now]
    have ok: "calls_ok (s\<lparr> dw_db := resume_held_attempt ?now (a_id h) (dw_db s) \<rparr>)"
      by (rule calls_ok_carries [OF assms(3), where k = 0]) (simp_all add: res(1))
    from assms(1) Some show ?thesis
      by (auto simp: claim_and_place_def Let_def split: prod.splits dest!: place [OF _ ok res(2,3) h(2)])
  next
    case None
    obtain a created d1 where g: "get_or_create (an_others an At_claim) ?now ?k (c_id c) (dj_attempt j) (dw_db s) = (a, created, d1)"
      by (metis prod_cases3)
    have o: "carries ?k (dw_db s) (an_others an At_claim (dw_db s))" using assms(4) by (simp add: others_ok_def)
    have kd: "keys_distinct a_id (attempts (dw_db s))" using assms(3) by (simp add: calls_ok_def)
    show ?thesis
    proof (cases created)
      case False
      have "d1 \<in> {dw_db s, an_others an At_claim (dw_db s)}"
        using g False by (auto simp: get_or_create_def Let_def split: option.splits)
      then have "calls_ok (s\<lparr> dw_db := d1 \<rparr>)" using o by (auto intro!: calls_ok_carries [OF assms(3), where k = ?k])
      with assms(1,2) None g False show ?thesis by (auto simp: claim_and_place_def)
    next
      case True
      have g': "get_or_create (an_others an At_claim) ?now ?k (c_id c) (dj_attempt j) (dw_db s) = (a, True, d1)"
        using g True by simp
      note n = get_or_create_new [OF g' kd assms(5) o]
      have fresh: "?k \<notin> set (possible_calls s)" using assms(3,5) by (auto simp: calls_ok_def)
      have p: "possible_calls (s\<lparr> dw_db := d1 \<rparr>) = possible_calls s" by (simp add: possible_calls_def)
      have ok: "calls_ok (s\<lparr> dw_db := d1 \<rparr>)"
        using assms(3) n(4-6) unfolding calls_ok_def p by (simp, blast)
      have i: "has_attempt (a_id a) d1" "\<not> held_id (a_id a) d1" "a_id a \<notin> set (possible_calls s)" using n(1-3) fresh by simp_all
      from assms(1) None g True show ?thesis
        by (auto simp: claim_and_place_def Let_def split: prod.splits dest!: place [OF _ ok i])
    qed
  qed
qed

lemma dial_checked_ok:
  assumes "dial_checked w an (dw_db s) c camp held j s = (r, s')" "st_calling_engine (ev_settings w) = ''dograh''"
    and "calls_ok s" "others_ok an" "\<not> has_attempt (an_new_attempt an) (dw_db s)"
    and held: "\<And>h. held = Some h \<Longrightarrow> has_attempt (a_id h) (dw_db s) \<and> a_id h \<notin> set (possible_calls s)"
  shows "calls_ok s' \<and> (\<exists>i b. dw_sent s' \<in> {dw_sent s, dw_sent s @ [(i, b)]})"
proof -
  let ?k = "an_new_attempt an"
  obtain g d where g: "(if st_calling_engine (ev_settings w) = ''dograh'' \<and> dj_attempt j > 1
           then second_reconciliation_gate (ev_settings w) (an_http_date an) (an_clock an At_second_lookup)
             (an_lookup an At_second_lookup) (an_others an At_second_lookup) c j (dw_db s)
           else (Inr None, dw_db s)) = (g, d)" by (metis surj_pair)
  have cd: "carries ?k (dw_db s) d"
    using g assms(4) by (auto simp: others_ok_def split: if_splits dest!: second_gate_carries [where k = ?k])
  let ?s1 = "s\<lparr> dw_db := d \<rparr>"
  have ok1: "calls_ok ?s1" by (rule calls_ok_carries [OF assms(3), where k = ?k]) (simp_all add: cd)
  obtain b s2 where gc: "gate_check w an At_gate ?s1 = (b, s2)" by (metis surj_pair)
  from gate_check_carries [OF gc, of ?k] have c2: "carries ?k d (dw_db s2)" and sent2: "dw_sent s2 = dw_sent s" by simp_all
  have ok2: "calls_ok s2" by (rule calls_ok_carries [OF ok1, where k = ?k]) (simp_all add: c2 sent2)
  have undone: "calls_ok (s2\<lparr> dw_db := dw_db s \<rparr>)" by (rule calls_ok_same_db [OF assms(3)]) (simp_all add: sent2)
  have c: "carries ?k (dw_db s) (dw_db s2)" by (rule carries_trans [OF cd c2])
  have fresh: "\<not> has_attempt ?k (dw_db s2)" using c assms(5) by (auto simp: carries_def)
  have h2: "has_attempt (a_id h) (dw_db s2) \<and> a_id h \<notin> set (possible_calls s2)" if "held = Some h" for h
    using held [OF that] c possible_calls_sent [OF sent2] by (auto simp: carries_def)
  have claim: "calls_ok s' \<and> (\<exists>i b. dw_sent s' \<in> {dw_sent s, dw_sent s @ [(i, b)]})"
    if "claim_and_place w an (dw_db s) c held j s2 = (r, s')"
    using claim_and_place_ok [OF that assms(2) ok2 assms(4) fresh h2] sent2 by simp
  show ?thesis
  proof (rule ccontr)
    assume n: "\<not> ?thesis"
    then have "s' \<noteq> s" "s' \<noteq> ?s1" "s' \<noteq> s2" "s' \<noteq> s2\<lparr> dw_db := dw_db s \<rparr>" "s' \<noteq> s\<lparr> dw_db := dw_db s \<rparr>"
      "s' \<noteq> ?s1\<lparr> dw_db := dw_db s \<rparr>"
      using assms(3) ok1 ok2 undone sent2 calls_ok_same_db [OF assms(3), of "?s1\<lparr> dw_db := dw_db s \<rparr>"] by auto
    with assms(1) g gc claim n show False
      by (auto simp: dial_checked_def Let_def split: if_splits sum.splits option.splits)
  qed
qed

lemma resolve_unresolved_claim_ok:
  assumes "resolve_unresolved_claim w an a c j s = (out, s')" "calls_ok s"
  shows "calls_ok s' \<and> dw_sent s' = dw_sent s"
proof -
  obtain found memo d where f: "reconcile_with_dograh (an_http_date an) (st_retry_after_max_s (ev_settings w))
      (an_clock an At_lookup) (an_lookup an At_lookup) a c j (dw_db s) = ((found, memo), d)" by (metis prod.exhaust)
  have ok: "calls_ok (s\<lparr> dw_db := d \<rparr>)"
    by (rule calls_ok_carries [OF assms(2), of 0]) (simp_all add: reconcile_with_dograh_carries [OF f])
  show ?thesis using assms f ok
    by (auto simp: resolve_unresolved_claim_def Let_def split: if_splits option.splits intro: calls_ok_failure)
qed

lemma dial_ok:
  assumes "dial w an j s = (r, s')" "st_calling_engine (ev_settings w) = ''dograh''"
    and "calls_ok s" "others_ok an" "\<not> has_attempt (an_new_attempt an) (dw_db s)"
  shows "calls_ok s' \<and> (\<exists>i b. dw_sent s' \<in> {dw_sent s, dw_sent s @ [(i, b)]})"
proof (cases "get_contact (dj_contact j) (dw_db s) = None \<or> get_campaign (dj_campaign j) (dw_db s) = None")
  case True
  with assms(1,3) show ?thesis by (auto simp: dial_def Let_def split: option.splits)
next
  case False
  then obtain c camp where cc: "get_contact (dj_contact j) (dw_db s) = Some c" "get_campaign (dj_campaign j) (dw_db s) = Some camp"
    by auto
  show ?thesis
  proof (cases "get_by_contact_and_number (c_id c) (dj_attempt j) (dw_db s)")
    case None
    with assms(1) cc have "dial_checked w an (dw_db s) c camp None j s = (r, s')" by (simp add: dial_def Let_def)
    from dial_checked_ok [OF this assms(2-5)] show ?thesis by simp
  next
    case (Some a)
    have kd: "keys_distinct a_id (attempts (dw_db s))" using assms(3) by (simp add: calls_ok_def)
    note a = by_number_get_attempt [OF kd Some]
    show ?thesis
    proof (cases "a_provider_call_id a = None \<and> is_held_attempt a (dw_db s)")
      case True
      with assms(1,2) cc Some have d: "dial_checked w an (dw_db s) c camp (Some a) j s = (r, s')" by (simp add: dial_def Let_def)
      have "held_id (a_id a) (dw_db s)" using a True by (simp add: held_id_def)
      then have "has_attempt (a_id a) (dw_db s) \<and> a_id a \<notin> set (possible_calls s)"
        using assms(3) a by (auto simp: calls_ok_def has_attempt_def)
      then show ?thesis by (intro dial_checked_ok [OF d assms(2-5)]) simp
    next
      case False
      with assms(1-3) cc Some show ?thesis
        by (auto simp: dial_def Let_def split: if_splits prod.splits dest!: resolve_unresolved_claim_ok)
    qed
  qed
qed

section \<open>Histories\<close>

text \<open>Any delivery may be processed at any time, again and again, in any order, with any answers and cuts;
  between two of them other processes change anything, as long as they keep the attempts, hold none and
  leave the ghost alone.\<close>

inductive history :: "'p env \<Rightarrow> string \<Rightarrow> worker \<Rightarrow> bool" for w name where
  start: "keys_distinct a_id (attempts (dw_db (wk_dialer s))) \<Longrightarrow> dw_sent (wk_dialer s) = [] \<Longrightarrow> history w name s"
| job: "history w name s \<Longrightarrow> process_claimed_job w name dl i j s = (out, s') \<Longrightarrow> others_ok (dl_answers dl) \<Longrightarrow>
    \<not> has_attempt (an_new_attempt (dl_answers dl)) (dw_db (wk_dialer s)) \<Longrightarrow> history w name s'"
| others: "history w name s \<Longrightarrow> carries k (dw_db (wk_dialer s)) (dw_db (wk_dialer s')) \<Longrightarrow>
    dw_sent (wk_dialer s') = dw_sent (wk_dialer s) \<Longrightarrow> history w name s'"

inductive_cases history_cases: "history w name s"

lemma settled_dialer:
  assumes "settled dl x s = (r, s')"
  shows "dw_db (wk_dialer s') = dw_db (wk_dialer s) \<and> dw_sent (wk_dialer s') = dw_sent (wk_dialer s)"
  using assms by (auto simp: settled_def split: prod.splits)

lemma settled_calls_ok: "settled dl x s = (r, s') \<Longrightarrow> calls_ok (wk_dialer s) \<Longrightarrow> calls_ok (wk_dialer s')"
  by (drule settled_dialer) (auto intro: calls_ok_same_db)

lemma dial_admitted_ok:
  assumes "dial_admitted w dl i j l s = (r, s')" "st_calling_engine (ev_settings w) = ''dograh''"
    and "calls_ok (wk_dialer s)" "others_ok (dl_answers dl)" "\<not> has_attempt (an_new_attempt (dl_answers dl)) (dw_db (wk_dialer s))"
  shows "calls_ok (wk_dialer s')"
proof -
  obtain r1 ds where d: "(if an_cut (dl_answers dl) = Before_claim then (Inl Deadline, wk_dialer s)
      else dial w (dl_answers dl) j (wk_dialer s)) = (r1, ds)" by (metis surj_pair)
  have ok: "calls_ok ds" using d assms(3) dial_ok [OF _ assms(2-5)] by (auto split: if_splits)
  show ?thesis using assms(1) d ok
    by (auto simp: dial_admitted_def Let_def split: sum.splits job_outcome.splits option.splits dest!: settled_calls_ok)
qed

lemma process_claimed_job_ok:
  assumes "process_claimed_job w name dl i j s = (out, s')" "st_calling_engine (ev_settings w) = ''dograh''"
    and "calls_ok (wk_dialer s)" "others_ok (dl_answers dl)" "\<not> has_attempt (an_new_attempt (dl_answers dl)) (dw_db (wk_dialer s))"
  shows "calls_ok (wk_dialer s')"
proof -
  obtain r s1 where p: "process_claimed w name dl i j s = (r, s1)" by (metis surj_pair)
  obtain b ds where g: "gate_check w (dl_answers dl) At_stage1 (wk_dialer s) = (b, ds)" by (metis surj_pair)
  note gc = gate_check_carries [OF g, of "an_new_attempt (dl_answers dl)"]
  have ok: "calls_ok ds" using gc by (auto intro: calls_ok_carries [OF assms(3)])
  have fresh: "\<not> has_attempt (an_new_attempt (dl_answers dl)) (dw_db ds)" using gc assms(5) by (auto simp: carries_def)
  have "calls_ok (wk_dialer s1)" using p g ok fresh assms(2,4)
    by (auto simp: process_claimed_def Let_def split: sum.splits option.splits if_splits bool.splits prod.splits
      dest!: settled_calls_ok dial_admitted_ok)
  then show ?thesis using assms(1) p
    by (auto simp: process_claimed_job_def split: sum.splits job_fault.splits if_splits)
qed

text \<open>
  Over any history of deliveries, redeliveries, crashes at any point of the claim protocol and changes
  by other processes, no attempt ever sends two requests that may have placed a call.
\<close>

theorem no_second_call:
  assumes "history w name s" "st_calling_engine (ev_settings w) = ''dograh''"
  shows "distinct (possible_calls (wk_dialer s))"
proof -
  have "calls_ok (wk_dialer s)"
    using assms(1)
  proof (induction rule: history.induct)
    case (start s)
    then show ?case by (simp add: calls_ok_def possible_calls_def)
  next
    case (job s dl i j out s')
    then show ?case using process_claimed_job_ok [OF job(2) assms(2)] by simp
  next
    case (others s k s')
    then show ?case using calls_ok_carries by blast
  qed
  then show ?thesis by (simp add: calls_ok_def)
qed

end
