(* ===== verification/Dialer_Contract.thy ===== *)
theory Dialer_Contract imports Dialer_Safety begin

text \<open>
  The contract of one delivery: what had to hold before a request left, when the message may be acknowledged,
  what a provider halt leaves behind, and how the gate before an ambiguous retry decides.
\<close>

section \<open>The gate before an ambiguous retry\<close>

lemma deferrals_audit [simp]:
  "deferrals i (reconcile_audit action k meta d) = deferrals i d + (if k = i \<and> action = DEFERRED_ACTION then 1 else 0)"
  by (simp add: deferrals_def reconcile_audit_def record_audit_event_def count_where_def)

lemma lookup_action [simp]: "''dograh.reconciliation_lookup_'' @ k \<noteq> DEFERRED_ACTION"
  by (simp add: DEFERRED_ACTION_def)

lemma lookup_deferrals: "lookup_runs hdt m now lk a stage ids d = (r, d') \<Longrightarrow> deferrals i d' = deferrals i d"
  by (auto simp: lookup_runs_def Let_def simp del: append_Cons split: if_splits sum.splits)

lemma upd_contact_deferrals [simp]: "deferrals i (upd_contact k f d) = deferrals i d"
  by (simp add: deferrals_def)

text \<open>
  When the lookup of an unresolved ambiguous attempt fails, the retry is deferred and the deferral counted,
  until the maximum is spent: then it expires and the contact is closed. So one attempt is deferred at most
  \<open>st_reconcile_max_deferrals\<close> times, and the retry never goes on without an answer.
\<close>

theorem failed_lookup_defers_then_expires:
  assumes "get_by_contact_and_number (c_id c) (dj_attempt j - 1) d = Some prev"
    and "is_unresolved_ambiguous_trigger prev d"
    and "fst (lookup_runs http_date (st_retry_after_max_s st) now lk prev ''second'' (reconcile_ids c prev j) d) = Inl failure"
    and "second_reconciliation_gate st http_date now lk others c j d = (r, d')"
  shows "if int (deferrals (a_id prev) d) < st_reconcile_max_deferrals st
    then r = Inr (Some RECONCILE_DEFERRED) \<and> deferrals (a_id prev) d' = Suc (deferrals (a_id prev) d) \<and>
      int (deferrals (a_id prev) d') \<le> st_reconcile_max_deferrals st
    else r = Inr (Some RECONCILE_EXPIRED) \<and>
      map_option c_status (get_contact (c_id c) d') = map_option (\<lambda>_. C_COMPLETED_PARTIAL) (get_contact (c_id c) d)"
proof -
  let ?ids = "reconcile_ids c prev j"
  obtain d1 where l: "lookup_runs http_date (st_retry_after_max_s st) now lk prev ''second'' ?ids d = (Inl failure, d1)"
    using assms(3) by (metis prod.collapse)
  have same: "deferrals (a_id prev) d1 = deferrals (a_id prev) d" by (rule lookup_deferrals [OF l])
  have "get_contact k d1 = get_contact k d" for k
    using l by (auto simp: lookup_runs_def Let_def reconcile_audit_def split: if_splits sum.splits)
  moreover have "a_state prev \<noteq> A_INITIATED" "a_provider_call_id prev = None"
    using assms(2) by (simp_all add: is_unresolved_ambiguous_trigger_def)
  moreover have "''dograh.reconciliation_expired'' \<noteq> DEFERRED_ACTION" by (simp add: DEFERRED_ACTION_def)
  ultimately show ?thesis using assms(1,2,4) l same
    by (auto simp: second_reconciliation_gate_def Let_def defer_or_expire_def get_contact_upd reconcile_audit_def [of "''dograh.reconciliation_expired''"]
      option.map_comp comp_def split: if_splits)
qed

section \<open>Before a request leaves\<close>

text \<open>What successive admission tries would answer, each on the leases and counters the one before left.\<close>

fun admissions :: "settings \<Rightarrow> string \<Rightarrow> string \<Rightarrow> dial_job \<Rightarrow> (nat \<Rightarrow> faults \<times> instant \<times> int \<times> int \<times> string) \<Rightarrow> nat \<Rightarrow> breaker \<Rightarrow>
    lease_store \<times> counters \<Rightarrow> admission list" where
  "admissions st worker prov j ans 0 b s = []"
| "admissions st worker prov j ans (Suc n) b s =
    (case ans n of (f, now, now_ms, second, i) \<Rightarrow>
      case try_admit (cps_limits_of st) (lease_config_of st worker) f now now_ms second i (decimal (dj_campaign j)) prov
          (key_text (idempotency_key j)) b s of
        (r, s1) \<Rightarrow> r # admissions st worker prov j ans n b s1)"

lemma admit_loop_tries:
  assumes "admit_loop st worker prov j ans n b s = (Inr (Some l), s')"
  shows "\<exists>refused rest. admissions st worker prov j ans n b s = refused @ Admitted l # rest \<and>
    set refused \<subseteq> {Circuit_open, Duplicate_lease, Concurrency_exceeded, Cps_exceeded_result}"
  using assms
proof (induction n arbitrary: s)
  case (Suc n)
  obtain f now now_ms second i where a: "ans n = (f, now, now_ms, second, i)" by (metis prod_cases5)
  obtain r s1 where t: "try_admit (cps_limits_of st) (lease_config_of st worker) f now now_ms second i (decimal (dj_campaign j)) prov
          (key_text (idempotency_key j)) b s = (r, s1)" by (metis surj_pair)
  have again: ?case if n: "admit_loop st worker prov j ans n b s1 = (Inr (Some l), s')"
      and r: "r \<in> {Circuit_open, Duplicate_lease, Concurrency_exceeded, Cps_exceeded_result}"
  proof -
    from Suc.IH [OF n] obtain refused rest where "admissions st worker prov j ans n b s1 = refused @ Admitted l # rest"
      "set refused \<subseteq> {Circuit_open, Duplicate_lease, Concurrency_exceeded, Cps_exceeded_result}" by blast
    then show ?thesis using r a t by (intro exI [of _ "r # refused"] exI [of _ rest]) auto
  qed
  show ?case
  proof (cases r)
    case (Admitted l')
    then show ?thesis using Suc.prems a t
      by (intro exI [of _ "[]"] exI [of _ "admissions st worker prov j ans n b s1"]) auto
  qed (use Suc.prems a t again in auto)
qed simp

lemma place_call_native_sent: "place_call_native w an d0 a c s = (r, s') \<Longrightarrow> dw_sent s' = dw_sent s"
  by (auto simp: place_call_native_def Let_def split: if_splits call_result.splits option.splits)

lemma resolve_unresolved_claim_sent: "resolve_unresolved_claim w an a c j s = (out, s') \<Longrightarrow> dw_sent s' = dw_sent s"
  by (auto simp: resolve_unresolved_claim_def Let_def split: if_splits prod.splits option.splits)

lemma gate_check_sent: "gate_check w an m s = (r, s') \<Longrightarrow> dw_sent s' = dw_sent s"
  by (drule gate_check_carries [where k = 0]) simp

text \<open>What the second lookup answers, for the jobs it is made for.\<close>

definition retry_lookup :: "'p env \<Rightarrow> answers \<Rightarrow> contact \<Rightarrow> dial_job \<Rightarrow> db \<Rightarrow> (unit + job_outcome option) \<times> db" where
  "retry_lookup w an c j d =
    (if st_calling_engine (ev_settings w) = ''dograh'' \<and> dj_attempt j > 1
     then second_reconciliation_gate (ev_settings w) (an_http_date an) (an_clock an At_second_lookup)
       (an_lookup an At_second_lookup) (an_others an At_second_lookup) c j d
     else (Inr None, d))"

lemma dial_checked_sent:
  assumes "dial_checked w an d0 c camp held j s = (r, s')" "dw_sent s' \<noteq> dw_sent s"
  shows "\<exists>e d2 s2. dial_check w c camp (Some (get_effective_policy (ev_settings w) (camp_id camp) (dw_db s)))
      (an_clock an At_eligibility) (dw_db s) = Inr e \<and> el_eligible e \<and>
    retry_lookup w an c j (dw_db s) = (Inr None, d2) \<and>
    gate_check w an At_gate (s\<lparr> dw_db := d2 \<rparr>) = (Inr None, s2) \<and> claim_and_place w an d0 c held j s2 = (r, s')"
proof -
  obtain e where e: "dial_check w c camp (Some (get_effective_policy (ev_settings w) (camp_id camp) (dw_db s)))
      (an_clock an At_eligibility) (dw_db s) = Inr e" "el_eligible e"
    using assms by (auto simp: dial_checked_def Let_def split: if_splits sum.splits)
  obtain g d2 where g: "retry_lookup w an c j (dw_db s) = (g, d2)" by (metis surj_pair)
  obtain b s2 where b: "gate_check w an At_gate (s\<lparr> dw_db := d2 \<rparr>) = (b, s2)" by (metis surj_pair)
  have sent: "dw_sent s2 = dw_sent s" using gate_check_sent [OF b] by simp
  have "g = Inr None \<and> b = Inr None \<and> claim_and_place w an d0 c held j s2 = (r, s')"
    using assms e b sent unfolding dial_checked_def Let_def retry_lookup_def [symmetric] g
    by (auto split: if_splits sum.splits option.splits)
  then show ?thesis using e g b by blast
qed

lemma dial_sent:
  assumes "dial w an j s = (r, s')" "dw_sent s' \<noteq> dw_sent s"
  shows "\<exists>c camp held. get_contact (dj_contact j) (dw_db s) = Some c \<and> get_campaign (dj_campaign j) (dw_db s) = Some camp \<and>
    dial_checked w an (dw_db s) c camp held j s = (r, s')"
  using assms unfolding dial_def Let_def
  by (auto split: if_splits option.splits prod.splits dest: resolve_unresolved_claim_sent)

lemma settled_sent: "settled dl x s = (r, s') \<Longrightarrow> dw_sent (wk_dialer s') = dw_sent (wk_dialer s)"
  by (drule settled_dialer) simp

lemma dial_admitted_sent:
  assumes "dial_admitted w dl i j l s = (r, s')" "dw_sent (wk_dialer s') \<noteq> dw_sent (wk_dialer s)"
  shows "\<exists>r1 ds. dial w (dl_answers dl) j (wk_dialer s) = (r1, ds) \<and> dw_sent ds \<noteq> dw_sent (wk_dialer s)"
proof -
  obtain r1 ds where d: "(if an_cut (dl_answers dl) = Before_claim then (Inl Deadline, wk_dialer s)
      else dial w (dl_answers dl) j (wk_dialer s)) = (r1, ds)" by (metis surj_pair)
  have "dw_sent (wk_dialer s') = dw_sent ds" using assms(1) d
    by (auto simp: dial_admitted_def Let_def split: sum.splits job_outcome.splits option.splits dest!: settled_sent)
  with d assms(2) show ?thesis by (auto split: if_splits)
qed

lemma process_claimed_sent:
  assumes "process_claimed w name dl i j s = (r, s')" "dw_sent (wk_dialer s') \<noteq> dw_sent (wk_dialer s)"
  shows "\<exists>ds l ls. gate_check w (dl_answers dl) At_stage1 (wk_dialer s) = (Inr None, ds) \<and>
    \<not> campaign_is_paused (dj_campaign j) (dw_db ds) \<and>
    admit_loop (ev_settings w) name (if st_calling_engine (ev_settings w) = ''dograh'' then ''dograh'' else an_provider (dl_answers dl))
      j (dl_admit dl) ADMISSION_RETRY_ATTEMPTS (dw_breaker ds) (wk_leases s) = (Inr (Some l), ls) \<and>
    dial_admitted w dl i j l (s\<lparr> wk_dialer := ds, wk_leases := ls \<rparr>) = (r, s')"
  using assms unfolding process_claimed_def Let_def
  by (auto split: sum.splits option.splits if_splits bool.splits prod.splits dest!: settled_sent gate_check_sent)

lemma gate_block_contact:
  assumes "gate_block_reason w tick now up rup (g, d) = (r, g', d')"
  shows "contacts d' = contacts d \<and> campaigns d' = campaigns d \<and> suppressions d' = suppressions d \<and> policies d' = policies d \<and>
    attempts d' = attempts d"
  using assms by (auto simp: gate_block_reason_def spend_cap_block_reason_def note_reached_def Let_def
    split: prod.splits option.splits sum.splits budget_error.splits if_splits)

lemma gate_check_contact:
  assumes "gate_check w an m s = (r, s')"
  shows "contacts (dw_db s') = contacts (dw_db s) \<and> campaigns (dw_db s') = campaigns (dw_db s) \<and>
    suppressions (dw_db s') = suppressions (dw_db s) \<and> policies (dw_db s') = policies (dw_db s) \<and>
    attempts (dw_db s') = attempts (dw_db s)"
  using assms by (auto simp: gate_check_def split: prod.splits dest!: gate_block_contact)

text \<open>
  C18: when processing a delivery sends a request to the provider, then the first outbound gate was open; an admission try was
  granted, and those before it were refused for their limits, none for a Redis error (which ends the job); the campaign of
  the job exists and is active, and its contact is not suppressed, not purged, in a state before or at dialing, of an
  allowed region, and inside the calling window at the time of the check; for a retry through Dograh the second lookup let it go
  on; and the second outbound gate, read after all this on the database the lookup left, was open.
\<close>

theorem request_needs_every_check:
  assumes "process_claimed_job w name dl i j s = (out, s')" "dw_sent (wk_dialer s') \<noteq> dw_sent (wk_dialer s)"
  shows "\<exists>c camp s1 d2 s3 l refused rest. get_contact (dj_contact j) (dw_db (wk_dialer s)) = Some c \<and>
    get_campaign (dj_campaign j) (dw_db (wk_dialer s)) = Some camp \<and>
    camp_status camp = CAMP_ACTIVE \<and> c_purged_at c = None \<and> c_status c \<in> {C_PENDING, C_DIALING, C_RETRY_SCHEDULED} \<and>
    \<not> is_suppressed w (c_number c) (dw_db (wk_dialer s)) \<and>
    is_dialable_region w (c_number c) (st_allowed_dial_regions (ev_settings w)) \<and>
    window_is_open w camp (get_effective_policy (ev_settings w) (camp_id camp) (dw_db (wk_dialer s)))
      (an_clock (dl_answers dl) At_eligibility) = Inr True \<and>
    gate_check w (dl_answers dl) At_stage1 (wk_dialer s) = (Inr None, s1) \<and>
    (if st_calling_engine (ev_settings w) = ''dograh'' \<and> dj_attempt j > 1
     then second_reconciliation_gate (ev_settings w) (an_http_date (dl_answers dl)) (an_clock (dl_answers dl) At_second_lookup)
       (an_lookup (dl_answers dl) At_second_lookup) (an_others (dl_answers dl) At_second_lookup) c j (dw_db s1)
     else (Inr None, dw_db s1)) = (Inr None, d2) \<and>
    gate_check w (dl_answers dl) At_gate (s1\<lparr> dw_db := d2 \<rparr>) = (Inr None, s3) \<and>
    admissions (ev_settings w) name (if st_calling_engine (ev_settings w) = ''dograh'' then ''dograh'' else an_provider (dl_answers dl))
      j (dl_admit dl) ADMISSION_RETRY_ATTEMPTS (dw_breaker s1) (wk_leases s) = refused @ Admitted l # rest \<and>
    set refused \<subseteq> {Circuit_open, Duplicate_lease, Concurrency_exceeded, Cps_exceeded_result}"
proof -
  obtain r t where p: "process_claimed w name dl i j s = (r, t)" by (metis surj_pair)
  then have "dw_sent (wk_dialer t) = dw_sent (wk_dialer s')"
    using assms(1) by (auto simp: process_claimed_job_def split: sum.splits job_fault.splits if_splits)
  with assms(2) process_claimed_sent [OF p] obtain ds l ls where a: "gate_check w (dl_answers dl) At_stage1 (wk_dialer s) = (Inr None, ds)"
    "admit_loop (ev_settings w) name (if st_calling_engine (ev_settings w) = ''dograh'' then ''dograh'' else an_provider (dl_answers dl))
      j (dl_admit dl) ADMISSION_RETRY_ATTEMPTS (dw_breaker ds) (wk_leases s) = (Inr (Some l), ls)"
    "dial_admitted w dl i j l (s\<lparr> wk_dialer := ds, wk_leases := ls \<rparr>) = (r, t)" by auto
  have same: "contacts (dw_db ds) = contacts (dw_db (wk_dialer s))" "campaigns (dw_db ds) = campaigns (dw_db (wk_dialer s))"
    "suppressions (dw_db ds) = suppressions (dw_db (wk_dialer s))" "policies (dw_db ds) = policies (dw_db (wk_dialer s))"
    using gate_check_contact [OF a(1)] by simp_all
  have "dw_sent ds = dw_sent (wk_dialer s)" by (rule gate_check_sent [OF a(1)])
  with dial_admitted_sent [OF a(3)] assms(2) \<open>dw_sent (wk_dialer t) = dw_sent (wk_dialer s')\<close>
  obtain r1 u where d: "dial w (dl_answers dl) j ds = (r1, u)" "dw_sent u \<noteq> dw_sent ds" by auto
  from dial_sent [OF d] obtain c camp held where c: "get_contact (dj_contact j) (dw_db ds) = Some c"
    "get_campaign (dj_campaign j) (dw_db ds) = Some camp" "dial_checked w (dl_answers dl) (dw_db ds) c camp held j ds = (r1, u)" by blast
  from dial_checked_sent [OF c(3) d(2)] obtain e d2 s3 where e: "dial_check w c camp
      (Some (get_effective_policy (ev_settings w) (camp_id camp) (dw_db ds))) (an_clock (dl_answers dl) At_eligibility) (dw_db ds) = Inr e"
    "el_eligible e" "retry_lookup w (dl_answers dl) c j (dw_db ds) = (Inr None, d2)"
    "gate_check w (dl_answers dl) At_gate (ds\<lparr> dw_db := d2 \<rparr>) = (Inr None, s3)" by blast
  have pol: "get_effective_policy (ev_settings w) (camp_id camp) (dw_db ds) =
      get_effective_policy (ev_settings w) (camp_id camp) (dw_db (wk_dialer s))"
    by (simp add: get_effective_policy_def stored_policy_def same)
  have sup: "is_suppressed w n (dw_db ds) = is_suppressed w n (dw_db (wk_dialer s))" for n
    by (simp add: is_suppressed_def same)
  have ok: "camp_status camp = CAMP_ACTIVE \<and> c_purged_at c = None \<and> c_status c \<in> {C_PENDING, C_DIALING, C_RETRY_SCHEDULED} \<and>
    \<not> is_suppressed w (c_number c) (dw_db ds) \<and> is_dialable_region w (c_number c) (st_allowed_dial_regions (ev_settings w)) \<and>
    window_is_open w camp (get_effective_policy (ev_settings w) (camp_id camp) (dw_db ds)) (an_clock (dl_answers dl) At_eligibility) = Inr True"
    using e(1,2) by (auto simp: dial_check_def Let_def split: if_splits window_error.splits sum.splits bool.splits)
  have get: "get_contact k (dw_db ds) = get_contact k (dw_db (wk_dialer s))" "get_campaign k (dw_db ds) = get_campaign k (dw_db (wk_dialer s))" for k
    by (simp_all add: get_contact_def get_campaign_def same)
  from admit_loop_tries [OF a(2)] obtain refused rest where t: "admissions (ev_settings w) name
      (if st_calling_engine (ev_settings w) = ''dograh'' then ''dograh'' else an_provider (dl_answers dl))
      j (dl_admit dl) ADMISSION_RETRY_ATTEMPTS (dw_breaker ds) (wk_leases s) = refused @ Admitted l # rest"
    "set refused \<subseteq> {Circuit_open, Duplicate_lease, Concurrency_exceeded, Cps_exceeded_result}" by blast
  show ?thesis
    by (rule exI [of _ c], rule exI [of _ camp], rule exI [of _ ds], rule exI [of _ d2], rule exI [of _ s3], rule exI [of _ l],
        rule exI [of _ refused], rule exI [of _ rest])
      (use a(1) c(1,2) ok e(3,4) t in \<open>simp add: pol sup get retry_lookup_def\<close>)
qed

section \<open>Facts the contracts share\<close>

lemma reconcile_outcome:
  "reconcile_with_dograh hdt m now lk a c j d = ((Some out, memo), d') \<Longrightarrow> out \<in> {RECONCILED, RECONCILE_MULTIPLE}"
  by (auto simp: reconcile_with_dograh_def Let_def resolve_found_runs_def split: prod.splits sum.splits list.splits if_splits)

lemma map_sum_InrD: "map_sum id f r = Inr x \<Longrightarrow> \<exists>y. r = Inr y \<and> x = f y"
  by (cases r) auto

lemma second_gate_outcome:
  "second_reconciliation_gate st hdt now lk others c j d = (Inr (Some out), d') \<Longrightarrow>
    out \<in> {ALREADY_PROCESSED, RECONCILE_EXPIRED, RECONCILE_DEFERRED, RECONCILE_MULTIPLE, RECONCILED}"
  by (auto simp: second_reconciliation_gate_def Let_def defer_or_expire_def resolve_found_runs_def
    split: option.splits if_splits prod.splits sum.splits)

end
