(* ===== verification/Dialer_Hold.thy ===== *)
theory Dialer_Hold imports Dialer_Contract begin

text \<open>What a provider halt leaves behind, and concrete runs of the dialer.\<close>

section \<open>A hold spends nothing\<close>

lemma second_gate_None:
  assumes "second_reconciliation_gate st hdt now lk (\<lambda>d. d) c j d = (Inr None, d')"
  shows "contacts d' = contacts d \<and> attempts d' = attempts d \<and> events d' = events d \<and> controls d' = controls d"
proof -
  have "lookup_runs hdt m now lk' a stage ids x = (q, y) \<Longrightarrow>
      contacts y = contacts x \<and> attempts y = attempts x \<and> events y = events x \<and> controls y = controls x" for m lk' a stage ids x q y
    by (auto simp: lookup_runs_def Let_def reconcile_audit_def split: if_splits sum.splits)
  with assms show ?thesis
    by (auto simp: second_reconciliation_gate_def Let_def reconcile_audit_def split: option.splits if_splits prod.splits sum.splits; blast)
qed

lemma place_call_halted:
  assumes "place_call w an d0 a c j prior s = (Inr (Some PROVIDER_HALTED), s')"
  shows "\<exists>d0 cat code source n t. hold_for_provider_halt an d0 a c prior cat code source n t = (Inr PROVIDER_HALTED, s') \<and> dw_db t = dw_db s"
proof -
  have g: "st_calling_engine (ev_settings w) = ''dograh''"
    using assms by (auto simp: place_call_def place_call_native_def Let_def split: if_splits call_result.splits)
  have h: "r = Inr PROVIDER_HALTED" if "map_sum id Some r = Inr (Some PROVIDER_HALTED)" for r :: "job_fault + job_outcome"
    using that by (cases r) auto
  have amb: False if "after_ambiguous_trigger w an d a c j e t = (Inr (Some PROVIDER_HALTED), s')" for d e t
    using that by (auto simp: after_ambiguous_trigger_def Let_def split: if_splits prod.splits option.splits job_outcome.splits
      dest: reconcile_outcome)
  have acc: False if "after_accepted_trigger an d a run t = (Inr (Some PROVIDER_HALTED), s')" for d run t
    using that by (simp add: after_accepted_trigger_def split: if_splits)
  have ref: "\<exists>d0 cat code source n u. hold_for_provider_halt an d0 a c prior cat code source n u = (Inr PROVIDER_HALTED, s') \<and> dw_db u = dw_db t"
    if "after_refused_trigger w an d a c j prior e t = (Inr (Some PROVIDER_HALTED), s')" for d e t
  proof -
    let ?f = "classify_trigger_error e"
    obtain n sk where k: "(if tf_policy ?f = P_PERMANENT
           then note_permanent_failure (st_streak_ttl (ev_settings w)) (an_clock an At_trigger) (an_redis an At_trigger)
             (category_value (ae_category e)) (decimal (c_id c)) (dw_streak t)
           else (0, dw_streak t)) = (n, sk)" by (metis surj_pair)
    have "\<exists>r. hold_for_provider_halt an d a c prior SYSTEMIC_FAILURE (Some (ae_status e))
        (Some (category_value (ae_category e))) (Some n) (t\<lparr> dw_streak := sk \<rparr>) = (r, s') \<and> map_sum id Some r = Inr (Some PROVIDER_HALTED)"
      using that unfolding after_refused_trigger_def Let_def k by (auto split: if_splits prod.splits)
    then show ?thesis using h by (metis dialer.select_convs(1) dialer.surjective dialer.update_convs(5))
  qed
  show ?thesis
  proof (cases "trigger_call (an_http_date an) (st_retry_after_max_s (ev_settings w)) (an_clock an At_trigger) (an_trigger an)")
    case (Inr run)
    with assms g show ?thesis
      by (auto simp: place_call_def place_call_via_dograh_def Let_def split: if_splits prod.splits dest: acc dest!: h)
        blast
  next
    case (Inl e)
    with assms g show ?thesis
      by (auto simp: place_call_def place_call_via_dograh_def Let_def split: if_splits prod.splits option.splits dest: amb dest!: h ref)
        fastforce+
  qed
qed

lemma get_row_replaced:
  assumes "key row = k" "get_row key k rows = Some old"
  shows "get_row key k (upd_row key k (\<lambda>_. row) rows) = Some row"
  using assms(2) by (induction rows) (auto simp: get_row_Cons upd_row_Cons assms(1) split: if_splits)

lemma engage_engages:
  assumes "provider_halt_engage now up rup actor cat reason meta (cc, d) sk = (Inr b, (cc', d'), sk')"
  shows "is_engaged PROVIDER_HALT (controls d') \<and> contacts d' = contacts d"
proof -
  let ?row = "engaged_row now PROVIDER_HALT actor (Some reason) (Some cat)"
  have row: "ctl_key ?row = PROVIDER_HALT" "ctl_engaged ?row" by (simp_all add: engaged_row_def)
  obtain b1 c1 d1 where e: "engage now up PROVIDER_HALT actor (Some reason) (Some cat) (Some (''provider_halt.engaged'',
      [(''category'', JStr cat), (''reason'', JStr reason)] @ meta)) (cc, d) = (Inr b1, c1, d1)" "d' = d1"
    using assms by (auto simp: provider_halt_engage_def split: prod.splits)
  show ?thesis
  proof (cases "get_row ctl_key PROVIDER_HALT (controls d)")
    case None
    have "get_row ctl_key PROVIDER_HALT (controls d @ [?row]) = Some ?row" using None row(1) by (simp add: get_row_snoc)
    with e None row(2) show ?thesis
      by (auto simp: engage_def Let_def is_engaged_def get_control_def split: if_splits)
  next
    case (Some old)
    note r = get_row_replaced [OF row(1) Some]
    from e Some row(2) r show ?thesis
      by (auto simp: engage_def Let_def is_engaged_def get_control_def split: if_splits)
  qed
qed

lemma dial_checked_halted:
  assumes "dial_checked w an d0 c camp held j s = (Inr PROVIDER_HALTED, s')" "an_others an = (\<lambda>_ d. d)"
  shows "\<exists>s2. claim_and_place w an d0 c held j s2 = (Inr PROVIDER_HALTED, s') \<and> contacts (dw_db s2) = contacts (dw_db s) \<and>
    attempts (dw_db s2) = attempts (dw_db s) \<and> events (dw_db s2) = events (dw_db s)"
proof -
  have g: "contacts (dw_db u) = contacts (dw_db t) \<and> attempts (dw_db u) = attempts (dw_db t) \<and> events (dw_db u) = events (dw_db t)"
    if "gate_check w an m t = (r, u)" for m t r u
    using that gate_check_contact [OF that] by (auto simp: gate_check_def split: prod.splits dest!: gate_block_attempts)
  have o: "an_others an At_second_lookup = (\<lambda>d. d)" by (simp add: assms(2))
  from assms(1) show ?thesis unfolding dial_checked_def Let_def o
    by (auto simp: gate_outcome_def split: if_splits sum.splits option.splits prod.splits
      dest!: g second_gate_None dest: second_gate_outcome)
qed

lemma dial_halted:
  assumes "dial w an j s = (Inr PROVIDER_HALTED, s')" "get_contact (dj_contact j) (dw_db s) = Some c"
  shows "\<exists>camp held. dial_checked w an (dw_db s) c camp held j s = (Inr PROVIDER_HALTED, s') \<and>
    (\<forall>h. held = Some h \<longrightarrow> get_by_contact_and_number (c_id c) (dj_attempt j) (dw_db s) = Some h \<and> is_held_attempt h (dw_db s))"
proof -
  have r: "x \<noteq> PROVIDER_HALTED" if "resolve_unresolved_claim w an a c j t = (x, t')" for a t x t'
    using that by (auto simp: resolve_unresolved_claim_def Let_def split: if_splits prod.splits option.splits dest: reconcile_outcome)
  from assms show ?thesis
    by (auto simp: dial_def Let_def split: option.splits if_splits prod.splits dest: r)
qed

lemma held_after_hold:
  assumes "hold_for_provider_halt an d0 a c prior cat code source n t = (Inr PROVIDER_HALTED, s')"
    and "get_contact (c_id c) (dw_db t) = Some r" "x \<in> set (attempts (dw_db t))" "a_id x = a_id a" "a_provider_call_id x = None"
  shows "get_contact (c_id c) (dw_db s') = Some (r\<lparr> c_status := fst prior, c_attempt_count := snd prior \<rparr>) \<and>
    is_engaged PROVIDER_HALT (controls (dw_db s')) \<and>
    (\<exists>b \<in> set (attempts (dw_db s')). a_contact b = a_contact x \<and> a_number b = a_number x \<and> is_held_attempt b (dw_db s'))"
proof -
  let ?h = "held_db (an_clock an At_end) (a_id a) (c_id c) prior cat code (dw_db t)"
  have same: "attempts (dw_db s') = attempts ?h" "events (dw_db s') = events ?h"
    using assms(1) by (auto simp: hold_for_provider_halt_def Let_def split: prod.splits sum.splits dest!: engage_attempts)
  have engaged: "contacts (dw_db s') = contacts ?h" "is_engaged PROVIDER_HALT (controls (dw_db s'))"
    using assms(1) by (auto simp: hold_for_provider_halt_def Let_def split: prod.splits sum.splits dest!: engage_engages)
  let ?b = "failed_to_connect (an_clock an At_end) ''dograh'' (Some NC_PROVIDER_ERROR) x"
  have "?b \<in> set (attempts ?h)" using assms(3,4) by (auto simp: held_db_def upd_attempt_def upd_row_def)
  moreover have "is_held_attempt ?b ?h" using assms(4,5)
    by (simp add: is_held_attempt_def failed_to_connect_def held_db_def latest_event_type_def add_call_event_def)
  moreover have "get_contact (c_id c) ?h = Some (r\<lparr> c_status := fst prior, c_attempt_count := snd prior \<rparr>)"
    using assms(2) by (simp add: held_db_def get_contact_upd)
  moreover have "is_held_attempt b (dw_db s') = is_held_attempt b ?h" for b
    by (simp add: is_held_attempt_def latest_event_type_def same(2))
  moreover have "get_contact k (dw_db s') = get_contact k ?h" for k by (simp add: get_contact_def engaged(1))
  ultimately show ?thesis using same(1) engaged(2) failed_to_connect_id by metis
qed

text \<open>
  C24: a job stopped by a provider halt spends nothing of its contact: status and attempt count are as before, the halt
  is engaged, and the attempt row is kept as held, so that the same row is dialed after the release. Only the three
  columns of the pending retry are cleared, and the hold does not bring them back.
\<close>

theorem hold_spends_nothing:
  assumes "dial w an j s = (Inr PROVIDER_HALTED, s')" "get_contact (dj_contact j) (dw_db s) = Some c"
    and "an_others an = (\<lambda>_ d. d)"
  shows "get_contact (dj_contact j) (dw_db s') =
      Some (c\<lparr> c_next_retry_at := None, c_retry_attempt_id := None, c_retry_attempt_number := None \<rparr>) \<and>
    is_engaged PROVIDER_HALT (controls (dw_db s')) \<and>
    (\<exists>a \<in> set (attempts (dw_db s')). a_contact a = dj_contact j \<and> a_number a = dj_attempt j \<and>
      is_held_attempt a (dw_db s'))"
proof -
  have id: "c_id c = dj_contact j" using assms(2) unfolding get_contact_def by (rule get_row_key)
  from dial_halted [OF assms(1,2)] obtain camp held where d: "dial_checked w an (dw_db s) c camp held j s = (Inr PROVIDER_HALTED, s')"
    and held: "\<And>h. held = Some h \<Longrightarrow> get_by_contact_and_number (c_id c) (dj_attempt j) (dw_db s) = Some h \<and> is_held_attempt h (dw_db s)"
    by blast
  from dial_checked_halted [OF d assms(3)] obtain s2 where claim: "claim_and_place w an (dw_db s) c held j s2 = (Inr PROVIDER_HALTED, s')"
    and s2: "contacts (dw_db s2) = contacts (dw_db s)" "attempts (dw_db s2) = attempts (dw_db s)" by blast
  let ?now = "an_clock an At_claim"
  obtain a created d1 where g: "(case held of Some h \<Rightarrow> (h, True, resume_held_attempt ?now (a_id h) (dw_db s2))
           | None \<Rightarrow> get_or_create (an_others an At_claim) ?now (an_new_attempt an) (c_id c) (dj_attempt j) (dw_db s2)) =
      (a, created, d1)" by (metis prod_cases3)
  let ?f = "\<lambda>r. (claimed_contact created r)\<lparr> c_attempt_count := c_attempt_count c + (if created then 1 else 0) \<rparr>"
  let ?t = "s2\<lparr> dw_db := upd_contact (c_id c) ?f d1 \<rparr>"
  from claim g have "\<exists>r. place_call w an (dw_db s) a c j (c_status c, c_attempt_count c) ?t = (r, s') \<and> r = Inr (Some PROVIDER_HALTED)
      \<and> (created \<or> st_calling_engine (ev_settings w) \<noteq> ''dograh'')"
    by (auto simp: claim_and_place_def Let_def split: if_splits prod.splits option.splits sum.splits simp del: map_sum.simps dest!: map_sum_InrD)
  then have pc: "place_call w an (dw_db s) a c j (c_status c, c_attempt_count c) ?t = (Inr (Some PROVIDER_HALTED), s')"
    and cr: "created \<or> st_calling_engine (ev_settings w) \<noteq> ''dograh''" by auto
  have created: created using pc cr
    by (auto simp: place_call_def place_call_native_def Let_def split: if_splits call_result.splits)
  have d1: "(\<exists>b \<in> set (attempts d1). a_id b = a_id a \<and> a_contact b = c_id c \<and> a_number b = dj_attempt j \<and> a_provider_call_id b = None)
      \<and> contacts d1 = contacts (dw_db s)"
  proof (cases held)
    case None
    with g created s2(1) assms(3) show ?thesis by (auto simp: get_or_create_def Let_def split: option.splits)
  next
    case (Some h)
    note hh = get_by_contact_and_number_SomeD [OF conjunct1 [OF held [OF Some]]]
    let ?h = "h\<lparr> a_state := A_INITIATED, a_conn_reason := None, a_ended_at := None, a_started_at := ?now \<rparr>"
    have e: "a = h" "d1 = resume_held_attempt ?now (a_id h) (dw_db s2)" using g Some by auto
    have "h \<in> set (attempts (dw_db s2))" using hh s2(2) by simp
    then have "?h \<in> set (attempts d1)" unfolding e(2) by (auto simp: resume_held_attempt_def upd_attempt_def upd_row_def)
    moreover have "a_provider_call_id h = None" using held [OF Some] by (simp add: is_held_attempt_def)
    moreover have "contacts d1 = contacts (dw_db s)" unfolding e(2) using s2(1) by (simp add: resume_held_attempt_def)
    ultimately show ?thesis using hh e(1) by (intro conjI bexI [of _ ?h]) simp_all
  qed
  then obtain b where b: "b \<in> set (attempts (dw_db ?t))" "a_id b = a_id a" "a_contact b = c_id c" "a_number b = dj_attempt j"
    "a_provider_call_id b = None" by auto
  have "get_contact (c_id c) d1 = Some c" using d1 assms(2) id by (simp add: get_contact_def)
  then have r: "get_contact (c_id c) (dw_db ?t) = Some (?f c)"
    by (simp add: get_contact_upd claimed_contact_def)
  from place_call_halted [OF pc] obtain d0 cat code source n t where
    h: "hold_for_provider_halt an d0 a c (c_status c, c_attempt_count c) cat code source n t = (Inr PROVIDER_HALTED, s')"
    and t: "dw_db t = dw_db ?t" by blast
  from held_after_hold [OF h _ _ b(2,5), unfolded t, OF r b(1)] b(3,4) id show ?thesis
    by (simp add: claimed_contact_def)
qed

end
