(* ===== verification/Dialer_Settlement.thy ===== *)
theory Dialer_Settlement imports Dialer_Contract begin

text \<open>
  When a delivery of the dial queue may be acknowledged: what every outcome says of the database, the schedule
  and the queue it leaves behind.
\<close>

section \<open>What an outcome says of the call\<close>

text \<open>The contact of the job may never be dialed for it, whatever the hour.\<close>

definition never_dialable :: "'p env \<Rightarrow> dial_job \<Rightarrow> db \<Rightarrow> bool" where
  "never_dialable w j d \<longleftrightarrow> (case (get_contact (dj_contact j) d, get_campaign (dj_campaign j) d) of
     (Some c, Some camp) \<Rightarrow> camp_status camp \<notin> {CAMP_ACTIVE, CAMP_PAUSED} \<or> c_purged_at c \<noteq> None \<or>
       c_status c \<notin> {C_PENDING, C_DIALING, C_RETRY_SCHEDULED} \<or> is_suppressed w (c_number c) d \<or>
       \<not> is_dialable_region w (c_number c) (st_allowed_dial_regions (ev_settings w))
   | _ \<Rightarrow> True)"

text \<open>Attempt \<open>n\<close> of the job's contact has the id \<open>i\<close>; a call is known for an id; an event of a type is logged for it.\<close>

definition attempt_of :: "dial_job \<Rightarrow> int \<Rightarrow> uuid \<Rightarrow> db \<Rightarrow> bool" where
  "attempt_of j n i d \<longleftrightarrow> (\<exists>a \<in> set (attempts d). a_id a = i \<and> a_contact a = dj_contact j \<and> a_number a = n)"

definition call_known :: "uuid \<Rightarrow> db \<Rightarrow> bool" where
  "call_known i d \<longleftrightarrow> (\<exists>a \<in> set (attempts d). a_id a = i \<and> a_provider_call_id a \<noteq> None)"

definition event_logged :: "uuid \<Rightarrow> string \<Rightarrow> db \<Rightarrow> bool" where
  "event_logged i t d \<longleftrightarrow> (\<exists>e \<in> set (events d). e_attempt e = i \<and> e_type e = t)"

text \<open>The job's attempt exists already, or the one before it is no longer a failed one without a call.\<close>

definition moved_on :: "dial_job \<Rightarrow> db \<Rightarrow> db \<Rightarrow> bool" where
  "moved_on j d0 d \<longleftrightarrow> get_by_contact_and_number (dj_contact j) (dj_attempt j) d \<noteq> None \<or>
    (\<exists>i. attempt_of j (dj_attempt j - 1) i d0 \<and>
      (\<exists>a \<in> set (attempts d). a_id a = i \<and> (a_state a \<noteq> A_FAILED_TO_CONNECT \<or> a_provider_call_id a \<noteq> None)))"

text \<open>\<open>d0\<close> is the database the delivery found, \<open>d\<close> the one it leaves.\<close>

definition accounted :: "'p env \<Rightarrow> dial_job \<Rightarrow> db \<Rightarrow> job_outcome \<Rightarrow> db \<Rightarrow> bool" where
  "accounted w j d0 out d \<longleftrightarrow>
    (out = NOT_ELIGIBLE \<longrightarrow> never_dialable w j d0) \<and> (out = ALREADY_PROCESSED \<longrightarrow> moved_on j d0 d) \<and>
    (out \<in> {ADMITTED_AND_DIALED, AMBIGUOUS_RECOVERY} \<longrightarrow> get_by_contact_and_number (dj_contact j) (dj_attempt j) d \<noteq> None) \<and>
    (out \<in> {RECONCILED, RECONCILE_MULTIPLE} \<longrightarrow>
      (\<exists>i. \<exists>n \<in> {dj_attempt j, dj_attempt j - 1}. (attempt_of j n i d0 \<or> attempt_of j n i d) \<and>
        (if out = RECONCILED then call_known i d else event_logged i ''DOGRAH_RECONCILE_MULTIPLE'' d))) \<and>
    (out = RECONCILE_EXPIRED \<longrightarrow> map_option c_status (get_contact (dj_contact j) d) = Some C_COMPLETED_PARTIAL)"

definition resolved :: "job_outcome \<Rightarrow> uuid \<Rightarrow> db \<Rightarrow> bool" where
  "resolved out i d \<longleftrightarrow> (if out = RECONCILED then call_known i d else out = RECONCILE_MULTIPLE \<and> event_logged i ''DOGRAH_RECONCILE_MULTIPLE'' d)"

lemma attempt_of_same: "attempts d' = attempts d \<Longrightarrow> attempt_of j n i d' = attempt_of j n i d"
  by (simp add: attempt_of_def)

lemma attempt_of_upd:
  assumes "\<And>a. a_id (f a) = a_id a" "\<And>a. a_contact (f a) = a_contact a" "\<And>a. a_number (f a) = a_number a"
  shows "attempt_of j n i (upd_attempt k f d) = attempt_of j n i d"
proof -
  have e: "attempt_of j n i x \<longleftrightarrow> (i, dj_contact j, n) \<in> set (map (\<lambda>a. (a_id a, a_contact a, a_number a)) (attempts x))" for x
    by (auto simp: attempt_of_def)
  have m: "map (\<lambda>a. (a_id a, a_contact a, a_number a)) (attempts (upd_attempt k f d)) =
      map (\<lambda>a. (a_id a, a_contact a, a_number a)) (attempts d)" by (simp add: upd_attempt_def upd_row_def assms)
  show ?thesis unfolding e m ..
qed

lemma attempt_of_found: "get_by_contact_and_number (dj_contact j) n d = Some a \<Longrightarrow> attempt_of j n (a_id a) d"
  by (auto simp: attempt_of_def get_by_contact_and_number_def dest: found)

lemma has_attempt_in: "has_attempt i d \<longleftrightarrow> (\<exists>a \<in> set (attempts d). a_id a = i)"
  by (auto simp: has_attempt_def get_attempt_def get_row_None)

lemma attempt_of_has: "attempt_of j n i d \<Longrightarrow> has_attempt i d"
  by (auto simp: attempt_of_def has_attempt_in)

lemma call_known_upd: "has_attempt i d \<Longrightarrow> call_known i (upd_attempt i (\<lambda>r. r\<lparr> a_provider := p, a_provider_call_id := Some x \<rparr>) d)"
proof -
  let ?f = "\<lambda>r. r\<lparr> a_provider := p, a_provider_call_id := Some x \<rparr>"
  assume "has_attempt i d"
  then obtain a where a: "a \<in> set (attempts d)" "a_id a = i" by (auto simp: has_attempt_in)
  then have "?f a \<in> set (attempts (upd_attempt i ?f d))" by (auto simp: upd_attempt_def upd_row_def)
  then show ?thesis using a(2) unfolding call_known_def by (intro bexI [of _ "?f a"]) simp_all
qed

lemma call_known_same: "attempts d' = attempts d \<Longrightarrow> call_known i d' = call_known i d"
  by (simp add: call_known_def)

lemma reconcile_audit_frame [simp]: "attempts (reconcile_audit action k meta d) = attempts d"
  "events (reconcile_audit action k meta d) = events d" "get_contact i (reconcile_audit action k meta d) = get_contact i d"
  by (simp_all add: reconcile_audit_def)

lemma lookup_runs_frame: "lookup_runs hdt m now lk a stage ids d = (r, d') \<Longrightarrow>
    attempts d' = attempts d \<and> events d' = events d \<and> (\<forall>i. get_contact i d' = get_contact i d)"
  by (auto simp: lookup_runs_def Let_def split: if_splits sum.splits)

lemma found_runs_resolved:
  assumes "resolve_found_runs a runs stage ids d = (out, d')" "has_attempt (a_id a) d"
  shows "resolved out (a_id a) d' \<and> out \<in> {RECONCILED, RECONCILE_MULTIPLE} \<and> (\<forall>j n i. attempt_of j n i d' = attempt_of j n i d)"
proof (cases "length runs > 1")
  case True
  then have o: "out = RECONCILE_MULTIPLE" "attempts d' = attempts d"
    "set (events d') = insert \<lparr> e_attempt = a_id a, e_type = ''DOGRAH_RECONCILE_MULTIPLE'',
      e_payload = [(''workflow_run_ids'', JList (map JInt runs)), (''stage'', JStr stage)] \<rparr> (set (events d))"
    using assms(1) by (auto simp: resolve_found_runs_def add_call_event_def)
  then show ?thesis by (simp add: resolved_def event_logged_def attempt_of_same [OF o(2)])
next
  case False
  let ?d = "upd_attempt (a_id a) (\<lambda>r. r\<lparr> a_provider := Some ''dograh'', a_provider_call_id := Some (int_text (hd runs)) \<rparr>) d"
  have o: "out = RECONCILED" "attempts d' = attempts ?d" using assms(1) False by (auto simp: resolve_found_runs_def)
  then show ?thesis using call_known_upd [OF assms(2)] call_known_same [OF o(2)] attempt_of_same [OF o(2)]
    by (simp add: resolved_def attempt_of_upd)
qed

lemma reconcile_resolved:
  assumes "reconcile_with_dograh hdt m now lk a c j d = ((Some out, memo), d')" "has_attempt (a_id a) d"
  shows "resolved out (a_id a) d' \<and> (\<forall>j n i. attempt_of j n i d' = attempt_of j n i d)"
proof -
  obtain r d1 where l: "lookup_runs hdt m now lk a ''first'' (reconcile_ids c a j) d = (r, d1)" by (metis surj_pair)
  note f = lookup_runs_frame [OF l]
  obtain runs where "resolve_found_runs a runs ''first'' (reconcile_ids c a j) d1 = (out, d')"
    using assms(1) l by (auto simp: reconcile_with_dograh_def Let_def split: sum.splits list.splits prod.splits)
  moreover have "has_attempt (a_id a) d1" using assms(2) f by (simp add: has_attempt_in)
  ultimately show ?thesis using found_runs_resolved attempt_of_same [of d1 d] f by blast
qed

lemma second_gate_accounted:
  assumes "second_reconciliation_gate st hdt now lk others c j d = (Inr (Some out), d')"
    and "c_id c = dj_contact j" "get_contact (c_id c) d \<noteq> None"
  shows "accounted w j d out d'"
proof -
  obtain prev where p: "get_by_contact_and_number (c_id c) (dj_attempt j - 1) d = Some prev"
    using assms(1) by (auto simp: second_reconciliation_gate_def split: option.splits)
  have of: "attempt_of j (dj_attempt j - 1) (a_id prev) d" using p assms(2) by (simp add: attempt_of_found)
  show ?thesis
  proof (cases "a_state prev = A_INITIATED")
    case True
    have "prev \<in> set (attempts d)" using p by (auto simp: get_by_contact_and_number_def dest: found)
    then have "moved_on j d d" using of True unfolding moved_on_def by force
    moreover have "out = ALREADY_PROCESSED" "d' = d" using assms(1) p True by (simp_all add: second_reconciliation_gate_def)
    ultimately show ?thesis by (simp add: accounted_def)
  next
    case False
    have "\<not> (a_provider_call_id prev \<noteq> None \<or> \<not> is_unresolved_ambiguous_trigger prev d)"
    proof
      assume "a_provider_call_id prev \<noteq> None \<or> \<not> is_unresolved_ambiguous_trigger prev d"
      with assms(1) p False show False by (simp add: second_reconciliation_gate_def)
    qed
    then have u: "a_provider_call_id prev = None" "is_unresolved_ambiguous_trigger prev d" by simp_all
    let ?ids = "reconcile_ids c prev j"
    obtain r d1 where l: "lookup_runs hdt (st_retry_after_max_s st) now lk prev ''second'' ?ids d = (r, d1)" by (metis surj_pair)
    note f = lookup_runs_frame [OF l]
    show ?thesis
    proof (cases r)
      case (Inl failure)
      then have "defer_or_expire st prev c ?ids failure d1 = (out, d')"
        using assms(1) p False u l by (auto simp: second_reconciliation_gate_def Let_def split: prod.splits)
      moreover have "get_contact (c_id c) d1 \<noteq> None" using f assms(3) by simp
      ultimately show ?thesis using assms(2)
        by (auto simp: accounted_def defer_or_expire_def Let_def get_contact_upd split: if_splits)
    next
      case (Inr runs)
      let ?d2 = "others d1"
      obtain q where q: "get_attempt (a_id prev) ?d2 = Some q" "q \<in> set (attempts ?d2)" "a_id q = a_id prev"
        using assms(1) p False u l Inr
        by (auto simp: second_reconciliation_gate_def Let_def get_attempt_def split: option.splits dest: get_row_SomeD)
      show ?thesis
      proof (cases "a_state q \<noteq> A_FAILED_TO_CONNECT \<or> a_provider_call_id q \<noteq> None \<or>
          get_by_contact_and_number (c_id c) (dj_attempt j) ?d2 \<noteq> None")
        case True
        then have "out = ALREADY_PROCESSED" "d' = ?d2"
          using assms(1) p False u l Inr q(1) by (auto simp: second_reconciliation_gate_def Let_def)
        moreover have "moved_on j d ?d2" using True q(2,3) of assms(2) unfolding moved_on_def by auto
        ultimately show ?thesis by (simp add: accounted_def)
      next
        case untouched: False
        let ?d3 = "reopen_for_adoption (a_id q) (c_id c) ?d2"
        have "resolve_found_runs q runs ''second'' ?ids ?d3 = (out, d')"
          using assms(1) p False u l Inr q(1) untouched by (auto simp: second_reconciliation_gate_def Let_def split: if_splits prod.splits)
        moreover have "has_attempt (a_id q) ?d3" using q(1,3) by (simp add: has_attempt_def reopen_for_adoption_def get_attempt_upd)
        ultimately have "resolved out (a_id prev) d' \<and> out \<in> {RECONCILED, RECONCILE_MULTIPLE}" using found_runs_resolved q(3) by metis
        then show ?thesis using of unfolding accounted_def resolved_def by (auto split: if_splits)
      qed
    qed
  qed
qed

section \<open>Before a message is acknowledged\<close>

lemma claimed_carries: "carries k d d' \<Longrightarrow> claimed c n d \<Longrightarrow> claimed c n d'"
  by (simp add: carries_def)

lemma claimed_same: "attempts d' = attempts d \<Longrightarrow> claimed c n d' = claimed c n d"
  by (simp add: claimed_def)

lemma claimed_failure:
  assumes "claimed k n (dw_db s)" "etype \<noteq> HELD_EVENT_TYPE"
  shows "claimed k n (dw_db (record_trigger_failure w an i c etype code cat memo reason ra s))"
  by (rule claimed_carries [OF record_trigger_failure_carries [OF assms(2), where k = 0] assms(1)])

lemma hold_claimed:
  assumes "hold_for_provider_halt an d0 a c prior cat code source n s = (r, s')" "claimed k m (dw_db s)" "claimed k m d0"
  shows "claimed k m (dw_db s')"
proof -
  let ?h = "held_db (an_clock an At_end) (a_id a) (c_id c) prior cat code (dw_db s)"
  have "claimed k m ?h" using assms(2) claimed_upd [of "failed_to_connect (an_clock an At_end) ''dograh'' (Some NC_PROVIDER_ERROR)"]
    by (simp add: held_db_def claimed_same [of "upd_contact _ _ _"] claimed_same [of "add_call_event _ _ _ _"])
  moreover have "attempts (dw_db s') = attempts ?h \<or> dw_db s' = d0" using assms(1)
    by (auto simp: hold_for_provider_halt_def Let_def split: prod.splits sum.splits dest!: engage_attempts)
  ultimately show ?thesis using assms(3) unfolding claimed_def by metis
qed

lemma after_ambiguous_claimed:
  assumes "after_ambiguous_trigger w an d0 a c j e s = (r, s')" "claimed k m (dw_db s)" "claimed k m d0"
  shows "claimed k m (dw_db s')"
proof -
  obtain found memo d where f: "reconcile_with_dograh (an_http_date an) (st_retry_after_max_s (ev_settings w))
      (an_clock an At_lookup) (an_lookup an At_lookup) a c j (dw_db s) = ((found, memo), d)" by (metis prod.exhaust)
  have "claimed k m d" by (rule claimed_carries [OF reconcile_with_dograh_carries [OF f, of 0] assms(2)])
  with assms(1,3) f show ?thesis
    by (auto simp: after_ambiguous_trigger_def Let_def split: if_splits option.splits job_outcome.splits intro!: claimed_failure)
qed

lemma after_refused_claimed:
  assumes "after_refused_trigger w an d0 a c j prior e s = (r, s')" "claimed k m (dw_db s)" "claimed k m d0"
  shows "claimed k m (dw_db s')"
  using assms unfolding after_refused_trigger_def Let_def
  by (auto split: prod.splits if_splits dest!: hold_claimed [where k = k and m = m] intro!: claimed_failure)

lemma place_call_claimed:
  assumes "place_call w an d0 a c j prior s = (Inr x, s')" "claimed k m (dw_db s)" "others_ok an"
  shows "claimed k m (dw_db s')"
proof (cases "st_calling_engine (ev_settings w) = ''dograh''")
  case True
  have acc: "claimed k m (dw_db t')" if "after_accepted_trigger an x a run t = (q, t')" "claimed k m (dw_db t)" "claimed k m x" for x run t q t'
    using that by (auto simp: after_accepted_trigger_def claimed_upd claimed_same [of "add_call_event _ _ _ _"] split: if_splits)
  from assms True show ?thesis
    by (auto simp: place_call_def place_call_via_dograh_def Let_def split: if_splits prod.splits sum.splits option.splits
      dest!: hold_claimed [where k = k and m = m] after_ambiguous_claimed [where k = k and m = m]
        after_refused_claimed [where k = k and m = m] acc)
next
  case False
  have conv: "claimed k m x \<Longrightarrow> claimed k m (an_conversation an x)" for x
    using assms(3) unfolding others_ok_def by (blast intro: claimed_carries)
  have never: "claimed k m (dw_db t) \<Longrightarrow> claimed k m (dw_db (handle_never_connected w an i c' reason ra t))" for t i c' reason ra
    by (rule claimed_carries [OF handle_never_connected_carries [where k = 0]])
  from assms False show ?thesis
    by (auto simp: place_call_def place_call_native_def Let_def claimed_upd claimed_same [of "upd_contact _ _ _"]
      split: if_splits call_result.splits option.splits intro!: conv never)
qed

lemma get_or_create_claimed: "get_or_create other now i contact n d = (a, created, d') \<Longrightarrow> claimed contact n d'"
  by (auto simp: get_or_create_def Let_def claimed_iff split: option.splits) (auto simp: get_by_contact_and_number_row get_row_snoc)

lemma claim_and_place_claimed:
  assumes "claim_and_place w an d0 c held j s = (Inr out, s')" "others_ok an"
    and "\<And>h. held = Some h \<Longrightarrow> claimed (c_id c) (dj_attempt j) (dw_db s)"
  shows "claimed (c_id c) (dj_attempt j) (dw_db s')"
proof -
  let ?now = "an_clock an At_claim"
  obtain a created d1 where g: "(case held of Some h \<Rightarrow> (h, True, resume_held_attempt ?now (a_id h) (dw_db s))
           | None \<Rightarrow> get_or_create (an_others an At_claim) ?now (an_new_attempt an) (c_id c) (dj_attempt j) (dw_db s)) =
      (a, created, d1)" by (metis prod_cases3)
  have "carries 0 d (resume_held_attempt ?now i d)" for i d
    unfolding resume_held_attempt_def by (rule carries_upd_event) simp_all
  then have c1: "claimed (c_id c) (dj_attempt j) d1"
    using g assms(3) by (auto split: option.splits dest: get_or_create_claimed intro: claimed_carries)
  have c2: "claimed (c_id c) (dj_attempt j) (upd_contact i f d1)" for i f using c1 by (simp add: claimed_def)
  have pc: "claimed k m (dw_db s')"
    if "place_call w an d0 a' c j prior t = (x, s')" "map_sum id f x = Inr y" "claimed k m (dw_db t)" for a' prior t x f y k m
    using that by (cases x) (auto intro: place_call_claimed [OF _ _ assms(2)])
  from assms(1) g c1 show ?thesis
    by (auto simp: claim_and_place_def Let_def split: if_splits prod.splits simp del: map_sum.simps)
      (erule (1) pc, simp add: c2)+
qed

lemma hold_outcome: "hold_for_provider_halt an d0 a c prior cat code source n s = (Inr out, s') \<Longrightarrow> out = PROVIDER_HALTED"
  by (auto simp: hold_for_provider_halt_def Let_def split: prod.splits sum.splits)

definition placed_outcomes :: "job_outcome option set" where
  "placed_outcomes = {None, Some RECONCILED, Some RECONCILE_MULTIPLE, Some PROVIDER_HALTED}"

lemma after_ambiguous_outcome: "after_ambiguous_trigger w an d0 a c j e s = (Inr x, s') \<Longrightarrow> x \<in> placed_outcomes"
  by (auto simp: after_ambiguous_trigger_def Let_def placed_outcomes_def split: if_splits prod.splits option.splits job_outcome.splits
    dest: reconcile_outcome)

lemma after_refused_outcome: "after_refused_trigger w an d0 a c j prior e s = (Inr x, s') \<Longrightarrow> x \<in> placed_outcomes"
  by (auto simp: after_refused_trigger_def Let_def placed_outcomes_def split: if_splits prod.splits
    dest!: map_sum_InrD hold_outcome)

lemma place_call_outcome:
  assumes "place_call w an d0 a c j prior s = (Inr x, s')"
  shows "x \<in> placed_outcomes"
proof (cases "st_calling_engine (ev_settings w) = ''dograh''")
  case True
  have h: "x \<in> placed_outcomes" if "map_sum id Some r = Inr x" "hold_for_provider_halt an d a c prior cat code source n t = (r, t')"
    for r d cat code source n t t'
    using that by (auto simp: placed_outcomes_def dest!: map_sum_InrD hold_outcome)
  from assms True show ?thesis
    by (auto simp: place_call_def place_call_via_dograh_def Let_def split: if_splits prod.splits sum.splits option.splits
      dest: h after_ambiguous_outcome after_refused_outcome)
      (auto simp: after_accepted_trigger_def placed_outcomes_def split: if_splits)
next
  case False
  with assms show ?thesis
    by (auto simp: place_call_def place_call_native_def Let_def placed_outcomes_def split: if_splits call_result.splits)
qed

lemma claim_and_place_outcome:
  assumes "claim_and_place w an d0 c held j s = (Inr out, s')"
  shows "out \<in> {ALREADY_PROCESSED, ADMITTED_AND_DIALED, RECONCILED, RECONCILE_MULTIPLE, PROVIDER_HALTED}"
proof -
  have "out \<in> {ADMITTED_AND_DIALED, RECONCILED, RECONCILE_MULTIPLE, PROVIDER_HALTED}"
    if "place_call w an d0 a c j prior t = (r, t')" "map_sum id (\<lambda>out. case out of None \<Rightarrow> ADMITTED_AND_DIALED | Some x \<Rightarrow> x) r = Inr out"
    for a prior t r t'
  proof -
    from map_sum_InrD [OF that(2)] obtain x where x: "r = Inr x" "out = (case x of None \<Rightarrow> ADMITTED_AND_DIALED | Some y \<Rightarrow> y)" by blast
    from place_call_outcome [OF that(1) [unfolded x(1)]] x(2) show ?thesis by (auto simp: placed_outcomes_def)
  qed
  with assms show ?thesis
    by (auto simp: claim_and_place_def Let_def split: if_splits prod.splits simp del: map_sum.simps)
qed

lemma reconcile_placed:
  assumes "after_ambiguous_trigger w an d0 a c j e s = (Inr (Some out), s')" "has_attempt (a_id a) (dw_db s)"
  shows "resolved out (a_id a) (dw_db s') \<and> (\<forall>j n i. attempt_of j n i (dw_db s') = attempt_of j n i (dw_db s))"
proof -
  obtain found memo d where f: "reconcile_with_dograh (an_http_date an) (st_retry_after_max_s (ev_settings w))
      (an_clock an At_lookup) (an_lookup an At_lookup) a c j (dw_db s) = ((found, memo), d)" by (metis prod.exhaust)
  then have "found = Some out \<and> dw_db s' = d" using assms(1)
    by (auto simp: after_ambiguous_trigger_def Let_def split: if_splits option.splits job_outcome.splits)
  with reconcile_resolved [of "an_http_date an" "st_retry_after_max_s (ev_settings w)"] f assms(2) show ?thesis by blast
qed

lemma place_call_resolved:
  assumes "place_call w an d0 a c j prior s = (Inr (Some out), s')" "out \<in> {RECONCILED, RECONCILE_MULTIPLE}"
    and "has_attempt (a_id a) (dw_db s)"
  shows "resolved out (a_id a) (dw_db s') \<and> (\<forall>j n i. attempt_of j n i (dw_db s') = attempt_of j n i (dw_db s))"
proof -
  have g: "st_calling_engine (ev_settings w) = ''dograh''"
    using assms(1) by (auto simp: place_call_def place_call_native_def Let_def split: if_splits call_result.splits)
  have hold: "map_sum id Some r \<noteq> Inr (Some out)" if "hold_for_provider_halt an d a c p cat code source n t = (r, t')"
    for r d p cat code source n t t'
    using that assms(2) by (auto dest!: map_sum_InrD hold_outcome)
  have ref: "after_refused_trigger w an d a c j p e t \<noteq> (Inr (Some out), t')" for d p e t t'
    by (auto simp: after_refused_trigger_def Let_def split: if_splits prod.splits dest: hold)
  have acc: "after_accepted_trigger an d a run t \<noteq> (Inr (Some out), t')" for d run t t'
    by (simp add: after_accepted_trigger_def)
  from assms(1,3) g show ?thesis
    by (auto simp: place_call_def place_call_via_dograh_def Let_def ref acc split: if_splits prod.splits sum.splits option.splits
      dest: hold dest!: reconcile_placed)
qed

lemma get_or_create_of: "get_or_create other now i (dj_contact j) n d = (a, created, d') \<Longrightarrow> attempt_of j n (a_id a) d'"
  by (auto simp: get_or_create_def Let_def split: option.splits intro: attempt_of_found) (simp add: attempt_of_def new_attempt_def)

lemma has_attempt_upd: "(\<And>a. a_id (f a) = a_id a) \<Longrightarrow> has_attempt i (upd_attempt k f d) = has_attempt i d"
  by (simp add: has_attempt_def get_attempt_upd)

lemma resume_has: "has_attempt i (resume_held_attempt now k d) = has_attempt i d"
  by (simp add: resume_held_attempt_def has_attempt_def get_attempt_upd)

lemma claim_and_place_accounted:
  assumes "claim_and_place w an d0 c held j s = (Inr out, s')" "others_ok an" "c_id c = dj_contact j"
    and "\<And>h. held = Some h \<Longrightarrow> attempt_of j (dj_attempt j) (a_id h) dx \<and> has_attempt (a_id h) (dw_db s) \<and>
      claimed (c_id c) (dj_attempt j) (dw_db s)"
  shows "accounted w j dx out (dw_db s')"
proof -
  let ?now = "an_clock an At_claim"
  have claimed: "get_by_contact_and_number (dj_contact j) (dj_attempt j) (dw_db s') \<noteq> None"
    using claim_and_place_claimed [OF assms(1,2)] assms(3,4) by (simp add: claimed_iff)
  obtain a created d1 where g: "(case held of Some h \<Rightarrow> (h, True, resume_held_attempt ?now (a_id h) (dw_db s))
           | None \<Rightarrow> get_or_create (an_others an At_claim) ?now (an_new_attempt an) (c_id c) (dj_attempt j) (dw_db s)) =
      (a, created, d1)" by (metis prod_cases3)
  have a: "(attempt_of j (dj_attempt j) (a_id a) dx \<or> attempt_of j (dj_attempt j) (a_id a) d1) \<and> has_attempt (a_id a) d1"
    using g assms(3,4) by (auto simp: resume_has split: option.splits dest: get_or_create_of attempt_of_has)
  have "\<exists>i. (attempt_of j (dj_attempt j) i dx \<or> attempt_of j (dj_attempt j) i (dw_db s')) \<and> resolved out i (dw_db s')"
    if o: "out \<in> {RECONCILED, RECONCILE_MULTIPLE}"
  proof -
    define d2 where "d2 = upd_contact (c_id c) (\<lambda>r. (claimed_contact created r)\<lparr>
                c_attempt_count := c_attempt_count c + (if created then 1 else 0) \<rparr>) d1"
    obtain r t where t: "place_call w an d0 a c j (c_status c, c_attempt_count c) (s\<lparr> dw_db := d2 \<rparr>) = (r, t)" by (metis surj_pair)
    have "t = s' \<and> map_sum id (\<lambda>out. case out of None \<Rightarrow> ADMITTED_AND_DIALED | Some x \<Rightarrow> x) r = Inr out"
      using assms(1) o unfolding claim_and_place_def Let_def g d2_def [symmetric] by (auto simp: t d2_def [symmetric] split: if_splits)
    then have d2: "attempts d2 = attempts d1" "place_call w an d0 a c j (c_status c, c_attempt_count c) (s\<lparr> dw_db := d2 \<rparr>) = (r, s')"
      "map_sum id (\<lambda>out. case out of None \<Rightarrow> ADMITTED_AND_DIALED | Some x \<Rightarrow> x) r = Inr out" using t by (simp_all add: d2_def)
    then have "r = Inr (Some out)" using o by (cases r) (auto split: option.splits)
    moreover have "has_attempt (a_id a) d2" using a d2(1) by (simp add: has_attempt_in)
    ultimately have "resolved out (a_id a) (dw_db s') \<and> (\<forall>j n i. attempt_of j n i (dw_db s') = attempt_of j n i d2)"
      using place_call_resolved [OF d2(2) [unfolded \<open>r = _\<close>] o] by simp
    then show ?thesis using a attempt_of_same [OF d2(1)] by metis
  qed
  then show ?thesis using claimed claim_and_place_outcome [OF assms(1)]
    unfolding accounted_def moved_on_def resolved_def by (auto split: if_splits)
qed

lemma dial_checked_accounted:
  assumes "dial_checked w an d0 c camp held j s = (Inr out, s')" "others_ok an"
    and c: "get_contact (dj_contact j) (dw_db s) = Some c" "get_campaign (dj_campaign j) (dw_db s) = Some camp"
    and held: "\<And>h. held = Some h \<Longrightarrow> get_by_contact_and_number (dj_contact j) (dj_attempt j) (dw_db s) = Some h"
  shows "accounted w j (dw_db s) out (dw_db s')"
proof -
  let ?k = "an_new_attempt an"
  have id: "c_id c = dj_contact j" by (rule get_contact_id [OF c(1)])
  have triv: ?thesis if "out \<in> {CAMPAIGN_PAUSED, JOB_OUTSIDE_WINDOW, BUDGET_BLOCKED, OUTBOUND_BLOCKED}"
    using that by (auto simp: accounted_def)
  obtain e where e: "out = CAMPAIGN_PAUSED \<or> dial_check w c camp (Some (get_effective_policy (ev_settings w) (camp_id camp) (dw_db s)))
         (an_clock an At_eligibility) (dw_db s) = Inr e \<and> camp_status camp \<noteq> CAMP_PAUSED"
    using assms(1) by (auto simp: dial_checked_def Let_def split: if_splits sum.splits)
  show ?thesis
  proof (cases "out = CAMPAIGN_PAUSED \<or> \<not> el_eligible e")
    case True
    then have "out \<in> {CAMPAIGN_PAUSED, JOB_OUTSIDE_WINDOW} \<or> (out = NOT_ELIGIBLE \<and> \<not> transient e)"
      using assms(1) e by (auto simp: dial_checked_def Let_def split: if_splits)
    moreover have "never_dialable w j (dw_db s)" if "\<not> transient e" "out = NOT_ELIGIBLE"
      using e True c that unfolding never_dialable_def
      by (auto simp: dial_check_def Let_def split: if_splits sum.splits window_error.splits bool.splits)
    ultimately show ?thesis using triv by (auto simp: accounted_def)
  next
    case False
    with e have e: "dial_check w c camp (Some (get_effective_policy (ev_settings w) (camp_id camp) (dw_db s)))
         (an_clock an At_eligibility) (dw_db s) = Inr e" "camp_status camp \<noteq> CAMP_PAUSED" "el_eligible e" by simp_all
    obtain g d where g: "retry_lookup w an c j (dw_db s) = (g, d)" by (metis surj_pair)
    have cd: "carries ?k (dw_db s) d"
      using g assms(2) by (auto simp: retry_lookup_def others_ok_def split: if_splits dest!: second_gate_carries [where k = ?k])
    have rest: "(case (g, d) of
         (Inl _, d) \<Rightarrow> (Inl Raised, s\<lparr> dw_db := d0 \<rparr>)
       | (Inr (Some out), d) \<Rightarrow> (Inr out, s\<lparr> dw_db := d \<rparr>)
       | (Inr None, d) \<Rightarrow>
           (case gate_check w an At_gate (s\<lparr> dw_db := d \<rparr>) of
              (Inl _, s1) \<Rightarrow> (Inl Raised, s1\<lparr> dw_db := d0 \<rparr>)
            | (Inr (Some reason), s1) \<Rightarrow> (Inr (gate_outcome reason), s1)
            | (Inr None, s1) \<Rightarrow> claim_and_place w an d0 c held j s1)) = (Inr out, s')"
      using assms(1) e unfolding g [symmetric] retry_lookup_def dial_checked_def Let_def by simp
    consider (blocked) x where "g = Inr (Some x)" "x = out" "dw_db s' = d" | (go) "g = Inr None"
      using rest by (auto split: sum.splits option.splits)
    then show ?thesis
    proof cases
      case blocked
      then have "second_reconciliation_gate (ev_settings w) (an_http_date an) (an_clock an At_second_lookup)
          (an_lookup an At_second_lookup) (an_others an At_second_lookup) c j (dw_db s) = (Inr (Some out), d)"
        using g by (simp add: retry_lookup_def split: if_splits)
      from second_gate_accounted [OF this id] c(1) id blocked(3) show ?thesis by simp
    next
      case go
      obtain b s2 where b: "gate_check w an At_gate (s\<lparr> dw_db := d \<rparr>) = (b, s2)" by (metis surj_pair)
      have cs: "carries ?k (dw_db s) (dw_db s2)" using gate_check_carries [OF b, of ?k] cd by (auto intro: carries_trans)
      consider (stopped) "out \<in> {BUDGET_BLOCKED, OUTBOUND_BLOCKED}" | (placed) "claim_and_place w an d0 c held j s2 = (Inr out, s')"
        using rest go b by (auto simp: gate_outcome_def split: sum.splits option.splits if_splits)
      then show ?thesis
      proof cases
        case placed
        have h: "attempt_of j (dj_attempt j) (a_id h) (dw_db s) \<and> has_attempt (a_id h) (dw_db s2) \<and> claimed (c_id c) (dj_attempt j) (dw_db s2)"
          if "held = Some h" for h
        proof -
          have a: "attempt_of j (dj_attempt j) (a_id h) (dw_db s)" by (rule attempt_of_found [OF held [OF that]])
          moreover have "claimed (c_id c) (dj_attempt j) (dw_db s)" using held [OF that] id by (simp add: claimed_iff)
          ultimately show ?thesis using attempt_of_has [OF a] cs unfolding carries_def by blast
        qed
        from claim_and_place_accounted [OF placed assms(2) id h] show ?thesis .
      qed (use triv in auto)
    qed
  qed
qed

lemma resolve_unresolved_claimed:
  assumes "resolve_unresolved_claim w an a c j s = (out, s')" "claimed k m (dw_db s)"
  shows "claimed k m (dw_db s')"
  using assms by (auto simp: resolve_unresolved_claim_def Let_def split: if_splits option.splits prod.splits
    dest!: reconcile_with_dograh_carries [where k = 0] intro!: claimed_failure intro: claimed_carries)

lemma resolve_unresolved_accounted:
  assumes "resolve_unresolved_claim w an a c j s = (out, s')" "get_by_contact_and_number (dj_contact j) (dj_attempt j) (dw_db s) = Some a"
  shows "accounted w j (dw_db s) out (dw_db s')"
proof -
  have "claimed (dj_contact j) (dj_attempt j) (dw_db s')"
    by (rule resolve_unresolved_claimed [OF assms(1)]) (use assms(2) in \<open>simp add: claimed_iff\<close>)
  then have cl: "get_by_contact_and_number (dj_contact j) (dj_attempt j) (dw_db s') \<noteq> None" by (simp add: claimed_iff)
  have of: "attempt_of j (dj_attempt j) (a_id a) (dw_db s)" by (rule attempt_of_found [OF assms(2)])
  note has = attempt_of_has [OF this]
  obtain found memo d where f: "reconcile_with_dograh (an_http_date an) (st_retry_after_max_s (ev_settings w))
      (an_clock an At_lookup) (an_lookup an At_lookup) a c j (dw_db s) = ((found, memo), d)" by (metis prod.exhaust)
  have "out \<in> {ALREADY_PROCESSED, IN_FLIGHT, AMBIGUOUS_RECOVERY} \<or> found = Some out \<and> dw_db s' = d"
    using assms(1) f by (auto simp: resolve_unresolved_claim_def Let_def split: if_splits option.splits)
  then show ?thesis
  proof
    assume r: "found = Some out \<and> dw_db s' = d"
    have "reconcile_with_dograh (an_http_date an) (st_retry_after_max_s (ev_settings w))
      (an_clock an At_lookup) (an_lookup an At_lookup) a c j (dw_db s) = ((Some out, memo), d)" using f r by simp
    from reconcile_resolved [OF this has] have "resolved out (a_id a) d" by blast
    moreover have "out \<in> {RECONCILED, RECONCILE_MULTIPLE}" using f r reconcile_outcome by blast
    ultimately show ?thesis using of r unfolding accounted_def resolved_def by (auto split: if_splits)
  qed (use cl in \<open>auto simp: accounted_def moved_on_def\<close>)
qed

lemma dial_accounted:
  assumes "dial w an j s = (Inr out, s')" "others_ok an"
  shows "accounted w j (dw_db s) out (dw_db s')"
proof (cases "get_contact (dj_contact j) (dw_db s) = None \<or> get_campaign (dj_campaign j) (dw_db s) = None")
  case True
  then have "out = NOT_ELIGIBLE" using assms(1) by (auto simp: dial_def Let_def split: option.splits)
  moreover have "never_dialable w j (dw_db s)" using True by (auto simp: never_dialable_def split: option.splits)
  ultimately show ?thesis by (simp add: accounted_def)
next
  case False
  then obtain c camp where cc: "get_contact (dj_contact j) (dw_db s) = Some c" "get_campaign (dj_campaign j) (dw_db s) = Some camp" by auto
  have id: "c_id c = dj_contact j" by (rule get_contact_id [OF cc(1)])
  note chk = dial_checked_accounted [OF _ assms(2) cc]
  show ?thesis
  proof (cases "get_by_contact_and_number (dj_contact j) (dj_attempt j) (dw_db s)")
    case None
    with assms(1) cc id have "dial_checked w an (dw_db s) c camp None j s = (Inr out, s')" by (simp add: dial_def Let_def)
    from chk [OF this] show ?thesis by simp
  next
    case (Some a)
    have d: "(if a_provider_call_id a \<noteq> None then (Inr ALREADY_PROCESSED, s)
        else if st_calling_engine (ev_settings w) \<noteq> ''dograh'' then dial_checked w an (dw_db s) c camp None j s
        else if is_held_attempt a (dw_db s) then dial_checked w an (dw_db s) c camp (Some a) j s
        else (case resolve_unresolved_claim w an a c j s of (out, s1) \<Rightarrow> (Inr out, s1))) = (Inr out, s')"
      using assms(1) cc id Some by (simp add: dial_def Let_def)
    show ?thesis
    proof (cases "a_provider_call_id a \<noteq> None")
      case True
      then have "out = ALREADY_PROCESSED" "s' = s" using d by simp_all
      with Some show ?thesis by (simp add: accounted_def moved_on_def)
    next
      case no_call: False
      show ?thesis
      proof (cases "st_calling_engine (ev_settings w) \<noteq> ''dograh''")
        case True
        then have "dial_checked w an (dw_db s) c camp None j s = (Inr out, s')" using d no_call by simp
        from chk [OF this] show ?thesis by simp
      next
        case False
        show ?thesis
        proof (cases "is_held_attempt a (dw_db s)")
          case True
          then have "dial_checked w an (dw_db s) c camp (Some a) j s = (Inr out, s')" using d no_call False by simp
          from chk [OF this] Some show ?thesis by simp
        next
          case unresolved: False
          then have "resolve_unresolved_claim w an a c j s = (out, s')" using d no_call False by (simp split: prod.splits)
          from resolve_unresolved_accounted [OF this Some] show ?thesis .
        qed
      qed
    qed
  qed
qed

lemma ack_entries [simp]: "sq_entries (clear_guard k q) = sq_entries q" "sq_entries (reset_deliveries now up i q) = sq_entries q"
  by (simp_all add: clear_guard_def reset_deliveries_def)

text \<open>A settlement that removes an entry has executed all its commands.\<close>

definition ack_last :: "redis_op list \<Rightarrow> bool" where
  "ack_last ops \<longleftrightarrow> (\<forall>op \<in> set (butlast ops). \<forall>i. op \<noteq> R_ack i)"

lemma exec_op_entries: "\<forall>i. op \<noteq> R_ack i \<Longrightarrow> sq_entries (snd (exec_op op s)) = sq_entries (snd s)"
  by (cases s; cases op) simp_all

lemma fold_exec_op_entries: "\<forall>op \<in> set ops. \<forall>i. op \<noteq> R_ack i \<Longrightarrow> sq_entries (snd (fold exec_op ops s)) = sq_entries (snd s)"
  by (induction ops arbitrary: s) (simp_all add: exec_op_entries)

lemma run_ops_entries:
  assumes "ack_last ops" "n < length ops"
  shows "sq_entries (snd (run_ops n ops s)) = sq_entries (snd s)"
proof -
  have "take n ops = take n (butlast ops)" using assms(2) by (simp add: take_butlast)
  then have "set (take n ops) \<subseteq> set (butlast ops)" using set_take_subset by metis
  then show ?thesis using assms(1) unfolding run_ops_def ack_last_def by (blast intro: fold_exec_op_entries)
qed

lemma settled_entry:
  assumes "settled dl (out, ops) s = (r, s')" "ack_last ops" "sq_entries (wk_queue s') \<noteq> sq_entries (wk_queue s)"
  shows "r = Inr out \<and> (dw_sched (wk_dialer s'), wk_queue s') = fold exec_op ops (dw_sched (wk_dialer s), wk_queue s)"
proof -
  obtain sch q where ro: "run_ops (dl_ops dl) ops (dw_sched (wk_dialer s), wk_queue s) = (sch, q)" by (metis surj_pair)
  with assms(1) have s': "dw_sched (wk_dialer s') = sch" "wk_queue s' = q" "r = (if dl_ops dl < length ops then Inl Raised else Inr out)"
    by (auto simp: settled_def)
  have "\<not> dl_ops dl < length ops" using run_ops_entries [OF assms(2), of "dl_ops dl" "(dw_sched (wk_dialer s), wk_queue s)"] ro s' assms(3) by auto
  then show ?thesis using ro s' by (simp add: run_ops_def)
qed

text \<open>What a finished delivery stands for, by its outcome.\<close>

definition settled_as :: "'p env \<Rightarrow> dial_job \<Rightarrow> db \<Rightarrow> job_outcome \<Rightarrow> db \<Rightarrow> schedule \<Rightarrow> stream_queue \<Rightarrow> bool" where
  "settled_as w j d0 out d sch q \<longleftrightarrow>
    out \<notin> left_unacked \<union> {NOT_ADMITTED, DEADLINE_EXCEEDED, JOB_OUTSIDE_WINDOW} \<and>
    (out = WINDOW_DEFERRED \<longrightarrow> M_dial j \<in> fst ` set sch \<or>
      (\<exists>prev. dj_previous j = Some prev \<and> M_retry (retry_again j prev) \<in> fst ` set sch)) \<and>
    (out = CAMPAIGN_PAUSED \<longrightarrow> rebuildable j d \<and> (\<forall>now. \<not> guard_live now (idempotency_key j) q)) \<and>
    accounted w j d0 out d"

lemma job_dialed_moved: "job_dialed j d \<Longrightarrow> moved_on j d0 d"
  by (auto simp: job_dialed_def moved_on_def split: option.splits)

lemma accounted_cong:
  assumes "contacts d0 = contacts d1" "campaigns d0 = campaigns d1" "suppressions d0 = suppressions d1" "attempts d0 = attempts d1"
  shows "accounted w j d0 out d = accounted w j d1 out d"
  using assms by (simp add: accounted_def moved_on_def never_dialable_def attempt_of_def get_contact_def get_campaign_def is_suppressed_def
    cong: option.case_cong)

lemma guard_cleared [simp]: "\<not> guard_live now k (ack i (clear_guard k q))"
  by (auto simp: guard_live_def clear_guard_def ack_def list_ex_iff)

lemma settle_paused_settles:
  assumes "settle_paused i j d = (out, ops)"
  shows "ack_last ops" "ops \<noteq> [] \<Longrightarrow> fold exec_op ops (sch, q) = (sch', q') \<Longrightarrow> settled_as w j d0 out d sch' q'"
  using assms by (auto simp: settle_paused_def ack_last_def settled_as_def left_unacked_def accounted_def split: if_splits intro: job_dialed_moved)

lemma settle_outside_window_settles:
  assumes "settle_outside_window i j due d = (out, ops)"
  shows "ack_last ops" "ops \<noteq> [] \<Longrightarrow> fold exec_op ops (sch, q) = (sch', q') \<Longrightarrow> settled_as w j d0 out d sch' q'"
  using assms by (auto simp: settle_outside_window_def ack_last_def settled_as_def left_unacked_def accounted_def split: if_splits option.splits
    intro: job_dialed_moved)

lemma settled_settles:
  assumes "settled dl (out, ops) s = (r, s')" "sq_entries (wk_queue s') \<noteq> sq_entries (wk_queue s)" "ack_last ops"
    and "\<And>sch' q'. ops \<noteq> [] \<Longrightarrow> fold exec_op ops (dw_sched (wk_dialer s), wk_queue s) = (sch', q') \<Longrightarrow>
      settled_as w j d0 out (dw_db (wk_dialer s)) sch' q'"
  shows "r = Inr out \<and> settled_as w j d0 out (dw_db (wk_dialer s')) (dw_sched (wk_dialer s')) (wk_queue s')"
proof -
  note e = settled_entry [OF assms(1,3,2)]
  have "ops \<noteq> []" using e assms(2) by auto
  with e assms(4) [of "dw_sched (wk_dialer s')" "wk_queue s'"] settled_dialer [OF assms(1)] show ?thesis by simp
qed

lemma settled_paused_job:
  assumes "settled dl (settle_paused i j (dw_db (wk_dialer s))) s = (r, s')" "sq_entries (wk_queue s') \<noteq> sq_entries (wk_queue s)"
  shows "\<exists>out. r = Inr out \<and> settled_as w j d0 out (dw_db (wk_dialer s')) (dw_sched (wk_dialer s')) (wk_queue s')"
proof -
  obtain out ops where o: "settle_paused i j (dw_db (wk_dialer s)) = (out, ops)" by (metis surj_pair)
  show ?thesis
    by (intro exI [of _ out] settled_settles [OF assms(1) [unfolded o] assms(2)]) (use settle_paused_settles [OF o] in auto)
qed

lemma settled_window_job:
  assumes "settled dl (settle_outside_window i j due (dw_db (wk_dialer s))) s = (r, s')" "sq_entries (wk_queue s') \<noteq> sq_entries (wk_queue s)"
  shows "\<exists>out. r = Inr out \<and> settled_as w j d0 out (dw_db (wk_dialer s')) (dw_sched (wk_dialer s')) (wk_queue s')"
proof -
  obtain out ops where o: "settle_outside_window i j due (dw_db (wk_dialer s)) = (out, ops)" by (metis surj_pair)
  show ?thesis
    by (intro exI [of _ out] settled_settles [OF assms(1) [unfolded o] assms(2)]) (use settle_outside_window_settles [OF o] in auto)
qed

lemma settled_dialed_job:
  assumes "settled dl (out, if out \<in> left_unacked then [] else [R_ack i]) s = (r, s')" "sq_entries (wk_queue s') \<noteq> sq_entries (wk_queue s)"
    and "out \<notin> {WINDOW_DEFERRED, CAMPAIGN_PAUSED, NOT_ADMITTED, DEADLINE_EXCEEDED, JOB_OUTSIDE_WINDOW}"
    and "accounted w j d0 out (dw_db (wk_dialer s))"
  shows "r = Inr out \<and> settled_as w j d0 out (dw_db (wk_dialer s')) (dw_sched (wk_dialer s')) (wk_queue s')"
  by (rule settled_settles [OF assms(1,2)]) (use assms(3,4) in \<open>auto simp: ack_last_def settled_as_def split: if_splits\<close>)

text \<open>The outcomes of the parts of \<open>dial\<close>.\<close>

lemma dial_outcome:
  assumes "dial w an j s = (Inr out, s')"
  shows "out \<notin> {WINDOW_DEFERRED, NOT_ADMITTED, CAMPAIGN_PAUSED_HELD, WINDOW_HELD, NO_JOB, DEADLINE_EXCEEDED}"
proof -
  have g: "gate_outcome r \<in> {BUDGET_BLOCKED, OUTBOUND_BLOCKED}" for r by (simp add: gate_outcome_def)
  have c: "x \<notin> {WINDOW_DEFERRED, NOT_ADMITTED, CAMPAIGN_PAUSED_HELD, WINDOW_HELD, NO_JOB, DEADLINE_EXCEEDED}"
    if "dial_checked w an d0 c camp held j t = (Inr x, t')" for d0 c camp held t x t'
    using that unfolding dial_checked_def Let_def
    by (auto split: if_splits sum.splits option.splits prod.splits dest!: claim_and_place_outcome second_gate_outcome)
      (auto simp: gate_outcome_def split: if_splits)
  have r: "x \<in> {ALREADY_PROCESSED, IN_FLIGHT, AMBIGUOUS_RECOVERY, RECONCILED, RECONCILE_MULTIPLE}"
    if "resolve_unresolved_claim w an a c j t = (x, t')" for a c t x t'
    using that by (auto simp: resolve_unresolved_claim_def Let_def split: if_splits prod.splits option.splits dest: reconcile_outcome)
  from assms show ?thesis unfolding dial_def Let_def
    by (auto split: option.splits if_splits prod.splits dest!: c r)
qed

lemma dial_admitted_settled:
  assumes "dial_admitted w dl i j l s = (r, s')" "sq_entries (wk_queue s') \<noteq> sq_entries (wk_queue s)" "others_ok (dl_answers dl)"
  shows "\<exists>out. r = Inr out \<and> settled_as w j (dw_db (wk_dialer s)) out (dw_db (wk_dialer s')) (dw_sched (wk_dialer s')) (wk_queue s')"
proof -
  obtain r1 ds where d: "(if an_cut (dl_answers dl) = Before_claim then (Inl Deadline, wk_dialer s)
      else dial w (dl_answers dl) j (wk_dialer s)) = (r1, ds)" by (metis surj_pair)
  let ?s1 = "s\<lparr> wk_dialer := ds, wk_leases := (case wk_leases s of (ls, cs) \<Rightarrow>
               (safe_release (fst (dl_release dl)) (snd (dl_release dl)) l ls, cs)) \<rparr>"
  have a: "dial_admitted w dl i j l s = (case r1 of
            Inl e \<Rightarrow> (Inl e, ?s1)
          | Inr CAMPAIGN_PAUSED \<Rightarrow> settled dl (settle_paused i j (dw_db ds)) ?s1
          | Inr JOB_OUTSIDE_WINDOW \<Rightarrow>
              (case closed_window w j (an_clock (dl_answers dl) At_settle) (dw_db ds) of
                 None \<Rightarrow> (Inl Raised, ?s1)
               | Some (_, due) \<Rightarrow> settled dl (settle_outside_window i j due (dw_db ds)) ?s1)
          | Inr out \<Rightarrow> settled dl (out, if out \<in> left_unacked then [] else [R_ack i]) ?s1)"
    unfolding dial_admitted_def Let_def d by simp
  show ?thesis
  proof (cases r1)
    case (Inl e)
    with assms(1,2) a show ?thesis by auto
  next
    case (Inr out)
    then have dd: "dial w (dl_answers dl) j (wk_dialer s) = (Inr out, ds)" using d by (auto split: if_splits)
    note o = dial_outcome [OF dd]
    have n: "sq_entries (wk_queue s') \<noteq> sq_entries (wk_queue ?s1)" using assms(2) by simp
    show ?thesis
    proof (cases "out \<in> {CAMPAIGN_PAUSED, JOB_OUTSIDE_WINDOW}")
      case True
      with assms(1) a Inr n settled_paused_job [of dl i j ?s1 r s' w "dw_db (wk_dialer s)"]
          settled_window_job [of dl i j _ ?s1 r s' w "dw_db (wk_dialer s)"] show ?thesis
        by (auto split: option.splits prod.splits)
    next
      case False
      have "settled dl (out, if out \<in> left_unacked then [] else [R_ack i]) ?s1 = (r, s')"
        using assms(1) False unfolding a Inr by (cases out) simp_all
      from settled_dialed_job [OF this n, of w j "dw_db (wk_dialer s)"] o False dial_accounted [OF dd assms(3)] show ?thesis by auto
    qed
  qed
qed


end
