(* ===== verification/Dialer_Runs.thy ===== *)
theory Dialer_Runs imports Dialer_Hold Dialer_Settlement begin

text \<open>Concrete runs of the dialer: the properties applied to them.\<close>

definition dograh_env :: "string env" where
  "dograh_env = plain_env\<lparr> ev_settings := default_settings\<lparr> st_calling_engine := ''dograh'' \<rparr> \<rparr>"

definition no_runs :: lookup where
  "no_runs = \<lparr> lk_configured = True,
    lk_pages = (\<lambda>_. Answer 200 None (Some (JObj [(''runs'', JList []), (''total_pages'', JInt 1)]))) \<rparr>"

definition sample_answers :: answers where
  "sample_answers = \<lparr> an_clock = (\<lambda>_. noon), an_gate = (\<lambda>_. (0, True, True)), an_others = (\<lambda>_ d. d),
    an_lookup = (\<lambda>_. no_runs), an_new_attempt = 50, an_analysis = 51, an_configured = True,
    an_trigger = Answer 200 None (Some (JObj [(''workflow_run_id'', JInt 5)])), an_http_date = (\<lambda>_. None),
    an_redis = (\<lambda>_. True), an_halt_up = True, an_provider = ''mock'', an_native = Call_failed None,
    an_native_found = Call_failed None, an_conversation = (\<lambda>d. d), an_cut = No_cut \<rparr>"

definition sample_delivery :: delivery where
  "sample_delivery = \<lparr> dl_answers = sample_answers, dl_admit = (\<lambda>_. (no_faults, noon, 1000, 1, ''L'')),
    dl_release = (False, 2000), dl_ops = 3, dl_reset = (noon, True) \<rparr>"

definition first_attempt :: dial_job where "first_attempt = new_dial_job 1 7 1 1 None None"

definition pending_contact :: contact where
  "pending_contact = sample_contact\<lparr> c_status := C_PENDING, c_attempt_count := 0 \<rparr>"

definition idle_dialer :: "db \<Rightarrow> dialer" where
  "idle_dialer d = \<lparr> dw_db = d, dw_sched = [], dw_gate = fresh_gate, dw_breaker = closed_breaker,
    dw_streak = no_streak, dw_sent = [] \<rparr>"

definition idle_worker :: "db \<Rightarrow> worker" where
  "idle_worker d = \<lparr> wk_dialer = idle_dialer d, wk_queue = snd (read_one 0 (enqueue first_attempt empty_queue)),
    wk_leases = (empty_store, \<lambda>_. 0) \<rparr>"

definition ready_db :: db where
  "ready_db = empty_db\<lparr> contacts := [pending_contact], campaigns := [sample_campaign] \<rparr>"

lemma sample_run:
  "case process_claimed_job dograh_env ''w'' sample_delivery 0 first_attempt (idle_worker ready_db) of
     (out, s') \<Rightarrow> dw_sent (wk_dialer s') = [(50, True)] \<and> sq_entries (wk_queue s') = []"
  by code_simp

lemma sample_run_result:
  obtains out s' where "process_claimed_job dograh_env ''w'' sample_delivery 0 first_attempt (idle_worker ready_db) = (out, s')"
    "dw_sent (wk_dialer s') = [(50, True)]" "sq_entries (wk_queue s') = []"
  using sample_run by (auto split: prod.splits)

lemma sample_worker [simp]: "wk_dialer (idle_worker d) = idle_dialer d" "dw_db (idle_dialer d) = d" "dw_sent (idle_dialer d) = []"
  "dl_answers sample_delivery = sample_answers" "an_new_attempt sample_answers = 50" "an_others sample_answers = (\<lambda>_ d. d)"
  "st_calling_engine (ev_settings dograh_env) = ''dograh''" "attempts ready_db = []"
  by (simp_all add: idle_worker_def idle_dialer_def sample_delivery_def sample_answers_def dograh_env_def ready_db_def empty_db_def)

lemma sample_others: "others_ok sample_answers"
  by (simp add: others_ok_def) (simp add: sample_answers_def)

lemma sample_entries: "sq_entries (wk_queue (idle_worker d)) \<noteq> []"
proof -
  have "sq_entries (snd (read_one 0 (enqueue first_attempt empty_queue))) \<noteq> []" by code_simp
  then show ?thesis by (simp add: idle_worker_def)
qed

theorem no_second_call_witness:
  "\<exists>out s'. process_claimed_job dograh_env ''w'' sample_delivery 0 first_attempt (idle_worker ready_db) = (out, s') \<and>
    possible_calls (wk_dialer s') = [50] \<and> distinct (possible_calls (wk_dialer s'))"
proof -
  obtain out s' where r: "process_claimed_job dograh_env ''w'' sample_delivery 0 first_attempt (idle_worker ready_db) = (out, s')"
    "dw_sent (wk_dialer s') = [(50, True)]" by (rule sample_run_result)
  have "history dograh_env ''w'' (idle_worker ready_db)" by (rule history.start) (simp_all add: keys_distinct_def)
  then have "history dograh_env ''w'' s'"
    by (rule history.job [OF _ r(1)]) (simp_all add: sample_others has_attempt_def get_attempt_def)
  from no_second_call [OF this] r show ?thesis by (simp add: possible_calls_def)
qed

theorem request_needs_every_check_witness:
  "\<exists>c camp. get_contact 1 ready_db = Some c \<and> get_campaign 7 ready_db = Some camp \<and> camp_status camp = CAMP_ACTIVE \<and>
    c_status c \<in> {C_PENDING, C_DIALING, C_RETRY_SCHEDULED}"
proof -
  obtain out s' where r: "process_claimed_job dograh_env ''w'' sample_delivery 0 first_attempt (idle_worker ready_db) = (out, s')"
    "dw_sent (wk_dialer s') = [(50, True)]" by (rule sample_run_result)
  from request_needs_every_check [OF r(1)] r(2) show ?thesis by (auto simp: first_attempt_def new_dial_job_def)
qed


definition rejected_answers :: answers where
  "rejected_answers = sample_answers\<lparr> an_trigger := Answer 401 None None \<rparr>"

lemma rejected_run: "fst (dial dograh_env rejected_answers first_attempt (idle_dialer ready_db)) = Inr PROVIDER_HALTED"
  by code_simp

theorem hold_spends_nothing_witness:
  "\<exists>s'. dial dograh_env rejected_answers first_attempt (idle_dialer ready_db) = (Inr PROVIDER_HALTED, s') \<and>
    get_contact 1 (dw_db s') = Some pending_contact \<and> is_engaged PROVIDER_HALT (controls (dw_db s'))"
proof -
  obtain s' where r: "dial dograh_env rejected_answers first_attempt (idle_dialer ready_db) = (Inr PROVIDER_HALTED, s')"
    using rejected_run by (metis prod.collapse)
  have c: "get_contact (dj_contact first_attempt) (dw_db (idle_dialer ready_db)) = Some pending_contact"
    by (simp add: first_attempt_def new_dial_job_def ready_db_def get_contact_def get_row_Cons pending_contact_def sample_contact_def)
  have "an_others rejected_answers = (\<lambda>_ d. d)" by (simp add: rejected_answers_def)
  from hold_spends_nothing [OF r c this] r show ?thesis
    by (auto simp: first_attempt_def new_dial_job_def pending_contact_def sample_contact_def)
qed

definition unclear_attempt :: call_attempt where
  "unclear_attempt = (new_attempt 0 20 1 1)\<lparr> a_state := A_FAILED_TO_CONNECT, a_provider := Some ''dograh'',
    a_conn_reason := Some NC_PROVIDER_ERROR \<rparr>"

definition unclear_db :: db where
  "unclear_db = ready_db\<lparr> attempts := [unclear_attempt],
    events := [\<lparr> e_attempt = 20, e_type = AMBIGUOUS_TRIGGER_EVENT, e_payload = [] \<rparr>] \<rparr>"

theorem failed_lookup_defers_then_expires_witness:
  "\<exists>d'. second_reconciliation_gate default_settings (\<lambda>_. None) noon (no_runs\<lparr> lk_configured := False \<rparr>) (\<lambda>d. d)
      pending_contact (new_dial_job 2 7 1 2 (Some RECONNECT) (Some 20)) unclear_db = (Inr (Some RECONCILE_DEFERRED), d') \<and>
    deferrals 20 d' = 1"
proof -
  let ?j = "new_dial_job 2 7 1 2 (Some RECONNECT) (Some 20)" and ?lk = "no_runs\<lparr> lk_configured := False \<rparr>"
  obtain r d' where r: "second_reconciliation_gate default_settings (\<lambda>_. None) noon ?lk (\<lambda>d. d) pending_contact ?j unclear_db = (r, d')"
    by (metis surj_pair)
  have p: "get_by_contact_and_number (c_id pending_contact) (dj_attempt ?j - 1) unclear_db = Some unclear_attempt"
    "is_unresolved_ambiguous_trigger unclear_attempt unclear_db"
    by (simp_all add: get_by_contact_and_number_def unclear_db_def unclear_attempt_def pending_contact_def sample_contact_def
      new_dial_job_def is_unresolved_ambiguous_trigger_def)
  have l: "fst (lookup_runs (\<lambda>_. None) (st_retry_after_max_s default_settings) noon ?lk unclear_attempt ''second''
      (reconcile_ids pending_contact unclear_attempt ?j) unclear_db) = Inl ''error''"
    by (simp add: lookup_runs_def Let_def)
  have "deferrals 20 unclear_db = 0" by (simp add: deferrals_def unclear_db_def ready_db_def empty_db_def count_where_def)
  with failed_lookup_defers_then_expires [OF p l r] r show ?thesis
    by (simp add: unclear_attempt_def default_settings_def)
qed

end
