(* ===== verification/Py_Text.thy ===== *)
theory Py_Text imports Reconciliation begin

text \<open>
  The text conversions of the standard library that the webhook handlers apply to untrusted fields, beside
  those of \<open>Py_Int\<close>: \<open>float(text)\<close>, \<open>uuid.UUID(text)\<close> and its \<open>str\<close>. A failed conversion (the code's
  \<open>ValueError\<close>) is None. A float is the rational its text denotes, before rounding.
\<close>

section \<open>Floats\<close>

datatype py_float = Finite rat | Infinite bool | NaN

fun drop_underscores :: "char \<Rightarrow> string \<Rightarrow> string option" where
  "drop_underscores p [] = (if p = CHR ''_'' then None else Some [])"
| "drop_underscores p (c # cs) =
    (if c = CHR ''_'' then (if py_digit p then drop_underscores c cs else None)
     else if p = CHR ''_'' \<and> \<not> py_digit c then None
     else map_option (\<lambda>r. c # r) (drop_underscores c cs))"

definition exponent_of :: "string \<Rightarrow> int option" where
  "exponent_of s = (case s of
     [] \<Rightarrow> Some 0
   | c # cs \<Rightarrow> if c = CHR ''e'' then
       (case split_sign cs of (neg, ds) \<Rightarrow>
          if py_digits ds then Some (if neg then - digits_value ds else digits_value ds) else None)
     else None)"

definition ten_to :: "int \<Rightarrow> rat" where
  "ten_to e = (if e \<ge> 0 then 10 ^ nat e else 1 / 10 ^ nat (- e))"

text \<open>The least magnitude that rounds to infinity in a double.\<close>

definition double_overflow :: rat where "double_overflow = 2 ^ 1024 - 2 ^ 970"

definition decimal_float :: "string \<Rightarrow> rat option" where
  "decimal_float s =
    (let ip = takeWhile py_digit s; r = dropWhile py_digit s;
         fp = (case r of c # cs \<Rightarrow> if c = CHR ''.'' then takeWhile py_digit cs else [] | [] \<Rightarrow> []);
         ex = (case r of c # cs \<Rightarrow> if c = CHR ''.'' then dropWhile py_digit cs else r | [] \<Rightarrow> [])
     in if ip @ fp = [] then None
        else map_option (\<lambda>e. of_int (digits_value (ip @ fp)) * ten_to (e - int (length fp))) (exponent_of ex))"

definition py_float :: "string \<Rightarrow> py_float option" where
  "py_float s =
    (case drop_underscores (CHR 0x00) (py_strip s) of
       None \<Rightarrow> None
     | Some t \<Rightarrow> (case split_sign t of (neg, u) \<Rightarrow>
         let v = map lower_char u in
         if v = ''inf'' \<or> v = ''infinity'' then Some (Infinite neg)
         else if v = ''nan'' then Some NaN
         else map_option (\<lambda>x. if x \<ge> double_overflow then Infinite neg else Finite (if neg then - x else x)) (decimal_float v)))"

section \<open>UUIDs\<close>

definition hex_char :: "nat \<Rightarrow> char" where
  "hex_char k = (if k < 10 then char_of (48 + k) else char_of (87 + k))"

fun hex_digits :: "nat \<Rightarrow> nat \<Rightarrow> string" where
  "hex_digits 0 n = []"
| "hex_digits (Suc k) n = hex_digits k (n div 16) @ [hex_char (n mod 16)]"

definition uuid_text :: "uuid \<Rightarrow> string" where
  "uuid_text n = (let h = hex_digits 32 n in
     take 8 h @ ''-'' @ take 4 (drop 8 h) @ ''-'' @ take 4 (drop 12 h) @ ''-'' @ take 4 (drop 16 h) @ ''-'' @ drop 20 h)"

text \<open>\<open>str.replace(p, '')\<close>: the occurrences from the left; the number is what is left of one.\<close>

fun removing :: "string \<Rightarrow> nat \<Rightarrow> string \<Rightarrow> string" where
  "removing p k [] = []"
| "removing p (Suc k) (c # cs) = removing p k cs"
| "removing p 0 (c # cs) = (if take (length p) (c # cs) = p then removing p (length p - 1) cs else c # removing p 0 cs)"

definition strip_chars :: "string \<Rightarrow> string \<Rightarrow> string" where
  "strip_chars xs s = rev (dropWhile (\<lambda>c. c \<in> set xs) (rev (dropWhile (\<lambda>c. c \<in> set xs) s)))"

definition parse_uuid :: "string \<Rightarrow> uuid option" where
  "parse_uuid s =
    (let h = removing ''-'' 0 (strip_chars ''{}'' (removing ''uuid:'' 0 (removing ''urn:'' 0 s))) in
     if length h \<noteq> 32 then None
     else case py_int 16 h of
       None \<Rightarrow> None
     | Some i \<Rightarrow> if 0 \<le> i \<and> i < 2 ^ 128 then Some (nat i) else None)"

section \<open>Reading back what was printed\<close>

text \<open>The characters that stand for a digit below 16.\<close>

definition hex_set :: "char set" where "hex_set = {c. \<exists>k < 16. digit_of c = Some k}"

lemma digit_hex_char: "k < 16 \<Longrightarrow> digit_of (hex_char k) = Some k \<and> hex_char k \<in> hex_set"
proof -
  assume k: "k < 16"
  have "of_char (char_of (48 + k) :: char) = 48 + k" "of_char (char_of (87 + k) :: char) = 87 + k"
    using k by (simp_all add: of_char_of)
  then have "digit_of (hex_char k) = Some k"
    using k unfolding digit_of_def hex_char_def Let_def by (cases "k < 10") (simp_all only: if_True if_False, simp_all)
  then show ?thesis using k by (auto simp: hex_set_def)
qed

lemma hex_set_not [simp]: "CHR ''-'' \<notin> hex_set" "CHR ''_'' \<notin> hex_set" "CHR ''+'' \<notin> hex_set" "CHR ''x'' \<notin> hex_set"
  "CHR ''X'' \<notin> hex_set" "CHR ''u'' \<notin> hex_set" "CHR 0x7B \<notin> hex_set" "CHR 0x7D \<notin> hex_set"
  by (simp_all add: hex_set_def digit_of_def)

lemma hex_set_not_space: "c \<in> hex_set \<Longrightarrow> \<not> py_space c"
  by (auto simp: hex_set_def digit_of_def py_space_def Let_def split: if_splits)

lemma length_hex_digits [simp]: "length (hex_digits k n) = k"
  by (induction k arbitrary: n) simp_all

lemma hex_digits_set: "set (hex_digits k n) \<subseteq> hex_set"
  by (induction k arbitrary: n) (simp_all add: digit_hex_char)

lemma int_digits_append:
  "xs \<noteq> [] \<Longrightarrow> int_digits b acc dig xs = Some a \<Longrightarrow> int_digits b acc dig (xs @ ys) = int_digits b a True ys"
proof (induction xs arbitrary: acc dig)
  case (Cons c xs)
  then show ?case by (cases "xs = []") (auto split: if_splits option.splits)
qed simp

lemma int_digits_hex: "k > 0 \<Longrightarrow> int_digits 16 acc dig (hex_digits k n) = Some (acc * 16 ^ k + n mod 16 ^ k)"
proof (induction k arbitrary: n acc dig)
  case (Suc k)
  let ?c = "hex_char (n mod 16)"
  have c: "digit_of ?c = Some (n mod 16)" "?c \<noteq> CHR ''_''"
    using digit_hex_char [of "n mod 16"] by auto
  have last: "int_digits 16 a d [?c] = Some (16 * a + n mod 16)" for a d
    using c by simp
  show ?case
  proof (cases "k = 0")
    case True
    then show ?thesis using last by (simp add: mult.commute)
  next
    case False
    then have ne: "hex_digits k (n div 16) \<noteq> []" by (metis length_0_conv length_hex_digits)
    have i: "int_digits 16 acc dig (hex_digits k (n div 16)) = Some (acc * 16 ^ k + (n div 16) mod 16 ^ k)"
      using False by (intro Suc.IH) simp
    have e: "16 * (acc * 16 ^ k + (n div 16) mod 16 ^ k) + n mod 16 = acc * 16 ^ Suc k + n mod 16 ^ Suc k"
      by (simp add: mod_mult2_eq algebra_simps)
    show ?thesis unfolding hex_digits.simps int_digits_append [OF ne i] last e by (rule refl)
  qed
qed simp

lemma removing_absent: "c \<in> set p \<Longrightarrow> c \<notin> set s \<Longrightarrow> removing p 0 s = s"
proof (induction s)
  case (Cons x xs)
  have "take (length p) (x # xs) \<noteq> p" using Cons.prems by (metis in_set_takeD)
  then show ?case using Cons by auto
qed simp

lemma removing_char: "removing [c] 0 s = filter (\<lambda>x. x \<noteq> c) s"
  by (induction s) auto

lemma strip_chars_id: "set xs \<inter> set s = {} \<Longrightarrow> strip_chars xs s = s"
proof -
  assume a: "set xs \<inter> set s = {}"
  have "dropWhile (\<lambda>c. c \<in> set xs) t = t" if "set t \<subseteq> set s" for t
    using that a by (cases t) auto
  then show ?thesis by (simp add: strip_chars_def)
qed

lemma uuid_text_parts: "uuid_text n = take 8 h @ ''-'' @ take 4 (drop 8 h) @ ''-'' @ take 4 (drop 12 h) @ ''-'' @
    take 4 (drop 16 h) @ ''-'' @ drop 20 h" if "h = hex_digits 32 n" for h
  unfolding uuid_text_def Let_def that by (rule refl)

lemma parts_join: "take 8 h @ take 4 (drop 8 h) @ take 4 (drop 12 h) @ take 4 (drop 16 h) @ drop 20 h = h"
proof -
  have e: "take 4 (drop m h) @ drop (4 + m) h = drop m h" for m
    using append_take_drop_id [of 4 "drop m h"] by (simp only: drop_drop)
  from e [of 16] e [of 12] e [of 8] show ?thesis by simp
qed

lemma uuid_text_chars: "set (uuid_text n) \<subseteq> insert (CHR ''-'') hex_set"
proof -
  obtain h where h: "h = hex_digits 32 n" by blast
  have s: "set (take a (drop b h)) \<subseteq> hex_set" "set (take a h) \<subseteq> hex_set" "set (drop b h) \<subseteq> hex_set" for a b
    using hex_digits_set [of 32 n] h by (meson in_set_dropD in_set_takeD subset_iff)+
  show ?thesis unfolding uuid_text_parts [OF h] set_append using s(1) s(2) [of 8] s(3) [of 20] by (intro Un_least) (auto dest: subsetD)
qed

lemma uuid_text_digits: "filter (\<lambda>x. x \<noteq> CHR ''-'') (uuid_text n) = hex_digits 32 n"
proof -
  obtain h where h: "h = hex_digits 32 n" by blast
  have f: "filter (\<lambda>x. x \<noteq> CHR ''-'') s = s" if "set s \<subseteq> set h" for s
    using that hex_digits_set [of 32 n] h hex_set_not(1) unfolding filter_id_conv by blast
  have sub: "set (take a (drop b h)) \<subseteq> set h" "set (take a h) \<subseteq> set h" "set (drop b h) \<subseteq> set h" for a b
    by (meson in_set_dropD in_set_takeD subset_iff)+
  have "filter (\<lambda>x. x \<noteq> CHR ''-'') (uuid_text n) =
      take 8 h @ take 4 (drop 8 h) @ take 4 (drop 12 h) @ take 4 (drop 16 h) @ drop 20 h"
    unfolding uuid_text_parts [OF h] filter_append f [OF sub(1)] f [OF sub(2)] f [OF sub(3)] by simp
  then show ?thesis unfolding parts_join h .
qed

lemma hex_plain: "set s \<subseteq> hex_set \<Longrightarrow> py_strip s = s \<and> split_sign s = (False, s) \<and> hex_prefix s = s"
proof -
  assume a: "set s \<subseteq> hex_set"
  have "py_strip s = s" using a hex_set_not_space by (intro py_strip_id) (auto simp: list_all_iff)
  moreover have "split_sign s = (False, s)" using a by (auto simp: split_sign_def split: list.split)
  moreover have "take 2 s \<notin> {''0x'', ''0X''}"
  proof
    assume "take 2 s \<in> {''0x'', ''0X''}"
    then have "CHR ''x'' \<in> set s \<or> CHR ''X'' \<in> set s"
      by (metis in_set_takeD insert_iff list.set_intros(1) list.set_intros(2) singletonD)
    then show False using a by auto
  qed
  ultimately show ?thesis by (simp add: hex_prefix_def)
qed

lemma parse_uuid_text:
  assumes "n < 2 ^ 128"
  shows "parse_uuid (uuid_text n) = Some n"
proof -
  have chars: "CHR ''u'' \<notin> set (uuid_text n)" "set ''{}'' \<inter> set (uuid_text n) = {}"
    using uuid_text_chars [of n] by auto
  have h: "removing ''-'' 0 (strip_chars ''{}'' (removing ''uuid:'' 0 (removing ''urn:'' 0 (uuid_text n)))) = hex_digits 32 n"
    using chars removing_absent [of "CHR ''u''" "''urn:''" "uuid_text n"] removing_absent [of "CHR ''u''" "''uuid:''" "uuid_text n"]
    by (simp add: strip_chars_id removing_char uuid_text_digits)
  have "(16::nat) ^ 32 = 2 ^ 128" by simp
  then have "int_digits 16 0 False (hex_digits 32 n) = Some n" using assms by (simp add: int_digits_hex)
  then have "py_int 16 (hex_digits 32 n) = Some (int n)"
    using hex_plain [OF hex_digits_set] by (simp add: py_int_def)
  moreover have "int n < 2 ^ 128" using assms by (metis of_nat_less_iff of_nat_numeral of_nat_power)
  ultimately show ?thesis by (simp add: parse_uuid_def h Let_def)
qed

text \<open>
  The text of a 128-bit identifier is read back as that identifier: \<open>uuid.UUID(str(u)) = u\<close>. So the
  webhook's identifiers, which were printed into the call's context, name the rows they came from, and two
  different rows never print alike.
\<close>

theorem uuid_roundtrip:
  assumes "n < 2 ^ 128"
  shows "parse_uuid (uuid_text n) = Some n \<and> (\<forall>m. m < 2 ^ 128 \<and> uuid_text m = uuid_text n \<longrightarrow> m = n)"
  using parse_uuid_text [OF assms] by (metis option.inject parse_uuid_text)

theorem uuid_roundtrip_witness: "parse_uuid (uuid_text 20) = Some 20 \<and> uuid_text 21 \<noteq> uuid_text 20"
proof -
  have c: "(20::nat) < 2 ^ 128" "(21::nat) < 2 ^ 128" by simp_all
  note u = uuid_roundtrip [OF c(1)]
  have "uuid_text 21 \<noteq> uuid_text 20"
  proof
    assume "uuid_text 21 = uuid_text 20"
    with u c(2) have "(21::nat) = 20" by blast
    then show False by simp
  qed
  with u show ?thesis by blast
qed

end
