(* ===== verification/Transcripts.thy ===== *)
theory Transcripts imports Py_Text begin

text \<open>
  \<open>app/services/telephony/transcript_store.py\<close> and the result type of \<open>transcript_fetch.py\<close>: what a fetched
  transcript becomes on its conversation session. \<open>repr\<close> is the text Python prints for a float, a list or a
  dict; the other JSON values are written out.
\<close>

datatype transcript_kind = TK_OK | TK_EMPTY | TK_UNAVAILABLE

record transcript_result =
  tr_kind :: transcript_kind
  tr_lines :: "payload list"
  tr_reason :: "string option"

definition retryable_reasons :: "string list" where
  "retryable_reasons = [''network_error'', ''http_status'', ''deadline'']"

definition is_retryable :: "string option \<Rightarrow> bool" where
  "is_retryable r = (case r of Some x \<Rightarrow> x \<in> set retryable_reasons | None \<Rightarrow> False)"

definition unavailable :: "string \<Rightarrow> transcript_result" where
  "unavailable reason = \<lparr> tr_kind = TK_UNAVAILABLE, tr_lines = [], tr_reason = Some reason \<rparr>"

fun contains :: "string \<Rightarrow> string \<Rightarrow> bool" where
  "contains p [] = (p = [])"
| "contains p (c # cs) = (take (length p) (c # cs) = p \<or> contains p cs)"

definition role_for :: "string \<Rightarrow> conversation_role" where
  "role_for raw = (let t = map lower_char raw in
     if list_ex (\<lambda>k. contains k t) [''user'', ''customer'', ''caller'', ''human''] then ROLE_CONTACT
     else if list_ex (\<lambda>k. contains k t) [''assistant'', ''agent'', ''bot'', ''ai''] then ROLE_AGENT
     else ROLE_SYSTEM)"

fun truthy :: "jval \<Rightarrow> bool" where
  "truthy JNull = False"
| "truthy (JBool b) = b"
| "truthy (JInt i) = (i \<noteq> 0)"
| "truthy (JRat r) = (r \<noteq> 0)"
| "truthy (JStr s) = (s \<noteq> [])"
| "truthy (JId i) = True"
| "truthy (JList xs) = (xs \<noteq> [])"
| "truthy (JObj kvs) = (kvs \<noteq> [])"

fun py_str :: "(jval \<Rightarrow> string) \<Rightarrow> jval \<Rightarrow> string" where
  "py_str repr (JStr s) = s"
| "py_str repr (JInt i) = int_text i"
| "py_str repr (JBool b) = (if b then ''True'' else ''False'')"
| "py_str repr JNull = ''None''"
| "py_str repr (JId i) = uuid_text i"
| "py_str repr v = repr v"

text \<open>\<open>str(line.get(k1) or line.get(k2) or .. or '')\<close>\<close>

fun first_truthy :: "(jval \<Rightarrow> string) \<Rightarrow> payload \<Rightarrow> string list \<Rightarrow> string" where
  "first_truthy repr line [] = []"
| "first_truthy repr line (k # ks) =
    (case map_of line k of
       Some v \<Rightarrow> if truthy v then py_str repr v else first_truthy repr line ks
     | None \<Rightarrow> first_truthy repr line ks)"

fun line_messages :: "(jval \<Rightarrow> string) \<Rightarrow> uuid \<Rightarrow> int \<Rightarrow> payload list \<Rightarrow> conversation_message list" where
  "line_messages repr session i [] = []"
| "line_messages repr session i (l # ls) =
    (let raw_role = first_truthy repr l [''role'', ''speaker''];
         content = py_strip (first_truthy repr l [''content'', ''text'', ''message'']);
         rest = line_messages repr session (i + 1) ls
     in if content = [] then rest
        else \<lparr> m_session = session, m_sequence = i, m_role = role_for raw_role, m_content = content \<rparr> # rest)"

definition upd_session :: "uuid \<Rightarrow> (conversation_session \<Rightarrow> conversation_session) \<Rightarrow> db \<Rightarrow> db" where
  "upd_session i f d = d\<lparr> sessions := upd_row cs_id i f (sessions d) \<rparr>"

definition apply_transcript_result :: "(jval \<Rightarrow> string) \<Rightarrow> uuid \<Rightarrow> transcript_result \<Rightarrow> string \<Rightarrow> db \<Rightarrow> db" where
  "apply_transcript_result repr session r url d =
    (if tr_kind r = TK_UNAVAILABLE
     then upd_session session (\<lambda>s. s\<lparr> cs_transcript_status := Some ''unavailable'', cs_transcript_reason := tr_reason r,
            cs_transcript_url := (if is_retryable (tr_reason r) then Some url else None) \<rparr>) d
     else upd_session session (\<lambda>s. s\<lparr>
            cs_transcript_status := Some (if tr_kind r = TK_OK then ''ok'' else ''empty''),
            cs_transcript_reason := None, cs_transcript_url := None \<rparr>)
          (d\<lparr> messages := messages d @ line_messages repr session 1 (tr_lines r) \<rparr>))"

text \<open>\<open>fetch\<close> is \<open>fetch_transcript\<close>. None: nothing to fetch again.\<close>

definition refetch_unavailable :: "(jval \<Rightarrow> string) \<Rightarrow> (string \<Rightarrow> transcript_result) \<Rightarrow> conversation_session \<Rightarrow> db \<Rightarrow>
    transcript_result option \<times> db" where
  "refetch_unavailable repr fetch s d =
    (case (cs_transcript_status s, cs_transcript_url s) of
       (Some st, Some url) \<Rightarrow>
         if st = ''unavailable'' \<and> url \<noteq> [] then (Some (fetch url), apply_transcript_result repr (cs_id s) (fetch url) url d)
         else (None, d)
     | _ \<Rightarrow> (None, d))"

section \<open>Facts\<close>

lemma upd_session_frame [simp]:
  "contacts (upd_session i f d) = contacts d" "attempts (upd_session i f d) = attempts d"
  "campaigns (upd_session i f d) = campaigns d" "suppressions (upd_session i f d) = suppressions d"
  "events (upd_session i f d) = events d" "audits (upd_session i f d) = audits d"
  "processed (upd_session i f d) = processed d" "messages (upd_session i f d) = messages d"
  "analyses (upd_session i f d) = analyses d" "policies (upd_session i f d) = policies d"
  "controls (upd_session i f d) = controls d"
  "snapshots (upd_session i f d) = snapshots d" "budget_days (upd_session i f d) = budget_days d"
  by (simp_all add: upd_session_def)

lemma apply_transcript_frame [simp]:
  "contacts (apply_transcript_result repr s r u d) = contacts d"
  "attempts (apply_transcript_result repr s r u d) = attempts d"
  "campaigns (apply_transcript_result repr s r u d) = campaigns d"
  "policies (apply_transcript_result repr s r u d) = policies d"
  "suppressions (apply_transcript_result repr s r u d) = suppressions d"
  "events (apply_transcript_result repr s r u d) = events d"
  "audits (apply_transcript_result repr s r u d) = audits d"
  "processed (apply_transcript_result repr s r u d) = processed d"
  "controls (apply_transcript_result repr s r u d) = controls d"
  "analyses (apply_transcript_result repr s r u d) = analyses d"
  "snapshots (apply_transcript_result repr s r u d) = snapshots d"
  "budget_days (apply_transcript_result repr s r u d) = budget_days d"
  by (simp_all add: apply_transcript_result_def)

lemma line_messages_owner: "m \<in> set (line_messages repr session i ls) \<Longrightarrow>
    m_session m = session \<and> i \<le> m_sequence m \<and> m_sequence m < i + int (length ls) \<and> m_content m \<noteq> []"
  by (induction ls arbitrary: i) (fastforce simp: Let_def split: if_splits)+

lemma line_messages_distinct: "distinct (map m_sequence (line_messages repr session i ls))"
  by (induction ls arbitrary: i) (force simp: Let_def dest: line_messages_owner)+

text \<open>What was stored of a session can be told apart: a failed fetch is never an empty conversation.\<close>

lemma transcript_status_told_apart:
  assumes "get_row cs_id s (sessions d) = Some cs"
    and "get_row cs_id s (sessions (apply_transcript_result repr s r url d)) = Some cs'"
  shows "(cs_transcript_status cs' = Some ''unavailable'') = (tr_kind r = TK_UNAVAILABLE) \<and>
    (cs_transcript_url cs' \<noteq> None) = (tr_kind r = TK_UNAVAILABLE \<and> is_retryable (tr_reason r))"
  using assms by (cases "tr_kind r = TK_UNAVAILABLE") (auto simp: apply_transcript_result_def upd_session_def get_upd_row split: if_splits)

end
