(* ===== verification/Dograh_Webhook.thy ===== *)
theory Dograh_Webhook imports Transcripts begin

text \<open>
  \<open>app/services/telephony/dograh_webhook_service.py\<close>: the completion webhook of a Dograh call. The payload is
  the validated \<open>DograhWebhookPayload\<close>. What the outside contributes to one delivery (the clock, fresh ids,
  the transcript download, Redis, what other transactions commit before the event is claimed) is the record
  \<open>hook_answers\<close>. The rows loaded by the session (\<open>attempt\<close>, \<open>contact\<close>) are carried next to the database: an
  attribute assignment changes both. Logging is left out.
\<close>

section \<open>Payload and answers\<close>

datatype json_id = Id_int int | Id_text string

datatype duration_value = Dur_number py_float | Dur_text string

record webhook =
  wh_attempt :: string
  wh_contact :: "string option"
  wh_campaign :: "string option"
  wh_run :: "json_id option"
  wh_workflow :: "json_id option"
  wh_status :: "string option"
  wh_disposition :: "string option"
  wh_mapped :: "string option"
  wh_duration :: "duration_value option"
  wh_transcript :: "string option"

record hook_answers =
  ha_now :: instant
  ha_suppression :: uuid
  ha_session :: uuid
  ha_analysis :: uuid
  ha_redis :: bool
  ha_repr :: "jval \<Rightarrow> string"
  ha_fetch :: "string \<Rightarrow> transcript_result"
  ha_others :: "db \<Rightarrow> db"

datatype webhook_error = Unprocessable | Not_found | Uncorrelated | Crashed

datatype webhook_outcome = Already_processed | Ended_normally | Dropped_mid_call | Never_connected | Non_final_ignored

type_synonym hook_result = "(webhook_error + uuid \<times> webhook_outcome) \<times> analysis_job option \<times> db \<times> schedule"

fun id_text :: "json_id \<Rightarrow> string" where
  "id_text (Id_int i) = int_text i"
| "id_text (Id_text s) = s"

fun id_truthy :: "json_id \<Rightarrow> bool" where
  "id_truthy (Id_int i) = (i \<noteq> 0)"
| "id_truthy (Id_text s) = (s \<noteq> [])"

fun j_id :: "json_id \<Rightarrow> jval" where
  "j_id (Id_int i) = JInt i"
| "j_id (Id_text s) = JStr s"

definition event_id_of :: "webhook \<Rightarrow> string" where
  "event_id_of p = ''dograh:'' @ (case wh_run p of
     Some r \<Rightarrow> if id_truthy r then id_text r else wh_attempt p | None \<Rightarrow> wh_attempt p)"

definition MAX_DURATION_SECONDS :: rat where "MAX_DURATION_SECONDS = 86400"

definition parse_duration :: "duration_value option \<Rightarrow> rat option" where
  "parse_duration v =
    (case (case v of None \<Rightarrow> None | Some (Dur_number x) \<Rightarrow> Some x | Some (Dur_text s) \<Rightarrow> py_float s) of
       Some (Finite x) \<Rightarrow> if x < 0 then None else Some (min x MAX_DURATION_SECONDS)
     | _ \<Rightarrow> None)"

definition parse_positive_int :: "json_id option \<Rightarrow> int option" where
  "parse_positive_int v =
    (case (case v of None \<Rightarrow> None | Some (Id_int i) \<Rightarrow> Some i | Some (Id_text s) \<Rightarrow> py_int 10 s) of
       Some i \<Rightarrow> if i > 0 then Some i else None
     | None \<Rightarrow> None)"

section \<open>Correlation\<close>

definition run_owned :: "uuid \<Rightarrow> string \<Rightarrow> db \<Rightarrow> bool" where
  "run_owned attempt run d \<longleftrightarrow> list_ex (\<lambda>b. a_provider_call_id b = Some run \<and> a_id b \<noteq> attempt) (attempts d)"

text \<open>The problem a webhook is rejected for.\<close>

definition validate_correlation :: "db \<Rightarrow> webhook \<Rightarrow> call_attempt \<Rightarrow> contact \<Rightarrow> bool \<Rightarrow> string option" where
  "validate_correlation d p a c unresolved =
    (if a_provider a \<notin> {None, Some ''dograh''} then Some ''attempt_not_dograh''
     else if wh_contact p \<notin> {None, Some (uuid_text (a_contact a))} then Some ''contact_mismatch''
     else if wh_campaign p \<notin> {None, Some (uuid_text (c_campaign c))} then Some ''campaign_mismatch''
     else case wh_run p of
       None \<Rightarrow> None
     | Some r \<Rightarrow>
         if a_provider_call_id a \<notin> {None, Some (id_text r)} then Some ''run_mismatch''
         else if (a_provider_call_id a = None \<or> unresolved) \<and> run_owned (a_id a) (id_text r) d
         then Some ''run_owned_by_other_attempt'' else None)"

definition hook_audit :: "string \<Rightarrow> uuid \<Rightarrow> payload \<Rightarrow> db \<Rightarrow> db" where
  "hook_audit action attempt meta d = record_audit_event ''dograh-webhook'' action ''call_attempt'' (Some attempt) meta d"

definition reject_correlation :: "webhook \<Rightarrow> call_attempt \<Rightarrow> string \<Rightarrow> db \<Rightarrow> db" where
  "reject_correlation p a problem = hook_audit ''dograh.webhook_correlation_rejected'' (a_id a)
     [(''problem'', JStr problem), (''workflow_run_id'', JStr (case wh_run p of None \<Rightarrow> ''None'' | Some r \<Rightarrow> id_text r))]"

section \<open>The loaded rows\<close>

type_synonym loaded = "call_attempt \<times> contact \<times> db"

definition on_attempt :: "(call_attempt \<Rightarrow> call_attempt) \<Rightarrow> loaded \<Rightarrow> loaded" where
  "on_attempt f s = (case s of (a, c, d) \<Rightarrow> (f a, c, upd_attempt (a_id a) f d))"

definition on_contact :: "(contact \<Rightarrow> contact) \<Rightarrow> loaded \<Rightarrow> loaded" where
  "on_contact f s = (case s of (a, c, d) \<Rightarrow> (a, f c, upd_contact (c_id c) f d))"

definition on_db :: "(call_attempt \<Rightarrow> contact \<Rightarrow> db \<Rightarrow> db) \<Rightarrow> loaded \<Rightarrow> loaded" where
  "on_db f s = (case s of (a, c, d) \<Rightarrow> (a, c, f a c d))"

definition set_run :: "webhook \<Rightarrow> call_attempt \<Rightarrow> call_attempt" where
  "set_run p a = (case wh_run p of None \<Rightarrow> a
     | Some r \<Rightarrow> a\<lparr> a_provider := Some ''dograh'', a_provider_call_id := Some (id_text r) \<rparr>)"

definition adopt_run :: "webhook \<Rightarrow> bool \<Rightarrow> loaded \<Rightarrow> loaded" where
  "adopt_run p unresolved s =
    (if \<not> unresolved \<and> a_provider_call_id (fst s) = None then on_attempt (set_run p) s else s)"

definition record_duration :: "webhook \<Rightarrow> loaded \<Rightarrow> loaded" where
  "record_duration p s = (case parse_duration (wh_duration p) of None \<Rightarrow> s
     | Some x \<Rightarrow> on_attempt (\<lambda>a. a\<lparr> a_duration := Some x \<rparr>) s)"

definition record_workflow :: "webhook \<Rightarrow> loaded \<Rightarrow> loaded" where
  "record_workflow p s = (case parse_positive_int (wh_workflow p) of None \<Rightarrow> s
     | Some i \<Rightarrow> if a_workflow_id (fst s) = None then on_attempt (\<lambda>a. a\<lparr> a_workflow_id := Some i \<rparr>) s else s)"

definition reopen_adopted :: "webhook \<Rightarrow> bool \<Rightarrow> loaded \<Rightarrow> loaded" where
  "reopen_adopted p unresolved s =
    (if unresolved
     then on_db (\<lambda>a c. hook_audit ''dograh.reconciliation_run_adopted'' (a_id a)
            [(''stage'', JStr ''webhook''), (''workflow_run_id'', case wh_run p of None \<Rightarrow> JNull | Some r \<Rightarrow> j_id r)])
          (on_attempt (set_run p)
            (on_contact (\<lambda>c. c\<lparr> c_status := C_DIALING \<rparr>)
              (on_attempt (\<lambda>a. a\<lparr> a_state := A_INITIATED, a_ended_at := None, a_conn_reason := None \<rparr>) s)))
     else s)"

definition suppress_for_opt_out :: "'p env \<Rightarrow> hook_answers \<Rightarrow> webhook \<Rightarrow> loaded \<Rightarrow> loaded" where
  "suppress_for_opt_out w an p s =
    (case s of (a, c, d) \<Rightarrow>
      case insert_if_absent w (ha_now an) (ha_suppression an) (c_number c) SUP_AGENT_IN_CALL
          (Some ''opt-out via Dograh call disposition'') (Some (c_id c)) None d of
        (inserted, d1) \<Rightarrow>
          on_db (\<lambda>a c d. if inserted = None then d
              else record_audit_event ''dograh-webhook'' ''dograh.opt_out_suppressed'' ''contact'' (Some (c_id c))
                [(''call_attempt_id'', JId (a_id a)), (''campaign_id'', JId (c_campaign c)),
                 (''call_disposition'', j_opt_str (wh_disposition p)), (''mapped_call_disposition'', j_opt_str (wh_mapped p))] d)
            (on_contact (\<lambda>c. c\<lparr> c_status := C_CLOSED \<rparr>) (a, c, d1)))"

text \<open>The bookkeeping of a claimed delivery, in the order of the code.\<close>

definition record_delivery :: "'p env \<Rightarrow> hook_answers \<Rightarrow> webhook \<Rightarrow> bool \<Rightarrow> bool \<Rightarrow> loaded \<Rightarrow> loaded" where
  "record_delivery w an p unresolved opted s =
    (let s1 = reopen_adopted p unresolved (record_workflow p (record_duration p (adopt_run p unresolved s)))
     in if opted then suppress_for_opt_out w an p s1 else s1)"

section \<open>The three outcomes\<close>

definition key_or :: "string option \<Rightarrow> string \<Rightarrow> string" where
  "key_or k dflt = (case k of Some x \<Rightarrow> if x \<noteq> [] then x else dflt | None \<Rightarrow> dflt)"

definition recover :: "'p env \<Rightarrow> hook_answers \<Rightarrow> campaign \<Rightarrow> bool \<Rightarrow> string \<Rightarrow> webhook_outcome \<Rightarrow> schedule \<Rightarrow> loaded \<Rightarrow> hook_result" where
  "recover w an camp never reason outcome sch s =
    (case s of (a, c, d) \<Rightarrow>
      case handle_disconnect w (ha_now an) (ha_analysis an) (ha_redis an) a c camp never reason None (d, sch) of
        (_, job, d', sch') \<Rightarrow> (Inr (a_id a, outcome), job, d', sch'))"

definition end_attempt :: "instant \<Rightarrow> attempt_state \<Rightarrow> (call_attempt \<Rightarrow> call_attempt) \<Rightarrow> loaded \<Rightarrow> loaded" where
  "end_attempt now st f s = on_attempt (\<lambda>a. (f a)\<lparr> a_state := st, a_ended_at := Some now \<rparr>) s"

definition finish_never :: "'p env \<Rightarrow> hook_answers \<Rightarrow> webhook \<Rightarrow> call_outcome \<Rightarrow> never_connected_reason \<Rightarrow> campaign \<Rightarrow>
    schedule \<Rightarrow> loaded \<Rightarrow> hook_result" where
  "finish_never w an p out reason camp sch s =
    recover w an camp True (key_or (co_key out) (never_connected_value reason)) Never_connected sch
      (on_db (\<lambda>a c. hook_audit ''call_attempt.never_connected_via_dograh_webhook'' (a_id a)
          [(''call_status'', j_opt_str (wh_status p)), (''reason'', JStr (never_connected_value reason)),
           (''classification'', JStr (if co_recognized out then ''recognized'' else ''unrecognized'')),
           (''basis'', JStr (co_basis out)), (''call_disposition'', j_opt_str (wh_disposition p))])
        (end_attempt (ha_now an) A_FAILED_TO_CONNECT (\<lambda>a. a\<lparr> a_conn_reason := Some reason \<rparr>) s))"

text \<open>One session per attempt is a unique constraint: a second INSERT raises.\<close>

definition open_session :: "hook_answers \<Rightarrow> webhook \<Rightarrow> loaded \<Rightarrow> loaded option" where
  "open_session an p s =
    (case s of (a, c, d) \<Rightarrow>
      if load_conversation_session (a_id a) d \<noteq> None then None
      else let d1 = d\<lparr> sessions := sessions d @ [\<lparr> cs_id = ha_session an, cs_attempt = a_id a, cs_status = CS_ENDED,
                   cs_started_at = ha_now an, cs_ended_at = Some (ha_now an), cs_transcript_status = None,
                   cs_transcript_reason = None, cs_transcript_url = None \<rparr>] \<rparr>
           in Some (a, c, case wh_transcript p of None \<Rightarrow> d1
                | Some url \<Rightarrow> if url = [] then d1
                    else apply_transcript_result (ha_repr an) (ha_session an) (ha_fetch an url) url d1))"

definition finish_ended :: "'p env \<Rightarrow> hook_answers \<Rightarrow> webhook \<Rightarrow> bool \<Rightarrow> schedule \<Rightarrow> loaded \<Rightarrow> hook_result" where
  "finish_ended w an p opted sch s =
    (let s1 = end_attempt (ha_now an) A_ENDED_NORMALLY id s;
         s2 = (if opted then s1 else on_contact (\<lambda>c. c\<lparr> c_status := C_COMPLETED \<rparr>) s1)
     in case s2 of (a, c, d) \<Rightarrow>
       (case enqueue_call_analysis (ev_settings w) id (ha_now an) (ha_analysis an) a c
           (hook_audit ''call_attempt.ended_normally_via_dograh_webhook'' (a_id a)
             [(''call_disposition'', j_opt_str (wh_disposition p))] d) of
          (job, d') \<Rightarrow> (Inr (a_id a, Ended_normally), job, d', sch)))"

definition finish_dropped :: "'p env \<Rightarrow> hook_answers \<Rightarrow> webhook \<Rightarrow> call_outcome \<Rightarrow> mid_call_reason \<Rightarrow> bool \<Rightarrow> campaign \<Rightarrow>
    schedule \<Rightarrow> loaded \<Rightarrow> hook_result" where
  "finish_dropped w an p out reason opted camp sch s =
    (let s1 = end_attempt (ha_now an) A_DROPPED_MID_CALL (\<lambda>a. a\<lparr> a_disc_reason := Some reason \<rparr>) s;
         s2 = (if opted then s1 else on_contact (\<lambda>c. c\<lparr> c_status := C_DISCONNECTED \<rparr>) s1)
     in recover w an camp False (key_or (co_key out) (mid_call_value reason)) Dropped_mid_call sch
          (on_db (\<lambda>a c. hook_audit ''call_attempt.dropped_mid_call_via_dograh_webhook'' (a_id a)
              [(''call_status'', j_opt_str (wh_status p)), (''reason'', JStr (mid_call_value reason)),
               (''basis'', JStr (co_basis out))]) s2))"

section \<open>The handler\<close>

definition terminal_states :: "attempt_state set" where
  "terminal_states = {A_ENDED_NORMALLY, A_DROPPED_MID_CALL, A_FAILED_TO_CONNECT}"

text \<open>What follows a won claim. \<open>d0\<close> is the committed database: what a crash (an assertion, a unique constraint)
  rolls back to. The unique index on the run id speaks when the attempt is written.\<close>

definition complete_call :: "'p env \<Rightarrow> hook_answers \<Rightarrow> webhook \<Rightarrow> call_outcome \<Rightarrow> bool \<Rightarrow> campaign \<Rightarrow> db \<Rightarrow> schedule \<Rightarrow>
    loaded \<Rightarrow> hook_result" where
  "complete_call w an p out unresolved camp d0 sch s =
    (let opted = is_opt_out (wh_disposition p) (wh_mapped p) (st_opt_out_dispositions (ev_settings w));
         s1 = record_delivery w an p unresolved opted s;
         crash = (Inl Crashed, None, d0, sch) in
     if (case a_provider_call_id (fst s1) of None \<Rightarrow> False | Some run \<Rightarrow> run_owned (a_id (fst s1)) run (snd (snd s1)))
     then crash
     else if co_state out = A_FAILED_TO_CONNECT
     then (case co_never out of None \<Rightarrow> crash | Some r \<Rightarrow> finish_never w an p out r camp sch s1)
     else case open_session an p s1 of
       None \<Rightarrow> crash
     | Some s2 \<Rightarrow>
         if co_state out = A_ENDED_NORMALLY then finish_ended w an p opted sch s2
         else (case co_mid out of None \<Rightarrow> crash | Some r \<Rightarrow> finish_dropped w an p out r opted camp sch s2))"

definition process_loaded :: "'p env \<Rightarrow> hook_answers \<Rightarrow> webhook \<Rightarrow> call_attempt \<Rightarrow> contact \<Rightarrow> campaign \<Rightarrow> db \<times> schedule \<Rightarrow>
    hook_result" where
  "process_loaded w an p a c camp s =
    (case s of (d, sch) \<Rightarrow>
      let unresolved = is_unresolved_ambiguous_trigger a d;
          out = classify_call_outcome (wh_status p) (wh_disposition p) in
      case validate_correlation d p a c unresolved of
        Some problem \<Rightarrow> (Inl Uncorrelated, None, reject_correlation p a problem d, sch)
      | None \<Rightarrow>
          if \<not> unresolved \<and> a_state a \<in> terminal_states
          then (Inr (a_id a, Already_processed), None,
            hook_audit ''dograh.invalid_provider_transition'' (a_id a)
              [(''from_state'', JStr (attempt_state_value (a_state a))), (''call_status'', j_opt_str (wh_status p))] d, sch)
          else if co_non_final out then (Inr (a_id a, Non_final_ignored), None, d, sch)
          else case claim_event (ha_now an) (event_id_of p) ''dograh.call_completed'' (ha_others an d) of
              (False, d1) \<Rightarrow> (Inr (a_id a, Already_processed), None, d1, sch)
            | (True, d1) \<Rightarrow> complete_call w an p out unresolved camp (ha_others an d) sch (a, c, d1))"

definition process_dograh_webhook :: "'p env \<Rightarrow> hook_answers \<Rightarrow> webhook \<Rightarrow> db \<times> schedule \<Rightarrow> hook_result" where
  "process_dograh_webhook w an p s =
    (case s of (d, sch) \<Rightarrow>
      if get_row pe_event_id (event_id_of p) (processed d) \<noteq> None
      then (Inr (case parse_uuid (wh_attempt p) of None \<Rightarrow> 0 | Some i \<Rightarrow> i, Already_processed), None, d, sch)
      else case parse_uuid (wh_attempt p) of
        None \<Rightarrow> (Inl Unprocessable, None, d, sch)
      | Some i \<Rightarrow>
          (case get_attempt i d of
             None \<Rightarrow> (Inl Not_found, None, d, sch)
           | Some a \<Rightarrow>
              (case get_contact (a_contact a) d of
                 None \<Rightarrow> (Inl Not_found, None, d, sch)
               | Some c \<Rightarrow>
                  (case get_campaign (c_campaign c) d of
                     None \<Rightarrow> (Inl Not_found, None, d, sch)
                   | Some camp \<Rightarrow> process_loaded w an p a c camp (d, sch)))))"

end
