(* ===== verification/Webhook_Facts.thy ===== *)
theory Webhook_Facts imports Dograh_Webhook Dialer_Safety begin

text \<open>
  What the completion webhook guarantees: an event is processed once, a refused or repeated delivery changes
  nothing but the audit trail, a processed one settles its own attempt and contact and no other row, and an
  opt-out ends the calling of the number.
\<close>

section \<open>The loaded rows and the database agree\<close>

text \<open>The bookkeeping touches the loaded attempt and contact only, and leaves database and memory in step.\<close>

definition keeps_call :: "loaded \<Rightarrow> loaded \<Rightarrow> bool" where
  "keeps_call s s' \<longleftrightarrow> (case (s, s') of ((a, c, d), (a', c', d')) \<Rightarrow>
    a_id a' = a_id a \<and> a_contact a' = a_contact a \<and> a_number a' = a_number a \<and>
    c_id c' = c_id c \<and> c_number c' = c_number c \<and> c_campaign c' = c_campaign c \<and>
    (get_attempt (a_id a) d = Some a \<longrightarrow> get_attempt (a_id a) d' = Some a') \<and>
    (get_contact (c_id c) d = Some c \<longrightarrow> get_contact (c_id c) d' = Some c') \<and>
    (\<forall>j. j \<noteq> a_id a \<longrightarrow> get_attempt j d' = get_attempt j d) \<and>
    (\<forall>j. j \<noteq> c_id c \<longrightarrow> get_contact j d' = get_contact j d) \<and>
    processed d' = processed d \<and> campaigns d' = campaigns d \<and> policies d' = policies d)"

lemma keeps_call_refl [simp]: "keeps_call s s"
  by (cases s) (simp add: keeps_call_def)

lemma keeps_call_trans: "keeps_call s s1 \<Longrightarrow> keeps_call s1 s2 \<Longrightarrow> keeps_call s s2"
  by (cases s; cases s1; cases s2) (simp add: keeps_call_def)

lemma keeps_on_attempt:
  "(\<And>a. a_id (f a) = a_id a \<and> a_contact (f a) = a_contact a \<and> a_number (f a) = a_number a) \<Longrightarrow> keeps_call s (on_attempt f s)"
  by (cases s) (auto simp: keeps_call_def on_attempt_def get_attempt_upd)

lemma keeps_on_contact:
  "(\<And>c. c_id (f c) = c_id c \<and> c_number (f c) = c_number c \<and> c_campaign (f c) = c_campaign c) \<Longrightarrow> keeps_call s (on_contact f s)"
  by (cases s) (auto simp: keeps_call_def on_contact_def get_contact_upd)

lemma keeps_on_db:
  "(\<And>a c d. attempts (f a c d) = attempts d \<and> contacts (f a c d) = contacts d \<and> processed (f a c d) = processed d \<and>
     campaigns (f a c d) = campaigns d \<and> policies (f a c d) = policies d) \<Longrightarrow> keeps_call s (on_db f s)"
  by (cases s) (auto simp: keeps_call_def on_db_def get_attempt_def get_contact_def)

lemma hook_audit_frame [simp]:
  "attempts (hook_audit x i m d) = attempts d" "contacts (hook_audit x i m d) = contacts d"
  "processed (hook_audit x i m d) = processed d" "campaigns (hook_audit x i m d) = campaigns d"
  "policies (hook_audit x i m d) = policies d" "suppressions (hook_audit x i m d) = suppressions d"
  "events (hook_audit x i m d) = events d" "sessions (hook_audit x i m d) = sessions d"
  "messages (hook_audit x i m d) = messages d" "controls (hook_audit x i m d) = controls d"
  "analyses (hook_audit x i m d) = analyses d" "snapshots (hook_audit x i m d) = snapshots d"
  "budget_days (hook_audit x i m d) = budget_days d"
  by (simp_all add: hook_audit_def)

lemma set_run_sel [simp]:
  "a_id (set_run p a) = a_id a" "a_contact (set_run p a) = a_contact a" "a_number (set_run p a) = a_number a"
  "a_state (set_run p a) = a_state a" "a_ended_at (set_run p a) = a_ended_at a"
  "a_conn_reason (set_run p a) = a_conn_reason a" "a_disc_reason (set_run p a) = a_disc_reason a"
  "a_provider_call_id (set_run p a) = (case wh_run p of None \<Rightarrow> a_provider_call_id a | Some r \<Rightarrow> Some (id_text r))"
  by (simp_all add: set_run_def split: option.splits)

lemma insert_if_absent_db: "insert_if_absent w now i n src r c b d = (x, d1) \<Longrightarrow>
    attempts d1 = attempts d \<and> contacts d1 = contacts d \<and> processed d1 = processed d \<and> campaigns d1 = campaigns d \<and>
    policies d1 = policies d \<and> events d1 = events d"
  by (auto simp: insert_if_absent_def Let_def split: if_splits)

lemma keeps_suppress: "keeps_call s (suppress_for_opt_out w an p s)"
proof (cases s)
  case (fields a c d)
  obtain x d1 where i: "insert_if_absent w (ha_now an) (ha_suppression an) (c_number c) SUP_AGENT_IN_CALL
          (Some ''opt-out via Dograh call disposition'') (Some (c_id c)) None d = (x, d1)" by (metis surj_pair)
  have "keeps_call s (a, c, d1)"
    using insert_if_absent_db [OF i] fields by (auto simp: keeps_call_def get_attempt_def get_contact_def)
  then show ?thesis unfolding suppress_for_opt_out_def fields using i
    by (auto intro!: keeps_call_trans [OF _ keeps_call_trans [OF keeps_on_contact keeps_on_db]])
qed

lemma keeps_bookkeeping: "keeps_call s (reopen_adopted p u (record_workflow p (record_duration p (adopt_run p u s))))"
proof -
  have 1: "keeps_call s (adopt_run p u s)" for s by (simp add: adopt_run_def keeps_on_attempt)
  have 2: "keeps_call s (record_duration p s)" for s by (simp add: record_duration_def keeps_on_attempt split: option.splits)
  have 3: "keeps_call s (record_workflow p s)" for s by (simp add: record_workflow_def keeps_on_attempt split: option.splits)
  have 4: "keeps_call s (reopen_adopted p u s)" for s unfolding reopen_adopted_def
    by (auto intro!: keeps_call_trans [OF keeps_call_trans [OF keeps_call_trans [OF keeps_on_attempt keeps_on_contact] keeps_on_attempt] keeps_on_db])
  show ?thesis by (rule keeps_call_trans [OF keeps_call_trans [OF keeps_call_trans [OF 1 2] 3] 4])
qed

lemma keeps_record_delivery: "keeps_call s (record_delivery w an p u opted s)"
  unfolding record_delivery_def Let_def
  by (cases opted) (simp_all only: if_True if_False keeps_bookkeeping keeps_call_trans [OF keeps_bookkeeping keeps_suppress])

text \<open>What the bookkeeping leaves in the loaded rows.\<close>

lemma on_sel [simp]:
  "fst (on_attempt f s) = f (fst s)" "fst (snd (on_attempt f s)) = fst (snd s)"
  "fst (on_contact g s) = fst s" "fst (snd (on_contact g s)) = g (fst (snd s))"
  "fst (on_db h s) = fst s" "fst (snd (on_db h s)) = fst (snd s)"
  by (cases s; simp add: on_attempt_def on_contact_def on_db_def)+

lemma suppress_sel [simp]:
  "fst (suppress_for_opt_out w an p s) = fst s"
  "fst (snd (suppress_for_opt_out w an p s)) = (fst (snd s))\<lparr> c_status := C_CLOSED \<rparr>"
  by (cases s; simp add: suppress_for_opt_out_def split: prod.splits)+

lemma record_duration_sel [simp]:
  "a_state (fst (record_duration p s)) = a_state (fst s)" "a_ended_at (fst (record_duration p s)) = a_ended_at (fst s)" "a_conn_reason (fst (record_duration p s)) = a_conn_reason (fst s)" "a_disc_reason (fst (record_duration p s)) = a_disc_reason (fst s)" "a_provider_call_id (fst (record_duration p s)) = a_provider_call_id (fst s)"
  "fst (snd (record_duration p s)) = fst (snd s)"
  by (simp_all add: record_duration_def split: option.split)

lemma record_workflow_sel [simp]:
  "a_state (fst (record_workflow p s)) = a_state (fst s)" "a_ended_at (fst (record_workflow p s)) = a_ended_at (fst s)" "a_conn_reason (fst (record_workflow p s)) = a_conn_reason (fst s)" "a_disc_reason (fst (record_workflow p s)) = a_disc_reason (fst s)" "a_provider_call_id (fst (record_workflow p s)) = a_provider_call_id (fst s)"
  "fst (snd (record_workflow p s)) = fst (snd s)"
  by (simp_all add: record_workflow_def split: option.split)

lemma adopt_run_sel [simp]:
  "a_state (fst (adopt_run p u s)) = a_state (fst s)" "a_ended_at (fst (adopt_run p u s)) = a_ended_at (fst s)" "a_conn_reason (fst (adopt_run p u s)) = a_conn_reason (fst s)" "a_disc_reason (fst (adopt_run p u s)) = a_disc_reason (fst s)"
  "a_provider_call_id (fst (adopt_run p u s)) = (if \<not> u \<and> a_provider_call_id (fst s) = None
     then a_provider_call_id (set_run p (fst s)) else a_provider_call_id (fst s))"
  "fst (snd (adopt_run p u s)) = fst (snd s)"
  by (simp_all add: adopt_run_def)

lemma reopen_adopted_sel [simp]:
  "a_state (fst (reopen_adopted p u s)) = (if u then A_INITIATED else a_state (fst s))"
  "a_ended_at (fst (reopen_adopted p u s)) = (if u then None else a_ended_at (fst s))"
  "a_conn_reason (fst (reopen_adopted p u s)) = (if u then None else a_conn_reason (fst s))"
  "a_disc_reason (fst (reopen_adopted p u s)) = a_disc_reason (fst s)"
  "a_provider_call_id (fst (reopen_adopted p u s)) = (case wh_run p of None \<Rightarrow> a_provider_call_id (fst s)
     | Some r \<Rightarrow> if u then Some (id_text r) else a_provider_call_id (fst s))"
  "c_status (fst (snd (reopen_adopted p u s))) = (if u then C_DIALING else c_status (fst (snd s)))"
  by (simp_all add: reopen_adopted_def split: option.split)

lemma record_delivery_sel:
  "a_state (fst (record_delivery w an p u opted s)) = (if u then A_INITIATED else a_state (fst s))"
  "a_ended_at (fst (record_delivery w an p u opted s)) = (if u then None else a_ended_at (fst s))"
  "a_conn_reason (fst (record_delivery w an p u opted s)) = (if u then None else a_conn_reason (fst s))"
  "a_disc_reason (fst (record_delivery w an p u opted s)) = a_disc_reason (fst s)"
  "a_provider_call_id (fst (record_delivery w an p u opted s)) = (if u \<or> a_provider_call_id (fst s) = None
      then case wh_run p of None \<Rightarrow> a_provider_call_id (fst s) | Some r \<Rightarrow> Some (id_text r) else a_provider_call_id (fst s))"
  "c_status (fst (snd (record_delivery w an p u opted s))) =
    (if opted then C_CLOSED else if u then C_DIALING else c_status (fst (snd s)))"
  by (simp_all add: record_delivery_def Let_def split: option.split)

section \<open>Recovery and analysis touch one contact\<close>

lemma terminalize_frame:
  assumes "terminalize st now aid a c reason d = (job, d')"
  shows "attempts d' = attempts d \<and> processed d' = processed d \<and> suppressions d' = suppressions d \<and>
    (\<forall>j. j \<noteq> c_id c \<longrightarrow> get_contact j d' = get_contact j d)"
proof -
  let ?f = "if reason = ''suppressed'' then id else (\<lambda>r. r\<lparr> c_status := C_COMPLETED_PARTIAL \<rparr>)"
  let ?d = "upd_contact (c_id c) ?f (record_audit_event ''recovery-manager'' ''recovery.terminalized'' ''call_attempt'' (Some (a_id a))
    [(''reason'', JStr reason)] (add_call_event (a_id a) ''RECOVERY_TERMINALIZED'' [(''reason'', JStr reason)] d))"
  have "enqueue_call_analysis st id now aid a (?f c) ?d = (job, d')" using assms by (simp add: terminalize_def Let_def)
  from enqueue_call_analysis_frame [OF this] show ?thesis
    by (simp add: get_contact_def) (simp add: upd_contact_def get_upd_row get_contact_def)
qed

lemma handle_disconnect_frame:
  assumes "handle_disconnect w now aid up a c camp never reason ra (d, sch) = (dec, job, d', sch')"
  shows "attempts d' = attempts d \<and> processed d' = processed d \<and> suppressions d' = suppressions d \<and>
    (\<forall>j. j \<noteq> c_id c \<longrightarrow> get_contact j d' = get_contact j d)"
proof -
  have "attempts y = attempts x \<and> processed y = processed x \<and> suppressions y = suppressions x \<and>
    (\<forall>j. j \<noteq> c_id c \<longrightarrow> get_contact j y = get_contact j x)" if "schedule_retry now up a c camp dec (x, sch) = (y, z)" for dec x y z
    using that by (auto simp: schedule_retry_def Let_def get_contact_upd)
  then show ?thesis using assms
    by (auto simp: handle_disconnect_def Let_def split: if_splits prod.splits dest!: terminalize_frame)
qed

text \<open>A closed contact is left closed and nothing is scheduled for it.\<close>

lemma handle_disconnect_closed:
  assumes "handle_disconnect w now aid up a c camp never reason ra (d, sch) = (dec, job, d', sch')" "c_status c = C_CLOSED"
    and "get_contact (c_id c) d = Some c"
  shows "get_contact (c_id c) d' = Some c \<and> sch' = sch \<and> \<not> dec_retry dec \<and> job = None"
proof -
  have t: "terminalize (ev_settings w) now aid a c ''suppressed'' d = (job, d')" "sch' = sch" "dec = no_retry ''suppressed''"
    using assms(1,2) by (auto simp: handle_disconnect_def Let_def split: prod.splits)
  have "job = None" using t(1) assms(2)
    by (simp add: terminalize_def Let_def enqueue_call_analysis_def is_eligible_def)
  then show ?thesis using terminalize_contact [OF t(1) assms(3)] t by simp
qed

lemma handle_disconnect_status:
  assumes "handle_disconnect w now aid up a c camp never reason ra (d, sch) = (dec, job, d', sch')"
    and "get_contact (c_id c) d = Some c"
  shows "\<exists>c'. get_contact (c_id c) d' = Some c' \<and> c_status c' \<in> {C_RETRY_SCHEDULED, C_COMPLETED_PARTIAL, c_status c} \<and>
    (c_status c' = C_RETRY_SCHEDULED \<longrightarrow> dec_retry dec \<or> c_status c = C_RETRY_SCHEDULED)"
proof -
  have "get_contact (c_id c) y \<noteq> None \<and> c_status (the (get_contact (c_id c) y)) = C_RETRY_SCHEDULED"
    if "schedule_retry now up a c camp x (d, sch) = (y, z)" for x y z
    using that assms(2) by (auto simp: schedule_retry_def Let_def get_contact_upd)
  then show ?thesis using assms(1)
    by (fastforce simp: handle_disconnect_def Let_def split: if_splits prod.splits dest!: terminalize_contact [OF _ assms(2)])
qed

section \<open>What a finished call leaves behind\<close>

definition final_outcomes :: "webhook_outcome set" where
  "final_outcomes = {Ended_normally, Dropped_mid_call, Never_connected}"

text \<open>Database and loaded rows in step.\<close>

definition in_step :: "loaded \<Rightarrow> bool" where
  "in_step s \<longleftrightarrow> (case s of (a, c, d) \<Rightarrow> get_attempt (a_id a) d = Some a \<and> get_contact (c_id c) d = Some c)"

lemma in_step_keeps: "keeps_call s s' \<Longrightarrow> in_step s \<Longrightarrow> in_step s'"
  by (cases s; cases s') (auto simp: keeps_call_def in_step_def)

lemma keeps_end_attempt: "keeps_call s (end_attempt now st f s)"
  if "\<And>a. a_id (f a) = a_id a \<and> a_contact (f a) = a_contact a \<and> a_number (f a) = a_number a"
  unfolding end_attempt_def using that by (intro keeps_on_attempt) simp

lemma end_attempt_sel [simp]:
  "a_state (fst (end_attempt now st f s)) = st" "a_ended_at (fst (end_attempt now st f s)) = Some now"
  "fst (snd (end_attempt now st f s)) = fst (snd s)"
  by (simp_all add: end_attempt_def)

lemma keeps_open_session: "open_session an p s = Some s' \<Longrightarrow> keeps_call s s' \<and> fst s' = fst s \<and> fst (snd s') = fst (snd s)"
  by (cases s) (auto simp: open_session_def keeps_call_def Let_def get_attempt_def get_contact_def split: if_splits option.splits)

text \<open>What a settled delivery left of the rows loaded in \<open>s0\<close>: \<open>a\<close> is the attempt as it was written.\<close>

definition settled_as :: "loaded \<Rightarrow> call_attempt \<Rightarrow> attempt_state \<Rightarrow> instant \<Rightarrow> db \<Rightarrow> bool" where
  "settled_as s0 a st now d' \<longleftrightarrow> (case s0 of (a0, c0, d0) \<Rightarrow>
     processed d' = processed d0 \<and>
     (\<forall>j. j \<noteq> a_id a0 \<longrightarrow> get_attempt j d' = get_attempt j d0) \<and> (\<forall>j. j \<noteq> c_id c0 \<longrightarrow> get_contact j d' = get_contact j d0) \<and>
     (in_step s0 \<longrightarrow> get_attempt (a_id a0) d' = Some a) \<and> a_state a = st \<and> a_ended_at a = Some now)"

lemma recover_settles:
  assumes "recover w an camp never reason outcome sch s = (r, job, d', sch')"
    and "keeps_call s0 s" "fst s = a" "a_state a = st" "a_ended_at a = Some now"
  shows "settled_as s0 a st now d' \<and> r = Inr (a_id (fst s0), outcome)"
proof -
  obtain c d where s: "s = (a, c, d)" using assms(3) by (cases s) simp
  obtain a0 c0 d0 where s0: "s0 = (a0, c0, d0)" by (cases s0)
  obtain dec where h: "handle_disconnect w (ha_now an) (ha_analysis an) (ha_redis an) a c camp never reason None (d, sch) =
      (dec, job, d', sch')" "r = Inr (a_id a, outcome)"
    using assms(1) by (auto simp: recover_def s split: prod.splits)
  from handle_disconnect_frame [OF h(1)] assms(2-5) h(2) show ?thesis
    by (auto simp: settled_as_def s s0 keeps_call_def in_step_def get_attempt_def)
qed

lemma finish_never_settles:
  assumes "finish_never w an p out reason camp sch s = (r, job, d', sch')" "keeps_call s0 s"
  shows "settled_as s0 ((fst s)\<lparr> a_conn_reason := Some reason, a_state := A_FAILED_TO_CONNECT, a_ended_at := Some (ha_now an) \<rparr>)
      A_FAILED_TO_CONNECT (ha_now an) d' \<and> r = Inr (a_id (fst s0), Never_connected)"
  using assms(1) unfolding finish_never_def
  by (rule recover_settles)
    (rule keeps_call_trans [OF keeps_call_trans [OF assms(2) keeps_end_attempt] keeps_on_db], simp_all add: end_attempt_def)

lemma keeps_finish_contact:
  assumes "keeps_call s0 s" and "\<And>a. a_id (f a) = a_id a \<and> a_contact (f a) = a_contact a \<and> a_number (f a) = a_number a"
  shows "keeps_call s0 (if opted then end_attempt now st f s else on_contact (\<lambda>c. c\<lparr> c_status := cs \<rparr>) (end_attempt now st f s))"
  using keeps_call_trans [OF keeps_call_trans [OF assms(1) keeps_end_attempt [OF assms(2)]] keeps_on_contact]
    keeps_call_trans [OF assms(1) keeps_end_attempt [OF assms(2)]] by simp

lemma finish_dropped_settles:
  assumes "finish_dropped w an p out reason opted camp sch s = (r, job, d', sch')" "keeps_call s0 s"
  shows "settled_as s0 ((fst s)\<lparr> a_disc_reason := Some reason, a_state := A_DROPPED_MID_CALL, a_ended_at := Some (ha_now an) \<rparr>)
      A_DROPPED_MID_CALL (ha_now an) d' \<and> r = Inr (a_id (fst s0), Dropped_mid_call)"
  using assms(1) unfolding finish_dropped_def Let_def
  by (rule recover_settles)
    (rule keeps_call_trans [OF keeps_finish_contact [OF assms(2)] keeps_on_db], simp_all add: end_attempt_def)

lemma finish_ended_settles:
  assumes "finish_ended w an p opted sch s = (r, job, d', sch')" "keeps_call s0 s"
  shows "settled_as s0 ((fst s)\<lparr> a_state := A_ENDED_NORMALLY, a_ended_at := Some (ha_now an) \<rparr>) A_ENDED_NORMALLY (ha_now an) d' \<and>
    r = Inr (a_id (fst s0), Ended_normally) \<and> sch' = sch"
proof -
  let ?e = "end_attempt (ha_now an) A_ENDED_NORMALLY id s"
  let ?s2 = "if opted then ?e else on_contact (\<lambda>c. c\<lparr> c_status := C_COMPLETED \<rparr>) ?e"
  obtain a c d where s2: "?s2 = (a, c, d)" by (cases ?s2)
  obtain a0 c0 d0 where s0: "s0 = (a0, c0, d0)" by (cases s0)
  have a: "a = (fst s)\<lparr> a_state := A_ENDED_NORMALLY, a_ended_at := Some (ha_now an) \<rparr>"
    using arg_cong [OF s2, of fst] by (simp add: end_attempt_def split: if_splits)
  have k: "keeps_call s0 (a, c, d)" using keeps_finish_contact [OF assms(2), of id] unfolding s2 [symmetric] by simp
  obtain d2 where e: "enqueue_call_analysis (ev_settings w) id (ha_now an) (ha_analysis an) a c d2 = (job, d')"
    "attempts d2 = attempts d" "contacts d2 = contacts d" "processed d2 = processed d" "r = Inr (a_id a, Ended_normally)" "sch' = sch"
    using assms(1) unfolding finish_ended_def Let_def s2 by (auto split: prod.splits)
  from enqueue_call_analysis_frame [OF e(1)] k e(2-6) show ?thesis
    by (auto simp: settled_as_def s0 a keeps_call_def in_step_def get_attempt_def get_contact_def)
qed

text \<open>A delivery that won the claim: a crash that rolls everything back, or one of the three outcomes.\<close>

fun outcome_state :: "webhook_outcome \<Rightarrow> attempt_state" where
  "outcome_state Ended_normally = A_ENDED_NORMALLY"
| "outcome_state Dropped_mid_call = A_DROPPED_MID_CALL"
| "outcome_state _ = A_FAILED_TO_CONNECT"

text \<open>The shape of an attempt: it is ended exactly in a terminal state, a reason for not connecting belongs to a
  failed connect, and a reason for the disconnect to a dropped call.\<close>

definition attempt_shape :: "call_attempt \<Rightarrow> bool" where
  "attempt_shape a \<longleftrightarrow> (a_ended_at a \<noteq> None) = (a_state a \<in> terminal_states) \<and>
    (a_conn_reason a \<noteq> None \<longrightarrow> a_state a = A_FAILED_TO_CONNECT) \<and>
    (a_disc_reason a \<noteq> None) = (a_state a = A_DROPPED_MID_CALL)"

lemma complete_call_cases:
  assumes "complete_call w an p out u camp d0 sch s0 = (r, job, d', sch')"
    and "s1 = record_delivery w an p u (is_opt_out (wh_disposition p) (wh_mapped p) (st_opt_out_dispositions (ev_settings w))) s0"
  obtains (crash) "r = Inl Crashed" "job = None" "d' = d0" "sch' = sch"
    | (settled) a o' where "r = Inr (a_id (fst s0), o')" "o' \<in> final_outcomes" "settled_as s0 a (outcome_state o') (ha_now an) d'"
        "a_provider_call_id a = a_provider_call_id (fst s1)"
        "(o' = Ended_normally) = (co_state out = A_ENDED_NORMALLY)" "(o' = Never_connected) = (co_state out = A_FAILED_TO_CONNECT)"
        "o' = Ended_normally \<longrightarrow> sch' = sch"
        "attempt_shape (fst s1) \<and> a_state (fst s1) \<notin> terminal_states \<longrightarrow> attempt_shape a"
proof -
  let ?opted = "is_opt_out (wh_disposition p) (wh_mapped p) (st_opt_out_dispositions (ev_settings w))"
  have k: "keeps_call s0 s1" unfolding assms(2) by (rule keeps_record_delivery)
  note c = assms(1) [unfolded complete_call_def Let_def, folded assms(2)]
  show thesis
  proof (cases "case a_provider_call_id (fst s1) of None \<Rightarrow> False | Some run \<Rightarrow> run_owned (a_id (fst s1)) run (snd (snd s1))")
    case True
    then show thesis using c crash by simp
  next
    case no: False
    note c = c [unfolded if_not_P [OF no]]
    show thesis
    proof (cases "co_state out = A_FAILED_TO_CONNECT")
      case failed: True
      show thesis
      proof (cases "co_never out")
        case None
        then show thesis using c failed crash by simp
      next
        case (Some q)
        with c failed have "finish_never w an p out q camp sch s1 = (r, job, d', sch')" by simp
        from finish_never_settles [OF this k] show thesis using failed
          by (intro settled [where a = "(fst s1)\<lparr> a_conn_reason := Some q, a_state := A_FAILED_TO_CONNECT, a_ended_at := Some (ha_now an) \<rparr>"])
            (auto simp: final_outcomes_def attempt_shape_def terminal_states_def)
      qed
    next
      case nf: False
      note c = c [unfolded if_not_P [OF nf]]
      show thesis
      proof (cases "open_session an p s1")
        case None
        then show thesis using c crash by simp
      next
        case (Some s2)
        have k2: "keeps_call s0 s2" "fst s2 = fst s1" using keeps_open_session [OF Some] keeps_call_trans [OF k] by auto
        show thesis
        proof (cases "co_state out = A_ENDED_NORMALLY")
          case True
          with c Some have "finish_ended w an p ?opted sch s2 = (r, job, d', sch')" by simp
          from finish_ended_settles [OF this k2(1)] show thesis using True k2(2)
            by (intro settled [where a = "(fst s2)\<lparr> a_state := A_ENDED_NORMALLY, a_ended_at := Some (ha_now an) \<rparr>"])
              (auto simp: final_outcomes_def attempt_shape_def terminal_states_def)
        next
          case ne: False
          show thesis
          proof (cases "co_mid out")
            case None
            then show thesis using c Some ne crash by simp
          next
            case mid: (Some q)
            with c Some ne have "finish_dropped w an p out q ?opted camp sch s2 = (r, job, d', sch')" by simp
            from finish_dropped_settles [OF this k2(1)] show thesis using ne nf k2(2)
              by (intro settled [where a = "(fst s2)\<lparr> a_disc_reason := Some q, a_state := A_DROPPED_MID_CALL, a_ended_at := Some (ha_now an) \<rparr>"])
                (auto simp: final_outcomes_def attempt_shape_def terminal_states_def)
          qed
        qed
      qed
    qed
  qed
qed

lemma claim_event_Some: "claim_event now e ty d = (True, d1) \<Longrightarrow>
    get_row pe_event_id e (processed d) = None \<and> get_row pe_event_id e (processed d1) \<noteq> None \<and>
    attempts d1 = attempts d \<and> contacts d1 = contacts d"
  by (auto simp: claim_event_def get_row_snoc split: if_splits)

lemma claim_event_lost: "claim_event now e ty d = (False, d1) \<Longrightarrow> d1 = d"
  by (auto simp: claim_event_def split: if_splits)

text \<open>The way to a final outcome.\<close>

lemma process_final:
  assumes "process_dograh_webhook w an p (d, sch) = (Inr (i, o'), job, d', sch')" "o' \<in> final_outcomes"
  obtains a c camp d1 where "parse_uuid (wh_attempt p) = Some i" "get_attempt i d = Some a" "get_contact (a_contact a) d = Some c"
    "get_campaign (c_campaign c) d = Some camp" "get_row pe_event_id (event_id_of p) (processed d) = None"
    "validate_correlation d p a c (is_unresolved_ambiguous_trigger a d) = None"
    "is_unresolved_ambiguous_trigger a d \<or> a_state a \<notin> terminal_states"
    "claim_event (ha_now an) (event_id_of p) ''dograh.call_completed'' (ha_others an d) = (True, d1)"
    "complete_call w an p (classify_call_outcome (wh_status p) (wh_disposition p)) (is_unresolved_ambiguous_trigger a d) camp
      (ha_others an d) sch (a, c, d1) = (Inr (i, o'), job, d', sch')"
    "\<not> co_non_final (classify_call_outcome (wh_status p) (wh_disposition p))"
proof -
  obtain k a c camp where f: "parse_uuid (wh_attempt p) = Some k" "get_attempt k d = Some a" "get_contact (a_contact a) d = Some c"
    "get_campaign (c_campaign c) d = Some camp" "get_row pe_event_id (event_id_of p) (processed d) = None"
    "process_loaded w an p a c camp (d, sch) = (Inr (i, o'), job, d', sch')"
    using assms by (auto simp: process_dograh_webhook_def final_outcomes_def split: if_splits option.splits)
  have "a_id a = k" using f(2) by (rule get_attempt_id)
  obtain d1 where g: "validate_correlation d p a c (is_unresolved_ambiguous_trigger a d) = None"
    "is_unresolved_ambiguous_trigger a d \<or> a_state a \<notin> terminal_states"
    "claim_event (ha_now an) (event_id_of p) ''dograh.call_completed'' (ha_others an d) = (True, d1)"
    "complete_call w an p (classify_call_outcome (wh_status p) (wh_disposition p)) (is_unresolved_ambiguous_trigger a d) camp
      (ha_others an d) sch (a, c, d1) = (Inr (i, o'), job, d', sch')"
    "\<not> co_non_final (classify_call_outcome (wh_status p) (wh_disposition p))"
    using f(6) assms(2) by (auto simp: process_loaded_def Let_def final_outcomes_def split: if_splits option.splits bool.splits prod.splits)
  have "i = k" using complete_call_cases [OF g(4) refl] \<open>a_id a = k\<close> by auto
  then show thesis using that f g by blast
qed

end
