(* ===== verification/Webhook_Contract.thy ===== *)
theory Webhook_Contract imports Webhook_Facts begin

text \<open>
  The properties of the completion webhook, over \<open>Webhook_Facts\<close>.
\<close>

section \<open>Once\<close>

lemma settled_processed: "settled_as (a, c, d) a' st now d' \<Longrightarrow> processed d' = processed d"
  by (simp add: settled_as_def)

lemma webhook_claims:
  assumes "process_dograh_webhook w an p (d, sch) = (Inr (i, o'), job, d', sch')" "o' \<in> final_outcomes"
  shows "get_row pe_event_id (event_id_of p) (processed d) = None \<and> get_row pe_event_id (event_id_of p) (processed d') \<noteq> None"
proof -
  obtain a c camp d1 where f:
    "get_row pe_event_id (event_id_of p) (processed d) = None"
    "claim_event (ha_now an) (event_id_of p) ''dograh.call_completed'' (ha_others an d) = (True, d1)"
    "complete_call w an p (classify_call_outcome (wh_status p) (wh_disposition p)) (is_unresolved_ambiguous_trigger a d) camp
      (ha_others an d) sch (a, c, d1) = (Inr (i, o'), job, d', sch')" by (rule process_final [OF assms]) (rule that)
  have "processed d' = processed d1"
  proof (rule complete_call_cases [OF f(3) refl])
    fix a' x assume "settled_as (a, c, d1) a' (outcome_state x) (ha_now an) d'"
    then show ?thesis by (rule settled_processed)
  qed simp
  then show ?thesis using f(1) claim_event_Some [OF f(2)] by simp
qed

text \<open>
  C10: an event is processed at most once. Once a delivery has settled a call, every later delivery of the same
  event (same run id, whatever its other fields, whatever happened in between, as long as no processed event is
  forgotten) answers \<open>already_processed\<close> and changes nothing.
\<close>

theorem webhook_processed_once:
  assumes "process_dograh_webhook w an p (d, sch) = (Inr (i, o'), job, d', sch')" "o' \<in> final_outcomes"
    and "event_id_of q = event_id_of p" "pe_event_id ` set (processed d') \<subseteq> pe_event_id ` set (processed d2)"
  shows "\<exists>k. process_dograh_webhook w2 an2 q (d2, sch2) = (Inr (k, Already_processed), None, d2, sch2)"
proof -
  have "get_row pe_event_id (event_id_of q) (processed d2) \<noteq> None"
    using webhook_claims [OF assms(1,2)] assms(3,4) unfolding get_row_None by auto
  then show ?thesis by (auto simp: process_dograh_webhook_def)
qed

section \<open>What is refused changes nothing\<close>

definition audited :: "db \<Rightarrow> db \<Rightarrow> bool" where
  "audited d d' \<longleftrightarrow> (\<exists>rows. length rows \<le> 1 \<and> d' = d\<lparr> audits := audits d @ rows \<rparr>)"

lemma audited_refl [simp]: "audited d d"
  by (auto simp: audited_def intro: exI [of _ "[]"])

lemma audited_hook [simp]: "audited d (hook_audit x i m d)"
  unfolding audited_def hook_audit_def record_audit_event_def
  by (rule exI, rule conjI [rotated], rule refl, simp)

lemma refused_only_audited:
  assumes "process_dograh_webhook w an p (d, sch) = (r, job, d', sch')" "\<forall>i o'. r = Inr (i, o') \<longrightarrow> o' \<notin> final_outcomes"
  shows "job = None \<and> sch' = sch \<and> (audited d d' \<or> audited (ha_others an d) d')"
proof -
  have l: "job = None \<and> sch' = sch \<and> (audited d d' \<or> audited (ha_others an d) d')"
    if p: "process_loaded w an p a c camp (d, sch) = (r, job, d', sch')" for a c camp
  proof (cases "validate_correlation d p a c (is_unresolved_ambiguous_trigger a d)")
    case (Some problem)
    then show ?thesis using p by (auto simp: process_loaded_def Let_def reject_correlation_def)
  next
    case None
    note p = p [unfolded process_loaded_def Let_def prod.case None option.case]
    show ?thesis
    proof (cases "(\<not> is_unresolved_ambiguous_trigger a d \<and> a_state a \<in> terminal_states) \<or>
        co_non_final (classify_call_outcome (wh_status p) (wh_disposition p))")
      case True
      then show ?thesis using p by (auto split: if_splits)
    next
      case False
      obtain b d1 where ce: "claim_event (ha_now an) (event_id_of p) ''dograh.call_completed'' (ha_others an d) = (b, d1)"
        by (metis surj_pair)
      show ?thesis
      proof (cases b)
        case True
        with p False ce have "complete_call w an p (classify_call_outcome (wh_status p) (wh_disposition p))
          (is_unresolved_ambiguous_trigger a d) camp (ha_others an d) sch (a, c, d1) = (r, job, d', sch')" by (auto split: if_splits)
        from complete_call_cases [OF this refl] show ?thesis using assms(2) by cases auto
      next
        case f: False
        with ce have "d1 = ha_others an d" using claim_event_lost by (metis (full_types))
        then show ?thesis using p False ce f by (auto split: if_splits)
      qed
    qed
  qed
  show ?thesis using assms(1) l
    by (auto simp: process_dograh_webhook_def split: if_splits option.splits)
qed

text \<open>
  C11: a delivery that does not settle a call (unknown or malformed id, wrong contact, campaign or run, an attempt
  that already has its outcome, a status that is not final, a duplicate, a crash) leaves the database as it
  was, up to at most one audit row and to what other transactions committed meanwhile; it schedules
  nothing and registers no analysis. An attempt with an outcome is never reopened by it.
\<close>

theorem webhook_refused_changes_nothing:
  assumes "process_dograh_webhook w an p (d, sch) = (r, job, d', sch')" "\<forall>i o'. r = Inr (i, o') \<longrightarrow> o' \<notin> final_outcomes"
  shows "job = None \<and> sch' = sch \<and> (audited d d' \<or> audited (ha_others an d) d')"
  using assms by (rule refused_only_audited)

section \<open>What is processed settles its call\<close>

text \<open>What other transactions commit before the claim leaves the loaded rows alone.\<close>

definition rows_kept :: "uuid \<Rightarrow> db \<Rightarrow> db \<Rightarrow> bool" where
  "rows_kept i d x \<longleftrightarrow> get_attempt i x = get_attempt i d \<and>
    (\<forall>a. get_attempt i d = Some a \<longrightarrow> get_contact (a_contact a) x = get_contact (a_contact a) d)"

lemma claimed_in_step:
  assumes "get_attempt i d = Some a" "get_contact (a_contact a) d = Some c" "rows_kept i d x"
    and "claim_event now e ty x = (True, d1)"
  shows "in_step (a, c, d1)"
  using assms claim_event_Some [OF assms(4)] get_attempt_id [OF assms(1)] get_contact_id [OF assms(2)]
  by (simp add: in_step_def rows_kept_def get_attempt_def get_contact_def)

text \<open>
  C2: a delivery that settles a call names an existing attempt which had no outcome yet, or only the provisional
  one of an ambiguous trigger, placed through Dograh, with the contact, campaign and run the payload names.
  It leaves that attempt ended, in the state the classification of the reported status gives, bound to the
  reported run, and no other attempt and no other contact is changed.
\<close>

theorem webhook_settles_its_call:
  assumes "process_dograh_webhook w an p (d, sch) = (Inr (i, o'), job, d', sch')" "o' \<in> final_outcomes"
    and "rows_kept i d (ha_others an d)"
  shows "\<exists>a c a'. parse_uuid (wh_attempt p) = Some i \<and> get_attempt i d = Some a \<and> get_contact (a_contact a) d = Some c \<and>
    (a_state a \<in> {A_INITIATED, A_CONNECTED} \<or> is_unresolved_ambiguous_trigger a d) \<and>
    a_provider a \<in> {None, Some ''dograh''} \<and> wh_contact p \<in> {None, Some (uuid_text (a_contact a))} \<and>
    wh_campaign p \<in> {None, Some (uuid_text (c_campaign c))} \<and>
    get_attempt i d' = Some a' \<and> a_state a' = outcome_state o' \<and> a_ended_at a' = Some (ha_now an) \<and>
    (o' = Ended_normally) = (co_state (classify_call_outcome (wh_status p) (wh_disposition p)) = A_ENDED_NORMALLY) \<and>
    (o' = Never_connected) = (co_state (classify_call_outcome (wh_status p) (wh_disposition p)) = A_FAILED_TO_CONNECT) \<and>
    (\<forall>r. wh_run p = Some r \<longrightarrow> a_provider_call_id a' = Some (id_text r)) \<and>
    (\<forall>j. j \<noteq> i \<longrightarrow> get_attempt j d' = get_attempt j (ha_others an d)) \<and>
    (\<forall>j. j \<noteq> c_id c \<longrightarrow> get_contact j d' = get_contact j (ha_others an d))"
proof -
  let ?out = "classify_call_outcome (wh_status p) (wh_disposition p)"
  obtain a c camp d1 where f: "parse_uuid (wh_attempt p) = Some i" "get_attempt i d = Some a" "get_contact (a_contact a) d = Some c"
    "validate_correlation d p a c (is_unresolved_ambiguous_trigger a d) = None"
    "is_unresolved_ambiguous_trigger a d \<or> a_state a \<notin> terminal_states"
    "claim_event (ha_now an) (event_id_of p) ''dograh.call_completed'' (ha_others an d) = (True, d1)"
    "complete_call w an p ?out (is_unresolved_ambiguous_trigger a d) camp (ha_others an d) sch (a, c, d1) = (Inr (i, o'), job, d', sch')"
    by (rule process_final [OF assms(1,2)]) (rule that)
  have sync: "in_step (a, c, d1)" by (rule claimed_in_step [OF f(2,3) assms(3) f(6)])
  have same: "get_attempt j d1 = get_attempt j (ha_others an d)" "get_contact j d1 = get_contact j (ha_others an d)" for j
    using claim_event_Some [OF f(6)] by (simp_all add: get_attempt_def get_contact_def)
  have live: "a_state a \<in> {A_INITIATED, A_CONNECTED} \<or> is_unresolved_ambiguous_trigger a d"
    using f(5) by (cases "a_state a") (auto simp: terminal_states_def)
  have id: "a_id a = i" by (rule get_attempt_id [OF f(2)])
  show ?thesis
  proof (rule complete_call_cases [OF f(7) refl])
    fix a' x
    assume s: "Inr (i, o') = Inr (a_id (fst (a, c, d1)), x)" "settled_as (a, c, d1) a' (outcome_state x) (ha_now an) d'"
      and run: "a_provider_call_id a' = a_provider_call_id (fst (record_delivery w an p (is_unresolved_ambiguous_trigger a d)
        (is_opt_out (wh_disposition p) (wh_mapped p) (st_opt_out_dispositions (ev_settings w))) (a, c, d1)))"
      and st: "(x = Ended_normally) = (co_state ?out = A_ENDED_NORMALLY)" "(x = Never_connected) = (co_state ?out = A_FAILED_TO_CONNECT)"
    have x: "x = o'" using s(1) by simp
    note corr = f(4) [unfolded validate_correlation_def]
    have "a_provider_call_id a' = Some (id_text r)" if "wh_run p = Some r" for r
      using run corr that by (auto simp: record_delivery_sel split: if_splits)
    moreover have "a_provider a \<in> {None, Some ''dograh''} \<and> wh_contact p \<in> {None, Some (uuid_text (a_contact a))} \<and>
        wh_campaign p \<in> {None, Some (uuid_text (c_campaign c))}"
      using corr by (auto split: if_splits)
    moreover have "get_attempt i d' = Some a' \<and> a_state a' = outcome_state o' \<and> a_ended_at a' = Some (ha_now an) \<and>
        (\<forall>j. j \<noteq> i \<longrightarrow> get_attempt j d' = get_attempt j (ha_others an d)) \<and>
        (\<forall>j. j \<noteq> c_id c \<longrightarrow> get_contact j d' = get_contact j (ha_others an d))"
      using s(2) sync id same x by (auto simp: settled_as_def)
    ultimately show ?thesis using f(1-3) live st x by blast
  qed simp
qed

section \<open>An opt-out ends the calling\<close>

text \<open>\<open>closed_in\<close>: the contact is closed, in memory and in the database.\<close>

definition closed_in :: "loaded \<Rightarrow> bool" where
  "closed_in s \<longleftrightarrow> (case s of (a, c, d) \<Rightarrow> c_status c = C_CLOSED \<and> get_contact (c_id c) d = Some c)"

lemma closed_end_attempt [simp]: "closed_in (end_attempt now st f s) = closed_in s"
  "suppressions (snd (snd (end_attempt now st f s))) = suppressions (snd (snd s))"
  "c_id (fst (snd (end_attempt now st f s))) = c_id (fst (snd s))"
  by (cases s; simp add: end_attempt_def on_attempt_def closed_in_def)+

lemma recover_closed:
  assumes "recover w an camp never reason o' sch (on_db (\<lambda>a c. hook_audit x (a_id a) (m a)) s) = (r, job, d', sch')" "closed_in s"
  shows "job = None \<and> sch' = sch \<and> suppressions d' = suppressions (snd (snd s)) \<and>
    get_contact (c_id (fst (snd s))) d' = Some (fst (snd s)) \<and> c_status (fst (snd s)) = C_CLOSED"
proof -
  obtain a c d where s: "s = (a, c, d)" by (cases s)
  let ?d = "hook_audit x (a_id a) (m a) d"
  obtain dec where h: "handle_disconnect w (ha_now an) (ha_analysis an) (ha_redis an) a c camp never reason None (?d, sch) =
      (dec, job, d', sch')" using assms(1) by (auto simp: recover_def on_db_def s split: prod.splits)
  have c: "c_status c = C_CLOSED" "get_contact (c_id c) ?d = Some c"
    using assms(2) by (simp_all add: closed_in_def s get_contact_def)
  from handle_disconnect_closed [OF h c] handle_disconnect_frame [OF h] c show ?thesis by (simp add: s)
qed

lemma finish_ended_closed:
  assumes "finish_ended w an p True sch s = (r, job, d', sch')" "closed_in s"
  shows "job = None \<and> sch' = sch \<and> suppressions d' = suppressions (snd (snd s)) \<and>
    get_contact (c_id (fst (snd s))) d' = Some (fst (snd s)) \<and> c_status (fst (snd s)) = C_CLOSED"
proof -
  obtain a c d where e: "end_attempt (ha_now an) A_ENDED_NORMALLY id s = (a, c, d)" by (metis surj_pair)
  have "closed_in (a, c, d)" "fst (snd s) = c" "suppressions d = suppressions (snd (snd s))"
    using assms(2) closed_end_attempt [of "ha_now an" A_ENDED_NORMALLY id s] end_attempt_sel(3) [of "ha_now an" A_ENDED_NORMALLY id s]
    unfolding e by simp_all
  then show ?thesis using assms(1) unfolding finish_ended_def Let_def if_True e
    by (auto simp: closed_in_def enqueue_call_analysis_def is_eligible_def get_contact_def split: prod.splits)
qed

lemma open_session_closed:
  "open_session an p s = Some s' \<Longrightarrow> closed_in s' = closed_in s \<and> fst (snd s') = fst (snd s) \<and>
    suppressions (snd (snd s')) = suppressions (snd (snd s))"
  by (cases s) (auto simp: open_session_def closed_in_def Let_def get_contact_def split: if_splits option.splits)

lemma on_suppressions:
  "suppressions (snd (snd (on_attempt f s))) = suppressions (snd (snd s))"
  "suppressions (snd (snd (on_contact g s))) = suppressions (snd (snd s))"
  by (cases s; simp add: on_attempt_def on_contact_def)+

lemma bookkeeping_suppressions:
  "suppressions (snd (snd (reopen_adopted p u (record_workflow p (record_duration p (adopt_run p u s)))))) = suppressions (snd (snd s))"
proof -
  have "suppressions (snd (snd (on_db (\<lambda>a c. hook_audit x (a_id a) m) s))) = suppressions (snd (snd s))" for x m s
    by (cases s) (simp add: on_db_def)
  then have 1: "suppressions (snd (snd (reopen_adopted p u s))) = suppressions (snd (snd s))" for s
    unfolding reopen_adopted_def by (simp only: on_suppressions if_distrib split: if_split) simp
  have "suppressions (snd (snd (record_workflow p (record_duration p (adopt_run p u s))))) = suppressions (snd (snd s))" for s
    by (simp add: record_workflow_def record_duration_def adopt_run_def on_suppressions split: option.split)
  then show ?thesis using 1 by (simp only:)
qed

lemma insert_if_absent_cong:
  "suppressions d2 = suppressions d \<Longrightarrow> suppressions (snd (insert_if_absent w now i n src rsn c by d2)) =
    suppressions (snd (insert_if_absent w now i n src rsn c by d))"
  by (simp add: insert_if_absent_def Let_def)

lemma record_delivery_closed:
  assumes "in_step (a, c, d)" "record_delivery w an p u True (a, c, d) = s1"
  shows "closed_in s1 \<and> c_id (fst (snd s1)) = c_id c \<and>
    suppressions (snd (snd s1)) = suppressions (snd (insert_if_absent w (ha_now an) (ha_suppression an) (c_number c) SUP_AGENT_IN_CALL
       (Some ''opt-out via Dograh call disposition'') (Some (c_id c)) None d))"
proof -
  let ?s = "reopen_adopted p u (record_workflow p (record_duration p (adopt_run p u (a, c, d))))"
  obtain a2 c2 d2 where r: "?s = (a2, c2, d2)" by (metis surj_pair)
  have k: "keeps_call (a, c, d) s1" using keeps_record_delivery assms(2) by blast
  have d2: "suppressions d2 = suppressions d" using bookkeeping_suppressions [of p u "(a, c, d)"] r by simp
  have c2: "c_number c2 = c_number c" "c_id c2 = c_id c"
    using keeps_bookkeeping [of "(a, c, d)" p u] r by (simp_all add: keeps_call_def)
  have s1: "s1 = suppress_for_opt_out w an p (a2, c2, d2)" using assms(2) r by (simp add: record_delivery_def Let_def)
  have "suppressions (snd (snd s1)) = suppressions (snd (insert_if_absent w (ha_now an) (ha_suppression an) (c_number c2) SUP_AGENT_IN_CALL
       (Some ''opt-out via Dograh call disposition'') (Some (c_id c2)) None d2))"
    by (auto simp: s1 suppress_for_opt_out_def on_db_def on_contact_def split: prod.splits)
  moreover have "closed_in s1" using in_step_keeps [OF k assms(1)] record_delivery_sel(6) [of w an p u True "(a, c, d)"] assms(2)
    by (cases s1) (simp add: closed_in_def in_step_def)
  moreover have "c_id (fst (snd s1)) = c_id c" using k by (cases s1) (simp add: keeps_call_def)
  ultimately show ?thesis using insert_if_absent_cong [OF d2] c2 by simp
qed

lemma complete_call_opted:
  assumes "complete_call w an p out u camp d0 sch (a, c, d) = (Inr x, job, d', sch')" "in_step (a, c, d)"
    and "is_opt_out (wh_disposition p) (wh_mapped p) (st_opt_out_dispositions (ev_settings w))"
  shows "job = None \<and> sch' = sch \<and> (\<exists>c'. get_contact (c_id c) d' = Some c' \<and> c_status c' = C_CLOSED) \<and>
    suppressions d' = suppressions (snd (insert_if_absent w (ha_now an) (ha_suppression an) (c_number c) SUP_AGENT_IN_CALL
       (Some ''opt-out via Dograh call disposition'') (Some (c_id c)) None d))"
proof -
  obtain s1 where s1: "record_delivery w an p u True (a, c, d) = s1" by blast
  note k = record_delivery_closed [OF assms(2) s1]
  let ?goal = "\<lambda>s. job = None \<and> sch' = sch \<and> suppressions d' = suppressions (snd (snd s)) \<and>
    get_contact (c_id (fst (snd s))) d' = Some (fst (snd s)) \<and> c_status (fst (snd s)) = C_CLOSED"
  have never: "?goal s1" if "finish_never w an p out q camp sch s1 = (Inr x, job, d', sch')" for q
    using recover_closed [OF that [unfolded finish_never_def]] k by simp
  have later: "?goal s1" if o: "open_session an p s1 = Some s2"
    and f: "finish_ended w an p True sch s2 = (Inr x, job, d', sch') \<or> (\<exists>q. finish_dropped w an p out q True camp sch s2 = (Inr x, job, d', sch'))" for s2
  proof -
    note os = open_session_closed [OF o]
    from f show ?thesis
    proof
      assume "finish_ended w an p True sch s2 = (Inr x, job, d', sch')"
      from finish_ended_closed [OF this] os k show ?thesis by simp
    next
      assume "\<exists>q. finish_dropped w an p out q True camp sch s2 = (Inr x, job, d', sch')"
      then obtain q where "finish_dropped w an p out q True camp sch s2 = (Inr x, job, d', sch')" by blast
      from recover_closed [OF this [unfolded finish_dropped_def Let_def if_True]] os k show ?thesis by simp
    qed
  qed
  have "?goal s1" using assms(1,3) s1 never later
    by (auto simp: complete_call_def Let_def split: if_splits option.splits)
  then show ?thesis using k by auto
qed

text \<open>
  C8: when the delivery that settles a call reports an opt-out, whatever the call came to, the contact ends
  Closed, no retry is scheduled, no analysis is registered, and its number is blocked for every campaign unless
  the contact is already named by a do-not-call row, which may be one of an older number.
\<close>

theorem webhook_opt_out_final:
  assumes "process_dograh_webhook w an p (d, sch) = (Inr (i, o'), job, d', sch')" "o' \<in> final_outcomes"
    and "is_opt_out (wh_disposition p) (wh_mapped p) (st_opt_out_dispositions (ev_settings w))"
    and "rows_kept i d (ha_others an d)"
  shows "\<exists>a c c'. get_attempt i d = Some a \<and> get_contact (a_contact a) d = Some c \<and>
    get_contact (c_id c) d' = Some c' \<and> c_status c' = C_CLOSED \<and> sch' = sch \<and> job = None \<and>
    (is_suppressed w (c_number c) d' \<or> (\<exists>s \<in> set (suppressions (ha_others an d)). s_contact s = Some (c_id c))) \<and>
    (\<forall>n. is_suppressed w n (ha_others an d) \<longrightarrow> is_suppressed w n d')"
proof -
  let ?out = "classify_call_outcome (wh_status p) (wh_disposition p)"
  obtain a c camp d1 where f: "get_attempt i d = Some a" "get_contact (a_contact a) d = Some c"
    "claim_event (ha_now an) (event_id_of p) ''dograh.call_completed'' (ha_others an d) = (True, d1)"
    "complete_call w an p ?out (is_unresolved_ambiguous_trigger a d) camp (ha_others an d) sch (a, c, d1) = (Inr (i, o'), job, d', sch')"
    by (rule process_final [OF assms(1,2)]) (rule that)
  have d1: "suppressions d1 = suppressions (ha_others an d)" using f(3) by (auto simp: claim_event_def split: if_splits)
  note c = complete_call_opted [OF f(4) claimed_in_step [OF f(1,2) assms(4) f(3)] assms(3)]
  let ?ins = "insert_if_absent w (ha_now an) (ha_suppression an) (c_number c) SUP_AGENT_IN_CALL
       (Some ''opt-out via Dograh call disposition'') (Some (c_id c)) None d1"
  have "is_suppressed w (c_number c) (snd ?ins) \<or> (\<exists>s \<in> set (suppressions d1). s_contact s = Some (c_id c))"
    by (auto simp: insert_if_absent_def Let_def is_suppressed_def list_ex_iff)
  then have "is_suppressed w (c_number c) d' \<or> (\<exists>s \<in> set (suppressions (ha_others an d)). s_contact s = Some (c_id c))"
    using is_suppressed_cong [of d' "snd ?ins"] c d1 by auto
  moreover have "is_suppressed w n d'" if "is_suppressed w n (ha_others an d)" for n
  proof -
    have "is_suppressed w n d1" using that unfolding is_suppressed_def d1 .
    then have "is_suppressed w n (snd ?ins)" by (rule insert_if_absent_mono)
    then show ?thesis unfolding is_suppressed_def using c by simp
  qed
  ultimately show ?thesis using c f(1,2) by blast
qed

end
