(* ===== verification/Sweeper.thy ===== *)
theory Sweeper imports Reconciliation begin

text \<open>
  \<open>app/services/queue/stuck_call_sweeper.py\<close>: attempts that were claimed and never heard of again are marked for
  review. \<open>blocked\<close> is whether the kill switch blocks; \<open>locked\<close> are the rows another transaction holds (\<open>SKIP
  LOCKED\<close>). Logging is left out.
\<close>

definition SWEEP_ACTOR :: string where "SWEEP_ACTOR = ''stuck-call-sweeper''"
definition EVENT_NEEDS_REVIEW :: string where "EVENT_NEEDS_REVIEW = ''SWEEPER_NEEDS_REVIEW''"
definition ACTION_NEEDS_REVIEW :: string where "ACTION_NEEDS_REVIEW = ''sweeper.needs_review''"

record sweep_result =
  sw_actioned :: nat
  sw_blocked :: bool

text \<open>\<open>int(total_seconds())\<close> truncates towards zero.\<close>

definition age_seconds :: "instant \<Rightarrow> instant \<Rightarrow> int" where
  "age_seconds now t = (if now \<ge> t then (now - t) div 1000000 else - ((t - now) div 1000000))"

definition swept_attempt :: "instant \<Rightarrow> call_attempt \<Rightarrow> call_attempt" where
  "swept_attempt now a = a\<lparr> a_provider := (case a_provider a of None \<Rightarrow> Some ''dograh''
       | Some x \<Rightarrow> if x = [] then Some ''dograh'' else Some x),
     a_state := A_FAILED_TO_CONNECT, a_conn_reason := Some NC_PROVIDER_ERROR, a_ended_at := Some now \<rparr>"

definition mark_for_review :: "instant \<Rightarrow> call_attempt \<Rightarrow> contact \<Rightarrow> db \<Rightarrow> db" where
  "mark_for_review now a c d =
    (let had = a_provider_call_id a \<noteq> None;
         d1 = (if had then d
               else add_call_event (a_id a) AMBIGUOUS_TRIGGER_EVENT
                 [(''category'', JStr ''swept_stuck''), (''reconcile'', JStr ''not_attempted'')]
                 (upd_attempt (a_id a) (swept_attempt now) d));
         d2 = upd_contact (c_id c) (\<lambda>r. r\<lparr> c_status := C_NEEDS_REVIEW \<rparr>) d1;
         pl = [(''reason'', JStr (if had then ''no_terminal_webhook'' else ''no_provider_call_id'')),
               (''age_seconds'', JInt (age_seconds now (a_started_at a))), (''had_provider_call_id'', JBool had),
               (''attempt_number'', JInt (a_number a))]
     in record_audit_event SWEEP_ACTOR ACTION_NEEDS_REVIEW ''call_attempt'' (Some (a_id a)) (pl @ [(''contact_id'', JId (c_id c))])
          (add_call_event (a_id a) EVENT_NEEDS_REVIEW pl d2))"

text \<open>The query: the stuck attempts with their contacts, oldest first, the first \<open>limit\<close> rows that are not locked.\<close>

definition stuck :: "instant \<Rightarrow> call_attempt \<Rightarrow> contact \<Rightarrow> bool" where
  "stuck cutoff a c \<longleftrightarrow> a_state a = A_INITIATED \<and> a_started_at a < cutoff \<and> c_status c = C_DIALING"

definition stuck_rows :: "instant \<Rightarrow> (uuid \<Rightarrow> bool) \<Rightarrow> nat \<Rightarrow> db \<Rightarrow> (call_attempt \<times> contact) list" where
  "stuck_rows cutoff locked limit d =
    take limit (sort_key (\<lambda>(a, _). a_started_at a) (sort_key (\<lambda>(a, _). a_id a)
      (concat (map (\<lambda>a. case get_contact (a_contact a) d of None \<Rightarrow> []
         | Some c \<Rightarrow> if stuck cutoff a c \<and> \<not> locked (a_id a) \<and> \<not> locked (c_id c) then [(a, c)] else []) (attempts d)))))"

fun mark_all :: "instant \<Rightarrow> (call_attempt \<times> contact) list \<Rightarrow> db \<Rightarrow> db" where
  "mark_all now [] d = d"
| "mark_all now ((a, c) # rows) d = mark_all now rows (mark_for_review now a c d)"

definition or_setting :: "int option \<Rightarrow> int \<Rightarrow> int" where
  "or_setting v dflt = (case v of None \<Rightarrow> dflt | Some i \<Rightarrow> if i = 0 then dflt else i)"

definition sweep_stuck_attempts :: "settings \<Rightarrow> bool \<Rightarrow> (uuid \<Rightarrow> bool) \<Rightarrow> instant \<Rightarrow> int option \<Rightarrow> int option \<Rightarrow> db \<Rightarrow>
    sweep_result \<times> db" where
  "sweep_stuck_attempts st blocked locked now stuck_after batch d =
    (if blocked then (\<lparr> sw_actioned = 0, sw_blocked = True \<rparr>, d)
     else let rows = stuck_rows (now - seconds (or_setting stuck_after (st_stuck_after_s st))) locked
                (nat (or_setting batch (st_sweeper_batch st))) d
          in (\<lparr> sw_actioned = length rows, sw_blocked = False \<rparr>, mark_all now rows d))"

section \<open>What a sweep does to the rows\<close>

lemma swept_sel [simp]: "a_id (swept_attempt now a) = a_id a" "a_contact (swept_attempt now a) = a_contact a"
  "a_number (swept_attempt now a) = a_number a" "a_state (swept_attempt now a) = A_FAILED_TO_CONNECT"
  "a_provider_call_id (swept_attempt now a) = a_provider_call_id a"
  by (simp_all add: swept_attempt_def)

lemma swept_twice [simp]: "swept_attempt now (swept_attempt now a) = swept_attempt now a"
  by (simp add: swept_attempt_def split: option.split)

lemma mark_attempt: "get_attempt j (mark_for_review now a c d) =
    (if j = a_id a \<and> a_provider_call_id a = None then map_option (swept_attempt now) (get_attempt j d) else get_attempt j d)"
  by (auto simp: mark_for_review_def Let_def get_attempt_upd)

lemma mark_contact: "get_contact j (mark_for_review now a c d) =
    (if j = c_id c then map_option (\<lambda>r. r\<lparr> c_status := C_NEEDS_REVIEW \<rparr>) (get_contact j d) else get_contact j d)"
  by (auto simp: mark_for_review_def Let_def get_contact_upd)

lemma mark_events: "set (events d) \<subseteq> set (events (mark_for_review now a c d)) \<and>
    (a_provider_call_id a = None \<longrightarrow> (\<exists>e \<in> set (events (mark_for_review now a c d)). e_attempt e = a_id a \<and> e_type e = AMBIGUOUS_TRIGGER_EVENT))"
  by (auto simp: mark_for_review_def Let_def add_call_event_def)

lemma mark_suppressions [simp]: "suppressions (mark_for_review now a c d) = suppressions d"
  "processed (mark_for_review now a c d) = processed d"
  by (simp_all add: mark_for_review_def Let_def)

lemma mark_all_frame [simp]: "suppressions (mark_all now rows d) = suppressions d" "processed (mark_all now rows d) = processed d"
  by (induction now rows d rule: mark_all.induct) simp_all

lemma mark_all_attempt: "get_attempt j (mark_all now rows d) =
    (if \<exists>r \<in> set rows. a_id (fst r) = j \<and> a_provider_call_id (fst r) = None
     then map_option (swept_attempt now) (get_attempt j d) else get_attempt j d)"
  by (induction now rows d rule: mark_all.induct)
    (auto simp: mark_attempt option.map_comp comp_def)

lemma mark_all_contact: "get_contact j (mark_all now rows d) =
    (if \<exists>r \<in> set rows. c_id (snd r) = j
     then map_option (\<lambda>r. r\<lparr> c_status := C_NEEDS_REVIEW \<rparr>) (get_contact j d) else get_contact j d)"
  by (induction now rows d rule: mark_all.induct)
    (auto simp: mark_contact option.map_comp comp_def)

lemma mark_all_events: "set (events d) \<subseteq> set (events (mark_all now rows d))"
  by (induction now rows d rule: mark_all.induct) (use mark_events in \<open>auto, blast\<close>)

lemma mark_all_ambiguous:
  "r \<in> set rows \<Longrightarrow> a_provider_call_id (fst r) = None \<Longrightarrow>
    \<exists>e \<in> set (events (mark_all now rows d)). e_attempt e = a_id (fst r) \<and> e_type e = AMBIGUOUS_TRIGGER_EVENT"
proof (induction now rows d rule: mark_all.induct)
  case (2 now a c rows d)
  show ?case
  proof (cases "r = (a, c)")
    case True
    then obtain e where "e \<in> set (events (mark_for_review now a c d))" "e_attempt e = a_id (fst r)" "e_type e = AMBIGUOUS_TRIGGER_EVENT"
      using mark_events [of d now a c] 2(3) by auto
    then show ?thesis using mark_all_events [of "mark_for_review now a c d" now rows] by auto
  qed (use 2 in auto)
qed simp

lemma stuck_rowsD:
  assumes "(a, c) \<in> set (stuck_rows cutoff locked n d)"
  shows "a \<in> set (attempts d) \<and> get_contact (a_contact a) d = Some c \<and> stuck cutoff a c \<and> \<not> locked (a_id a) \<and> \<not> locked (c_id c)"
  using in_set_takeD [OF assms [unfolded stuck_rows_def]] by (auto split: option.splits if_splits)

lemma stuck_rows_limit: "length (stuck_rows cutoff locked n d) \<le> n"
  by (simp add: stuck_rows_def)

text \<open>
  A sweep touches at most \<open>limit\<close> attempts, each of them initiated before the cutoff with a contact that is
  being dialed and not locked elsewhere. It dials nothing and creates nothing: an attempt with a run id is left as
  it is, one without becomes an unresolved ambiguous trigger, so in both cases a late completion webhook is
  still accepted; the contact goes to review. Every other attempt and contact is unchanged, and so are the
  do-not-call rows. A blocked sweep changes nothing.
\<close>

theorem sweep_marks_stuck_only:
  assumes "sweep_stuck_attempts st blocked locked now after batch d = (res, d')" "keys_distinct a_id (attempts d)"
    and "\<not> blocked"
    and "rows = stuck_rows (now - seconds (or_setting after (st_stuck_after_s st))) locked (nat (or_setting batch (st_sweeper_batch st))) d"
  shows "sw_actioned res = length rows \<and> length rows \<le> nat (or_setting batch (st_sweeper_batch st)) \<and>
    (\<forall>(a, c) \<in> set rows. get_attempt (a_id a) d = Some a \<and> get_contact (a_contact a) d = Some c \<and>
       stuck (now - seconds (or_setting after (st_stuck_after_s st))) a c \<and> \<not> locked (a_id a) \<and>
       (\<exists>a'. get_attempt (a_id a) d' = Some a' \<and>
          (if a_provider_call_id a \<noteq> None then a' = a else is_unresolved_ambiguous_trigger a' d')) \<and>
       get_contact (c_id c) d' = Some (c\<lparr> c_status := C_NEEDS_REVIEW \<rparr>)) \<and>
    (\<forall>i. (\<forall>(a, c) \<in> set rows. a_id a \<noteq> i) \<longrightarrow> get_attempt i d' = get_attempt i d) \<and>
    (\<forall>i. (\<forall>(a, c) \<in> set rows. c_id c \<noteq> i) \<longrightarrow> get_contact i d' = get_contact i d) \<and>
    suppressions d' = suppressions d"
proof -
  have d': "d' = mark_all now rows d" "sw_actioned res = length rows"
    using assms(1,3,4) by (auto simp: sweep_stuck_attempts_def Let_def)
  have row: "get_attempt (a_id a) d = Some a \<and> get_contact (a_contact a) d = Some c \<and>
       stuck (now - seconds (or_setting after (st_stuck_after_s st))) a c \<and> \<not> locked (a_id a) \<and>
       (\<exists>a'. get_attempt (a_id a) d' = Some a' \<and>
          (if a_provider_call_id a \<noteq> None then a' = a else is_unresolved_ambiguous_trigger a' d')) \<and>
       get_contact (c_id c) d' = Some (c\<lparr> c_status := C_NEEDS_REVIEW \<rparr>)" if r: "(a, c) \<in> set rows" for a c
  proof -
    note s = stuck_rowsD [OF r [unfolded assms(4)]]
    have a: "get_attempt (a_id a) d = Some a" using s assms(2) unfolding get_attempt_def by (simp add: get_row_Some_iff)
    have c: "c_id c = a_contact a" using s unfolding get_contact_def by (blast dest: get_row_key)
    have only: "r' = a" if "(r', q) \<in> set rows" "a_id r' = a_id a" for r' q
      using that stuck_rowsD [of r' q] a assms(2,4) unfolding get_attempt_def by (metis get_row_Some_iff option.inject)
    have "\<exists>a'. get_attempt (a_id a) d' = Some a' \<and> (if a_provider_call_id a \<noteq> None then a' = a else is_unresolved_ambiguous_trigger a' d')"
    proof (cases "a_provider_call_id a = None")
      case True
      have "get_attempt (a_id a) d' = Some (swept_attempt now a)"
        unfolding d' mark_all_attempt using r True a by force
      moreover have "is_unresolved_ambiguous_trigger (swept_attempt now a) d'"
        using mark_all_ambiguous [OF r, of now d] True unfolding d'
        by (simp add: is_unresolved_ambiguous_trigger_def list_ex_iff)
      ultimately show ?thesis using True by simp
    next
      case False
      then have "\<not> (\<exists>q \<in> set rows. a_id (fst q) = a_id a \<and> a_provider_call_id (fst q) = None)" using only by force
      then show ?thesis unfolding d' mark_all_attempt using a False by auto
    qed
    moreover have "get_contact (c_id c) d' = Some (c\<lparr> c_status := C_NEEDS_REVIEW \<rparr>)"
      unfolding d' mark_all_contact using r s c by force
    ultimately show ?thesis using s a by blast
  qed
  have others: "\<forall>i. (\<forall>(a, c) \<in> set rows. a_id a \<noteq> i) \<longrightarrow> get_attempt i d' = get_attempt i d"
    unfolding d' mark_all_attempt by fastforce
  have contacts: "\<forall>i. (\<forall>(a, c) \<in> set rows. c_id c \<noteq> i) \<longrightarrow> get_contact i d' = get_contact i d"
    unfolding d' mark_all_contact by fastforce
  have limit: "length rows \<le> nat (or_setting batch (st_sweeper_batch st))" unfolding assms(4) by (rule stuck_rows_limit)
  have sup: "suppressions d' = suppressions d" unfolding d' by simp
  show ?thesis by (intro conjI d'(2) limit others contacts sup ballI) (simp only: split_beta, rule row, simp)
qed

end
