(* ===== verification/Telephony_Webhook.thy ===== *)
theory Telephony_Webhook imports Suppression begin

text \<open>
  \<open>app/services/webhook_service.py\<close>: the call-status webhook of the native telephony path. \<open>others\<close> is what other
  transactions commit between the first check and the claim of the event; the rows were read before. An
  error rolls the request back.
\<close>

record call_status =
  ts_event :: string
  ts_provider_call :: string
  ts_status :: string
  ts_failure :: "string option"

datatype status_answer = Status_processed | Status_already

fun never_connected_of :: "string \<Rightarrow> never_connected_reason option" where
  "never_connected_of s = find (\<lambda>r. never_connected_value r = s) never_connected_reasons"

text \<open>The state the reported status asks for, before the event is claimed.\<close>

definition apply_status :: "instant \<Rightarrow> call_status \<Rightarrow> call_attempt \<Rightarrow> contact option \<Rightarrow> db \<Rightarrow> app_error + db" where
  "apply_status now p a c d =
    (if ts_status p = ''connected''
     then let d1 = upd_attempt (a_id a) (\<lambda>r. r\<lparr> a_state := A_CONNECTED \<rparr>) d
          in Inr (case c of None \<Rightarrow> d1 | Some k \<Rightarrow> upd_contact (c_id k) (\<lambda>r. r\<lparr> c_status := C_IN_CONVERSATION \<rparr>) d1)
     else if ts_status p = ''failed''
     then let d1 = upd_attempt (a_id a) (\<lambda>r. r\<lparr> a_state := A_FAILED_TO_CONNECT, a_ended_at := Some now \<rparr>) d
          in (case ts_failure p of
                None \<Rightarrow> Inr d1
              | Some f \<Rightarrow> if f = [] then Inr d1
                  else case never_connected_of f of
                    None \<Rightarrow> Inl (ConflictError (''Unknown failure_reason '' @ [CHR 0x27] @ f @ [CHR 0x27]))
                  | Some q \<Rightarrow> Inr (upd_attempt (a_id a) (\<lambda>r. r\<lparr> a_conn_reason := Some q \<rparr>) d1))
     else Inl (ConflictError (''Unknown call status '' @ [CHR 0x27] @ ts_status p @ [CHR 0x27])))"

definition process_call_status :: "(db \<Rightarrow> db) \<Rightarrow> instant \<Rightarrow> call_status \<Rightarrow> db \<Rightarrow> (app_error + status_answer) \<times> db" where
  "process_call_status others now p d =
    (if get_row pe_event_id (ts_event p) (processed d) \<noteq> None then (Inr Status_already, d)
     else case get_by_provider_call_id (ts_provider_call p) d of
       None \<Rightarrow> (Inl NotFoundError, d)
     | Some a \<Rightarrow>
        if a_ended_at a \<noteq> None then (Inl (ConflictError ''Call attempt already has a terminal outcome''), d)
        else case apply_status now p a (get_contact (a_contact a) d) (others d) of
          Inl e \<Rightarrow> (Inl e, others d)
        | Inr d1 \<Rightarrow>
            (case claim_event now (ts_event p) ''telephony.call_status'' d1 of
               (False, d2) \<Rightarrow> (Inr Status_already, d2)
             | (True, d2) \<Rightarrow> (Inr Status_processed,
                 record_audit_event ''telephony-webhook'' ''call_attempt.status_updated_via_webhook'' ''call_attempt''
                   (Some (a_id a)) [(''status'', JStr (ts_status p))] d2)))"

section \<open>Facts\<close>

lemma never_connected_of_value [simp]: "never_connected_of (never_connected_value r) = Some r"
  by (cases r) (simp_all add: never_connected_reasons_def)

text \<open>A report about an ended attempt is refused; an event that was processed is not processed again.\<close>

lemma ended_attempt_refused:
  assumes "get_by_provider_call_id (ts_provider_call p) d = Some a" "a_ended_at a \<noteq> None"
  shows "snd (process_call_status others now p d) = d \<and> fst (process_call_status others now p d) \<noteq> Inr Status_processed"
  using assms by (auto simp: process_call_status_def split: option.splits)

lemma call_status_once:
  assumes "process_call_status others now p d = (Inr Status_processed, d')" "ts_event q = ts_event p"
  shows "process_call_status others' now' q d' = (Inr Status_already, d')"
proof -
  have "get_row pe_event_id (ts_event p) (processed d') \<noteq> None" using assms(1)
    by (auto simp: process_call_status_def claim_event_def get_row_snoc split: if_splits option.splits sum.splits)
  then show ?thesis using assms(2) by (simp add: process_call_status_def)
qed

text \<open>The delivery that loses the race for the event has written the attempt before it learns so.\<close>

lemma loser_has_written:
  assumes "get_row pe_event_id (ts_event p) (processed d) = None" "get_by_provider_call_id (ts_provider_call p) d = Some a"
    and "a_ended_at a = None" "ts_status p = ''connected''" "get_contact (a_contact a) d = None"
    and "get_row pe_event_id (ts_event p) (processed (others d)) \<noteq> None"
  shows "process_call_status others now p d =
    (Inr Status_already, upd_attempt (a_id a) (\<lambda>r. r\<lparr> a_state := A_CONNECTED \<rparr>) (others d))"
  using assms by (simp add: process_call_status_def apply_status_def claim_event_def Let_def)

end
