(* ===== verification/System_Safety.thy ===== *)
theory System_Safety imports Webhook_Contract Sweeper Telephony_Webhook begin

text \<open>
  The dialer's safety holds in the company of the other processes that write the same tables: completion
  webhooks, the stuck-call sweeper, the recovery dispatcher and the native call-status webhook are changes of
  the kind \<open>Dialer_Safety\<close> allows between two deliveries.
\<close>

section \<open>Changes to one attempt\<close>

text \<open>As \<open>carries\<close>, with the hold of attempt \<open>x\<close> left open.\<close>

definition carries_but :: "uuid \<Rightarrow> uuid \<Rightarrow> db \<Rightarrow> db \<Rightarrow> bool" where
  "carries_but i0 x d d' \<longleftrightarrow>
    (keys_distinct a_id (attempts d) \<longrightarrow> keys_distinct a_id (attempts d')) \<and>
    (\<forall>i. has_attempt i d \<longrightarrow> has_attempt i d') \<and>
    (\<forall>i. i \<noteq> x \<longrightarrow> held_id i d' \<longrightarrow> held_id i d \<or> \<not> has_attempt i d) \<and>
    (has_attempt i0 d' \<longrightarrow> has_attempt i0 d) \<and>
    (\<forall>c n. claimed c n d \<longrightarrow> claimed c n d')"

lemma carries_but_of: "carries k d d' \<Longrightarrow> carries_but k x d d'"
  by (auto simp: carries_but_def carries_def)

lemma carries_but_trans: "carries_but k x d d1 \<Longrightarrow> carries_but k x d1 d2 \<Longrightarrow> carries_but k x d d2"
  unfolding carries_but_def by blast

lemma carries_but_close: "carries_but k x d d' \<Longrightarrow> \<not> held_id x d' \<Longrightarrow> carries k d d'"
  unfolding carries_but_def carries_def by metis

lemma carries_but_upd:
  assumes "\<And>a. a_id (f a) = a_id a \<and> a_contact (f a) = a_contact a \<and> a_number (f a) = a_number a"
  shows "carries_but k x d (upd_attempt x f d)"
  using assms claimed_upd [of f] by (auto simp: carries_but_def has_attempt_def held_id_def get_attempt_upd is_held_attempt_def)

definition moves :: "uuid \<Rightarrow> loaded \<Rightarrow> loaded \<Rightarrow> bool" where
  "moves k s s' \<longleftrightarrow> a_id (fst s') = a_id (fst s) \<and> carries_but k (a_id (fst s)) (snd (snd s)) (snd (snd s'))"

lemma moves_trans: "moves k s s1 \<Longrightarrow> moves k s1 s2 \<Longrightarrow> moves k s s2"
  unfolding moves_def by (simp, elim conjE, rule carries_but_trans)

lemma moves_refl [simp]: "moves k s s"
  unfolding moves_def using carries_but_of [OF carries_refl] by simp

lemma moves_attempt:
  "(\<And>a. a_id (f a) = a_id a \<and> a_contact (f a) = a_contact a \<and> a_number (f a) = a_number a) \<Longrightarrow> moves k s (on_attempt f s)"
  by (cases s) (simp add: moves_def on_attempt_def carries_but_upd)

lemma moves_contact: "moves k s (on_contact f s)"
  by (cases s) (simp add: moves_def on_contact_def carries_but_of)

lemma moves_db: "(\<And>a c d. attempts (h a c d) = attempts d \<and> events (h a c d) = events d) \<Longrightarrow> moves k s (on_db h s)"
  by (cases s) (simp add: moves_def on_db_def carries_but_of carries_same)

lemma moves_same: "attempts d' = attempts d \<Longrightarrow> events d' = events d \<Longrightarrow> moves k (a, c, d) (a, c', d')"
  by (simp add: moves_def carries_but_of carries_same)

lemma moves_suppress: "moves k s (suppress_for_opt_out w an p s)"
proof (cases s)
  case (fields a c d)
  obtain x d1 where i: "insert_if_absent w (ha_now an) (ha_suppression an) (c_number c) SUP_AGENT_IN_CALL
          (Some ''opt-out via Dograh call disposition'') (Some (c_id c)) None d = (x, d1)" by (metis surj_pair)
  have "moves k s (a, c, d1)" unfolding fields using insert_if_absent_db [OF i] by (intro moves_same) auto
  then show ?thesis unfolding suppress_for_opt_out_def fields using i
    by (auto intro!: moves_trans [OF _ moves_trans [OF moves_contact moves_db]])
qed

lemma moves_record_delivery: "moves k s (record_delivery w an p u opted s)"
proof -
  have 1: "moves k s (adopt_run p u s)" for s by (simp add: adopt_run_def moves_attempt)
  have 2: "moves k s (record_duration p s)" for s by (simp add: record_duration_def moves_attempt split: option.splits)
  have 3: "moves k s (record_workflow p s)" for s by (simp add: record_workflow_def moves_attempt split: option.splits)
  have 4: "moves k s (reopen_adopted p u s)" for s unfolding reopen_adopted_def
    by (auto intro!: moves_trans [OF moves_trans [OF moves_trans [OF moves_attempt moves_contact] moves_attempt] moves_db])
  have 5: "moves k s (reopen_adopted p u (record_workflow p (record_duration p (adopt_run p u s))))"
    by (rule moves_trans [OF moves_trans [OF moves_trans [OF 1 2] 3] 4])
  show ?thesis unfolding record_delivery_def Let_def
    by (cases opted) (simp_all only: if_True if_False 5 moves_trans [OF 5 moves_suppress])
qed

lemma moves_open: "open_session an p s = Some s' \<Longrightarrow> moves k s s' \<and> fst s' = fst s"
  by (cases s) (auto simp: open_session_def Let_def split: if_splits option.splits intro!: moves_same)

lemma moves_end_attempt: "moves k s (end_attempt now st f s)"
  if "\<And>a. a_id (f a) = a_id a \<and> a_contact (f a) = a_contact a \<and> a_number (f a) = a_number a"
  unfolding end_attempt_def using that by (intro moves_attempt) simp

section \<open>A settled call is not held\<close>

lemma enqueue_events:
  assumes "enqueue_call_analysis st id now i a c d = (job, d')" "latest_event_type x d \<noteq> Some HELD_EVENT_TYPE"
  shows "latest_event_type x d' \<noteq> Some HELD_EVENT_TYPE"
proof -
  have "latest_event_type x (d\<lparr> analyses := y \<rparr>) = latest_event_type x d" for y by (simp add: latest_event_type_def)
  moreover have "latest_event_type x (record_audit_event e f g h m z) = latest_event_type x z" for e f g h m z
    by (simp add: latest_event_type_def)
  ultimately show ?thesis using assms
    by (auto simp: enqueue_call_analysis_def get_or_create_pending_def Let_def split: if_splits option.splits prod.splits)
qed

lemma latest_frame [simp]: "latest_event_type x (record_audit_event e f g h m z) = latest_event_type x z"
  "latest_event_type x (upd_contact i q z) = latest_event_type x z"
  by (simp_all add: latest_event_type_def)

lemma handle_disconnect_latest:
  assumes "handle_disconnect w now aid up a c camp never reason ra (d, sch) = (dec, job, d', sch')"
  shows "latest_event_type (a_id a) d' \<noteq> Some HELD_EVENT_TYPE"
proof -
  have s: "latest_event_type (a_id a) y \<noteq> Some HELD_EVENT_TYPE" if "schedule_retry now up a c camp x (d, sch) = (y, z)" for x y z
    using that by (auto simp: schedule_retry_def Let_def)
  have t: "latest_event_type (a_id a) y \<noteq> Some HELD_EVENT_TYPE" if "terminalize (ev_settings w) now aid a c q d = (j, y)" for q j y
    by (rule enqueue_events [OF that [unfolded terminalize_def Let_def]]) simp
  show ?thesis using assms by (auto simp: handle_disconnect_def Let_def split: if_splits prod.splits dest: s t)
qed

lemma recover_carries:
  assumes "recover w an camp never reason o' sch s = (r, job, d', sch')" "moves k s0 s"
  shows "carries k (snd (snd s0)) d'"
proof -
  obtain a c d where s: "s = (a, c, d)" by (cases s)
  obtain dec where h: "handle_disconnect w (ha_now an) (ha_analysis an) (ha_redis an) a c camp never reason None (d, sch) =
      (dec, job, d', sch')" using assms(1) by (auto simp: recover_def s split: prod.splits)
  have "carries_but k (a_id (fst s0)) (snd (snd s0)) d" "a_id a = a_id (fst s0)" using assms(2) by (simp_all add: moves_def s)
  then have "carries_but k (a_id (fst s0)) (snd (snd s0)) d'"
    using carries_but_trans carries_but_of [OF carries_handle_disconnect [OF h]] by metis
  moreover have "\<not> held_id (a_id (fst s0)) d'" using handle_disconnect_latest [OF h] \<open>a_id a = a_id (fst s0)\<close>
    by (auto simp: held_id_def is_held_attempt_def dest: get_attempt_id)
  ultimately show ?thesis by (rule carries_but_close)
qed

lemma not_held_state: "get_attempt i d = Some a \<Longrightarrow> a_state a \<noteq> A_FAILED_TO_CONNECT \<Longrightarrow> \<not> held_id i d"
  by (auto simp: held_id_def is_held_attempt_def)

lemma ended_state:
  assumes "\<And>a. a_id (f a) = a_id a"
  shows "get_attempt (a_id (fst s)) (snd (snd (end_attempt now st f s))) = Some b \<Longrightarrow> a_state b = st"
  using assms by (cases s) (auto simp: end_attempt_def on_attempt_def get_attempt_upd)

section \<open>The other processes carry\<close>

lemma complete_call_carries:
  assumes "complete_call w an p out u camp d0 sch (a, c, d) = (r, job, d', sch')"
  shows "carries k d d' \<or> d' = d0"
proof -
  let ?opted = "is_opt_out (wh_disposition p) (wh_mapped p) (st_opt_out_dispositions (ev_settings w))"
  obtain s1 where s1: "record_delivery w an p u ?opted (a, c, d) = s1" by blast
  have m1: "moves k (a, c, d) s1" using moves_record_delivery s1 by blast
  have never: "carries k d d'" if "finish_never w an p out q camp sch s1 = (r, job, d', sch')" for q
    using recover_carries [OF that [unfolded finish_never_def]
      moves_trans [OF moves_trans [OF m1 moves_end_attempt] moves_db]] by simp
  have dropped: "carries k d d'" if o: "open_session an p s1 = Some s2"
    and f: "finish_dropped w an p out q opted camp sch s2 = (r, job, d', sch')" for s2 q opted
  proof -
    have m2: "moves k (a, c, d) s2" using moves_trans [OF m1] moves_open [OF o] by blast
    have e: "moves k (a, c, d) (end_attempt now st (\<lambda>a. a\<lparr> a_disc_reason := x \<rparr>) s2)" for now st x
      by (rule moves_trans [OF m2 moves_end_attempt]) simp
    have m3: "moves k (a, c, d) (if opted then end_attempt (ha_now an) A_DROPPED_MID_CALL (\<lambda>a. a\<lparr> a_disc_reason := Some q \<rparr>) s2
        else on_contact (\<lambda>c. c\<lparr> c_status := C_DISCONNECTED \<rparr>)
          (end_attempt (ha_now an) A_DROPPED_MID_CALL (\<lambda>a. a\<lparr> a_disc_reason := Some q \<rparr>) s2))"
      using e moves_trans [OF e moves_contact] by simp
    from recover_carries [OF f [unfolded finish_dropped_def Let_def] moves_trans [OF m3 moves_db]] show ?thesis by simp
  qed
  have ended: "carries k d d'" if o: "open_session an p s1 = Some s2"
    and f: "finish_ended w an p opted sch s2 = (r, job, d', sch')" for s2 opted
  proof -
    have m2: "moves k (a, c, d) s2" using moves_trans [OF m1] moves_open [OF o] by blast
    let ?e = "end_attempt (ha_now an) A_ENDED_NORMALLY id s2"
    let ?s3 = "if opted then ?e else on_contact (\<lambda>c. c\<lparr> c_status := C_COMPLETED \<rparr>) ?e"
    obtain a3 c3 d3 where s3: "?s3 = (a3, c3, d3)" by (metis surj_pair)
    have m3: "moves k (a, c, d) (a3, c3, d3)"
      unfolding s3 [symmetric] using moves_trans [OF m2 moves_end_attempt [of id]] moves_trans [OF moves_trans [OF m2 moves_end_attempt [of id]] moves_contact]
      by simp
    obtain d4 where f4: "enqueue_call_analysis (ev_settings w) id (ha_now an) (ha_analysis an) a3 c3 d4 = (job, d')"
      "attempts d4 = attempts d3" "events d4 = events d3"
      using f unfolding finish_ended_def Let_def s3 by (auto split: prod.splits)
    have c3: "carries_but k (a_id a) d d3" using m3 by (simp add: moves_def)
    have c: "carries_but k (a_id a) d d'"
      by (rule carries_but_trans [OF carries_but_trans [OF c3 carries_but_of [OF carries_same [OF f4(2,3)]]]
        carries_but_of [OF carries_enqueue_analysis [OF f4(1)]]])
    have "attempts d3 = attempts (snd (snd ?e))" using arg_cong [OF s3, of "\<lambda>s. attempts (snd (snd s))"]
      by (cases opted; cases ?e) (auto simp: on_contact_def)
    then have at: "get_attempt i d' = get_attempt i (snd (snd ?e))" for i
      using enqueue_call_analysis_frame [OF f4(1)] f4(2) by (simp add: get_attempt_def)
    have "a_id (fst s2) = a_id a" using m2 by (simp add: moves_def)
    then have "\<not> held_id (a_id a) d'" using ended_state [of id s2 "ha_now an" A_ENDED_NORMALLY]
      by (auto simp: held_id_def is_held_attempt_def at)
    with c show ?thesis by (rule carries_but_close)
  qed
  show ?thesis using assms s1 never dropped ended
    by (auto simp: complete_call_def Let_def split: if_splits option.splits)
qed

lemma webhook_carries:
  assumes "process_dograh_webhook w an p (d, sch) = (r, job, d', sch')" "\<And>x. carries k x (ha_others an x)"
  shows "carries k d d'"
proof -
  have claim: "carries k x y" if "claim_event now e ty x = (b, y)" for now e ty x b y
    using that by (intro carries_same) (auto simp: claim_event_def split: if_splits)
  have l: "carries k d d'" if pl: "process_loaded w an p a c camp (d, sch) = (r, job, d', sch')" for a c camp
  proof -
    obtain b d1 where ce: "claim_event (ha_now an) (event_id_of p) ''dograh.call_completed'' (ha_others an d) = (b, d1)"
      by (metis surj_pair)
    have d1: "carries k d d1" by (rule carries_trans [OF assms(2) claim [OF ce]])
    have "carries k d d'" if "complete_call w an p out u camp (ha_others an d) sch (a, c, d1) = (r, job, d', sch')" for out u
      using complete_call_carries [OF that, of k] d1 assms(2) carries_trans by blast
    moreover have "carries k d (hook_audit x i m d)" for x i m by (rule carries_same) simp_all
    ultimately show ?thesis using pl d1 unfolding process_loaded_def Let_def prod.case ce
      by (cases b) (auto simp: reject_correlation_def split: if_splits option.splits)
  qed
  show ?thesis using assms(1) l by (auto simp: process_dograh_webhook_def split: if_splits option.splits)
qed

lemma sweep_event_types [simp]: "EVENT_NEEDS_REVIEW \<noteq> HELD_EVENT_TYPE" "''RECOVERY_SKIPPED'' \<noteq> HELD_EVENT_TYPE"
  "''RECONNECT_STARTED'' \<noteq> HELD_EVENT_TYPE"
  by (simp_all add: EVENT_NEEDS_REVIEW_def HELD_EVENT_TYPE_def)

lemma mark_carries: "carries k d (mark_for_review now a c d)"
proof -
  have "carries k d (if a_provider_call_id a \<noteq> None then d
               else add_call_event (a_id a) AMBIGUOUS_TRIGGER_EVENT
                 [(''category'', JStr ''swept_stuck''), (''reconcile'', JStr ''not_attempted'')]
                 (upd_attempt (a_id a) (swept_attempt now) d))"
    by (simp add: carries_upd_event)
  then show ?thesis unfolding mark_for_review_def Let_def
    by (rule carries_trans [OF carries_trans [OF carries_trans [OF _ carries_contact] carries_event] carries_audit]) simp
qed

lemma sweep_carries:
  assumes "sweep_stuck_attempts st blocked locked now after batch d = (res, d')"
  shows "carries k d d'"
proof -
  have "carries k d (mark_all now rows d)" for rows d
    by (induction now rows d rule: mark_all.induct) (auto intro: carries_trans mark_carries)
  then show ?thesis using assms by (auto simp: sweep_stuck_attempts_def Let_def split: if_splits)
qed

lemma skip_carries: "carries k d (log_skip j r b m (upd_contact c f d))" "carries k d (log_skip j r b m d)"
  unfolding log_skip_def by (rule carries_trans [OF carries_contact carries_event], simp) (rule carries_event, simp)

lemma process_one_carries:
  assumes "process_one w now i up j (d, sch, q) = (r, d', sch', q')"
  shows "carries k d d'"
proof -
  have later: "carries k d d'" if "moved_to up m t f (d, sch, q) = (r, d', sch', q')" "carries k d (f d)" for m t f
    using that by (auto simp: moved_to_def split: if_splits)
  have queued: "carries k d (record_audit_event a b c e m (add_call_event x ''RECONNECT_STARTED'' y (set_next_retry z t d)))"
    for a b c e m x y z t
    unfolding set_next_retry_def by (rule carries_trans [OF carries_trans [OF carries_contact carries_event] carries_audit]) simp
  have skip: "carries k d (log_skip j reason b m (clear_schedule c d))" "carries k d (log_skip j reason b m (set_next_retry c t d))"
    "carries k d (set_next_retry c t d)" for reason b m c t
    by (simp_all add: clear_schedule_def set_next_retry_def skip_carries)
  show ?thesis using assms
    by (auto simp: process_one_def Let_def skip queued intro: later split: option.splits if_splits sum.splits prod.splits enqueue_outcome.splits)
qed

lemma deferred_dial_carries:
  assumes "process_deferred_dial w now up dj (d, sch, q) = (r, d', sch', q')"
  shows "d' = d"
  using assms by (auto simp: process_deferred_dial_def moved_to_def Let_def
    split: option.splits if_splits sum.splits prod.splits enqueue_outcome.splits)

lemma dispatch_entry_carries:
  assumes "dispatch_entry w now i up up2 m (d, sch, q) = (n, d', sch', q')"
  shows "carries k d d'"
proof -
  have "carries k d d1" if "process_member w now i up m (d, s1, q) = (r, d1, s2, q2)" for s1 r d1 s2 q2
    using that by (cases m) (auto dest: process_one_carries deferred_dial_carries)
  then show ?thesis using assms by (auto simp: dispatch_entry_def split: bool.splits prod.splits sum.splits)
qed

lemma dispatch_carries:
  assumes "dispatch_due w now mint redis (d, sch, q) = (n, d', sch', q')"
  shows "carries k d d'"
proof -
  have "carries k d d'" if "dispatch_members w now mint redis ms (d, sch, q) = (n, d', sch', q')" for ms n d sch q
    using that
  proof (induction ms arbitrary: d sch q n)
    case (Cons m ms)
    obtain n1 d1 sch1 q1 where e: "dispatch_entry w now (mint m) (fst (redis m)) (snd (redis m)) m (d, sch, q) = (n1, d1, sch1, q1)"
      by (metis surj_pair)
    with Cons.prems obtain n2 where "dispatch_members w now mint redis ms (d1, sch1, q1) = (n2, d', sch', q')"
      by (auto split: prod.splits)
    from Cons.IH [OF this] dispatch_entry_carries [OF e] show ?case by (blast intro: carries_trans)
  qed simp
  then show ?thesis using assms by (auto simp: dispatch_due_def)
qed

section \<open>Runs of the whole system\<close>

text \<open>
  The state is a dialer worker and the recovery queue. A step is one delivery processed by the dialer, one
  completion webhook, one sweep, one round of the recovery dispatcher, or any other change that keeps the
  attempts (the API, the admin console, the analysis, retention).
\<close>

definition with_db :: "db \<Rightarrow> schedule \<Rightarrow> worker \<Rightarrow> worker" where
  "with_db d sch s = s\<lparr> wk_dialer := (wk_dialer s)\<lparr> dw_db := d, dw_sched := sch \<rparr> \<rparr>"

lemma with_db_sel [simp]: "dw_db (wk_dialer (with_db d sch s)) = d" "dw_sent (wk_dialer (with_db d sch s)) = dw_sent (wk_dialer s)"
  by (simp_all add: with_db_def)

inductive system :: "'p env \<Rightarrow> string \<Rightarrow> worker \<Rightarrow> bool" for w name where
  start: "keys_distinct a_id (attempts (dw_db (wk_dialer s))) \<Longrightarrow> dw_sent (wk_dialer s) = [] \<Longrightarrow> system w name s"
| delivery: "system w name s \<Longrightarrow> process_claimed_job w name dl i j s = (out, s') \<Longrightarrow> others_ok (dl_answers dl) \<Longrightarrow>
    \<not> has_attempt (an_new_attempt (dl_answers dl)) (dw_db (wk_dialer s)) \<Longrightarrow> system w name s'"
| webhook: "system w name s \<Longrightarrow>
    process_dograh_webhook w an p (dw_db (wk_dialer s), dw_sched (wk_dialer s)) = (r, job, d', sch') \<Longrightarrow>
    (\<And>x. carries k x (ha_others an x)) \<Longrightarrow> system w name (with_db d' sch' s)"
| sweep: "system w name s \<Longrightarrow>
    sweep_stuck_attempts (ev_settings w) blocked locked now after batch (dw_db (wk_dialer s)) = (res, d') \<Longrightarrow>
    system w name (with_db d' (dw_sched (wk_dialer s)) s)"
| dispatch: "system w name s \<Longrightarrow>
    dispatch_due w now mint redis (dw_db (wk_dialer s), dw_sched (wk_dialer s), q) = (n, d', sch', q') \<Longrightarrow>
    system w name (with_db d' sch' s)"
| other: "system w name s \<Longrightarrow> carries k (dw_db (wk_dialer s)) (dw_db (wk_dialer s')) \<Longrightarrow>
    dw_sent (wk_dialer s') = dw_sent (wk_dialer s) \<Longrightarrow> system w name s'"

lemma system_history: "system w name s \<Longrightarrow> history w name s"
proof (induction rule: system.induct)
  case (webhook s an p r job d' sch' k)
  show ?case by (rule history.others [OF webhook(4), of k]) (simp_all add: webhook_carries [OF webhook(2,3)])
next
  case (sweep s blocked locked now after batch res d')
  show ?case by (rule history.others [OF sweep(3), of 0]) (simp_all add: sweep_carries [OF sweep(2)])
next
  case (dispatch s now mint redis q n d' sch' q')
  show ?case by (rule history.others [OF dispatch(3), of 0]) (simp_all add: dispatch_carries [OF dispatch(2)])
qed (auto intro: history.intros)

lemma history_calls_ok: "history w name s \<Longrightarrow> st_calling_engine (ev_settings w) = ''dograh'' \<Longrightarrow> calls_ok (wk_dialer s)"
proof (induction rule: history.induct)
  case (start s)
  then show ?case by (simp add: calls_ok_def possible_calls_def)
next
  case (job s dl i j out s')
  then show ?case using process_claimed_job_ok by blast
next
  case (others s k s')
  then show ?case using calls_ok_carries by blast
qed

text \<open>
  C1: in any run of the system, whatever the order in which the dialer, the completion webhooks, the sweeper,
  the recovery dispatcher and the other writers act, and however often a delivery is repeated or a process dies,
  no attempt ever sends two trigger requests that may have placed a call.
\<close>

theorem system_places_no_second_call:
  assumes "system w name s" "st_calling_engine (ev_settings w) = ''dograh''"
  shows "distinct (possible_calls (wk_dialer s))"
  using history_calls_ok [OF system_history [OF assms(1)] assms(2)] by (simp add: calls_ok_def)

end
