(* ===== verification/Outcome_Types.thy ===== *)
theory Outcome_Types imports Webhook_Contract Sweeper Telephony_Webhook begin

text \<open>
  The shape of a call attempt is an invariant of everything that reports the outcome of a call: the completion
  webhook, the sweeper and the native call-status webhook.
\<close>

definition typed_attempts :: "db \<Rightarrow> bool" where
  "typed_attempts d \<longleftrightarrow> (\<forall>i a. get_attempt i d = Some a \<longrightarrow> attempt_shape a)"

lemma typed_same: "attempts d' = attempts d \<Longrightarrow> typed_attempts d' = typed_attempts d"
  by (simp add: typed_attempts_def get_attempt_def)

lemma typed_audited: "audited d d' \<Longrightarrow> typed_attempts d' = typed_attempts d"
  by (rule typed_same) (auto simp: audited_def)

lemma reopened_shape:
  assumes "attempt_shape a" "u \<or> a_state a \<notin> terminal_states" "u \<longrightarrow> a_state a = A_FAILED_TO_CONNECT"
  shows "attempt_shape (fst (record_delivery w an p u opted (a, c, d))) \<and>
    a_state (fst (record_delivery w an p u opted (a, c, d))) \<notin> terminal_states"
  using assms by (auto simp: attempt_shape_def record_delivery_sel terminal_states_def)

lemma webhook_keeps_types:
  assumes "process_dograh_webhook w an p (d, sch) = (r, job, d', sch')" "typed_attempts d"
    and "typed_attempts (ha_others an d)" "\<forall>i. rows_kept i d (ha_others an d)"
  shows "typed_attempts d'"
proof (cases "\<exists>i o'. r = Inr (i, o') \<and> o' \<in> final_outcomes")
  case True
  then obtain i o' where r: "r = Inr (i, o')" "o' \<in> final_outcomes" by blast
  let ?out = "classify_call_outcome (wh_status p) (wh_disposition p)"
  obtain a c camp d1 where f: "get_attempt i d = Some a" "get_contact (a_contact a) d = Some c"
    "is_unresolved_ambiguous_trigger a d \<or> a_state a \<notin> terminal_states"
    "claim_event (ha_now an) (event_id_of p) ''dograh.call_completed'' (ha_others an d) = (True, d1)"
    "complete_call w an p ?out (is_unresolved_ambiguous_trigger a d) camp (ha_others an d) sch (a, c, d1) = (Inr (i, o'), job, d', sch')"
    by (rule process_final [OF assms(1) [unfolded r(1)] r(2)]) (rule that)
  have sync: "in_step (a, c, d1)" by (rule claimed_in_step [OF f(1,2) _ f(4)]) (use assms(4) in blast)
  have u: "is_unresolved_ambiguous_trigger a d \<longrightarrow> a_state a = A_FAILED_TO_CONNECT" by (simp add: is_unresolved_ambiguous_trigger_def)
  have "attempt_shape a" using assms(2) f(1) by (simp add: typed_attempts_def)
  note shape = reopened_shape [OF this f(3) u]
  have same: "get_attempt j d1 = get_attempt j (ha_others an d)" for j
    using claim_event_Some [OF f(4)] by (simp add: get_attempt_def)
  show ?thesis
  proof (rule complete_call_cases [OF f(5) refl])
    fix a' x
    assume s: "settled_as (a, c, d1) a' (outcome_state x) (ha_now an) d'"
      and sh: "attempt_shape (fst (record_delivery w an p (is_unresolved_ambiguous_trigger a d)
          (is_opt_out (wh_disposition p) (wh_mapped p) (st_opt_out_dispositions (ev_settings w))) (a, c, d1))) \<and>
        a_state (fst (record_delivery w an p (is_unresolved_ambiguous_trigger a d)
          (is_opt_out (wh_disposition p) (wh_mapped p) (st_opt_out_dispositions (ev_settings w))) (a, c, d1))) \<notin> terminal_states \<longrightarrow> attempt_shape a'"
    have "attempt_shape a'" using sh shape by blast
    then have "attempt_shape b" if "get_attempt j d' = Some b" for j b
      using s sync same that assms(3) by (cases "j = a_id a") (auto simp: settled_as_def typed_attempts_def)
    then show ?thesis by (simp add: typed_attempts_def)
  qed simp
next
  case False
  then have "audited d d' \<or> audited (ha_others an d) d'" using refused_only_audited [OF assms(1)] by blast
  then show ?thesis using assms(2,3) typed_audited by blast
qed

lemma swept_shape: "attempt_shape a \<Longrightarrow> a_state a = A_INITIATED \<Longrightarrow> attempt_shape (swept_attempt now a)"
  by (auto simp: attempt_shape_def swept_attempt_def terminal_states_def)

lemma sweep_keeps_types:
  assumes "sweep_stuck_attempts st blocked locked now after batch d = (res, d')" "typed_attempts d" "keys_distinct a_id (attempts d)"
  shows "typed_attempts d'"
proof (cases blocked)
  case True
  then show ?thesis using assms by (simp add: sweep_stuck_attempts_def)
next
  case False
  obtain rows where d': "d' = mark_all now rows d" and rows: "\<And>a c. (a, c) \<in> set rows \<Longrightarrow> a \<in> set (attempts d) \<and> a_state a = A_INITIATED"
    using assms(1) False stuck_rowsD by (fastforce simp: sweep_stuck_attempts_def Let_def stuck_def)
  have "attempt_shape b" if "get_attempt j d' = Some b" for j b
  proof (cases "\<exists>r \<in> set rows. a_id (fst r) = j \<and> a_provider_call_id (fst r) = None")
    case True
    then obtain a c where r: "(a, c) \<in> set rows" "a_id a = j" by force
    then have "get_attempt j d = Some a" using rows [OF r(1)] assms(3) unfolding get_attempt_def by (simp add: get_row_Some_iff)
    then show ?thesis using that True rows [OF r(1)] assms(2) unfolding d' mark_all_attempt
      by (auto simp: typed_attempts_def intro: swept_shape)
  next
    case False
    then show ?thesis using that assms(2) unfolding d' mark_all_attempt if_not_P [OF False] by (simp add: typed_attempts_def)
  qed
  then show ?thesis by (simp add: typed_attempts_def)
qed

lemma by_provider_get_attempt:
  "keys_distinct a_id (attempts d) \<Longrightarrow> get_by_provider_call_id x d = Some a \<Longrightarrow> get_attempt (a_id a) d = Some a"
  unfolding get_by_provider_call_id_def get_attempt_def by (auto simp: get_row_Some_iff find_Some_iff)

lemma call_status_keeps_types:
  assumes "process_call_status others now p d = (r, d')" "typed_attempts d" "keys_distinct a_id (attempts d)"
    and "typed_attempts (others d)" "\<forall>i. rows_kept i d (others d)"
  shows "typed_attempts d'"
proof -
  have claim: "typed_attempts y = typed_attempts x" if "claim_event t e ty x = (b, y)" for t e ty x b y
    using that by (intro typed_same) (auto simp: claim_event_def split: if_splits)
  have audit: "typed_attempts (record_audit_event a b c e m x) = typed_attempts x" for a b c e m x by (rule typed_same) simp
  have con: "typed_attempts (upd_contact i f x) = typed_attempts x" for i f x by (rule typed_same) simp
  have upd: "typed_attempts (upd_attempt (a_id a) f (others d))"
    if a: "get_by_provider_call_id q d = Some a" "a_ended_at a = None" and f: "\<And>b. a_id (f b) = a_id b" "attempt_shape (f a)" for q a f
  proof -
    have "get_attempt (a_id a) (others d) = Some a" using by_provider_get_attempt [OF assms(3) a(1)] assms(5) by (simp add: rows_kept_def)
    then show ?thesis using f assms(4) by (auto simp: typed_attempts_def get_attempt_upd split: if_splits)
  qed
  have twice: "upd_attempt i g (upd_attempt i f x) = upd_attempt i (\<lambda>b. g (f b)) x" if "\<And>b. a_id (f b) = a_id b" for i f g x
    using that by (simp add: upd_attempt_def upd_row_def comp_def)
  have st: "typed_attempts d1" if "apply_status now p a c (others d) = Inr d1" "get_by_provider_call_id q d = Some a" "a_ended_at a = None" for a c d1 q
  proof -
    have sh: "attempt_shape a" using by_provider_get_attempt [OF assms(3) that(2)] assms(2) by (simp add: typed_attempts_def)
    show ?thesis using that sh
      by (auto simp: apply_status_def Let_def con twice attempt_shape_def terminal_states_def intro!: upd split: if_splits option.splits)
  qed
  show ?thesis using assms(1,2,4) st
    by (auto simp: process_call_status_def audit claim split: if_splits option.splits sum.splits prod.splits bool.splits dest!: claim)
qed

section \<open>Any sequence of reports\<close>

text \<open>One report: what other transactions do in the middle of it keeps the shapes, the keys and the loaded rows.\<close>

definition calm :: "(db \<Rightarrow> db) \<Rightarrow> db \<Rightarrow> bool" where
  "calm f d \<longleftrightarrow> (typed_attempts d \<longrightarrow> typed_attempts (f d)) \<and> (\<forall>i. rows_kept i d (f d))"

inductive reported :: "'p env \<Rightarrow> db \<Rightarrow> db \<Rightarrow> bool" for w d0 where
  begin_with: "reported w d0 d0"
| by_webhook: "reported w d0 d \<Longrightarrow> process_dograh_webhook w an p (d, sch) = (r, job, d', sch') \<Longrightarrow>
    calm (ha_others an) d \<Longrightarrow> keys_distinct a_id (attempts d) \<Longrightarrow> reported w d0 d'"
| by_sweep: "reported w d0 d \<Longrightarrow> sweep_stuck_attempts (ev_settings w) blocked locked now after batch d = (res, d') \<Longrightarrow>
    keys_distinct a_id (attempts d) \<Longrightarrow> reported w d0 d'"
| by_status: "reported w d0 d \<Longrightarrow> process_call_status others now q d = (s, d') \<Longrightarrow> calm others d \<Longrightarrow>
    keys_distinct a_id (attempts d) \<Longrightarrow> reported w d0 d'"

text \<open>
  C29: after any sequence of completion webhooks, sweeps and call-status webhooks, in any order, every attempt is
  well formed if it was before: it has an end time exactly when its state is terminal, a connection-failure
  reason only when it failed to connect, and a disconnect reason exactly when the call dropped.
\<close>

theorem attempts_stay_typed:
  assumes "reported w d0 d" "typed_attempts d0"
  shows "typed_attempts d"
  using assms
proof (induction rule: reported.induct)
  case (by_webhook d an p sch r job d' sch')
  then show ?case using webhook_keeps_types [OF by_webhook(2)] by (simp add: calm_def)
next
  case (by_sweep d blocked locked now after batch res d')
  then show ?case using sweep_keeps_types [OF by_sweep(2)] by blast
next
  case (by_status d others now q s d')
  then show ?case using call_status_keeps_types [OF by_status(2)] by (simp add: calm_def)
qed

end
