(* ===== verification/Report_Runs.thy ===== *)
theory Report_Runs imports Dialer_Runs System_Safety Outcome_Types begin

text \<open>Concrete deliveries of the completion webhook and sweeps: the properties applied to them.\<close>

definition dialed_attempt :: call_attempt where
  "dialed_attempt = (new_attempt 0 20 1 1)\<lparr> a_provider := Some ''dograh'', a_provider_call_id := Some ''5'' \<rparr>"

definition dialed_db :: db where
  "dialed_db = ready_db\<lparr> contacts := [pending_contact\<lparr> c_status := C_DIALING, c_attempt_count := 1 \<rparr>], attempts := [dialed_attempt] \<rparr>"

definition opt_out_hook :: webhook where
  "opt_out_hook = \<lparr> wh_attempt = uuid_text 20, wh_contact = None, wh_campaign = None, wh_run = Some (Id_int 5), wh_workflow = None,
     wh_status = Some ''completed'', wh_disposition = Some ''do_not_call'', wh_mapped = None, wh_duration = None, wh_transcript = None \<rparr>"

definition calm_answers :: hook_answers where
  "calm_answers = \<lparr> ha_now = noon, ha_suppression = 60, ha_session = 61, ha_analysis = 62, ha_redis = True, ha_repr = (\<lambda>_. []),
     ha_fetch = (\<lambda>_. unavailable ''url_blocked''), ha_others = (\<lambda>d. d) \<rparr>"

lemma opt_out_classified: "classify_call_outcome (Some ''completed'') (Some ''do_not_call'') = oc_ended \<and>
    is_opt_out (Some ''do_not_call'') None (st_opt_out_dispositions default_settings)"
  by code_simp

lemma opt_out_run: "fst (process_dograh_webhook dograh_env calm_answers opt_out_hook (dialed_db, [])) = Inr (20, Ended_normally)"
  by code_simp

lemma opt_out_result:
  obtains job d' sch' where "process_dograh_webhook dograh_env calm_answers opt_out_hook (dialed_db, []) = (Inr (20, Ended_normally), job, d', sch')"
  using opt_out_run by (metis prod.collapse)

lemma calm_others [simp]: "ha_others calm_answers = (\<lambda>d. d)" "st_opt_out_dispositions (ev_settings dograh_env) = st_opt_out_dispositions default_settings"
  by (simp_all add: calm_answers_def dograh_env_def)

lemma opt_out_sel [simp]: "wh_status opt_out_hook = Some ''completed''" "wh_disposition opt_out_hook = Some ''do_not_call''"
  "wh_mapped opt_out_hook = None" "wh_run opt_out_hook = Some (Id_int 5)"
  by (simp_all add: opt_out_hook_def)

lemma rows_kept_refl [simp]: "rows_kept i d d" by (simp add: rows_kept_def)

theorem webhook_processed_once_witness:
  "\<exists>job d' sch' k. process_dograh_webhook dograh_env calm_answers opt_out_hook (dialed_db, []) = (Inr (20, Ended_normally), job, d', sch') \<and>
    process_dograh_webhook dograh_env calm_answers opt_out_hook (d', sch') = (Inr (k, Already_processed), None, d', sch')"
proof -
  obtain job d' sch' where r: "process_dograh_webhook dograh_env calm_answers opt_out_hook (dialed_db, []) = (Inr (20, Ended_normally), job, d', sch')"
    by (rule opt_out_result)
  from webhook_processed_once [OF r, of opt_out_hook d'] r show ?thesis by (auto simp: final_outcomes_def)
qed

lemma unreadable_hook: "fst (process_dograh_webhook dograh_env calm_answers (opt_out_hook\<lparr> wh_attempt := ''x'' \<rparr>) (dialed_db, [])) = Inl Unprocessable"
  by code_simp

theorem webhook_refused_changes_nothing_witness:
  "\<exists>job d' sch'. process_dograh_webhook dograh_env calm_answers (opt_out_hook\<lparr> wh_attempt := ''x'' \<rparr>) (dialed_db, []) = (Inl Unprocessable, job, d', sch') \<and>
    job = None \<and> sch' = [] \<and> audited dialed_db d'"
proof -
  obtain job d' sch' where r: "process_dograh_webhook dograh_env calm_answers (opt_out_hook\<lparr> wh_attempt := ''x'' \<rparr>) (dialed_db, []) =
      (Inl Unprocessable, job, d', sch')" using unreadable_hook by (metis prod.collapse)
  from webhook_refused_changes_nothing [OF r] r show ?thesis by simp
qed

theorem webhook_settles_its_call_witness:
  "\<exists>job d' sch' a'. process_dograh_webhook dograh_env calm_answers opt_out_hook (dialed_db, []) = (Inr (20, Ended_normally), job, d', sch') \<and>
    get_attempt 20 d' = Some a' \<and> a_state a' = A_ENDED_NORMALLY \<and> a_provider_call_id a' = Some ''5''"
proof -
  obtain job d' sch' where r: "process_dograh_webhook dograh_env calm_answers opt_out_hook (dialed_db, []) = (Inr (20, Ended_normally), job, d', sch')"
    by (rule opt_out_result)
  have t: "int_text 5 = ''5''" by code_simp
  from webhook_settles_its_call [OF r] r show ?thesis by (auto simp: final_outcomes_def t)
qed

theorem webhook_opt_out_final_witness:
  "\<exists>job d' sch' c'. process_dograh_webhook dograh_env calm_answers opt_out_hook (dialed_db, []) = (Inr (20, Ended_normally), job, d', sch') \<and>
    get_contact 1 d' = Some c' \<and> c_status c' = C_CLOSED \<and> is_suppressed dograh_env (c_number pending_contact) d'"
proof -
  obtain job d' sch' where r: "process_dograh_webhook dograh_env calm_answers opt_out_hook (dialed_db, []) = (Inr (20, Ended_normally), job, d', sch')"
    by (rule opt_out_result)
  have a: "get_attempt 20 dialed_db = Some dialed_attempt" "a_contact dialed_attempt = 1" "suppressions dialed_db = []"
    "get_contact 1 dialed_db = Some (pending_contact\<lparr> c_status := C_DIALING, c_attempt_count := 1 \<rparr>)" "c_id pending_contact = 1"
    by (simp_all add: dialed_db_def dialed_attempt_def get_attempt_def get_contact_def get_row_Cons ready_db_def empty_db_def
      pending_contact_def sample_contact_def)
  from webhook_opt_out_final [OF r] opt_out_classified r a show ?thesis by (auto simp: final_outcomes_def)
qed

theorem system_places_no_second_call_witness:
  "\<exists>s'. system dograh_env ''w'' s' \<and> possible_calls (wk_dialer s') = [50] \<and> distinct (possible_calls (wk_dialer s'))"
proof -
  obtain out s1 where r: "process_claimed_job dograh_env ''w'' sample_delivery 0 first_attempt (idle_worker ready_db) = (out, s1)"
    "dw_sent (wk_dialer s1) = [(50, True)]" by (rule sample_run_result)
  have "system dograh_env ''w'' (idle_worker ready_db)" by (rule system.start) (simp_all add: keys_distinct_def)
  then have s1: "system dograh_env ''w'' s1"
    by (rule system.delivery [OF _ r(1)]) (simp_all add: sample_others has_attempt_def get_attempt_def)
  obtain x job d' sch' where h: "process_dograh_webhook dograh_env calm_answers opt_out_hook (dw_db (wk_dialer s1), dw_sched (wk_dialer s1)) =
      (x, job, d', sch')" by (metis surj_pair)
  have "system dograh_env ''w'' (with_db d' sch' s1)" by (rule system.webhook [OF s1 h]) simp
  from system_places_no_second_call [OF this] this r show ?thesis
    by (intro exI [of _ "with_db d' sch' s1"]) (simp add: possible_calls_def)
qed

definition lost_db :: db where
  "lost_db = dialed_db\<lparr> attempts := [new_attempt 0 20 1 1] \<rparr>"

lemma lost_shapes: "typed_attempts lost_db" "keys_distinct a_id (attempts lost_db)" "typed_attempts dialed_db" "keys_distinct a_id (attempts dialed_db)"
  by (auto simp: typed_attempts_def lost_db_def dialed_db_def dialed_attempt_def get_attempt_def get_row_Cons new_attempt_def
    attempt_shape_def terminal_states_def keys_distinct_def split: if_splits)

lemma lost_rows: "stuck_rows (noon - seconds (or_setting None (st_stuck_after_s default_settings))) (\<lambda>_. False)
    (nat (or_setting None (st_sweeper_batch default_settings))) lost_db = [(new_attempt 0 20 1 1, pending_contact\<lparr> c_status := C_DIALING, c_attempt_count := 1 \<rparr>)]"
  by code_simp

theorem sweep_marks_stuck_only_witness:
  "\<exists>res d' a'. sweep_stuck_attempts default_settings False (\<lambda>_. False) noon None None lost_db = (res, d') \<and> sw_actioned res = 1 \<and>
    get_attempt 20 d' = Some a' \<and> is_unresolved_ambiguous_trigger a' d'"
proof -
  obtain res d' where r: "sweep_stuck_attempts default_settings False (\<lambda>_. False) noon None None lost_db = (res, d')"
    by (metis surj_pair)
  from sweep_marks_stuck_only [OF r lost_shapes(2) _ refl] r lost_rows show ?thesis by auto
qed

theorem attempts_stay_typed_witness:
  "\<exists>r job d' sch'. process_dograh_webhook dograh_env calm_answers opt_out_hook (dialed_db, []) = (r, job, d', sch') \<and> typed_attempts d'"
proof -
  obtain job d' sch' where r: "process_dograh_webhook dograh_env calm_answers opt_out_hook (dialed_db, []) = (Inr (20, Ended_normally), job, d', sch')"
    by (rule opt_out_result)
  have "reported dograh_env dialed_db d'"
    by (rule reported.by_webhook [OF reported.begin_with r]) (simp_all add: calm_def lost_shapes)
  from attempts_stay_typed [OF this lost_shapes(3)] r show ?thesis by blast
qed

end
