(* ===== verification/Analysis_Repository.thy ===== *)
theory Analysis_Repository imports Analysis_Admission Calling_Window begin

text \<open>
  \<open>app/services/analysis/repository.py\<close>, \<open>budget.py\<close>, \<open>failure.py\<close> and \<open>scoring.py\<close>: who owns an analysis, the ledger of
  its estimated cost, the classification and timing of retries, the lead score. An atomic conditional \<open>UPDATE\<close>
  is a function on the database with the flag whether it matched. \<open>z\<close> is the zone of \<open>budget_timezone\<close> (checked at
  start-up); costs have at most the six decimals of their columns. \<open>an_output\<close> is what \<open>complete\<close> stores of the
  model's answer and its provenance.
\<close>

section \<open>The ledger\<close>

datatype budget_decision = B_RESERVED | B_NOT_REQUIRED | B_NOT_CONFIGURED | B_CAP_REACHED

fun budget_value :: "budget_decision \<Rightarrow> string" where
  "budget_value B_RESERVED = ''reserved''"
| "budget_value B_NOT_REQUIRED = ''not_required''"
| "budget_value B_NOT_CONFIGURED = ''budget_not_configured''"
| "budget_value B_CAP_REACHED = ''budget_cap_reached''"

definition upd_analysis :: "uuid \<Rightarrow> (call_analysis \<Rightarrow> call_analysis) \<Rightarrow> db \<Rightarrow> db" where
  "upd_analysis i f d = d\<lparr> analyses := upd_row an_id i f (analyses d) \<rparr>"

definition budget_required :: "analysis_settings \<Rightarrow> bool" where
  "budget_required st \<longleftrightarrow> as_provider st \<noteq> ''mock''"

definition ledger :: "int \<Rightarrow> db \<Rightarrow> rat option" where
  "ledger day d = map_option snd (get_row fst day (budget_days d))"

text \<open>The conditional upsert: the first row of a day is unconditional.\<close>

definition ledger_add :: "int \<Rightarrow> rat \<Rightarrow> rat \<Rightarrow> db \<Rightarrow> bool \<times> db" where
  "ledger_add day cost cap d =
    (case ledger day d of
       None \<Rightarrow> (True, d\<lparr> budget_days := budget_days d @ [(day, cost)] \<rparr>)
     | Some x \<Rightarrow> if x + cost \<le> cap
                then (True, d\<lparr> budget_days := upd_row fst day (\<lambda>(k, v). (k, v + cost)) (budget_days d) \<rparr>)
                else (False, d))"

definition reserve :: "analysis_settings \<Rightarrow> zone \<Rightarrow> call_analysis \<Rightarrow> instant \<Rightarrow> db \<Rightarrow> budget_decision \<times> db" where
  "reserve st z an now d =
    (if \<not> budget_required st then (B_NOT_REQUIRED, d)
     else if an_reserved_cost an \<noteq> None then (B_RESERVED, d)
     else case (as_cap st, as_cost st) of
       (Some cap, Some cost) \<Rightarrow>
         if cost > cap then (B_CAP_REACHED, d)
         else (case ledger_add (local_date z now) cost cap d of
                 (False, d1) \<Rightarrow> (B_CAP_REACHED, d1)
               | (True, d1) \<Rightarrow> (B_RESERVED,
                   upd_analysis (an_id an) (\<lambda>r. r\<lparr> an_budget_day := Some (local_date z now), an_reserved_cost := Some cost \<rparr>) d1))
     | _ \<Rightarrow> (B_NOT_CONFIGURED, d))"

definition budget_release :: "int option \<Rightarrow> rat option \<Rightarrow> db \<Rightarrow> db" where
  "budget_release day cost d =
    (case (day, cost) of
       (Some k, Some c) \<Rightarrow>
         if c \<le> 0 then d else d\<lparr> budget_days := upd_row fst k (\<lambda>(j, v). (j, max (v - c) 0)) (budget_days d) \<rparr>
     | _ \<Rightarrow> d)"

section \<open>Claims\<close>

definition terminal_analysis :: "analysis_status \<Rightarrow> bool" where
  "terminal_analysis s \<longleftrightarrow> s \<in> {AN_COMPLETED, AN_FAILED, AN_SKIPPED}"

definition le_opt :: "instant option \<Rightarrow> instant \<Rightarrow> bool" where
  "le_opt t now \<longleftrightarrow> (case t of None \<Rightarrow> False | Some x \<Rightarrow> x \<le> now)"

definition lt_opt :: "instant option \<Rightarrow> instant \<Rightarrow> bool" where
  "lt_opt t now \<longleftrightarrow> (case t of None \<Rightarrow> False | Some x \<Rightarrow> x < now)"

definition claimable :: "instant \<Rightarrow> int \<Rightarrow> call_analysis \<Rightarrow> bool" where
  "claimable now max_attempts an \<longleftrightarrow> an_attempt_count an < max_attempts \<and>
    ((an_status an = AN_PENDING \<and> (an_next_attempt an = None \<or> le_opt (an_next_attempt an) now)) \<or>
     (an_status an = AN_RETRY_WAIT \<and> le_opt (an_next_attempt an) now) \<or>
     (an_status an = AN_PROCESSING \<and> lt_opt (an_lease_expires an) now))"

definition claimed_row :: "instant \<Rightarrow> uuid \<Rightarrow> int \<Rightarrow> call_analysis \<Rightarrow> call_analysis" where
  "claimed_row now token lease_s an = an\<lparr> an_status := AN_PROCESSING, an_attempt_count := an_attempt_count an + 1,
     an_claim_token := Some token, an_lease_expires := Some (now + seconds lease_s), an_processing_started := Some now,
     an_next_attempt := None \<rparr>"

definition analysis_defer :: "analysis_settings \<Rightarrow> uuid \<Rightarrow> string \<Rightarrow> instant \<Rightarrow> db \<Rightarrow> db" where
  "analysis_defer st i reason now = upd_analysis i (\<lambda>r. if an_status r \<in> {AN_PENDING, AN_RETRY_WAIT}
     then r\<lparr> an_next_attempt := Some (now + seconds (as_recheck_s st)), an_error_code := Some reason \<rparr> else r)"

datatype claim_result = Claimed call_analysis uuid | Deferred string | Unclaimable

text \<open>Claim and reservation share a savepoint: a refused reservation undoes the claim.\<close>

definition claim_for_processing :: "analysis_settings \<Rightarrow> zone \<Rightarrow> uuid \<Rightarrow> uuid \<Rightarrow> instant \<Rightarrow> db \<Rightarrow> claim_result \<times> db" where
  "claim_for_processing st z i token now d =
    (case get_analysis i d of
       None \<Rightarrow> (Unclaimable, d)
     | Some an \<Rightarrow>
        if \<not> claimable now (as_max_attempts st) an then (Unclaimable, d)
        else let an1 = claimed_row now token (as_lease_s st) an;
                 d1 = upd_analysis i (claimed_row now token (as_lease_s st)) d
             in case reserve st z an1 now d1 of
                  (dec, d2) \<Rightarrow>
                    if dec \<in> {B_NOT_CONFIGURED, B_CAP_REACHED}
                    then (Deferred (budget_value dec), analysis_defer st i (budget_value dec) now d)
                    else (case get_analysis i d2 of Some an2 \<Rightarrow> (Claimed an2 token, d2) | None \<Rightarrow> (Unclaimable, d2)))"

section \<open>Fenced writes\<close>

definition owns :: "uuid \<Rightarrow> call_analysis \<Rightarrow> bool" where
  "owns token an \<longleftrightarrow> an_claim_token an = Some token \<and> an_status an = AN_PROCESSING"

definition fenced :: "uuid \<Rightarrow> uuid \<Rightarrow> (call_analysis \<Rightarrow> call_analysis) \<Rightarrow> db \<Rightarrow> bool \<times> db" where
  "fenced i token f d =
    (case get_analysis i d of
       None \<Rightarrow> (False, d)
     | Some an \<Rightarrow> if owns token an then (True, upd_analysis i f d) else (False, d))"

definition renew_lease :: "analysis_settings \<Rightarrow> uuid \<Rightarrow> uuid \<Rightarrow> instant \<Rightarrow> db \<Rightarrow> bool \<times> db" where
  "renew_lease st i token now = fenced i token (\<lambda>r. r\<lparr> an_lease_expires := Some (now + seconds (as_lease_s st)) \<rparr>)"

definition let_go :: "call_analysis \<Rightarrow> call_analysis" where
  "let_go r = r\<lparr> an_claim_token := None, an_lease_expires := None \<rparr>"

definition complete_analysis :: "uuid \<Rightarrow> uuid \<Rightarrow> instant \<Rightarrow> payload \<Rightarrow> int \<Rightarrow> bool \<Rightarrow> db \<Rightarrow> bool \<times> db" where
  "complete_analysis i token now output score truncated = fenced i token (\<lambda>r. (let_go r)\<lparr> an_status := AN_COMPLETED,
     an_completed_at := Some now, an_error_code := None, an_next_attempt := None, an_output := output,
     an_lead_score := Some score, an_truncated := truncated \<rparr>)"

definition schedule_analysis_retry :: "uuid \<Rightarrow> uuid \<Rightarrow> instant \<Rightarrow> string \<Rightarrow> instant \<Rightarrow> bool \<Rightarrow> db \<Rightarrow> bool \<times> db" where
  "schedule_analysis_retry i token now code at_time refund = fenced i token (\<lambda>r. (let_go r)\<lparr> an_status := AN_RETRY_WAIT,
     an_failed_at := Some now, an_error_code := Some code, an_next_attempt := Some at_time,
     an_attempt_count := (if refund then an_attempt_count r - 1 else an_attempt_count r) \<rparr>)"

definition finished :: "analysis_status \<Rightarrow> instant \<Rightarrow> string \<Rightarrow> call_analysis \<Rightarrow> call_analysis" where
  "finished s now code r = (let_go r)\<lparr> an_status := s, an_failed_at := Some now, an_error_code := Some code, an_next_attempt := None \<rparr>"

definition fail_analysis :: "uuid \<Rightarrow> uuid \<Rightarrow> instant \<Rightarrow> string \<Rightarrow> db \<Rightarrow> bool \<times> db" where
  "fail_analysis i token now code = fenced i token (finished AN_FAILED now code)"

definition skip_analysis :: "uuid \<Rightarrow> uuid \<Rightarrow> instant \<Rightarrow> string \<Rightarrow> bool \<Rightarrow> db \<Rightarrow> bool \<times> db" where
  "skip_analysis i token now code release_budget d =
    (let before = get_analysis i d;
         day = (case before of None \<Rightarrow> None | Some b \<Rightarrow> an_budget_day b);
         cost = (case before of None \<Rightarrow> None | Some b \<Rightarrow> an_reserved_cost b);
         zero = release_budget \<and> cost \<noteq> None \<and> cost \<noteq> Some 0
     in case fenced i token (\<lambda>r. let q = finished AN_SKIPPED now code r
                                 in if zero then q\<lparr> an_reserved_cost := Some 0 \<rparr> else q) d of
          (True, d1) \<Rightarrow> (True, if release_budget then budget_release day cost d1 else d1)
        | (False, d1) \<Rightarrow> (False, d1))"

definition stuck_analysis :: "instant \<Rightarrow> int \<Rightarrow> call_analysis \<Rightarrow> bool" where
  "stuck_analysis now max_attempts an \<longleftrightarrow> an_attempt_count an \<ge> max_attempts \<and>
    (an_status an \<in> {AN_PENDING, AN_RETRY_WAIT} \<or> (an_status an = AN_PROCESSING \<and> lt_opt (an_lease_expires an) now))"

definition ERR_LEASE_EXPIRED :: string where "ERR_LEASE_EXPIRED = ''lease_expired_attempts_exhausted''"

text \<open>\<open>locked\<close> are the rows other transactions hold; the query has no order.\<close>

definition finalize_exhausted :: "analysis_settings \<Rightarrow> (uuid \<Rightarrow> bool) \<Rightarrow> instant \<Rightarrow> uuid option \<Rightarrow> nat \<Rightarrow> db \<Rightarrow> nat \<times> db" where
  "finalize_exhausted st locked now only limit d =
    (let ids = take limit (map an_id (filter (\<lambda>r. stuck_analysis now (as_max_attempts st) r \<and> \<not> locked (an_id r) \<and>
                 (only = None \<or> only = Some (an_id r))) (analyses d)))
     in (length ids, d\<lparr> analyses := update_where (\<lambda>r. an_id r \<in> set ids) (finished AN_FAILED now ERR_LEASE_EXPIRED) (analyses d) \<rparr>))"

section \<open>Classification and timing of failures\<close>

datatype llm_error = Not_ready | Unavailable | Rate_limited "int option" | Permanent | Invalid_output | Provider_timeout
  | Provider_error | Unrecognised

datatype failure_kind = K_TRANSIENT | K_RATE_LIMITED | K_INVALID_OUTPUT | K_PERMANENT | K_QA_NOT_READY | K_QA_UNAVAILABLE

fun classify_failure :: "llm_error \<Rightarrow> failure_kind \<times> string \<times> int option" where
  "classify_failure Not_ready = (K_QA_NOT_READY, ''qa_not_ready'', None)"
| "classify_failure Unavailable = (K_QA_UNAVAILABLE, ''qa_unavailable'', None)"
| "classify_failure (Rate_limited ra) = (K_RATE_LIMITED, ''provider_rate_limited'', ra)"
| "classify_failure Permanent = (K_PERMANENT, ''provider_permanent_error'', None)"
| "classify_failure Invalid_output = (K_INVALID_OUTPUT, ''invalid_output'', None)"
| "classify_failure Provider_timeout = (K_TRANSIENT, ''provider_timeout'', None)"
| "classify_failure Provider_error = (K_TRANSIENT, ''provider_unavailable'', None)"
| "classify_failure Unrecognised = (K_TRANSIENT, ''provider_unavailable'', None)"

text \<open>\<open>u\<close> is the draw of the random generator, in \<open>[0, 1)\<close>.\<close>

definition backoff_seconds :: "int \<Rightarrow> int \<Rightarrow> int \<Rightarrow> int option \<Rightarrow> rat \<Rightarrow> rat" where
  "backoff_seconds attempt base cap retry_after u =
    (let delay = of_int (min cap (base * 2 ^ nat (max (attempt - 1) 0))) * (1 / 2 + 1 / 2 * u)
     in case retry_after of
          Some r \<Rightarrow> if r > 0 then max delay (of_int (min r cap)) else delay
        | None \<Rightarrow> delay)"

definition poll_delay_seconds :: "rat \<Rightarrow> int \<Rightarrow> int \<Rightarrow> rat \<Rightarrow> rat" where
  "poll_delay_seconds elapsed base cap u = min (of_int cap) (max (of_int base) (elapsed * (1 / 2))) * (3 / 4 + 1 / 4 * u)"

section \<open>The lead score\<close>

record scoring_signals =
  sg_explicit_interest :: bool
  sg_purchase_intent :: bool
  sg_requested_callback :: bool
  sg_requested_pricing :: bool
  sg_has_timeline :: bool
  sg_objection_count :: int
  sg_explicit_rejection :: bool
  sg_opted_out :: bool
  sg_information_requested :: bool

definition points :: "bool \<Rightarrow> int \<Rightarrow> int" where "points b n = (if b then n else 0)"

definition compute_lead_score :: "scoring_signals \<Rightarrow> int" where
  "compute_lead_score s =
    (if sg_opted_out s then 0
     else let score = points (sg_explicit_interest s) 35 + points (sg_purchase_intent s) 25 + points (sg_requested_callback s) 20
                + points (sg_requested_pricing s) 10 + points (sg_has_timeline s) 10 + points (sg_information_requested s) 10;
              penalised = score - min (sg_objection_count s * 8) 24;
              final = (if sg_explicit_rejection s then penalised - 40 else penalised)
          in max 0 (min 100 final))"

end
