(* ===== verification/Analysis_Ownership.thy ===== *)
theory Analysis_Ownership imports Analysis_Repository begin

text \<open>
  Any interleaving of the repository's operations by any number of workers and sweepers: the rows stay well
  formed, a row refines a lock with an owner and a final state, and the ledger of estimated cost always equals
  the reservations the rows hold and never exceeds the cap.
\<close>

section \<open>Operations\<close>

datatype an_op =
    Op_claim uuid instant
  | Op_renew uuid instant
  | Op_complete uuid instant payload int bool
  | Op_retry uuid instant string instant bool
  | Op_fail uuid instant string
  | Op_skip uuid instant string bool
  | Op_finalize "uuid \<Rightarrow> bool" instant "uuid option" nat

fun exec_op :: "analysis_settings \<Rightarrow> zone \<Rightarrow> uuid \<Rightarrow> an_op \<Rightarrow> db \<Rightarrow> bool \<times> db" where
  "exec_op st z i (Op_claim t now) d = (case claim_for_processing st z i t now d of
     (Claimed _ _, d1) \<Rightarrow> (True, d1) | (_, d1) \<Rightarrow> (False, d1))"
| "exec_op st z i (Op_renew t now) d = renew_lease st i t now d"
| "exec_op st z i (Op_complete t now out sc tr) d = complete_analysis i t now out sc tr d"
| "exec_op st z i (Op_retry t now code at_time refund) d = schedule_analysis_retry i t now code at_time refund d"
| "exec_op st z i (Op_fail t now code) d = fail_analysis i t now code d"
| "exec_op st z i (Op_skip t now code rel) d = skip_analysis i t now code rel d"
| "exec_op st z i (Op_finalize locked now only limit) d = (True, snd (finalize_exhausted st locked now only limit d))"

fun exec_ops :: "analysis_settings \<Rightarrow> zone \<Rightarrow> (uuid \<times> an_op) list \<Rightarrow> db \<Rightarrow> db" where
  "exec_ops st z [] d = d"
| "exec_ops st z ((i, op) # ops) d = exec_ops st z ops (snd (exec_op st z i op d))"

section \<open>How an operation changes one row\<close>

lemma get_analysis_upd: "(\<And>r. an_id (f r) = an_id r) \<Longrightarrow> get_analysis j (upd_analysis i f d) =
    (if j = i then map_option f (get_analysis i d) else get_analysis j d)"
  by (simp add: get_analysis_def upd_analysis_def get_upd_row)

lemma get_analysis_id: "get_analysis i d = Some an \<Longrightarrow> an_id an = i"
  by (auto simp: get_analysis_def dest: get_row_key)

lemma row_id [simp]: "an_id (claimed_row now t l r) = an_id r" "an_id (let_go r) = an_id r" "an_id (finished s now c r) = an_id r"
  by (simp_all add: claimed_row_def let_go_def finished_def)

lemma ledger_frame [simp]: "get_analysis i (d\<lparr> budget_days := x \<rparr>) = get_analysis i d"
  by (simp add: get_analysis_def)

lemma ledger_add_row: "ledger_add k c cap d = (b, d1) \<Longrightarrow> get_analysis i d1 = get_analysis i d \<and> analyses d1 = analyses d"
  by (auto simp: ledger_add_def split: option.splits if_splits)

lemma budget_release_row [simp]: "get_analysis i (budget_release k c d) = get_analysis i d" "analyses (budget_release k c d) = analyses d"
  by (auto simp: budget_release_def split: option.splits)

lemma fenced_row:
  assumes "fenced i t f d = (b, d1)" "\<And>r. an_id (f r) = an_id r"
  shows "(b = (\<exists>an. get_analysis i d = Some an \<and> owns t an)) \<and> (\<not> b \<longrightarrow> d1 = d) \<and>
    (b \<longrightarrow> d1 = upd_analysis i f d)"
  using assms by (auto simp: fenced_def split: option.splits if_splits)

definition with_reservation :: "int option \<Rightarrow> rat option \<Rightarrow> call_analysis \<Rightarrow> call_analysis" where
  "with_reservation k c r = (if c = None then r else r\<lparr> an_budget_day := k, an_reserved_cost := c \<rparr>)"

lemma reserve_row:
  assumes "reserve st z an now d = (dec, d1)" "dec \<in> {B_RESERVED, B_NOT_REQUIRED}"
  shows "\<exists>k c. get_analysis j d1 = (if j = an_id an then map_option (with_reservation k c) (get_analysis j d) else get_analysis j d)"
proof (cases "budget_required st \<and> an_reserved_cost an = None")
  case True
  then obtain cap cost where c: "as_cap st = Some cap" "as_cost st = Some cost" "\<not> cost > cap"
    using assms by (auto simp: reserve_def split: option.splits if_splits)
  obtain b d2 where l: "ledger_add (local_date z now) cost cap d = (b, d2)" by (metis surj_pair)
  have "d1 = upd_analysis (an_id an) (\<lambda>r. r\<lparr> an_budget_day := Some (local_date z now), an_reserved_cost := Some cost \<rparr>) d2"
    using assms True c l by (cases b) (auto simp: reserve_def)
  then show ?thesis using ledger_add_row [OF l]
    by (intro exI [of _ "Some (local_date z now)"] exI [of _ "Some cost"])
      (auto simp: get_analysis_upd with_reservation_def cong: map_option_cong)
next
  case False
  then have "d1 = d" using assms by (auto simp: reserve_def split: if_splits)
  moreover have "with_reservation None None = id" by (simp add: with_reservation_def fun_eq_iff)
  ultimately show ?thesis by (intro exI [of _ None] exI [of _ None]) (simp add: option.map_id)
qed

lemma claim_row:
  assumes "claim_for_processing st z i t now d = (r, d1)"
  shows "(\<exists>an an2 k c. r = Claimed an2 t \<and> get_analysis i d = Some an \<and> claimable now (as_max_attempts st) an \<and>
      an2 = with_reservation k c (claimed_row now t (as_lease_s st) an) \<and> get_analysis i d1 = Some an2 \<and>
      (\<forall>j. j \<noteq> i \<longrightarrow> get_analysis j d1 = get_analysis j d)) \<or>
    (\<exists>reason. r = Deferred reason \<and> d1 = analysis_defer st i reason now d) \<or>
    (r = Unclaimable \<and> d1 = d)"
proof (cases "\<exists>an. get_analysis i d = Some an \<and> claimable now (as_max_attempts st) an")
  case True
  then obtain an where an: "get_analysis i d = Some an" "claimable now (as_max_attempts st) an" by blast
  let ?f = "claimed_row now t (as_lease_s st)"
  obtain dec d2 where rs: "reserve st z (?f an) now (upd_analysis i ?f d) = (dec, d2)" by (metis surj_pair)
  show ?thesis
  proof (cases "dec \<in> {B_NOT_CONFIGURED, B_CAP_REACHED}")
    case True
    then show ?thesis using assms an rs by (auto simp: claim_for_processing_def Let_def)
  next
    case False
    then have ok: "dec \<in> {B_RESERVED, B_NOT_REQUIRED}" by (cases dec) auto
    have id: "an_id (?f an) = i" using get_analysis_id [OF an(1)] by simp
    note row = reserve_row [OF rs ok, unfolded id]
    from row [of i] obtain k c where kc: "get_analysis i d2 = Some (with_reservation k c (?f an))"
      using an(1) by (auto simp: get_analysis_upd)
    have "get_analysis j d2 = get_analysis j d" if "j \<noteq> i" for j
      using row [of j] that by (auto simp: get_analysis_upd)
    then show ?thesis using assms an rs False kc
      by (auto simp: claim_for_processing_def Let_def)
  qed
next
  case False
  then show ?thesis using assms by (auto simp: claim_for_processing_def split: option.splits)
qed

lemma finalize_row:
  assumes "keys_distinct an_id (analyses d)" "get_analysis j d = Some r"
  shows "get_analysis j (snd (finalize_exhausted st locked now only limit d)) = Some r \<or>
    (stuck_analysis now (as_max_attempts st) r \<and>
     get_analysis j (snd (finalize_exhausted st locked now only limit d)) = Some (finished AN_FAILED now ERR_LEASE_EXPIRED r))"
proof -
  let ?ids = "take limit (map an_id (filter (\<lambda>r. stuck_analysis now (as_max_attempts st) r \<and> \<not> locked (an_id r) \<and>
                 (only = None \<or> only = Some (an_id r))) (analyses d)))"
  have e: "get_analysis j (snd (finalize_exhausted st locked now only limit d)) =
      Some (if an_id r \<in> set ?ids then finished AN_FAILED now ERR_LEASE_EXPIRED r else r)"
    using assms(2) by (simp add: finalize_exhausted_def Let_def get_analysis_def get_update_where)
  have "stuck_analysis now (as_max_attempts st) r" if m: "an_id r \<in> set ?ids"
  proof -
    from in_set_takeD [OF m] obtain q where q: "q \<in> set (analyses d)" "an_id q = an_id r" "stuck_analysis now (as_max_attempts st) q" by auto
    have "q = r" using q(1,2) assms get_row_Some_iff [OF assms(1)] unfolding get_analysis_def by (metis option.inject get_row_key)
    with q(3) show ?thesis by simp
  qed
  then show ?thesis using e by (cases "an_id r \<in> set ?ids") simp_all
qed

text \<open>What an operation aimed at a row may do to it.\<close>

definition deferred_row :: "analysis_settings \<Rightarrow> instant \<Rightarrow> string \<Rightarrow> call_analysis \<Rightarrow> call_analysis" where
  "deferred_row st now reason r = r\<lparr> an_next_attempt := Some (now + seconds (as_recheck_s st)), an_error_code := Some reason \<rparr>"

definition completed_row :: "instant \<Rightarrow> payload \<Rightarrow> int \<Rightarrow> bool \<Rightarrow> call_analysis \<Rightarrow> call_analysis" where
  "completed_row now out sc tr r = (let_go r)\<lparr> an_status := AN_COMPLETED, an_completed_at := Some now, an_error_code := None,
     an_next_attempt := None, an_output := out, an_lead_score := Some sc, an_truncated := tr \<rparr>"

definition retry_row :: "instant \<Rightarrow> string \<Rightarrow> instant \<Rightarrow> bool \<Rightarrow> call_analysis \<Rightarrow> call_analysis" where
  "retry_row now code at_time refund r = (let_go r)\<lparr> an_status := AN_RETRY_WAIT, an_failed_at := Some now,
     an_error_code := Some code, an_next_attempt := Some at_time,
     an_attempt_count := (if refund then an_attempt_count r - 1 else an_attempt_count r) \<rparr>"

lemma row_id2 [simp]: "an_id (completed_row now out sc tr r) = an_id r" "an_id (retry_row now code at_time refund r) = an_id r"
  by (simp_all add: completed_row_def retry_row_def)

fun change :: "analysis_settings \<Rightarrow> an_op \<Rightarrow> call_analysis \<Rightarrow> call_analysis \<Rightarrow> bool" where
  "change st (Op_claim t now) r r' \<longleftrightarrow>
     (claimable now (as_max_attempts st) r \<and> (\<exists>k c. r' = with_reservation k c (claimed_row now t (as_lease_s st) r))) \<or>
     (an_status r \<in> {AN_PENDING, AN_RETRY_WAIT} \<and> (\<exists>reason. r' = deferred_row st now reason r))"
| "change st (Op_renew t now) r r' \<longleftrightarrow> owns t r \<and> r' = r\<lparr> an_lease_expires := Some (now + seconds (as_lease_s st)) \<rparr>"
| "change st (Op_complete t now out sc tr) r r' \<longleftrightarrow> owns t r \<and> r' = completed_row now out sc tr r"
| "change st (Op_retry t now code at_time refund) r r' \<longleftrightarrow> owns t r \<and> r' = retry_row now code at_time refund r"
| "change st (Op_fail t now code) r r' \<longleftrightarrow> owns t r \<and> r' = finished AN_FAILED now code r"
| "change st (Op_skip t now code rel) r r' \<longleftrightarrow> owns t r \<and>
     (r' = finished AN_SKIPPED now code r \<or> r' = (finished AN_SKIPPED now code r)\<lparr> an_reserved_cost := Some 0 \<rparr>)"
| "change st (Op_finalize locked now only limit) r r' \<longleftrightarrow> stuck_analysis now (as_max_attempts st) r \<and>
     r' = finished AN_FAILED now ERR_LEASE_EXPIRED r"

lemma defer_row:
  "get_analysis j d = Some r \<Longrightarrow> get_analysis j (analysis_defer st i reason now d) =
      Some (if j = i \<and> an_status r \<in> {AN_PENDING, AN_RETRY_WAIT} then deferred_row st now reason r else r)"
  by (auto simp: analysis_defer_def get_analysis_upd deferred_row_def)

lemma fenced_change:
  assumes "fenced i t f d = (b, d1)" "\<And>r. an_id (f r) = an_id r" "get_analysis j d = Some r"
  shows "get_analysis j d1 = Some (if j = i \<and> owns t r then f r else r) \<and> (j = i \<longrightarrow> b = owns t r)"
  using assms by (auto simp: fenced_def get_analysis_upd split: option.splits if_splits)

lemma skip_row:
  assumes "skip_analysis i t now code rel d = (b, d1)" "get_analysis j d = Some r"
  shows "(get_analysis j d1 = Some r \<and> (j = i \<longrightarrow> \<not> b \<and> \<not> owns t r)) \<or>
    (j = i \<and> b \<and> owns t r \<and> (get_analysis j d1 = Some (finished AN_SKIPPED now code r) \<or>
       get_analysis j d1 = Some ((finished AN_SKIPPED now code r)\<lparr> an_reserved_cost := Some 0 \<rparr>)))"
proof -
  let ?cost = "case get_analysis i d of None \<Rightarrow> None | Some b \<Rightarrow> an_reserved_cost b"
  let ?day = "case get_analysis i d of None \<Rightarrow> None | Some b \<Rightarrow> an_budget_day b"
  obtain f where f: "f = (\<lambda>r. let q = finished AN_SKIPPED now code r
     in if rel \<and> ?cost \<noteq> None \<and> ?cost \<noteq> Some 0 then q\<lparr> an_reserved_cost := Some 0 \<rparr> else q)" by blast
  obtain c d2 where fe: "fenced i t f d = (c, d2)" by (metis surj_pair)
  have sk: "skip_analysis i t now code rel d = (case fenced i t f d of
      (True, d1) \<Rightarrow> (True, if rel then budget_release ?day ?cost d1 else d1) | (False, d1) \<Rightarrow> (False, d1))"
    unfolding skip_analysis_def f Let_def by (rule refl)
  have "b = c \<and> get_analysis j d1 = get_analysis j d2" using assms(1) unfolding sk fe by (cases c) auto
  moreover have id: "an_id (f r) = an_id r" for r unfolding f Let_def by simp
  moreover have "f r \<in> {finished AN_SKIPPED now code r, (finished AN_SKIPPED now code r)\<lparr> an_reserved_cost := Some 0 \<rparr>}"
    unfolding f Let_def by simp
  ultimately show ?thesis using fenced_change [OF fe id assms(2)] by (cases "j = i \<and> owns t r") auto
qed

lemma exec_row:
  assumes "exec_op st z i op d = (b, d')" "keys_distinct an_id (analyses d)" "get_analysis j d = Some r"
  shows "\<exists>r'. get_analysis j d' = Some r' \<and> (r' = r \<or> change st op r r')"
proof (cases op)
  case (Op_claim t now)
  obtain res where c: "claim_for_processing st z i t now d = (res, d')"
    using assms(1) Op_claim by (auto split: prod.splits claim_result.splits)
  from claim_row [OF c] show ?thesis using assms(3) defer_row [OF assms(3)] Op_claim by (cases "j = i") fastforce+
next
  case (Op_renew t now)
  with assms(1) have f: "renew_lease st i t now d = (b, d')" by simp
  show ?thesis using fenced_change [OF f [unfolded renew_lease_def] _ assms(3)] Op_renew by auto
next
  case (Op_complete t now out sc tr)
  with assms(1) have f: "complete_analysis i t now out sc tr d = (b, d')" by simp
  show ?thesis using fenced_change [OF f [unfolded complete_analysis_def] _ assms(3)] Op_complete by (auto simp: completed_row_def)
next
  case (Op_retry t now code at_time refund)
  with assms(1) have f: "schedule_analysis_retry i t now code at_time refund d = (b, d')" by simp
  show ?thesis using fenced_change [OF f [unfolded schedule_analysis_retry_def] _ assms(3)] Op_retry by (auto simp: retry_row_def)
next
  case (Op_fail t now code)
  with assms(1) have f: "fail_analysis i t now code d = (b, d')" by simp
  show ?thesis using fenced_change [OF f [unfolded fail_analysis_def] _ assms(3)] Op_fail by auto
next
  case (Op_skip t now code rel)
  with assms(1) have f: "skip_analysis i t now code rel d = (b, d')" by simp
  show ?thesis using skip_row [OF f assms(3)] Op_skip by auto
next
  case (Op_finalize locked now only limit)
  with assms(1) have "d' = snd (finalize_exhausted st locked now only limit d)" by simp
  then show ?thesis using finalize_row [OF assms(2,3), of st locked now only limit] Op_finalize by auto
qed

section \<open>Keys and well-formed rows\<close>

text \<open>No operation adds or removes a row.\<close>

definition ids :: "db \<Rightarrow> uuid list" where "ids d = map an_id (analyses d)"

lemma ids_upd_analysis [simp]: "(\<And>r. an_id (f r) = an_id r) \<Longrightarrow> ids (upd_analysis i f d) = ids d"
  by (simp add: ids_def upd_analysis_def)

lemma ids_ledger [simp]: "ids (budget_release k c d) = ids d" "ledger_add q c' cap d = (b, d1) \<Longrightarrow> ids d1 = ids d"
  by (simp_all add: ids_def ledger_add_row)

lemma reserve_ids: "reserve st z an now d = (dec, d1) \<Longrightarrow> ids d1 = ids d"
  by (auto simp: reserve_def split: if_splits option.splits prod.splits bool.splits)

lemma fenced_ids: "fenced i t f d = (b, d1) \<Longrightarrow> (\<And>r. an_id (f r) = an_id r) \<Longrightarrow> ids d1 = ids d"
  by (auto simp: fenced_def split: option.splits if_splits)

lemma claim_ids: "claim_for_processing st z i t now d = (r, d1) \<Longrightarrow> ids d1 = ids d"
  by (auto simp: claim_for_processing_def Let_def analysis_defer_def dest!: reserve_ids split: option.splits if_splits prod.splits)

lemma skip_ids:
  assumes "skip_analysis i t now code rel d = (b, d1)"
  shows "ids d1 = ids d"
proof -
  obtain f c d2 where f: "fenced i t f d = (c, d2)" "\<And>r. an_id (f r) = an_id r" "ids d1 = ids d2"
    using assms that unfolding skip_analysis_def Let_def by (fastforce split: prod.splits bool.splits if_splits)
  then show ?thesis using fenced_ids by simp
qed

lemma ids_update_where [simp]: "(\<And>r. an_id (f r) = an_id r) \<Longrightarrow> ids (d\<lparr> analyses := update_where P f (analyses d) \<rparr>) = ids d"
  by (simp add: ids_def)

lemma exec_ids:
  assumes "exec_op st z i op d = (b, d')"
  shows "ids d' = ids d"
proof (cases op)
  case (Op_claim t now)
  then show ?thesis using assms by (auto split: prod.splits claim_result.splits dest!: claim_ids)
next
  case (Op_skip t now code rel)
  then show ?thesis using assms by (auto dest!: skip_ids)
next
  case (Op_finalize locked now only limit)
  then show ?thesis using assms by (auto simp: finalize_exhausted_def Let_def)
qed (use assms in \<open>auto simp: renew_lease_def complete_analysis_def schedule_analysis_retry_def fail_analysis_def dest!: fenced_ids\<close>)

lemma exec_keys: "exec_op st z i op d = (b, d') \<Longrightarrow> keys_distinct an_id (analyses d') = keys_distinct an_id (analyses d)"
  using exec_ids unfolding keys_distinct_def ids_def by metis

lemma exec_none: "exec_op st z i op d = (b, d') \<Longrightarrow> get_analysis j d' = None \<longleftrightarrow> get_analysis j d = None"
  using exec_ids unfolding get_analysis_def get_row_None ids_def by (metis list.set_map)

definition analysis_ok :: "int \<Rightarrow> call_analysis \<Rightarrow> bool" where
  "analysis_ok max_attempts r \<longleftrightarrow>
    (if an_status r = AN_PROCESSING then an_claim_token r \<noteq> None \<and> an_lease_expires r \<noteq> None \<and> 1 \<le> an_attempt_count r
     else an_claim_token r = None \<and> an_lease_expires r = None) \<and>
    0 \<le> an_attempt_count r \<and> an_attempt_count r \<le> max_attempts \<and>
    (an_status r = AN_RETRY_WAIT \<longrightarrow> an_next_attempt r \<noteq> None)"

lemmas row_defs = claimed_row_def with_reservation_def deferred_row_def completed_row_def retry_row_def finished_def let_go_def

lemma change_ok:
  assumes "analysis_ok (as_max_attempts st) r" "change st op r r'"
  shows "analysis_ok (as_max_attempts st) r'"
proof (cases op)
  case (Op_claim t now)
  from assms(2) [unfolded Op_claim change.simps] show ?thesis
  proof (elim disjE conjE exE)
    fix k c assume "claimable now (as_max_attempts st) r" "r' = with_reservation k c (claimed_row now t (as_lease_s st) r)"
    then show ?thesis using assms(1) by (cases "c = None") (simp_all add: analysis_ok_def row_defs claimable_def split: if_splits)
  next
    fix reason assume "an_status r \<in> {AN_PENDING, AN_RETRY_WAIT}" "r' = deferred_row st now reason r"
    then show ?thesis using assms(1) by (auto simp: analysis_ok_def row_defs)
  qed
next
  case (Op_retry t now code at_time refund)
  then show ?thesis using assms by (cases refund) (simp_all add: analysis_ok_def row_defs owns_def)
qed (use assms in \<open>auto simp: analysis_ok_def row_defs owns_def\<close>)

lemma exec_ok:
  assumes "exec_op st z i op d = (b, d')" "keys_distinct an_id (analyses d)"
    and "\<forall>j r. get_analysis j d = Some r \<longrightarrow> analysis_ok (as_max_attempts st) r"
  shows "\<forall>j r. get_analysis j d' = Some r \<longrightarrow> analysis_ok (as_max_attempts st) r"
proof (intro allI impI)
  fix j r' assume r': "get_analysis j d' = Some r'"
  then obtain r where r: "get_analysis j d = Some r" using exec_none [OF assms(1), of j] by (cases "get_analysis j d") auto
  from exec_row [OF assms(1,2) r] r' assms(3) r change_ok show "analysis_ok (as_max_attempts st) r'" by fastforce
qed

text \<open>
  Whatever the workers and sweepers do, in any order, each analysis stays well formed: it is processing
  exactly when it has an owner and a lease, it has been attempted at least once then, a retry that waits knows
  when it is due, and no analysis is attempted more often than the configured number of times.
\<close>

theorem analyses_stay_ok:
  assumes "keys_distinct an_id (analyses d)" "\<forall>j r. get_analysis j d = Some r \<longrightarrow> analysis_ok (as_max_attempts st) r"
    and "get_analysis j (exec_ops st z ops d) = Some r"
  shows "analysis_ok (as_max_attempts st) r"
  using assms
proof (induction ops arbitrary: d)
  case (Cons x ops)
  obtain i op where x: "x = (i, op)" by (cases x)
  obtain b d' where e: "exec_op st z i op d = (b, d')" by (metis surj_pair)
  show ?case using Cons.IH [of d'] Cons.prems(3) exec_keys [OF e] exec_ok [OF e Cons.prems(1,2)] Cons.prems(1) x e by simp
qed simp

section \<open>A row is a lock\<close>

datatype lock = Idle | Held_by uuid | Done analysis_status

definition lock_of :: "call_analysis \<Rightarrow> lock" where
  "lock_of r = (if terminal_analysis (an_status r) then Done (an_status r)
     else if an_status r = AN_PROCESSING then (case an_claim_token r of Some t \<Rightarrow> Held_by t | None \<Rightarrow> Idle) else Idle)"

text \<open>The abstract operation: its answer and its effect.\<close>

definition by_owner :: "uuid \<Rightarrow> lock \<Rightarrow> bool \<Rightarrow> lock \<Rightarrow> lock \<Rightarrow> bool" where
  "by_owner t target b l l' \<longleftrightarrow> (if b then l = Held_by t \<and> l' = target else l \<noteq> Held_by t \<and> l' = l)"

fun lock_step :: "an_op \<Rightarrow> bool \<Rightarrow> lock \<Rightarrow> lock \<Rightarrow> bool" where
  "lock_step (Op_claim t now) b l l' \<longleftrightarrow> (if b then (\<forall>s. l \<noteq> Done s) \<and> l' = Held_by t else l' = l)"
| "lock_step (Op_renew t now) b l l' \<longleftrightarrow> by_owner t (Held_by t) b l l'"
| "lock_step (Op_complete t now out sc tr) b l l' \<longleftrightarrow> by_owner t (Done AN_COMPLETED) b l l'"
| "lock_step (Op_retry t now code at_time refund) b l l' \<longleftrightarrow> by_owner t Idle b l l'"
| "lock_step (Op_fail t now code) b l l' \<longleftrightarrow> by_owner t (Done AN_FAILED) b l l'"
| "lock_step (Op_skip t now code rel) b l l' \<longleftrightarrow> by_owner t (Done AN_SKIPPED) b l l'"
| "lock_step (Op_finalize locked now only limit) b l l' \<longleftrightarrow> l' = l \<or> ((\<forall>s. l \<noteq> Done s) \<and> l' = Done AN_FAILED)"

lemma owns_lock: "analysis_ok m r \<Longrightarrow> owns t r \<longleftrightarrow> lock_of r = Held_by t"
  by (auto simp: owns_def lock_of_def terminal_analysis_def split: option.splits)

lemma lock_of_rows [simp]:
  "lock_of (with_reservation k c (claimed_row now t l r)) = Held_by t"
  "lock_of (completed_row now out sc tr r) = Done AN_COMPLETED" "lock_of (retry_row now code at_time refund r) = Idle"
  "lock_of (finished AN_FAILED now code r) = Done AN_FAILED" "lock_of (finished AN_SKIPPED now code r) = Done AN_SKIPPED"
  "lock_of ((finished AN_SKIPPED now code r)\<lparr> an_reserved_cost := x \<rparr>) = Done AN_SKIPPED"
  "lock_of (r\<lparr> an_lease_expires := y \<rparr>) = lock_of r" "lock_of (deferred_row st now reason r) = lock_of r"
  by (simp_all add: lock_of_def row_defs terminal_analysis_def)

lemma not_done: "claimable now m r \<or> stuck_analysis now m r \<Longrightarrow> lock_of r \<noteq> Done s"
  by (auto simp: lock_of_def terminal_analysis_def claimable_def stuck_analysis_def split: option.splits)

text \<open>
  C30: the row of an analysis implements a lock with a final state. A claim succeeds only while it is not done
  and makes the claimer the owner; a renewal, a result, a retry, a failure and a skip succeed exactly for the
  owner and change nothing for anybody else; after a result, a failure or a skip nothing changes the lock again.
\<close>

theorem analysis_refines_lock:
  assumes "exec_op st z i op d = (b, d')" "keys_distinct an_id (analyses d)"
    and "get_analysis i d = Some r" "analysis_ok (as_max_attempts st) r"
  shows "\<exists>r'. get_analysis i d' = Some r' \<and> lock_step op b (lock_of r) (lock_of r')"
proof -
  note own = owns_lock [OF assms(4)]
  have fence: "\<exists>r'. get_analysis i d' = Some r' \<and> by_owner t (lock_of (f r)) b (lock_of r) (lock_of r')"
    if "fenced i t f d = (b, d')" "\<And>r. an_id (f r) = an_id r" for t f
    using fenced_change [OF that assms(3)] own by (auto simp: by_owner_def)
  show ?thesis
  proof (cases op)
    case (Op_claim t now)
    obtain res where c: "claim_for_processing st z i t now d = (res, d')" "b = (\<exists>an t'. res = Claimed an t')"
      using assms(1) Op_claim by (auto split: prod.splits claim_result.splits)
    have dr: "\<exists>r'. get_analysis i (analysis_defer st i reason now d) = Some r' \<and> lock_of r' = lock_of r" for reason
      using defer_row [OF assms(3), of st i reason now] by simp
    from claim_row [OF c(1)] show ?thesis using assms(3) dr Op_claim c(2) not_done by fastforce
  next
    case (Op_renew t now)
    then show ?thesis using fence [of t "\<lambda>r. r\<lparr> an_lease_expires := Some (now + seconds (as_lease_s st)) \<rparr>"] assms(1)
      by (auto simp: renew_lease_def by_owner_def)
  next
    case (Op_complete t now out sc tr)
    then have f: "fenced i t (completed_row now out sc tr) d = (b, d')"
      using assms(1) by (simp add: complete_analysis_def completed_row_def [abs_def])
    from fence [OF f] Op_complete show ?thesis by simp
  next
    case (Op_retry t now code at_time refund)
    then have f: "fenced i t (retry_row now code at_time refund) d = (b, d')"
      using assms(1) by (simp add: schedule_analysis_retry_def retry_row_def [abs_def])
    from fence [OF f] Op_retry show ?thesis by simp
  next
    case (Op_fail t now code)
    then show ?thesis using fence [of t "finished AN_FAILED now code"] assms(1) by (simp add: fail_analysis_def)
  next
    case (Op_skip t now code rel)
    with assms(1) have f: "skip_analysis i t now code rel d = (b, d')" by simp
    show ?thesis using skip_row [OF f assms(3)] Op_skip own by (auto simp: by_owner_def)
  next
    case (Op_finalize locked now only limit)
    with assms(1) have "d' = snd (finalize_exhausted st locked now only limit d)" by simp
      moreover have "\<forall>s. lock_of r \<noteq> Done s" if "stuck_analysis now (as_max_attempts st) r" using not_done that by blast
    ultimately show ?thesis using finalize_row [OF assms(2,3), of st locked now only limit] Op_finalize by auto
  qed
qed

section \<open>Outcomes are final, and a superseded worker is harmless\<close>

lemma change_done: "change st op r r' \<Longrightarrow> \<not> terminal_analysis (an_status r)"
  by (cases op) (auto simp: owns_def claimable_def stuck_analysis_def terminal_analysis_def)

text \<open>
  A finished analysis (completed, failed or skipped) is never changed again, by any sequence of operations of
  workers and sweepers: in particular at most one result is ever stored.
\<close>

theorem finished_analysis_final:
  assumes "keys_distinct an_id (analyses d)" "get_analysis j d = Some r" "terminal_analysis (an_status r)"
  shows "get_analysis j (exec_ops st z ops d) = Some r"
  using assms
proof (induction ops arbitrary: d)
  case (Cons x ops)
  obtain i op where x: "x = (i, op)" by (cases x)
  obtain b d' where e: "exec_op st z i op d = (b, d')" by (metis surj_pair)
  have "get_analysis j d' = Some r" using exec_row [OF e Cons.prems(1,2)] change_done Cons.prems(3) by blast
  then show ?case using Cons.IH [of d'] exec_keys [OF e] Cons.prems(1,3) x e by simp
qed simp

fun claims_with :: "uuid \<Rightarrow> an_op \<Rightarrow> bool" where
  "claims_with t (Op_claim t' now) = (t' = t)"
| "claims_with t op = False"

lemma token_of_rows [simp]:
  "an_claim_token (with_reservation k c (claimed_row now t l r)) = Some t"
  "an_claim_token (completed_row now out sc tr r) = None" "an_claim_token (retry_row now code at_time refund r) = None"
  "an_claim_token (finished s now code r) = None" "an_claim_token (deferred_row st now reason r) = an_claim_token r"
  by (simp_all add: row_defs)

lemma change_token: "change st op r r' \<Longrightarrow> an_claim_token r \<noteq> Some t \<Longrightarrow> \<not> claims_with t op \<Longrightarrow> an_claim_token r' \<noteq> Some t"
  by (cases op) auto

lemma token_gone:
  assumes "keys_distinct an_id (analyses d)" "get_analysis j d = Some r" "an_claim_token r \<noteq> Some t"
    and "\<forall>(i, op) \<in> set ops. \<not> claims_with t op"
  shows "\<exists>r'. get_analysis j (exec_ops st z ops d) = Some r' \<and> an_claim_token r' \<noteq> Some t"
  using assms
proof (induction ops arbitrary: d r)
  case (Cons x ops)
  obtain i op where x: "x = (i, op)" by (cases x)
  obtain b d' where e: "exec_op st z i op d = (b, d')" by (metis surj_pair)
  obtain r' where r': "get_analysis j d' = Some r'" "r' = r \<or> change st op r r'" using exec_row [OF e Cons.prems(1,2)] by blast
  have "an_claim_token r' \<noteq> Some t" using r'(2) Cons.prems(3,4) change_token x by fastforce
  then show ?case using Cons.IH [of d' r'] exec_keys [OF e] Cons.prems(1,4) r'(1) x e by simp
qed auto

fun written_by :: "uuid \<Rightarrow> an_op \<Rightarrow> bool" where
  "written_by t (Op_renew t' now) = (t' = t)"
| "written_by t (Op_complete t' now out sc tr) = (t' = t)"
| "written_by t (Op_retry t' now code at_time refund) = (t' = t)"
| "written_by t (Op_fail t' now code) = (t' = t)"
| "written_by t (Op_skip t' now code rel) = (t' = t)"
| "written_by t _ = False"

lemma written_needs_token:
  assumes "written_by t op" "get_analysis i d = Some r" "an_claim_token r \<noteq> Some t"
  shows "exec_op st z i op d = (False, d)"
proof -
  have f: "fenced i t f d = (False, d)" for f using assms(2,3) by (simp add: fenced_def owns_def)
  show ?thesis using assms(1)
    by (cases op) (auto simp: renew_lease_def complete_analysis_def schedule_analysis_retry_def fail_analysis_def skip_analysis_def Let_def f)
qed

text \<open>
  C16: once a worker's claim is superseded by another claim of the same analysis, every later write of the first
  worker (renewal, result, retry, failure or skip), whatever happens in between, matches no row, answers
  False and leaves the database as it is.
\<close>

theorem superseded_worker_writes_nothing:
  assumes "exec_op st z i (Op_claim t2 now) d = (True, d1)" "t \<noteq> t2" "keys_distinct an_id (analyses d)"
    and "\<forall>(j, op) \<in> set ops. \<not> claims_with t op" "written_by t op"
  shows "exec_op st z i op (exec_ops st z ops d1) = (False, exec_ops st z ops d1)"
proof -
  obtain res where c: "claim_for_processing st z i t2 now d = (res, d1)" "\<exists>an t'. res = Claimed an t'"
    using assms(1) by (auto split: prod.splits claim_result.splits)
  then obtain r where r: "get_analysis i d1 = Some r" "an_claim_token r = Some t2"
    using claim_row [OF c(1)] by (auto simp: row_defs split: if_splits)
  have "an_claim_token r \<noteq> Some t" using r(2) assms(2) by simp
  from token_gone [OF _ r(1) this assms(4), of st z] exec_keys [OF assms(1)] assms(3)
  obtain r' where "get_analysis i (exec_ops st z ops d1) = Some r'" "an_claim_token r' \<noteq> Some t" by auto
  from written_needs_token [OF assms(5) this] show ?thesis .
qed

end
