(* ===== verification/Analysis_Ledger.thy ===== *)
theory Analysis_Ledger imports Analysis_Ownership begin

text \<open>
  The ledger of \<open>budget.py\<close> under any interleaving of workers and sweepers: for each day it holds exactly what
  the analyses of that day have reserved, and never more than the configured cap.
\<close>

definition held :: "int \<Rightarrow> call_analysis \<Rightarrow> rat" where
  "held k r = (if an_budget_day r = Some k then (case an_reserved_cost r of None \<Rightarrow> 0 | Some c \<Rightarrow> c) else 0)"

definition held_in :: "int \<Rightarrow> db \<Rightarrow> rat" where
  "held_in k d = sum_list (map (held k) (analyses d))"

definition amount :: "int \<Rightarrow> db \<Rightarrow> rat" where
  "amount k d = (case ledger k d of None \<Rightarrow> 0 | Some x \<Rightarrow> x)"

definition balanced :: "analysis_settings \<Rightarrow> db \<Rightarrow> bool" where
  "balanced st d \<longleftrightarrow> keys_distinct an_id (analyses d) \<and> (\<forall>k. amount k d = held_in k d) \<and>
    (\<forall>k. \<forall>r \<in> set (analyses d). 0 \<le> held k r) \<and> (\<forall>k cap. as_cap st = Some cap \<longrightarrow> held_in k d \<le> cap)"

section \<open>Sums over rows\<close>

lemma sum_upd_row:
  assumes "keys_distinct key rows" "get_row key i rows = Some r"
  shows "sum_list (map w (upd_row key i f rows)) = sum_list (map w rows) - w r + (w (f r) :: rat)"
  using assms by (induction rows) (auto simp: get_row_Cons upd_row_Cons upd_row_id keys_distinct_Cons split: if_splits)

lemma held_in_upd:
  assumes "keys_distinct an_id (analyses d)" "get_analysis i d = Some r"
  shows "held_in k (upd_analysis i f d) = held_in k d - held k r + held k (f r)"
  using sum_upd_row [OF assms(1) assms(2) [unfolded get_analysis_def]] by (simp add: held_in_def upd_analysis_def)

lemma member_le_sum: "r \<in> set rows \<Longrightarrow> \<forall>q \<in> set rows. 0 \<le> (w q :: rat) \<Longrightarrow> w r \<le> sum_list (map w rows)"
proof (induction rows)
  case (Cons q rows)
  have "0 \<le> sum_list (map w rows)" using Cons.prems(2) by (intro sum_list_nonneg) auto
  then show ?case using Cons by fastforce
qed simp

lemma held_frame [simp]:
  "held k (r\<lparr> an_status := s \<rparr>) = held k r" "held k (r\<lparr> an_lease_expires := l \<rparr>) = held k r"
  "held k (claimed_row now t lease r) = held k r" "held k (finished s now c r) = held k r"
  "held k (completed_row now out sc tr r) = held k r" "held k (retry_row now c at_time refund r) = held k r"
  "held k (deferred_row st now c r) = held k r"
  by (simp_all add: held_def row_defs)

lemma amount_upd_analysis [simp]: "amount k (upd_analysis i f d) = amount k d"
  by (simp add: amount_def ledger_def upd_analysis_def)

section \<open>Updates that keep every reservation\<close>

lemma balanced_upd:
  assumes "balanced st d" "\<And>r. an_id (f r) = an_id r" "\<And>k r. held k (f r) = held k r"
  shows "balanced st (upd_analysis i f d)"
proof -
  have "held_in k (upd_analysis i f d) = held_in k d" for k
    by (simp add: held_in_def upd_analysis_def upd_row_def comp_def if_distrib assms(3) cong: if_cong)
  moreover have "0 \<le> held k r" if "r \<in> set (analyses (upd_analysis i f d))" for k r
    using that assms(1,3) by (auto simp: upd_analysis_def balanced_def upd_row_def split: if_splits)
  ultimately show ?thesis using assms(1,2) by (simp add: balanced_def) (simp add: upd_analysis_def)
qed

lemma balanced_fenced:
  assumes "fenced i t f d = (b, d')" "balanced st d" "\<And>r. an_id (f r) = an_id r" "\<And>k r. held k (f r) = held k r"
  shows "balanced st d'"
  using assms balanced_upd [OF assms(2), of f i] by (auto simp: fenced_def split: option.splits if_splits)

lemma balanced_where:
  assumes "balanced st d" "\<And>r. an_id (f r) = an_id r" "\<And>k r. held k (f r) = held k r"
  shows "balanced st (d\<lparr> analyses := update_where P f (analyses d) \<rparr>)"
proof -
  have "held_in k (d\<lparr> analyses := update_where P f (analyses d) \<rparr>) = held_in k d" for k
    by (simp add: held_in_def update_where_def comp_def if_distrib assms(3) cong: if_cong)
  moreover have "0 \<le> held k r" if "r \<in> set (update_where P f (analyses d))" for k r
    using that assms(1,3) by (auto simp: balanced_def update_where_def split: if_splits)
  ultimately show ?thesis using assms(1,2) by (simp add: balanced_def keys_distinct_def) (simp add: amount_def ledger_def)
qed

section \<open>Reserving and releasing\<close>

lemma get_ledger_upd:
  "get_row fst j (upd_row fst k (\<lambda>(i, v). (i, g v)) rows) =
    (if j = k then map_option (\<lambda>(i, v). (i, g v)) (get_row fst k rows) else get_row fst j rows)"
  by (rule get_upd_row) auto

lemma ledger_add_amount:
  assumes "ledger_add k c cap d = (True, d1)" "c \<le> cap"
  shows "amount j d1 = amount j d + (if j = k then c else 0) \<and> amount k d1 \<le> cap"
  using assms
  by (auto simp: ledger_add_def amount_def ledger_def get_ledger_upd get_row_snoc option.map_comp comp_def
      split: option.splits if_splits prod.splits)

lemma ledger_add_False: "ledger_add k c cap d = (False, d1) \<Longrightarrow> d1 = d"
  by (auto simp: ledger_add_def split: option.splits if_splits)

lemma reserve_balanced:
  assumes "reserve st z an now d = (dec, d1)" "dec \<in> {B_RESERVED, B_NOT_REQUIRED}" "balanced st d"
    and "get_analysis (an_id an) d = Some an" "\<forall>c. as_cost st = Some c \<longrightarrow> 0 \<le> c"
  shows "balanced st d1"
proof (cases "budget_required st \<and> an_reserved_cost an = None")
  case True
  then obtain cap c where c: "as_cap st = Some cap" "as_cost st = Some c" "\<not> c > cap"
    using assms by (auto simp: reserve_def split: option.splits if_splits)
  let ?k = "local_date z now"
  let ?f = "\<lambda>r. r\<lparr> an_budget_day := Some ?k, an_reserved_cost := Some c \<rparr>"
  obtain b d2 where l: "ledger_add ?k c cap d = (b, d2)" by (metis surj_pair)
  have "b \<and> d1 = upd_analysis (an_id an) ?f d2" using assms(1,2) True c l by (cases b) (auto simp: reserve_def)
  then have b: "b" and d1: "d1 = upd_analysis (an_id an) ?f d2" by auto
  have "c \<le> cap" using c(3) by simp
  note am = ledger_add_amount [OF l [unfolded b [THEN eqTrueI]] this]
  have rows: "analyses d2 = analyses d" "get_analysis (an_id an) d2 = Some an" using ledger_add_row [OF l] assms(4) by auto
  have keys: "keys_distinct an_id (analyses d2)" using rows assms(3) by (simp add: balanced_def)
  have f: "held j (?f an) = (if j = ?k then c else 0)" "held j an = 0" for j using True by (auto simp: held_def)
  have sum: "held_in j d1 = held_in j d2 + (if j = ?k then c else 0)" for j
    using held_in_upd [OF keys rows(2), of j ?f] f [of j] d1 by (simp only: d1 f)
  have same: "held_in j d2 = held_in j d" "amount j d = held_in j d" for j using assms(3) by (simp_all add: held_in_def rows balanced_def)
  have eq: "amount j d1 = held_in j d1" for j using am [of j] sum [of j] same [of j] by (simp add: d1)
  have less: "held_in j d1 \<le> cap" for j
  proof (cases "j = ?k")
    case True
    then show ?thesis using am [of j] eq [of j] by (simp add: d1)
  next
    case False
    then have "held_in j d1 = held_in j d" using sum [of j] same [of j] by simp
    then show ?thesis using assms(3) c(1) by (simp add: balanced_def)
  qed
  have "0 \<le> held j r" if "r \<in> set (analyses d1)" for j r
    using that assms(3,5) c(2) rows(1) by (auto simp: d1 upd_analysis_def balanced_def upd_row_def held_def split: if_splits)
  moreover have "keys_distinct an_id (analyses d1)" using keys by (simp add: d1 upd_analysis_def)
  ultimately show ?thesis using c(1) eq less by (simp add: balanced_def)
next
  case False
  then show ?thesis using assms(1,3) by (auto simp: reserve_def split: if_splits)
qed

lemma claim_balanced:
  assumes "claim_for_processing st z i t now d = (r, d1)" "balanced st d" "\<forall>c. as_cost st = Some c \<longrightarrow> 0 \<le> c"
  shows "balanced st d1"
proof -
  have def: "balanced st (analysis_defer st i reason now d)" for reason
    unfolding analysis_defer_def by (rule balanced_upd [OF assms(2)]) (simp_all add: held_def)
  show ?thesis
  proof (cases "\<exists>an. get_analysis i d = Some an \<and> claimable now (as_max_attempts st) an")
    case True
    then obtain an where an: "get_analysis i d = Some an" "claimable now (as_max_attempts st) an" by blast
    let ?f = "claimed_row now t (as_lease_s st)"
    obtain dec d2 where rs: "reserve st z (?f an) now (upd_analysis i ?f d) = (dec, d2)" by (metis surj_pair)
    have id: "an_id (?f an) = i" using get_analysis_id [OF an(1)] by simp
    show ?thesis
    proof (cases "dec \<in> {B_NOT_CONFIGURED, B_CAP_REACHED}")
      case True
      then show ?thesis using assms(1) an rs def by (auto simp: claim_for_processing_def Let_def)
    next
      case False
      then have ok: "dec \<in> {B_RESERVED, B_NOT_REQUIRED}" by (cases dec) auto
      have "d1 = d2" using assms(1) an rs False by (auto simp: claim_for_processing_def Let_def split: option.splits)
      moreover have "balanced st d2"
      proof (rule reserve_balanced [OF rs ok _ _ assms(3)])
        show "balanced st (upd_analysis i ?f d)" by (rule balanced_upd [OF assms(2)]) simp_all
        show "get_analysis (an_id (?f an)) (upd_analysis i ?f d) = Some (?f an)" unfolding id using an(1) by (simp add: get_analysis_upd)
      qed
      ultimately show ?thesis by simp
    qed
  next
    case False
    then show ?thesis using assms(1,2) by (auto simp: claim_for_processing_def split: option.splits)
  qed
qed

lemma release_amount:
  assumes "amount k d \<ge> c" "c > 0"
  shows "amount j (budget_release (Some k) (Some c) d) = amount j d - (if j = k then c else 0)"
proof (cases "get_row fst k (budget_days d)")
  case None
  then show ?thesis using assms by (simp add: amount_def ledger_def)
next
  case (Some p)
  then show ?thesis using assms by (cases p) (auto simp: budget_release_def amount_def ledger_def get_ledger_upd)
qed

lemma budget_release_frame [simp]: "held_in k (budget_release day c d) = held_in k d"
  by (simp add: held_in_def)

lemma skip_balanced:
  assumes "skip_analysis i t now code rel d = (b, d')" "balanced st d"
  shows "balanced st d'"
proof (cases "\<exists>r. get_analysis i d = Some r \<and> owns t r")
  case False
  then have "d' = d" using assms(1) by (auto simp: skip_analysis_def fenced_def Let_def split: option.splits)
  then show ?thesis using assms(2) by simp
next
  case True
  then obtain r where r: "get_analysis i d = Some r" "owns t r" by blast
  let ?c = "an_reserved_cost r" and ?day = "an_budget_day r"
  note bal = assms(2) [unfolded balanced_def]
  have in_d: "r \<in> set (analyses d)" using r(1) by (auto simp: get_analysis_def dest: get_row_in)
  show ?thesis
  proof (cases "rel \<and> ?c \<noteq> None \<and> ?c \<noteq> Some 0")
    case False
    then have "d' = upd_analysis i (finished AN_SKIPPED now code) d"
      using assms(1) r by (auto simp: skip_analysis_def fenced_def Let_def budget_release_def split: option.splits)
    then show ?thesis using balanced_upd [OF assms(2)] by simp
  next
    case True
    then obtain c where c: "?c = Some c" "c \<noteq> 0" by auto
    let ?f = "\<lambda>r. (finished AN_SKIPPED now code r)\<lparr> an_reserved_cost := Some 0 \<rparr>"
    let ?d1 = "upd_analysis i ?f d"
    have d': "d' = budget_release ?day (Some c) ?d1"
      using assms(1) r True c by (simp add: skip_analysis_def fenced_def Let_def)
    have less: "held_in k d' = held_in k d - held k r" for k
      using held_in_upd [of d i r k ?f] bal r(1) by (simp add: d' held_def)
    have "amount k d' = amount k d - held k r" for k
    proof (cases ?day)
      case None
      then show ?thesis by (simp add: d' budget_release_def held_def)
    next
      case (Some day)
      have "held day r = c" using Some c by (simp add: held_def)
      moreover have "held day r \<le> held_in day d"
        using member_le_sum [OF in_d, of "held day"] bal by (simp add: held_in_def)
      moreover have "0 \<le> held day r" using bal in_d by blast
      ultimately have "0 < c" "c \<le> amount day ?d1" using c(2) bal by auto
      from release_amount [OF this(2,1), of k] show ?thesis using Some c(1) by (auto simp: d' held_def)
    qed
    moreover have "0 \<le> held k q" if "q \<in> set (analyses d')" for k q
    proof -
      have "held k (?f q') = 0" for q' by (simp add: held_def)
      then show ?thesis using that bal by (auto simp: d' upd_analysis_def upd_row_def simp del: held_frame)
    qed
    moreover have "keys_distinct an_id (analyses d')" using bal by (simp add: d') (simp add: upd_analysis_def)
    moreover have "held_in k d' \<le> cap" if "as_cap st = Some cap" for k cap
    proof -
      have "0 \<le> held k r" "held_in k d \<le> cap" using bal in_d that by blast+
      then show ?thesis using less [of k] by linarith
    qed
    ultimately show ?thesis using less bal by (simp add: balanced_def)
  qed
qed

lemma exec_balanced:
  assumes "exec_op st z i op d = (b, d')" "balanced st d" "\<forall>c. as_cost st = Some c \<longrightarrow> 0 \<le> c"
  shows "balanced st d'"
proof (cases op)
  case (Op_claim t now)
  then show ?thesis using assms claim_balanced by (auto split: prod.splits claim_result.splits)
next
  case (Op_renew t now)
  with assms(1) have "renew_lease st i t now d = (b, d')" by simp
  from balanced_fenced [OF this [unfolded renew_lease_def] assms(2)] show ?thesis by simp
next
  case (Op_complete t now out sc tr)
  with assms(1) have "complete_analysis i t now out sc tr d = (b, d')" by simp
  from balanced_fenced [OF this [unfolded complete_analysis_def] assms(2)] show ?thesis by (simp add: held_def row_defs)
next
  case (Op_retry t now code at_time refund)
  with assms(1) have "schedule_analysis_retry i t now code at_time refund d = (b, d')" by simp
  from balanced_fenced [OF this [unfolded schedule_analysis_retry_def] assms(2)] show ?thesis by (simp add: held_def row_defs)
next
  case (Op_fail t now code)
  with assms(1) have "fail_analysis i t now code d = (b, d')" by simp
  from balanced_fenced [OF this [unfolded fail_analysis_def] assms(2)] show ?thesis by simp
next
  case (Op_skip t now code rel)
  then show ?thesis using assms skip_balanced by simp
next
  case (Op_finalize locked now only limit)
  with assms(1) have "d' = snd (finalize_exhausted st locked now only limit d)" by simp
  then show ?thesis using balanced_where [OF assms(2)] by (simp add: finalize_exhausted_def Let_def)
qed

lemma exec_ops_balanced:
  "balanced st d \<Longrightarrow> \<forall>c. as_cost st = Some c \<longrightarrow> 0 \<le> c \<Longrightarrow> balanced st (exec_ops st z ops d)"
proof (induction ops arbitrary: d)
  case (Cons x ops)
  obtain i op where x: "x = (i, op)" by (cases x)
  obtain b d' where e: "exec_op st z i op d = (b, d')" by (metis surj_pair)
  show ?case using Cons.IH [of d'] exec_balanced [OF e Cons.prems] Cons.prems(2) x e by simp
qed simp

text \<open>
  C17: whatever workers and sweepers do, in any order and on any day, the ledger of each day equals the sum of what
  the analyses charged to that day hold (nothing is reserved twice, and an analysis that is skipped gives its
  reservation back exactly once), and the sum never exceeds the configured daily cap.
\<close>

theorem ledger_balanced:
  assumes "balanced st d" "\<forall>c. as_cost st = Some c \<longrightarrow> 0 \<le> c" "as_cap st = Some cap"
  shows "amount k (exec_ops st z ops d) = sum_list (map (held k) (analyses (exec_ops st z ops d))) \<and>
    0 \<le> amount k (exec_ops st z ops d) \<and> amount k (exec_ops st z ops d) \<le> cap"
proof -
  let ?d = "exec_ops st z ops d"
  have b: "balanced st ?d" by (rule exec_ops_balanced [OF assms(1,2)])
  then have "0 \<le> held_in k ?d" unfolding held_in_def balanced_def by (intro sum_list_nonneg) auto
  with b assms(3) show ?thesis by (auto simp: balanced_def held_in_def)
qed

section \<open>Bounds\<close>

text \<open>
  The lead score lies between 0 and 100, it is 0 for a contact who opted out, whatever else was said, and more
  objections never raise it.
\<close>

theorem lead_score_bounds:
  "0 \<le> compute_lead_score s \<and> compute_lead_score s \<le> 100 \<and> (sg_opted_out s \<longrightarrow> compute_lead_score s = 0) \<and>
    (0 \<le> n \<longrightarrow> compute_lead_score (s\<lparr> sg_objection_count := sg_objection_count s + n \<rparr>) \<le> compute_lead_score s)"
proof -
  have "min (sg_objection_count s * 8) 24 \<le> min ((sg_objection_count s + n) * 8) 24" if "0 \<le> n" using that by (intro min.mono) simp_all
  moreover have "max 0 (min 100 a) \<le> max 0 (min 100 b)" if "a \<le> b" for a b :: int using that by linarith
  ultimately have "0 \<le> n \<longrightarrow> compute_lead_score (s\<lparr> sg_objection_count := sg_objection_count s + n \<rparr>) \<le> compute_lead_score s"
    by (simp add: compute_lead_score_def Let_def)
  then show ?thesis by (simp add: compute_lead_score_def Let_def)
qed

lemma lead_score_bounds_witness:
  "0 \<le> (2 :: int) \<and> compute_lead_score ((\<lparr> sg_explicit_interest = True, sg_purchase_intent = True, sg_requested_callback = True,
      sg_requested_pricing = True, sg_has_timeline = False, sg_objection_count = 1, sg_explicit_rejection = False,
      sg_opted_out = False, sg_information_requested = True \<rparr>)\<lparr> sg_objection_count := 1 + 2 \<rparr>) \<le> 92"
  using lead_score_bounds [of "\<lparr> sg_explicit_interest = True, sg_purchase_intent = True, sg_requested_callback = True,
      sg_requested_pricing = True, sg_has_timeline = False, sg_objection_count = 1, sg_explicit_rejection = False,
      sg_opted_out = False, sg_information_requested = True \<rparr>" 2]
  by (simp add: compute_lead_score_def points_def)

text \<open>The wait before a retry: at least half the capped exponential, never above the cap, and a provider's
  Retry-After is honoured up to the cap.\<close>

lemma backoff_bounds:
  assumes "0 \<le> u" "u < 1" "1 \<le> base" "1 \<le> cap"
  shows "0 < backoff_seconds n base cap ra u" "backoff_seconds n base cap ra u \<le> of_int cap"
    "ra = Some r \<Longrightarrow> 0 < r \<Longrightarrow> of_int (min r cap) \<le> backoff_seconds n base cap ra u"
proof -
  define e where "e = min cap (base * 2 ^ nat (max (n - 1) 0))"
  have "1 \<le> (2 :: int) ^ nat (max (n - 1) 0)" by simp
  then have "1 \<le> base * 2 ^ nat (max (n - 1) 0)" using assms(3) by (metis mult_mono mult_1 order_trans zero_le_one)
  then have e: "1 \<le> e" "e \<le> cap" using assms(4) by (auto simp: e_def)
  define x where "x = (of_int e :: rat) * (1 / 2 + 1 / 2 * u)"
  have "0 < (1 / 2 + 1 / 2 * u)" "(1 / 2 + 1 / 2 * u) \<le> 1" using assms(1,2) by auto
  then have x: "0 < x" "x \<le> of_int e" using e(1) by (auto simp: x_def mult_le_cancel_left1)
  moreover have "(of_int e :: rat) \<le> of_int cap" using e(2) by simp
  ultimately have xc: "x \<le> of_int cap" by linarith
  have b: "backoff_seconds n base cap ra u = (case ra of Some r \<Rightarrow> if r > 0 then max x (of_int (min r cap)) else x | None \<Rightarrow> x)"
    unfolding backoff_seconds_def x_def e_def Let_def by (rule refl)
  show "0 < backoff_seconds n base cap ra u" "backoff_seconds n base cap ra u \<le> of_int cap"
    "ra = Some r \<Longrightarrow> 0 < r \<Longrightarrow> of_int (min r cap) \<le> backoff_seconds n base cap ra u"
    using x(1) xc unfolding b by (auto simp: less_max_iff_disj split: option.splits)
qed

end
