(* ===== verification/Analysis_Transcript.thy ===== *)
theory Analysis_Transcript imports Transcripts "HOL-Library.Sublist" begin

text \<open>
  \<open>app/services/analysis/transcript.py\<close>: the stored messages of a conversation become the bounded list of
  lines the language model reads. Indices are Python's: \<open>xs[:n]\<close> and \<open>xs[-n:]\<close> for any sign of \<open>n\<close>.
\<close>

section \<open>Words and slices\<close>

lemma drop_word_less: "dropWhile P s \<noteq> [] \<Longrightarrow> length (dropWhile (\<lambda>c. \<not> P c) (dropWhile P s)) < length s"
proof (induction s)
  case (Cons c s)
  then show ?case using length_dropWhile_le [of "\<lambda>c. \<not> P c" s] by (cases "P c") auto
qed simp

function py_split :: "string \<Rightarrow> string list" where
  "py_split s = (let t = dropWhile py_space s in
     if t = [] then [] else takeWhile (\<lambda>c. \<not> py_space c) t # py_split (dropWhile (\<lambda>c. \<not> py_space c) t))"
  by pat_completeness auto

termination by (relation "measure length") (auto simp: drop_word_less)

declare py_split.simps [simp del]

fun py_join :: "string \<Rightarrow> string list \<Rightarrow> string" where
  "py_join sep [] = []"
| "py_join sep [w] = w"
| "py_join sep (w # ws) = w @ sep @ py_join sep ws"

definition slice_to :: "int \<Rightarrow> 'a list \<Rightarrow> 'a list" where
  "slice_to n xs = (if 0 \<le> n then take (nat n) xs else take (length xs - nat (- n)) xs)"

definition slice_from :: "int \<Rightarrow> 'a list \<Rightarrow> 'a list" where
  "slice_from n xs = (if 0 \<le> n then drop (nat n) xs else drop (length xs - nat (- n)) xs)"

section \<open>Lines\<close>

record prepared_transcript =
  pt_lines :: "string list"
  pt_count :: nat
  pt_duration :: "int option"
  pt_truncated :: bool

fun role_value :: "conversation_role \<Rightarrow> string" where
  "role_value ROLE_AGENT = ''agent''"
| "role_value ROLE_CONTACT = ''contact''"
| "role_value ROLE_SYSTEM = ''system''"

definition normalised :: "conversation_message \<Rightarrow> string" where
  "normalised m = py_join '' '' (py_split (m_content m))"

definition message_line :: "int \<Rightarrow> conversation_message \<Rightarrow> string" where
  "message_line max_chars m = role_value (m_role m) @ '': '' @ slice_to max_chars (normalised m)"

fun message_lines :: "int \<Rightarrow> conversation_message list \<Rightarrow> string list \<times> bool" where
  "message_lines max_chars [] = ([], False)"
| "message_lines max_chars (m # ms) =
    (case message_lines max_chars ms of
       (ls, clipped) \<Rightarrow>
         if normalised m = [] then (ls, clipped)
         else (message_line max_chars m # ls, clipped \<or> int (length (normalised m)) > max_chars))"

section \<open>Bounds\<close>

definition fit_messages :: "int \<Rightarrow> string list \<Rightarrow> string list \<times> bool" where
  "fit_messages max_messages lines =
    (if int (length lines) > max_messages
     then let first = max_messages div 3; last = max_messages - first
          in (slice_to first lines @ slice_from (- last) lines, True)
     else (lines, False))"

fun within_budget :: "int \<Rightarrow> int \<Rightarrow> string list \<Rightarrow> string list" where
  "within_budget budget used [] = []"
| "within_budget budget used (l # ls) =
    (if used + int (length l) > budget then [] else l # within_budget budget (used + int (length l)) ls)"

definition fit_chars :: "string list \<Rightarrow> int \<Rightarrow> string list" where
  "fit_chars lines budget =
    (let head_budget = budget div 3; tail_budget = budget - head_budget;
         front = within_budget head_budget 0 lines;
         end_part = rev (within_budget tail_budget 0 (rev (drop (length front) lines)))
     in front @ end_part)"

definition chars :: "string list \<Rightarrow> int" where
  "chars lines = sum_list (map (\<lambda>l. int (length l)) lines)"

definition bound_chars :: "int \<Rightarrow> string list \<Rightarrow> string list \<times> bool" where
  "bound_chars max_chars lines = (if chars lines > max_chars then (fit_chars lines max_chars, True) else (lines, False))"

definition session_messages :: "uuid \<Rightarrow> db \<Rightarrow> conversation_message list" where
  "session_messages session d = sort_key m_sequence (filter (\<lambda>m. m_session m = session) (messages d))"

definition prepare_transcript :: "analysis_settings \<Rightarrow> conversation_session \<Rightarrow> db \<Rightarrow> prepared_transcript" where
  "prepare_transcript st s d =
    (let rows = session_messages (cs_id s) d in
     case message_lines (as_max_message_chars st) rows of (lines, cut1) \<Rightarrow>
     case fit_messages (as_max_messages st) lines of (lines2, cut2) \<Rightarrow>
     case bound_chars (as_max_transcript_chars st) lines2 of (lines3, cut3) \<Rightarrow>
       \<lparr> pt_lines = lines3, pt_count = length rows,
         pt_duration = map_option (\<lambda>e. e - cs_started_at s) (cs_ended_at s),
         pt_truncated = (cut1 \<or> cut2 \<or> cut3) \<rparr>)"

section \<open>Every cut keeps the order and invents nothing\<close>

lemma chars_append [simp]: "chars (xs @ ys) = chars xs + chars ys" "chars (rev xs) = chars xs" "chars (l # xs) = int (length l) + chars xs" "chars [] = 0"
  by (simp_all add: chars_def rev_map [symmetric])

lemma chars_nonneg [simp]: "0 \<le> chars xs"
  by (induction xs) simp_all

lemma subseq_ends:
  assumes "n \<le> m"
  shows "subseq (take n xs @ drop m xs) xs"
proof -
  obtain k where m: "m = n + k" using assms le_Suc_ex by blast
  have "subseq (drop k (drop n xs)) (drop n xs)" by (intro suffix_imp_subseq suffix_drop)
  then have "subseq (take n xs @ drop k (drop n xs)) (take n xs @ drop n xs)" by (rule list_emb_append_mono [OF subseq_order.order_refl])
  moreover have "drop k (drop n xs) = drop m xs" by (simp add: m add.commute)
  ultimately show ?thesis by (simp only: append_take_drop_id)
qed

lemma within_budget_prefix: "prefix (within_budget b u ls) ls"
  by (induction b u ls rule: within_budget.induct) simp_all

lemma within_budget_chars: "u \<le> b \<Longrightarrow> chars (within_budget b u ls) \<le> b - u"
  by (induction b u ls rule: within_budget.induct) auto

lemma fit_chars_bound: "0 \<le> budget \<Longrightarrow> chars (fit_chars lines budget) \<le> budget"
proof -
  assume b: "0 \<le> budget"
  then have "0 \<le> budget div 3" "0 \<le> budget - budget div 3" by linarith+
  note within_budget_chars [OF this(1)] within_budget_chars [OF this(2)]
  from this(1) [of lines] this(2) [of "rev (drop (length (within_budget (budget div 3) 0 lines)) lines)"]
  show ?thesis by (simp add: fit_chars_def Let_def)
qed

lemma fit_chars_subseq: "subseq (fit_chars lines budget) lines"
proof -
  obtain rest where rest: "lines = within_budget (budget div 3) 0 lines @ rest" using within_budget_prefix prefix_def by metis
  let ?front = "within_budget (budget div 3) 0 lines"
  have drop: "drop (length ?front) lines = rest" by (metis rest append_eq_conv_conj)
  let ?tail = "within_budget (budget - budget div 3) 0 (rev rest)"
  have "prefix ?tail (rev rest)" by (rule within_budget_prefix)
  then have "suffix (rev ?tail) rest" by (simp add: suffix_to_prefix)
  then have "subseq (rev ?tail) rest" by (rule suffix_imp_subseq)
  then have "subseq (?front @ rev ?tail) (?front @ rest)"
    by (rule list_emb_append_mono [OF subseq_order.order_refl])
  moreover have "fit_chars lines budget = ?front @ rev ?tail" unfolding fit_chars_def Let_def drop by simp
  ultimately show ?thesis using rest by simp
qed

lemma fit_messages_cut:
  assumes "int (length lines) > max_messages" "0 < max_messages"
  shows "fst (fit_messages max_messages lines) =
    take (nat (max_messages div 3)) lines @ drop (length lines - nat (max_messages - max_messages div 3)) lines"
proof -
  define h where "h = max_messages div 3"
  have h: "0 \<le> h" "\<not> 0 \<le> - (max_messages - h)" "- (- (max_messages - h)) = max_messages - h" using assms(2) by (auto simp: h_def)
  show ?thesis using assms(1) unfolding fit_messages_def h_def [symmetric] Let_def slice_to_def slice_from_def by (simp only: h if_True if_False fst_conv)
qed

lemma fit_messages_facts:
  assumes "0 < max_messages"
  shows "int (length (fst (fit_messages max_messages lines))) \<le> max_messages" "subseq (fst (fit_messages max_messages lines)) lines"
    "lines \<noteq> [] \<Longrightarrow> last (fst (fit_messages max_messages lines)) = last lines \<and> fst (fit_messages max_messages lines) \<noteq> []"
proof -
  let ?a = "nat (max_messages div 3)" and ?b = "nat (max_messages - max_messages div 3)"
  have ab: "?a + ?b = nat max_messages" "0 < ?b" using assms by (simp_all add: nat_add_distrib [symmetric])
  show "int (length (fst (fit_messages max_messages lines))) \<le> max_messages"
  proof (cases "int (length lines) > max_messages")
    case True
    then show ?thesis using ab assms by (simp add: fit_messages_cut)
  qed (simp add: fit_messages_def)
  show "subseq (fst (fit_messages max_messages lines)) lines"
  proof (cases "int (length lines) > max_messages")
    case True
    moreover have "?a \<le> length lines - ?b" using True ab assms by linarith
    ultimately show ?thesis using assms subseq_ends by (simp add: fit_messages_cut)
  qed (simp add: fit_messages_def)
  show "lines \<noteq> [] \<Longrightarrow> last (fst (fit_messages max_messages lines)) = last lines \<and> fst (fit_messages max_messages lines) \<noteq> []"
  proof (cases "int (length lines) > max_messages")
    case True
    then have "drop (length lines - ?b) lines \<noteq> []" using ab assms by auto
    then show ?thesis using True assms by (simp add: fit_messages_cut)
  qed (simp add: fit_messages_def)
qed

lemma fit_chars_keeps_something:
  assumes "lines \<noteq> []" "\<forall>l \<in> set lines. 3 * int (length l) \<le> budget"
  shows "fit_chars lines budget \<noteq> []"
proof -
  obtain l ls where ls: "lines = l # ls" using assms(1) by (cases lines) auto
  have "\<not> int (length l) > budget div 3" using assms(2) ls by fastforce
  then have "within_budget (budget div 3) 0 lines \<noteq> []" using ls by simp
  then show ?thesis by (simp add: fit_chars_def Let_def)
qed

lemma message_lines_eq:
  "message_lines mc ms = (map (message_line mc) (filter (\<lambda>m. normalised m \<noteq> []) ms),
     list_ex (\<lambda>m. int (length (normalised m)) > mc \<and> normalised m \<noteq> []) ms)"
  by (induction ms) auto

definition all_lines :: "analysis_settings \<Rightarrow> uuid \<Rightarrow> db \<Rightarrow> string list" where
  "all_lines st session d = map (message_line (as_max_message_chars st))
     (filter (\<lambda>m. normalised m \<noteq> []) (session_messages session d))"

lemma length_message_line: "0 \<le> mc \<Longrightarrow> int (length (message_line mc m)) \<le> mc + 9"
  by (cases "m_role m") (simp_all add: message_line_def slice_to_def)

text \<open>
  C32: the text prepared for the language model stays within the configured number of lines and characters; its
  lines are lines of the conversation, in the order they were spoken, none invented; it is the whole
  conversation unless it is marked as truncated; and when the message limit is at most a third of the character
  limit, a conversation in which something was said is never taken for an empty one.
\<close>

theorem transcript_prepared:
  assumes "0 < as_max_messages st" "0 < as_max_message_chars st" "0 < as_max_transcript_chars st"
    and "pt = prepare_transcript st s d"
  shows "int (length (pt_lines pt)) \<le> as_max_messages st \<and> chars (pt_lines pt) \<le> as_max_transcript_chars st \<and>
    subseq (pt_lines pt) (all_lines st (cs_id s) d) \<and>
    (\<not> pt_truncated pt \<longrightarrow> pt_lines pt = all_lines st (cs_id s) d \<and>
       (\<forall>m \<in> set (session_messages (cs_id s) d). int (length (normalised m)) \<le> as_max_message_chars st)) \<and>
    (3 * (as_max_message_chars st + 9) \<le> as_max_transcript_chars st \<longrightarrow>
       pt_lines pt = [] \<longrightarrow> (\<forall>m \<in> set (session_messages (cs_id s) d). normalised m = []))"
proof -
  define l1 where "l1 = all_lines st (cs_id s) d"
  define l2 where "l2 = fst (fit_messages (as_max_messages st) l1)"
  define l3 where "l3 = fst (bound_chars (as_max_transcript_chars st) l2)"
  note ml = message_lines_eq [of "as_max_message_chars st" "session_messages (cs_id s) d"]
  have pt: "pt_lines pt = l3"
    by (simp add: assms(4) prepare_transcript_def ml l1_def l2_def l3_def all_lines_def Let_def split: prod.split)
  have tr: "\<not> pt_truncated pt \<longleftrightarrow> \<not> snd (message_lines (as_max_message_chars st) (session_messages (cs_id s) d)) \<and>
      \<not> snd (fit_messages (as_max_messages st) l1) \<and> \<not> snd (bound_chars (as_max_transcript_chars st) l2)"
    by (simp add: assms(4) prepare_transcript_def ml l1_def l2_def all_lines_def Let_def split: prod.split)
  note f2 = fit_messages_facts [OF assms(1), of l1, folded l2_def]
  have sub3: "subseq l3 l2" using fit_chars_subseq by (simp add: l3_def bound_chars_def)
  then have sub: "subseq l3 l1" using f2(2) by (rule subseq_order.trans)
  have n: "int (length l3) \<le> as_max_messages st" using list_emb_length [OF sub3] f2(1) by linarith
  have c: "chars l3 \<le> as_max_transcript_chars st" using fit_chars_bound assms(3) by (simp add: l3_def bound_chars_def)
  have whole: "l3 = l1 \<and> (\<forall>m \<in> set (session_messages (cs_id s) d). int (length (normalised m)) \<le> as_max_message_chars st)"
    if "\<not> pt_truncated pt"
    using that assms(2) unfolding tr ml
    by (auto simp: l3_def l2_def bound_chars_def fit_messages_def Let_def list_ex_iff not_less split: if_splits)
  have "l1 = []" if "3 * (as_max_message_chars st + 9) \<le> as_max_transcript_chars st" "l3 = []"
  proof (rule ccontr)
    assume "l1 \<noteq> []"
    have "3 * int (length l) \<le> as_max_transcript_chars st" if "l \<in> set l2" for l
    proof -
      have "l \<in> set l1" using list_emb_set [OF f2(2) that] by metis
      then obtain m where "l = message_line (as_max_message_chars st) m" by (auto simp: l1_def all_lines_def)
      then show ?thesis using length_message_line [of "as_max_message_chars st" m] assms(2) \<open>3 * _ \<le> _\<close> by simp
    qed
    then show False using fit_chars_keeps_something [of l2] f2(3) \<open>l1 \<noteq> []\<close> \<open>l3 = []\<close>
      by (auto simp: l3_def bound_chars_def split: if_splits)
  qed
  then show ?thesis using n c sub whole unfolding pt by (auto simp: l1_def all_lines_def filter_empty_conv)
qed

text \<open>With a limit of 0 messages the slice \<open>lines[-0:]\<close> is the whole list: nothing is dropped.\<close>

lemma zero_messages_keeps_all: "lines \<noteq> [] \<Longrightarrow> fit_messages 0 lines = (lines, True)"
  by (simp add: fit_messages_def slice_to_def slice_from_def)

definition demo_said :: db where
  "demo_said = empty_db\<lparr> messages := [\<lparr> m_session = 1, m_sequence = 2, m_role = ROLE_CONTACT, m_content = '' yes   please'' \<rparr>,
     \<lparr> m_session = 1, m_sequence = 1, m_role = ROLE_AGENT, m_content = ''hello'' \<rparr>] \<rparr>"

definition demo_session :: conversation_session where
  "demo_session = \<lparr> cs_id = 1, cs_attempt = 5, cs_status = CS_ENDED, cs_started_at = 0, cs_ended_at = Some 9,
     cs_transcript_status = Some ''ok'', cs_transcript_reason = None, cs_transcript_url = None \<rparr>"

lemma transcript_prepared_witness:
  "int (length (pt_lines (prepare_transcript default_analysis_settings demo_session demo_said))) \<le> 200"
  using transcript_prepared [of default_analysis_settings _ demo_session demo_said] by (simp add: default_analysis_settings_def)

end
