(* ===== verification/Analysis_Worker.thy ===== *)
theory Analysis_Worker imports Analysis_Ledger Analysis_Transcript begin

text \<open>
  \<open>app/services/analysis/worker.py\<close>: one delivered job, from the claim to the acknowledgement. Each transaction
  is a function on the committed database: \<open>wk_fails\<close> says that its commit raises (it is rolled back, the
  exception leaves the worker and the message stays pending), \<open>wk_others\<close> is what other processes commit after
  it. The language model, the transcript host, the clock, the generator and the answers of Redis are arguments.
  \<open>pr_sent\<close> is the text handed to the model. The clock at \<open>K_SETTLE\<close> of a retry is \<open>utcnow()\<close>.
\<close>

section \<open>Inputs and outcomes\<close>

datatype worker_stage = W_CLAIM | W_LOAD | W_RENEW | W_SETTLE

datatype worker_moment = K_CLAIM | K_RENEW | K_FAILURE | K_SETTLE

datatype worker_outcome = WO_COMPLETED | WO_FAILED_RETRIABLE | WO_FAILED_TERMINAL | WO_SKIPPED | WO_DEFERRED | WO_STALE
  | WO_ALREADY_PROCESSED | WO_NOT_CLAIMABLE | WO_NOT_ELIGIBLE | WO_NO_JOB

record analysis_context =
  cx_workflow :: "int option"
  cx_run :: "int option"
  cx_duration :: "rat option"

record analysis_result =
  ar_output :: payload
  ar_signals :: scoring_signals

record worker_env =
  wk_settings :: settings
  wk_zone :: zone
  wk_token :: uuid
  wk_clock :: "worker_moment \<Rightarrow> instant"
  wk_draw :: rat
  wk_fails :: "worker_stage \<Rightarrow> bool"
  wk_others :: "worker_stage \<Rightarrow> db \<Rightarrow> db"
  wk_locked :: "uuid \<Rightarrow> bool"
  wk_repr :: "jval \<Rightarrow> string"
  wk_fetch :: "string \<Rightarrow> transcript_result"
  wk_llm :: "string list \<Rightarrow> analysis_context \<Rightarrow> llm_error + analysis_result"
  wk_ack_up :: bool

text \<open>\<open>pr_outcome\<close> is None when an exception leaves the worker.\<close>

record processed_job =
  pr_outcome :: "worker_outcome option"
  pr_acked :: bool
  pr_sent :: "string list option"
  pr_db :: db

definition raised :: "string list option \<Rightarrow> db \<Rightarrow> processed_job" where
  "raised sent d = \<lparr> pr_outcome = None, pr_acked = False, pr_sent = sent, pr_db = d \<rparr>"

definition ack_job :: "worker_env \<Rightarrow> worker_outcome \<Rightarrow> string list option \<Rightarrow> db \<Rightarrow> processed_job" where
  "ack_job w out sent d = (if wk_ack_up w then \<lparr> pr_outcome = Some out, pr_acked = True, pr_sent = sent, pr_db = d \<rparr> else raised sent d)"

definition an_settings :: "worker_env \<Rightarrow> analysis_settings" where
  "an_settings w = st_analysis (wk_settings w)"

datatype loaded_input =
    In_ready prepared_transcript analysis_context instant
  | In_skip string
  | In_defer failure_kind instant
  | In_missing

section \<open>The input\<close>

definition ERR_BAD_RELATIONSHIP :: string where "ERR_BAD_RELATIONSHIP = ''invalid_call_relationship''"
definition ERR_NOT_ELIGIBLE :: string where "ERR_NOT_ELIGIBLE = ''not_eligible''"
definition ERR_NO_SESSION :: string where "ERR_NO_SESSION = ''no_conversation_session''"
definition ERR_EMPTY_CONVERSATION :: string where "ERR_EMPTY_CONVERSATION = ''empty_conversation''"
definition ERR_MISSING_RUN_ID :: string where "ERR_MISSING_RUN_ID = ''missing_provider_run_id''"
definition ERR_TRANSCRIPT_UNAVAILABLE :: string where "ERR_TRANSCRIPT_UNAVAILABLE = ''transcript_unavailable''"
definition ERR_QA_UNAVAILABLE :: string where "ERR_QA_UNAVAILABLE = ''qa_unavailable''"
definition ERR_QA_NOT_PRODUCED :: string where "ERR_QA_NOT_PRODUCED = ''qa_result_not_produced''"

definition context_of :: "worker_env \<Rightarrow> call_attempt \<Rightarrow> analysis_context" where
  "context_of w a = \<lparr>
     cx_workflow = (case a_workflow_id a of Some n \<Rightarrow> if n = 0 then st_dograh_workflow_id (wk_settings w) else Some n
                    | None \<Rightarrow> st_dograh_workflow_id (wk_settings w)),
     cx_run = (if as_provider (an_settings w) \<noteq> ''dograh_qa'' then None
               else case a_provider_call_id a of Some s \<Rightarrow> if s = [] then None else py_int 10 s | None \<Rightarrow> None),
     cx_duration = a_duration a \<rparr>"

definition load_transcript :: "worker_env \<Rightarrow> call_analysis \<Rightarrow> call_attempt \<Rightarrow> conversation_session \<Rightarrow> db \<Rightarrow> loaded_input" where
  "load_transcript w an a s d =
    (let pt = prepare_transcript (an_settings w) s d; cx = context_of w a in
     if pt_lines pt = [] then In_skip ERR_EMPTY_CONVERSATION
     else if as_provider (an_settings w) = ''dograh_qa'' \<and> (cx_run cx = None \<or> cx_workflow cx = None)
     then In_skip ERR_MISSING_RUN_ID
     else In_ready pt cx (an_created_at an))"

definition load_session :: "worker_env \<Rightarrow> call_analysis \<Rightarrow> call_attempt \<Rightarrow> db \<Rightarrow> loaded_input \<times> db" where
  "load_session w an a d =
    (case load_conversation_session (a_id a) d of
       None \<Rightarrow> (In_skip ERR_NO_SESSION, d)
     | Some s \<Rightarrow>
        if an_session an \<notin> {None, Some (cs_id s)} then (In_skip ERR_BAD_RELATIONSHIP, d)
        else if cs_transcript_status s \<noteq> Some ''unavailable'' then (load_transcript w an a s d, d)
        else (case refetch_unavailable (wk_repr w) (wk_fetch w) s d of
           (r, d1) \<Rightarrow>
             case load_conversation_session (a_id a) d1 of
               None \<Rightarrow> (In_skip ERR_NO_SESSION, d1)
             | Some s1 \<Rightarrow>
                if cs_transcript_status s1 = Some ''unavailable''
                then (In_defer (case r of Some x \<Rightarrow> if is_retryable (tr_reason x) then K_TRANSIENT else K_PERMANENT | None \<Rightarrow> K_PERMANENT)
                        (an_created_at an), d1)
                else (load_transcript w an a s1 d1, d1)))"

definition load_input :: "worker_env \<Rightarrow> uuid \<Rightarrow> db \<Rightarrow> loaded_input \<times> db" where
  "load_input w i d =
    (case get_analysis i d of
       None \<Rightarrow> (In_missing, d)
     | Some an \<Rightarrow>
        case (get_attempt (an_attempt an) d, get_contact (an_contact an) d) of
          (Some a, Some c) \<Rightarrow>
            if a_contact a \<noteq> c_id c \<or> c_campaign c \<noteq> an_campaign an then (In_skip ERR_BAD_RELATIONSHIP, d)
            else if \<not> is_eligible a c then (In_skip ERR_NOT_ELIGIBLE, d)
            else load_session w an a d
        | _ \<Rightarrow> (In_skip ERR_BAD_RELATIONSHIP, d))"

section \<open>Settling\<close>

definition analysis_event :: "uuid \<Rightarrow> string \<Rightarrow> payload \<Rightarrow> db \<Rightarrow> db" where
  "analysis_event i etype pl d = (case get_analysis i d of
     Some an \<Rightarrow> add_call_event (an_attempt an) etype ((''analysis_id'', JId i) # pl) d | None \<Rightarrow> d)"

definition analysis_audit :: "uuid \<Rightarrow> string \<Rightarrow> payload \<Rightarrow> db \<Rightarrow> db" where
  "analysis_audit i action pl = record_audit_event ''analysis-worker'' action ''call_analysis'' (Some i) pl"

text \<open>The common end: a write that matched nothing is stale; otherwise event, audit row, commit, acknowledgement.\<close>

definition settle :: "worker_env \<Rightarrow> uuid \<Rightarrow> worker_outcome \<Rightarrow> string \<Rightarrow> payload \<Rightarrow> string \<Rightarrow> payload \<Rightarrow> string list option \<Rightarrow>
    db \<Rightarrow> bool \<times> db \<Rightarrow> processed_job" where
  "settle w i out etype epl action apl sent d0 r =
    (if wk_fails w W_SETTLE then raised sent d0
     else case r of
       (True, d1) \<Rightarrow> ack_job w out sent (analysis_audit i action apl (analysis_event i etype epl d1))
     | (False, d1) \<Rightarrow> ack_job w WO_STALE sent d1)"

definition persist_skip :: "worker_env \<Rightarrow> uuid \<Rightarrow> string \<Rightarrow> string list option \<Rightarrow> db \<Rightarrow> processed_job" where
  "persist_skip w i code sent d =
    settle w i WO_SKIPPED ''ANALYSIS_SKIPPED'' [(''error_code'', JStr code)] ''analysis.skipped'' [(''error_code'', JStr code)] sent d
      (skip_analysis i (wk_token w) (wk_clock w K_SETTLE) code True d)"

definition persist_retry :: "worker_env \<Rightarrow> uuid \<Rightarrow> string \<Rightarrow> instant \<Rightarrow> bool \<Rightarrow> string list option \<Rightarrow> db \<Rightarrow> processed_job" where
  "persist_retry w i code at_time refund sent d =
    settle w i WO_FAILED_RETRIABLE ''ANALYSIS_RETRY_SCHEDULED'' [(''error_code'', JStr code)] ''analysis.retry_scheduled''
      [(''error_code'', JStr code)] sent d
      (schedule_analysis_retry i (wk_token w) (wk_clock w K_SETTLE) code at_time refund d)"

definition persist_fail :: "worker_env \<Rightarrow> uuid \<Rightarrow> int \<Rightarrow> string \<Rightarrow> string list option \<Rightarrow> db \<Rightarrow> processed_job" where
  "persist_fail w i attempt_count code sent d =
    settle w i WO_FAILED_TERMINAL ''ANALYSIS_FAILED'' [(''error_code'', JStr code)] ''analysis.failed''
      [(''error_code'', JStr code), (''attempt_count'', JInt attempt_count)] sent d
      (fail_analysis i (wk_token w) (wk_clock w K_FAILURE) code d)"

definition delayed :: "instant \<Rightarrow> rat \<Rightarrow> instant" where
  "delayed now delay = now + round (delay * 1000000)"

definition persist_failure :: "worker_env \<Rightarrow> uuid \<Rightarrow> instant \<Rightarrow> int \<Rightarrow> failure_kind \<Rightarrow> string \<Rightarrow> int option \<Rightarrow> string list option \<Rightarrow>
    db \<Rightarrow> processed_job" where
  "persist_failure w i created attempt_count kind code retry_after sent d =
    (let st = an_settings w; now = wk_clock w K_FAILURE in
     if kind = K_QA_UNAVAILABLE then persist_skip w i ERR_QA_UNAVAILABLE sent d
     else if kind = K_QA_NOT_READY then
       (if now - created \<ge> seconds (as_qa_deadline_s st) then persist_skip w i ERR_QA_NOT_PRODUCED sent d
        else persist_retry w i code
          (delayed now (poll_delay_seconds (of_int (now - created) / 1000000) (as_retry_base_s st) (as_retry_max_s st) (wk_draw w)))
          True sent d)
     else if kind = K_PERMANENT \<or> attempt_count \<ge> as_max_attempts st then persist_fail w i attempt_count code sent d
     else persist_retry w i code
       (delayed now (backoff_seconds attempt_count (as_retry_base_s st) (as_retry_max_s st) retry_after (wk_draw w))) False sent d)"

definition persist_success :: "worker_env \<Rightarrow> uuid \<Rightarrow> prepared_transcript \<Rightarrow> analysis_result \<Rightarrow> db \<Rightarrow> processed_job" where
  "persist_success w i pt r d =
    (let score = compute_lead_score (ar_signals r); pl = [(''lead_score'', JInt score)] in
     settle w i WO_COMPLETED ''ANALYSIS_COMPLETED'' pl ''analysis.completed'' pl (Some (pt_lines pt)) d
       (complete_analysis i (wk_token w) (wk_clock w K_SETTLE) (ar_output r) score (pt_truncated pt) d))"

section \<open>One job\<close>

definition handle_unclaimed :: "worker_env \<Rightarrow> uuid \<Rightarrow> string option \<Rightarrow> db \<Rightarrow> processed_job" where
  "handle_unclaimed w i deferred d =
    (if deferred \<noteq> None then ack_job w WO_DEFERRED None d
     else case get_analysis i d of
       None \<Rightarrow> ack_job w WO_NOT_ELIGIBLE None d
     | Some an \<Rightarrow>
        if terminal_analysis (an_status an) then ack_job w WO_ALREADY_PROCESSED None d
        else if an_attempt_count an \<ge> as_max_attempts (an_settings w)
        then (if wk_fails w W_SETTLE then raised None d
              else ack_job w WO_FAILED_TERMINAL None
                (snd (finalize_exhausted (an_settings w) (wk_locked w) (wk_clock w K_SETTLE) (Some i) 100 d)))
        else ack_job w WO_NOT_CLAIMABLE None d)"

definition analyse :: "worker_env \<Rightarrow> uuid \<Rightarrow> int \<Rightarrow> prepared_transcript \<Rightarrow> analysis_context \<Rightarrow> instant \<Rightarrow> db \<Rightarrow> processed_job" where
  "analyse w i attempt_count pt cx created d =
    (case renew_lease (an_settings w) i (wk_token w) (wk_clock w K_RENEW) d of
       (owned, d1) \<Rightarrow>
         if wk_fails w W_RENEW then raised None d
         else if \<not> owned then ack_job w WO_STALE None d1
         else let d2 = wk_others w W_RENEW d1 in
              case wk_llm w (pt_lines pt) cx of
                Inl e \<Rightarrow> (case classify_failure e of
                   (kind, code, ra) \<Rightarrow> persist_failure w i created attempt_count kind code ra (Some (pt_lines pt)) d2)
              | Inr r \<Rightarrow> persist_success w i pt r d2)"

definition process_owned :: "worker_env \<Rightarrow> uuid \<Rightarrow> int \<Rightarrow> db \<Rightarrow> processed_job" where
  "process_owned w i attempt_count d =
    (case load_input w i d of
       (input, d1) \<Rightarrow>
         if input = In_missing \<or> wk_fails w W_LOAD then raised None d
         else let d2 = wk_others w W_LOAD d1 in
              case input of
                In_skip code \<Rightarrow> persist_skip w i code None d2
              | In_defer kind created \<Rightarrow> persist_failure w i created attempt_count kind ERR_TRANSCRIPT_UNAVAILABLE None None d2
              | In_ready pt cx created \<Rightarrow> analyse w i attempt_count pt cx created d2
              | In_missing \<Rightarrow> raised None d2)"

definition process_analysis :: "worker_env \<Rightarrow> uuid \<Rightarrow> db \<Rightarrow> processed_job" where
  "process_analysis w i d =
    (case claim_for_processing (an_settings w) (wk_zone w) i (wk_token w) (wk_clock w K_CLAIM) d of
       (r, d1) \<Rightarrow>
         if wk_fails w W_CLAIM then raised None d
         else let d2 = wk_others w W_CLAIM d1 in
              case r of
                Claimed an t \<Rightarrow> process_owned w i (an_attempt_count an) d2
              | Deferred reason \<Rightarrow> handle_unclaimed w i (Some reason) d2
              | Unclaimable \<Rightarrow> handle_unclaimed w i None d2)"

definition process_one_analysis_job :: "worker_env \<Rightarrow> analysis_job option \<Rightarrow> db \<Rightarrow> processed_job" where
  "process_one_analysis_job w job d =
    (case job of
       None \<Rightarrow> \<lparr> pr_outcome = Some WO_NO_JOB, pr_acked = False, pr_sent = None, pr_db = d \<rparr>
     | Some j \<Rightarrow> process_analysis w (aj_analysis j) d)"

end
