(* ===== verification/Analysis_Contract.thy ===== *)
theory Analysis_Contract imports Analysis_Worker begin

text \<open>
  What one run of the analysis worker guarantees, whatever other processes commit between its transactions and
  wherever it is cut off: an acknowledged job has a durable outcome, a transcript leaves only for a call that is
  entitled to it, and the invariants of the rows and of the ledger hold throughout.
\<close>

section \<open>Settling writes\<close>

lemma analysis_log_frame [simp]:
  "analyses (analysis_event i e pl d) = analyses d" "budget_days (analysis_event i e pl d) = budget_days d"
  "analyses (analysis_audit i a pl d) = analyses d" "budget_days (analysis_audit i a pl d) = budget_days d"
  by (simp_all add: analysis_event_def analysis_audit_def split: option.split)

lemma analysis_log_get [simp]:
  "get_analysis j (analysis_event i e pl d) = get_analysis j d" "get_analysis j (analysis_audit i a pl d) = get_analysis j d"
  by (simp_all add: get_analysis_def)

lemma raised_sel [simp]: "pr_outcome (raised s d) = None" "pr_acked (raised s d) = False" "pr_sent (raised s d) = s" "pr_db (raised s d) = d"
  by (simp_all add: raised_def)

lemma ack_job_sel [simp]: "pr_sent (ack_job w out s d) = s" "pr_db (ack_job w out s d) = d"
  "pr_acked (ack_job w out s d) = (pr_outcome (ack_job w out s d) \<noteq> None)"
  "pr_outcome (ack_job w out s d) = Some out' \<longleftrightarrow> wk_ack_up w \<and> out' = out"
  by (auto simp: ack_job_def)

lemma settle_sel [simp]:
  "pr_sent (settle w i out e epl a apl s d0 r) = s"
  "pr_acked (settle w i out e epl a apl s d0 r) = (pr_outcome (settle w i out e epl a apl s d0 r) \<noteq> None)"
  by (auto simp: settle_def split: prod.split bool.split)

lemma settle_outcome:
  assumes "pr_outcome (settle w i out e epl a apl s d0 (b, d1)) = Some o'"
  shows "(if b then o' = out else o' = WO_STALE) \<and>
    get_analysis j (pr_db (settle w i out e epl a apl s d0 (b, d1))) = get_analysis j d1"
  using assms by (auto simp: settle_def split: if_splits bool.splits)

lemma settle_db:
  "pr_db (settle w i out e epl a apl s d0 (b, d1)) = d0 \<or>
    (analyses (pr_db (settle w i out e epl a apl s d0 (b, d1))) = analyses d1 \<and>
     budget_days (pr_db (settle w i out e epl a apl s d0 (b, d1))) = budget_days d1)"
  by (cases b) (simp_all add: settle_def)

section \<open>An acknowledged job has a durable outcome\<close>

text \<open>The row a result leaves behind. A job whose attempts are used up is reported failed: its row is failed, or
  another transaction holds it, or a worker with a live lease is still on it.\<close>

definition row_is :: "uuid \<Rightarrow> (call_analysis \<Rightarrow> bool) \<Rightarrow> db \<Rightarrow> bool" where
  "row_is i P d \<longleftrightarrow> (\<exists>r. get_analysis i d = Some r \<and> P r)"

fun outcome_holds :: "worker_env \<Rightarrow> uuid \<Rightarrow> worker_outcome \<Rightarrow> string list option \<Rightarrow> db \<Rightarrow> bool" where
  "outcome_holds w i WO_COMPLETED sent d = (\<exists>ls cx res. sent = Some ls \<and> wk_llm w ls cx = Inr res \<and>
     row_is i (\<lambda>r. an_status r = AN_COMPLETED \<and> an_output r = ar_output res \<and>
        an_lead_score r = Some (compute_lead_score (ar_signals res))) d)"
| "outcome_holds w i WO_FAILED_RETRIABLE sent d = row_is i (\<lambda>r. an_status r = AN_RETRY_WAIT \<and>
     (\<exists>t. an_next_attempt r = Some t \<and> wk_clock w K_FAILURE \<le> t) \<and> an_error_code r \<noteq> None) d"
| "outcome_holds w i WO_FAILED_TERMINAL sent d = row_is i (\<lambda>r. an_status r = AN_FAILED \<or>
     (\<not> terminal_analysis (an_status r) \<and> an_attempt_count r \<ge> as_max_attempts (an_settings w) \<and>
       (wk_locked w i \<or> (an_status r = AN_PROCESSING \<and> \<not> lt_opt (an_lease_expires r) (wk_clock w K_SETTLE))))) d"
| "outcome_holds w i WO_SKIPPED sent d = row_is i (\<lambda>r. an_status r = AN_SKIPPED \<and> an_reserved_cost r \<in> {None, Some 0}) d"
| "outcome_holds w i WO_STALE sent d = (\<not> row_is i (owns (wk_token w)) d)"
| "outcome_holds w i WO_ALREADY_PROCESSED sent d = row_is i (\<lambda>r. terminal_analysis (an_status r)) d"
| "outcome_holds w i WO_NOT_CLAIMABLE sent d = row_is i (\<lambda>r. \<not> terminal_analysis (an_status r) \<and>
     an_attempt_count r < as_max_attempts (an_settings w)) d"
| "outcome_holds w i WO_NOT_ELIGIBLE sent d = (get_analysis i d = None)"
| "outcome_holds w i WO_DEFERRED sent d = (sent = None)"
| "outcome_holds w i WO_NO_JOB sent d = False"

lemma row_is_cong: "get_analysis i d = get_analysis i d' \<Longrightarrow> row_is i P d = row_is i P d'"
  by (simp add: row_is_def)

lemma outcome_holds_cong: "get_analysis i d = get_analysis i d' \<Longrightarrow> outcome_holds w i out s d = outcome_holds w i out s d'"
  by (cases out) (simp_all add: row_is_def)

lemma settle_holds:
  assumes "pr_outcome (settle w i out e epl a apl s d0 r) = Some o'" "r = (b, d1)"
    and "b \<Longrightarrow> outcome_holds w i out s d1" "\<not> b \<Longrightarrow> outcome_holds w i WO_STALE s d1"
  shows "outcome_holds w i o' s (pr_db (settle w i out e epl a apl s d0 r))"
proof -
  note so = settle_outcome [OF assms(1) [unfolded assms(2)], where j = i]
  have "outcome_holds w i o' s (pr_db (settle w i out e epl a apl s d0 r)) = outcome_holds w i o' s d1"
    using so by (intro outcome_holds_cong) (simp add: assms(2))
  then show ?thesis using so assms(3,4) by (cases b) simp_all
qed

lemma fenced_result:
  assumes "fenced i t f d = (b, d1)" "\<And>r. an_id (f r) = an_id r"
  shows "b \<Longrightarrow> \<exists>r. get_analysis i d1 = Some (f r)" "\<not> b \<Longrightarrow> \<not> row_is i (owns t) d1"
  using assms by (auto simp: fenced_def row_is_def get_analysis_upd split: option.splits if_splits)

lemma skip_result:
  assumes "skip_analysis i t now code True d = (b, d1)"
  shows "b \<Longrightarrow> row_is i (\<lambda>r. an_status r = AN_SKIPPED \<and> an_reserved_cost r \<in> {None, Some 0}) d1" "\<not> b \<Longrightarrow> \<not> row_is i (owns t) d1"
  using assms
  by (auto simp: skip_analysis_def fenced_def row_is_def get_analysis_upd row_defs Let_def split: option.splits if_splits)

lemma persist_skip_holds:
  assumes "pr_outcome (persist_skip w i code s d) = Some out"
  shows "outcome_holds w i out s (pr_db (persist_skip w i code s d))"
proof -
  obtain b d1 where r: "skip_analysis i (wk_token w) (wk_clock w K_SETTLE) code True d = (b, d1)" by (metis surj_pair)
  note f = skip_result [OF r]
  show ?thesis unfolding persist_skip_def
    by (rule settle_holds [OF assms [unfolded persist_skip_def] r]) (use f in auto)
qed

lemma persist_retry_holds:
  assumes "pr_outcome (persist_retry w i code t refund s d) = Some out" "wk_clock w K_FAILURE \<le> t"
  shows "outcome_holds w i out s (pr_db (persist_retry w i code t refund s d))"
proof -
  obtain b d1 where r: "schedule_analysis_retry i (wk_token w) (wk_clock w K_SETTLE) code t refund d = (b, d1)" by (metis surj_pair)
  note f = fenced_result [OF r [unfolded schedule_analysis_retry_def]]
  show ?thesis unfolding persist_retry_def
    by (rule settle_holds [OF assms(1) [unfolded persist_retry_def] r]) (use f assms(2) in \<open>auto simp: row_is_def row_defs\<close>)
qed

lemma persist_fail_holds:
  assumes "pr_outcome (persist_fail w i n code s d) = Some out"
  shows "outcome_holds w i out s (pr_db (persist_fail w i n code s d))"
proof -
  obtain b d1 where r: "fail_analysis i (wk_token w) (wk_clock w K_FAILURE) code d = (b, d1)" by (metis surj_pair)
  note f = fenced_result [OF r [unfolded fail_analysis_def]]
  show ?thesis unfolding persist_fail_def
    by (rule settle_holds [OF assms [unfolded persist_fail_def] r]) (use f in \<open>auto simp: row_is_def row_defs\<close>)
qed

lemma persist_success_holds:
  assumes "pr_outcome (persist_success w i pt res d) = Some out" "wk_llm w (pt_lines pt) cx = Inr res"
  shows "outcome_holds w i out (Some (pt_lines pt)) (pr_db (persist_success w i pt res d))"
proof -
  obtain b d1 where r: "complete_analysis i (wk_token w) (wk_clock w K_SETTLE) (ar_output res) (compute_lead_score (ar_signals res))
      (pt_truncated pt) d = (b, d1)" by (metis surj_pair)
  note f = fenced_result [OF r [unfolded complete_analysis_def]]
  show ?thesis unfolding persist_success_def Let_def
    by (rule settle_holds [OF assms(1) [unfolded persist_success_def Let_def] r])
      (use f assms(2) in \<open>auto simp: row_is_def row_defs intro!: exI [of _ cx]\<close>)
qed

definition timing_ok :: "worker_env \<Rightarrow> bool" where
  "timing_ok w \<longleftrightarrow> 0 \<le> wk_draw w \<and> wk_draw w < 1 \<and> 1 \<le> as_retry_base_s (an_settings w) \<and> 1 \<le> as_retry_max_s (an_settings w)"

lemma delayed_after: "0 \<le> x \<Longrightarrow> now \<le> delayed now x"
  using round_mono [of 0 "x * 1000000"] by (simp add: delayed_def)

lemma poll_nonneg: "0 \<le> u \<Longrightarrow> 1 \<le> base \<Longrightarrow> 1 \<le> cap \<Longrightarrow> 0 \<le> poll_delay_seconds e base cap u"
  by (auto simp: poll_delay_seconds_def le_max_iff_disj intro!: mult_nonneg_nonneg)

lemma persist_failure_holds:
  assumes "pr_outcome (persist_failure w i created n kind code ra s d) = Some out" "timing_ok w"
  shows "outcome_holds w i out s (pr_db (persist_failure w i created n kind code ra s d))"
proof -
  have "0 \<le> backoff_seconds n (as_retry_base_s (an_settings w)) (as_retry_max_s (an_settings w)) ra (wk_draw w)"
    using backoff_bounds(1) assms(2) by (simp add: timing_ok_def less_imp_le)
  moreover have "0 \<le> poll_delay_seconds e (as_retry_base_s (an_settings w)) (as_retry_max_s (an_settings w)) (wk_draw w)" for e
    using poll_nonneg assms(2) by (simp add: timing_ok_def)
  ultimately show ?thesis using assms(1) unfolding persist_failure_def Let_def
    by (auto split: if_splits intro!: persist_skip_holds persist_retry_holds persist_fail_holds delayed_after)
qed

lemma finalized_holds:
  assumes "get_analysis i d = Some r" "\<not> terminal_analysis (an_status r)" "as_max_attempts (an_settings w) \<le> an_attempt_count r"
  shows "outcome_holds w i WO_FAILED_TERMINAL s
    (snd (finalize_exhausted (an_settings w) (wk_locked w) (wk_clock w K_SETTLE) (Some i) 100 d))"
proof -
  let ?st = "an_settings w" and ?now = "wk_clock w K_SETTLE"
  let ?P = "\<lambda>r. stuck_analysis ?now (as_max_attempts ?st) r \<and> \<not> wk_locked w (an_id r) \<and> i = an_id r"
  let ?ids = "take 100 (map an_id (filter ?P (analyses d)))"
  let ?d = "snd (finalize_exhausted ?st (wk_locked w) ?now (Some i) 100 d)"
  have r: "r \<in> set (analyses d)" "an_id r = i" using assms(1) by (auto simp: get_analysis_def dest: get_row_SomeD)
  have g: "get_analysis i ?d = Some (if an_id r \<in> set ?ids then finished AN_FAILED ?now ERR_LEASE_EXPIRED r else r)"
    using assms(1) by (simp add: finalize_exhausted_def Let_def get_analysis_def get_update_where)
  show ?thesis
  proof (cases "stuck_analysis ?now (as_max_attempts ?st) r \<and> \<not> wk_locked w i")
    case True
    then have "r \<in> set (filter ?P (analyses d))" using r by simp
    then obtain y ys where y: "filter ?P (analyses d) = y # ys" by (cases "filter ?P (analyses d)") auto
    then have "y \<in> set (filter ?P (analyses d))" by simp
    then have "an_id y = i" by simp
    then have "an_id r \<in> set ?ids" using r(2) unfolding y by simp
    then show ?thesis using g by (simp add: row_is_def row_defs)
  next
    case False
    then have "wk_locked w i \<or> (an_status r = AN_PROCESSING \<and> \<not> lt_opt (an_lease_expires r) ?now)"
      using assms(2,3) by (cases "an_status r") (auto simp: stuck_analysis_def terminal_analysis_def)
    then show ?thesis using g assms(2,3) by (auto simp: row_is_def row_defs)
  qed
qed

lemma unclaimed_holds:
  assumes "pr_outcome (handle_unclaimed w i reason d) = Some out"
  shows "outcome_holds w i out None (pr_db (handle_unclaimed w i reason d))"
  using assms
  by (auto simp: handle_unclaimed_def split: if_splits option.splits
      intro: finalized_holds [unfolded outcome_holds.simps]) (simp_all add: row_is_def)

lemma analyse_holds:
  assumes "pr_outcome (analyse w i n pt cx created d) = Some out" "timing_ok w"
  shows "outcome_holds w i out (pr_sent (analyse w i n pt cx created d)) (pr_db (analyse w i n pt cx created d))"
proof -
  obtain b d1 where r: "renew_lease (an_settings w) i (wk_token w) (wk_clock w K_RENEW) d = (b, d1)" by (metis surj_pair)
  note f = fenced_result(2) [OF r [unfolded renew_lease_def]]
  have sent: "pr_sent (persist_failure w i created n k c ra s d2) = s" for k c ra s d2
    by (simp add: persist_failure_def persist_skip_def persist_retry_def persist_fail_def Let_def)
  have sent2: "pr_sent (persist_success w i pt res d2) = Some (pt_lines pt)" for res d2 by (simp add: persist_success_def Let_def)
  show ?thesis using assms unfolding analyse_def r
    by (auto simp: Let_def sent sent2 f split: if_splits sum.splits prod.splits intro: persist_failure_holds persist_success_holds)
qed

lemma owned_holds:
  assumes "pr_outcome (process_owned w i n d) = Some out" "timing_ok w"
  shows "outcome_holds w i out (pr_sent (process_owned w i n d)) (pr_db (process_owned w i n d))"
proof -
  have sent: "pr_sent (persist_failure w i created n k c ra s d2) = s" "pr_sent (persist_skip w i code s d2) = s"
    for created k c ra s d2 code
    by (simp_all add: persist_failure_def persist_skip_def persist_retry_def persist_fail_def Let_def)
  show ?thesis using assms unfolding process_owned_def
    by (auto simp: Let_def sent split: if_splits prod.splits loaded_input.splits
        intro: persist_failure_holds persist_skip_holds analyse_holds)
qed

lemma owned_not_deferred: "pr_outcome (process_owned w i n d) \<noteq> Some WO_DEFERRED"
proof -
  have s: "out \<noteq> WO_DEFERRED \<Longrightarrow> pr_outcome (settle w i out e epl a apl sent d0 r) \<noteq> Some WO_DEFERRED" for out e epl a apl sent d0 r
    using settle_outcome [of w i out e epl a apl sent d0 "fst r" "snd r" WO_DEFERRED i] by (auto split: if_splits)
  have f: "pr_outcome (persist_failure w i created m k c ra sent d2) \<noteq> Some WO_DEFERRED"
    "pr_outcome (persist_skip w i c sent d2) \<noteq> Some WO_DEFERRED" "pr_outcome (persist_success w i pt res d2) \<noteq> Some WO_DEFERRED"
    for created m k c ra sent d2 pt res
    using s by (simp_all add: persist_failure_def persist_skip_def persist_retry_def persist_fail_def persist_success_def Let_def)
  have "pr_outcome (analyse w i n pt cx created d2) \<noteq> Some WO_DEFERRED" for pt cx created d2
    using f by (auto simp: analyse_def Let_def split: prod.splits sum.splits)
  then show ?thesis using f by (auto simp: process_owned_def Let_def split: prod.splits loaded_input.splits)
qed

lemma run_acked: "pr_acked (process_analysis w i d) = (pr_outcome (process_analysis w i d) \<noteq> None)"
proof -
  have f: "pr_acked (persist_failure w i created n k c ra s d) = (pr_outcome (persist_failure w i created n k c ra s d) \<noteq> None)"
    "pr_acked (persist_skip w i c s d) = (pr_outcome (persist_skip w i c s d) \<noteq> None)"
    "pr_acked (persist_success w i pt r d) = (pr_outcome (persist_success w i pt r d) \<noteq> None)"
    "pr_acked (handle_unclaimed w i reason d) = (pr_outcome (handle_unclaimed w i reason d) \<noteq> None)"
    for created n k c ra s d pt r reason
    by (simp_all add: persist_failure_def persist_skip_def persist_retry_def persist_fail_def persist_success_def handle_unclaimed_def
        Let_def split: option.split)
  have a: "pr_acked (analyse w i n pt cx created d) = (pr_outcome (analyse w i n pt cx created d) \<noteq> None)" for n pt cx created d
    by (simp add: analyse_def Let_def f split: prod.split sum.split)
  show ?thesis by (simp add: process_analysis_def process_owned_def Let_def f a split: prod.split claim_result.split loaded_input.split)
qed

lemma deferred_row:
  assumes "claim_for_processing st z i t now d = (Deferred reason, d1)"
  shows "\<exists>r. get_analysis i d = Some r \<and> claimable now (as_max_attempts st) r \<and>
    reason \<in> {''budget_not_configured'', ''budget_cap_reached''} \<and>
    get_analysis i d1 = Some (if an_status r = AN_PROCESSING then r
      else r\<lparr> an_next_attempt := Some (now + seconds (as_recheck_s st)), an_error_code := Some reason \<rparr>)"
proof -
  obtain r where r: "get_analysis i d = Some r" "claimable now (as_max_attempts st) r"
    using assms by (auto simp: claim_for_processing_def split: option.splits if_splits)
  obtain b where b: "b \<in> {B_NOT_CONFIGURED, B_CAP_REACHED}" "reason = budget_value b" "d1 = analysis_defer st i reason now d"
    using assms r by (auto simp: claim_for_processing_def Let_def split: prod.splits if_splits option.splits)
  have "an_status r \<in> {AN_PENDING, AN_RETRY_WAIT, AN_PROCESSING}" using r(2) by (auto simp: claimable_def)
  then have "get_analysis i d1 = Some (if an_status r = AN_PROCESSING then r
      else r\<lparr> an_next_attempt := Some (now + seconds (as_recheck_s st)), an_error_code := Some reason \<rparr>)"
    using r(1) unfolding b(3) analysis_defer_def by (auto simp: get_analysis_upd)
  then show ?thesis using r b(1,2) by auto
qed

text \<open>
  C14: a job of the analysis stream is acknowledged only with a durable outcome: when the worker reports it
  completed, the committed row holds the model's answer and its score; a retry is recorded with its due time and
  reason; a skipped one holds no reservation any more; a stale worker does not own the row. A job whose attempts are
  used up leaves a failed row, unless another transaction holds that row or a worker with a live lease is on it; a
  deferred one was left, by the committed claim, with its recheck time and the budget's reason (or, taken over from
  a dead worker, with its expired lease), which the sweeper finds again; one that cannot be claimed has attempts left. When an
  exception leaves the worker (a failed commit, a lost Redis) the job is not acknowledged.
\<close>

theorem acknowledged_analysis_durable:
  assumes "timing_ok w" "process_analysis w i d = p"
  shows "pr_acked p = (pr_outcome p \<noteq> None) \<and> (\<forall>out. pr_outcome p = Some out \<longrightarrow> outcome_holds w i out (pr_sent p) (pr_db p)) \<and>
    (pr_outcome p = Some WO_DEFERRED \<longrightarrow> (\<exists>r d1 reason. get_analysis i d = Some r \<and>
      claimable (wk_clock w K_CLAIM) (as_max_attempts (an_settings w)) r \<and> pr_db p = wk_others w W_CLAIM d1 \<and>
      reason \<in> {''budget_not_configured'', ''budget_cap_reached''} \<and>
      get_analysis i d1 = Some (if an_status r = AN_PROCESSING then r
        else r\<lparr> an_next_attempt := Some (wk_clock w K_CLAIM + seconds (as_recheck_s (an_settings w))), an_error_code := Some reason \<rparr>)))"
proof -
  have sent: "pr_sent (handle_unclaimed w i reason d2) = None" for reason d2
    by (simp add: handle_unclaimed_def split: option.split)
  have "outcome_holds w i out (pr_sent p) (pr_db p) \<and> (out = WO_DEFERRED \<longrightarrow> (\<exists>r d1 reason. get_analysis i d = Some r \<and>
      claimable (wk_clock w K_CLAIM) (as_max_attempts (an_settings w)) r \<and> pr_db p = wk_others w W_CLAIM d1 \<and>
      reason \<in> {''budget_not_configured'', ''budget_cap_reached''} \<and>
      get_analysis i d1 = Some (if an_status r = AN_PROCESSING then r
        else r\<lparr> an_next_attempt := Some (wk_clock w K_CLAIM + seconds (as_recheck_s (an_settings w))), an_error_code := Some reason \<rparr>)))"
    if o: "pr_outcome p = Some out" for out
  proof -
    obtain r d1 where c: "claim_for_processing (an_settings w) (wk_zone w) i (wk_token w) (wk_clock w K_CLAIM) d = (r, d1)" by (metis surj_pair)
    have p: "p = (case r of Claimed an t \<Rightarrow> process_owned w i (an_attempt_count an) (wk_others w W_CLAIM d1)
        | Deferred reason \<Rightarrow> handle_unclaimed w i (Some reason) (wk_others w W_CLAIM d1)
        | Unclaimable \<Rightarrow> handle_unclaimed w i None (wk_others w W_CLAIM d1))"
      using o assms(2) [symmetric] c by (cases "wk_fails w W_CLAIM") (simp_all add: process_analysis_def Let_def)
    show ?thesis
    proof (cases r)
      case (Claimed an t)
      then show ?thesis using owned_holds [OF _ assms(1)] owned_not_deferred o p by auto
    next
      case (Deferred reason)
      have "pr_db p = wk_others w W_CLAIM d1" using p Deferred o by (simp add: handle_unclaimed_def)
      moreover have "outcome_holds w i out (pr_sent p) (pr_db p)" using p Deferred o unclaimed_holds sent by auto
      ultimately show ?thesis using deferred_row [OF c [unfolded Deferred]] by blast
    next
      case Unclaimable
      then have "out \<noteq> WO_DEFERRED" using p o by (auto simp: handle_unclaimed_def split: option.splits if_splits)
      then show ?thesis using p o Unclaimable unclaimed_holds sent by auto
    qed
  qed
  then show ?thesis using run_acked assms(2) by blast
qed

section \<open>What leaves for the language model\<close>

lemma failure_sent [simp]:
  "pr_sent (persist_failure w i created n k c ra s d2) = s" "pr_sent (persist_skip w i code s d2) = s"
  "pr_sent (persist_success w i pt res d2) = Some (pt_lines pt)" "pr_sent (handle_unclaimed w i reason d2) = None"
  by (simp_all add: persist_failure_def persist_skip_def persist_retry_def persist_fail_def persist_success_def handle_unclaimed_def
      Let_def split: option.split)

lemma analyse_sent:
  assumes "pr_sent (analyse w i n pt cx created d) = Some ls"
  shows "ls = pt_lines pt \<and> row_is i (owns (wk_token w)) d"
proof -
  obtain b d1 where r: "renew_lease (an_settings w) i (wk_token w) (wk_clock w K_RENEW) d = (b, d1)" by (metis surj_pair)
  then have b: "b \<Longrightarrow> row_is i (owns (wk_token w)) d"
    by (auto simp: renew_lease_def fenced_def row_is_def split: option.splits if_splits)
  show ?thesis using assms b unfolding analyse_def r
    by (auto simp: Let_def split: if_splits sum.splits prod.splits)
qed

lemma load_ready:
  assumes "load_input w i d = (In_ready pt cx created, d1)"
  shows "\<exists>an a c s. get_analysis i d = Some an \<and> get_attempt (an_attempt an) d = Some a \<and> get_contact (an_contact an) d = Some c \<and>
    a_contact a = c_id c \<and> c_campaign c = an_campaign an \<and> is_eligible a c \<and>
    load_conversation_session (a_id a) d1 = Some s \<and> cs_transcript_status s \<noteq> Some ''unavailable'' \<and>
    pt = prepare_transcript (an_settings w) s d1 \<and> pt_lines pt \<noteq> []"
  using assms unfolding load_input_def load_session_def load_transcript_def Let_def
  by (auto split: option.splits if_splits prod.splits)

text \<open>
  C31: a transcript is handed to the language model only when the worker's claim was committed and is still its
  own, the analysis belongs to an existing attempt and contact of its campaign that ended as a
  conversation, and the transcript was fetched and is not empty; what is handed over is the prepared transcript.
\<close>

theorem transcript_sent_only_when_entitled:
  assumes "pr_sent (process_analysis w i d) = Some ls"
  shows "\<exists>an0 an a c s d2 d3. get_analysis i d = Some an0 \<and> claimable (wk_clock w K_CLAIM) (as_max_attempts (an_settings w)) an0 \<and>
    d2 = wk_others w W_CLAIM (snd (claim_for_processing (an_settings w) (wk_zone w) i (wk_token w) (wk_clock w K_CLAIM) d)) \<and>
    get_analysis i d2 = Some an \<and> get_attempt (an_attempt an) d2 = Some a \<and> get_contact (an_contact an) d2 = Some c \<and>
    a_contact a = c_id c \<and> c_campaign c = an_campaign an \<and> is_eligible a c \<and>
    load_conversation_session (a_id a) d3 = Some s \<and> cs_transcript_status s \<noteq> Some ''unavailable'' \<and>
    ls = pt_lines (prepare_transcript (an_settings w) s d3) \<and> ls \<noteq> [] \<and>
    row_is i (owns (wk_token w)) (wk_others w W_LOAD d3)"
proof -
  obtain r d1 where c: "claim_for_processing (an_settings w) (wk_zone w) i (wk_token w) (wk_clock w K_CLAIM) d = (r, d1)" by (metis surj_pair)
  let ?d2 = "wk_others w W_CLAIM d1"
  obtain an t where r: "r = Claimed an t" "pr_sent (process_owned w i (an_attempt_count an) ?d2) = Some ls"
    using assms c by (auto simp: process_analysis_def Let_def split: if_splits claim_result.splits)
  obtain an0 where an0: "get_analysis i d = Some an0" "claimable (wk_clock w K_CLAIM) (as_max_attempts (an_settings w)) an0"
    using claim_row [OF c] r(1) by auto
  obtain inp d3 where l: "load_input w i ?d2 = (inp, d3)" by (metis surj_pair)
  obtain pt cx created where i: "inp = In_ready pt cx created"
    "pr_sent (analyse w i (an_attempt_count an) pt cx created (wk_others w W_LOAD d3)) = Some ls"
    using r(2) l by (auto simp: process_owned_def Let_def split: if_splits loaded_input.splits)
  from load_ready [OF l [unfolded i(1)]] obtain an1 a c s where
    "get_analysis i ?d2 = Some an1 \<and> get_attempt (an_attempt an1) ?d2 = Some a \<and> get_contact (an_contact an1) ?d2 = Some c \<and>
      a_contact a = c_id c \<and> c_campaign c = an_campaign an1 \<and> is_eligible a c \<and>
      load_conversation_session (a_id a) d3 = Some s \<and> cs_transcript_status s \<noteq> Some ''unavailable'' \<and>
      pt = prepare_transcript (an_settings w) s d3 \<and> pt_lines pt \<noteq> []" by blast
  then show ?thesis using analyse_sent [OF i(2)] an0 \<open>claim_for_processing _ _ _ _ _ _ = _\<close>
    by - (rule exI [of _ an0], rule exI [of _ an1], rule exI [of _ a], rule exI [of _ c], rule exI [of _ s], rule exI [of _ ?d2],
        rule exI [of _ d3], auto)
qed

section \<open>The invariants hold throughout a run\<close>

definition analyses_inv :: "analysis_settings \<Rightarrow> db \<Rightarrow> bool" where
  "analyses_inv st d \<longleftrightarrow> balanced st d \<and> (\<forall>j r. get_analysis j d = Some r \<longrightarrow> analysis_ok (as_max_attempts st) r)"

lemma analyses_inv_cong: "analyses d = analyses d' \<Longrightarrow> budget_days d = budget_days d' \<Longrightarrow> analyses_inv st d = analyses_inv st d'"
  by (simp add: analyses_inv_def balanced_def amount_def ledger_def held_in_def get_analysis_def)

lemma exec_inv:
  assumes "exec_op st z i op d = (b, d')" "analyses_inv st d" "\<forall>c. as_cost st = Some c \<longrightarrow> 0 \<le> c"
  shows "analyses_inv st d'"
  using exec_balanced [OF assms(1) _ assms(3)] exec_ok [OF assms(1)] assms(2) unfolding analyses_inv_def balanced_def by blast

lemma claim_inv:
  assumes "claim_for_processing st z i t now d = (r, d')" "analyses_inv st d" "\<forall>c. as_cost st = Some c \<longrightarrow> 0 \<le> c"
  shows "analyses_inv st d'"
proof -
  obtain b where "exec_op st z i (Op_claim t now) d = (b, d')" using assms(1) by (cases r) auto
  then show ?thesis using exec_inv assms(2,3) by blast
qed

lemma settle_inv:
  assumes "exec_op st z i op d = r" "analyses_inv st d" "\<forall>c. as_cost st = Some c \<longrightarrow> 0 \<le> c"
  shows "analyses_inv st (pr_db (settle w i out e epl a apl s d r))"
proof -
  obtain b d1 where r: "r = (b, d1)" by (cases r)
  have "analyses_inv st d1" using exec_inv assms r by blast
  then show ?thesis using settle_db [of w i out e epl a apl s d b d1] assms(2) analyses_inv_cong unfolding r by metis
qed

lemma persist_inv:
  assumes "analyses_inv (an_settings w) d" "\<forall>c. as_cost (an_settings w) = Some c \<longrightarrow> 0 \<le> c"
  shows "analyses_inv (an_settings w) (pr_db (persist_skip w i code s d))"
    "analyses_inv (an_settings w) (pr_db (persist_retry w i code at_time refund s d))"
    "analyses_inv (an_settings w) (pr_db (persist_fail w i n code s d))"
    "analyses_inv (an_settings w) (pr_db (persist_success w i pt res d))"
    "analyses_inv (an_settings w) (pr_db (persist_failure w i created n kind code ra s d))"
proof -
  note ex = exec_op.simps [where st = "an_settings w" and z = "wk_zone w" and i = i and d = d]
  show skip: "analyses_inv (an_settings w) (pr_db (persist_skip w i code s d))" for code
    unfolding persist_skip_def by (rule settle_inv [OF ex(6) assms])
  show retry: "analyses_inv (an_settings w) (pr_db (persist_retry w i code at_time refund s d))" for at_time refund
    unfolding persist_retry_def by (rule settle_inv [OF ex(4) assms])
  show fail: "analyses_inv (an_settings w) (pr_db (persist_fail w i n code s d))"
    unfolding persist_fail_def by (rule settle_inv [OF ex(5) assms])
  show "analyses_inv (an_settings w) (pr_db (persist_success w i pt res d))"
    unfolding persist_success_def Let_def by (rule settle_inv [OF ex(3) assms])
  show "analyses_inv (an_settings w) (pr_db (persist_failure w i created n kind code ra s d))"
    using skip retry fail by (simp add: persist_failure_def Let_def)
qed

lemma load_frame: "load_input w i d = (inp, d1) \<Longrightarrow> analyses d1 = analyses d \<and> budget_days d1 = budget_days d"
  by (auto simp: load_input_def load_session_def refetch_unavailable_def Let_def split: option.splits if_splits prod.splits)

text \<open>
  However a run of the worker ends, after any commit it reached, the rows stay well formed and the ledger
  balanced, as long as the other processes keep them so.
\<close>

theorem worker_keeps_invariant:
  assumes "analyses_inv (an_settings w) d" "\<forall>c. as_cost (an_settings w) = Some c \<longrightarrow> 0 \<le> c"
    and "\<forall>S d. analyses_inv (an_settings w) d \<longrightarrow> analyses_inv (an_settings w) (wk_others w S d)"
  shows "analyses_inv (an_settings w) (pr_db (process_analysis w i d))"
proof -
  note per = persist_inv [OF _ assms(2)]
  have un: "analyses_inv (an_settings w) (pr_db (handle_unclaimed w i reason d2))" if "analyses_inv (an_settings w) d2" for reason d2
    using that exec_inv [OF exec_op.simps(7) that assms(2)] by (simp add: handle_unclaimed_def split: option.split)
  have an: "analyses_inv (an_settings w) (pr_db (analyse w i n pt cx created d2))" if d2: "analyses_inv (an_settings w) d2" for n pt cx created d2
  proof -
    obtain b d3 where r: "renew_lease (an_settings w) i (wk_token w) (wk_clock w K_RENEW) d2 = (b, d3)" by (metis surj_pair)
    have "analyses_inv (an_settings w) d3" using exec_inv [of "an_settings w" _ i "Op_renew (wk_token w) (wk_clock w K_RENEW)"] r d2 assms(2) by simp
    then show ?thesis using d2 per assms(3) by (simp add: analyse_def r Let_def split: sum.split prod.split)
  qed
  have ow: "analyses_inv (an_settings w) (pr_db (process_owned w i n d2))" if d2: "analyses_inv (an_settings w) d2" for n d2
  proof -
    obtain inp d3 where l: "load_input w i d2 = (inp, d3)" by (metis surj_pair)
    have "analyses_inv (an_settings w) d3" using load_frame [OF l] d2 analyses_inv_cong by metis
    then show ?thesis using d2 per an assms(3) by (simp add: process_owned_def l Let_def split: loaded_input.split)
  qed
  obtain r d1 where c: "claim_for_processing (an_settings w) (wk_zone w) i (wk_token w) (wk_clock w K_CLAIM) d = (r, d1)" by (metis surj_pair)
  have "analyses_inv (an_settings w) (wk_others w W_CLAIM d1)" using claim_inv [OF c assms(1,2)] assms(3) by blast
  then show ?thesis using un ow assms(1) by (simp add: process_analysis_def c Let_def split: claim_result.split)
qed

end
