(* ===== verification/Analysis_Sweeper.thy ===== *)
theory Analysis_Sweeper imports Analysis_Contract begin

text \<open>
  \<open>app/services/analysis/sweeper.py\<close>: PostgreSQL discovers the work, Redis only delivers it. A row another
  transaction has locked is skipped; \<open>up k\<close> says whether the \<open>k\<close>-th XADD of the sweep succeeds; ids of new rows
  and jobs are arguments. Rows with equal sort keys come in table order.
\<close>

section \<open>Registration\<close>

definition missing_calls :: "instant \<Rightarrow> db \<Rightarrow> (call_attempt \<times> contact) list" where
  "missing_calls since d = sort_key (\<lambda>(a, c). (the (a_ended_at a), a_id a))
     (concat (map (\<lambda>a. case get_contact (a_contact a) d of
         None \<Rightarrow> []
       | Some c \<Rightarrow> if is_eligible a c \<and> (case a_ended_at a of None \<Rightarrow> False | Some t \<Rightarrow> since \<le> t) \<and>
             get_by_call_attempt (a_id a) d = None then [(a, c)] else []) (attempts d)))"

fun register_calls :: "(nat \<Rightarrow> uuid) \<Rightarrow> instant \<Rightarrow> (call_attempt \<times> contact) list \<Rightarrow> nat \<Rightarrow> db \<Rightarrow> nat \<times> db" where
  "register_calls new now [] n d = (n, d)"
| "register_calls new now ((a, c) # rows) n d =
    (case get_or_create_pending id now (new n) (a_id a) (c_id c) (c_campaign c)
        (map_option cs_id (load_conversation_session (a_id a) d)) None None d of
       (an, created, d1) \<Rightarrow>
         if \<not> created then register_calls new now rows n d1
         else register_calls new now rows (Suc n)
           (record_audit_event ''analysis-sweeper'' ''analysis.registered_by_sweeper'' ''call_attempt'' (Some (a_id a))
              [(''analysis_id'', JId (an_id an))]
             (add_call_event (a_id a) ''ANALYSIS_QUEUED'' [(''analysis_id'', JId (an_id an)), (''source'', JStr ''sweeper'')] d1)))"

definition register_missing :: "analysis_settings \<Rightarrow> (nat \<Rightarrow> uuid) \<Rightarrow> instant \<Rightarrow> db \<Rightarrow> nat \<times> db" where
  "register_missing st new now d = register_calls new now
     (take (nat (as_batch st)) (missing_calls (now - seconds (as_lookback_h st * 3600)) d)) 0 d"

section \<open>Publication\<close>

definition unpublished_or_old :: "instant \<Rightarrow> call_analysis \<Rightarrow> bool" where
  "unpublished_or_old stale_before an \<longleftrightarrow> (case an_last_enqueued an of
     None \<Rightarrow> True
   | Some e \<Rightarrow> e < stale_before \<or> (case an_next_attempt an of Some t \<Rightarrow> e < t | None \<Rightarrow> False))"

definition due_analysis :: "analysis_settings \<Rightarrow> instant \<Rightarrow> call_analysis \<Rightarrow> bool" where
  "due_analysis st now an \<longleftrightarrow>
    (an_status an \<in> {AN_PENDING, AN_RETRY_WAIT} \<and> (an_next_attempt an = None \<or> le_opt (an_next_attempt an) now) \<and>
       unpublished_or_old (now - seconds (as_republish_s st)) an) \<or>
    (an_status an = AN_PROCESSING \<and> lt_opt (an_lease_expires an) now \<and> an_attempt_count an < as_max_attempts st)"

definition due_analyses :: "analysis_settings \<Rightarrow> (uuid \<Rightarrow> bool) \<Rightarrow> instant \<Rightarrow> db \<Rightarrow> call_analysis list" where
  "due_analyses st locked now d = take (nat (as_batch st))
     (sort_key (\<lambda>an. case an_next_attempt an of Some t \<Rightarrow> t | None \<Rightarrow> an_created_at an)
        (filter (\<lambda>an. due_analysis st now an \<and> \<not> locked (an_id an)) (analyses d)))"

fun publish_rows :: "(nat \<Rightarrow> bool) \<Rightarrow> (nat \<Rightarrow> uuid) \<Rightarrow> instant \<Rightarrow> call_analysis list \<Rightarrow> nat \<Rightarrow> analysis_job list \<Rightarrow> db \<Rightarrow>
    bool \<times> analysis_job list \<times> db" where
  "publish_rows up job_id now [] n jobs d = (False, jobs, d)"
| "publish_rows up job_id now (an # ans) n jobs d =
    (if \<not> up n then (True, jobs, d)
     else publish_rows up job_id now ans (Suc n) (jobs @ [analysis_job_for (job_id n) an])
       (upd_analysis (an_id an) (\<lambda>r. r\<lparr> an_last_enqueued := Some now \<rparr>) d))"

definition publish_due :: "analysis_settings \<Rightarrow> (uuid \<Rightarrow> bool) \<Rightarrow> (nat \<Rightarrow> bool) \<Rightarrow> (nat \<Rightarrow> uuid) \<Rightarrow> instant \<Rightarrow> db \<Rightarrow>
    bool \<times> analysis_job list \<times> db" where
  "publish_due st locked up job_id now d = publish_rows up job_id now (due_analyses st locked now d) 0 [] d"

section \<open>One sweep\<close>

record sweep_report =
  sp_finalized :: nat
  sp_registered :: nat
  sp_published :: nat
  sp_error :: bool
  sp_pending :: nat
  sp_oldest :: "int option"

definition pending_analyses :: "db \<Rightarrow> call_analysis list" where
  "pending_analyses d = filter (\<lambda>r. \<not> terminal_analysis (an_status r)) (analyses d)"

text \<open>The jobs are those Redis accepted, in order.\<close>

definition analysis_sweep :: "analysis_settings \<Rightarrow> (uuid \<Rightarrow> bool) \<Rightarrow> (nat \<Rightarrow> uuid) \<Rightarrow> (nat \<Rightarrow> bool) \<Rightarrow> (nat \<Rightarrow> uuid) \<Rightarrow> instant \<Rightarrow>
    db \<Rightarrow> sweep_report \<times> analysis_job list \<times> db" where
  "analysis_sweep st locked new up job_id now d =
    (case finalize_exhausted st locked now None (nat (as_batch st)) d of (fin, d1) \<Rightarrow>
     case register_missing st new now d1 of (reg, d2) \<Rightarrow>
     case publish_due st locked up job_id now d2 of (err, jobs, d3) \<Rightarrow>
       let open_rows = pending_analyses d3 in
       (\<lparr> sp_finalized = fin, sp_registered = reg, sp_published = length jobs, sp_error = err,
          sp_pending = length open_rows,
          sp_oldest = (if open_rows = [] then None else Some (now - Min (set (map an_created_at open_rows)))) \<rparr>, jobs, d3))"

section \<open>The steps of a sweep\<close>

lemma publish_rows_spec:
  assumes "publish_rows up job_id now ans n jobs0 d = (err, jobs, d')"
  shows "\<exists>k \<le> length ans. map aj_analysis jobs = map aj_analysis jobs0 @ map an_id (take k ans) \<and> (err \<longleftrightarrow> k < length ans) \<and>
    (\<forall>j. get_analysis j d' = (if j \<in> an_id ` set (take k ans)
       then map_option (\<lambda>r. r\<lparr> an_last_enqueued := Some now \<rparr>) (get_analysis j d) else get_analysis j d))"
  using assms
proof (induction up job_id now ans n jobs0 d rule: publish_rows.induct)
  case (2 up job_id now an ans n jobs0 d)
  show ?case
  proof (cases "up n")
    case True
    let ?f = "\<lambda>r. r\<lparr> an_last_enqueued := Some now \<rparr>"
    let ?d1 = "upd_analysis (an_id an) ?f d"
    from 2 True obtain k where k: "k \<le> length ans"
      "map aj_analysis jobs = map aj_analysis (jobs0 @ [analysis_job_for (job_id n) an]) @ map an_id (take k ans)" "err \<longleftrightarrow> k < length ans"
      "\<forall>j. get_analysis j d' = (if j \<in> an_id ` set (take k ans) then map_option ?f (get_analysis j ?d1) else get_analysis j ?d1)"
      by auto
    have "get_analysis j d' = (if j \<in> an_id ` set (take (Suc k) (an # ans)) then map_option ?f (get_analysis j d) else get_analysis j d)" for j
      using k(4) [rule_format, of j] by (auto simp: get_analysis_upd option.map_comp comp_def)
    then show ?thesis using k(1-3) by (intro exI [of _ "Suc k"]) (simp add: analysis_job_for_def)
  next
    case False
    then show ?thesis using 2 by (intro exI [of _ 0]) auto
  qed
qed auto

definition grown :: "db \<Rightarrow> db \<Rightarrow> bool" where
  "grown d d' \<longleftrightarrow> (\<exists>new. analyses d' = analyses d @ new)"

lemma grown_refl: "grown d d" by (simp add: grown_def)

lemma grown_trans: "grown d d1 \<Longrightarrow> grown d1 d2 \<Longrightarrow> grown d d2"
  by (auto simp: grown_def)

lemma grown_keeps:
  assumes "grown d d'"
  shows "get_analysis j d = Some r \<Longrightarrow> get_analysis j d' = Some r" "r \<in> set (analyses d) \<Longrightarrow> r \<in> set (analyses d')"
    "get_by_call_attempt t d = Some r \<Longrightarrow> get_by_call_attempt t d' = Some r"
  using assms by (auto simp: grown_def get_analysis_def get_by_call_attempt_def get_row_append)

lemma created_or_found:
  assumes "get_or_create_pending id now n t c camp s e x d = (an, created, d1)"
  shows "grown d d1 \<and> get_by_call_attempt t d1 \<noteq> None"
  using assms by (auto simp: get_or_create_pending_def Let_def grown_def get_by_call_attempt_def get_row_snoc split: option.splits)

lemma register_calls_keeps:
  "register_calls new now rows n d = (n', d') \<Longrightarrow> grown d d' \<and> (\<forall>(a, c) \<in> set rows. get_by_call_attempt (a_id a) d' \<noteq> None)"
proof (induction new now rows n d rule: register_calls.induct)
  case (2 new now a c rows n d)
  obtain an created d1 where g: "get_or_create_pending id now (new n) (a_id a) (c_id c) (c_campaign c)
      (map_option cs_id (load_conversation_session (a_id a) d)) None None d = (an, created, d1)" by (metis prod_cases3)
  obtain d2 n2 where r: "register_calls new now rows n2 d2 = (n', d')" "analyses d2 = analyses d1"
    "grown d2 d' \<and> (\<forall>(a, c) \<in> set rows. get_by_call_attempt (a_id a) d' \<noteq> None)"
    using 2 g by (cases created) (force simp: g)+
  have d1: "grown d d1" "get_by_call_attempt (a_id a) d2 \<noteq> None" using created_or_found [OF g] r(2) by (auto simp: get_by_call_attempt_def)
  have "grown d d2" using d1(1) r(2) by (simp add: grown_def)
  then have "grown d d'" using r(3) grown_trans by blast
  moreover have "get_by_call_attempt (a_id a) d' \<noteq> None" using d1(2) r(3) grown_keeps(3) by blast
  ultimately show ?case using r(3) by simp
qed (simp add: grown_refl)

lemma finalize_all:
  assumes "keys_distinct an_id (analyses d)" "get_analysis j d = Some r" "stuck_analysis now (as_max_attempts st) r" "\<not> locked j"
    and "finalize_exhausted st locked now None limit d = (n, d')" "n < limit"
  shows "get_analysis j d' = Some (finished AN_FAILED now ERR_LEASE_EXPIRED r)"
proof -
  let ?P = "\<lambda>r. stuck_analysis now (as_max_attempts st) r \<and> \<not> locked (an_id r)"
  let ?ids = "take limit (map an_id (filter ?P (analyses d)))"
  have "take limit (map an_id (filter ?P (analyses d))) = map an_id (filter ?P (analyses d))"
    using assms(5,6) by (auto simp: finalize_exhausted_def Let_def)
  moreover have "r \<in> set (filter ?P (analyses d))" "an_id r = j"
    using assms(2-4) by (auto simp: get_analysis_def dest: get_row_SomeD)
  ultimately have "an_id r \<in> set ?ids" by (metis image_eqI set_map)
  then show ?thesis using assms(2,5) by (auto simp: finalize_exhausted_def Let_def get_analysis_def get_update_where)
qed

lemma sweep_steps:
  assumes "analysis_sweep st locked new up job_id now d = (rep, jobs, d')"
  obtains d1 d2 where "finalize_exhausted st locked now None (nat (as_batch st)) d = (sp_finalized rep, d1)"
    "register_missing st new now d1 = (sp_registered rep, d2)" "publish_due st locked up job_id now d2 = (sp_error rep, jobs, d')"
    "sp_published rep = length jobs"
  using assms that by (auto simp: analysis_sweep_def Let_def split: prod.splits)

text \<open>When the sweeper can find a row at the latest.\<close>

definition discoverable_after :: "analysis_settings \<Rightarrow> call_analysis \<Rightarrow> instant" where
  "discoverable_after st r =
    (if an_status r = AN_PROCESSING then (case an_lease_expires r of Some t \<Rightarrow> t | None \<Rightarrow> 0)
     else max (case an_next_attempt r of Some t \<Rightarrow> t | None \<Rightarrow> 0)
              (case an_last_enqueued r of Some e \<Rightarrow> e + seconds (as_republish_s st) | None \<Rightarrow> 0))"

lemma unfinished_due:
  assumes "analysis_ok m r" "\<not> terminal_analysis (an_status r)" "discoverable_after st r < now" "an_attempt_count r < as_max_attempts st"
  shows "due_analysis st now r"
  using assms
  by (cases "an_status r") (auto simp: due_analysis_def discoverable_after_def unpublished_or_old_def analysis_ok_def terminal_analysis_def
      le_opt_def lt_opt_def split: option.splits)

lemma unfinished_stuck:
  assumes "analysis_ok m r" "\<not> terminal_analysis (an_status r)" "discoverable_after st r < now" "\<not> an_attempt_count r < as_max_attempts st"
  shows "stuck_analysis now (as_max_attempts st) r"
  using assms
  by (cases "an_status r") (auto simp: stuck_analysis_def discoverable_after_def analysis_ok_def terminal_analysis_def lt_opt_def split: option.splits)

lemma published_or_kept:
  assumes "publish_due st locked up job_id now d2 = (err, jobs, d')" "get_analysis i d2 = Some r"
  shows "get_analysis i d' = Some (if i \<in> set (map aj_analysis jobs) then r\<lparr> an_last_enqueued := Some now \<rparr> else r)"
proof -
  obtain k where k: "map aj_analysis jobs = map an_id (take k (due_analyses st locked now d2))"
    "get_analysis i d' = (if i \<in> an_id ` set (take k (due_analyses st locked now d2))
      then map_option (\<lambda>r. r\<lparr> an_last_enqueued := Some now \<rparr>) (get_analysis i d2) else get_analysis i d2)"
    using publish_rows_spec [OF assms(1) [unfolded publish_due_def]] by auto
  have "set (map aj_analysis jobs) = an_id ` set (take k (due_analyses st locked now d2))" unfolding k(1) by simp
  then show ?thesis using assms(2) k(2) by (cases "i \<in> set (map aj_analysis jobs)") simp_all
qed

lemma due_published:
  assumes "publish_due st locked up job_id now d2 = (False, jobs, d')" "length jobs < nat (as_batch st)"
    and "r \<in> set (analyses d2)" "due_analysis st now r" "\<not> locked (an_id r)"
  shows "an_id r \<in> set (map aj_analysis jobs)"
proof -
  let ?rows = "due_analyses st locked now d2"
  obtain k where k: "k \<le> length ?rows" "\<not> k < length ?rows" "map aj_analysis jobs = map an_id (take k ?rows)"
    using publish_rows_spec [OF assms(1) [unfolded publish_due_def]] by auto
  then have jobs: "map aj_analysis jobs = map an_id ?rows" by simp
  then have "length ?rows < nat (as_batch st)" using assms(2) by (metis length_map)
  then have "set ?rows = set (filter (\<lambda>an. due_analysis st now an \<and> \<not> locked (an_id an)) (analyses d2))"
    by (simp add: due_analyses_def)
  then show ?thesis using assms(3-5) unfolding jobs by auto
qed

text \<open>
  C15: no analysis is lost. One sweep whose batches were not full and whose Redis was up puts every
  unfinished analysis that nobody holds any more and whose waiting time is over back into the stream, or, when its attempts are used
  up, ends it as failed; and it registers every eligible call of the lookback that has no analysis yet.
\<close>

theorem sweep_rediscovers_unfinished:
  assumes "analysis_sweep st locked new up job_id now d = (rep, jobs, d')" "keys_distinct an_id (analyses d)"
    and "get_analysis i d = Some r" "analysis_ok m r" "\<not> terminal_analysis (an_status r)" "discoverable_after st r < now" "\<not> locked i"
    and "\<not> sp_error rep" "sp_published rep < nat (as_batch st)" "sp_finalized rep < nat (as_batch st)"
  shows "if an_attempt_count r < as_max_attempts st
    then i \<in> set (map aj_analysis jobs) \<and> get_analysis i d' = Some (r\<lparr> an_last_enqueued := Some now \<rparr>)
    else row_is i (\<lambda>r'. an_status r' = AN_FAILED \<and> an_error_code r' = Some ERR_LEASE_EXPIRED) d'"
proof -
  obtain d1 d2 where s: "finalize_exhausted st locked now None (nat (as_batch st)) d = (sp_finalized rep, d1)"
    "register_missing st new now d1 = (sp_registered rep, d2)" "publish_due st locked up job_id now d2 = (sp_error rep, jobs, d')"
    "sp_published rep = length jobs" by (rule sweep_steps [OF assms(1)])
  have keep: "get_analysis i d1 = Some q \<Longrightarrow> get_analysis i d2 = Some q" for q
    using register_calls_keeps [OF s(2) [unfolded register_missing_def]] grown_keeps(1) by blast
  have id: "an_id r = i" using assms(3) by (rule get_analysis_id)
  show ?thesis
  proof (cases "an_attempt_count r < as_max_attempts st")
    case True
    have "get_analysis i d1 = Some r" using finalize_row [OF assms(2,3), of st locked now None "nat (as_batch st)"] s(1) True
      by (auto simp: stuck_analysis_def)
    then have r2: "get_analysis i d2 = Some r" by (rule keep)
    have "i \<in> set (map aj_analysis jobs)"
    proof -
      have p: "publish_due st locked up job_id now d2 = (False, jobs, d')" using s(3) assms(8) by simp
      have l: "length jobs < nat (as_batch st)" using assms(9) s(4) by simp
      have m: "r \<in> set (analyses d2)" using r2 by (auto simp: get_analysis_def dest: get_row_in)
      show ?thesis using due_published [OF p l m unfinished_due [OF assms(4,5,6) True]] assms(7) by (simp add: id)
    qed
    then show ?thesis using published_or_kept [OF s(3) r2] True by simp
  next
    case False
    have "get_analysis i d1 = Some (finished AN_FAILED now ERR_LEASE_EXPIRED r)"
      by (rule finalize_all [OF assms(2,3) unfinished_stuck [OF assms(4,5,6) False] assms(7) s(1) assms(10)])
    from published_or_kept [OF s(3) keep [OF this]] show ?thesis using False by (auto simp: row_is_def row_defs)
  qed
qed

lemma missing_registered:
  assumes "register_missing st new now d = (n, d2)" "a \<in> set (attempts d)" "get_contact (a_contact a) d = Some c" "is_eligible a c"
    and "a_ended_at a = Some t" "now - seconds (as_lookback_h st * 3600) \<le> t"
    and "length (missing_calls (now - seconds (as_lookback_h st * 3600)) d) \<le> nat (as_batch st)"
  shows "get_by_call_attempt (a_id a) d2 \<noteq> None"
proof (cases "get_by_call_attempt (a_id a) d")
  case None
  let ?rows = "missing_calls (now - seconds (as_lookback_h st * 3600)) d"
  have "(a, c) \<in> set ?rows" using assms(2-6) None by (force simp: missing_calls_def)
  then show ?thesis using register_calls_keeps [OF assms(1) [unfolded register_missing_def]] assms(7) by fastforce
next
  case (Some r)
  then show ?thesis using register_calls_keeps [OF assms(1) [unfolded register_missing_def]] grown_keeps(3) by blast
qed

text \<open>
  A sweep marks a row as published only when Redis took its job, and touches no other row beyond ending
  those that can never be claimed again; it never changes a finished analysis or takes one from its owner.
\<close>

theorem sweep_truthful:
  assumes "analysis_sweep st locked new up job_id now d = (rep, jobs, d')" "keys_distinct an_id (analyses d)"
    and "get_analysis i d = Some r"
  shows "get_analysis i d' \<in> Some ` {r, finished AN_FAILED now ERR_LEASE_EXPIRED r, r\<lparr> an_last_enqueued := Some now \<rparr>,
      (finished AN_FAILED now ERR_LEASE_EXPIRED r)\<lparr> an_last_enqueued := Some now \<rparr>} \<and>
    (map_option an_last_enqueued (get_analysis i d') \<noteq> Some (an_last_enqueued r) \<longrightarrow> i \<in> set (map aj_analysis jobs)) \<and>
    (map_option an_status (get_analysis i d') \<noteq> Some (an_status r) \<longrightarrow> stuck_analysis now (as_max_attempts st) r)"
proof -
  obtain d1 d2 where s: "finalize_exhausted st locked now None (nat (as_batch st)) d = (sp_finalized rep, d1)"
    "register_missing st new now d1 = (sp_registered rep, d2)" "publish_due st locked up job_id now d2 = (sp_error rep, jobs, d')"
    by (rule sweep_steps [OF assms(1)]) (rule that)
  have keep: "get_analysis i d1 = Some q \<Longrightarrow> get_analysis i d2 = Some q" for q
    using register_calls_keeps [OF s(2) [unfolded register_missing_def]] grown_keeps(1) by blast
  have "get_analysis i d1 = Some r \<or> (stuck_analysis now (as_max_attempts st) r \<and> get_analysis i d1 = Some (finished AN_FAILED now ERR_LEASE_EXPIRED r))"
    using finalize_row [OF assms(2,3), of st locked now None "nat (as_batch st)"] s(1) by simp
  then show ?thesis
  proof (elim disjE conjE)
    assume "get_analysis i d1 = Some r"
    from published_or_kept [OF s(3) keep [OF this]] show ?thesis by (simp split: if_splits)
  next
    assume st: "stuck_analysis now (as_max_attempts st) r" "get_analysis i d1 = Some (finished AN_FAILED now ERR_LEASE_EXPIRED r)"
    from published_or_kept [OF s(3) keep [OF st(2)]] st(1) show ?thesis by (simp add: row_defs split: if_splits)
  qed
qed

end
