(* ===== verification/Retention.thy ===== *)
theory Retention imports Analysis_Sweeper begin

text \<open>
  \<open>app/services/data_lifecycle/holds.py\<close> and \<open>retention.py\<close>: legal holds and the purge of old data. A table
  whose purge depends on columns no other component reads (row id, \<open>created_at\<close>) is a list of \<open>stamped\<close> rows in
  an \<open>archive\<close>; \<open>stored\<close> is the same database as the other theories see it. \<open>error_message\<close> is never set by
  the code and is left out. The readings of \<open>monotonic\<close>, the batches that raise and the ids of new rows are
  arguments; the queries have no order.
\<close>

section \<open>Rows\<close>

record 'r stamped =
  st_id :: nat
  st_at :: instant
  st_row :: 'r

record retention_run =
  rr_id :: nat
  rr_started :: instant
  rr_mode :: string
  rr_status :: string
  rr_counts :: "(string \<times> nat) list"
  rr_disabled :: "string list"
  rr_error :: "string option"
  rr_finished :: "instant option"

record archive =
  ar_db :: db
  ar_messages :: "conversation_message stamped list"
  ar_snapshots :: "snapshot stamped list"
  ar_audits :: "audit_row stamped list"
  ar_processed :: "processed_event stamped list"
  ar_runs :: "retention_run list"

definition stored :: "archive \<Rightarrow> db" where
  "stored a = (ar_db a)\<lparr> messages := map st_row (ar_messages a), snapshots := map st_row (ar_snapshots a),
     audits := map st_row (ar_audits a), processed := map st_row (ar_processed a) \<rparr>"

section \<open>Legal holds\<close>

definition held_contact :: "db \<Rightarrow> uuid \<Rightarrow> bool" where
  "held_contact d i = list_ex (\<lambda>c. c_id c = i \<and>
     (case get_campaign (c_campaign c) d of Some p \<Rightarrow> c_legal_hold c \<or> camp_legal_hold p | None \<Rightarrow> False)) (contacts d)"

definition held_campaign :: "db \<Rightarrow> uuid \<Rightarrow> bool" where
  "held_campaign d i = list_ex (\<lambda>p. camp_id p = i \<and> camp_legal_hold p) (campaigns d)"

definition hold_audit :: "string \<Rightarrow> bool \<Rightarrow> string \<Rightarrow> uuid \<Rightarrow> string \<Rightarrow> bool \<Rightarrow> db \<Rightarrow> db" where
  "hold_audit actor active kind i reason changed =
    record_audit_event actor (if active then ''legal_hold.set'' else ''legal_hold.cleared'') kind (Some i)
      [(''reason'', JStr reason), (''changed'', JBool changed)]"

definition set_campaign_hold :: "uuid \<Rightarrow> bool \<Rightarrow> string \<Rightarrow> string \<Rightarrow> db \<Rightarrow> app_error + (bool \<times> db)" where
  "set_campaign_hold i active reason actor d =
    (case get_campaign i d of
       None \<Rightarrow> Inl NotFoundError
     | Some p \<Rightarrow> Inr (camp_legal_hold p \<noteq> active, hold_audit actor active ''campaign'' i reason (camp_legal_hold p \<noteq> active)
         (upd_campaign i (\<lambda>p. p\<lparr> camp_legal_hold := active \<rparr>) d)))"

definition set_contact_hold :: "uuid \<Rightarrow> bool \<Rightarrow> string \<Rightarrow> string \<Rightarrow> db \<Rightarrow> app_error + (bool \<times> db)" where
  "set_contact_hold i active reason actor d =
    (case get_contact i d of
       None \<Rightarrow> Inl NotFoundError
     | Some c \<Rightarrow> Inr (c_legal_hold c \<noteq> active, hold_audit actor active ''contact'' i reason (c_legal_hold c \<noteq> active)
         (upd_contact i (\<lambda>c. c\<lparr> c_legal_hold := active \<rparr>) d)))"

section \<open>What still needs an action\<close>

definition attempt_of_session :: "db \<Rightarrow> uuid \<Rightarrow> call_attempt option" where
  "attempt_of_session d s = (case get_row cs_id s (sessions d) of None \<Rightarrow> None | Some cs \<Rightarrow> get_attempt (cs_attempt cs) d)"

definition contact_of_attempt :: "db \<Rightarrow> uuid \<Rightarrow> uuid option" where
  "contact_of_attempt d t = map_option a_contact (get_attempt t d)"

definition free_attempt :: "db \<Rightarrow> uuid \<Rightarrow> bool" where
  "free_attempt d t = (case contact_of_attempt d t of Some c \<Rightarrow> \<not> held_contact d c | None \<Rightarrow> False)"

definition open_analysis :: "db \<Rightarrow> uuid \<Rightarrow> bool" where
  "open_analysis d t = list_ex (\<lambda>n. an_attempt n = t \<and> \<not> terminal_analysis (an_status n)) (analyses d)"

definition old_message :: "db \<Rightarrow> instant \<Rightarrow> conversation_message stamped \<Rightarrow> bool" where
  "old_message d cutoff m \<longleftrightarrow> st_at m < cutoff \<and>
    (case attempt_of_session d (m_session (st_row m)) of
       None \<Rightarrow> False
     | Some a \<Rightarrow> \<not> held_contact d (a_contact a) \<and> \<not> open_analysis d (a_id a))"

definition old_link :: "db \<Rightarrow> instant \<Rightarrow> conversation_session \<Rightarrow> bool" where
  "old_link d cutoff s \<longleftrightarrow> cs_transcript_url s \<noteq> None \<and> cs_started_at s < cutoff \<and> free_attempt d (cs_attempt s)"

definition snapshot_content :: "snapshot \<Rightarrow> bool" where
  "snapshot_content s \<longleftrightarrow> sn_entities s \<noteq> [] \<or> sn_objections s \<noteq> [] \<or> sn_last_utterance s \<noteq> None"

definition old_snapshot :: "db \<Rightarrow> instant \<Rightarrow> snapshot stamped \<Rightarrow> bool" where
  "old_snapshot d cutoff s \<longleftrightarrow> st_at s < cutoff \<and> free_attempt d (sn_attempt (st_row s)) \<and> snapshot_content (st_row s)"

text \<open>Columns of free text: the null ones, and those whose empty value is a list.\<close>

definition text_columns :: "string list" where "text_columns = [''summary'', ''feedback'']"
definition list_columns :: "string list" where "list_columns = [''key_facts'', ''objections'', ''customer_needs'']"

definition scrub_field :: "string \<times> jval \<Rightarrow> string \<times> jval" where
  "scrub_field f = (if fst f \<in> set text_columns then (fst f, JNull) else if fst f \<in> set list_columns then (fst f, JList []) else f)"

definition analysis_content :: "call_analysis \<Rightarrow> bool" where
  "analysis_content r \<longleftrightarrow> list_ex (\<lambda>f. scrub_field f \<noteq> f) (an_output r)"

definition old_analysis :: "db \<Rightarrow> instant \<Rightarrow> call_analysis \<Rightarrow> bool" where
  "old_analysis d cutoff r \<longleftrightarrow> an_created_at r < cutoff \<and> terminal_analysis (an_status r) \<and>
    \<not> held_contact d (an_contact r) \<and> analysis_content r"

definition old_contact :: "db \<Rightarrow> instant \<Rightarrow> contact \<Rightarrow> bool" where
  "old_contact d cutoff c \<longleftrightarrow>
    (case get_campaign (c_campaign c) d of
       None \<Rightarrow> False
     | Some p \<Rightarrow> camp_status p = CAMP_COMPLETED \<and> lt_opt (camp_closed_at p) cutoff \<and> \<not> camp_legal_hold p) \<and>
    \<not> c_legal_hold c \<and> c_purged_at c = None"

definition old_audit :: "db \<Rightarrow> instant \<Rightarrow> audit_row stamped \<Rightarrow> bool" where
  "old_audit d cutoff a \<longleftrightarrow> st_at a < cutoff \<and>
    (case au_entity (st_row a) of None \<Rightarrow> True | Some e \<Rightarrow> \<not> held_contact d e \<and> \<not> held_campaign d e)"

section \<open>Actions\<close>

text \<open>\<open>uuid.hex\<close>: the 32 digits without the dashes.\<close>

definition purge_placeholder :: "uuid \<Rightarrow> string" where
  "purge_placeholder i = ''purged:'' @ filter (\<lambda>c. c \<noteq> CHR ''-'') (uuid_text i)"

definition scrubbed_contact :: "instant \<Rightarrow> contact \<Rightarrow> contact" where
  "scrubbed_contact now c = c\<lparr> c_phone := purge_placeholder (c_id c), c_number := purge_placeholder (c_id c), c_purged_at := Some now \<rparr>"

definition scrub_contacts :: "uuid list \<Rightarrow> instant \<Rightarrow> db \<Rightarrow> db" where
  "scrub_contacts picked now d = d\<lparr> contacts := update_where (\<lambda>c. c_id c \<in> set picked) (scrubbed_contact now) (contacts d) \<rparr>"

definition scrubbed_snapshot :: "snapshot \<Rightarrow> snapshot" where
  "scrubbed_snapshot s = s\<lparr> sn_entities := [], sn_objections := [], sn_last_utterance := None \<rparr>"

definition scrubbed_analysis :: "call_analysis \<Rightarrow> call_analysis" where
  "scrubbed_analysis r = r\<lparr> an_output := map scrub_field (an_output r) \<rparr>"

definition without :: "nat list \<Rightarrow> 'r stamped list \<Rightarrow> 'r stamped list" where
  "without picked rows = filter (\<lambda>r. st_id r \<notin> set picked) rows"

section \<open>Steps\<close>

datatype retention_step = T_MESSAGES | T_LINKS | T_SNAPSHOTS | T_ANALYSIS | T_CONTACTS | T_AUDIT | T_PROCESSED | T_RUNS

definition retention_steps :: "retention_step list" where
  "retention_steps = [T_MESSAGES, T_LINKS, T_SNAPSHOTS, T_ANALYSIS, T_CONTACTS, T_AUDIT, T_PROCESSED, T_RUNS]"

fun step_key :: "retention_step \<Rightarrow> string" where
  "step_key T_MESSAGES = ''transcript_messages''"
| "step_key T_LINKS = ''transcript_links''"
| "step_key T_SNAPSHOTS = ''working_memory_snapshots''"
| "step_key T_ANALYSIS = ''analysis_free_text''"
| "step_key T_CONTACTS = ''contacts''"
| "step_key T_AUDIT = ''audit_log''"
| "step_key T_PROCESSED = ''processed_events''"
| "step_key T_RUNS = ''retention_runs''"

record retention_config =
  rc_transcript :: "int option"
  rc_analysis :: "int option"
  rc_contact :: "int option"
  rc_audit :: "int option"
  rc_processed :: "int option"
  rc_history :: "int option"
  rc_batch :: nat
  rc_max_runtime :: rat

fun step_setting :: "retention_config \<Rightarrow> retention_step \<Rightarrow> int option" where
  "step_setting g T_MESSAGES = rc_transcript g"
| "step_setting g T_LINKS = rc_transcript g"
| "step_setting g T_SNAPSHOTS = rc_transcript g"
| "step_setting g T_ANALYSIS = rc_analysis g"
| "step_setting g T_CONTACTS = rc_contact g"
| "step_setting g T_AUDIT = rc_audit g"
| "step_setting g T_PROCESSED = rc_processed g"
| "step_setting g T_RUNS = rc_history g"

definition retention_days :: "retention_config \<Rightarrow> retention_step \<Rightarrow> int option" where
  "retention_days g s = (case step_setting g s of Some n \<Rightarrow> if n = 0 then None else Some n | None \<Rightarrow> None)"

definition cutoff_of :: "instant \<Rightarrow> int \<Rightarrow> instant" where
  "cutoff_of now days = now - seconds (86400 * days)"

fun step_candidates :: "retention_step \<Rightarrow> instant \<Rightarrow> nat \<Rightarrow> archive \<Rightarrow> nat list" where
  "step_candidates T_MESSAGES cutoff run a = map st_id (filter (old_message (ar_db a) cutoff) (ar_messages a))"
| "step_candidates T_LINKS cutoff run a = map cs_id (filter (old_link (ar_db a) cutoff) (sessions (ar_db a)))"
| "step_candidates T_SNAPSHOTS cutoff run a = map st_id (filter (old_snapshot (ar_db a) cutoff) (ar_snapshots a))"
| "step_candidates T_ANALYSIS cutoff run a = map an_id (filter (old_analysis (ar_db a) cutoff) (analyses (ar_db a)))"
| "step_candidates T_CONTACTS cutoff run a = map c_id (filter (old_contact (ar_db a) cutoff) (contacts (ar_db a)))"
| "step_candidates T_AUDIT cutoff run a = map st_id (filter (old_audit (ar_db a) cutoff) (ar_audits a))"
| "step_candidates T_PROCESSED cutoff run a = map st_id (filter (\<lambda>p. pe_received_at (st_row p) < cutoff) (ar_processed a))"
| "step_candidates T_RUNS cutoff run a = map rr_id (filter (\<lambda>r. rr_started r < cutoff \<and> rr_id r \<noteq> run) (ar_runs a))"

fun step_apply :: "retention_step \<Rightarrow> nat list \<Rightarrow> instant \<Rightarrow> archive \<Rightarrow> archive" where
  "step_apply T_MESSAGES picked now a = a\<lparr> ar_messages := without picked (ar_messages a) \<rparr>"
| "step_apply T_LINKS picked now a = a\<lparr> ar_db := (ar_db a)\<lparr> sessions :=
     update_where (\<lambda>s. cs_id s \<in> set picked) (\<lambda>s. s\<lparr> cs_transcript_url := None \<rparr>) (sessions (ar_db a)) \<rparr> \<rparr>"
| "step_apply T_SNAPSHOTS picked now a = a\<lparr> ar_snapshots :=
     update_where (\<lambda>s. st_id s \<in> set picked) (\<lambda>s. s\<lparr> st_row := scrubbed_snapshot (st_row s) \<rparr>) (ar_snapshots a) \<rparr>"
| "step_apply T_ANALYSIS picked now a = a\<lparr> ar_db := (ar_db a)\<lparr> analyses :=
     update_where (\<lambda>r. an_id r \<in> set picked) scrubbed_analysis (analyses (ar_db a)) \<rparr> \<rparr>"
| "step_apply T_CONTACTS picked now a = a\<lparr> ar_db := scrub_contacts picked now (ar_db a) \<rparr>"
| "step_apply T_AUDIT picked now a = a\<lparr> ar_audits := without picked (ar_audits a) \<rparr>"
| "step_apply T_PROCESSED picked now a = a\<lparr> ar_processed := without picked (ar_processed a) \<rparr>"
| "step_apply T_RUNS picked now a = a\<lparr> ar_runs := filter (\<lambda>r. rr_id r \<notin> set picked) (ar_runs a) \<rparr>"

section \<open>An action removes exactly its rows from the candidates\<close>

lemma filter_without: "map st_id (filter P (without picked rows)) = filter (\<lambda>i. i \<notin> set picked) (map st_id (filter P rows))"
  by (induction rows) (simp_all add: without_def)

lemma filter_update:
  assumes "\<And>r. key (f r) = key r" "\<And>r. \<not> P (f r)"
  shows "map key (filter P (update_where (\<lambda>r. key r \<in> set picked) f rows)) = filter (\<lambda>i. i \<notin> set picked) (map key (filter P rows))"
  using assms by (induction rows) (simp_all add: update_where_def)

lemma scrub_field_idem [simp]: "scrub_field (scrub_field f) = scrub_field f" "fst (scrub_field f) = fst f"
  by (simp_all add: scrub_field_def text_columns_def list_columns_def)

lemma scrubbed_empty [simp]: "\<not> analysis_content (scrubbed_analysis r)" "\<not> snapshot_content (scrubbed_snapshot s)"
  by (simp_all add: analysis_content_def scrubbed_analysis_def snapshot_content_def scrubbed_snapshot_def list_ex_iff)

lemma scrubbed_sel [simp]:
  "c_id (scrubbed_contact now c) = c_id c" "c_campaign (scrubbed_contact now c) = c_campaign c"
  "c_legal_hold (scrubbed_contact now c) = c_legal_hold c" "c_purged_at (scrubbed_contact now c) = Some now"
  "an_id (scrubbed_analysis r) = an_id r" "an_status (scrubbed_analysis r) = an_status r"
  "an_contact (scrubbed_analysis r) = an_contact r" "an_attempt (scrubbed_analysis r) = an_attempt r"
  "sn_attempt (scrubbed_snapshot s) = sn_attempt s"
  by (simp_all add: scrubbed_contact_def scrubbed_analysis_def scrubbed_snapshot_def)

text \<open>What the queries read of the tables.\<close>

definition same_frame :: "db \<Rightarrow> db \<Rightarrow> bool" where
  "same_frame d d' \<longleftrightarrow> attempts d' = attempts d \<and> campaigns d' = campaigns d \<and>
    map (\<lambda>c. (c_id c, c_campaign c, c_legal_hold c)) (contacts d') = map (\<lambda>c. (c_id c, c_campaign c, c_legal_hold c)) (contacts d) \<and>
    map (\<lambda>s. (cs_id s, cs_attempt s)) (sessions d') = map (\<lambda>s. (cs_id s, cs_attempt s)) (sessions d) \<and>
    map (\<lambda>n. (an_attempt n, an_status n)) (analyses d') = map (\<lambda>n. (an_attempt n, an_status n)) (analyses d)"

lemma list_ex_of_map: "map g xs = map g ys \<Longrightarrow> (\<And>x. P x = Q (g x)) \<Longrightarrow> list_ex P xs = list_ex P ys"
proof -
  assume a: "map g xs = map g ys" "\<And>x. P x = Q (g x)"
  have "list_ex P zs = list_ex Q (map g zs)" for zs using a(2) by (induction zs) simp_all
  then show ?thesis using a(1) by simp
qed

lemma session_attempt_map: "map_option cs_attempt (get_row cs_id i rows) = map_of (map (\<lambda>s. (cs_id s, cs_attempt s)) rows) i"
  by (induction rows) (auto simp: get_row_Cons)

lemma frame_eqs:
  assumes "same_frame d d'"
  shows "get_campaign i d' = get_campaign i d" "held_contact d' = held_contact d" "held_campaign d' = held_campaign d"
    "free_attempt d' = free_attempt d" "attempt_of_session d' = attempt_of_session d" "open_analysis d' = open_analysis d"
proof -
  note f = assms [unfolded same_frame_def]
  have g: "get_campaign j d' = get_campaign j d" "get_attempt j d' = get_attempt j d" for j
    using f by (simp_all add: get_campaign_def get_attempt_def)
  show "get_campaign i d' = get_campaign i d" by (rule g)
  have "held_contact d' j = held_contact d j" for j
    unfolding held_contact_def g
    by (rule list_ex_of_map [where g = "\<lambda>c. (c_id c, c_campaign c, c_legal_hold c)" and Q = "\<lambda>(k, p, h). k = j \<and>
          (case get_campaign p d of Some p \<Rightarrow> h \<or> camp_legal_hold p | None \<Rightarrow> False)"]) (use f in auto)
  then show h: "held_contact d' = held_contact d" by blast
  show "held_campaign d' = held_campaign d" using f by (simp add: fun_eq_iff held_campaign_def)
  show "free_attempt d' = free_attempt d" unfolding free_attempt_def [abs_def] contact_of_attempt_def g h by (rule refl)
  have "attempt_of_session x j = Option.bind (map_option cs_attempt (get_row cs_id j (sessions x))) (\<lambda>t. get_attempt t x)" for x j
    by (simp add: attempt_of_session_def split: option.split)
  then show "attempt_of_session d' = attempt_of_session d" using f by (simp add: fun_eq_iff session_attempt_map g)
  have "open_analysis d' t = open_analysis d t" for t
    unfolding open_analysis_def
    by (rule list_ex_of_map [where g = "\<lambda>n. (an_attempt n, an_status n)" and Q = "\<lambda>(k, s). k = t \<and> \<not> terminal_analysis s"]) (use f in auto)
  then show "open_analysis d' = open_analysis d" by blast
qed

lemma frame_old:
  assumes "same_frame d d'"
  shows "old_message d' = old_message d" "old_link d' = old_link d" "old_snapshot d' = old_snapshot d"
    "old_analysis d' = old_analysis d" "old_contact d' = old_contact d" "old_audit d' = old_audit d"
  unfolding old_message_def [abs_def] old_link_def [abs_def] old_snapshot_def [abs_def] old_analysis_def [abs_def]
    old_contact_def [abs_def] old_audit_def [abs_def] frame_eqs [OF assms] by (rule refl)+

lemma frame_apply: "same_frame (ar_db a) (ar_db (step_apply s picked now a))"
  by (cases s) (auto simp: same_frame_def scrub_contacts_def update_where_def)

lemmas apply_old = frame_old [OF frame_apply]

lemma apply_own: "step_candidates s cutoff run (step_apply s picked now a) = filter (\<lambda>i. i \<notin> set picked) (step_candidates s cutoff run a)"
proof (cases s)
  case T_RUNS
  then show ?thesis by (simp add: filter_map o_def conj_commute)
next
  case T_LINKS
  have "step_candidates T_LINKS cutoff run (step_apply T_LINKS picked now a) =
      map cs_id (filter (old_link (ar_db a) cutoff) (sessions (ar_db (step_apply T_LINKS picked now a))))"
    using apply_old(2) [where a = a and s = T_LINKS and picked = picked and now = now] by simp
  then show ?thesis using T_LINKS by (simp add: filter_update old_link_def)
next
  case T_SNAPSHOTS
  then show ?thesis by (simp add: filter_update old_snapshot_def)
next
  case T_ANALYSIS
  have "step_candidates T_ANALYSIS cutoff run (step_apply T_ANALYSIS picked now a) =
      map an_id (filter (old_analysis (ar_db a) cutoff) (analyses (ar_db (step_apply T_ANALYSIS picked now a))))"
    using apply_old(4) [where a = a and s = T_ANALYSIS and picked = picked and now = now] by simp
  then show ?thesis using T_ANALYSIS by (simp add: filter_update old_analysis_def)
next
  case T_CONTACTS
  have "step_candidates T_CONTACTS cutoff run (step_apply T_CONTACTS picked now a) =
      map c_id (filter (old_contact (ar_db a) cutoff) (contacts (ar_db (step_apply T_CONTACTS picked now a))))"
    using apply_old(5) [where a = a and s = T_CONTACTS and picked = picked and now = now] by simp
  then show ?thesis using T_CONTACTS by (simp add: filter_update old_contact_def scrub_contacts_def)
qed (simp_all add: filter_without)

lemma apply_other:
  assumes "t \<noteq> s"
  shows "step_candidates t cutoff run (step_apply s picked now a) = step_candidates t cutoff run a"
proof -
  have tables: "s \<noteq> T_LINKS \<Longrightarrow> sessions (ar_db (step_apply s picked now a)) = sessions (ar_db a)"
    "s \<noteq> T_ANALYSIS \<Longrightarrow> analyses (ar_db (step_apply s picked now a)) = analyses (ar_db a)"
    "s \<noteq> T_CONTACTS \<Longrightarrow> contacts (ar_db (step_apply s picked now a)) = contacts (ar_db a)"
    "s \<noteq> T_MESSAGES \<Longrightarrow> ar_messages (step_apply s picked now a) = ar_messages a"
    "s \<noteq> T_SNAPSHOTS \<Longrightarrow> ar_snapshots (step_apply s picked now a) = ar_snapshots a"
    "s \<noteq> T_AUDIT \<Longrightarrow> ar_audits (step_apply s picked now a) = ar_audits a"
    "s \<noteq> T_PROCESSED \<Longrightarrow> ar_processed (step_apply s picked now a) = ar_processed a"
    "s \<noteq> T_RUNS \<Longrightarrow> ar_runs (step_apply s picked now a) = ar_runs a"
    by (cases s; simp add: scrub_contacts_def)+
  show ?thesis using assms tables apply_old [where a = a and s = s and picked = picked and now = now] by (cases t) simp_all
qed

end
