(* ===== verification/Retention_Run.thy ===== *)
theory Retention_Run imports Retention begin

text \<open>
  \<open>run_retention\<close> of \<open>app/services/data_lifecycle/retention.py\<close>: the bounded batches of each step under the runtime
  budget, the dry run, the advisory lock, the run row and its audit row; and what a run guarantees.
  \<open>re_ticks n\<close> is the \<open>n\<close>-th reading of the elapsed time, \<open>re_fails n\<close> says that the statements after it raise.
\<close>

section \<open>A run\<close>

record retention_env =
  re_config :: retention_config
  re_now :: instant
  re_db_now :: instant
  re_lock :: bool
  re_apply :: bool
  re_actor :: string
  re_run :: nat
  re_audit :: nat
  re_ticks :: "nat \<Rightarrow> rat"
  re_fails :: "nat \<Rightarrow> bool"
  re_error :: string

datatype step_end = STEP_DONE | STEP_PARTIAL | STEP_FAILED

lemma candidates_shrink:
  assumes "picked \<noteq> []" "set picked \<subseteq> set (step_candidates s cutoff run a)"
  shows "length (step_candidates s cutoff run (step_apply s picked now a)) < length (step_candidates s cutoff run a)"
proof -
  obtain i where "i \<in> set picked" "i \<in> set (step_candidates s cutoff run a)" using assms by (cases picked) auto
  then show ?thesis unfolding apply_own by (intro length_filter_less [of i]) auto
qed

text \<open>One step; the result has the next reading and the number of rows.\<close>

function purge_loop :: "retention_env \<Rightarrow> retention_step \<Rightarrow> instant \<Rightarrow> nat \<Rightarrow> nat \<Rightarrow> archive \<Rightarrow> step_end \<times> nat \<times> nat \<times> archive" where
  "purge_loop w s cutoff n count a =
    (if re_ticks w n \<ge> rc_max_runtime (re_config w) then (STEP_PARTIAL, Suc n, count, a)
     else let picked = take (rc_batch (re_config w)) (step_candidates s cutoff (re_run w) a) in
          if re_fails w n then (STEP_FAILED, Suc n, count, a)
          else if picked = [] then (STEP_DONE, Suc n, count, a)
          else purge_loop w s cutoff (Suc n) (count + length picked) (step_apply s picked (re_now w) a))"
  by pat_completeness auto

termination
  by (relation "measure (\<lambda>(w, s, cutoff, n, count, a). length (step_candidates s cutoff (re_run w) a))")
    (auto intro: candidates_shrink dest: in_set_takeD simp del: apply_own)

declare purge_loop.simps [simp del]

record retention_result =
  rs_status :: string
  rs_counts :: "(string \<times> nat) list"
  rs_disabled :: "string list"
  rs_error :: "string option"

fun run_steps :: "retention_env \<Rightarrow> retention_step list \<Rightarrow> nat \<Rightarrow> retention_result \<Rightarrow> archive \<Rightarrow> retention_result \<times> archive" where
  "run_steps w [] n r a = (r\<lparr> rs_status := ''completed'' \<rparr>, a)"
| "run_steps w (s # ss) n r a =
    (case retention_days (re_config w) s of
       None \<Rightarrow> run_steps w ss n (r\<lparr> rs_disabled := rs_disabled r @ [step_key s] \<rparr>) a
     | Some days \<Rightarrow>
        if \<not> re_apply w then
          (if re_fails w n then (r\<lparr> rs_status := ''failed'', rs_error := Some (re_error w) \<rparr>, a)
           else run_steps w ss (Suc n)
             (r\<lparr> rs_counts := rs_counts r @ [(step_key s, length (step_candidates s (cutoff_of (re_now w) days) (re_run w) a))] \<rparr>) a)
        else (case purge_loop w s (cutoff_of (re_now w) days) n 0 a of
           (STEP_DONE, n', count, a') \<Rightarrow> run_steps w ss n' (r\<lparr> rs_counts := rs_counts r @ [(step_key s, count)] \<rparr>) a'
         | (STEP_PARTIAL, n', count, a') \<Rightarrow> (r\<lparr> rs_status := ''partial'', rs_counts := rs_counts r @ [(step_key s, count)] \<rparr>, a')
         | (STEP_FAILED, n', count, a') \<Rightarrow> (r\<lparr> rs_status := ''failed'', rs_error := Some (re_error w) \<rparr>, a')))"

definition run_mode :: "retention_env \<Rightarrow> string" where
  "run_mode w = (if re_apply w then ''apply'' else ''dry_run'')"

definition finish_run :: "retention_env \<Rightarrow> retention_result \<Rightarrow> archive \<Rightarrow> archive" where
  "finish_run w r a = a\<lparr>
     ar_runs := upd_row rr_id (re_run w) (\<lambda>q. q\<lparr> rr_finished := Some (re_now w), rr_status := rs_status r, rr_counts := rs_counts r,
       rr_disabled := rs_disabled r, rr_error := rs_error r \<rparr>) (ar_runs a),
     ar_audits := ar_audits a @ [\<lparr> st_id = re_audit w, st_at = re_db_now w, st_row =
       \<lparr> au_actor = re_actor w, au_action = ''retention.run'', au_entity_type = ''retention_run'', au_entity = Some (re_run w),
         au_metadata = [(''mode'', JStr (run_mode w)), (''status'', JStr (rs_status r)),
           (''counts'', JObj (map (\<lambda>(k, n). (k, JInt (int n))) (rs_counts r))),
           (''disabled_classes'', JList (map JStr (rs_disabled r)))] \<rparr> \<rparr>] \<rparr>"

definition new_run :: "retention_env \<Rightarrow> retention_run" where
  "new_run w = \<lparr> rr_id = re_run w, rr_started = re_db_now w, rr_mode = run_mode w, rr_status = ''running'', rr_counts = [],
     rr_disabled = [], rr_error = None, rr_finished = None \<rparr>"

definition empty_result :: retention_result where
  "empty_result = \<lparr> rs_status = ''running'', rs_counts = [], rs_disabled = [], rs_error = None \<rparr>"

text \<open>\<open>Inl ()\<close> is \<open>RetentionLockHeld\<close>.\<close>

definition run_retention :: "retention_env \<Rightarrow> archive \<Rightarrow> (unit + retention_result) \<times> archive" where
  "run_retention w a =
    (let a1 = a\<lparr> ar_runs := ar_runs a @ [new_run w] \<rparr> in
     if \<not> re_lock w then (Inl (), finish_run w (empty_result\<lparr> rs_status := ''failed'', rs_error := Some ''lock_held'' \<rparr>) a1)
     else case run_steps w retention_steps 0 empty_result a1 of (r, a2) \<Rightarrow> (Inr r, finish_run w r a2))"

definition backlog_counts :: "retention_config \<Rightarrow> instant \<Rightarrow> nat \<Rightarrow> archive \<Rightarrow> (string \<times> nat option) list" where
  "backlog_counts g now run a = map (\<lambda>s. (step_key s, map_option (\<lambda>days.
     length (step_candidates s (cutoff_of now days) run a)) (retention_days g s))) retention_steps"

section \<open>Purges\<close>

text \<open>A purge: actions on candidates only, in any number.\<close>

inductive purged :: "retention_config \<Rightarrow> instant \<Rightarrow> nat \<Rightarrow> archive \<Rightarrow> archive \<Rightarrow> bool" for g now run where
  none: "purged g now run a a"
| more: "purged g now run a a1 \<Longrightarrow> retention_days g s = Some days \<Longrightarrow>
    set picked \<subseteq> set (step_candidates s (cutoff_of now days) run a1) \<Longrightarrow> purged g now run a (step_apply s picked now a1)"

lemma purge_loop_purges:
  assumes "purge_loop w s (cutoff_of (re_now w) days) n count a = (e, n', count', a')" "retention_days (re_config w) s = Some days"
    and "purged (re_config w) (re_now w) (re_run w) a0 a"
  shows "purged (re_config w) (re_now w) (re_run w) a0 a' \<and>
    (e = STEP_DONE \<and> 0 < rc_batch (re_config w) \<longrightarrow> step_candidates s (cutoff_of (re_now w) days) (re_run w) a' = []) \<and>
    (\<forall>t cutoff. t \<noteq> s \<longrightarrow> step_candidates t cutoff (re_run w) a' = step_candidates t cutoff (re_run w) a)"
  using assms
proof (induction w s "cutoff_of (re_now w) days" n count a arbitrary: rule: purge_loop.induct)
  case (1 w s n count a)
  let ?picked = "take (rc_batch (re_config w)) (step_candidates s (cutoff_of (re_now w) days) (re_run w) a)"
  show ?case
  proof (cases "re_ticks w n \<ge> rc_max_runtime (re_config w) \<or> re_fails w n \<or> ?picked = []")
    case True
    then show ?thesis using "1.prems" by (subst (asm) purge_loop.simps) (auto simp: Let_def split: if_splits)
  next
    case False
    have "purge_loop w s (cutoff_of (re_now w) days) (Suc n) (count + length ?picked) (step_apply s ?picked (re_now w) a) = (e, n', count', a')"
      using "1.prems"(1) False by (subst (asm) purge_loop.simps) (simp add: Let_def)
    moreover have "purged (re_config w) (re_now w) (re_run w) a0 (step_apply s ?picked (re_now w) a)"
      by (rule purged.more [OF "1.prems"(3,2)]) (auto dest: in_set_takeD)
    ultimately show ?thesis using "1.hyps" [OF _ refl] False "1.prems"(2) apply_other by auto
  qed
qed

lemma run_steps_purges:
  assumes "run_steps w ss n r a = (r', a')" "purged (re_config w) (re_now w) (re_run w) a0 a"
  shows "purged (re_config w) (re_now w) (re_run w) a0 a' \<and> (\<not> re_apply w \<longrightarrow> a' = a) \<and>
    (rs_status r' = ''completed'' \<and> re_apply w \<and> 0 < rc_batch (re_config w) \<and> distinct ss \<longrightarrow>
      (\<forall>s \<in> set ss. \<forall>days. retention_days (re_config w) s = Some days \<longrightarrow> step_candidates s (cutoff_of (re_now w) days) (re_run w) a' = []) \<and>
      (\<forall>s cutoff. s \<notin> set ss \<longrightarrow> step_candidates s cutoff (re_run w) a' = step_candidates s cutoff (re_run w) a))"
  using assms
proof (induction ss arbitrary: n r a)
  case (Cons s ss)
  show ?case
  proof (cases "retention_days (re_config w) s")
    case None
    then show ?thesis using Cons by auto
  next
    case (Some days)
    show ?thesis
    proof (cases "re_apply w")
      case True
      obtain e n' count a1 where l: "purge_loop w s (cutoff_of (re_now w) days) n 0 a = (e, n', count, a1)" by (metis prod_cases4)
      note p = purge_loop_purges [OF l Some Cons.prems(2)]
      show ?thesis
      proof (cases e)
        case STEP_DONE
        then have "run_steps w ss n' (r\<lparr> rs_counts := rs_counts r @ [(step_key s, count)] \<rparr>) a1 = (r', a')"
          using Cons.prems(1) Some True l by simp
        from Cons.IH [OF this] p STEP_DONE Some True show ?thesis by auto
      qed (use Cons.prems Some True l p in auto)
    next
      case False
      then show ?thesis using Cons Some by (auto split: if_splits)
    qed
  qed
qed auto

section \<open>A purge in closed form\<close>

definition purge_of :: "(retention_step \<Rightarrow> nat list) \<Rightarrow> instant \<Rightarrow> archive \<Rightarrow> archive" where
  "purge_of P now a = a\<lparr>
     ar_db := (ar_db a)\<lparr> sessions := update_where (\<lambda>s. cs_id s \<in> set (P T_LINKS)) (\<lambda>s. s\<lparr> cs_transcript_url := None \<rparr>) (sessions (ar_db a)),
       analyses := update_where (\<lambda>r. an_id r \<in> set (P T_ANALYSIS)) scrubbed_analysis (analyses (ar_db a)),
       contacts := update_where (\<lambda>c. c_id c \<in> set (P T_CONTACTS)) (scrubbed_contact now) (contacts (ar_db a)) \<rparr>,
     ar_messages := without (P T_MESSAGES) (ar_messages a),
     ar_snapshots := update_where (\<lambda>s. st_id s \<in> set (P T_SNAPSHOTS)) (\<lambda>s. s\<lparr> st_row := scrubbed_snapshot (st_row s) \<rparr>) (ar_snapshots a),
     ar_audits := without (P T_AUDIT) (ar_audits a), ar_processed := without (P T_PROCESSED) (ar_processed a),
     ar_runs := filter (\<lambda>r. rr_id r \<notin> set (P T_RUNS)) (ar_runs a) \<rparr>"

lemma update_where_False: "update_where (\<lambda>r. False) f rows = rows"
  by (simp add: update_where_def)

lemma purge_of_none: "purge_of (\<lambda>_. []) now a = a"
  by (simp add: purge_of_def update_where_False without_def)

lemma update_twice:
  assumes "\<And>r. key (f r) = key r" "\<And>r. f (f r) = f r"
  shows "update_where (\<lambda>r. key r \<in> B) f (update_where (\<lambda>r. key r \<in> A) f rows) = update_where (\<lambda>r. key r \<in> A \<or> key r \<in> B) f rows"
  using assms by (auto simp: update_where_def)

lemma without_twice: "without q (without p rows) = without (p @ q) rows"
  by (simp add: without_def)

lemma scrubs_idem [simp]:
  "scrubbed_contact now (scrubbed_contact now c) = scrubbed_contact now c"
  "scrubbed_snapshot (scrubbed_snapshot s) = scrubbed_snapshot s" "scrubbed_analysis (scrubbed_analysis r) = scrubbed_analysis r"
  by (simp_all add: scrubbed_contact_def scrubbed_snapshot_def scrubbed_analysis_def)

lemma apply_purge_of: "step_apply s picked now (purge_of P now a) = purge_of (P(s := P s @ picked)) now a"
  by (cases s) (simp_all add: purge_of_def scrub_contacts_def update_twice without_twice conj_commute)

lemma purged_closed:
  assumes "purged g now run a a'"
  shows "\<exists>P. a' = purge_of P now a \<and> (\<forall>s. \<forall>i \<in> set (P s). \<exists>days. retention_days g s = Some days \<and>
      i \<in> set (step_candidates s (cutoff_of now days) run a)) \<and>
    (\<forall>s cutoff. set (step_candidates s cutoff run a') \<subseteq> set (step_candidates s cutoff run a))"
  using assms
proof induction
  case none
  then show ?case by (intro exI [of _ "\<lambda>_. []"]) (simp add: purge_of_none)
next
  case (more a a1 s days picked)
  then obtain P where P: "a1 = purge_of P now a" "\<forall>s. \<forall>i \<in> set (P s). \<exists>days. retention_days g s = Some days \<and>
      i \<in> set (step_candidates s (cutoff_of now days) run a)"
    "\<forall>s cutoff. set (step_candidates s cutoff run a1) \<subseteq> set (step_candidates s cutoff run a)" by blast
  have "set (step_candidates t cutoff run (step_apply s picked now a1)) \<subseteq> set (step_candidates t cutoff run a1)" for t cutoff
    by (cases "t = s") (auto simp: apply_own apply_other simp del: step_candidates.simps step_apply.simps)
  then have "\<forall>t cutoff. set (step_candidates t cutoff run (step_apply s picked now a1)) \<subseteq> set (step_candidates t cutoff run a)" using P(3) by blast
  moreover have "step_apply s picked now a1 = purge_of (P(s := P s @ picked)) now a" by (simp add: P(1) apply_purge_of)
  moreover have "\<forall>t. \<forall>i \<in> set ((P(s := P s @ picked)) t). \<exists>days. retention_days g t = Some days \<and>
      i \<in> set (step_candidates t (cutoff_of now days) run a)"
  proof (intro allI ballI)
    fix t i assume "i \<in> set ((P(s := P s @ picked)) t)"
    then consider "i \<in> set (P t)" | "t = s" "i \<in> set picked" by (auto split: if_splits)
    then show "\<exists>days. retention_days g t = Some days \<and> i \<in> set (step_candidates t (cutoff_of now days) run a)"
      by cases (use P(2,3) more.hyps(2,3) in blast)+
  qed
  ultimately show ?case by blast
qed

section \<open>What a run guarantees\<close>

definition archive_keys :: "archive \<Rightarrow> bool" where
  "archive_keys a \<longleftrightarrow> keys_distinct st_id (ar_messages a) \<and> keys_distinct st_id (ar_snapshots a) \<and> keys_distinct st_id (ar_audits a) \<and>
    keys_distinct cs_id (sessions (ar_db a)) \<and> keys_distinct an_id (analyses (ar_db a)) \<and> keys_distinct c_id (contacts (ar_db a))"

definition message_contact :: "db \<Rightarrow> conversation_message stamped \<Rightarrow> uuid option" where
  "message_contact d m = map_option a_contact (attempt_of_session d (m_session (st_row m)))"

text \<open>What a hold on a contact keeps: its row, its turns, sessions and working memory, its analyses, and the audit rows
  whose entity is the contact itself. (Not the audit rows about its calls and analyses: see below.)\<close>

definition covered :: "uuid \<Rightarrow> archive \<Rightarrow> contact option \<times> conversation_message stamped list \<times> conversation_session list \<times>
    snapshot stamped list \<times> call_analysis list \<times> audit_row stamped list" where
  "covered c a = (get_contact c (ar_db a), filter (\<lambda>m. message_contact (ar_db a) m = Some c) (ar_messages a),
     filter (\<lambda>s. contact_of_attempt (ar_db a) (cs_attempt s) = Some c) (sessions (ar_db a)),
     filter (\<lambda>s. contact_of_attempt (ar_db a) (sn_attempt (st_row s)) = Some c) (ar_snapshots a),
     filter (\<lambda>r. an_contact r = c) (analyses (ar_db a)), filter (\<lambda>u. au_entity (st_row u) = Some c) (ar_audits a))"

lemma candidate_is: "keys_distinct key rows \<Longrightarrow> r \<in> set rows \<Longrightarrow> key r \<in> set (map key (filter P rows)) \<Longrightarrow> P r"
proof -
  assume a: "keys_distinct key rows" "r \<in> set rows" "key r \<in> set (map key (filter P rows))"
  then obtain q where q: "q \<in> set rows" "P q" "key q = key r" by auto
  have "get_row key (key r) rows = Some r" "get_row key (key r) rows = Some q" using a(1,2) q by (simp_all add: get_row_Some_iff)
  then show ?thesis using q(2) by simp
qed

lemma not_picked:
  assumes "keys_distinct key rows" "\<And>i. i \<in> set p \<Longrightarrow> \<exists>cutoff. i \<in> set (map key (filter (P cutoff) rows))" "\<And>cutoff r. P cutoff r \<Longrightarrow> \<not> Q r"
  shows "\<forall>r \<in> set rows. Q r \<longrightarrow> key r \<notin> set p"
proof (intro ballI impI notI)
  fix r assume r: "r \<in> set rows" "Q r" "key r \<in> set p"
  obtain cutoff where "key r \<in> set (map key (filter (P cutoff) rows))" using assms(2) [OF r(3)] by blast
  from assms(3) [OF candidate_is [OF assms(1) r(1) this]] r(2) show False by blast
qed

lemma filter_without_keeps: "(\<And>r. r \<in> set rows \<Longrightarrow> Q r \<Longrightarrow> st_id r \<notin> set p) \<Longrightarrow> filter Q (without p rows) = filter Q rows"
  by (induction rows) (auto simp: without_def)

lemma filter_update_keeps:
  "(\<And>r. r \<in> set rows \<Longrightarrow> Q r \<Longrightarrow> key r \<notin> K) \<Longrightarrow> (\<And>r. Q (f r) = Q r) \<Longrightarrow> filter Q (update_where (\<lambda>r. key r \<in> K) f rows) = filter Q rows"
  by (induction rows) (auto simp: update_where_def)

lemma held_not_old:
  assumes "held_contact d c"
  shows "old_message d cutoff m \<Longrightarrow> message_contact d m \<noteq> Some c" "old_link d cutoff s \<Longrightarrow> contact_of_attempt d (cs_attempt s) \<noteq> Some c"
    "old_snapshot d cutoff n \<Longrightarrow> contact_of_attempt d (sn_attempt (st_row n)) \<noteq> Some c" "old_analysis d cutoff r \<Longrightarrow> an_contact r \<noteq> c"
    "old_audit d cutoff u \<Longrightarrow> au_entity (st_row u) \<noteq> Some c"
  using assms by (auto simp: old_message_def message_contact_def old_link_def old_snapshot_def free_attempt_def old_analysis_def old_audit_def
      split: option.splits)

lemma held_contact_row:
  assumes "held_contact d c" "keys_distinct c_id (contacts d)" "get_contact c d = Some r"
  shows "\<not> old_contact d cutoff r"
proof -
  obtain q where "q \<in> set (contacts d)" "c_id q = c" "case get_campaign (c_campaign q) d of Some p \<Rightarrow> c_legal_hold q \<or> camp_legal_hold p | None \<Rightarrow> False"
    using assms(1) by (auto simp: held_contact_def list_ex_iff)
  moreover have "q = r" using calculation(1,2) get_row_Some_iff [OF assms(2), of c q] assms(3) by (simp add: get_contact_def)
  ultimately show ?thesis by (auto simp: old_contact_def split: option.splits)
qed

lemma purge_of_held:
  assumes "archive_keys a" "held_contact (ar_db a) c"
    and "\<And>s i. i \<in> set (P s) \<Longrightarrow> \<exists>cutoff. i \<in> set (step_candidates s cutoff run a)"
  shows "covered c (purge_of P now a) = covered c a"
proof -
  let ?d = "ar_db a" and ?a = "purge_of P now a"
  note keys = assms(1) [unfolded archive_keys_def]
  have frame: "same_frame ?d (ar_db ?a)" by (auto simp: same_frame_def purge_of_def update_where_def)
  have joins: "message_contact (ar_db ?a) = message_contact ?d" "contact_of_attempt (ar_db ?a) = contact_of_attempt ?d"
    unfolding message_contact_def [abs_def] frame_eqs [OF frame] by (simp, simp add: fun_eq_iff contact_of_attempt_def get_attempt_def purge_of_def)
  have "\<forall>r \<in> set (ar_messages a). message_contact ?d r = Some c \<longrightarrow> st_id r \<notin> set (P T_MESSAGES)"
    by (rule not_picked [where P = "old_message ?d"]) (use keys assms(3) [where s = T_MESSAGES] held_not_old(1) [OF assms(2)] in auto)
  then have m: "filter (\<lambda>r. message_contact ?d r = Some c) (ar_messages ?a) = filter (\<lambda>r. message_contact ?d r = Some c) (ar_messages a)"
    unfolding purge_of_def by (simp, intro filter_without_keeps) auto
  have "\<forall>r \<in> set (sessions ?d). contact_of_attempt ?d (cs_attempt r) = Some c \<longrightarrow> cs_id r \<notin> set (P T_LINKS)"
    by (rule not_picked [where P = "old_link ?d"]) (use keys assms(3) [where s = T_LINKS] held_not_old(2) [OF assms(2)] in auto)
  then have s: "filter (\<lambda>r. contact_of_attempt ?d (cs_attempt r) = Some c) (sessions (ar_db ?a)) = filter (\<lambda>r. contact_of_attempt ?d (cs_attempt r) = Some c) (sessions ?d)"
    unfolding purge_of_def by (simp, intro filter_update_keeps) auto
  have "\<forall>r \<in> set (ar_snapshots a). contact_of_attempt ?d (sn_attempt (st_row r)) = Some c \<longrightarrow> st_id r \<notin> set (P T_SNAPSHOTS)"
    by (rule not_picked [where P = "old_snapshot ?d"]) (use keys assms(3) [where s = T_SNAPSHOTS] held_not_old(3) [OF assms(2)] in auto)
  then have n: "filter (\<lambda>r. contact_of_attempt ?d (sn_attempt (st_row r)) = Some c) (ar_snapshots ?a) = filter (\<lambda>r. contact_of_attempt ?d (sn_attempt (st_row r)) = Some c) (ar_snapshots a)"
    unfolding purge_of_def by (simp, intro filter_update_keeps) auto
  have "\<forall>r \<in> set (analyses ?d). an_contact r = c \<longrightarrow> an_id r \<notin> set (P T_ANALYSIS)"
    by (rule not_picked [where P = "old_analysis ?d"]) (use keys assms(3) [where s = T_ANALYSIS] held_not_old(4) [OF assms(2)] in auto)
  then have r: "filter (\<lambda>r. an_contact r = c) (analyses (ar_db ?a)) = filter (\<lambda>r. an_contact r = c) (analyses ?d)"
    unfolding purge_of_def by (simp, intro filter_update_keeps) auto
  have "\<forall>r \<in> set (ar_audits a). au_entity (st_row r) = Some c \<longrightarrow> st_id r \<notin> set (P T_AUDIT)"
    by (rule not_picked [where P = "old_audit ?d"]) (use keys assms(3) [where s = T_AUDIT] held_not_old(5) [OF assms(2)] in auto)
  then have u: "filter (\<lambda>r. au_entity (st_row r) = Some c) (ar_audits ?a) = filter (\<lambda>r. au_entity (st_row r) = Some c) (ar_audits a)"
    unfolding purge_of_def by (simp, intro filter_without_keeps) auto
  have "get_contact c (ar_db ?a) = get_contact c ?d"
  proof (cases "get_contact c ?d")
    case None
    then show ?thesis by (simp add: get_contact_def purge_of_def get_update_where)
  next
    case (Some q)
    then have q: "q \<in> set (contacts ?d)" "c_id q = c" by (auto simp: get_contact_def dest: get_row_SomeD)
    have "c \<notin> set (P T_CONTACTS)"
    proof
      assume "c \<in> set (P T_CONTACTS)"
      then obtain cutoff where "c \<in> set (map c_id (filter (old_contact ?d cutoff) (contacts ?d)))" using assms(3) [of c T_CONTACTS] by auto
      then have "old_contact ?d cutoff q" using candidate_is [of c_id "contacts ?d" q] keys q by blast
      then show False using held_contact_row [OF assms(2) _ Some] keys by blast
    qed
    then show ?thesis using Some q by (simp add: get_contact_def purge_of_def get_update_where)
  qed
  then show ?thesis unfolding covered_def joins m s n r u by simp
qed

definition started :: "retention_env \<Rightarrow> archive \<Rightarrow> archive" where
  "started w a = a\<lparr> ar_runs := ar_runs a @ [new_run w] \<rparr>"

lemma started_sel [simp]: "ar_db (started w a) = ar_db a" "ar_messages (started w a) = ar_messages a" "ar_snapshots (started w a) = ar_snapshots a"
  "ar_audits (started w a) = ar_audits a" "ar_processed (started w a) = ar_processed a" "archive_keys (started w a) = archive_keys a"
  "covered c (started w a) = covered c a"
  by (simp_all add: started_def archive_keys_def covered_def)

lemma started_candidates [simp]: "step_candidates s cutoff (re_run w) (started w a) = step_candidates s cutoff (re_run w) a"
  by (cases s) (simp_all add: started_def new_run_def)

lemma finish_sel [simp]: "ar_db (finish_run w r a) = ar_db a" "ar_messages (finish_run w r a) = ar_messages a"
  "ar_snapshots (finish_run w r a) = ar_snapshots a" "ar_processed (finish_run w r a) = ar_processed a"
  by (simp_all add: finish_run_def)

lemma run_purges:
  assumes "run_retention w a = (res, a')"
  obtains a2 r where "a' = finish_run w r a2" "purged (re_config w) (re_now w) (re_run w) (started w a) a2"
    "\<not> (re_lock w \<and> re_apply w) \<Longrightarrow> a2 = started w a"
    "\<And>r'. res = Inr r' \<Longrightarrow> r' = r \<and> run_steps w retention_steps 0 empty_result (started w a) = (r, a2)"
proof (cases "re_lock w")
  case True
  obtain r a2 where rs: "run_steps w retention_steps 0 empty_result (started w a) = (r, a2)" by (metis surj_pair)
  have "res = Inr r" "a' = finish_run w r a2" using assms True rs by (simp_all add: run_retention_def Let_def started_def [symmetric])
  then show ?thesis using that [of r a2] run_steps_purges [OF rs purged.none] rs True by blast
next
  case False
  let ?r = "empty_result\<lparr> rs_status := ''failed'', rs_error := Some ''lock_held'' \<rparr>"
  have "res = Inl ()" "a' = finish_run w ?r (started w a)" using assms False by (simp_all add: run_retention_def Let_def started_def [symmetric])
  then show ?thesis using that [of ?r "started w a"] purged.none False by blast
qed

lemma run_closed:
  assumes "run_retention w a = (res, a')"
  obtains P r where "a' = finish_run w r (purge_of P (re_now w) (started w a))"
    "\<And>s i. i \<in> set (P s) \<Longrightarrow> \<exists>days. retention_days (re_config w) s = Some days \<and> i \<in> set (step_candidates s (cutoff_of (re_now w) days) (re_run w) a)"
    "\<not> (re_lock w \<and> re_apply w) \<Longrightarrow> purge_of P (re_now w) (started w a) = started w a"
proof -
  obtain a2 r where a2: "a' = finish_run w r a2" "purged (re_config w) (re_now w) (re_run w) (started w a) a2"
    "\<not> (re_lock w \<and> re_apply w) \<Longrightarrow> a2 = started w a" by (rule run_purges [OF assms]) (rule that)
  from purged_closed [OF a2(2)] obtain P where P: "a2 = purge_of P (re_now w) (started w a)"
    "\<And>s i. i \<in> set (P s) \<Longrightarrow> \<exists>days. retention_days (re_config w) s = Some days \<and>
       i \<in> set (step_candidates s (cutoff_of (re_now w) days) (re_run w) a)" by auto
  show thesis
  proof (rule that)
    show "a' = finish_run w r (purge_of P (re_now w) (started w a))" using a2(1) P(1) by simp
    show "\<not> (re_lock w \<and> re_apply w) \<Longrightarrow> purge_of P (re_now w) (started w a) = started w a" using a2(3) P(1) by simp
  qed (rule P(2))
qed

section \<open>Legal holds\<close>

text \<open>
  C12: whatever is configured, and however a run ends (complete, out of time, by an exception or without the lock), of a
  contact under a legal hold (its own or its campaign's) these are not changed: its row, its transcript, its sessions, its
  working memory, its analyses and the audit rows whose entity is the contact; and no audit row whose entity is a campaign
  under a hold is deleted. Audit rows whose entity is a call or an analysis of the contact are not among them: the code
  deletes those (\<open>held_call_audits_purged\<close>).
\<close>

theorem retention_respects_holds:
  assumes "run_retention w a = (res, a')" "archive_keys a"
  shows "(held_contact (ar_db a) c \<and> re_run w \<noteq> c \<longrightarrow> covered c a' = covered c a) \<and>
    (\<forall>u \<in> set (ar_audits a). \<forall>e. au_entity (st_row u) = Some e \<and> (held_contact (ar_db a) e \<or> held_campaign (ar_db a) e) \<longrightarrow>
       u \<in> set (ar_audits a'))"
proof -
  obtain P r where P: "a' = finish_run w r (purge_of P (re_now w) (started w a))"
    "\<And>s i. i \<in> set (P s) \<Longrightarrow> \<exists>days. retention_days (re_config w) s = Some days \<and> i \<in> set (step_candidates s (cutoff_of (re_now w) days) (re_run w) a)"
    by (rule run_closed [OF assms(1)]) (rule that)
  have "covered c a' = covered c a" if "held_contact (ar_db a) c" "re_run w \<noteq> c"
  proof -
    have "covered c (purge_of P (re_now w) (started w a)) = covered c (started w a)"
      by (rule purge_of_held [where run = "re_run w"]) (use assms(2) that P(2) in \<open>simp_all, blast\<close>)
    moreover have "covered c a' = covered c (purge_of P (re_now w) (started w a))"
      using that(2) by (simp add: P(1) covered_def) (simp add: finish_run_def)
    ultimately show ?thesis by simp
  qed
  moreover have "u \<in> set (ar_audits a')"
    if u: "u \<in> set (ar_audits a)" "au_entity (st_row u) = Some e" "held_contact (ar_db a) e \<or> held_campaign (ar_db a) e" for u e
  proof -
    have "st_id u \<notin> set (P T_AUDIT)"
    proof
      assume "st_id u \<in> set (P T_AUDIT)"
      then obtain days where "st_id u \<in> set (map st_id (filter (old_audit (ar_db a) (cutoff_of (re_now w) days)) (ar_audits a)))"
        using P(2) by fastforce
      then have "old_audit (ar_db a) (cutoff_of (re_now w) days) u"
        using assms(2) u(1) candidate_is [of st_id "ar_audits a" u] by (auto simp: archive_keys_def)
      then show False using u(2,3) by (auto simp: old_audit_def)
    qed
    then show ?thesis using u(1) by (auto simp: P(1) finish_run_def purge_of_def without_def)
  qed
  ultimately show ?thesis by blast
qed

text \<open>An old audit row about a call of a contact under a hold is deleted with the others: the query compares the entity
  with the ids of contacts and campaigns only.\<close>

lemma held_call_audits_purged:
  assumes "u \<in> set (ar_audits a)" "st_at u < cutoff" "au_entity (st_row u) = Some t" "\<forall>c \<in> set (contacts (ar_db a)). c_id c \<noteq> t"
    "\<forall>p \<in> set (campaigns (ar_db a)). camp_id p \<noteq> t"
  shows "st_id u \<in> set (step_candidates T_AUDIT cutoff run a)"
  using assms by (auto simp: old_audit_def held_contact_def held_campaign_def list_ex_iff)

section \<open>Only what is due\<close>

definition past_period :: "retention_env \<Rightarrow> retention_step \<Rightarrow> instant \<Rightarrow> bool" where
  "past_period w s t \<longleftrightarrow> (\<exists>days. step_setting (re_config w) s = Some days \<and> days \<noteq> 0 \<and> t < re_now w - seconds (86400 * days))"

lemma past_periodI: "retention_days (re_config w) s = Some days \<Longrightarrow> t < cutoff_of (re_now w) days \<Longrightarrow> past_period w s t"
  by (auto simp: past_period_def retention_days_def cutoff_of_def split: option.splits if_splits)

definition log_keys :: "archive \<Rightarrow> bool" where
  "log_keys a \<longleftrightarrow> keys_distinct st_id (ar_processed a) \<and> keys_distinct rr_id (ar_runs a)"

lemma old_contactD:
  assumes "old_contact d cutoff c"
  shows "\<not> c_legal_hold c" "\<exists>p t. get_campaign (c_campaign c) d = Some p \<and> camp_status p = CAMP_COMPLETED \<and> camp_closed_at p = Some t \<and>
    t < cutoff \<and> \<not> camp_legal_hold p"
  using assms by (auto simp: old_contact_def lt_opt_def split: option.splits)

text \<open>A row that a step picked is one its query selects.\<close>

lemma picked_row:
  assumes "i \<in> set p" "\<And>i. i \<in> set p \<Longrightarrow> \<exists>days. D days \<and> i \<in> set (map key (filter (Q days) rows))" "keys_distinct key rows" "r \<in> set rows" "key r = i"
  shows "\<exists>days. D days \<and> Q days r"
  using assms candidate_is [OF assms(3,4)] by blast

lemma removed_row: "r \<in> set rows \<Longrightarrow> r \<notin> set (without p rows) \<Longrightarrow> st_id r \<in> set p"
  by (simp add: without_def)

lemma updated_row:
  assumes "get_row key i rows = Some r" "\<And>r. key (f r) = key r"
  shows "get_row key i (update_where (\<lambda>r. key r \<in> set p) f rows) = Some (if i \<in> set p then f r else r)"
  using assms by (auto simp: get_update_where dest: get_row_key)

text \<open>
  C35: a run that was given distinct row ids deletes or scrubs only what is past the retention period of its class, the
  class being enabled, and not under a hold: a turn, whose call has no open analysis; the link of a session; the content
  of a snapshot of the memory; the free text of a finished analysis; the number of a contact of a campaign closed
  for so long; an audit row; a processed event; the row of an earlier run. Nothing else changes, and nothing is added but
  the run and its audit row; a dry run, or a run without the lock, changes none of the data.
\<close>

theorem retention_removes_only_due:
  assumes "run_retention w a = (res, a')" "archive_keys a" "log_keys a"
  shows "(\<forall>m \<in> set (ar_messages a) - set (ar_messages a'). past_period w T_MESSAGES (st_at m) \<and>
       (\<exists>t. attempt_of_session (ar_db a) (m_session (st_row m)) = Some t \<and> \<not> held_contact (ar_db a) (a_contact t) \<and> \<not> open_analysis (ar_db a) (a_id t))) \<and>
    (\<forall>i s. get_row cs_id i (sessions (ar_db a)) = Some s \<longrightarrow> get_row cs_id i (sessions (ar_db a')) = Some s \<or>
       get_row cs_id i (sessions (ar_db a')) = Some (s\<lparr> cs_transcript_url := None \<rparr>) \<and> past_period w T_LINKS (cs_started_at s) \<and> free_attempt (ar_db a) (cs_attempt s)) \<and>
    (\<forall>i s. get_row st_id i (ar_snapshots a) = Some s \<longrightarrow> get_row st_id i (ar_snapshots a') = Some s \<or>
       get_row st_id i (ar_snapshots a') = Some (s\<lparr> st_row := scrubbed_snapshot (st_row s) \<rparr>) \<and> past_period w T_SNAPSHOTS (st_at s) \<and>
       free_attempt (ar_db a) (sn_attempt (st_row s))) \<and>
    (\<forall>i r. get_row an_id i (analyses (ar_db a)) = Some r \<longrightarrow> get_row an_id i (analyses (ar_db a')) = Some r \<or>
       get_row an_id i (analyses (ar_db a')) = Some (scrubbed_analysis r) \<and> past_period w T_ANALYSIS (an_created_at r) \<and>
       terminal_analysis (an_status r) \<and> \<not> held_contact (ar_db a) (an_contact r)) \<and>
    (\<forall>i c. get_contact i (ar_db a) = Some c \<longrightarrow> get_contact i (ar_db a') = Some c \<or>
       get_contact i (ar_db a') = Some (scrubbed_contact (re_now w) c) \<and> \<not> c_legal_hold c \<and>
       (\<exists>p t. get_campaign (c_campaign c) (ar_db a) = Some p \<and> camp_status p = CAMP_COMPLETED \<and> camp_closed_at p = Some t \<and>
          past_period w T_CONTACTS t \<and> \<not> camp_legal_hold p)) \<and>
    (\<forall>u \<in> set (ar_audits a) - set (ar_audits a'). past_period w T_AUDIT (st_at u) \<and>
       (\<forall>e. au_entity (st_row u) = Some e \<longrightarrow> \<not> held_contact (ar_db a) e \<and> \<not> held_campaign (ar_db a) e)) \<and>
    (\<forall>e \<in> set (ar_processed a) - set (ar_processed a'). past_period w T_PROCESSED (pe_received_at (st_row e))) \<and>
    (\<forall>q \<in> set (ar_runs a) - set (ar_runs a'). rr_id q \<noteq> re_run w \<longrightarrow> past_period w T_RUNS (rr_started q)) \<and>
    (\<exists>u. set (ar_audits a') \<subseteq> insert u (set (ar_audits a))) \<and> set (ar_messages a') \<subseteq> set (ar_messages a) \<and> set (ar_processed a') \<subseteq> set (ar_processed a) \<and>
    (\<exists>ss rs cs. ar_db a' = (ar_db a)\<lparr> sessions := ss, analyses := rs, contacts := cs \<rparr> \<and> map cs_id ss = map cs_id (sessions (ar_db a)) \<and>
       map an_id rs = map an_id (analyses (ar_db a)) \<and> map c_id cs = map c_id (contacts (ar_db a))) \<and>
    (\<not> (re_lock w \<and> re_apply w) \<longrightarrow> ar_db a' = ar_db a \<and> ar_messages a' = ar_messages a \<and> ar_snapshots a' = ar_snapshots a \<and>
       ar_processed a' = ar_processed a \<and> (\<exists>u. ar_audits a' = ar_audits a @ [u]))"
proof -
  obtain P r where P: "a' = finish_run w r (purge_of P (re_now w) (started w a))"
    "\<And>s i. i \<in> set (P s) \<Longrightarrow> \<exists>days. retention_days (re_config w) s = Some days \<and> i \<in> set (step_candidates s (cutoff_of (re_now w) days) (re_run w) a)"
    "\<not> (re_lock w \<and> re_apply w) \<Longrightarrow> purge_of P (re_now w) (started w a) = started w a"
    by (rule run_closed [OF assms(1)]) (rule that)
  note keys = assms(2,3) [unfolded archive_keys_def log_keys_def]
  note step = P(2) [where s = T_MESSAGES, unfolded step_candidates.simps] P(2) [where s = T_LINKS, unfolded step_candidates.simps]
    P(2) [where s = T_SNAPSHOTS, unfolded step_candidates.simps] P(2) [where s = T_ANALYSIS, unfolded step_candidates.simps]
    P(2) [where s = T_CONTACTS, unfolded step_candidates.simps] P(2) [where s = T_AUDIT, unfolded step_candidates.simps]
    P(2) [where s = T_PROCESSED, unfolded step_candidates.simps] P(2) [where s = T_RUNS, unfolded step_candidates.simps]
  let ?D = "\<lambda>s days. retention_days (re_config w) s = Some days"
  have tables: "ar_messages a' = without (P T_MESSAGES) (ar_messages a)" "ar_processed a' = without (P T_PROCESSED) (ar_processed a)"
    "sessions (ar_db a') = update_where (\<lambda>s. cs_id s \<in> set (P T_LINKS)) (\<lambda>s. s\<lparr> cs_transcript_url := None \<rparr>) (sessions (ar_db a))"
    "ar_snapshots a' = update_where (\<lambda>s. st_id s \<in> set (P T_SNAPSHOTS)) (\<lambda>s. s\<lparr> st_row := scrubbed_snapshot (st_row s) \<rparr>) (ar_snapshots a)"
    "analyses (ar_db a') = update_where (\<lambda>r. an_id r \<in> set (P T_ANALYSIS)) scrubbed_analysis (analyses (ar_db a))"
    "contacts (ar_db a') = update_where (\<lambda>c. c_id c \<in> set (P T_CONTACTS)) (scrubbed_contact (re_now w)) (contacts (ar_db a))"
    "\<exists>u. ar_audits a' = without (P T_AUDIT) (ar_audits a) @ [u]"
    by (simp_all add: P(1) purge_of_def) (simp_all add: finish_run_def)
  have msg: "past_period w T_MESSAGES (st_at m) \<and> (\<exists>t. attempt_of_session (ar_db a) (m_session (st_row m)) = Some t \<and>
      \<not> held_contact (ar_db a) (a_contact t) \<and> \<not> open_analysis (ar_db a) (a_id t))" if m: "m \<in> set (ar_messages a) - set (ar_messages a')" for m
  proof -
    have "\<exists>days. ?D T_MESSAGES days \<and> old_message (ar_db a) (cutoff_of (re_now w) days) m"
      by (rule picked_row [OF _ step(1)]) (use m keys tables(1) removed_row in auto)
    then show ?thesis by (auto simp: old_message_def intro: past_periodI split: option.splits)
  qed
  have link: "get_row cs_id i (sessions (ar_db a')) = Some s \<or> get_row cs_id i (sessions (ar_db a')) = Some (s\<lparr> cs_transcript_url := None \<rparr>) \<and>
      past_period w T_LINKS (cs_started_at s) \<and> free_attempt (ar_db a) (cs_attempt s)" if s: "get_row cs_id i (sessions (ar_db a)) = Some s" for i s
  proof (cases "i \<in> set (P T_LINKS)")
    case True
    have "\<exists>days. ?D T_LINKS days \<and> old_link (ar_db a) (cutoff_of (re_now w) days) s"
      by (rule picked_row [OF True step(2)]) (use s keys in \<open>auto dest: get_row_SomeD\<close>)
    then show ?thesis using s True by (auto simp: tables updated_row old_link_def intro: past_periodI)
  qed (use s in \<open>simp add: tables updated_row\<close>)
  have snap: "get_row st_id i (ar_snapshots a') = Some s \<or> get_row st_id i (ar_snapshots a') = Some (s\<lparr> st_row := scrubbed_snapshot (st_row s) \<rparr>) \<and>
      past_period w T_SNAPSHOTS (st_at s) \<and> free_attempt (ar_db a) (sn_attempt (st_row s))" if s: "get_row st_id i (ar_snapshots a) = Some s" for i s
  proof (cases "i \<in> set (P T_SNAPSHOTS)")
    case True
    have "\<exists>days. ?D T_SNAPSHOTS days \<and> old_snapshot (ar_db a) (cutoff_of (re_now w) days) s"
      by (rule picked_row [OF True step(3)]) (use s keys in \<open>auto dest: get_row_SomeD\<close>)
    then show ?thesis using s True by (auto simp: tables updated_row old_snapshot_def intro: past_periodI)
  qed (use s in \<open>simp add: tables updated_row\<close>)
  have ana: "get_row an_id i (analyses (ar_db a')) = Some q \<or> get_row an_id i (analyses (ar_db a')) = Some (scrubbed_analysis q) \<and>
      past_period w T_ANALYSIS (an_created_at q) \<and> terminal_analysis (an_status q) \<and> \<not> held_contact (ar_db a) (an_contact q)"
    if q: "get_row an_id i (analyses (ar_db a)) = Some q" for i q
  proof (cases "i \<in> set (P T_ANALYSIS)")
    case True
    have "\<exists>days. ?D T_ANALYSIS days \<and> old_analysis (ar_db a) (cutoff_of (re_now w) days) q"
      by (rule picked_row [OF True step(4)]) (use q keys in \<open>auto dest: get_row_SomeD\<close>)
    then show ?thesis using q True by (auto simp: tables updated_row old_analysis_def intro: past_periodI)
  qed (use q in \<open>simp add: tables updated_row\<close>)
  have con: "get_contact i (ar_db a') = Some c \<or> get_contact i (ar_db a') = Some (scrubbed_contact (re_now w) c) \<and> \<not> c_legal_hold c \<and>
      (\<exists>p t. get_campaign (c_campaign c) (ar_db a) = Some p \<and> camp_status p = CAMP_COMPLETED \<and> camp_closed_at p = Some t \<and>
         past_period w T_CONTACTS t \<and> \<not> camp_legal_hold p)" if c: "get_contact i (ar_db a) = Some c" for i c
  proof (cases "i \<in> set (P T_CONTACTS)")
    case True
    have "\<exists>days. ?D T_CONTACTS days \<and> old_contact (ar_db a) (cutoff_of (re_now w) days) c"
      by (rule picked_row [OF True step(5)]) (use c keys in \<open>auto simp: get_contact_def dest: get_row_SomeD\<close>)
    then obtain days where days: "?D T_CONTACTS days" "old_contact (ar_db a) (cutoff_of (re_now w) days) c" by blast
    have "get_contact i (ar_db a') = Some (scrubbed_contact (re_now w) c)" using c True by (simp add: get_contact_def tables updated_row)
    then show ?thesis using old_contactD [OF days(2)] past_periodI [OF days(1)] by blast
  qed (use c in \<open>simp add: get_contact_def tables updated_row\<close>)
  have aud: "past_period w T_AUDIT (st_at u) \<and> (\<forall>e. au_entity (st_row u) = Some e \<longrightarrow> \<not> held_contact (ar_db a) e \<and> \<not> held_campaign (ar_db a) e)"
    if u: "u \<in> set (ar_audits a) - set (ar_audits a')" for u
  proof -
    have "\<exists>days. ?D T_AUDIT days \<and> old_audit (ar_db a) (cutoff_of (re_now w) days) u"
      by (rule picked_row [OF _ step(6)]) (use u keys tables(7) removed_row in auto)
    then show ?thesis by (auto simp: old_audit_def intro: past_periodI split: option.splits)
  qed
  have pro: "past_period w T_PROCESSED (pe_received_at (st_row e))" if e: "e \<in> set (ar_processed a) - set (ar_processed a')" for e
  proof -
    have "\<exists>days. ?D T_PROCESSED days \<and> pe_received_at (st_row e) < cutoff_of (re_now w) days"
      by (rule picked_row [OF _ step(7)]) (use e keys tables(2) removed_row in auto)
    then show ?thesis by (auto intro: past_periodI)
  qed
  have run: "past_period w T_RUNS (rr_started q)" if q: "q \<in> set (ar_runs a) - set (ar_runs a')" "rr_id q \<noteq> re_run w" for q
  proof -
    have "rr_id q \<in> set (P T_RUNS)" using q by (auto simp: P(1) finish_run_def purge_of_def started_def upd_row_def image_iff)
    then have "\<exists>days. ?D T_RUNS days \<and> rr_started q < cutoff_of (re_now w) days \<and> rr_id q \<noteq> re_run w"
      by (rule picked_row [OF _ step(8)]) (use q keys in auto)
    then show ?thesis by (auto intro: past_periodI)
  qed
  have grow: "(\<exists>u. set (ar_audits a') \<subseteq> insert u (set (ar_audits a)))" "set (ar_messages a') \<subseteq> set (ar_messages a)" "set (ar_processed a') \<subseteq> set (ar_processed a)"
    using tables(7) by (auto simp: tables(1,2) without_def)
  have same: "\<exists>ss rs cs. ar_db a' = (ar_db a)\<lparr> sessions := ss, analyses := rs, contacts := cs \<rparr> \<and> map cs_id ss = map cs_id (sessions (ar_db a)) \<and>
       map an_id rs = map an_id (analyses (ar_db a)) \<and> map c_id cs = map c_id (contacts (ar_db a))"
    by (rule exI, rule exI, rule exI, rule conjI) (simp add: P(1), simp add: purge_of_def, simp add: update_where_def)
  have dry: "\<not> (re_lock w \<and> re_apply w) \<Longrightarrow> ar_db a' = ar_db a \<and> ar_messages a' = ar_messages a \<and> ar_snapshots a' = ar_snapshots a \<and>
       ar_processed a' = ar_processed a \<and> (\<exists>u. ar_audits a' = ar_audits a @ [u])"
    using P(3) by (simp add: P(1)) (simp add: finish_run_def)
  show ?thesis by (intro ballI allI impI msg link snap ana con aud pro run grow same dry conjI)
qed

lemma purge_loop_done:
  assumes "\<forall>n. re_ticks w n < rc_max_runtime (re_config w) \<and> \<not> re_fails w n"
  shows "fst (purge_loop w s cutoff n count a) = STEP_DONE"
  using assms
proof (induction w s cutoff n count a rule: purge_loop.induct)
  case (1 w s cutoff n count a)
  show ?case
  proof (cases "take (rc_batch (re_config w)) (step_candidates s cutoff (re_run w) a) = []")
    case True
    then show ?thesis using "1.prems" [rule_format, of n] by (subst purge_loop.simps) (simp add: Let_def)
  next
    case False
    let ?picked = "take (rc_batch (re_config w)) (step_candidates s cutoff (re_run w) a)"
    have t: "\<not> rc_max_runtime (re_config w) \<le> re_ticks w n" "\<not> re_fails w n" using "1.prems" by (simp_all add: not_le)
    have "fst (purge_loop w s cutoff (Suc n) (count + length ?picked) (step_apply s ?picked (re_now w) a)) = STEP_DONE"
      by (rule "1.IH" [OF t(1) refl t(2) False "1.prems"])
    then show ?thesis using False "1.prems" [rule_format, of n] by (subst purge_loop.simps) (simp add: Let_def del: take_eq_Nil)
  qed
qed

lemma run_steps_completes:
  assumes "\<forall>n. re_ticks w n < rc_max_runtime (re_config w) \<and> \<not> re_fails w n"
  shows "rs_status (fst (run_steps w ss n r a)) = ''completed''"
proof (induction ss arbitrary: n r a)
  case (Cons s ss)
  show ?case
  proof (cases "retention_days (re_config w) s")
    case None
    then show ?thesis using Cons by simp
  next
    case (Some days)
    obtain n' count a1 where "purge_loop w s (cutoff_of (re_now w) days) n 0 a = (STEP_DONE, n', count, a1)"
      using purge_loop_done [OF assms] by (metis prod.collapse)
    then show ?thesis using Some Cons assms by simp
  qed
qed simp

lemma finish_candidates:
  assumes "cutoff \<le> re_db_now w"
  shows "step_candidates s cutoff (re_run w) (finish_run w r a) = step_candidates s cutoff (re_run w) a"
proof (cases s)
  case T_RUNS
  have same: "map rr_id (filter (\<lambda>r. rr_started r < cutoff \<and> rr_id r \<noteq> re_run w) (upd_row rr_id (re_run w) f rows)) =
      map rr_id (filter (\<lambda>r. rr_started r < cutoff \<and> rr_id r \<noteq> re_run w) rows)" if "\<And>q. rr_id (f q) = rr_id q" for f rows
    using that by (induction rows) (auto simp: upd_row_def)
  show ?thesis unfolding T_RUNS by (simp add: finish_run_def) (rule same, simp)
qed (use assms in \<open>simp_all add: finish_run_def old_audit_def\<close>)


end
