(* ===== verification/Erasure.thy ===== *)
theory Erasure imports Retention Keyset Eligibility begin

text \<open>
  \<open>app/services/data_lifecycle/erasure.py\<close>: the erasure of one person's data across every contact with the
  number, and its re-application after a restore. \<open>fp\<close> is \<open>erasure_fingerprint\<close> (a keyed hash of the standard library);
  the erasure log is beside the database. An error leaves the transaction to the caller, which rolls it back.
\<close>

section \<open>Scrubbing\<close>

definition attempts_of :: "uuid list \<Rightarrow> db \<Rightarrow> uuid list" where
  "attempts_of picked d = map a_id (filter (\<lambda>a. a_contact a \<in> set picked) (attempts d))"

definition sessions_of :: "uuid list \<Rightarrow> db \<Rightarrow> uuid list" where
  "sessions_of picked d = map cs_id (filter (\<lambda>s. cs_attempt s \<in> set (attempts_of picked d)) (sessions d))"

definition scrub_content :: "uuid list \<Rightarrow> db \<Rightarrow> (string \<times> nat) list \<times> db" where
  "scrub_content picked d =
    (let as = attempts_of picked d; ss = sessions_of picked d;
         snap = (\<lambda>n. sn_attempt n \<in> set as \<and> snapshot_content n);
         ana = (\<lambda>r. an_contact r \<in> set picked \<and> analysis_content r)
     in ([(''messages'', count_where (\<lambda>m. m_session m \<in> set ss) (messages d)), (''snapshots'', count_where snap (snapshots d)),
          (''analyses'', count_where ana (analyses d))],
         d\<lparr> messages := filter (\<lambda>m. m_session m \<notin> set ss) (messages d),
           sessions := update_where (\<lambda>s. cs_id s \<in> set ss) (\<lambda>s. s\<lparr> cs_transcript_url := None \<rparr>) (sessions d),
           snapshots := update_where snap scrubbed_snapshot (snapshots d),
           analyses := update_where ana scrubbed_analysis (analyses d) \<rparr>))"

definition scrub_contact_rows :: "uuid list \<Rightarrow> instant \<Rightarrow> db \<Rightarrow> nat \<times> db" where
  "scrub_contact_rows picked now d =
    (let d1 = scrub_contacts picked now d
     in (count_where (\<lambda>c. c_id c \<in> set picked) (contacts d),
         d1\<lparr> contacts := update_where (\<lambda>c. c_id c \<in> set picked \<and> c_status c \<notin> {C_COMPLETED, C_COMPLETED_PARTIAL, C_CLOSED})
           (\<lambda>c. c\<lparr> c_status := C_CLOSED \<rparr>) (contacts d1) \<rparr>))"

section \<open>Erasure\<close>

record erasure_row =
  el_id :: uuid
  el_fingerprint :: string
  el_actor :: string
  el_reason :: "string option"
  el_counts :: "(string \<times> nat) list"

record erasure_result =
  er_counts :: "(string \<times> nat) list"
  er_prefix :: "string option"
  er_last4 :: "string option"
  er_already :: bool
  er_suppressed :: bool

definition is_placeholder :: "string \<Rightarrow> bool" where
  "is_placeholder n \<longleftrightarrow> take 7 n = ''purged:''"

text \<open>The number to erase; \<open>Inr None\<close>: already erased.\<close>

definition erasure_target :: "'p env \<Rightarrow> string option \<Rightarrow> uuid option \<Rightarrow> db \<Rightarrow> app_error + string option" where
  "erasure_target w phone contact d =
    (if (phone = None) = (contact = None) then Inl (ValidationError ''Provide exactly one of phone_number or contact_id'')
     else case contact of
       Some i \<Rightarrow> (case get_contact i d of
          None \<Rightarrow> Inl NotFoundError
        | Some c \<Rightarrow> if c_purged_at c \<noteq> None \<or> is_placeholder (c_number c) then Inr None
                    else Inr (Some (canonical_number w (c_number c))))
     | None \<Rightarrow> (case normalize_phone w phone (st_default_region (ev_settings w)) None of
          Inl e \<Rightarrow> Inl (ValidationError (''Invalid phone number ('' @ phone_error_code e @ '')''))
        | Inr np \<Rightarrow> Inr (Some (np_e164 np))))"

definition contacts_with :: "string \<Rightarrow> db \<Rightarrow> uuid list" where
  "contacts_with number d = map c_id (filter (\<lambda>c. c_number c = number) (contacts d))"

definition held_message :: "nat \<Rightarrow> string" where
  "held_message n = ''Erasure refused: '' @ int_text (int n) @
    '' covered record(s) are under legal hold. Clear the hold deliberately, then retry. Nothing was changed.''"

definition erase_number :: "'p env \<Rightarrow> (string \<Rightarrow> string) \<Rightarrow> string \<Rightarrow> instant \<Rightarrow> uuid \<Rightarrow> uuid \<Rightarrow> string option \<Rightarrow> bool \<Rightarrow> string \<Rightarrow>
    db \<times> erasure_row list \<Rightarrow> app_error + (erasure_result \<times> db \<times> erasure_row list)" where
  "erase_number w fp actor now sup_id log_id reason suppress e164 s =
    (case s of (d, entries) \<Rightarrow>
      let found = contacts_with e164 d; held = length (filter (held_contact d) found) in
      if found \<noteq> [] \<and> held \<noteq> 0 then Inl (ConflictError (held_message held))
      else case (if found = [] then ([(''messages'', 0), (''snapshots'', 0), (''analyses'', 0)], d) else scrub_content found d) of
        (counts, d1) \<Rightarrow>
      case (if found = [] then (0, d1) else scrub_contact_rows found now d1) of
        (n, d2) \<Rightarrow>
      case (if suppress then insert_if_absent w now sup_id e164 SUP_MANUAL_API (Some ''erasure_request'') None (Some actor) d2 else (None, d2)) of
        (added, d3) \<Rightarrow>
      let all = (''contacts'', n) # counts @ [(''suppression_added'', if added = None then 0 else 1)] in
      Inr (\<lparr> er_counts = all, er_prefix = Some (take 16 (fp e164)), er_last4 = Some (last4 e164), er_already = False,
             er_suppressed = (added \<noteq> None) \<rparr>,
           record_audit_event actor ''data.erasure'' ''erasure_log'' (Some log_id)
             [(''fingerprint'', JStr (take 16 (fp e164))), (''last4'', JStr (last4 e164)),
              (''counts'', JObj (map (\<lambda>(k, n). (k, JInt (int n))) all))] d3,
           entries @ [\<lparr> el_id = log_id, el_fingerprint = fp e164, el_actor = actor, el_reason = reason, el_counts = all \<rparr>]))"

definition erase :: "'p env \<Rightarrow> (string \<Rightarrow> string) \<Rightarrow> string \<Rightarrow> instant \<Rightarrow> uuid \<Rightarrow> uuid \<Rightarrow> string option \<Rightarrow> uuid option \<Rightarrow> string option \<Rightarrow>
    bool \<Rightarrow> db \<times> erasure_row list \<Rightarrow> app_error + (erasure_result \<times> db \<times> erasure_row list)" where
  "erase w fp actor now sup_id log_id phone contact reason suppress s =
    (case erasure_target w phone contact (fst s) of
       Inl e \<Rightarrow> Inl e
     | Inr None \<Rightarrow> Inr (\<lparr> er_counts = [(''contacts'', 0)], er_prefix = None, er_last4 = None, er_already = True, er_suppressed = False \<rparr>, s)
     | Inr (Some e164) \<Rightarrow> erase_number w fp actor now sup_id log_id reason suppress e164 s)"

section \<open>After a restore\<close>

record reapply_report =
  ra_fingerprints :: nat
  ra_scanned :: nat
  ra_matched :: nat
  ra_scrubbed :: nat
  ra_held :: nat
  ra_missing :: nat
  ra_applied :: bool

definition unpurged :: "db \<Rightarrow> contact list" where
  "unpurged d = filter (\<lambda>c. c_purged_at c = None) (contacts d)"

definition logged :: "'p env \<Rightarrow> (string \<Rightarrow> string) \<Rightarrow> string list \<Rightarrow> string \<Rightarrow> bool" where
  "logged w fp prints number = (fp (canonical_number w number) \<in> set prints)"

definition scrub_free :: "uuid list \<Rightarrow> instant \<Rightarrow> db \<Rightarrow> db" where
  "scrub_free free now d = snd (scrub_contact_rows free now (snd (scrub_content free d)))"

definition erased_contact :: "instant \<Rightarrow> contact \<Rightarrow> contact" where
  "erased_contact now c = c\<lparr> c_phone := purge_placeholder (c_id c), c_number := purge_placeholder (c_id c), c_purged_at := Some now,
     c_status := (if c_status c \<in> {C_COMPLETED, C_COMPLETED_PARTIAL, C_CLOSED} then c_status c else C_CLOSED) \<rparr>"

lemma erased_contact_sel [simp]: "c_id (erased_contact now c) = c_id c" "c_purged_at (erased_contact now c) = Some now"
  "c_campaign (erased_contact now c) = c_campaign c" "c_legal_hold (erased_contact now c) = c_legal_hold c"
  "c_number (erased_contact now c) = purge_placeholder (c_id c)" "c_phone (erased_contact now c) = purge_placeholder (c_id c)"
  "c_status (erased_contact now c) \<in> {C_COMPLETED, C_COMPLETED_PARTIAL, C_CLOSED}"
  "erased_contact now (erased_contact now c) = erased_contact now c"
  by (simp_all add: erased_contact_def)

lemma contacts_scrub_rows: "contacts (snd (scrub_contact_rows free now d)) = update_where (\<lambda>c. c_id c \<in> set free) (erased_contact now) (contacts d)"
  by (auto simp: scrub_contact_rows_def scrub_contacts_def Let_def update_where_def erased_contact_def scrubbed_contact_def)

lemma contacts_scrub_free: "contacts (scrub_free free now d) = update_where (\<lambda>c. c_id c \<in> set free) (erased_contact now) (contacts d)"
  by (simp add: scrub_free_def contacts_scrub_rows) (simp add: scrub_content_def Let_def)

lemma filter_purged: "(\<And>c. c_purged_at (f c) \<noteq> None) \<Longrightarrow>
    filter (\<lambda>c. c_purged_at c = None) (update_where (\<lambda>c. c_id c \<in> F) f rows) = filter (\<lambda>c. c_id c \<notin> F) (filter (\<lambda>c. c_purged_at c = None) rows)"
  by (induction rows) (auto simp: update_where_def)

lemma unpurged_scrub_free: "unpurged (scrub_free free now d) = filter (\<lambda>c. c_id c \<notin> set free) (unpurged d)"
  unfolding unpurged_def contacts_scrub_free by (rule filter_purged) simp

lemma rest_scrub_free:
  "keyset_rest key after (filter Q rows) = filter Q (keyset_rest key after rows)"
  by (simp add: keyset_rest_def filter_sort [symmetric] conj_commute)

function reapply_pages :: "'p env \<Rightarrow> (string \<Rightarrow> string) \<Rightarrow> string list \<Rightarrow> instant \<Rightarrow> bool \<Rightarrow> nat \<Rightarrow> nat option \<Rightarrow> reapply_report \<Rightarrow> db \<Rightarrow>
    reapply_report \<times> db" where
  "reapply_pages w fp prints now apply sz after rep d =
    (let page = keyset_page c_id sz after (unpurged d) in
     if page = [] then (rep, d)
     else let matched = map c_id (filter (\<lambda>c. logged w fp prints (c_number c)) page);
              free = filter (\<lambda>i. \<not> held_contact d i) matched;
              rep1 = rep\<lparr> ra_scanned := ra_scanned rep + length page, ra_matched := ra_matched rep + length matched,
                ra_held := ra_held rep + (length matched - length free), ra_scrubbed := ra_scrubbed rep + length free \<rparr>
          in reapply_pages w fp prints now apply sz (Some (c_id (last page))) rep1 (if apply then scrub_free free now d else d))"
  by pat_completeness auto

termination
proof (relation "measure (\<lambda>(w, fp, prints, now, apply, sz, after, rep, d). length (keyset_rest c_id after (unpurged d)))", goal_cases)
  case (2 w fp prints now do_it sz after rep d page matched free rep1)
  have "length (keyset_rest c_id (Some (c_id (last page))) (unpurged d)) < length (keyset_rest c_id after (unpurged d))"
    using keyset_rest_shrinks [of c_id sz after "unpurged d"] 2 by simp
  moreover have "length (keyset_rest c_id (Some (c_id (last page))) (unpurged (if do_it then scrub_free free now d else d)))
      \<le> length (keyset_rest c_id (Some (c_id (last page))) (unpurged d))"
    by (simp add: unpurged_scrub_free rest_scrub_free)
  ultimately show ?case by simp
qed simp

declare reapply_pages.simps [simp del]

definition reapply_erasures :: "'p env \<Rightarrow> (string \<Rightarrow> string) \<Rightarrow> instant \<Rightarrow> bool \<Rightarrow> nat \<Rightarrow> db \<times> erasure_row list \<Rightarrow> reapply_report \<times> db" where
  "reapply_erasures w fp now apply sz s =
    (case s of (d, entries) \<Rightarrow>
      let prints = remdups (map el_fingerprint entries);
          rep = \<lparr> ra_fingerprints = length prints, ra_scanned = 0, ra_matched = 0, ra_scrubbed = 0, ra_held = 0, ra_missing = 0,
                  ra_applied = apply \<rparr>
      in if prints = [] then (rep, d)
         else case reapply_pages w fp prints now apply sz None rep d of
           (rep1, d1) \<Rightarrow> (rep1\<lparr> ra_missing := count_where (\<lambda>p. p \<notin> set (map (\<lambda>s. fp (canonical_number w (s_number s))) (suppressions d1))) prints \<rparr>, d1))"

section \<open>What scrubbing does\<close>

text \<open>The rows that belong to the contacts in \<open>P\<close>, and the database in which these, and only these, are scrubbed: the numbers
  replaced, the turns deleted, the links removed, the working memory emptied and the free text of the analyses gone.\<close>

definition attempt_hit :: "(uuid \<Rightarrow> bool) \<Rightarrow> db \<Rightarrow> uuid \<Rightarrow> bool" where
  "attempt_hit P d t \<longleftrightarrow> (\<exists>a \<in> set (attempts d). a_id a = t \<and> P (a_contact a))"

definition session_hit :: "(uuid \<Rightarrow> bool) \<Rightarrow> db \<Rightarrow> uuid \<Rightarrow> bool" where
  "session_hit P d i \<longleftrightarrow> (\<exists>s \<in> set (sessions d). cs_id s = i \<and> attempt_hit P d (cs_attempt s))"

definition without_free_text :: "(string \<times> jval) list \<Rightarrow> (string \<times> jval) list" where
  "without_free_text = map (\<lambda>(k, v). (k, if k \<in> {''summary'', ''feedback''} then JNull
     else if k \<in> {''key_facts'', ''objections'', ''customer_needs''} then JList [] else v))"

definition scrubbed_db :: "(uuid \<Rightarrow> bool) \<Rightarrow> instant \<Rightarrow> db \<Rightarrow> db" where
  "scrubbed_db P now d = d\<lparr>
     contacts := map (\<lambda>c. if P (c_id c) then erased_contact now c else c) (contacts d),
     messages := filter (\<lambda>m. \<not> session_hit P d (m_session m)) (messages d),
     sessions := map (\<lambda>s. if session_hit P d (cs_id s) then s\<lparr> cs_transcript_url := None \<rparr> else s) (sessions d),
     snapshots := map (\<lambda>n. if attempt_hit P d (sn_attempt n)
       then n\<lparr> sn_entities := [], sn_objections := [], sn_last_utterance := None \<rparr> else n) (snapshots d),
     analyses := map (\<lambda>r. if P (an_contact r) then r\<lparr> an_output := without_free_text (an_output r) \<rparr> else r) (analyses d) \<rparr>"

lemma no_content: "\<not> snapshot_content n \<Longrightarrow> n\<lparr> sn_entities := [], sn_objections := [], sn_last_utterance := None \<rparr> = n"
  by (simp add: snapshot_content_def)

lemma scrub_fields: "map scrub_field fs = without_free_text fs"
  by (auto simp: without_free_text_def scrub_field_def text_columns_def list_columns_def)

lemma no_free_text: "\<not> analysis_content r \<Longrightarrow> r\<lparr> an_output := without_free_text (an_output r) \<rparr> = r"
  unfolding scrub_fields [symmetric] by (simp add: analysis_content_def list_ex_iff map_idI)

lemma hit_in: "attempt_hit (\<lambda>i. i \<in> set p) d t \<longleftrightarrow> t \<in> set (attempts_of p d)" "session_hit (\<lambda>i. i \<in> set p) d i \<longleftrightarrow> i \<in> set (sessions_of p d)"
proof -
  show t: "attempt_hit (\<lambda>i. i \<in> set p) d t \<longleftrightarrow> t \<in> set (attempts_of p d)" for t by (auto simp: attempt_hit_def attempts_of_def)
  show "session_hit (\<lambda>i. i \<in> set p) d i \<longleftrightarrow> i \<in> set (sessions_of p d)" by (auto simp: session_hit_def sessions_of_def t)
qed

lemma scrub_free_scrubbed: "scrub_free p now d = scrubbed_db (\<lambda>i. i \<in> set p) now d"
proof -
  have c: "contacts (scrub_free p now d) = contacts (scrubbed_db (\<lambda>i. i \<in> set p) now d)"
    by (simp add: contacts_scrub_free scrubbed_db_def update_where_def)
  have n: "snapshots (scrub_free p now d) = snapshots (scrubbed_db (\<lambda>i. i \<in> set p) now d)"
    using no_content by (auto simp: scrub_free_def scrub_contact_rows_def scrub_contacts_def scrub_content_def scrubbed_db_def Let_def
        update_where_def hit_in scrubbed_snapshot_def)
  have r: "analyses (scrub_free p now d) = analyses (scrubbed_db (\<lambda>i. i \<in> set p) now d)"
    using no_free_text by (auto simp: scrub_free_def scrub_contact_rows_def scrub_contacts_def scrub_content_def scrubbed_db_def Let_def
        update_where_def scrubbed_analysis_def scrub_fields)
  have "scrub_free p now d = (scrubbed_db (\<lambda>i. i \<in> set p) now d)\<lparr> contacts := contacts (scrub_free p now d), snapshots := snapshots (scrub_free p now d),
      analyses := analyses (scrub_free p now d) \<rparr>"
    by (simp add: scrub_free_def scrub_contact_rows_def scrub_contacts_def scrub_content_def scrubbed_db_def Let_def update_where_def hit_in)
  then show ?thesis unfolding c n r by simp
qed

lemma scrubbed_none: "scrubbed_db (\<lambda>i. False) now d = d"
  by (simp add: scrubbed_db_def session_hit_def attempt_hit_def)

lemma hit_or: "attempt_hit (\<lambda>i. P i \<or> Q i) d t \<longleftrightarrow> attempt_hit P d t \<or> attempt_hit Q d t"
    "session_hit (\<lambda>i. P i \<or> Q i) d i \<longleftrightarrow> session_hit P d i \<or> session_hit Q d i"
  by (auto simp: attempt_hit_def session_hit_def)

lemma hit_scrubbed: "attempt_hit Q (scrubbed_db P now d) = attempt_hit Q d" "session_hit Q (scrubbed_db P now d) = session_hit Q d"
proof -
  show a: "attempt_hit Q (scrubbed_db P now d) = attempt_hit Q d" by (simp add: fun_eq_iff attempt_hit_def scrubbed_db_def)
  have pairs: "session_hit Q x i \<longleftrightarrow> (\<exists>y \<in> set (map (\<lambda>s. (cs_id s, cs_attempt s)) (sessions x)). fst y = i \<and> attempt_hit Q x (snd y))" for x i
    by (simp add: session_hit_def)
  have "map (\<lambda>s. (cs_id s, cs_attempt s)) (sessions (scrubbed_db P now d)) = map (\<lambda>s. (cs_id s, cs_attempt s)) (sessions d)"
    by (simp add: scrubbed_db_def)
  then show "session_hit Q (scrubbed_db P now d) = session_hit Q d" unfolding fun_eq_iff pairs a by (intro allI) (simp only:)
qed

text \<open>Scrubbing in two parts is scrubbing at once.\<close>

lemma map_twice:
  assumes "\<And>x. key (f x) = key x" "\<And>x. f (f x) = f x"
  shows "map (\<lambda>x. if B (key x) then f x else x) (map (\<lambda>x. if A (key x) then f x else x) xs) = map (\<lambda>x. if A (key x) \<or> B (key x) then f x else x) xs"
  using assms by simp

lemma scrubbed_twice: "scrubbed_db Q now (scrubbed_db P now d) = scrubbed_db (\<lambda>i. P i \<or> Q i) now d"
proof -
  have twice: "without_free_text (without_free_text x) = without_free_text x" for x by (simp add: without_free_text_def comp_def split_def cong: if_cong)
  have m: "filter (\<lambda>m. \<not> B (m_session m)) (filter (\<lambda>m. \<not> A (m_session m)) ms) = filter (\<lambda>m. \<not> (A (m_session m) \<or> B (m_session m))) ms"
    for A B and ms :: "conversation_message list" by (simp add: conj_commute)
  note maps = map_twice [of c_id "erased_contact now"] map_twice [of cs_id "\<lambda>s. s\<lparr> cs_transcript_url := None \<rparr>"]
    map_twice [of sn_attempt "\<lambda>n. n\<lparr> sn_entities := [], sn_objections := [], sn_last_utterance := None \<rparr>"]
    map_twice [of an_contact "\<lambda>r. r\<lparr> an_output := without_free_text (an_output r) \<rparr>"]
  let ?f = "\<lambda>d. d\<lparr> contacts := [], messages := [], sessions := [], snapshots := [], analyses := [] \<rparr>"
  show ?thesis
    unfolding scrubbed_db_def [of Q] hit_scrubbed unfolding scrubbed_db_def [of "\<lambda>i. P i \<or> Q i"] hit_or
    unfolding scrubbed_db_def [of P] by (simp add: m maps twice del: map_map filter_filter)
qed

section \<open>An erasure\<close>

definition has_number :: "string \<Rightarrow> db \<Rightarrow> uuid \<Rightarrow> bool" where
  "has_number n d i \<longleftrightarrow> (\<exists>c \<in> set (contacts d). c_id c = i \<and> c_number c = n)"

lemma erase_number_steps:
  assumes "erase_number w fp actor now sup_id log_id reason suppress e164 (d, entries) = res" "keys_distinct c_id (contacts d)"
  shows "if list_ex (held_contact d) (contacts_with e164 d) then \<exists>e. res = Inl e
    else \<exists>r m row d2. d2 = scrubbed_db (has_number e164 d) now d \<and> el_fingerprint row = fp e164 \<and>
      res = Inr (r, record_audit_event actor ''data.erasure'' ''erasure_log'' (Some log_id) m (if suppress
        then snd (insert_if_absent w now sup_id e164 SUP_MANUAL_API (Some ''erasure_request'') None (Some actor) d2) else d2), entries @ [row])"
proof -
  let ?found = "contacts_with e164 d"
  have found: "(\<lambda>i. i \<in> set ?found) = has_number e164 d" by (auto simp: fun_eq_iff contacts_with_def has_number_def)
  show ?thesis
  proof (cases "list_ex (held_contact d) ?found")
    case True
    then have "filter (held_contact d) ?found \<noteq> []" "?found \<noteq> []" by (auto simp: list_ex_iff filter_empty_conv)
    then show ?thesis using assms(1) True by (auto simp: erase_number_def Let_def)
  next
    case False
    then have none: "(?found \<noteq> [] \<and> length (filter (held_contact d) ?found) \<noteq> 0) = False" by (auto simp: list_ex_iff filter_empty_conv)
    let ?c1 = "if ?found = [] then ([(''messages'', 0), (''snapshots'', 0), (''analyses'', 0)], d) else scrub_content ?found d"
    let ?c2 = "if ?found = [] then (0, snd ?c1) else scrub_contact_rows ?found now (snd ?c1)"
    have d2: "snd ?c2 = scrubbed_db (has_number e164 d) now d"
    proof (cases "?found = []")
      case True
      then have "has_number e164 d = (\<lambda>i. False)" unfolding found [symmetric] by simp
      then show ?thesis using True by (simp add: scrubbed_none)
    next
      case False
      then show ?thesis using scrub_free_scrubbed [of ?found now d] by (simp add: scrub_free_def found)
    qed
    have ite: "snd (if suppress then x else (None, y)) = (if suppress then snd x else y)" for x :: "uuid option \<times> db" and y by simp
    have "\<exists>r m row. el_fingerprint row = fp e164 \<and>
      res = Inr (r, record_audit_event actor ''data.erasure'' ''erasure_log'' (Some log_id) m (if suppress
        then snd (insert_if_absent w now sup_id e164 SUP_MANUAL_API (Some ''erasure_request'') None (Some actor) (snd ?c2)) else snd ?c2), entries @ [row])"
      unfolding assms(1) [symmetric] erase_number_def Let_def split_def prod.case none if_False fst_conv snd_conv ite
      by (rule exI, rule exI, rule exI, rule conjI [rotated], rule refl) simp
    then show ?thesis using False unfolding d2 by auto
  qed
qed

text \<open>
  C13: an erasure is refused exactly when a contact with the number is under a legal hold. Otherwise it changes the
  database exactly so: the contacts with the number are purged (their phone columns replaced, their status one that ends
  them), their turns deleted, their transcript links removed, their working memory and the free text of their analyses
  emptied; nobody else's row changes; the number goes on the do-not-call list when asked (nothing leaves that list); one audit
  row is written, and one log entry with the fingerprint. No contact then has the number, and none of the purged ones can be dialed.
\<close>

theorem erasure_complete:
  assumes "erase_number w fp actor now sup_id log_id reason suppress e164 (d, entries) = res" "keys_distinct c_id (contacts d)"
    and "\<not> is_placeholder e164" "canonical_number w e164 = e164"
  shows "case res of
      Inl e \<Rightarrow> \<exists>c \<in> set (contacts d). c_number c = e164 \<and> held_contact d (c_id c)
    | Inr (r, d', entries') \<Rightarrow> (\<forall>c \<in> set (contacts d). c_number c = e164 \<longrightarrow> \<not> held_contact d (c_id c)) \<and>
        (\<exists>sups auds row. d' = (scrubbed_db (has_number e164 d) now d)\<lparr> suppressions := suppressions d @ sups, audits := audits d @ [auds] \<rparr> \<and>
           (\<forall>s \<in> set sups. suppress \<and> s_number s = e164) \<and> entries' = entries @ [row] \<and> el_fingerprint row = fp e164) \<and>
        (suppress \<longrightarrow> is_suppressed w e164 d') \<and> (\<forall>c \<in> set (contacts d'). c_number c \<noteq> e164) \<and>
        (\<forall>c \<in> set (contacts d). c_number c = e164 \<longrightarrow> get_contact (c_id c) d' = Some (erased_contact now c) \<and>
           (\<forall>camp policy t. \<nexists>e. dial_check w (erased_contact now c) camp policy t d' = Inr e \<and> el_eligible e))"
proof (cases "list_ex (held_contact d) (contacts_with e164 d)")
  case True
  then have "\<exists>c \<in> set (contacts d). c_number c = e164 \<and> held_contact d (c_id c)" by (auto simp: list_ex_iff contacts_with_def)
  moreover obtain e where "res = Inl e" using erase_number_steps [OF assms(1,2)] True by auto
  ultimately show ?thesis by simp
next
  case False
  let ?d2 = "scrubbed_db (has_number e164 d) now d"
  let ?d3 = "if suppress then snd (insert_if_absent w now sup_id e164 SUP_MANUAL_API (Some ''erasure_request'') None (Some actor) ?d2) else ?d2"
  obtain r m row where res: "el_fingerprint row = fp e164"
    "res = Inr (r, record_audit_event actor ''data.erasure'' ''erasure_log'' (Some log_id) m ?d3, entries @ [row])"
    using erase_number_steps [OF assms(1,2)] False by auto
  let ?d' = "record_audit_event actor ''data.erasure'' ''erasure_log'' (Some log_id) m ?d3"
  have free: "\<forall>c \<in> set (contacts d). c_number c = e164 \<longrightarrow> \<not> held_contact d (c_id c)" using False by (auto simp: list_ex_iff contacts_with_def)
  have ins: "\<exists>sups. ?d3 = ?d2\<lparr> suppressions := suppressions d @ sups \<rparr> \<and> (\<forall>s \<in> set sups. suppress \<and> s_number s = e164)"
    using assms(4) by (auto simp: insert_if_absent_def Let_def scrubbed_db_def intro: exI [of _ "[]"])
  then obtain sups where sups: "?d3 = ?d2\<lparr> suppressions := suppressions d @ sups \<rparr>" "\<forall>s \<in> set sups. suppress \<and> s_number s = e164" by blast
  have "audits ?d2 = audits d" by (simp add: scrubbed_db_def)
  then obtain u where shape: "?d' = ?d2\<lparr> suppressions := suppressions d @ sups, audits := audits d @ [u] \<rparr>"
    unfolding sups(1) record_audit_event_def by simp
  have con: "contacts ?d' = map (\<lambda>c. if has_number e164 d (c_id c) then erased_contact now c else c) (contacts d)"
    unfolding shape by (simp add: scrubbed_db_def)
  have sup: "is_suppressed w e164 ?d'" if suppress
    using that assms(4) by (simp add: is_suppressed_def insert_if_absent_def Let_def record_audit_event_def)
  have placeholder: "purge_placeholder i \<noteq> e164" for i using assms(3) by (auto simp: is_placeholder_def purge_placeholder_def)
  have gone: "c_number c \<noteq> e164" if c: "c \<in> set (contacts ?d')" for c
  proof -
    obtain x where x: "x \<in> set (contacts d)" "c = (if has_number e164 d (c_id x) then erased_contact now x else x)"
      using c unfolding con by auto
    then show ?thesis using placeholder by (cases "has_number e164 d (c_id x)") (simp, auto simp: has_number_def)
  qed
  have each: "get_contact (c_id c) ?d' = Some (erased_contact now c) \<and>
      (\<forall>camp policy t. \<nexists>e. dial_check w (erased_contact now c) camp policy t ?d' = Inr e \<and> el_eligible e)"
    if c: "c \<in> set (contacts d)" "c_number c = e164" for c
  proof
    have "get_contact (c_id c) d = Some c" using assms(2) c(1) by (simp add: get_contact_def get_row_Some_iff)
    moreover have "has_number e164 d (c_id c)" using c by (auto simp: has_number_def)
    ultimately show "get_contact (c_id c) ?d' = Some (erased_contact now c)"
      unfolding get_contact_def con update_where_def [symmetric] by (simp add: get_update_where)
  qed (simp add: dial_check_def)
  show ?thesis unfolding res(2) sum.case prod.case using free shape sups(2) sup gone each res(1) by blast
qed

text \<open>A contact that is looked up by id is erased by its canonical number, but the contacts are then looked for
  by the stored one: when the stored number is not canonical the request succeeds and erases nothing of it.\<close>

lemma legacy_number_not_erased:
  assumes "get_contact i d = Some c" "c_purged_at c = None" "\<not> is_placeholder (c_number c)"
    and "\<forall>q \<in> set (contacts d). c_number q \<noteq> canonical_number w (c_number c)"
  shows "\<exists>r d' entries'. erase w fp actor now sup_id log_id None (Some i) reason suppress (d, entries) = Inr (r, d', entries') \<and>
    \<not> er_already r \<and> d' = d\<lparr> suppressions := suppressions d', audits := audits d' \<rparr>"
proof -
  have none: "contacts_with (canonical_number w (c_number c)) d = []" using assms(4) by (auto simp: contacts_with_def filter_empty_conv)
  have "erasure_target w None (Some i) d = Inr (Some (canonical_number w (c_number c)))" using assms(1-3) by (simp add: erasure_target_def)
  then show ?thesis by (cases suppress) (simp_all add: erase_def erase_number_def none Let_def insert_if_absent_def record_audit_event_def)
qed

section \<open>Re-application\<close>

text \<open>Whom a re-application scrubs.\<close>

definition to_scrub :: "'p env \<Rightarrow> (string \<Rightarrow> string) \<Rightarrow> string list \<Rightarrow> db \<Rightarrow> contact \<Rightarrow> bool" where
  "to_scrub w fp prints d c \<longleftrightarrow> c_purged_at c = None \<and> fp (canonical_number w (c_number c)) \<in> set prints \<and> \<not> held_contact d (c_id c)"

definition hits_after :: "'p env \<Rightarrow> (string \<Rightarrow> string) \<Rightarrow> string list \<Rightarrow> nat option \<Rightarrow> db \<Rightarrow> uuid \<Rightarrow> bool" where
  "hits_after w fp prints after d i \<longleftrightarrow> (\<exists>c \<in> set (contacts d). c_id c = i \<and> past c_id after c \<and> to_scrub w fp prints d c)"

lemma held_scrubbed: "held_contact (scrubbed_db P now d) = held_contact d"
proof -
  have "same_frame d (scrubbed_db P now d)" by (auto simp: same_frame_def scrubbed_db_def)
  then show ?thesis by (rule frame_eqs)
qed

lemma page_split:
  assumes "keys_distinct c_id (contacts d)" "keyset_page c_id sz after (unpurged d) \<noteq> []" "c \<in> set (contacts d)" "c_purged_at c = None"
  shows "past c_id after c \<longleftrightarrow> c \<in> set (keyset_page c_id sz after (unpurged d)) \<or>
    past c_id (Some (c_id (last (keyset_page c_id sz after (unpurged d))))) c"
proof -
  let ?rest = "keyset_rest c_id after (unpurged d)" and ?page = "keyset_page c_id sz after (unpurged d)"
  let ?k = "Some (c_id (last ?page))"
  have "keys_distinct c_id (unpurged d)" using assms(1) by (simp add: keys_distinct_def unpurged_def distinct_map_filter)
  then have next_rest: "keyset_rest c_id ?k (unpurged d) = drop sz ?rest" using assms(2) by (rule keyset_rest_after_page)
  have c: "c \<in> set (unpurged d)" using assms(3,4) by (simp add: unpurged_def)
  have "set ?rest = set ?page \<union> set (drop sz ?rest)" unfolding keyset_page_def by (metis append_take_drop_id set_append)
  then show ?thesis using c next_rest set_keyset_rest [of c_id after "unpurged d"] set_keyset_rest [of c_id ?k "unpurged d"] by auto
qed

lemma in_page: "c \<in> set (keyset_page c_id sz after (unpurged d)) \<Longrightarrow> c \<in> set (contacts d) \<and> c_purged_at c = None"
  by (auto simp: unpurged_def dest: keyset_page_past)

text \<open>What the page and the pages after it hit is what the pages from here on hit.\<close>

lemma hits_split:
  assumes "keys_distinct c_id (contacts d)" "keyset_page c_id sz after (unpurged d) \<noteq> []"
    and free_def: "free = filter (\<lambda>i. \<not> held_contact d i) (map c_id (filter (\<lambda>c. logged w fp prints (c_number c)) (keyset_page c_id sz after (unpurged d))))"
    and k_def: "k = Some (c_id (last (keyset_page c_id sz after (unpurged d))))"
  shows "i \<in> set free \<or> hits_after w fp prints k (scrubbed_db (\<lambda>i. i \<in> set free) now d) i \<longleftrightarrow> hits_after w fp prints after d i"
proof -
  let ?page = "keyset_page c_id sz after (unpurged d)" and ?d1 = "scrubbed_db (\<lambda>i. i \<in> set free) now d"
  have free: "i \<in> set free \<longleftrightarrow> (\<exists>c \<in> set ?page. c_id c = i \<and> to_scrub w fp prints d c)" for i
    using in_page by (fastforce simp: free_def to_scrub_def logged_def)
  have "hits_after w fp prints k ?d1 i \<longleftrightarrow> (\<exists>c \<in> set (contacts d). c_id c = i \<and> i \<notin> set free \<and> past c_id k c \<and> to_scrub w fp prints d c)" for i
  proof -
    have c: "contacts ?d1 = map (\<lambda>c. if c_id c \<in> set free then erased_contact now c else c) (contacts d)" by (simp add: scrubbed_db_def)
    show ?thesis unfolding hits_after_def c by (auto simp: to_scrub_def held_scrubbed)
  qed
  then have later: "hits_after w fp prints k ?d1 i \<longleftrightarrow> (\<exists>c \<in> set (contacts d). c_id c = i \<and> i \<notin> set free \<and> past c_id k c \<and> to_scrub w fp prints d c)" .
  have split: "past c_id after c \<longleftrightarrow> c \<in> set ?page \<or> past c_id k c" if "c \<in> set (contacts d)" "to_scrub w fp prints d c" for c
    unfolding k_def by (rule page_split [OF assms(1,2) that(1)]) (use that(2) in \<open>simp add: to_scrub_def\<close>)
  show ?thesis
  proof
    assume "i \<in> set free \<or> hits_after w fp prints k ?d1 i"
    then obtain c where c: "c \<in> set (contacts d)" "c_id c = i" "to_scrub w fp prints d c" "c \<in> set ?page \<or> past c_id k c"
      unfolding later free [of i] using in_page by blast
    then have "past c_id after c" using split by blast
    then show "hits_after w fp prints after d i" unfolding hits_after_def using c by blast
  next
    assume "hits_after w fp prints after d i"
    then obtain c where c: "c \<in> set (contacts d)" "c_id c = i" "past c_id after c" "to_scrub w fp prints d c" unfolding hits_after_def by blast
    then have "c \<in> set ?page \<or> past c_id k c" using split by blast
    then show "i \<in> set free \<or> hits_after w fp prints k ?d1 i" unfolding later using c free [of i] by blast
  qed
qed

lemma reapply_pages_scrubs:
  assumes "keys_distinct c_id (contacts d)" "0 < sz"
  shows "snd (reapply_pages w fp prints now True sz after rep d) = scrubbed_db (hits_after w fp prints after d) now d"
  using assms
proof (induction w fp prints now True sz after rep d rule: reapply_pages.induct)
  case (1 w fp prints now sz after rep d)
  let ?page = "keyset_page c_id sz after (unpurged d)"
  show ?case
  proof (cases "?page = []")
    case True
    then have "keyset_rest c_id after (unpurged d) = []" using "1.prems"(2) by (simp add: keyset_page_def)
    then have "hits_after w fp prints after d = (\<lambda>i. False)"
      using set_keyset_rest [of c_id after "unpurged d"] by (fastforce simp: unpurged_def to_scrub_def hits_after_def)
    then show ?thesis using True by (subst reapply_pages.simps) (simp add: scrubbed_none)
  next
    case False
    let ?matched = "map c_id (filter (\<lambda>c. logged w fp prints (c_number c)) ?page)"
    let ?free = "filter (\<lambda>i. \<not> held_contact d i) ?matched"
    let ?k = "Some (c_id (last ?page))"
    let ?d1 = "scrub_free ?free now d"
    let ?rep1 = "rep\<lparr> ra_scanned := ra_scanned rep + length ?page, ra_matched := ra_matched rep + length ?matched,
      ra_held := ra_held rep + (length ?matched - length ?free), ra_scrubbed := ra_scrubbed rep + length ?free \<rparr>"
    have d1: "?d1 = scrubbed_db (\<lambda>i. i \<in> set ?free) now d" by (rule scrub_free_scrubbed)
    have keys1: "keys_distinct c_id (contacts ?d1)" using "1.prems"(1) by (simp add: contacts_scrub_free keys_distinct_def)
    have "snd (reapply_pages w fp prints now True sz after rep d) = snd (reapply_pages w fp prints now True sz ?k ?rep1 ?d1)"
      by (subst reapply_pages.simps) (simp only: Let_def False if_False if_True)
    also have "\<dots> = scrubbed_db (hits_after w fp prints ?k ?d1) now ?d1"
      using "1.hyps" [OF refl False refl refl refl] keys1 "1.prems"(2) by simp
    also have "\<dots> = scrubbed_db (hits_after w fp prints after d) now d"
      unfolding d1 scrubbed_twice hits_split [OF "1.prems"(1) False refl refl] by (rule refl)
    finally show ?thesis .
  qed
qed

lemma reapply_dry: "snd (reapply_pages w fp prints now False sz after rep d) = d"
proof (induction w fp prints now False sz after rep d rule: reapply_pages.induct)
  case (1 w fp prints now sz after rep d)
  show ?case
  proof (cases "keyset_page c_id sz after (unpurged d) = []")
    case True
    then show ?thesis by (subst reapply_pages.simps) simp
  next
    case False
    show ?thesis using "1.hyps" [OF refl False refl refl refl] False
      by (subst reapply_pages.simps) (simp only: Let_def False if_False simp_thms)
  qed
qed

text \<open>
  C33: re-applying the erasure log to a restored database page by page, whatever the size of the pages, gives exactly
  the database in which every contact whose number is in the log, and that is not purged or held, is scrubbed at once, and
  nothing of anybody else is changed; a dry run and an empty log change nothing.
\<close>

theorem reapply_complete:
  assumes "keys_distinct c_id (contacts d)" "0 < sz"
  shows "snd (reapply_erasures w fp now do_it sz (d, entries)) =
    (if do_it then scrubbed_db (\<lambda>i. \<exists>c \<in> set (contacts d). c_id c = i \<and> c_purged_at c = None \<and> \<not> held_contact d i \<and>
       (\<exists>l \<in> set entries. el_fingerprint l = fp (canonical_number w (c_number c)))) now d else d)"
proof -
  let ?prints = "remdups (map el_fingerprint entries)"
  let ?rep = "\<lparr> ra_fingerprints = length ?prints, ra_scanned = 0, ra_matched = 0, ra_scrubbed = 0, ra_held = 0, ra_missing = 0, ra_applied = do_it \<rparr>"
  let ?hit = "\<lambda>i. \<exists>c \<in> set (contacts d). c_id c = i \<and> c_purged_at c = None \<and> \<not> held_contact d i \<and>
    (\<exists>l \<in> set entries. el_fingerprint l = fp (canonical_number w (c_number c)))"
  have hit: "hits_after w fp ?prints None d = ?hit"
    by (force simp: fun_eq_iff hits_after_def to_scrub_def past_def)
  have run: "snd (reapply_erasures w fp now do_it sz (d, entries)) = (if ?prints = [] then d else snd (reapply_pages w fp ?prints now do_it sz None ?rep d))"
    by (simp add: reapply_erasures_def Let_def split_def)
  show ?thesis
  proof (cases "?prints = []")
    case True
    then have "?hit = (\<lambda>i. False)" by auto
    then show ?thesis using run True by (simp add: scrubbed_none)
  next
    case False
    then show ?thesis unfolding run if_not_P [OF False] using reapply_pages_scrubs [OF assms, of w fp ?prints now None ?rep] reapply_dry
      by (cases do_it) (simp_all only: hit if_True if_False)
  qed
qed

end
