(* ===== verification/Analysis_Runs.thy ===== *)
theory Analysis_Runs imports Analysis_Sweeper begin

text \<open>One analysed call, its workers and a sweep: the properties of the analysis theories applied to it.\<close>

definition an_settings0 :: analysis_settings where
  "an_settings0 = default_analysis_settings\<lparr> as_provider := ''dograh_qa'', as_cap := Some 10, as_cost := Some 2 \<rparr>"

definition fresh_analysis :: call_analysis where
  "fresh_analysis = new_analysis 0 7 5 3 2 (Some 1) None None"

definition ended_attempt :: call_attempt where
  "ended_attempt = \<lparr> a_id = 5, a_contact = 3, a_number = 1, a_state = A_ENDED_NORMALLY, a_conn_reason = None, a_disc_reason = None,
     a_consent = None, a_provider = Some ''dograh'', a_provider_call_id = Some ''12'', a_workflow_id = Some 4, a_started_at = 0,
     a_ended_at = Some 9, a_duration = None \<rparr>"

definition talked_contact :: contact where
  "talked_contact = (new_contact 0 3 2 ''9876543210'' ''+919876543210'')\<lparr> c_status := C_COMPLETED \<rparr>"

definition analysis_db :: db where
  "analysis_db = demo_said\<lparr> analyses := [fresh_analysis], attempts := [ended_attempt], contacts := [talked_contact], sessions := [demo_session] \<rparr>"

abbreviation utc :: zone where "utc \<equiv> fixed_zone 0"

lemma row0 [simp]: "get_analysis 7 analysis_db = Some fresh_analysis" "analyses analysis_db = [fresh_analysis]" "an_id fresh_analysis = 7"
  "budget_days analysis_db = []"
  by (simp_all add: analysis_db_def get_analysis_def get_row_Cons fresh_analysis_def demo_said_def empty_db_def)

lemma keys0 [simp]: "keys_distinct an_id (analyses analysis_db)"
  by (simp add: keys_distinct_def)

lemma get0: "get_analysis j analysis_db = Some r \<Longrightarrow> r = fresh_analysis \<and> j = 7"
  using get_analysis_id by (fastforce simp: get_analysis_def get_row_Cons split: if_splits)

lemma ok0: "analysis_ok 3 fresh_analysis" "as_max_attempts an_settings0 = 3"
  by (simp_all add: analysis_ok_def fresh_analysis_def new_analysis_def an_settings0_def default_analysis_settings_def)

lemma balanced0: "balanced an_settings0 analysis_db"
  by (auto simp: balanced_def amount_def ledger_def held_in_def held_def fresh_analysis_def new_analysis_def an_settings0_def
      default_analysis_settings_def keys_distinct_def)

lemma cost0: "\<forall>c. as_cost an_settings0 = Some c \<longrightarrow> 0 \<le> c" "as_cap an_settings0 = Some 10"
  by (simp_all add: an_settings0_def)

definition claim_and_fail :: "(uuid \<times> an_op) list" where
  "claim_and_fail = [(7, Op_claim 40 100), (7, Op_fail 40 200 ''invalid_output'')]"

lemma failed_run: "map_option an_status (get_analysis 7 (exec_ops an_settings0 utc claim_and_fail analysis_db)) = Some AN_FAILED"
  by code_simp

theorem analyses_stay_ok_witness:
  "\<exists>r. get_analysis 7 (exec_ops an_settings0 utc claim_and_fail analysis_db) = Some r \<and> an_status r = AN_FAILED \<and> analysis_ok 3 r"
proof -
  obtain r where r: "get_analysis 7 (exec_ops an_settings0 utc claim_and_fail analysis_db) = Some r" "an_status r = AN_FAILED"
    using failed_run by auto
  have "\<forall>j r. get_analysis j analysis_db = Some r \<longrightarrow> analysis_ok (as_max_attempts an_settings0) r" using get0 ok0 by metis
  from analyses_stay_ok [OF keys0 this r(1)] show ?thesis using r ok0 by auto
qed

lemma claim_run: "fst (exec_op an_settings0 utc 7 (Op_claim 40 100) analysis_db)"
  by code_simp

theorem analysis_refines_lock_witness:
  "\<exists>d' r'. exec_op an_settings0 utc 7 (Op_claim 40 100) analysis_db = (True, d') \<and> get_analysis 7 d' = Some r' \<and> lock_of r' = Held_by 40"
proof -
  obtain d' where e: "exec_op an_settings0 utc 7 (Op_claim 40 100) analysis_db = (True, d')" using claim_run by (metis prod.collapse)
  from analysis_refines_lock [OF e keys0 row0(1)] ok0 e show ?thesis by auto
qed

definition claimed_db :: db where
  "claimed_db = snd (exec_op an_settings0 utc 7 (Op_claim 40 100) analysis_db)"

lemma second_claim: "fst (exec_op an_settings0 utc 7 (Op_claim 41 (seconds 200)) claimed_db)"
  unfolding claimed_db_def by code_simp

lemma keys1: "keys_distinct an_id (analyses claimed_db)"
  unfolding claimed_db_def using exec_keys [of an_settings0 utc 7 "Op_claim 40 100" analysis_db] by (metis keys0 prod.collapse)

theorem superseded_worker_writes_nothing_witness:
  "\<exists>d1. exec_op an_settings0 utc 7 (Op_claim 41 (seconds 200)) claimed_db = (True, d1) \<and>
    exec_op an_settings0 utc 7 (Op_complete 40 (seconds 300) [] 50 False) (exec_ops an_settings0 utc [(7, Op_renew 41 (seconds 250))] d1) =
      (False, exec_ops an_settings0 utc [(7, Op_renew 41 (seconds 250))] d1)"
proof -
  obtain d1 where e: "exec_op an_settings0 utc 7 (Op_claim 41 (seconds 200)) claimed_db = (True, d1)" using second_claim by (metis prod.collapse)
  from superseded_worker_writes_nothing [OF e, of 40 "[(7, Op_renew 41 (seconds 250))]" "Op_complete 40 (seconds 300) [] 50 False"] keys1 e
  show ?thesis by simp
qed

theorem finished_analysis_final_witness:
  "\<exists>r. get_analysis 7 (exec_ops an_settings0 utc claim_and_fail analysis_db) = Some r \<and>
    get_analysis 7 (exec_ops an_settings0 utc [(7, Op_claim 41 (seconds 900))] (exec_ops an_settings0 utc claim_and_fail analysis_db)) = Some r"
proof -
  let ?d = "exec_ops an_settings0 utc claim_and_fail analysis_db"
  obtain r where r: "get_analysis 7 ?d = Some r" "terminal_analysis (an_status r)"
    using failed_run by (auto simp: terminal_analysis_def)
  have "keys_distinct an_id (analyses ?d)" using exec_keys by (metis claim_and_fail_def exec_ops.simps keys0 prod.collapse)
  from finished_analysis_final [OF this r, of an_settings0 utc "[(7, Op_claim 41 (seconds 900))]"] r(1) show ?thesis by blast
qed

theorem ledger_balanced_witness:
  "amount 0 (exec_ops an_settings0 utc [(7, Op_claim 40 100), (7, Op_skip 40 200 ''empty_conversation'' True)] analysis_db) \<le> 10"
  using ledger_balanced [OF balanced0 cost0] by blast

section \<open>The worker\<close>

definition warm_result :: analysis_result where
  "warm_result = \<lparr> ar_output = [(''summary'', JStr ''wants a call'')], ar_signals = \<lparr> sg_explicit_interest = True, sg_purchase_intent = False,
     sg_requested_callback = True, sg_requested_pricing = False, sg_has_timeline = False, sg_objection_count = 0,
     sg_explicit_rejection = False, sg_opted_out = False, sg_information_requested = False \<rparr> \<rparr>"

definition calm_worker :: worker_env where
  "calm_worker = \<lparr> wk_settings = default_settings\<lparr> st_analysis := an_settings0 \<rparr>, wk_zone = utc, wk_token = 40, wk_clock = (\<lambda>_. 100),
     wk_draw = 0, wk_fails = (\<lambda>_. False), wk_others = (\<lambda>_ d. d), wk_locked = (\<lambda>_. False), wk_repr = (\<lambda>_. []),
     wk_fetch = (\<lambda>_. unavailable ''url_blocked''), wk_llm = (\<lambda>_ _. Inr warm_result), wk_ack_up = True \<rparr>"

lemma calm_timing: "timing_ok calm_worker" "an_settings calm_worker = an_settings0" "wk_others calm_worker S d = d"
  by (simp_all add: timing_ok_def calm_worker_def an_settings_def an_settings0_def default_analysis_settings_def)

lemma calm_run: "pr_outcome (process_analysis calm_worker 7 analysis_db) = Some WO_COMPLETED \<and>
    pr_sent (process_analysis calm_worker 7 analysis_db) = Some [''agent: hello'', ''contact: yes please'']"
  by code_simp

theorem acknowledged_analysis_durable_witness:
  "pr_acked (process_analysis calm_worker 7 analysis_db) \<and>
    outcome_holds calm_worker 7 WO_COMPLETED (Some [''agent: hello'', ''contact: yes please'']) (pr_db (process_analysis calm_worker 7 analysis_db))"
  using acknowledged_analysis_durable [OF calm_timing(1) refl] calm_run by (metis option.distinct(1))

theorem transcript_sent_only_when_entitled_witness:
  "\<exists>an0. get_analysis 7 analysis_db = Some an0 \<and> claimable (wk_clock calm_worker K_CLAIM) (as_max_attempts (an_settings calm_worker)) an0"
  using transcript_sent_only_when_entitled [of calm_worker 7 analysis_db "[''agent: hello'', ''contact: yes please'']"] calm_run by blast

theorem worker_keeps_invariant_witness: "analyses_inv an_settings0 (pr_db (process_analysis calm_worker 7 analysis_db))"
proof -
  have "analyses_inv an_settings0 analysis_db" unfolding analyses_inv_def using balanced0 get0 ok0 by metis
  then show ?thesis using worker_keeps_invariant [of calm_worker analysis_db 7] cost0 by (simp add: calm_timing)
qed

section \<open>A sweep\<close>

definition quiet_sweep :: "sweep_report \<times> analysis_job list \<times> db" where
  "quiet_sweep = analysis_sweep an_settings0 (\<lambda>_. False) (\<lambda>n. 100 + n) (\<lambda>_. True) (\<lambda>n. 200 + n) (seconds 1000) analysis_db"

lemma quiet_report: "(case quiet_sweep of (rep, jobs, d') \<Rightarrow> \<not> sp_error rep \<and> sp_published rep = 1 \<and> sp_finalized rep = 0 \<and> sp_registered rep = 0)"
  by code_simp

theorem sweep_rediscovers_unfinished_witness:
  "\<exists>rep jobs d'. quiet_sweep = (rep, jobs, d') \<and> 7 \<in> set (map aj_analysis jobs) \<and>
    get_analysis 7 d' = Some (fresh_analysis\<lparr> an_last_enqueued := Some (seconds 1000) \<rparr>)"
proof -
  obtain rep jobs d' where s: "quiet_sweep = (rep, jobs, d')" by (metis prod_cases3)
  have "discoverable_after an_settings0 fresh_analysis < seconds 1000" "\<not> terminal_analysis (an_status fresh_analysis)"
    "an_attempt_count fresh_analysis < as_max_attempts an_settings0" "nat (as_batch an_settings0) = 100"
    by (simp_all add: discoverable_after_def fresh_analysis_def new_analysis_def an_settings0_def default_analysis_settings_def
        terminal_analysis_def seconds_def)
  moreover have "\<not> sp_error rep" "sp_published rep < 100" "sp_finalized rep < 100" using quiet_report unfolding s by auto
  ultimately have "7 \<in> set (map aj_analysis jobs) \<and> get_analysis 7 d' = Some (fresh_analysis\<lparr> an_last_enqueued := Some (seconds 1000) \<rparr>)"
    using sweep_rediscovers_unfinished [OF s [unfolded quiet_sweep_def] keys0 row0(1) ok0(1)] by simp
  with s show ?thesis by blast
qed

theorem sweep_truthful_witness:
  "\<exists>rep jobs d'. quiet_sweep = (rep, jobs, d') \<and>
    (map_option an_last_enqueued (get_analysis 7 d') \<noteq> Some (an_last_enqueued fresh_analysis) \<longrightarrow> 7 \<in> set (map aj_analysis jobs))"
proof -
  obtain rep jobs d' where s: "quiet_sweep = (rep, jobs, d')" by (metis prod_cases3)
  from sweep_truthful [OF s [unfolded quiet_sweep_def] keys0 row0(1)] s show ?thesis by blast
qed

end
