(* ===== verification/Lifecycle_Runs.thy ===== *)
theory Lifecycle_Runs imports Retention_Run Erasure Analysis_Runs begin

text \<open>
  A small archive: a closed campaign with two contacts, one of them under a legal hold, and the call of the other one
  with its turns and its analysis. The properties of \<open>Retention_Run\<close> and \<open>Erasure\<close> applied to it.
\<close>

definition closed_campaign :: campaign where
  "closed_campaign = \<lparr> camp_id = 2, camp_name = ''spring'', camp_status = CAMP_COMPLETED, camp_timezone = ''UTC'', camp_region = ''IN'',
     camp_legal_hold = False, camp_closed_at = Some 9, camp_created_at = 0 \<rparr>"

definition held_person :: contact where
  "held_person = (new_contact 0 4 2 ''9876500000'' ''+919876500000'')\<lparr> c_legal_hold := True \<rparr>"

definition shelf :: archive where
  "shelf = \<lparr> ar_db = analysis_db\<lparr> campaigns := [closed_campaign], contacts := [talked_contact, held_person],
       analyses := [fresh_analysis\<lparr> an_status := AN_COMPLETED, an_output := [(''summary'', JStr ''wants a call'')] \<rparr>] \<rparr>,
     ar_messages = [\<lparr> st_id = 1, st_at = 5, st_row = \<lparr> m_session = 1, m_sequence = 1, m_role = ROLE_AGENT, m_content = ''hello'' \<rparr> \<rparr>],
     ar_snapshots = [], ar_audits = [], ar_processed = [], ar_runs = [] \<rparr>"

definition keep_30_days :: retention_config where
  "keep_30_days = \<lparr> rc_transcript = Some 30, rc_analysis = Some 30, rc_contact = Some 30, rc_audit = None, rc_processed = Some 0,
     rc_history = Some 30, rc_batch = 1, rc_max_runtime = 60 \<rparr>"

definition nightly :: retention_env where
  "nightly = \<lparr> re_config = keep_30_days, re_now = seconds (86400 * 40), re_db_now = seconds (86400 * 40), re_lock = True, re_apply = True,
     re_actor = ''retention'', re_run = 90, re_audit = 91, re_ticks = (\<lambda>_. 0), re_fails = (\<lambda>_. False), re_error = ''ValueError'' \<rparr>"

lemma shelf_keys: "archive_keys shelf"
  by (simp add: archive_keys_def keys_distinct_def shelf_def analysis_db_def talked_contact_def held_person_def new_contact_def)

lemma shelf_purged:
  "(case run_retention nightly shelf of (Inr r, a) \<Rightarrow> rs_status r = ''completed'' \<and> ar_messages a = [] \<and>
      map c_purged_at (contacts (ar_db a)) = [Some (seconds (86400 * 40)), None] | _ \<Rightarrow> False)"
  by code_simp

lemma shelf_held: "held_contact (ar_db shelf) 4"
  by code_simp

lemma nightly_sel [simp]: "re_apply nightly" "re_run nightly = 90" "0 < rc_batch (re_config nightly)" "re_ticks nightly = (\<lambda>_. 0)"
  "re_fails nightly = (\<lambda>_. False)" "rc_max_runtime (re_config nightly) = 60" "re_db_now nightly = re_now nightly"
  by (simp_all add: nightly_def keep_30_days_def)

theorem retention_respects_holds_witness: "covered 4 (snd (run_retention nightly shelf)) = covered 4 shelf \<and> get_contact 4 (ar_db shelf) \<noteq> None"
proof -
  obtain res a' where run: "run_retention nightly shelf = (res, a')" by fastforce
  from retention_respects_holds [OF run shelf_keys, of 4] shelf_held run show ?thesis
    by (simp add: shelf_def get_contact_def get_row_Cons talked_contact_def held_person_def new_contact_def)
qed

lemma shelf_log_keys: "log_keys shelf"
  by (simp add: log_keys_def keys_distinct_def shelf_def)

theorem retention_removes_only_due_witness:
  "ar_messages (snd (run_retention nightly shelf)) = [] \<and> past_period nightly T_MESSAGES 5 \<and>
    (\<exists>t. attempt_of_session (ar_db shelf) 1 = Some t \<and> \<not> held_contact (ar_db shelf) (a_contact t) \<and> \<not> open_analysis (ar_db shelf) (a_id t))"
proof -
  obtain r a' where run: "run_retention nightly shelf = (Inr r, a')" "ar_messages a' = []" using shelf_purged by (auto split: prod.splits sum.splits)
  let ?m = "\<lparr> st_id = 1, st_at = 5, st_row = \<lparr> m_session = 1, m_sequence = 1, m_role = ROLE_AGENT, m_content = ''hello'' \<rparr> \<rparr>"
  have "?m \<in> set (ar_messages shelf) - set (ar_messages a')" using run(2) by (simp add: shelf_def)
  from bspec [OF retention_removes_only_due [OF run(1) shelf_keys shelf_log_keys, THEN conjunct1] this] run show ?thesis by simp
qed

lemma due_days: "retention_days keep_30_days s = Some days \<Longrightarrow> days = 30"
  by (cases s) (auto simp: retention_days_def keep_30_days_def split: if_splits)


section \<open>Erasure\<close>

definition book :: "db \<times> erasure_row list" where
  "book = ((ar_db shelf)\<lparr> messages := map st_row (ar_messages shelf) \<rparr>, [])"

definition erased_book :: "db \<times> erasure_row list" where
  "erased_book = (case erase_number plain_env id ''admin'' 77 80 81 (Some ''request'') True ''+919876543210'' book of
     Inr (_, s) \<Rightarrow> s | Inl _ \<Rightarrow> book)"

lemma book_erased:
  "case erase_number plain_env id ''admin'' 77 80 81 (Some ''request'') True ''+919876543210'' book of Inr _ \<Rightarrow> True | Inl _ \<Rightarrow> False"
  by code_simp

lemma book_canonical: "canonical_number plain_env ''+919876543210'' = ''+919876543210''"
  by code_simp

lemma book_keys: "keys_distinct c_id (contacts (fst book))" "talked_contact \<in> set (contacts (fst book))" "c_number talked_contact = ''+919876543210''"
    "c_id talked_contact = 3" "c_purged_at talked_contact = None" "\<not> held_contact (fst book) 3"
  by (simp_all add: keys_distinct_def book_def shelf_def analysis_db_def talked_contact_def held_person_def new_contact_def held_contact_def
      get_campaign_def get_row_Cons closed_campaign_def)

theorem erasure_complete_witness:
  "get_contact 3 (fst erased_book) = Some (erased_contact 77 talked_contact) \<and> messages (fst erased_book) = [] \<and>
    is_suppressed plain_env ''+919876543210'' (fst erased_book) \<and> map el_fingerprint (snd erased_book) = [''+919876543210'']"
proof -
  obtain r d' entries' where run: "erase_number plain_env id ''admin'' 77 80 81 (Some ''request'') True ''+919876543210'' (fst book, []) = Inr (r, d', entries')"
    using book_erased by (auto simp: book_def split: sum.splits prod.splits)
  have s: "erased_book = (d', entries')" using run by (simp add: erased_book_def book_def)
  have number: "\<not> is_placeholder ''+919876543210''" by (simp add: is_placeholder_def)
  note all = erasure_complete [OF run book_keys(1) number book_canonical, unfolded sum.case prod.case]
  have "get_contact 3 d' = Some (erased_contact 77 talked_contact)"
    using bspec [OF all [THEN conjunct2, THEN conjunct2, THEN conjunct2, THEN conjunct2] book_keys(2)] book_keys(3,4) by simp
  moreover have "is_suppressed plain_env ''+919876543210'' d'" using all by blast
  moreover have "map el_fingerprint entries' = [''+919876543210'']" using all by auto
  moreover have "messages d' = messages (scrubbed_db (has_number ''+919876543210'' (fst book)) 77 (fst book))" using all by auto
  moreover have "messages (scrubbed_db (has_number ''+919876543210'' (fst book)) 77 (fst book)) = []" by code_simp
  ultimately show ?thesis unfolding s by simp
qed

text \<open>The backup of before the erasure is restored, and the log of after it is applied to it.\<close>

theorem reapply_complete_witness:
  "let d' = snd (reapply_erasures plain_env id 99 True 1 (fst book, snd erased_book))
   in get_contact 3 d' = Some (erased_contact 99 talked_contact) \<and> messages d' = [] \<and> get_contact 4 d' = get_contact 4 (fst book)"
proof -
  let ?hit = "\<lambda>i. \<exists>c \<in> set (contacts (fst book)). c_id c = i \<and> c_purged_at c = None \<and> \<not> held_contact (fst book) i \<and>
       (\<exists>l \<in> set (snd erased_book). el_fingerprint l = id (canonical_number plain_env (c_number c)))"
  have prints: "map el_fingerprint (snd erased_book) = [''+919876543210'']" by code_simp
  have "(\<exists>l \<in> set (snd erased_book). el_fingerprint l = p) \<longleftrightarrow> p \<in> set (map el_fingerprint (snd erased_book))" for p by auto
  then have one: "(\<exists>l \<in> set (snd erased_book). el_fingerprint l = p) \<longleftrightarrow> p = ''+919876543210''" for p unfolding prints by simp
  have rows: "contacts (fst book) = [talked_contact, held_person]" by (simp add: book_def shelf_def)
  have held: "held_contact (fst book) (c_id held_person)" by code_simp
  have hit: "?hit = (\<lambda>i. i = 3)" using book_keys(3-6) book_canonical held unfolding one rows by auto
  have "let d' = scrubbed_db (\<lambda>i. i = 3) 99 (fst book) in get_contact 3 d' = Some (erased_contact 99 talked_contact) \<and> messages d' = [] \<and>
      get_contact 4 d' = get_contact 4 (fst book)" by code_simp
  then show ?thesis using reapply_complete [OF book_keys(1), of 1 plain_env id 99 True "snd erased_book"] unfolding hit by simp
qed

end
