(* ===== verification/Conversation_Policy.thy ===== *)
theory Conversation_Policy imports Dograh_Outcome Eligibility begin

text \<open>
  \<open>app/services/ai/schemas.py\<close> and \<open>policy/engine.py\<close>: what a language model may answer in a turn, and the fixed
  rules that decide what follows from it. Characters are 8-bit, \<open>str.lower\<close> is \<open>lower_char\<close>. The routing table
  keeps its rows in the order of the code.
\<close>

section \<open>The structured output\<close>

datatype conversation_phase = PH_OPENING | PH_DISCOVERY | PH_OBJECTION_HANDLING | PH_CLOSING | PH_WRAP_UP

datatype intent = I_AFFIRMATIVE | I_NEGATIVE | I_QUESTION | I_OBJECTION | I_REQUEST_CALLBACK | I_REQUEST_HUMAN | I_OFF_TOPIC
  | I_END_CALL | I_UNCLEAR

datatype next_action = NA_CONTINUE_SCRIPT | NA_ANSWER_QUESTION | NA_HANDLE_OBJECTION | NA_CONFIRM_AND_CLOSE
  | NA_ESCALATE_TO_HUMAN_OFFER | NA_END_CALL_POLITE | NA_END_CALL_GOAL_MET

fun phase_value :: "conversation_phase \<Rightarrow> string" where
  "phase_value PH_OPENING = ''Opening''"
| "phase_value PH_DISCOVERY = ''Discovery''"
| "phase_value PH_OBJECTION_HANDLING = ''ObjectionHandling''"
| "phase_value PH_CLOSING = ''Closing''"
| "phase_value PH_WRAP_UP = ''WrapUp''"

definition phases :: "conversation_phase list" where
  "phases = [PH_OPENING, PH_DISCOVERY, PH_OBJECTION_HANDLING, PH_CLOSING, PH_WRAP_UP]"

text \<open>The constructor call \<open>ConversationPhase(text)\<close>; \<open>None\<close> is the \<open>ValueError\<close>.\<close>

definition phase_of :: "string \<Rightarrow> conversation_phase option" where
  "phase_of v = find (\<lambda>p. phase_value p = v) phases"

fun action_value :: "next_action \<Rightarrow> string" where
  "action_value NA_CONTINUE_SCRIPT = ''continue_script''"
| "action_value NA_ANSWER_QUESTION = ''answer_question''"
| "action_value NA_HANDLE_OBJECTION = ''handle_objection''"
| "action_value NA_CONFIRM_AND_CLOSE = ''confirm_and_close''"
| "action_value NA_ESCALATE_TO_HUMAN_OFFER = ''escalate_to_human_offer''"
| "action_value NA_END_CALL_POLITE = ''end_call_polite''"
| "action_value NA_END_CALL_GOAL_MET = ''end_call_goal_met''"

definition NOT_CAPTURED :: string where "NOT_CAPTURED = ''not_captured''"

record entities =
  ent_interest_level :: string
  ent_objection :: "string option"
  ent_follow_up :: "string option"
  ent_decision_maker :: string
  ent_feedback :: "string option"

definition no_entities :: entities where
  "no_entities = \<lparr> ent_interest_level = NOT_CAPTURED, ent_objection = None, ent_follow_up = None,
     ent_decision_maker = NOT_CAPTURED, ent_feedback = None \<rparr>"

record structured_output =
  so_intent :: intent
  so_entities :: entities
  so_action :: next_action
  so_text :: string
  so_suppress :: bool
  so_consent :: recording_consent

section \<open>The rules\<close>

definition MAX_RESPONSE_CHARS :: nat where "MAX_RESPONSE_CHARS = 1000"
definition MAX_CONSECUTIVE_DECLINES :: nat where "MAX_CONSECUTIVE_DECLINES = 2"
definition MAX_CONSECUTIVE_UNCLEAR :: nat where "MAX_CONSECUTIVE_UNCLEAR = 2"

definition OPT_OUT_PHRASES :: "string list" where
  "OPT_OUT_PHRASES = [''stop calling'', ''don'' @ [CHR 0x27] @ ''t call'', ''do not call'', ''remove me'', ''no more calls'']"

fun is_in :: "string \<Rightarrow> string \<Rightarrow> bool" where
  "is_in p [] = (p = [])"
| "is_in p (c # cs) = (take (length p) (c # cs) = p \<or> is_in p cs)"

definition ROUTING :: "((conversation_phase \<times> intent) \<times> conversation_phase) list" where
  "ROUTING =
    [((PH_OPENING, I_AFFIRMATIVE), PH_DISCOVERY), ((PH_OPENING, I_QUESTION), PH_DISCOVERY), ((PH_OPENING, I_NEGATIVE), PH_WRAP_UP),
     ((PH_OPENING, I_END_CALL), PH_WRAP_UP), ((PH_OPENING, I_REQUEST_HUMAN), PH_WRAP_UP), ((PH_OPENING, I_REQUEST_CALLBACK), PH_WRAP_UP),
     ((PH_DISCOVERY, I_OBJECTION), PH_OBJECTION_HANDLING), ((PH_DISCOVERY, I_NEGATIVE), PH_WRAP_UP), ((PH_DISCOVERY, I_END_CALL), PH_WRAP_UP),
     ((PH_DISCOVERY, I_REQUEST_HUMAN), PH_WRAP_UP), ((PH_DISCOVERY, I_REQUEST_CALLBACK), PH_WRAP_UP),
     ((PH_OBJECTION_HANDLING, I_NEGATIVE), PH_WRAP_UP), ((PH_OBJECTION_HANDLING, I_END_CALL), PH_WRAP_UP),
     ((PH_OBJECTION_HANDLING, I_REQUEST_HUMAN), PH_WRAP_UP), ((PH_OBJECTION_HANDLING, I_REQUEST_CALLBACK), PH_WRAP_UP),
     ((PH_CLOSING, I_AFFIRMATIVE), PH_WRAP_UP), ((PH_CLOSING, I_NEGATIVE), PH_WRAP_UP), ((PH_CLOSING, I_END_CALL), PH_WRAP_UP),
     ((PH_CLOSING, I_REQUEST_HUMAN), PH_WRAP_UP), ((PH_CLOSING, I_REQUEST_CALLBACK), PH_WRAP_UP)]"

record policy_decision =
  pd_phase :: conversation_phase
  pd_terminate :: bool
  pd_reason :: "string option"
  pd_opt_out :: bool

definition detect_opt_out :: "string \<Rightarrow> bool" where
  "detect_opt_out utterance = list_ex (\<lambda>p. is_in p (map lower_char utterance)) OPT_OUT_PHRASES"

definition validate_response :: "structured_output \<Rightarrow> bool" where
  "validate_response out \<longleftrightarrow> py_strip (so_text out) \<noteq> [] \<and> length (so_text out) \<le> MAX_RESPONSE_CHARS"

definition route :: "conversation_phase \<Rightarrow> intent \<Rightarrow> bool \<Rightarrow> conversation_phase" where
  "route phase i pending =
    (case map_of ROUTING (phase, i) of
       Some p \<Rightarrow> p
     | None \<Rightarrow> if phase = PH_DISCOVERY \<and> i = I_AFFIRMATIVE then (if pending then PH_DISCOVERY else PH_CLOSING)
         else if phase = PH_OBJECTION_HANDLING \<and> i = I_AFFIRMATIVE then (if pending then PH_DISCOVERY else PH_CLOSING)
         else phase)"

definition wrap_up :: "string \<Rightarrow> bool \<Rightarrow> policy_decision" where
  "wrap_up reason opted = \<lparr> pd_phase = PH_WRAP_UP, pd_terminate = True, pd_reason = Some reason, pd_opt_out = opted \<rparr>"

definition policy_decide :: "conversation_phase \<Rightarrow> structured_output \<Rightarrow> string \<Rightarrow> nat \<Rightarrow> nat \<Rightarrow> bool \<Rightarrow> policy_decision" where
  "policy_decide phase out utterance declines unclear pending =
    (if so_suppress out \<or> detect_opt_out utterance then wrap_up ''opt_out'' True
     else if so_action out \<in> {NA_END_CALL_POLITE, NA_END_CALL_GOAL_MET} then wrap_up (action_value (so_action out)) False
     else if so_intent out = I_NEGATIVE \<and> declines \<ge> MAX_CONSECUTIVE_DECLINES then wrap_up ''repeated_decline'' False
     else if so_intent out = I_UNCLEAR \<and> unclear \<ge> MAX_CONSECUTIVE_UNCLEAR then wrap_up ''repeated_unclear'' False
     else let p = route phase (so_intent out) pending in
       \<lparr> pd_phase = p, pd_terminate = (p = PH_WRAP_UP), pd_reason = (if p = PH_WRAP_UP then Some ''wrap_up'' else None), pd_opt_out = False \<rparr>)"

section \<open>Facts\<close>

lemma phase_of_value [simp]: "phase_of (phase_value p) = Some p"
  by (cases p) (simp_all add: phase_of_def phases_def)

lemma decide_opt_out [simp]: "so_suppress out \<or> detect_opt_out u \<Longrightarrow> policy_decide phase out u n m pending = wrap_up ''opt_out'' True"
  by (auto simp: policy_decide_def)

lemma decide_opt_out_iff: "pd_opt_out (policy_decide phase out u n m pending) \<longleftrightarrow> so_suppress out \<or> detect_opt_out u"
  by (simp add: policy_decide_def wrap_up_def Let_def)

text \<open>The wrap-up phase and the end of the call are the same decision.\<close>

lemma decide_ends: "pd_terminate (policy_decide phase out u n m pending) \<longleftrightarrow> pd_phase (policy_decide phase out u n m pending) = PH_WRAP_UP"
  by (simp add: policy_decide_def wrap_up_def Let_def)

text \<open>A person who declines twice is not asked again, whatever the model proposes.\<close>

lemma decide_second_decline:
  "so_intent out = I_NEGATIVE \<Longrightarrow> 2 \<le> n \<Longrightarrow> pd_terminate (policy_decide phase out u n m pending)"
  by (simp add: policy_decide_def wrap_up_def MAX_CONSECUTIVE_DECLINES_def Let_def)

text \<open>The script cannot close while a required field is open.\<close>

lemma route_closing: "route phase i True = PH_CLOSING \<Longrightarrow> phase = PH_CLOSING"
  by (cases phase; cases i) (simp_all add: route_def ROUTING_def)

lemma decide_closing: "pd_phase (policy_decide phase out u n m True) = PH_CLOSING \<Longrightarrow> phase = PH_CLOSING"
  by (auto simp: policy_decide_def wrap_up_def Let_def split: if_splits dest: route_closing)

end
