(* ===== verification/Json_Text.thy ===== *)
theory Json_Text imports Py_Text "HOL-Library.AList" begin

text \<open>
  \<open>json.dumps\<close> and \<open>json.loads\<close> of the standard library with their default arguments, as the memory store uses them:
  separators \<open>', '\<close> and \<open>': '\<close>, every character outside printable ASCII escaped. Text is 8-bit, so an escape above
  that is not read. The text of a float (\<open>float.__repr__\<close>) is an argument; a float is read as the rational its text
  denotes. The decoder takes fuel: \<open>json_loads\<close> gives it twice the length of the text and two, and
  every two levels of the recursion consume a character.
\<close>

section \<open>Writing\<close>

definition escape_char :: "char \<Rightarrow> string" where
  "escape_char c =
    (if c = CHR 0x22 then [CHR 0x5C, CHR 0x22] else if c = CHR 0x5C then [CHR 0x5C, CHR 0x5C]
     else if c = CHR 0x0A then [CHR 0x5C, CHR ''n''] else if c = CHR 0x0D then [CHR 0x5C, CHR ''r'']
     else if c = CHR 0x09 then [CHR 0x5C, CHR ''t''] else if c = CHR 0x08 then [CHR 0x5C, CHR ''b'']
     else if c = CHR 0x0C then [CHR 0x5C, CHR ''f'']
     else if 32 \<le> (of_char c :: nat) \<and> (of_char c :: nat) \<le> 126 then [c]
     else CHR 0x5C # CHR ''u'' # hex_digits 4 (of_char c))"

definition quoted :: "string \<Rightarrow> string" where
  "quoted s = CHR 0x22 # concat (map escape_char s) @ [CHR 0x22]"

fun separated :: "string list \<Rightarrow> string" where
  "separated [] = []"
| "separated [x] = x"
| "separated (x # xs) = x @ '', '' @ separated xs"

fun json_text :: "(rat \<Rightarrow> string) \<Rightarrow> jval \<Rightarrow> string" where
  "json_text fr JNull = ''null''"
| "json_text fr (JBool b) = (if b then ''true'' else ''false'')"
| "json_text fr (JInt i) = int_text i"
| "json_text fr (JRat r) = fr r"
| "json_text fr (JStr s) = quoted s"
| "json_text fr (JId i) = quoted (uuid_text i)"
| "json_text fr (JList vs) = ''['' @ separated (map (json_text fr) vs) @ '']''"
| "json_text fr (JObj kvs) = ''{'' @ separated (map (\<lambda>kv. quoted (fst kv) @ '': '' @ json_text fr (snd kv)) kvs) @ ''}''"

section \<open>Reading\<close>

definition json_space :: "char \<Rightarrow> bool" where
  "json_space c \<longleftrightarrow> c \<in> {CHR '' '', CHR 0x09, CHR 0x0A, CHR 0x0D}"

definition skip_ws :: "string \<Rightarrow> string" where
  "skip_ws s = dropWhile json_space s"

text \<open>A backslash was read: the character it stands for, and what follows.\<close>

definition unescape :: "string \<Rightarrow> (char \<times> string) option" where
  "unescape s =
    (case s of
       [] \<Rightarrow> None
     | c # r \<Rightarrow>
        if c = CHR 0x22 \<or> c = CHR 0x5C \<or> c = CHR ''/'' then Some (c, r)
        else if c = CHR ''n'' then Some (CHR 0x0A, r) else if c = CHR ''r'' then Some (CHR 0x0D, r)
        else if c = CHR ''t'' then Some (CHR 0x09, r) else if c = CHR ''b'' then Some (CHR 0x08, r)
        else if c = CHR ''f'' then Some (CHR 0x0C, r)
        else if c = CHR ''u'' \<and> length r \<ge> 4 \<and> CHR ''_'' \<notin> set (take 4 r)
        then (case int_digits 16 0 False (take 4 r) of
            Some n \<Rightarrow> if n < 256 then Some (char_of n, drop 4 r) else None | None \<Rightarrow> None)
        else None)"

text \<open>The rest of a text after its opening quote; control characters must be escaped.\<close>

function (sequential) json_string :: "string \<Rightarrow> (string \<times> string) option" where
  "json_string [] = None"
| "json_string (c # r) =
    (if c = CHR 0x22 then Some ([], r)
     else if c = CHR 0x5C
     then (case unescape r of None \<Rightarrow> None
           | Some (x, r') \<Rightarrow> if length r' < length r then map_option (\<lambda>(t, r''). (x # t, r'')) (json_string r') else None)
     else if (of_char c :: nat) < 32 then None
     else map_option (\<lambda>(t, r'). (c # t, r')) (json_string r))"
  by pat_completeness auto
termination by (relation "measure length") auto

definition json_number :: "string \<Rightarrow> (jval \<times> string) option" where
  "json_number s =
    (let (neg, t) = (case s of c # r \<Rightarrow> if c = CHR ''-'' then (True, r) else (False, s) | [] \<Rightarrow> (False, s));
         ds = takeWhile py_digit t;
         ip = (if take 1 ds = ''0'' then ''0'' else ds);
         r1 = drop (length ip) t;
         fp = (case r1 of c # r \<Rightarrow> if c = CHR ''.'' then takeWhile py_digit r else [] | [] \<Rightarrow> []);
         fs = (if fp = [] then [] else CHR ''.'' # fp);
         r2 = drop (length fs) r1;
         sg = (case r2 of c # c' # r \<Rightarrow> if c \<in> {CHR ''e'', CHR ''E''} \<and> c' \<in> {CHR ''+'', CHR ''-''} then [c'] else [] | _ \<Rightarrow> []);
         ep = (case r2 of c # r \<Rightarrow> if c \<in> {CHR ''e'', CHR ''E''} then takeWhile py_digit (drop (length sg) r) else [] | [] \<Rightarrow> []);
         es = (if ep = [] then [] else CHR ''e'' # sg @ ep)
     in if ip = [] then None
        else if fs = [] \<and> es = [] then Some (JInt (if neg then - digits_value ip else digits_value ip), r1)
        else map_option (\<lambda>x. (JRat (if neg then - x else x), drop (length es) r2)) (decimal_float (ip @ fs @ es)))"

definition literal :: "string \<Rightarrow> jval \<Rightarrow> string \<Rightarrow> (jval \<times> string) option" where
  "literal w v s = (if take (length w) s = w then Some (v, drop (length w) s) else None)"

fun json_value :: "nat \<Rightarrow> string \<Rightarrow> (jval \<times> string) option"
and json_elems :: "nat \<Rightarrow> string \<Rightarrow> (jval list \<times> string) option"
and json_fields :: "nat \<Rightarrow> string \<Rightarrow> ((string \<times> jval) list \<times> string) option" where
  "json_value 0 s = None"
| "json_value (Suc n) s =
    (case s of
       [] \<Rightarrow> None
     | c # r \<Rightarrow>
        if c = CHR 0x22 then map_option (\<lambda>(t, r'). (JStr t, r')) (json_string r)
        else if c = CHR ''['' then
          (if take 1 (skip_ws r) = '']'' then Some (JList [], drop 1 (skip_ws r))
           else map_option (\<lambda>(vs, r'). (JList vs, r')) (json_elems n (skip_ws r)))
        else if c = CHR ''{'' then
          (if take 1 (skip_ws r) = ''}'' then Some (JObj [], drop 1 (skip_ws r))
           else map_option (\<lambda>(kvs, r'). (JObj (fold (\<lambda>(k, v). AList.update k v) kvs []), r')) (json_fields n (skip_ws r)))
        else if c = CHR ''n'' then literal ''null'' JNull s
        else if c = CHR ''t'' then literal ''true'' (JBool True) s
        else if c = CHR ''f'' then literal ''false'' (JBool False) s
        else json_number s)"
| "json_elems 0 s = None"
| "json_elems (Suc n) s =
    (case json_value n s of
       None \<Rightarrow> None
     | Some (v, r) \<Rightarrow>
        (case skip_ws r of
           [] \<Rightarrow> None
         | c # r' \<Rightarrow> if c = CHR '','' then map_option (\<lambda>(vs, r''). (v # vs, r'')) (json_elems n (skip_ws r'))
                     else if c = CHR '']'' then Some ([v], r') else None))"
| "json_fields 0 s = None"
| "json_fields (Suc n) s =
    (case s of
       [] \<Rightarrow> None
     | q # r0 \<Rightarrow>
        if q \<noteq> CHR 0x22 then None
        else (case json_string r0 of
           None \<Rightarrow> None
         | Some (k, r1) \<Rightarrow>
            (if take 1 (skip_ws r1) \<noteq> '':'' then None
             else case json_value n (skip_ws (drop 1 (skip_ws r1))) of
               None \<Rightarrow> None
             | Some (v, r2) \<Rightarrow>
                (case skip_ws r2 of
                   [] \<Rightarrow> None
                 | c # r3 \<Rightarrow> if c = CHR '','' then map_option (\<lambda>(kvs, r4). ((k, v) # kvs, r4)) (json_fields n (skip_ws r3))
                             else if c = CHR ''}'' then Some ([(k, v)], r3) else None))))"

definition json_loads :: "string \<Rightarrow> jval option" where
  "json_loads s =
    (case json_value (2 * length s + 2) (skip_ws s) of
       Some (v, r) \<Rightarrow> if skip_ws r = [] then Some v else None
     | None \<Rightarrow> None)"

section \<open>Reading back what was written\<close>

lemma escape_back:
  "json_string (escape_char c @ r) = map_option (\<lambda>(t, r'). (c # t, r')) (json_string r)"
proof -
  consider (named) "c \<in> {CHR 0x22, CHR 0x5C, CHR 0x0A, CHR 0x0D, CHR 0x09, CHR 0x08, CHR 0x0C}"
    | (plain) "c \<notin> {CHR 0x22, CHR 0x5C, CHR 0x0A, CHR 0x0D, CHR 0x09, CHR 0x08, CHR 0x0C}"
        "32 \<le> (of_char c :: nat) \<and> (of_char c :: nat) \<le> 126"
    | (coded) "c \<notin> {CHR 0x22, CHR 0x5C, CHR 0x0A, CHR 0x0D, CHR 0x09, CHR 0x08, CHR 0x0C}"
        "\<not> (32 \<le> (of_char c :: nat) \<and> (of_char c :: nat) \<le> 126)" by blast
  then show ?thesis
  proof cases
    case named
    then show ?thesis by (auto simp: escape_char_def unescape_def)
  next
    case plain
    then show ?thesis by (simp add: escape_char_def)
  next
    case coded
    let ?h = "hex_digits 4 (of_char c)"
    have l: "length ?h = 4" by (rule length_hex_digits)
    have n: "(of_char c :: nat) < 256" by (simp add: of_char_def)
    have "int_digits 16 0 False ?h = Some (of_char c)" using int_digits_hex [of 4 0 False "of_char c"] n by simp
    moreover have "CHR ''_'' \<notin> set ?h" using hex_digits_set [of 4 "of_char c"] by (auto simp: hex_set_def digit_of_def)
    ultimately have "unescape (CHR ''u'' # ?h @ r) = Some (c, r)" using l n by (simp add: unescape_def)
    then show ?thesis using coded l by (simp add: escape_char_def)
  qed
qed

lemma string_back: "json_string (concat (map escape_char s) @ CHR 0x22 # r) = Some (s, r)"
  by (induction s) (simp_all add: escape_back)

lemma quoted_back: "json_string (drop 1 (quoted s) @ r) = Some (s, r)" "quoted s = CHR 0x22 # drop 1 (quoted s)"
  using string_back [of s r] by (simp_all add: quoted_def)

text \<open>The values whose text is read back as they are: no floats (their text is not modelled), no ids (they are
  read as text), and no key twice in an object.\<close>

fun json_plain :: "jval \<Rightarrow> bool" where
  "json_plain (JList vs) = list_all json_plain vs"
| "json_plain (JObj kvs) = (distinct (map fst kvs) \<and> list_all (\<lambda>kv. json_plain (snd kv)) kvs)"
| "json_plain (JRat r) = False"
| "json_plain (JId i) = False"
| "json_plain v = True"

definition stops :: "string \<Rightarrow> bool" where
  "stops r \<longleftrightarrow> r = [] \<or> hd r \<in> {CHR '','', CHR '']'', CHR ''}''}"

lemma stops_simps [simp]: "stops []" "stops (CHR '','' # r)" "stops (CHR '']'' # r)" "stops (CHR ''}'' # r)"
  by (simp_all add: stops_def)

lemma decimal_no_zero: "n > 0 \<Longrightarrow> decimal n \<noteq> [] \<and> hd (decimal n) \<noteq> CHR ''0''"
proof (induction n rule: decimal.induct)
  case (1 n)
  show ?case
  proof (cases "n < 10")
    case True
    have "(of_char (char_of (48 + n) :: char) :: nat) = 48 + n" using digit_char [OF True] .
    moreover have "(of_char CHR ''0'' :: nat) = 48" by simp
    ultimately have "char_of (48 + n) \<noteq> CHR ''0''" using 1(2) by (metis add.right_neutral add_left_cancel less_irrefl)
    then show ?thesis using True by (simp add: decimal.simps)
  next
    case False
    then have "decimal n = decimal (n div 10) @ [char_of (48 + n mod 10)]" by (simp add: decimal.simps [of n])
    moreover have "n div 10 > 0" using False by simp
    ultimately show ?thesis using 1(1) [OF False] by simp
  qed
qed

lemma digits_end: "py_digits ds \<Longrightarrow> stops r \<Longrightarrow> takeWhile py_digit (ds @ r) = ds"
proof -
  assume "py_digits ds" "stops r"
  then have "\<forall>c \<in> set ds. py_digit c" "r = [] \<or> \<not> py_digit (hd r)"
    by (auto simp: py_digits_def list_all_iff py_digit_def stops_def)
  then show "takeWhile py_digit (ds @ r) = ds" by (cases r) (simp_all add: takeWhile_append2 takeWhile_append)
qed

lemma number_end:
  assumes "py_digits ds" "take 1 ds = ''0'' \<Longrightarrow> ds = ''0''" "stops r"
  shows "json_number (ds @ r) = Some (JInt (digits_value ds), r)" "json_number (CHR ''-'' # ds @ r) = Some (JInt (- digits_value ds), r)"
proof -
  have ne: "ds \<noteq> []" using assms(1) by (simp add: py_digits_def)
  have tw: "takeWhile py_digit (ds @ r) = ds" by (rule digits_end [OF assms(1,3)])
  have ip: "(if take 1 ds = ''0'' then ''0'' else ds) = ds"
  proof (cases "take 1 ds = ''0''")
    case True
    show ?thesis unfolding if_P [OF True] by (rule assms(2) [OF True, symmetric])
  qed (simp only: if_False)
  have nm: "hd ds \<noteq> CHR ''-''" using assms(1) ne by (cases ds) (auto simp: py_digits_def)
  have s1: "(case ds @ r of c # u \<Rightarrow> if c = CHR ''-'' then (True, u) else (False, ds @ r) | [] \<Rightarrow> (False, ds @ r)) = (False, ds @ r)"
  proof -
    obtain c t where "ds = c # t" "c \<noteq> CHR ''-''" using ne nm by (cases ds) auto
    then show ?thesis by simp
  qed
  show "json_number (ds @ r) = Some (JInt (digits_value ds), r)"
    unfolding json_number_def Let_def s1 prod.case tw ip using ne assms(3) by (cases r) (auto simp: stops_def)
  show "json_number (CHR ''-'' # ds @ r) = Some (JInt (- digits_value ds), r)"
    unfolding json_number_def Let_def list.case if_True simp_thms prod.case tw ip using ne assms(3) by (cases r) (auto simp: stops_def)
qed

lemma decimal_number: "stops r \<Longrightarrow> json_number (decimal n @ r) = Some (JInt (int n), r) \<and>
    json_number (CHR ''-'' # decimal n @ r) = Some (JInt (- int n), r)"
proof -
  assume r: "stops r"
  have z: "take 1 (decimal n) = ''0'' \<Longrightarrow> decimal n = ''0''"
  proof (cases "n = 0")
    case True
    moreover have "char_of (48 :: nat) = CHR ''0''" by code_simp
    ultimately show ?thesis by (simp add: decimal.simps)
  next
    case False
    with decimal_no_zero [of n] show "take 1 (decimal n) = ''0'' \<Longrightarrow> ?thesis" by (cases "decimal n") auto
  qed
  show ?thesis using number_end [of "decimal n" r] z decimal_value [of n] r by simp
qed

lemma int_back: "stops r \<Longrightarrow> json_number (int_text i @ r) = Some (JInt i, r)"
  using decimal_number [of r "nat i"] decimal_number [of r "nat (- i)"] by (simp add: int_text_def)

text \<open>The first character of a text decides how it is read.\<close>

lemma decimal_head: "decimal n \<noteq> [] \<and> py_digit (hd (decimal n))"
  using decimal_value [of n] by (cases "decimal n") (auto simp: py_digits_def py_digit_def)

lemma int_head: "int_text i \<noteq> [] \<and> (hd (int_text i) = CHR ''-'' \<or> py_digit (hd (int_text i)))"
  using decimal_head by (simp add: int_text_def)

lemma text_head:
  assumes "json_plain v"
  shows "json_text fr v \<noteq> [] \<and> \<not> json_space (hd (json_text fr v)) \<and> hd (json_text fr v) \<notin> {CHR '']'', CHR ''}'', CHR '',''}"
proof (cases v)
  case (JInt i)
  then show ?thesis using int_head [of i] by (auto simp: json_space_def py_digit_def)
qed (use assms in \<open>auto simp: json_space_def quoted_def\<close>)

lemma skip_text: "json_plain v \<Longrightarrow> skip_ws (json_text fr v @ r) = json_text fr v @ r"
  using text_head [of v fr] by (cases "json_text fr v") (auto simp: skip_ws_def)

lemma skip_simps [simp]: "skip_ws (CHR '' '' # r) = skip_ws r" "skip_ws (CHR '','' # r) = CHR '','' # r" "skip_ws (CHR '']'' # r) = CHR '']'' # r"
  "skip_ws (CHR ''}'' # r) = CHR ''}'' # r" "skip_ws (CHR '':'' # r) = CHR '':'' # r" "skip_ws (quoted k @ r) = quoted k @ r" "skip_ws [] = []"
  by (simp_all add: skip_ws_def json_space_def quoted_def)

lemma value_int: "stops r \<Longrightarrow> json_value (Suc n) (int_text i @ r) = Some (JInt i, r)"
proof -
  assume r: "stops r"
  obtain c t where c: "int_text i = c # t" "c = CHR ''-'' \<or> py_digit c" using int_head [of i] by (cases "int_text i") auto
  then have "c \<notin> {CHR 0x22, CHR ''['', CHR ''{'', CHR ''n'', CHR ''t'', CHR ''f''}" by (auto simp: py_digit_def)
  then have "json_value (Suc n) (int_text i @ r) = json_number (int_text i @ r)" using c(1) by simp
  then show ?thesis using int_back [OF r] by simp
qed

lemma elems_back:
  assumes "vs \<noteq> []" "\<And>v r n. v \<in> set vs \<Longrightarrow> stops r \<Longrightarrow> 2 * length (json_text fr v) \<le> n \<Longrightarrow> json_value n (json_text fr v @ r) = Some (v, r)"
    and "list_all json_plain vs" "2 * length (separated (map (json_text fr) vs)) + 2 \<le> n"
  shows "json_elems n (separated (map (json_text fr) vs) @ CHR '']'' # r) = Some (vs, r)"
  using assms
proof (induction vs arbitrary: n)
  case (Cons v vs)
  then obtain m where m: "n = Suc m" by (cases n) auto
  show ?case
  proof (cases vs)
    case Nil
    then have "json_value m (json_text fr v @ CHR '']'' # r) = Some (v, CHR '']'' # r)" using Cons.prems m by simp
    then show ?thesis using Nil m by simp
  next
    case (Cons w ws)
    let ?rest = "separated (map (json_text fr) vs) @ CHR '']'' # r"
    have s: "separated (map (json_text fr) (v # vs)) = json_text fr v @ '', '' @ separated (map (json_text fr) vs)" using Cons by simp
    have v: "json_value m (json_text fr v @ '', '' @ ?rest) = Some (v, '', '' @ ?rest)"
      using Cons.prems(2) [of v "'', '' @ ?rest" m] Cons.prems(4) m s by simp
    have "json_plain w" using Cons.prems(3) Cons by simp
    then have "skip_ws ?rest = ?rest" using Cons skip_text [of w fr] by (cases ws) simp_all
    moreover have "json_elems m ?rest = Some (vs, r)"
      by (rule Cons.IH) (use Cons Cons.prems m s in auto)
    ultimately show ?thesis using v m s by simp
  qed
qed simp

lemma fields_back:
  assumes "kvs \<noteq> []" "\<And>kv r n. kv \<in> set kvs \<Longrightarrow> stops r \<Longrightarrow> 2 * length (json_text fr (snd kv)) \<le> n \<Longrightarrow>
      json_value n (json_text fr (snd kv) @ r) = Some (snd kv, r)"
    and "list_all (\<lambda>kv. json_plain (snd kv)) kvs"
    and "2 * length (separated (map (\<lambda>kv. quoted (fst kv) @ '': '' @ json_text fr (snd kv)) kvs)) + 2 \<le> n"
  shows "json_fields n (separated (map (\<lambda>kv. quoted (fst kv) @ '': '' @ json_text fr (snd kv)) kvs) @ CHR ''}'' # r) = Some (kvs, r)"
  using assms
proof (induction kvs arbitrary: n)
  case (Cons kv kvs)
  obtain k v where kv: "kv = (k, v)" by (metis surj_pair)
  from Cons.prems obtain m where m: "n = Suc m" by (cases n) auto
  let ?f = "\<lambda>kv. quoted (fst kv) @ '': '' @ json_text fr (snd kv)"
  have q: "json_string (drop 1 (quoted k) @ x) = Some (k, x)" for x by (rule quoted_back(1))
  have split: "quoted k @ x = CHR 0x22 # drop 1 (quoted k) @ x" for x using quoted_back(2) [of k] by simp
  have step: "json_fields n (quoted k @ '': '' @ json_text fr v @ x) =
      (case skip_ws x of [] \<Rightarrow> None
       | c # r3 \<Rightarrow> if c = CHR '','' then map_option (\<lambda>(kvs, r4). ((k, v) # kvs, r4)) (json_fields m (skip_ws r3))
                  else if c = CHR ''}'' then Some ([(k, v)], r3) else None)"
    if "json_value m (json_text fr v @ x) = Some (v, x)" for x
    using that skip_text [of v fr x] Cons.prems(3) kv q unfolding m split by simp
  show ?case
  proof (cases kvs)
    case Nil
    have "json_value m (json_text fr v @ CHR ''}'' # r) = Some (v, CHR ''}'' # r)" using Cons.prems kv m Nil by simp
    from step [OF this] show ?thesis using Nil kv by simp
  next
    case (Cons w ws)
    let ?rest = "separated (map ?f kvs) @ CHR ''}'' # r"
    have s: "separated (map ?f (kv # kvs)) = quoted k @ '': '' @ json_text fr v @ '', '' @ separated (map ?f kvs)" using Cons kv by simp
    have "json_value m (json_text fr v @ '', '' @ ?rest) = Some (v, '', '' @ ?rest)"
      using Cons.prems(2) [of kv "'', '' @ ?rest" m] Cons.prems(4) m s kv by simp
    note st = step [OF this]
    have "skip_ws ?rest = ?rest" using Cons by (cases ws) simp_all
    moreover have "json_fields m ?rest = Some (kvs, r)"
      by (rule Cons.IH) (use Cons Cons.prems m s in auto)
    ultimately show ?thesis using st s kv by simp
  qed
qed simp

lemma fold_update_distinct:
  "distinct (map fst (xs @ kvs)) \<Longrightarrow> fold (\<lambda>(k, v). AList.update k v) kvs xs = xs @ kvs"
proof (induction kvs arbitrary: xs)
  case (Cons kv kvs)
  obtain k v where kv: "kv = (k, v)" by (metis surj_pair)
  have "AList.update k v xs = xs @ [(k, v)]" using Cons.prems kv by (induction xs) auto
  then show ?case using Cons.IH [of "xs @ [(k, v)]"] Cons.prems kv by simp
qed simp

lemma value_back:
  assumes "json_plain v" "stops r" "2 * length (json_text fr v) \<le> n"
  shows "json_value n (json_text fr v @ r) = Some (v, r)"
  using assms
proof (induction v arbitrary: r n)
  case (JStr x)
  then obtain m where "n = Suc m" by (cases n) (auto simp: quoted_def)
  then show ?case using string_back [of x r] by (simp add: quoted_def)
next
  case (JInt i)
  then obtain m where "n = Suc m" using int_head [of i] by (cases n) auto
  then show ?case using value_int JInt by simp
next
  case (JList vs)
  then obtain m where m: "n = Suc m" by (cases n) auto
  show ?case
  proof (cases vs)
    case Nil
    then show ?thesis using m by (simp add: skip_ws_def json_space_def)
  next
    case (Cons w ws)
    let ?t = "separated (map (json_text fr) vs) @ CHR '']'' # r"
    have e: "json_elems m ?t = Some (vs, r)"
      by (rule elems_back) (use Cons JList m in \<open>auto simp: list_all_iff\<close>)
    have "json_plain w" using JList.prems(1) Cons by simp
    then have "skip_ws ?t = ?t" "take 1 ?t \<noteq> '']''" using Cons skip_text [of w fr] text_head [of w fr]
      by (cases ws; cases "json_text fr w"; simp)+
    then show ?thesis using e m by simp
  qed
next
  case (JObj kvs)
  then obtain m where m: "n = Suc m" by (cases n) auto
  let ?f = "\<lambda>kv. quoted (fst kv) @ '': '' @ json_text fr (snd kv)"
  show ?case
  proof (cases kvs)
    case Nil
    then show ?thesis using m by (simp add: skip_ws_def json_space_def)
  next
    case (Cons w ws)
    let ?t = "separated (map ?f kvs) @ CHR ''}'' # r"
    have e: "json_fields m ?t = Some (kvs, r)"
    proof (rule fields_back)
      fix kv r n assume kv: "kv \<in> set kvs" "stops r" "2 * length (json_text fr (snd kv)) \<le> n"
      obtain k v where p: "kv = (k, v)" by (metis surj_pair)
      have "json_plain v" using JObj.prems(1) kv(1) p by (auto simp: list_all_iff)
      then show "json_value n (json_text fr (snd kv) @ r) = Some (snd kv, r)"
        using JObj.IH [OF kv(1), of v r n] kv p by simp
    qed (use Cons JObj m in auto)
    have "skip_ws ?t = ?t" "take 1 ?t \<noteq> ''}''" using Cons by (cases ws; simp add: quoted_def skip_ws_def json_space_def)+
    then show ?thesis using e m JObj.prems(1) fold_update_distinct [of "[]" kvs] by simp
  qed
next
  case JNull
  then obtain m where "n = Suc m" by (cases n) auto
  then show ?case by (simp add: literal_def)
next
  case (JBool b)
  then obtain m where "n = Suc m" by (cases n) (auto split: if_splits)
  then show ?case by (simp add: literal_def)
qed simp_all

text \<open>A text read back whole.\<close>

lemma loads_text: "json_plain v \<Longrightarrow> json_loads (json_text fr v) = Some v"
  using value_back [of v "[]" fr "2 * length (json_text fr v) + 2"] skip_text [of v fr "[]"] by (simp add: json_loads_def)

end
