(* ===== verification/Conversation_Memory.thy ===== *)
theory Conversation_Memory imports Conversation_Policy Json_Text begin

text \<open>
  \<open>app/services/ai/memory/schema.py\<close> and \<open>store.py\<close>: the working memory of a conversation, its snapshots in PostgreSQL
  and the copy in Redis. A dictionary is an association list in insertion order; a JSONB column gives back the value it
  was given. The newest snapshot of an attempt is its last row (\<open>snapshotted_at\<close> is \<open>clock_timestamp()\<close>); a cached copy is
  the JSON text a checkpoint wrote, with its expiry. The two readers are modelled apart: \<open>from_snapshot_row\<close> for a row,
  \<open>from_cached\<close> for the text. Nothing checks the types of the cached fields: a text with a field of another type than the
  code writes is outside the model (\<open>Read_raises\<close>).
\<close>

section \<open>Working memory\<close>

record working_memory =
  wm_attempt :: uuid
  wm_contact :: uuid
  wm_entities :: payload
  wm_phase :: conversation_phase
  wm_completed :: "jval list"
  wm_pending :: "jval list"
  wm_objections :: "(string \<times> bool) list"
  wm_last :: "string option"
  wm_disconnects :: int
  wm_suppress :: bool
  wm_consent :: recording_consent
  wm_schema :: string

definition new_memory :: "uuid \<Rightarrow> uuid \<Rightarrow> working_memory" where
  "new_memory attempt contact = \<lparr> wm_attempt = attempt, wm_contact = contact, wm_entities = [], wm_phase = PH_OPENING,
     wm_completed = [], wm_pending = [], wm_objections = [], wm_last = None, wm_disconnects = 0, wm_suppress = False,
     wm_consent = RC_NOT_APPLICABLE, wm_schema = ''v1'' \<rparr>"

definition progress_to_dict :: "working_memory \<Rightarrow> payload" where
  "progress_to_dict m = [(''phase'', JStr (phase_value (wm_phase m))), (''completed_points'', JList (wm_completed m)),
     (''pending_points'', JList (wm_pending m))]"

text \<open>\<open>list(value)\<close> of a JSON value; \<open>None\<close> is the \<open>TypeError\<close>.\<close>

fun py_list :: "jval \<Rightarrow> jval list option" where
  "py_list (JList xs) = Some xs"
| "py_list (JStr s) = Some (map (\<lambda>c. JStr [c]) s)"
| "py_list (JObj kvs) = Some (map (\<lambda>(k, _). JStr k) kvs)"
| "py_list _ = None"

definition dict_get :: "payload \<Rightarrow> string \<Rightarrow> jval \<Rightarrow> jval" where
  "dict_get d k dflt = (case map_of d k of Some v \<Rightarrow> v | None \<Rightarrow> dflt)"

definition progress_from_dict :: "payload \<Rightarrow> (conversation_phase \<times> jval list \<times> jval list) option" where
  "progress_from_dict d =
    (case (case dict_get d ''phase'' (JStr (phase_value PH_OPENING)) of JStr v \<Rightarrow> phase_of v | _ \<Rightarrow> None,
           py_list (dict_get d ''completed_points'' (JList [])), py_list (dict_get d ''pending_points'' (JList []))) of
       (Some p, Some c, Some o') \<Rightarrow> Some (p, c, o')
     | _ \<Rightarrow> None)"

text \<open>\<open>ObjectionRecord\<close>: its dictionary and back. A missing key is a \<open>KeyError\<close>, which the reader of the cache takes for an
  unusable copy; anything else it cannot read leaves it as an exception.\<close>

datatype read_fault = Unusable | Read_raises

definition objection_to_dict :: "string \<times> bool \<Rightarrow> jval" where
  "objection_to_dict r = JObj [(''objection'', JStr (fst r)), (''addressed'', JBool (snd r))]"

definition field :: "payload \<Rightarrow> string \<Rightarrow> read_fault + jval" where
  "field d k = (case map_of d k of Some v \<Rightarrow> Inr v | None \<Rightarrow> Inl Unusable)"

fun objection_from_dict :: "jval \<Rightarrow> read_fault + string \<times> bool" where
  "objection_from_dict (JObj d) = rbind (field d ''objection'') (\<lambda>o'.
     case (o', dict_get d ''addressed'' (JBool False)) of (JStr x, JBool b) \<Rightarrow> Inr (x, b) | _ \<Rightarrow> Inl Read_raises)"
| "objection_from_dict _ = Inl Read_raises"

fun objections_from :: "jval list \<Rightarrow> read_fault + (string \<times> bool) list" where
  "objections_from [] = Inr []"
| "objections_from (v # vs) = rbind (objection_from_dict v) (\<lambda>x. rbind (objections_from vs) (\<lambda>xs. Inr (x # xs)))"

fun consent_text :: "recording_consent \<Rightarrow> string" where
  "consent_text RC_GRANTED = ''granted''"
| "consent_text RC_DENIED = ''denied''"
| "consent_text RC_UNCLEAR = ''unclear''"
| "consent_text RC_NOT_APPLICABLE = ''not_applicable''"

text \<open>The cached consent is a plain text, which is equal to the enum member of that value.\<close>

definition consent_of :: "string \<Rightarrow> recording_consent option" where
  "consent_of x = find (\<lambda>c. consent_text c = x) [RC_GRANTED, RC_DENIED, RC_UNCLEAR, RC_NOT_APPLICABLE]"

definition to_snapshot_dict :: "working_memory \<Rightarrow> payload" where
  "to_snapshot_dict m = [(''captured_entities'', JObj (wm_entities m)), (''script_progress'', JObj (progress_to_dict m)),
     (''objections_raised'', JList (map objection_to_dict (wm_objections m))),
     (''last_agent_utterance'', case wm_last m of None \<Rightarrow> JNull | Some x \<Rightarrow> JStr x),
     (''disconnect_count'', JInt (wm_disconnects m)), (''requires_suppression'', JBool (wm_suppress m)),
     (''recording_consent'', JStr (consent_text (wm_consent m))), (''schema_version'', JStr (wm_schema m))]"

text \<open>The row of a checkpoint.\<close>

definition to_snapshot :: "working_memory \<Rightarrow> snapshot" where
  "to_snapshot m = \<lparr> sn_attempt = wm_attempt m, sn_entities = wm_entities m, sn_progress = progress_to_dict m,
     sn_objections = map objection_to_dict (wm_objections m), sn_last_utterance = wm_last m, sn_disconnects = wm_disconnects m,
     sn_requires_suppression = wm_suppress m, sn_consent = wm_consent m, sn_schema = wm_schema m \<rparr>"

definition from_snapshot_row :: "uuid \<Rightarrow> uuid \<Rightarrow> snapshot \<Rightarrow> read_fault + working_memory" where
  "from_snapshot_row attempt contact s =
    (case progress_from_dict (sn_progress s) of
       None \<Rightarrow> Inl Read_raises
     | Some (p, completed, pending) \<Rightarrow> rbind (objections_from (sn_objections s)) (\<lambda>os.
         Inr \<lparr> wm_attempt = attempt, wm_contact = contact, wm_entities = sn_entities s, wm_phase = p,
           wm_completed = completed, wm_pending = pending, wm_objections = os, wm_last = sn_last_utterance s,
           wm_disconnects = sn_disconnects s, wm_suppress = sn_requires_suppression s, wm_consent = sn_consent s, wm_schema = sn_schema s \<rparr>))"

text \<open>The iteration over \<open>objections_raised\<close>: an empty text or object yields nothing, another one yields texts.\<close>

fun cached_objections :: "jval \<Rightarrow> read_fault + (string \<times> bool) list" where
  "cached_objections (JList vs) = objections_from vs"
| "cached_objections (JStr []) = Inr []"
| "cached_objections (JObj []) = Inr []"
| "cached_objections _ = Inl Read_raises"

definition from_cached_dict :: "uuid \<Rightarrow> uuid \<Rightarrow> payload \<Rightarrow> read_fault + working_memory" where
  "from_cached_dict attempt contact d =
    rbind (field d ''captured_entities'') (\<lambda>ents.
    rbind (field d ''script_progress'') (\<lambda>pr.
    case (case pr of JObj p \<Rightarrow> progress_from_dict p | _ \<Rightarrow> None) of
      None \<Rightarrow> Inl Read_raises
    | Some (p, completed, pending) \<Rightarrow>
       rbind (rbind (field d ''objections_raised'') cached_objections) (\<lambda>os.
       rbind (field d ''last_agent_utterance'') (\<lambda>u.
       rbind (field d ''disconnect_count'') (\<lambda>n.
       rbind (field d ''requires_suppression'') (\<lambda>sup.
       rbind (field d ''recording_consent'') (\<lambda>con.
       rbind (field d ''schema_version'') (\<lambda>ver.
       case (ents, n, sup, con, ver) of
         (JObj es, JInt k, JBool b, JStr ct, JStr vt) \<Rightarrow>
           (case (consent_of ct, case u of JNull \<Rightarrow> Some None | JStr x \<Rightarrow> Some (Some x) | _ \<Rightarrow> None) of
              (Some c, Some said) \<Rightarrow> Inr \<lparr> wm_attempt = attempt, wm_contact = contact, wm_entities = es, wm_phase = p,
                wm_completed = completed, wm_pending = pending, wm_objections = os, wm_last = said,
                wm_disconnects = k, wm_suppress = b, wm_consent = c, wm_schema = vt \<rparr>
            | _ \<Rightarrow> Inl Read_raises)
       | _ \<Rightarrow> Inl Read_raises))))))))"

text \<open>A text that is not JSON is a \<open>JSONDecodeError\<close>; one that is no object has no keys to ask for.\<close>

definition from_cached :: "uuid \<Rightarrow> uuid \<Rightarrow> string \<Rightarrow> read_fault + working_memory" where
  "from_cached attempt contact t =
    (case json_loads t of None \<Rightarrow> Inl Unusable | Some (JObj d) \<Rightarrow> from_cached_dict attempt contact d | Some _ \<Rightarrow> Inl Read_raises)"

section \<open>The store\<close>

definition CACHE_TTL_SECONDS :: int where "CACHE_TTL_SECONDS = 3600"

type_synonym memory_cache = "(uuid \<times> string \<times> instant) list"

definition cache_get :: "uuid \<Rightarrow> instant \<Rightarrow> memory_cache \<Rightarrow> string option" where
  "cache_get attempt now cache = (case map_of cache attempt of
     Some (t, until) \<Rightarrow> if now < until then Some t else None | None \<Rightarrow> None)"

definition latest_snapshot :: "uuid \<Rightarrow> db \<Rightarrow> snapshot option" where
  "latest_snapshot attempt d = get_row sn_attempt attempt (rev (snapshots d))"

definition checkpoint :: "(rat \<Rightarrow> string) \<Rightarrow> bool \<Rightarrow> instant \<Rightarrow> working_memory \<Rightarrow> db \<times> memory_cache \<Rightarrow> db \<times> memory_cache" where
  "checkpoint fr redis_up now m s =
    (case s of (d, cache) \<Rightarrow> (d\<lparr> snapshots := snapshots d @ [to_snapshot m] \<rparr>,
      if redis_up then AList.update (wm_attempt m) (json_text fr (JObj (to_snapshot_dict m)), now + seconds CACHE_TTL_SECONDS) cache
      else cache))"

text \<open>\<open>Inl ()\<close> is an exception; an empty or unusable cached text falls through to PostgreSQL.\<close>

definition load_row :: "uuid \<Rightarrow> uuid \<Rightarrow> db \<Rightarrow> unit + working_memory option" where
  "load_row attempt contact d =
    (case latest_snapshot attempt d of
       None \<Rightarrow> Inr None
     | Some q \<Rightarrow> (case from_snapshot_row attempt contact q of Inr m \<Rightarrow> Inr (Some m) | Inl _ \<Rightarrow> Inl ()))"

definition load_latest :: "bool \<Rightarrow> instant \<Rightarrow> uuid \<Rightarrow> uuid \<Rightarrow> db \<times> memory_cache \<Rightarrow> unit + working_memory option" where
  "load_latest redis_up now attempt contact s =
    (case s of (d, cache) \<Rightarrow>
      case (if redis_up then cache_get attempt now cache else None) of
        None \<Rightarrow> load_row attempt contact d
      | Some t \<Rightarrow>
          if t = [] then load_row attempt contact d
          else (case from_cached attempt contact t of
             Inr m \<Rightarrow> Inr (Some m)
           | Inl Unusable \<Rightarrow> load_row attempt contact d
           | Inl Read_raises \<Rightarrow> Inl ()))"

section \<open>Reading back one copy\<close>

lemma progress_roundtrip: "progress_from_dict (progress_to_dict m) = Some (wm_phase m, wm_completed m, wm_pending m)"
  by (simp add: progress_from_dict_def progress_to_dict_def dict_get_def)

lemma objection_roundtrip [simp]: "objection_from_dict (objection_to_dict r) = Inr r"
  by (simp add: objection_to_dict_def field_def dict_get_def)

lemma objections_roundtrip [simp]: "objections_from (map objection_to_dict os) = Inr os"
  by (induction os) simp_all

lemma consent_roundtrip [simp]: "consent_of (consent_text c) = Some c"
  by (cases c) (simp_all add: consent_of_def)

lemma row_roundtrip: "from_snapshot_row a c (to_snapshot m) = Inr (m\<lparr> wm_attempt := a, wm_contact := c \<rparr>)"
  unfolding from_snapshot_row_def by (simp add: to_snapshot_def progress_roundtrip)

lemma cached_dict_roundtrip: "from_cached_dict a c (to_snapshot_dict m) = Inr (m\<lparr> wm_attempt := a, wm_contact := c \<rparr>)"
proof -
  have "cached_objections (JList (map objection_to_dict (wm_objections m))) = Inr (wm_objections m)" by simp
  then show ?thesis
    by (cases "wm_last m") (simp_all add: from_cached_dict_def to_snapshot_dict_def field_def progress_roundtrip)
qed

text \<open>What a memory may hold for its text to be read back: entities and points without floats.\<close>

definition memory_plain :: "working_memory \<Rightarrow> bool" where
  "memory_plain m \<longleftrightarrow> json_plain (JObj (wm_entities m)) \<and> list_all json_plain (wm_completed m) \<and> list_all json_plain (wm_pending m)"

lemma snapshot_dict_plain: "memory_plain m \<Longrightarrow> json_plain (JObj (to_snapshot_dict m))"
  by (auto simp: memory_plain_def to_snapshot_dict_def progress_to_dict_def objection_to_dict_def list_all_iff split: option.splits)

lemma cached_roundtrip:
  assumes "memory_plain m"
  shows "from_cached a c (json_text fr (JObj (to_snapshot_dict m))) = Inr (m\<lparr> wm_attempt := a, wm_contact := c \<rparr>)"
  using loads_text [OF snapshot_dict_plain [OF assms], of fr] cached_dict_roundtrip [of a c m]
  by (simp add: from_cached_def del: json_text.simps)

lemma text_not_empty: "json_text fr (JObj d) \<noteq> []"
  by simp

lemma to_snapshot_sel [simp]: "sn_attempt (to_snapshot m) = wm_attempt m"
  by (simp add: to_snapshot_def)

lemma latest_checkpoint: "latest_snapshot (wm_attempt m) (fst (checkpoint fr up now m s)) = Some (to_snapshot m)"
  by (cases s) (simp add: checkpoint_def latest_snapshot_def get_row_Cons)

lemma checkpoint_frame: "fst (checkpoint fr up now m s) = (fst s)\<lparr> snapshots := snapshots (fst s) @ [to_snapshot m] \<rparr>"
  by (cases s) (simp add: checkpoint_def)

lemma load_row_checkpointed: "latest_snapshot a d = Some (to_snapshot m) \<Longrightarrow> load_row a c d = Inr (Some (m\<lparr> wm_attempt := a, wm_contact := c \<rparr>))"
  by (simp add: load_row_def row_roundtrip)

section \<open>Any sequence of checkpoints\<close>

type_synonym checkpoint_step = "bool \<times> instant \<times> working_memory"

definition run_checkpoints :: "(rat \<Rightarrow> string) \<Rightarrow> checkpoint_step list \<Rightarrow> db \<times> memory_cache \<Rightarrow> db \<times> memory_cache" where
  "run_checkpoints fr cs s = fold (\<lambda>(up, now, m). checkpoint fr up now m) cs s"

text \<open>The checkpoints of one attempt, newest first; the newest one; the newest one Redis took.\<close>

definition checkpoints_of :: "uuid \<Rightarrow> checkpoint_step list \<Rightarrow> checkpoint_step list" where
  "checkpoints_of a cs = rev (filter (\<lambda>(up, now, m). wm_attempt m = a) cs)"

lemma run_checkpoints_snoc: "run_checkpoints fr (cs @ [(up, now, m)]) s = checkpoint fr up now m (run_checkpoints fr cs s)"
  by (simp add: run_checkpoints_def)

lemma checkpoints_of_snoc: "checkpoints_of a (cs @ [(up, now, m)]) = (if wm_attempt m = a then [(up, now, m)] else []) @ checkpoints_of a cs"
  by (simp add: checkpoints_of_def)

lemma latest_after:
  "latest_snapshot a (fst (run_checkpoints fr cs s)) =
    (case checkpoints_of a cs of [] \<Rightarrow> latest_snapshot a (fst s) | (up, now, m) # _ \<Rightarrow> Some (to_snapshot m))"
proof (induction cs rule: rev_induct)
  case (snoc x cs)
  obtain up now m where x: "x = (up, now, m)" by (metis prod_cases3)
  have "latest_snapshot a (fst (checkpoint fr up now m t)) =
      (if wm_attempt m = a then Some (to_snapshot m) else latest_snapshot a (fst t))" for t
    by (simp add: checkpoint_frame latest_snapshot_def get_row_Cons)
  then show ?case using snoc x by (simp add: run_checkpoints_snoc checkpoints_of_snoc)
qed (simp add: run_checkpoints_def checkpoints_of_def)

lemma cached_after:
  "map_of (snd (run_checkpoints fr cs s)) a =
    (case find fst (checkpoints_of a cs) of
       None \<Rightarrow> map_of (snd s) a
     | Some (up, now, m) \<Rightarrow> Some (json_text fr (JObj (to_snapshot_dict m)), now + seconds CACHE_TTL_SECONDS))"
proof (induction cs rule: rev_induct)
  case (snoc x cs)
  obtain up now m where x: "x = (up, now, m)" by (metis prod_cases3)
  have "map_of (snd (checkpoint fr up now m t)) a =
      (if up \<and> wm_attempt m = a then Some (json_text fr (JObj (to_snapshot_dict m)), now + seconds CACHE_TTL_SECONDS)
       else map_of (snd t) a)" for t
    by (cases t) (auto simp: checkpoint_def update_conv' simp del: json_text.simps)
  then show ?case using snoc x by (simp add: run_checkpoints_snoc checkpoints_of_snoc del: json_text.simps)
qed (simp add: run_checkpoints_def checkpoints_of_def)

lemma checkpoints_of_plain: "x \<in> set (checkpoints_of a cs) \<Longrightarrow> x \<in> set cs \<and> wm_attempt (snd (snd x)) = a"
  by (auto simp: checkpoints_of_def)

lemma find_in: "find P xs = Some x \<Longrightarrow> x \<in> set xs"
  by (induction xs) (auto split: if_splits)

text \<open>After one checkpoint: nothing older may be cached when Redis did not take it.\<close>

lemma memory_stored:
  assumes "up \<or> map_of (snd s) (wm_attempt m) = None" "memory_plain m"
  shows "load_latest up' now' (wm_attempt m) (wm_contact m) (checkpoint fr up now m s) = Inr (Some m)"
proof -
  obtain d cache where s: "checkpoint fr up now m s = (d, cache)" by fastforce
  have l: "load_row (wm_attempt m) (wm_contact m) d = Inr (Some m)"
    using latest_checkpoint [of m fr up now s] s load_row_checkpointed [of "wm_attempt m" d m] by simp
  have c: "t = json_text fr (JObj (to_snapshot_dict m))" if "cache_get (wm_attempt m) now' cache = Some t" for t
    using that assms(1) s by (cases s) (auto simp: checkpoint_def cache_get_def update_conv' simp del: json_text.simps split: option.splits if_splits)
  show ?thesis using l c cached_roundtrip [OF assms(2), of "wm_attempt m" "wm_contact m" fr] text_not_empty
    by (auto simp: s load_latest_def simp del: json_text.simps split: option.split)
qed

text \<open>
  C37: whatever checkpoints were made, each with Redis up or down, from an empty cache: loading the memory of an
  attempt gives back the memory of its newest checkpoint, unchanged, or none when there was none. The one exception is
  spelled out: while Redis answers the read and still holds, less than an hour old, the copy of an older checkpoint because it did not
  take the writes since, that older memory is loaded. Captured values that are floats are left out.
\<close>

theorem memory_roundtrip:
  assumes "\<And>up t m. (up, t, m) \<in> set cs \<Longrightarrow> memory_plain m" "latest_snapshot a d = None"
  shows "load_latest up now a c (run_checkpoints fr cs (d, [])) =
    (let newest = (case checkpoints_of a cs of [] \<Rightarrow> None | (_, _, m) # _ \<Rightarrow> Some (m\<lparr> wm_contact := c \<rparr>)) in
     Inr (case (if up then find fst (checkpoints_of a cs) else None) of
       None \<Rightarrow> newest
     | Some (_, t, m) \<Rightarrow> if now < t + seconds CACHE_TTL_SECONDS then Some (m\<lparr> wm_contact := c \<rparr>) else newest))"
proof -
  let ?s = "run_checkpoints fr cs (d, [])"
  let ?newest = "case checkpoints_of a cs of [] \<Rightarrow> None | (_, _, m) # _ \<Rightarrow> Some (m\<lparr> wm_contact := c \<rparr>)"
  have own: "memory_plain m \<and> m\<lparr> wm_attempt := a, wm_contact := c \<rparr> = m\<lparr> wm_contact := c \<rparr>" if "(u, t, m) \<in> set (checkpoints_of a cs)" for u t m
    using checkpoints_of_plain [OF that] assms(1) by auto
  have row: "load_row a c (fst ?s) = Inr ?newest"
  proof (cases "checkpoints_of a cs")
    case Nil
    then show ?thesis using latest_after [of a fr cs "(d, [])"] assms(2) by (simp add: load_row_def)
  next
    case (Cons x xs)
    obtain u t m where x: "x = (u, t, m)" by (metis prod_cases3)
    have "latest_snapshot a (fst ?s) = Some (to_snapshot m)" using latest_after [of a fr cs "(d, [])"] Cons x by simp
    from load_row_checkpointed [OF this] show ?thesis using own [of u t m] Cons x by simp
  qed
  show ?thesis
  proof (cases "if up then find fst (checkpoints_of a cs) else None")
    case None
    then have "(if up then cache_get a now (snd ?s) else None) = None"
      using cached_after [of fr cs "(d, [])" a] by (simp add: cache_get_def split: if_splits)
    then show ?thesis using row None by (simp add: load_latest_def case_prod_beta Let_def)
  next
    case (Some x)
    obtain u t m where x: "x = (u, t, m)" by (metis prod_cases3)
    then have f: "up" "find fst (checkpoints_of a cs) = Some (u, t, m)" using Some by (simp_all split: if_splits)
    have m: "map_of (snd ?s) a = Some (json_text fr (JObj (to_snapshot_dict m)), t + seconds CACHE_TTL_SECONDS)"
      using cached_after [of fr cs "(d, [])" a] f(2) by (simp del: json_text.simps)
    note own = own [OF find_in [OF f(2)]]
    have "load_latest up now a c ?s = (if now < t + seconds CACHE_TTL_SECONDS then Inr (Some (m\<lparr> wm_contact := c \<rparr>)) else load_row a c (fst ?s))"
      using cached_roundtrip [OF conjunct1 [OF own], of a c fr] conjunct2 [OF own] text_not_empty f(1) m
      by (simp add: load_latest_def case_prod_beta cache_get_def del: json_text.simps)
    then show ?thesis using row f by (simp add: Let_def)
  qed
qed

definition closing_memory :: working_memory where
  "closing_memory = (new_memory 7 3)\<lparr> wm_phase := PH_CLOSING, wm_entities := [(''name'', JStr ''Asha'')],
     wm_objections := [(''price'', False)], wm_last := Some ''Hello'' \<rparr>"

theorem memory_roundtrip_witness:
  "load_latest True 5 7 3 (run_checkpoints (\<lambda>_. []) [(True, 1, new_memory 7 3), (True, 2, closing_memory)] (empty_db, [])) = Inr (Some closing_memory)"
proof -
  have p: "memory_plain (new_memory 7 3)" "memory_plain closing_memory" by (simp_all add: memory_plain_def new_memory_def closing_memory_def)
  have a: "wm_attempt closing_memory = 7" "closing_memory\<lparr> wm_contact := 3 \<rparr> = closing_memory" "(5 :: instant) < 2 + seconds CACHE_TTL_SECONDS"
    by (simp_all add: closing_memory_def new_memory_def CACHE_TTL_SECONDS_def seconds_def)
  have "load_latest True 5 7 3 (run_checkpoints (\<lambda>_. []) [(True, 1, new_memory 7 3), (True, 2, closing_memory)] (empty_db, [])) =
    (let newest = (case checkpoints_of 7 [(True, 1, new_memory 7 3), (True, 2, closing_memory)] of [] \<Rightarrow> None
         | (_, _, m) # _ \<Rightarrow> Some (m\<lparr> wm_contact := 3 \<rparr>)) in
     Inr (case (if True then find fst (checkpoints_of 7 [(True, 1, new_memory 7 3), (True, 2, closing_memory)]) else None) of
       None \<Rightarrow> newest
     | Some (_, t, m) \<Rightarrow> if 5 < t + seconds CACHE_TTL_SECONDS then Some (m\<lparr> wm_contact := 3 \<rparr>) else newest))"
    by (rule memory_roundtrip) (use p in \<open>auto simp: latest_snapshot_def empty_db_def\<close>)
  then show ?thesis using a by (simp add: checkpoints_of_def)
qed

text \<open>When the write to Redis fails and the key is still there, a later read prefers the old copy to the newer snapshot.\<close>

lemma stale_cache_wins:
  "load_latest True 3 7 3 (checkpoint (\<lambda>_. []) False 2 ((new_memory 7 3)\<lparr> wm_phase := PH_CLOSING \<rparr>)
      (checkpoint (\<lambda>_. []) True 1 (new_memory 7 3) (empty_db, []))) =
    Inr (Some (new_memory 7 3))"
  by code_simp

end
