(* ===== verification/Conversation.thy ===== *)
theory Conversation imports Conversation_Memory Recovery Analysis_Transcript begin

text \<open>
  \<open>app/services/ai/conversation/orchestrator.py\<close> and \<open>context.py\<close>: one conversation, turn by turn. The speech and
  language providers are arguments: the \<open>n\<close>-th call of the language model (\<open>ce_llm\<close>) or of the speech synthesis
  (\<open>ce_tts\<close>) gives its answer and how many times the person starts to speak while it runs (\<open>on_barge_in\<close> is called
  from the audio stream). \<open>ce_prompt\<close> is the text of the system prompt. The rows of the contact and of the attempt are read
  from the database, where the ORM objects write. The session of the streams is the list of the operations on it.
\<close>

section \<open>State\<close>

datatype audio_op = AU_start | AU_listen | AU_stt_start | AU_interrupt | AU_send string | AU_stt_stop | AU_stop

datatype llm_reply = Llm_reply structured_output | Llm_timeout | Llm_provider_error

record turn_context =
  tc_system :: string
  tc_recent :: "string list"
  tc_utterance :: string
  tc_reconnect :: bool
  tc_last :: "string option"

record 'p conv_env =
  ce_env :: "'p env"
  ce_llm :: "nat \<Rightarrow> turn_context \<Rightarrow> llm_reply \<times> nat"
  ce_tts :: "nat \<Rightarrow> string \<Rightarrow> string option \<times> nat"
  ce_prompt :: "working_memory \<Rightarrow> string"
  ce_redis :: "nat \<Rightarrow> bool"
  ce_float_text :: "rat \<Rightarrow> string"
  ce_reconnect :: bool

record conversation =
  cv_contact :: uuid
  cv_attempt :: uuid
  cv_memory :: working_memory
  cv_session :: "uuid option"
  cv_sequence :: int
  cv_generation :: nat
  cv_declines :: nat
  cv_unclear :: nat
  cv_silence :: nat
  cv_turns :: nat
  cv_ended :: bool
  cv_reason :: "string option"
  cv_audio :: "audio_op list"
  cv_llm_calls :: nat
  cv_tts_calls :: nat
  cv_checkpoints :: nat
  cv_db :: db
  cv_cache :: memory_cache
  cv_schedule :: schedule
  cv_jobs :: "analysis_job list"

text \<open>The clock and the ids of new rows during one operation.\<close>

record conv_answers =
  cw_now :: instant
  cw_suppression :: uuid
  cw_analysis :: uuid
  cw_schedule_up :: bool

definition MAX_LLM_RETRIES :: nat where "MAX_LLM_RETRIES = 1"
definition MAX_RESPONSE_REGENERATIONS :: nat where "MAX_RESPONSE_REGENERATIONS = 1"
definition MAX_SILENCE_PROMPTS :: nat where "MAX_SILENCE_PROMPTS = 1"
definition MAX_CONVERSATION_TURNS :: nat where "MAX_CONVERSATION_TURNS = 40"
definition MAX_CONVERSATION_DURATION_SECONDS :: int where "MAX_CONVERSATION_DURATION_SECONDS = 1800"
definition MAX_RECENT_MESSAGES :: nat where "MAX_RECENT_MESSAGES = 10"

definition FALLBACK_RESPONSE :: string where
  "FALLBACK_RESPONSE = ''I'' @ [CHR 0x27] @ ''m sorry, I'' @ [CHR 0x27] @ ''m having trouble understanding. I'' @ [CHR 0x27] @ ''ll follow up another time.''"

definition fallback_output :: structured_output where
  "fallback_output = \<lparr> so_intent = I_UNCLEAR, so_entities = no_entities, so_action = NA_END_CALL_POLITE, so_text = FALLBACK_RESPONSE,
     so_suppress = False, so_consent = RC_NOT_APPLICABLE \<rparr>"

section \<open>Writes\<close>

definition log_event :: "string \<Rightarrow> payload \<Rightarrow> conversation \<Rightarrow> conversation" where
  "log_event etype pl v = v\<lparr> cv_db := add_call_event (cv_attempt v) etype pl (cv_db v) \<rparr>"

definition persist_message :: "conversation_role \<Rightarrow> string \<Rightarrow> conversation \<Rightarrow> conversation" where
  "persist_message role content v =
    (case cv_session v of
       None \<Rightarrow> v
     | Some s \<Rightarrow> v\<lparr> cv_sequence := cv_sequence v + 1, cv_db := (cv_db v)\<lparr> messages := messages (cv_db v) @
         [\<lparr> m_session = s, m_sequence = cv_sequence v + 1, m_role = role, m_content = content \<rparr>] \<rparr> \<rparr>)"

definition save_memory :: "'p conv_env \<Rightarrow> instant \<Rightarrow> conversation \<Rightarrow> conversation" where
  "save_memory e now v =
    (case checkpoint (ce_float_text e) (ce_redis e (cv_checkpoints v)) now (cv_memory v) (cv_db v, cv_cache v) of
       (d, cache) \<Rightarrow> v\<lparr> cv_db := d, cv_cache := cache, cv_checkpoints := Suc (cv_checkpoints v) \<rparr>)"

definition streams :: "audio_op list \<Rightarrow> conversation \<Rightarrow> conversation" where
  "streams ops v = v\<lparr> cv_audio := cv_audio v @ ops \<rparr>"

definition shutdown :: "conversation \<Rightarrow> conversation" where
  "shutdown = streams [AU_stt_stop, AU_stop]"

definition on_barge_in :: "conversation \<Rightarrow> conversation" where
  "on_barge_in v = log_event ''conversation_interrupted'' [] (streams [AU_interrupt] (v\<lparr> cv_generation := Suc (cv_generation v) \<rparr>))"

fun barged :: "nat \<Rightarrow> conversation \<Rightarrow> conversation" where
  "barged 0 v = v"
| "barged (Suc n) v = barged n (on_barge_in v)"

definition speak :: "'p conv_env \<Rightarrow> string \<Rightarrow> nat \<Rightarrow> conversation \<Rightarrow> conversation" where
  "speak e text generation v =
    (case ce_tts e (cv_tts_calls v) text of (reply, n) \<Rightarrow>
      let v1 = barged n (v\<lparr> cv_tts_calls := Suc (cv_tts_calls v) \<rparr>) in
      case reply of
        None \<Rightarrow> v1
      | Some bytes \<Rightarrow> if generation \<noteq> cv_generation v1 then v1 else streams [AU_send bytes] (persist_message ROLE_AGENT text v1))"

section \<open>The end of a conversation\<close>

definition end_session :: "instant \<Rightarrow> conversation \<Rightarrow> conversation" where
  "end_session now v =
    (case cv_session v of
       None \<Rightarrow> v
     | Some s \<Rightarrow> v\<lparr> cv_db := (cv_db v)\<lparr> sessions := upd_row cs_id s (\<lambda>q. q\<lparr> cs_status := CS_ENDED, cs_ended_at := Some now \<rparr>) (sessions (cv_db v)) \<rparr> \<rparr>)"

definition on_rows :: "(call_attempt \<Rightarrow> call_attempt) \<Rightarrow> (contact \<Rightarrow> contact) \<Rightarrow> conversation \<Rightarrow> conversation" where
  "on_rows f g v = v\<lparr> cv_db := upd_contact (cv_contact v) g (upd_attempt (cv_attempt v) f (cv_db v)) \<rparr>"

definition final_status :: "string \<Rightarrow> working_memory \<Rightarrow> contact_status" where
  "final_status reason m =
    (if reason = ''opt_out'' then C_CLOSED
     else if wm_pending m = [] \<and> reason \<in> {''end_call_goal_met'', ''wrap_up''} then C_COMPLETED else C_COMPLETED_PARTIAL)"

definition ended_row :: "attempt_state \<Rightarrow> instant \<Rightarrow> working_memory \<Rightarrow> call_attempt \<Rightarrow> call_attempt" where
  "ended_row st now m a = a\<lparr> a_state := st, a_ended_at := Some now, a_consent := Some (wm_consent m) \<rparr>"

definition admit_analysis :: "'p conv_env \<Rightarrow> conv_answers \<Rightarrow> conversation \<Rightarrow> conversation" where
  "admit_analysis e an v =
    (case (get_attempt (cv_attempt v) (cv_db v), get_contact (cv_contact v) (cv_db v)) of
       (Some a, Some c) \<Rightarrow>
         (case enqueue_call_analysis (ev_settings (ce_env e)) id (cw_now an) (cw_analysis an) a c (cv_db v) of
            (job, d) \<Rightarrow> v\<lparr> cv_db := d, cv_jobs := cv_jobs v @ (case job of Some j \<Rightarrow> [j] | None \<Rightarrow> []) \<rparr>)
     | _ \<Rightarrow> v)"

definition end_conversation :: "'p conv_env \<Rightarrow> conv_answers \<Rightarrow> string \<Rightarrow> conversation \<Rightarrow> conversation" where
  "end_conversation e an reason v =
    (if cv_ended v then v
     else let v1 = save_memory e (cw_now an) (v\<lparr> cv_ended := True, cv_reason := Some reason \<rparr>);
              v2 = end_session (cw_now an) (log_event ''conversation_ended'' [(''reason'', JStr reason)] v1);
              v3 = on_rows (ended_row A_ENDED_NORMALLY (cw_now an) (cv_memory v))
                     (\<lambda>c. c\<lparr> c_status := final_status reason (cv_memory v) \<rparr>) v2
          in admit_analysis e an (shutdown v3))"

definition recover_dropped :: "'p conv_env \<Rightarrow> conv_answers \<Rightarrow> mid_call_reason \<Rightarrow> conversation \<Rightarrow> conversation" where
  "recover_dropped e an reason v =
    (case (get_attempt (cv_attempt v) (cv_db v), get_contact (cv_contact v) (cv_db v)) of
       (Some a, Some c) \<Rightarrow>
         (case get_campaign (c_campaign c) (cv_db v) of
            None \<Rightarrow> v
          | Some camp \<Rightarrow>
             (case handle_disconnect (ce_env e) (cw_now an) (cw_analysis an) (cw_schedule_up an) a c camp False (mid_call_value reason) None
                 (cv_db v, cv_schedule v) of
                (_, job, d, sch) \<Rightarrow> v\<lparr> cv_db := d, cv_schedule := sch, cv_jobs := cv_jobs v @ (case job of Some j \<Rightarrow> [j] | None \<Rightarrow> []) \<rparr>))
     | _ \<Rightarrow> v)"

definition dropped :: "'p conv_env \<Rightarrow> conv_answers \<Rightarrow> mid_call_reason \<Rightarrow> conversation \<Rightarrow> conversation" where
  "dropped e an reason v =
    (if cv_ended v then v
     else let m = (cv_memory v)\<lparr> wm_disconnects := wm_disconnects (cv_memory v) + 1 \<rparr>;
              v1 = save_memory e (cw_now an)
                (v\<lparr> cv_ended := True, cv_reason := Some (''disconnected:'' @ mid_call_value reason), cv_memory := m \<rparr>);
              v2 = end_session (cw_now an) (log_event ''conversation_disconnected'' [(''reason'', JStr (mid_call_value reason))] v1);
              v3 = on_rows (\<lambda>a. (ended_row A_DROPPED_MID_CALL (cw_now an) m a)\<lparr> a_disc_reason := Some reason \<rparr>)
                     (\<lambda>c. c\<lparr> c_status := C_DISCONNECTED \<rparr>) v2
          in recover_dropped e an reason (shutdown v3))"

section \<open>A turn\<close>

definition recent_texts :: "conversation \<Rightarrow> string list" where
  "recent_texts v =
    (case cv_session v of
       None \<Rightarrow> []
     | Some s \<Rightarrow> map (\<lambda>m. role_value (m_role m) @ '': '' @ m_content m)
         (sort_key m_sequence (filter (\<lambda>m. m_session m = s) (messages (cv_db v)))))"

definition build_turn_context :: "string \<Rightarrow> working_memory \<Rightarrow> string list \<Rightarrow> string \<Rightarrow> bool \<Rightarrow> turn_context" where
  "build_turn_context prompt m recent utterance reconnect =
    (let bounded = last_n MAX_RECENT_MESSAGES recent in
     \<lparr> tc_system = prompt,
       tc_recent = (if length recent > MAX_RECENT_MESSAGES
         then (''('' @ int_text (int (length recent - MAX_RECENT_MESSAGES)) @ '' earlier turns summarized)'') # bounded else bounded),
       tc_utterance = utterance, tc_reconnect = reconnect, tc_last = wm_last m \<rparr>)"

definition turn_context_of :: "'p conv_env \<Rightarrow> string \<Rightarrow> conversation \<Rightarrow> turn_context" where
  "turn_context_of e utterance v =
    build_turn_context (ce_prompt e (cv_memory v)) (cv_memory v) (recent_texts v) utterance (ce_reconnect e \<and> cv_turns v = 1)"

text \<open>The first argument is the number of attempts left.\<close>

fun call_llm :: "nat \<Rightarrow> 'p conv_env \<Rightarrow> turn_context \<Rightarrow> conversation \<Rightarrow> structured_output option \<times> conversation" where
  "call_llm 0 e ctx v = (None, v)"
| "call_llm (Suc k) e ctx v =
    (case ce_llm e (cv_llm_calls v) ctx of (reply, n) \<Rightarrow>
      let v1 = barged n (v\<lparr> cv_llm_calls := Suc (cv_llm_calls v) \<rparr>) in
      case reply of
        Llm_reply out \<Rightarrow> (Some out, v1)
      | Llm_timeout \<Rightarrow> call_llm k e ctx v1
      | Llm_provider_error \<Rightarrow> call_llm k e ctx v1)"

fun regenerate :: "nat \<Rightarrow> 'p conv_env \<Rightarrow> turn_context \<Rightarrow> structured_output \<Rightarrow> conversation \<Rightarrow> structured_output \<times> conversation" where
  "regenerate 0 e ctx out v = (if validate_response out then out else fallback_output, v)"
| "regenerate (Suc k) e ctx out v =
    (if validate_response out then (out, v)
     else case call_llm (Suc MAX_LLM_RETRIES) e ctx v of
        (None, v1) \<Rightarrow> (fallback_output, v1)
      | (Some out1, v1) \<Rightarrow> regenerate k e ctx out1 v1)"

text \<open>The code's result is optional, but no branch returns \<open>None\<close>: the end for \<open>ai_failure\<close> is never reached.\<close>

definition generate_response :: "'p conv_env \<Rightarrow> string \<Rightarrow> conversation \<Rightarrow> structured_output \<times> conversation" where
  "generate_response e utterance v =
    (let ctx = turn_context_of e utterance v in
     case call_llm (Suc MAX_LLM_RETRIES) e ctx v of
       (None, v1) \<Rightarrow> (fallback_output, v1)
     | (Some out, v1) \<Rightarrow> regenerate MAX_RESPONSE_REGENERATIONS e ctx out v1)"

definition entity_values :: "entities \<Rightarrow> (string \<times> string option) list" where
  "entity_values n = [(''interest_level'', Some (ent_interest_level n)), (''objection'', ent_objection n),
     (''follow_up_preference'', ent_follow_up n), (''decision_maker_status'', Some (ent_decision_maker n)),
     (''free_text_feedback'', ent_feedback n)]"

fun capture :: "(string \<times> string option) list \<Rightarrow> working_memory \<Rightarrow> working_memory" where
  "capture [] m = m"
| "capture ((f, v) # fs) m =
    capture fs (case v of
        None \<Rightarrow> m
      | Some x \<Rightarrow> if x = [] \<or> x = NOT_CAPTURED then m
          else let m1 = m\<lparr> wm_entities := AList.update f (JStr x) (wm_entities m) \<rparr> in
            if JStr f \<in> set (wm_pending m1)
            then m1\<lparr> wm_pending := remove1 (JStr f) (wm_pending m1), wm_completed := wm_completed m1 @ [JStr f] \<rparr> else m1)"

definition update_memory :: "structured_output \<Rightarrow> working_memory \<Rightarrow> working_memory" where
  "update_memory out m =
    (let n = so_entities out;
         m1 = capture (entity_values n) m;
         m2 = (case ent_objection n of Some x \<Rightarrow> if x = [] then m1 else m1\<lparr> wm_objections := wm_objections m1 @ [(x, False)] \<rparr> | None \<Rightarrow> m1);
         m3 = (if so_suppress out then m2\<lparr> wm_suppress := True \<rparr> else m2)
     in if so_consent out \<noteq> RC_NOT_APPLICABLE then m3\<lparr> wm_consent := so_consent out \<rparr> else m3)"

definition apply_suppression :: "'p conv_env \<Rightarrow> conv_answers \<Rightarrow> conversation \<Rightarrow> conversation" where
  "apply_suppression e an v =
    (case get_contact (cv_contact v) (cv_db v) of
       None \<Rightarrow> v
     | Some c \<Rightarrow> v\<lparr> cv_db := upd_contact (cv_contact v) (\<lambda>c. c\<lparr> c_status := C_CLOSED \<rparr>)
         (snd (insert_if_absent (ce_env e) (cw_now an) (cw_suppression an) (c_number c) SUP_AGENT_IN_CALL
           (Some ''opt-out during AI conversation'') (Some (c_id c)) None (cv_db v))) \<rparr>)"

definition apply_output :: "'p conv_env \<Rightarrow> conv_answers \<Rightarrow> string \<Rightarrow> structured_output \<Rightarrow> nat \<Rightarrow> conversation \<Rightarrow> conversation" where
  "apply_output e an utterance out generation v =
    (let v1 = v\<lparr> cv_memory := update_memory out (cv_memory v),
                cv_declines := (if so_intent out = I_NEGATIVE then Suc (cv_declines v) else 0),
                cv_unclear := (if so_intent out = I_UNCLEAR then Suc (cv_unclear v) else 0) \<rparr>;
         dec = policy_decide (wm_phase (cv_memory v1)) out utterance (cv_declines v1) (cv_unclear v1) (wm_pending (cv_memory v1) \<noteq> []);
         v2 = (if pd_opt_out dec then apply_suppression e an v1 else v1);
         v3 = speak e (so_text out) generation (v2\<lparr> cv_memory := (cv_memory v2)\<lparr> wm_phase := pd_phase dec \<rparr> \<rparr>);
         v4 = save_memory e (cw_now an) (v3\<lparr> cv_memory := (cv_memory v3)\<lparr> wm_last := Some (so_text out) \<rparr> \<rparr>)
     in if pd_terminate dec then end_conversation e an (case pd_reason dec of Some r \<Rightarrow> r | None \<Rightarrow> ''wrap_up'') v4 else v4)"

definition too_long :: "instant \<Rightarrow> conversation \<Rightarrow> bool" where
  "too_long now v =
    (case cv_session v of
       None \<Rightarrow> False
     | Some s \<Rightarrow> (case get_row cs_id s (sessions (cv_db v)) of
         None \<Rightarrow> False
       | Some q \<Rightarrow> now - cs_started_at q > seconds MAX_CONVERSATION_DURATION_SECONDS))"

definition handle_final_utterance :: "'p conv_env \<Rightarrow> conv_answers \<Rightarrow> string \<Rightarrow> conversation \<Rightarrow> conversation" where
  "handle_final_utterance e an text v =
    (if cv_ended v then v
     else let v1 = v\<lparr> cv_turns := Suc (cv_turns v) \<rparr> in
       if cv_turns v1 > MAX_CONVERSATION_TURNS then end_conversation e an ''max_turns_reached'' v1
       else if too_long (cw_now an) v1 then end_conversation e an ''max_duration_reached'' v1
       else let v2 = persist_message ROLE_CONTACT text (v1\<lparr> cv_silence := 0 \<rparr>) in
         case generate_response e text v2 of (out, v3) \<Rightarrow>
           if cv_generation v2 \<noteq> cv_generation v3 then v3 else apply_output e an text out (cv_generation v2) v3)"

definition handle_silence :: "'p conv_env \<Rightarrow> conv_answers \<Rightarrow> conversation \<Rightarrow> conversation" where
  "handle_silence e an v =
    (if cv_ended v then v
     else if cv_silence v < MAX_SILENCE_PROMPTS
     then speak e ''Are you still there?'' (cv_generation v) (v\<lparr> cv_silence := Suc (cv_silence v) \<rparr>)
     else end_conversation e an ''silence_timeout'' v)"

section \<open>What happens to a conversation\<close>

datatype conv_event = Heard bool string | Silent | Barge | Disconnect mid_call_reason

fun conv_step :: "'p conv_env \<Rightarrow> conv_answers \<Rightarrow> conv_event \<Rightarrow> conversation \<Rightarrow> conversation" where
  "conv_step e an (Heard is_final text) v = (if is_final then handle_final_utterance e an text v else v)"
| "conv_step e an Silent v = handle_silence e an v"
| "conv_step e an Barge v = on_barge_in v"
| "conv_step e an (Disconnect reason) v = dropped e an reason v"

fun conv_run :: "'p conv_env \<Rightarrow> (conv_answers \<times> conv_event) list \<Rightarrow> conversation \<Rightarrow> conversation" where
  "conv_run e [] v = v"
| "conv_run e ((an, ev) # rest) v = conv_run e rest (conv_step e an ev v)"

section \<open>The start\<close>

datatype start_error = Session_already_owned | Memory_unreadable

definition new_conversation :: "uuid \<Rightarrow> uuid \<Rightarrow> db \<Rightarrow> memory_cache \<Rightarrow> schedule \<Rightarrow> conversation" where
  "new_conversation attempt contact d cache sch =
    \<lparr> cv_contact = contact, cv_attempt = attempt, cv_memory = new_memory attempt contact, cv_session = None, cv_sequence = 0,
      cv_generation = 0, cv_declines = 0, cv_unclear = 0, cv_silence = 0, cv_turns = 0, cv_ended = False, cv_reason = None,
      cv_audio = [], cv_llm_calls = 0, cv_tts_calls = 0, cv_checkpoints = 0, cv_db = d, cv_cache = cache, cv_schedule = sch, cv_jobs = [] \<rparr>"

text \<open>\<open>required\<close> are the required entity fields of the campaign (\<open>None\<close>: no agent configuration); \<open>source\<close> is the attempt
  whose memory is resumed.\<close>

definition start :: "'p conv_env \<Rightarrow> instant \<Rightarrow> bool \<Rightarrow> uuid \<Rightarrow> jval list option \<Rightarrow> uuid \<Rightarrow> conversation \<Rightarrow> start_error + conversation" where
  "start e now redis_up source required sid v =
    (case load_latest redis_up now source (cv_contact v) (cv_db v, cv_cache v) of
       Inl _ \<Rightarrow> Inl Memory_unreadable
     | Inr found \<Rightarrow>
       let m = (case (found, ce_reconnect e) of
             (Some m, True) \<Rightarrow> m\<lparr> wm_attempt := cv_attempt v, wm_disconnects := wm_disconnects m + 1 \<rparr>
           | _ \<Rightarrow> (case required of Some fs \<Rightarrow> if fs = [] then cv_memory v else (cv_memory v)\<lparr> wm_pending := fs \<rparr> | None \<Rightarrow> cv_memory v))
       in if load_conversation_session (cv_attempt v) (cv_db v) \<noteq> None then Inl Session_already_owned
          else Inr (log_event (if ce_reconnect e then ''conversation_reconnected'' else ''conversation_started'') []
            (streams [AU_start, AU_listen, AU_stt_start]
              (v\<lparr> cv_memory := m, cv_session := Some sid, cv_db := (cv_db v)\<lparr> sessions := sessions (cv_db v) @
                [\<lparr> cs_id = sid, cs_attempt = cv_attempt v, cs_status = CS_ACTIVE, cs_started_at = now, cs_ended_at = None,
                   cs_transcript_status = None, cs_transcript_reason = None, cs_transcript_url = None \<rparr>] \<rparr> \<rparr>))))"

end
