(* ===== verification/Conversation_Facts.thy ===== *)
theory Conversation_Facts imports Conversation Webhook_Facts begin

text \<open>What the operations of a conversation leave alone: the lemmas its properties share.\<close>

section \<open>Interruptions\<close>

lemma barge_sel [simp]:
  "cv_contact (on_barge_in v) = cv_contact v" "cv_attempt (on_barge_in v) = cv_attempt v" "cv_memory (on_barge_in v) = cv_memory v"
  "cv_session (on_barge_in v) = cv_session v" "cv_sequence (on_barge_in v) = cv_sequence v" "cv_declines (on_barge_in v) = cv_declines v"
  "cv_unclear (on_barge_in v) = cv_unclear v" "cv_silence (on_barge_in v) = cv_silence v" "cv_turns (on_barge_in v) = cv_turns v"
  "cv_ended (on_barge_in v) = cv_ended v" "cv_reason (on_barge_in v) = cv_reason v" "cv_llm_calls (on_barge_in v) = cv_llm_calls v"
  "cv_tts_calls (on_barge_in v) = cv_tts_calls v" "cv_checkpoints (on_barge_in v) = cv_checkpoints v" "cv_cache (on_barge_in v) = cv_cache v"
  "cv_schedule (on_barge_in v) = cv_schedule v" "cv_jobs (on_barge_in v) = cv_jobs v" "cv_generation (on_barge_in v) = Suc (cv_generation v)"
  "cv_db (on_barge_in v) = add_call_event (cv_attempt v) ''conversation_interrupted'' [] (cv_db v)"
  by (simp_all add: on_barge_in_def log_event_def streams_def)

lemma event_tables [simp]:
  "messages (add_call_event i t p d) = messages d" "snapshots (add_call_event i t p d) = snapshots d"
  "sessions (add_call_event i t p d) = sessions d" "contacts (add_call_event i t p d) = contacts d"
  "attempts (add_call_event i t p d) = attempts d" "suppressions (add_call_event i t p d) = suppressions d"
  "campaigns (add_call_event i t p d) = campaigns d"
  by (simp_all add: add_call_event_def)

lemma barged_sel [simp]:
  "cv_contact (barged n v) = cv_contact v" "cv_attempt (barged n v) = cv_attempt v" "cv_memory (barged n v) = cv_memory v"
  "cv_session (barged n v) = cv_session v" "cv_sequence (barged n v) = cv_sequence v" "cv_declines (barged n v) = cv_declines v"
  "cv_unclear (barged n v) = cv_unclear v" "cv_silence (barged n v) = cv_silence v" "cv_turns (barged n v) = cv_turns v"
  "cv_ended (barged n v) = cv_ended v" "cv_reason (barged n v) = cv_reason v" "cv_llm_calls (barged n v) = cv_llm_calls v"
  "cv_tts_calls (barged n v) = cv_tts_calls v" "cv_checkpoints (barged n v) = cv_checkpoints v" "cv_cache (barged n v) = cv_cache v"
  "cv_schedule (barged n v) = cv_schedule v" "cv_jobs (barged n v) = cv_jobs v" "cv_generation (barged n v) = cv_generation v + n"
  by (induction n v rule: barged.induct) simp_all

definition tables :: "db \<Rightarrow> conversation_message list \<times> snapshot list \<times> conversation_session list \<times> contact list \<times> call_attempt list \<times>
    suppression list \<times> campaign list" where
  "tables d = (messages d, snapshots d, sessions d, contacts d, attempts d, suppressions d, campaigns d)"

lemma barged_tables [simp]: "tables (cv_db (barged n v)) = tables (cv_db v)"
  by (induction n v rule: barged.induct) (simp_all add: tables_def)

section \<open>Calls of the language model\<close>

text \<open>Whatever the model answers, only the interruptions and the count of the calls remain of asking it.\<close>

definition asked :: "nat \<Rightarrow> conversation \<Rightarrow> conversation \<Rightarrow> bool" where
  "asked k v v' \<longleftrightarrow> tables (cv_db v') = tables (cv_db v) \<and> cv_contact v' = cv_contact v \<and> cv_attempt v' = cv_attempt v \<and>
    cv_memory v' = cv_memory v \<and> cv_session v' = cv_session v \<and> cv_sequence v' = cv_sequence v \<and> cv_declines v' = cv_declines v \<and>
    cv_unclear v' = cv_unclear v \<and> cv_silence v' = cv_silence v \<and> cv_turns v' = cv_turns v \<and> cv_ended v' = cv_ended v \<and>
    cv_reason v' = cv_reason v \<and> cv_tts_calls v' = cv_tts_calls v \<and> cv_checkpoints v' = cv_checkpoints v \<and> cv_cache v' = cv_cache v \<and>
    cv_schedule v' = cv_schedule v \<and> cv_jobs v' = cv_jobs v \<and> cv_llm_calls v' \<le> cv_llm_calls v + k \<and> cv_generation v \<le> cv_generation v'"

lemma asked_refl [simp]: "asked k v v"
  by (simp add: asked_def)

lemma asked_trans: "asked j v v1 \<Longrightarrow> asked k v1 v2 \<Longrightarrow> asked (j + k) v v2"
  by (simp add: asked_def)

lemma asked_call [simp]: "asked (Suc 0) v (barged n (v\<lparr> cv_llm_calls := Suc (cv_llm_calls v) \<rparr>))"
  by (simp add: asked_def)

lemma asked_step: "asked k (barged n (v\<lparr> cv_llm_calls := Suc (cv_llm_calls v) \<rparr>)) v' \<Longrightarrow> asked (Suc k) v v'"
  by (drule asked_trans [OF asked_call]) simp

declare call_llm.simps(2) [simp del] regenerate.simps(2) [simp del]

lemma call_llm_asked: "asked k v (snd (call_llm k e ctx v))"
proof (induction k e ctx v rule: call_llm.induct)
  case (2 k e ctx v)
  obtain reply n where l: "ce_llm e (cv_llm_calls v) ctx = (reply, n)" by fastforce
  let ?v1 = "barged n (v\<lparr> cv_llm_calls := Suc (cv_llm_calls v) \<rparr>)"
  have rec: "asked k ?v1 (snd (call_llm k e ctx ?v1))" if "reply \<in> {Llm_timeout, Llm_provider_error}"
    using "2.IH" [OF l [symmetric] refl] that by blast
  show ?case
  proof (cases reply)
    case (Llm_reply out)
    have "asked (Suc k) v ?v1" by (simp add: asked_def)
    then show ?thesis using Llm_reply by (simp add: l call_llm.simps(2))
  qed (use asked_step [OF rec] in \<open>simp_all add: l call_llm.simps(2)\<close>)
qed simp

lemma regenerate_asked: "asked (2 * k) v (snd (regenerate k e ctx out v))"
proof (induction k e ctx out v rule: regenerate.induct)
  case (2 k e ctx out v)
  obtain r v1 where c: "call_llm (Suc MAX_LLM_RETRIES) e ctx v = (r, v1)" by fastforce
  have a: "asked 2 v v1" using call_llm_asked [of "Suc MAX_LLM_RETRIES" v e ctx] unfolding c by (simp add: MAX_LLM_RETRIES_def numeral_2_eq_2)
  have more: "asked (2 * Suc k) v x" if "asked (2 * k) v1 x" for x using asked_trans [OF a that] by simp
  show ?case
  proof (cases "validate_response out")
    case False
    show ?thesis
    proof (cases r)
      case (Some out1)
      have "asked (2 * k) v1 (snd (regenerate k e ctx out1 v1))" by (rule "2.IH" [OF False c [symmetric] Some])
      then show ?thesis using False c Some more by (simp add: regenerate.simps(2))
    qed (use False c more in \<open>simp add: regenerate.simps(2)\<close>)
  qed (simp add: regenerate.simps(2))
qed simp

lemma generate_asked: "asked 4 v (snd (generate_response e text v))"
proof -
  let ?ctx = "turn_context_of e text v"
  obtain r v1 where c: "call_llm (Suc MAX_LLM_RETRIES) e ?ctx v = (r, v1)" by fastforce
  have a: "asked 2 v v1" using call_llm_asked [of "Suc MAX_LLM_RETRIES" v e ?ctx] unfolding c by (simp add: MAX_LLM_RETRIES_def numeral_2_eq_2)
  have more: "asked 4 v x" if "asked 2 v1 x" for x using asked_trans [OF a that] by simp
  have "asked 2 v1 (snd (regenerate MAX_RESPONSE_REGENERATIONS e ?ctx out v1))" for out
    using regenerate_asked [of MAX_RESPONSE_REGENERATIONS v1 e ?ctx out] by (simp add: MAX_RESPONSE_REGENERATIONS_def)
  then show ?thesis using more by (cases r) (simp_all add: generate_response_def Let_def c)
qed

text \<open>A model during whose calls nobody starts to speak.\<close>

definition quiet :: "'p conv_env \<Rightarrow> bool" where
  "quiet e \<longleftrightarrow> (\<forall>n ctx. snd (ce_llm e n ctx) = 0)"

lemma quiet_call: "quiet e \<Longrightarrow> cv_generation (snd (call_llm k e ctx v)) = cv_generation v"
proof (induction k e ctx v rule: call_llm.induct)
  case (2 k e ctx v)
  obtain reply where l: "ce_llm e (cv_llm_calls v) ctx = (reply, 0)" using "2.prems" by (metis quiet_def prod.collapse)
  show ?case using "2.IH" [OF l [symmetric] refl] "2.prems" by (cases reply) (simp_all add: l call_llm.simps(2))
qed simp

lemma quiet_regenerate: "quiet e \<Longrightarrow> cv_generation (snd (regenerate k e ctx out v)) = cv_generation v"
proof (induction k e ctx out v rule: regenerate.induct)
  case (2 k e ctx out v)
  obtain r v1 where c: "call_llm (Suc MAX_LLM_RETRIES) e ctx v = (r, v1)" by fastforce
  have g: "cv_generation v1 = cv_generation v" using quiet_call [OF "2.prems", of "Suc MAX_LLM_RETRIES" ctx v] by (simp add: c)
  show ?case
  proof (cases "validate_response out")
    case False
    show ?thesis
    proof (cases r)
      case (Some out1)
      then show ?thesis using "2.IH" [OF False c [symmetric] Some "2.prems"] False c g by (simp add: regenerate.simps(2))
    qed (use False c g in \<open>simp add: regenerate.simps(2)\<close>)
  qed (simp add: regenerate.simps(2))
qed simp

lemma quiet_generation:
  assumes "quiet e"
  shows "cv_generation (snd (generate_response e text v)) = cv_generation v"
proof -
  let ?ctx = "turn_context_of e text v"
  obtain r v1 where c: "call_llm (Suc MAX_LLM_RETRIES) e ?ctx v = (r, v1)" by fastforce
  have "cv_generation v1 = cv_generation v" using quiet_call [OF assms, of "Suc MAX_LLM_RETRIES" ?ctx v] by (simp add: c)
  then show ?thesis using quiet_regenerate [OF assms] by (cases r) (simp_all add: generate_response_def Let_def c)
qed

text \<open>Only a valid response, or the fallback, leaves the generation.\<close>

definition speakable :: "string \<Rightarrow> bool" where
  "speakable text \<longleftrightarrow> py_strip text \<noteq> [] \<and> length text \<le> MAX_RESPONSE_CHARS"

lemma fallback_speakable: "speakable (so_text fallback_output)" "speakable ''Are you still there?''"
  by (code_simp, code_simp)

lemma regenerate_speakable: "speakable (so_text (fst (regenerate k e ctx out v)))"
proof (induction k e ctx out v rule: regenerate.induct)
  case (1 e ctx out v)
  then show ?case using fallback_speakable by (simp add: speakable_def validate_response_def)
next
  case (2 k e ctx out v)
  obtain r v1 where c: "call_llm (Suc MAX_LLM_RETRIES) e ctx v = (r, v1)" by fastforce
  show ?case
  proof (cases "validate_response out")
    case True
    then show ?thesis by (simp add: speakable_def validate_response_def regenerate.simps(2))
  next
    case False
    show ?thesis
    proof (cases r)
      case (Some out1)
      have "speakable (so_text (fst (regenerate k e ctx out1 v1)))" by (rule "2.IH" [OF False c [symmetric] Some])
      then show ?thesis using False c Some by (simp add: regenerate.simps(2))
    qed (use False c fallback_speakable in \<open>simp add: regenerate.simps(2)\<close>)
  qed
qed

lemma generate_speakable: "speakable (so_text (fst (generate_response e text v)))"
proof -
  obtain r v1 where c: "call_llm (Suc MAX_LLM_RETRIES) e (turn_context_of e text v) v = (r, v1)" by fastforce
  then show ?thesis using regenerate_speakable fallback_speakable by (cases r) (simp_all add: generate_response_def Let_def c)
qed


section \<open>Speaking, saving, ending\<close>

lemma tables_iff: "tables d' = tables d \<longleftrightarrow> messages d' = messages d \<and> snapshots d' = snapshots d \<and> sessions d' = sessions d \<and>
    contacts d' = contacts d \<and> attempts d' = attempts d \<and> suppressions d' = suppressions d \<and> campaigns d' = campaigns d"
  by (simp add: tables_def)

text \<open>The rows of people and calls, and what no speech changes.\<close>

definition records :: "db \<Rightarrow> snapshot list \<times> conversation_session list \<times> contact list \<times> call_attempt list \<times> suppression list \<times> campaign list" where
  "records d = (snapshots d, sessions d, contacts d, attempts d, suppressions d, campaigns d)"

definition bookkeeping :: "conversation \<Rightarrow> uuid \<times> uuid \<times> uuid option \<times> nat \<times> nat \<times> nat \<times> nat \<times> bool \<times> string option \<times> nat \<times> schedule \<times> analysis_job list" where
  "bookkeeping v = (cv_contact v, cv_attempt v, cv_session v, cv_declines v, cv_unclear v, cv_silence v, cv_turns v, cv_ended v, cv_reason v,
     cv_llm_calls v, cv_schedule v, cv_jobs v)"

lemma bookkeeping_iff: "bookkeeping v' = bookkeeping v \<longleftrightarrow> cv_contact v' = cv_contact v \<and> cv_attempt v' = cv_attempt v \<and> cv_session v' = cv_session v \<and>
    cv_declines v' = cv_declines v \<and> cv_unclear v' = cv_unclear v \<and> cv_silence v' = cv_silence v \<and> cv_turns v' = cv_turns v \<and>
    cv_ended v' = cv_ended v \<and> cv_reason v' = cv_reason v \<and> cv_llm_calls v' = cv_llm_calls v \<and> cv_schedule v' = cv_schedule v \<and> cv_jobs v' = cv_jobs v"
  by (simp add: bookkeeping_def)

lemma tables_records: "tables d' = tables d \<Longrightarrow> records d' = records d"
  by (simp add: tables_def records_def)

definition transcript :: "conversation \<Rightarrow> conversation_message list" where
  "transcript v = filter (\<lambda>m. cv_session v = Some (m_session m)) (messages (cv_db v))"

lemma transcript_upd [simp]:
  "transcript (v\<lparr> cv_memory := m \<rparr>) = transcript v" "transcript (v\<lparr> cv_declines := n \<rparr>) = transcript v" "transcript (v\<lparr> cv_unclear := n \<rparr>) = transcript v"
  "transcript (v\<lparr> cv_silence := n \<rparr>) = transcript v" "transcript (v\<lparr> cv_turns := n \<rparr>) = transcript v" "transcript (v\<lparr> cv_ended := b \<rparr>) = transcript v"
  "transcript (v\<lparr> cv_reason := r \<rparr>) = transcript v"
  by (simp_all add: transcript_def)

lemma speak_keeps: "bookkeeping (speak e text g v) = bookkeeping v \<and> records (cv_db (speak e text g v)) = records (cv_db v) \<and>
    cv_memory (speak e text g v) = cv_memory v \<and> cv_checkpoints (speak e text g v) = cv_checkpoints v \<and> cv_cache (speak e text g v) = cv_cache v"
proof -
  obtain reply n where t: "ce_tts e (cv_tts_calls v) text = (reply, n)" by fastforce
  have r: "records (cv_db (barged n (v\<lparr> cv_tts_calls := Suc (cv_tts_calls v) \<rparr>))) = records (cv_db v)"
    by (rule tables_records) simp
  then show ?thesis by (cases reply)
      (simp_all add: speak_def t Let_def streams_def persist_message_def bookkeeping_def records_def split: option.split)
qed

lemma speak_transcript:
  "(transcript (speak e text g v) = transcript v \<and> cv_sequence (speak e text g v) = cv_sequence v) \<or>
   (\<exists>s. cv_session v = Some s \<and> cv_sequence (speak e text g v) = cv_sequence v + 1 \<and>
     transcript (speak e text g v) = transcript v @ [\<lparr> m_session = s, m_sequence = cv_sequence v + 1, m_role = ROLE_AGENT, m_content = text \<rparr>])"
proof -
  obtain reply n where t: "ce_tts e (cv_tts_calls v) text = (reply, n)" by fastforce
  let ?v1 = "barged n (v\<lparr> cv_tts_calls := Suc (cv_tts_calls v) \<rparr>)"
  have m: "messages (cv_db ?v1) = messages (cv_db v)" using barged_tables [of n "v\<lparr> cv_tts_calls := Suc (cv_tts_calls v) \<rparr>"] by (simp add: tables_def)
  show ?thesis by (cases reply) (auto simp: speak_def t Let_def streams_def persist_message_def transcript_def m split: option.split)
qed

lemma save_keeps: "bookkeeping (save_memory e now v) = bookkeeping v" "cv_memory (save_memory e now v) = cv_memory v"
  "cv_sequence (save_memory e now v) = cv_sequence v" "cv_generation (save_memory e now v) = cv_generation v"
  "cv_db (save_memory e now v) = (cv_db v)\<lparr> snapshots := snapshots (cv_db v) @ [to_snapshot (cv_memory v)] \<rparr>"
  by (simp_all add: save_memory_def checkpoint_def bookkeeping_def split: prod.split)

lemma save_sel [simp]:
  "cv_contact (save_memory e now v) = cv_contact v" "cv_attempt (save_memory e now v) = cv_attempt v" "cv_session (save_memory e now v) = cv_session v"
  "cv_ended (save_memory e now v) = cv_ended v" "cv_reason (save_memory e now v) = cv_reason v" "cv_turns (save_memory e now v) = cv_turns v"
  "cv_llm_calls (save_memory e now v) = cv_llm_calls v" "cv_schedule (save_memory e now v) = cv_schedule v" "cv_jobs (save_memory e now v) = cv_jobs v"
  "cv_memory (save_memory e now v) = cv_memory v" "cv_sequence (save_memory e now v) = cv_sequence v"
  "cv_db (save_memory e now v) = (cv_db v)\<lparr> snapshots := snapshots (cv_db v) @ [to_snapshot (cv_memory v)] \<rparr>"
  using save_keeps [of e now v] by (simp_all add: bookkeeping_iff)

end
