(* ===== verification/Conversation_Contract.thy ===== *)
theory Conversation_Contract imports Conversation_Facts begin

text \<open>
  What a conversation promises: an opt-out ends it and is recorded whatever the model answers, the transcript and the
  number of model calls stay within their bounds, nothing happens after the end, and a dropped call resumes with its memory.
\<close>

section \<open>Endings\<close>

lemma enqueue_turns:
  assumes "enqueue_call_analysis st id now i a c d = (job, d')"
  shows "messages d' = messages d \<and> snapshots d' = snapshots d"
  using assms by (auto simp: enqueue_call_analysis_def get_or_create_pending_def Let_def record_audit_event_def split: if_splits option.splits prod.splits)

lemma terminalize_turns: "terminalize st now aid a c reason d = (job, d') \<Longrightarrow> messages d' = messages d \<and> snapshots d' = snapshots d"
  unfolding terminalize_def Let_def by (drule enqueue_turns) (simp add: upd_contact_def record_audit_event_def)

lemma disconnect_turns:
  assumes "handle_disconnect w now aid up a c camp never reason ra (d, sch) = (dec, job, d', sch')"
  shows "messages d' = messages d \<and> snapshots d' = snapshots d"
proof -
  have "messages y = messages x \<and> snapshots y = snapshots x" if "schedule_retry now up a c camp dec (x, sch) = (y, z)" for dec x y z
    using that by (auto simp: schedule_retry_def Let_def upd_contact_def record_audit_event_def)
  then show ?thesis using assms by (auto simp: handle_disconnect_def Let_def split: if_splits prod.splits dest!: terminalize_turns)
qed

definition turns_kept :: "conversation \<Rightarrow> conversation \<Rightarrow> bool" where
  "turns_kept v v' \<longleftrightarrow> transcript v' = transcript v \<and> cv_sequence v' = cv_sequence v \<and> cv_session v' = cv_session v \<and>
    cv_llm_calls v' = cv_llm_calls v \<and> cv_turns v' = cv_turns v \<and> cv_contact v' = cv_contact v \<and> cv_attempt v' = cv_attempt v"

lemma admit_turns: "turns_kept v (admit_analysis e an v)"
  by (auto simp: admit_analysis_def turns_kept_def transcript_def split: option.split prod.split dest!: enqueue_turns)

lemma admit_sel [simp]: "cv_ended (admit_analysis e an v) = cv_ended v" "cv_memory (admit_analysis e an v) = cv_memory v"
  "cv_reason (admit_analysis e an v) = cv_reason v" "cv_schedule (admit_analysis e an v) = cv_schedule v"
  by (simp_all add: admit_analysis_def split: option.split prod.split)

lemma recover_turns: "turns_kept v (recover_dropped e an reason v)" "snapshots (cv_db (recover_dropped e an reason v)) = snapshots (cv_db v)"
  by (auto simp: recover_dropped_def turns_kept_def transcript_def split: option.split prod.split dest!: disconnect_turns)

lemma recover_sel [simp]: "cv_ended (recover_dropped e an reason v) = cv_ended v" "cv_memory (recover_dropped e an reason v) = cv_memory v"
  "cv_cache (recover_dropped e an reason v) = cv_cache v"
  by (simp_all add: recover_dropped_def split: option.split prod.split)

lemma turns_trans: "turns_kept v v1 \<Longrightarrow> turns_kept v1 v2 \<Longrightarrow> turns_kept v v2"
  by (simp add: turns_kept_def)

lemma turns_memory: "turns_kept v x \<Longrightarrow> turns_kept v (x\<lparr> cv_memory := m \<rparr>)"
  by (simp add: turns_kept_def)

lemma save_turns: "turns_kept v (save_memory e now v)"
  by (simp add: turns_kept_def transcript_def)

lemma row_turns [simp]: "turns_kept v (end_session now v)" "turns_kept v (log_event t p v)" "turns_kept v (on_rows f g v)" "turns_kept v (shutdown v)"
  "turns_kept v (on_barge_in v)"
  by (simp_all add: turns_kept_def end_session_def log_event_def on_rows_def shutdown_def streams_def transcript_def upd_contact_def upd_attempt_def
      split: option.split)

lemma row_ended [simp]: "cv_ended (end_session now v) = cv_ended v" "cv_ended (log_event t p v) = cv_ended v" "cv_ended (on_rows f g v) = cv_ended v"
  "cv_ended (shutdown v) = cv_ended v"
  by (simp_all add: end_session_def log_event_def on_rows_def shutdown_def streams_def split: option.split)

lemma end_turns: "turns_kept v (end_conversation e an reason v)" "cv_ended (end_conversation e an reason v)"
proof -
  show "turns_kept v (end_conversation e an reason v)"
  proof (cases "cv_ended v")
    case False
    let ?v0 = "v\<lparr> cv_ended := True, cv_reason := Some reason \<rparr>"
    have "turns_kept v ?v0" by (simp add: turns_kept_def)
    then show ?thesis using False unfolding end_conversation_def Let_def
      by (auto intro!: turns_trans [OF _ admit_turns] turns_trans [OF _ row_turns(1)] turns_trans [OF _ row_turns(2)]
          turns_trans [OF _ row_turns(3)] turns_trans [OF _ row_turns(4)] turns_trans [OF _ save_turns])
  qed (simp add: end_conversation_def turns_kept_def)
  show "cv_ended (end_conversation e an reason v)"
    by (simp add: end_conversation_def Let_def)
qed

lemma dropped_turns: "turns_kept v (dropped e an reason v)" "cv_ended (dropped e an reason v)"
proof -
  show "turns_kept v (dropped e an reason v)"
  proof (cases "cv_ended v")
    case False
    let ?v0 = "v\<lparr> cv_ended := True, cv_reason := Some (''disconnected:'' @ mid_call_value reason),
      cv_memory := (cv_memory v)\<lparr> wm_disconnects := wm_disconnects (cv_memory v) + 1 \<rparr> \<rparr>"
    have "turns_kept v ?v0" by (simp add: turns_kept_def)
    then show ?thesis using False unfolding dropped_def Let_def
      by (auto intro!: turns_trans [OF _ recover_turns(1)] turns_trans [OF _ row_turns(1)] turns_trans [OF _ row_turns(2)]
          turns_trans [OF _ row_turns(3)] turns_trans [OF _ row_turns(4)] turns_trans [OF _ save_turns])
  qed (simp add: dropped_def turns_kept_def)
  show "cv_ended (dropped e an reason v)"
    by (simp add: dropped_def Let_def)
qed

section \<open>Bounds\<close>

definition transcript_ok :: "conversation \<Rightarrow> bool" where
  "transcript_ok v \<longleftrightarrow> 0 \<le> cv_sequence v \<and> map m_sequence (transcript v) = [1..cv_sequence v] \<and>
    (\<forall>m \<in> set (transcript v). m_role m = ROLE_AGENT \<longrightarrow> speakable (m_content m))"

definition conv_ok :: "conversation \<Rightarrow> bool" where
  "conv_ok v \<longleftrightarrow> transcript_ok v \<and> cv_llm_calls v \<le> 4 * min (cv_turns v) MAX_CONVERSATION_TURNS \<and>
    cv_turns v \<le> Suc MAX_CONVERSATION_TURNS \<and> (cv_turns v = Suc MAX_CONVERSATION_TURNS \<longrightarrow> cv_ended v)"

lemma ok_kept: "transcript_ok v \<Longrightarrow> turns_kept v v' \<Longrightarrow> transcript_ok v'"
  by (simp add: transcript_ok_def turns_kept_def)

lemma ok_append:
  assumes "transcript_ok v" "transcript v' = transcript v @ [\<lparr> m_session = s, m_sequence = cv_sequence v + 1, m_role = role, m_content = content \<rparr>]"
    and "cv_sequence v' = cv_sequence v + 1" "role = ROLE_AGENT \<Longrightarrow> speakable content"
  shows "transcript_ok v'"
  using assms upto_rec2 [of 1 "cv_sequence v + 1"] by (auto simp: transcript_ok_def)

lemma speak_ok: "transcript_ok v \<Longrightarrow> speakable text \<Longrightarrow> transcript_ok (speak e text g v)"
  using speak_transcript [of e "text" g v] ok_append by (metis transcript_ok_def)

lemma persist_ok: "transcript_ok v \<Longrightarrow> transcript_ok (persist_message ROLE_CONTACT text v)"
proof (cases "cv_session v")
  case (Some s)
  assume "transcript_ok v"
  then show ?thesis by (rule ok_append [where role = ROLE_CONTACT and content = "text" and s = s]) (simp_all add: persist_message_def Some transcript_def)
qed (simp add: persist_message_def)

lemma asked_ok: "asked k v v' \<Longrightarrow> transcript_ok v \<Longrightarrow> transcript_ok v'"
  by (simp add: asked_def transcript_ok_def transcript_def tables_def)

lemma suppression_turns: "turns_kept v (apply_suppression e an v)"
  by (auto simp: apply_suppression_def turns_kept_def transcript_def insert_if_absent_def Let_def upd_contact_def split: option.split)

text \<open>The steps of \<open>apply_output\<close>, one by one.\<close>

lemma apply_output_steps:
  obtains v1 dec v2 v3 v4 reason where
    "v1 = v\<lparr> cv_memory := update_memory out (cv_memory v), cv_declines := (if so_intent out = I_NEGATIVE then Suc (cv_declines v) else 0),
       cv_unclear := (if so_intent out = I_UNCLEAR then Suc (cv_unclear v) else 0) \<rparr>"
    "dec = policy_decide (wm_phase (cv_memory v1)) out text (cv_declines v1) (cv_unclear v1) (wm_pending (cv_memory v1) \<noteq> [])"
    "v2 = (if pd_opt_out dec then apply_suppression e an v1 else v1)"
    "v3 = speak e (so_text out) g (v2\<lparr> cv_memory := (cv_memory v2)\<lparr> wm_phase := pd_phase dec \<rparr> \<rparr>)"
    "v4 = save_memory e (cw_now an) (v3\<lparr> cv_memory := (cv_memory v3)\<lparr> wm_last := Some (so_text out) \<rparr> \<rparr>)"
    "reason = (case pd_reason dec of Some r \<Rightarrow> r | None \<Rightarrow> ''wrap_up'')"
    "apply_output e an text out g v = (if pd_terminate dec then end_conversation e an reason v4 else v4)"
  by (rule that, (rule refl)+) (simp only: apply_output_def Let_def)

lemma apply_output_ok:
  assumes "transcript_ok v" "speakable (so_text out)"
  shows "transcript_ok (apply_output e an text out g v) \<and> cv_llm_calls (apply_output e an text out g v) = cv_llm_calls v \<and>
    cv_turns (apply_output e an text out g v) = cv_turns v"
proof (rule apply_output_steps [of out v "text" e an g])
  fix v1 dec v2 v3 v4 reason
  assume v1: "v1 = v\<lparr> cv_memory := update_memory out (cv_memory v), cv_declines := (if so_intent out = I_NEGATIVE then Suc (cv_declines v) else 0),
       cv_unclear := (if so_intent out = I_UNCLEAR then Suc (cv_unclear v) else 0) \<rparr>"
    and v2: "v2 = (if pd_opt_out dec then apply_suppression e an v1 else v1)"
    and v3: "v3 = speak e (so_text out) g (v2\<lparr> cv_memory := (cv_memory v2)\<lparr> wm_phase := pd_phase dec \<rparr> \<rparr>)"
    and v4: "v4 = save_memory e (cw_now an) (v3\<lparr> cv_memory := (cv_memory v3)\<lparr> wm_last := Some (so_text out) \<rparr> \<rparr>)"
    and result: "apply_output e an text out g v = (if pd_terminate dec then end_conversation e an reason v4 else v4)"
  let ?w2 = "v2\<lparr> cv_memory := (cv_memory v2)\<lparr> wm_phase := pd_phase dec \<rparr> \<rparr>"
  have "turns_kept v v1" by (simp add: v1 turns_kept_def)
  then have "turns_kept v v2" unfolding v2 by (auto intro: turns_trans [OF _ suppression_turns])
  then have t: "turns_kept v ?w2" by (rule turns_memory)
  have w2: "transcript_ok ?w2" "cv_llm_calls ?w2 = cv_llm_calls v" "cv_turns ?w2 = cv_turns v"
    by (rule ok_kept [OF assms(1) t]) (use t in \<open>simp_all only: turns_kept_def\<close>)
  have k3: "bookkeeping v3 = bookkeeping ?w2" unfolding v3 by (rule conjunct1 [OF speak_keeps])
  have ok3: "transcript_ok v3" unfolding v3 by (rule speak_ok [OF w2(1) assms(2)])
  have n3: "cv_llm_calls v3 = cv_llm_calls v" "cv_turns v3 = cv_turns v" using k3 w2(2,3) unfolding bookkeeping_iff by simp_all
  have "turns_kept v3 v4" unfolding v4 by (rule turns_trans [OF turns_memory save_turns]) (simp add: turns_kept_def)
  then have "turns_kept v3 (apply_output e an text out g v)" unfolding result by (auto intro: turns_trans [OF _ end_turns(1)])
  then show ?thesis using ok_kept [OF ok3] n3 by (simp add: turns_kept_def)
qed

lemma utterance_ok:
  assumes "conv_ok v" "\<not> cv_ended v"
  shows "conv_ok (handle_final_utterance e an text v)"
proof -
  let ?v1 = "v\<lparr> cv_turns := Suc (cv_turns v) \<rparr>"
  let ?v2 = "persist_message ROLE_CONTACT text (?v1\<lparr> cv_silence := 0 \<rparr>)"
  obtain out v3 where g: "generate_response e text ?v2 = (out, v3)" by fastforce
  have turns: "cv_turns v < Suc MAX_CONVERSATION_TURNS" using assms by (auto simp: conv_ok_def le_less)
  have ok1: "transcript_ok ?v1" using assms by (simp add: conv_ok_def transcript_ok_def)
  have ended: "conv_ok (end_conversation e an r ?v1)" for r
  proof -
    let ?x = "end_conversation e an r ?v1"
    have "cv_llm_calls ?x = cv_llm_calls v" "cv_turns ?x = Suc (cv_turns v)" using end_turns(1) [of ?v1 e an r] by (simp_all add: turns_kept_def)
    moreover have "cv_llm_calls v \<le> 4 * min (cv_turns v) MAX_CONVERSATION_TURNS" using assms(1) by (simp add: conv_ok_def)
    ultimately show ?thesis using ok_kept [OF ok1 end_turns(1)] end_turns(2) turns by (auto simp: conv_ok_def min_def split: if_splits)
  qed
  show ?thesis
  proof (cases "cv_turns ?v1 > MAX_CONVERSATION_TURNS \<or> too_long (cw_now an) ?v1")
    case True
    then show ?thesis using ended assms(2) by (auto simp: handle_final_utterance_def Let_def)
  next
    case False
    have p: "cv_turns ?v2 = Suc (cv_turns v)" "cv_llm_calls ?v2 = cv_llm_calls v" by (simp_all add: persist_message_def split: option.split)
    have "transcript_ok (?v1\<lparr> cv_silence := 0 \<rparr>)" using ok1 by (simp add: transcript_ok_def)
    then have ok2: "transcript_ok ?v2" by (rule persist_ok)
    have a: "asked 4 ?v2 v3" using generate_asked [of ?v2 e "text"] by (simp add: g)
    have s: "speakable (so_text out)" using generate_speakable [of e "text" ?v2] by (simp add: g)
    have ok3: "transcript_ok v3" using asked_ok [OF a ok2] .
    have n3: "cv_llm_calls v3 \<le> cv_llm_calls v + 4" "cv_turns v3 = Suc (cv_turns v)" using a p by (simp_all add: asked_def)
    have bound: "cv_llm_calls v + 4 \<le> 4 * min (Suc (cv_turns v)) MAX_CONVERSATION_TURNS" "Suc (cv_turns v) \<le> MAX_CONVERSATION_TURNS"
      using False assms(1) by (auto simp: conv_ok_def min_def)
    have fin: "conv_ok x" if "transcript_ok x \<and> cv_llm_calls x = cv_llm_calls v3 \<and> cv_turns x = cv_turns v3" for x
      using that n3 bound by (simp add: conv_ok_def)
    have "handle_final_utterance e an text v = (if cv_generation ?v2 \<noteq> cv_generation v3 then v3 else apply_output e an text out (cv_generation ?v2) v3)"
      using False assms(2) g by (simp add: handle_final_utterance_def Let_def)
    then show ?thesis using fin [of v3] fin [OF apply_output_ok [OF ok3 s, of e an "text" "cv_generation v3"]] ok3 by simp
  qed
qed

lemma step_ok: "conv_ok v \<Longrightarrow> conv_ok (conv_step e an ev v)"
proof (cases ev)
  case (Heard is_final words)
  assume "conv_ok v"
  then show ?thesis using utterance_ok [of v e an words] by (cases "cv_ended v") (simp_all add: Heard handle_final_utterance_def)
next
  case Silent
  assume ok: "conv_ok v"
  have "transcript_ok (v\<lparr> cv_silence := Suc (cv_silence v) \<rparr>)" using ok by (simp add: conv_ok_def transcript_ok_def)
  then have s: "transcript_ok (speak e ''Are you still there?'' (cv_generation v) (v\<lparr> cv_silence := Suc (cv_silence v) \<rparr>))"
    by (rule speak_ok) (rule fallback_speakable)
  have k: "conv_ok (end_conversation e an r v)" for r
    using end_turns(1) [of v e an r] end_turns(2) [of e an r v] ok ok_kept by (auto simp: conv_ok_def turns_kept_def)
  have b: "bookkeeping (speak e ''Are you still there?'' (cv_generation v) (v\<lparr> cv_silence := Suc (cv_silence v) \<rparr>)) =
      bookkeeping (v\<lparr> cv_silence := Suc (cv_silence v) \<rparr>)" by (rule conjunct1 [OF speak_keeps])
  have "conv_ok (speak e ''Are you still there?'' (cv_generation v) (v\<lparr> cv_silence := Suc (cv_silence v) \<rparr>))"
    using s b ok unfolding bookkeeping_iff conv_ok_def by simp
  then show ?thesis using ok k by (simp add: Silent handle_silence_def)
next
  case Barge
  assume "conv_ok v"
  then show ?thesis using ok_kept [of v "on_barge_in v"] by (simp add: Barge conv_ok_def)
next
  case (Disconnect reason)
  assume "conv_ok v"
  then show ?thesis using dropped_turns(1) [of v e an reason] dropped_turns(2) [of e an reason v] ok_kept by (auto simp: Disconnect conv_ok_def turns_kept_def)
qed

lemma run_ok: "conv_ok v \<Longrightarrow> conv_ok (conv_run e evs v)"
  by (induction e evs v rule: conv_run.induct) (simp_all add: step_ok)

lemma start_ok:
  assumes "start e now up source required sid (new_conversation attempt contact d cache sch) = Inr v" "\<forall>m \<in> set (messages d). m_session m \<noteq> sid"
  shows "conv_ok v"
proof -
  have v: "cv_session v = Some sid" "messages (cv_db v) = messages d" "cv_sequence v = 0" "cv_llm_calls v = 0" "cv_turns v = 0"
    using assms(1) by (auto simp: start_def new_conversation_def Let_def log_event_def streams_def split: sum.splits if_splits)
  have "transcript v = []" using assms(2) by (auto simp: transcript_def v filter_empty_conv)
  then show ?thesis by (simp add: conv_ok_def transcript_ok_def v)
qed

text \<open>
  C36: whatever is said, whatever the language model and the speech synthesis answer and however often the person
  interrupts, a conversation asks the model at most 160 times and takes at most 41 utterances, the last of which ends
  it; its stored turns are numbered 1, 2, 3, ... without a gap, and every turn of the agent is a valid response.
\<close>

theorem conversation_bounded:
  assumes "start e now up source required sid (new_conversation attempt contact d cache sch) = Inr v" "\<forall>m \<in> set (messages d). m_session m \<noteq> sid"
  shows "let v' = conv_run e evs v in cv_llm_calls v' \<le> 160 \<and> cv_turns v' \<le> 41 \<and> (cv_turns v' = 41 \<longrightarrow> cv_ended v') \<and>
    map m_sequence (transcript v') = [1..cv_sequence v'] \<and> (\<forall>m \<in> set (transcript v'). m_role m = ROLE_AGENT \<longrightarrow> speakable (m_content m))"
  using run_ok [OF start_ok [OF assms], of e evs] by (auto simp: conv_ok_def transcript_ok_def MAX_CONVERSATION_TURNS_def Let_def min_def split: if_splits)

end
