(* ===== verification/Conversation_Safety.thy ===== *)
theory Conversation_Safety imports Conversation_Contract begin

text \<open>
  The opt-out of a person in a conversation, what follows the end of a conversation, and the resumption of a dropped one.
\<close>

section \<open>After the end\<close>

lemma ended_step:
  assumes "cv_ended v"
  shows "tables (cv_db (conv_step e an ev v)) = tables (cv_db v) \<and> cv_ended (conv_step e an ev v) \<and> cv_jobs (conv_step e an ev v) = cv_jobs v \<and>
    cv_schedule (conv_step e an ev v) = cv_schedule v \<and> cv_memory (conv_step e an ev v) = cv_memory v \<and>
    cv_contact (conv_step e an ev v) = cv_contact v \<and> cv_reason (conv_step e an ev v) = cv_reason v \<and>
    cv_llm_calls (conv_step e an ev v) = cv_llm_calls v"
  using assms by (cases ev) (simp_all add: handle_final_utterance_def handle_silence_def dropped_def tables_def)

lemma ended_run:
  "cv_ended v \<Longrightarrow> tables (cv_db (conv_run e evs v)) = tables (cv_db v) \<and> cv_ended (conv_run e evs v) \<and> cv_jobs (conv_run e evs v) = cv_jobs v \<and>
    cv_schedule (conv_run e evs v) = cv_schedule v \<and> cv_memory (conv_run e evs v) = cv_memory v \<and>
    cv_contact (conv_run e evs v) = cv_contact v \<and> cv_reason (conv_run e evs v) = cv_reason v \<and> cv_llm_calls (conv_run e evs v) = cv_llm_calls v"
proof (induction e evs v rule: conv_run.induct)
  case (2 e an ev rest v)
  then show ?case using ended_step [OF "2.prems", of e an ev] by simp
qed simp

section \<open>The opt-out\<close>

lemma insert_suppresses:
  assumes "insert_if_absent w now i number src r (Some k) by d = (new, d')"
  shows "(is_suppressed w number d' \<longleftrightarrow> is_suppressed w number d \<or> \<not> (\<exists>s \<in> set (suppressions d). s_contact s = Some k)) \<and> contacts d' = contacts d \<and> attempts d' = attempts d"
  using assms by (auto simp: insert_if_absent_def is_suppressed_def Let_def list_ex_iff split: if_splits)

lemma end_opt_out:
  assumes "\<not> cv_ended v" "get_contact (cv_contact v) (cv_db v) = Some c" "get_attempt (cv_attempt v) (cv_db v) = Some a"
  shows "get_contact (cv_contact v) (cv_db (end_conversation e an ''opt_out'' v)) = Some (c\<lparr> c_status := C_CLOSED \<rparr>)"
    "suppressions (cv_db (end_conversation e an ''opt_out'' v)) = suppressions (cv_db v)"
    "cv_jobs (end_conversation e an ''opt_out'' v) = cv_jobs v" "cv_schedule (end_conversation e an ''opt_out'' v) = cv_schedule v"
    "cv_reason (end_conversation e an ''opt_out'' v) = Some ''opt_out''"
proof -
  let ?v0 = "v\<lparr> cv_ended := True, cv_reason := Some ''opt_out'' \<rparr>"
  define v2 where "v2 = end_session (cw_now an) (log_event ''conversation_ended'' [(''reason'', JStr ''opt_out'')] (save_memory e (cw_now an) ?v0))"
  define v4 where "v4 = shutdown (on_rows (ended_row A_ENDED_NORMALLY (cw_now an) (cv_memory v))
    (\<lambda>c. c\<lparr> c_status := final_status ''opt_out'' (cv_memory v) \<rparr>) v2)"
  have v: "end_conversation e an ''opt_out'' v = admit_analysis e an v4" using assms(1) by (simp add: end_conversation_def Let_def v2_def v4_def)
  have v2: "contacts (cv_db v2) = contacts (cv_db v)" "attempts (cv_db v2) = attempts (cv_db v)" "suppressions (cv_db v2) = suppressions (cv_db v)"
    "cv_contact v2 = cv_contact v" "cv_attempt v2 = cv_attempt v" "cv_jobs v2 = cv_jobs v" "cv_schedule v2 = cv_schedule v" "cv_reason v2 = Some ''opt_out''"
    by (simp_all add: v2_def end_session_def log_event_def split: option.split)
  have v4: "cv_contact v4 = cv_contact v" "cv_attempt v4 = cv_attempt v" "cv_jobs v4 = cv_jobs v" "cv_schedule v4 = cv_schedule v"
    "cv_reason v4 = Some ''opt_out''" "suppressions (cv_db v4) = suppressions (cv_db v)"
    by (simp_all add: v4_def v2 shutdown_def streams_def on_rows_def upd_contact_def upd_attempt_def)
  have c4: "get_contact (cv_contact v) (cv_db v4) = Some (c\<lparr> c_status := C_CLOSED \<rparr>)"
  proof -
    have "get_contact (cv_contact v) (cv_db v2) = Some c" using assms(2) by (simp add: get_contact_def v2)
    then show ?thesis by (simp add: v4_def shutdown_def streams_def on_rows_def v2 get_contact_upd final_status_def)
  qed
  obtain a4 where a4: "get_attempt (cv_attempt v) (cv_db v4) = Some a4"
    using assms(3) by (auto simp: v4_def shutdown_def streams_def on_rows_def v2 get_attempt_upd ended_row_def) (simp add: get_attempt_def v2)
  have "enqueue_call_analysis (ev_settings (ce_env e)) id (cw_now an) (cw_analysis an) a4 (c\<lparr> c_status := C_CLOSED \<rparr>) (cv_db v4) = (None, cv_db v4)"
    by (simp add: enqueue_call_analysis_def is_eligible_def)
  then have "admit_analysis e an v4 = v4" by (simp add: admit_analysis_def v4 a4 c4)
  then show "get_contact (cv_contact v) (cv_db (end_conversation e an ''opt_out'' v)) = Some (c\<lparr> c_status := C_CLOSED \<rparr>)"
    "suppressions (cv_db (end_conversation e an ''opt_out'' v)) = suppressions (cv_db v)"
    "cv_jobs (end_conversation e an ''opt_out'' v) = cv_jobs v" "cv_schedule (end_conversation e an ''opt_out'' v) = cv_schedule v"
    "cv_reason (end_conversation e an ''opt_out'' v) = Some ''opt_out''"
    using c4 v4 by (simp_all add: v)
qed

lemma apply_opt_out:
  assumes "so_suppress out \<or> detect_opt_out words" "\<not> cv_ended v" "get_contact (cv_contact v) (cv_db v) = Some c"
    and "get_attempt (cv_attempt v) (cv_db v) = Some a"
    and v'_def: "v' = apply_output e an words out g v"
  shows "get_contact (cv_contact v) (cv_db v') = Some (c\<lparr> c_status := C_CLOSED \<rparr>)" "cv_ended v'" "cv_reason v' = Some ''opt_out''"
    "is_suppressed (ce_env e) (c_number c) (cv_db v') \<longleftrightarrow> is_suppressed (ce_env e) (c_number c) (cv_db v) \<or>
      \<not> (\<exists>s \<in> set (suppressions (cv_db v)). s_contact s = Some (c_id c))"
    "cv_jobs v' = cv_jobs v" "cv_schedule v' = cv_schedule v"
proof -
  have "get_contact (cv_contact v) (cv_db v') = Some (c\<lparr> c_status := C_CLOSED \<rparr>) \<and> cv_ended v' \<and> cv_reason v' = Some ''opt_out'' \<and>
    (is_suppressed (ce_env e) (c_number c) (cv_db v') \<longleftrightarrow> is_suppressed (ce_env e) (c_number c) (cv_db v) \<or>
      \<not> (\<exists>s \<in> set (suppressions (cv_db v)). s_contact s = Some (c_id c))) \<and>
    cv_jobs v' = cv_jobs v \<and> cv_schedule v' = cv_schedule v"
  proof (rule apply_output_steps [of out v words e an g])
    fix v1 dec v2 v3 v4 reason
    assume v1: "v1 = v\<lparr> cv_memory := update_memory out (cv_memory v), cv_declines := (if so_intent out = I_NEGATIVE then Suc (cv_declines v) else 0),
         cv_unclear := (if so_intent out = I_UNCLEAR then Suc (cv_unclear v) else 0) \<rparr>"
      and "dec = policy_decide (wm_phase (cv_memory v1)) out words (cv_declines v1) (cv_unclear v1) (wm_pending (cv_memory v1) \<noteq> [])"
      and v2: "v2 = (if pd_opt_out dec then apply_suppression e an v1 else v1)"
      and v3: "v3 = speak e (so_text out) g (v2\<lparr> cv_memory := (cv_memory v2)\<lparr> wm_phase := pd_phase dec \<rparr> \<rparr>)"
      and v4: "v4 = save_memory e (cw_now an) (v3\<lparr> cv_memory := (cv_memory v3)\<lparr> wm_last := Some (so_text out) \<rparr> \<rparr>)"
      and "reason = (case pd_reason dec of Some r \<Rightarrow> r | None \<Rightarrow> ''wrap_up'')"
      and "apply_output e an words out g v = (if pd_terminate dec then end_conversation e an reason v4 else v4)"
    then have dec: "dec = wrap_up ''opt_out'' True" and result: "v' = end_conversation e an ''opt_out'' v4"
      using assms(1) by (simp_all add: wrap_up_def v'_def)
    obtain new d1 where ins: "insert_if_absent (ce_env e) (cw_now an) (cw_suppression an) (c_number c) SUP_AGENT_IN_CALL
        (Some ''opt-out during AI conversation'') (Some (c_id c)) None (cv_db v) = (new, d1)" by fastforce
    note s = insert_suppresses [OF ins]
    have r2: "cv_db v2 = upd_contact (cv_contact v) (\<lambda>c. c\<lparr> c_status := C_CLOSED \<rparr>) d1" "cv_contact v2 = cv_contact v" "cv_attempt v2 = cv_attempt v"
      "cv_ended v2 = cv_ended v" "cv_jobs v2 = cv_jobs v" "cv_schedule v2 = cv_schedule v"
      using assms(3) by (simp_all add: v2 dec wrap_up_def apply_suppression_def v1 ins)
    have k3: "bookkeeping v3 = bookkeeping v2" "records (cv_db v3) = records (cv_db v2)"
      using speak_keeps [of e "so_text out" g "v2\<lparr> cv_memory := (cv_memory v2)\<lparr> wm_phase := pd_phase dec \<rparr> \<rparr>"]
      by (simp_all add: v3 bookkeeping_def)
    have r4: "contacts (cv_db v4) = contacts (cv_db v2)" "attempts (cv_db v4) = attempts (cv_db v2)" "suppressions (cv_db v4) = suppressions (cv_db v2)"
      "cv_contact v4 = cv_contact v" "cv_attempt v4 = cv_attempt v" "\<not> cv_ended v4" "cv_jobs v4 = cv_jobs v" "cv_schedule v4 = cv_schedule v"
      using k3 r2 assms(2) by (simp_all add: v4 bookkeeping_iff records_def)
    have c4: "get_contact (cv_contact v4) (cv_db v4) = Some (c\<lparr> c_status := C_CLOSED \<rparr>)"
    proof -
      have "get_contact (cv_contact v) (cv_db v4) = get_contact (cv_contact v) (cv_db v2)" by (simp add: get_contact_def r4)
      also have "\<dots> = map_option (\<lambda>c. c\<lparr> c_status := C_CLOSED \<rparr>) (get_contact (cv_contact v) d1)" by (simp add: r2 get_contact_upd)
      also have "get_contact (cv_contact v) d1 = Some c" using assms(3) s by (simp add: get_contact_def)
      finally show ?thesis by (simp add: r4)
    qed
    have a4: "get_attempt (cv_attempt v4) (cv_db v4) = Some a"
      using assms(4) s by (simp add: get_attempt_def r4 r2 upd_contact_def)
    have "suppressions (cv_db v4) = suppressions d1" by (simp add: r4 r2 upd_contact_def)
    then have "is_suppressed (ce_env e) n (cv_db v') = is_suppressed (ce_env e) n d1" for n
      by (simp add: result is_suppressed_def end_opt_out(2) [OF r4(6) c4 a4])
    then show ?thesis using s end_opt_out [OF r4(6) c4 a4, of e an] end_turns(2) r4 by (simp add: result)
  qed
  then show "get_contact (cv_contact v) (cv_db v') = Some (c\<lparr> c_status := C_CLOSED \<rparr>)" "cv_ended v'" "cv_reason v' = Some ''opt_out''"
    "is_suppressed (ce_env e) (c_number c) (cv_db v') \<longleftrightarrow> is_suppressed (ce_env e) (c_number c) (cv_db v) \<or>
      \<not> (\<exists>s \<in> set (suppressions (cv_db v)). s_contact s = Some (c_id c))"
    "cv_jobs v' = cv_jobs v" "cv_schedule v' = cv_schedule v" by simp_all
qed

text \<open>An utterance that is taken, up to the answer of the model.\<close>

lemma utterance_taken:
  assumes "\<not> cv_ended v" "cv_turns v < MAX_CONVERSATION_TURNS" "\<not> too_long (cw_now an) v"
  obtains v2 out v3 where "asked 4 v2 v3" "generate_response e words v2 = (out, v3)" "cv_generation v2 = cv_generation v"
    "handle_final_utterance e an words v = (if cv_generation v2 \<noteq> cv_generation v3 then v3 else apply_output e an words out (cv_generation v2) v3)"
    "records (cv_db v2) = records (cv_db v)" "cv_contact v2 = cv_contact v" "cv_attempt v2 = cv_attempt v" "cv_ended v2 = cv_ended v" "cv_jobs v2 = cv_jobs v"
    "cv_schedule v2 = cv_schedule v" "cv_llm_calls v2 = cv_llm_calls v"
proof -
  let ?v2 = "persist_message ROLE_CONTACT words (v\<lparr> cv_turns := Suc (cv_turns v), cv_silence := 0 \<rparr>)"
  obtain out v3 where g: "generate_response e words ?v2 = (out, v3)" by fastforce
  have "too_long (cw_now an) (v\<lparr> cv_turns := Suc (cv_turns v) \<rparr>) = too_long (cw_now an) v" by (simp add: too_long_def split: option.split)
  then have h: "handle_final_utterance e an words v =
      (if cv_generation ?v2 \<noteq> cv_generation v3 then v3 else apply_output e an words out (cv_generation ?v2) v3)"
    using assms g by (simp add: handle_final_utterance_def Let_def)
  have a: "asked 4 ?v2 v3" using generate_asked [of ?v2 e words] unfolding g by simp
  show thesis by (rule that [OF a g _ h]) (simp_all add: persist_message_def records_def split: option.split)
qed

text \<open>
  C3: when a person says one of the opt-out phrases in a running conversation (before its 41st turn and its time limit), and
  nobody interrupts the model while it answers, then whatever it answers (or fails to answer) the conversation ends with the
  opt-out: the contact is closed, no retry is scheduled and no analysis is registered; and the number is on the
  do-not-call list, unless an entry of the list that names this contact under another number was there already (then the
  insert is dropped: its contact column is unique). Nothing that happens to the streams afterwards changes this.
\<close>

theorem opt_out_enforced:
  assumes "detect_opt_out words" "quiet e" "\<not> cv_ended v" "cv_turns v < MAX_CONVERSATION_TURNS" "\<not> too_long (cw_now an) v"
    and "get_contact (cv_contact v) (cv_db v) = Some c" "get_attempt (cv_attempt v) (cv_db v) = Some a"
  shows "let v' = conv_run e ((an, Heard True words) # evs) v in cv_ended v' \<and> cv_reason v' = Some ''opt_out'' \<and>
    get_contact (cv_contact v) (cv_db v') = Some (c\<lparr> c_status := C_CLOSED \<rparr>) \<and>
    (is_suppressed (ce_env e) (c_number c) (cv_db v') \<longleftrightarrow> is_suppressed (ce_env e) (c_number c) (cv_db v) \<or>
      \<not> (\<exists>s \<in> set (suppressions (cv_db v)). s_contact s = Some (c_id c))) \<and>
    cv_schedule v' = cv_schedule v \<and> cv_jobs v' = cv_jobs v"
proof -
  obtain v2 out v3 where u: "asked 4 v2 v3" "generate_response e words v2 = (out, v3)" "cv_generation v2 = cv_generation v"
    "handle_final_utterance e an words v = (if cv_generation v2 \<noteq> cv_generation v3 then v3 else apply_output e an words out (cv_generation v2) v3)"
    "records (cv_db v2) = records (cv_db v)" "cv_contact v2 = cv_contact v" "cv_attempt v2 = cv_attempt v" "cv_ended v2 = cv_ended v" "cv_jobs v2 = cv_jobs v"
    "cv_schedule v2 = cv_schedule v" by (rule utterance_taken [OF assms(3-5), of e words])
  let ?v' = "apply_output e an words out (cv_generation v2) v3"
  have g: "cv_generation v3 = cv_generation v2" using quiet_generation [OF assms(2), of words v2] by (simp add: u(2))
  have rows: "contacts (cv_db v3) = contacts (cv_db v)" "attempts (cv_db v3) = attempts (cv_db v)" "suppressions (cv_db v3) = suppressions (cv_db v)"
    "cv_contact v3 = cv_contact v" "cv_attempt v3 = cv_attempt v" "\<not> cv_ended v3" "cv_jobs v3 = cv_jobs v" "cv_schedule v3 = cv_schedule v"
    using u(1,5-10) assms(3) by (simp_all add: asked_def tables_def records_def)
  have "get_contact (cv_contact v3) (cv_db v3) = Some c" "get_attempt (cv_attempt v3) (cv_db v3) = Some a"
    using assms(6,7) rows by (simp_all add: get_contact_def get_attempt_def)
  note out = apply_opt_out [OF disjI2 [OF assms(1)] rows(6) this refl, where e = e and an = an and out = out and g = "cv_generation v2", unfolded rows]
  note later = ended_run [OF out(2), of e evs]
  have "get_contact (cv_contact v) (cv_db (conv_run e evs ?v')) = get_contact (cv_contact v) (cv_db ?v')"
    "is_suppressed (ce_env e) n (cv_db (conv_run e evs ?v')) = is_suppressed (ce_env e) n (cv_db ?v')" for n
    using later by (simp_all add: tables_def get_contact_def is_suppressed_def)
  moreover have "conv_run e ((an, Heard True words) # evs) v = conv_run e evs ?v'" using u(4) g by simp
  moreover have "is_suppressed (ce_env e) n (cv_db v3) = is_suppressed (ce_env e) n (cv_db v)" for n
    by (simp add: is_suppressed_def rows(3))
  ultimately show ?thesis using out later unfolding Let_def by (simp only: simp_thms rows)
qed

text \<open>But a turn that is interrupted while the model answers is dropped with all it said, an opt-out included.\<close>

lemma interrupted_opt_out_lost:
  assumes "\<not> cv_ended v" "cv_turns v < MAX_CONVERSATION_TURNS" "\<not> too_long (cw_now an) v"
    and "\<And>n ctx. \<exists>out k. ce_llm e n ctx = (Llm_reply out, Suc k)"
  shows "\<not> cv_ended (handle_final_utterance e an words v) \<and> records (cv_db (handle_final_utterance e an words v)) = records (cv_db v)"
proof -
  obtain v2 out v3 where u: "asked 4 v2 v3" "generate_response e words v2 = (out, v3)"
    "handle_final_utterance e an words v = (if cv_generation v2 \<noteq> cv_generation v3 then v3 else apply_output e an words out (cv_generation v2) v3)"
    "records (cv_db v2) = records (cv_db v)" "cv_ended v2 = cv_ended v" by (rule utterance_taken [OF assms(1-3), of e words])
  let ?ctx = "turn_context_of e words v2"
  obtain o1 k where l: "ce_llm e (cv_llm_calls v2) ?ctx = (Llm_reply o1, Suc k)" using assms(4) by blast
  define v1 where "v1 = barged (Suc k) (v2\<lparr> cv_llm_calls := Suc (cv_llm_calls v2) \<rparr>)"
  have g1: "cv_generation v1 = cv_generation v2 + Suc k" unfolding v1_def barged_sel by simp
  have c: "call_llm (Suc MAX_LLM_RETRIES) e ?ctx v2 = (Some o1, v1)" by (simp add: call_llm.simps(2) l Let_def v1_def)
  have "v3 = snd (regenerate MAX_RESPONSE_REGENERATIONS e ?ctx o1 v1)" using u(2) by (simp add: generate_response_def Let_def c)
  then have "asked (2 * MAX_RESPONSE_REGENERATIONS) v1 v3" by (simp only: regenerate_asked)
  then have "cv_generation v2 \<noteq> cv_generation v3" using g1 by (simp add: asked_def)
  then have h: "handle_final_utterance e an words v = v3" using u(3) by simp
  have "tables (cv_db v3) = tables (cv_db v2)" "cv_ended v3 = cv_ended v2" using u(1) by (simp_all only: asked_def)
  then show ?thesis unfolding h using u(4,5) assms(1) tables_records by metis
qed

section \<open>Resumption\<close>

lemma load_cong: "snapshots d' = snapshots d \<Longrightarrow> load_latest up now i c (d', cache) = load_latest up now i c (d, cache)"
proof -
  assume "snapshots d' = snapshots d"
  then have "load_row i c d' = load_row i c d" by (simp add: load_row_def latest_snapshot_def)
  then show ?thesis by (simp only: load_latest_def prod.case)
qed

text \<open>
  A conversation dropped in the middle and resumed by a later attempt continues with the memory it had, under the
  new attempt, as long as Redis took the last write or holds nothing older of it. (Its count of disconnects grows by two.)
\<close>

theorem resumed_conversation_continues:
  assumes "\<not> cv_ended v" "wm_attempt (cv_memory v) = cv_attempt v" "wm_contact (cv_memory v) = cv_contact v"
    and "ce_redis e (cv_checkpoints v) \<or> map_of (cv_cache v) (cv_attempt v) = None"
    and "snapshots d = snapshots (cv_db (dropped e an reason v))" "ce_reconnect e'" "memory_plain (cv_memory v)"
    and "start e' now up (cv_attempt v) required sid (new_conversation attempt (cv_contact v) d (cv_cache (dropped e an reason v)) sch) = Inr v2"
  shows "cv_memory v2 = (cv_memory v)\<lparr> wm_attempt := attempt, wm_disconnects := wm_disconnects (cv_memory v) + 2 \<rparr>"
proof -
  let ?m = "(cv_memory v)\<lparr> wm_disconnects := wm_disconnects (cv_memory v) + 1 \<rparr>"
  let ?s = "checkpoint (ce_float_text e) (ce_redis e (cv_checkpoints v)) (cw_now an) ?m (cv_db v, cv_cache v)"
  have drop: "cv_cache (dropped e an reason v) = snd ?s" "snapshots (cv_db (dropped e an reason v)) = snapshots (fst ?s)"
    using assms(1) by (auto simp: dropped_def Let_def recover_turns(2) shutdown_def streams_def on_rows_def end_session_def log_event_def
        save_memory_def checkpoint_def upd_contact_def upd_attempt_def split: option.split prod.split)
  have "load_latest up now (cv_attempt v) (cv_contact v) (d, snd ?s) = load_latest up now (cv_attempt v) (cv_contact v) (fst ?s, snd ?s)"
    by (rule load_cong) (simp add: assms(5) drop(2))
  also have "\<dots> = Inr (Some ?m)"
  proof -
    have p: "memory_plain ?m" using assms(7) by (simp add: memory_plain_def)
    have "ce_redis e (cv_checkpoints v) \<or> map_of (snd (cv_db v, cv_cache v)) (wm_attempt ?m) = None" using assms(2,4) by simp
    from memory_stored [OF this p, of up now "ce_float_text e" "cw_now an"] assms(2,3) show ?thesis by simp
  qed
  finally have "load_latest up now (cv_attempt v) (cv_contact v) (d, cv_cache (dropped e an reason v)) = Inr (Some ?m)" using drop(1) by simp
  then show ?thesis using assms(6,8)
    by (auto simp: start_def new_conversation_def Let_def log_event_def streams_def split: if_splits)
qed

text \<open>A dropped call whose number was put on the do-not-call list meanwhile: the recovery takes the contact for closed and
  leaves it in the status of a dropped call, from which nothing moves it on; its conversation is not analysed.\<close>

lemma suppressed_call_stays_disconnected:
  assumes "is_suppressed w (c_number c) d" "c_status c = C_DISCONNECTED" "get_contact (c_id c) d = Some c"
    and "handle_disconnect w now aid up a c camp never reason ra (d, sch) = (dec, job, d', sch')"
  shows "get_contact (c_id c) d' = Some c \<and> job = None \<and> sch' = sch"
proof -
  have t: "terminalize (ev_settings w) now aid a c ''suppressed'' d = (job, d')" "sch' = sch"
    using assms(1,4) by (auto simp: handle_disconnect_def Let_def no_retry_def split: prod.splits)
  have "job = None" using t(1) assms(2) by (simp add: terminalize_def Let_def enqueue_call_analysis_def is_eligible_def)
  then show ?thesis using terminalize_contact [OF t(1) assms(3)] t by simp
qed

end
