(* ===== verification/Conversation_Runs.thy ===== *)
theory Conversation_Runs imports Conversation_Safety begin

text \<open>A conversation whose language model never answers in time: the properties of the conversation theories applied to it.\<close>

definition deaf :: "string conv_env" where
  "deaf = \<lparr> ce_env = plain_env, ce_llm = (\<lambda>_ _. (Llm_timeout, 0)), ce_tts = (\<lambda>_ text. (Some text, 0)), ce_prompt = (\<lambda>_. ''prompt''),
     ce_redis = (\<lambda>_. True), ce_float_text = (\<lambda>_. []), ce_reconnect = False \<rparr>"

definition callee :: contact where
  "callee = \<lparr> c_id = 3, c_campaign = 2, c_phone = ''9876543210'', c_number = ''+919876543210'', c_status = C_IN_CONVERSATION,
     c_attempt_count = 1, c_next_retry_at = None, c_retry_attempt_id = None, c_retry_attempt_number = None, c_legal_hold = False,
     c_purged_at = None, c_created_at = 0 \<rparr>"

definition call_db :: db where
  "call_db = empty_db\<lparr> contacts := [callee], attempts := [(new_attempt 0 5 3 1)\<lparr> a_state := A_CONNECTED \<rparr>] \<rparr>"

definition greeted :: conversation where
  "greeted = (case start deaf 10 True 5 (Some [JStr ''interest_level'']) 8 (new_conversation 5 3 call_db [] []) of Inr v \<Rightarrow> v
     | Inl _ \<Rightarrow> new_conversation 5 3 call_db [] [])"

definition at20 :: conv_answers where
  "at20 = \<lparr> cw_now = 20, cw_suppression = 70, cw_analysis = 71, cw_schedule_up = True \<rparr>"

lemma greeted_start: "start deaf 10 True 5 (Some [JStr ''interest_level'']) 8 (new_conversation 5 3 call_db [] []) = Inr greeted"
  by (simp add: greeted_def start_def load_latest_def load_row_def cache_get_def latest_snapshot_def new_conversation_def call_db_def empty_db_def
      load_conversation_session_def)

lemma greeted_sel [simp]: "\<not> cv_ended greeted" "cv_turns greeted = 0" "cv_contact greeted = 3" "cv_attempt greeted = 5"
  "cv_checkpoints greeted = 0" "cv_cache greeted = []" "wm_attempt (cv_memory greeted) = 5" "wm_contact (cv_memory greeted) = 3"
  "suppressions (cv_db greeted) = []" "cv_schedule greeted = []" "cv_jobs greeted = []"
  "get_contact 3 (cv_db greeted) = Some callee" "get_attempt 5 (cv_db greeted) = Some ((new_attempt 0 5 3 1)\<lparr> a_state := A_CONNECTED \<rparr>)"
  "\<not> too_long 20 greeted"
  by (code_simp)+

lemma greeted_plain: "memory_plain (cv_memory greeted)"
  by code_simp

lemma deaf_quiet: "quiet deaf"
  by (simp add: quiet_def deaf_def)

lemma please_stop: "detect_opt_out ''Please STOP calling me''"
  by code_simp

theorem opt_out_enforced_witness:
  "let v' = conv_run deaf [(at20, Heard True ''Please STOP calling me''), (at20, Disconnect MC_UNKNOWN)] greeted
   in get_contact 3 (cv_db v') = Some (callee\<lparr> c_status := C_CLOSED \<rparr>) \<and> is_suppressed plain_env ''+919876543210'' (cv_db v') \<and> cv_jobs v' = []"
proof -
  have g: "cv_turns greeted < MAX_CONVERSATION_TURNS" "\<not> too_long (cw_now at20) greeted"
    "get_contact (cv_contact greeted) (cv_db greeted) = Some callee" "get_attempt (cv_attempt greeted) (cv_db greeted) = Some ((new_attempt 0 5 3 1)\<lparr> a_state := A_CONNECTED \<rparr>)"
    by (simp_all add: MAX_CONVERSATION_TURNS_def at20_def)
  from opt_out_enforced [OF please_stop deaf_quiet greeted_sel(1) g, of "[(at20, Disconnect MC_UNKNOWN)]"]
  show ?thesis unfolding Let_def greeted_sel by (simp add: deaf_def callee_def)
qed

theorem conversation_bounded_witness:
  "let v' = conv_run deaf [(at20, Silent), (at20, Heard True ''hello''), (at20, Barge)] greeted
   in cv_llm_calls v' \<le> 160 \<and> map m_sequence (transcript v') = [1..cv_sequence v']"
  using conversation_bounded [OF greeted_start, of "[(at20, Silent), (at20, Heard True ''hello''), (at20, Barge)]"]
  by (simp add: call_db_def empty_db_def Let_def)

definition retried :: "conversation option" where
  "retried = (case start (deaf\<lparr> ce_reconnect := True \<rparr>) 30 True 5 None 9
      (new_conversation 6 3 (cv_db (dropped deaf at20 MC_NETWORK_PROBLEM greeted)) (cv_cache (dropped deaf at20 MC_NETWORK_PROBLEM greeted)) []) of
     Inr v \<Rightarrow> Some v | Inl _ \<Rightarrow> None)"

lemma retried_some: "retried \<noteq> None"
  by code_simp

theorem resumed_conversation_continues_witness:
  "\<exists>v2. retried = Some v2 \<and> wm_pending (cv_memory v2) = wm_pending (cv_memory greeted) \<and> wm_disconnects (cv_memory v2) = wm_disconnects (cv_memory greeted) + 2"
proof -
  obtain v2 where r: "retried = Some v2" using retried_some by blast
  then have "start (deaf\<lparr> ce_reconnect := True \<rparr>) 30 True (cv_attempt greeted) None 9 (new_conversation 6 (cv_contact greeted)
      (cv_db (dropped deaf at20 MC_NETWORK_PROBLEM greeted)) (cv_cache (dropped deaf at20 MC_NETWORK_PROBLEM greeted)) []) = Inr v2"
    unfolding greeted_sel by (simp add: retried_def split: sum.splits)
  from resumed_conversation_continues [OF greeted_sel(1) _ _ _ refl _ greeted_plain this] have
    "cv_memory v2 = (cv_memory greeted)\<lparr> wm_attempt := 6, wm_disconnects := wm_disconnects (cv_memory greeted) + 2 \<rparr>" by simp
  then have "wm_pending (cv_memory v2) = wm_pending (cv_memory greeted)" "wm_disconnects (cv_memory v2) = wm_disconnects (cv_memory greeted) + 2"
    by simp_all
  then show ?thesis using r by blast
qed

end
