(* ===== verification/QA_Contract.thy ===== *)
theory QA_Contract imports Analysis_Worker Dograh_Outcome begin

text \<open>
  \<open>app/services/analysis/llm/qa_contract.py\<close>, \<open>schemas.py\<close> and \<open>dograh_qa.py\<close>: the structured result of the QA node
  is located, validated strictly and never repaired; every other answer of Dograh is classified for the worker. \<open>dumped\<close> is
  the number of bytes \<open>json.dumps\<close> writes (\<open>None\<close>: it raises), \<open>get_run\<close> is the client's answer. An \<open>Inl\<close> of
  the parser is the reason of an \<open>AnalysisLLMValidationError\<close>.
\<close>

section \<open>Schema\<close>

datatype analysis_intent = AI_INTERESTED | AI_NOT_INTERESTED | AI_INFORMATION_REQUESTED | AI_CALLBACK_REQUESTED | AI_UNCLEAR
datatype interest_status = IS_INTERESTED | IS_MAYBE | IS_NOT_INTERESTED | IS_UNKNOWN
datatype analysis_sentiment = AS_POSITIVE | AS_NEUTRAL | AS_NEGATIVE | AS_MIXED | AS_UNKNOWN
datatype analysis_next = AX_FOLLOW_UP | AX_CALLBACK | AX_SEND_INFORMATION | AX_SALES_CONTACT | AX_NO_ACTION | AX_MANUAL_REVIEW

definition analysis_intents :: "(string \<times> analysis_intent) list" where
  "analysis_intents = [(''interested'', AI_INTERESTED), (''not_interested'', AI_NOT_INTERESTED),
     (''information_requested'', AI_INFORMATION_REQUESTED), (''callback_requested'', AI_CALLBACK_REQUESTED), (''unclear'', AI_UNCLEAR)]"

definition interest_statuses :: "(string \<times> interest_status) list" where
  "interest_statuses = [(''interested'', IS_INTERESTED), (''maybe'', IS_MAYBE), (''not_interested'', IS_NOT_INTERESTED), (''unknown'', IS_UNKNOWN)]"

definition analysis_sentiments :: "(string \<times> analysis_sentiment) list" where
  "analysis_sentiments = [(''positive'', AS_POSITIVE), (''neutral'', AS_NEUTRAL), (''negative'', AS_NEGATIVE), (''mixed'', AS_MIXED),
     (''unknown'', AS_UNKNOWN)]"

definition analysis_nexts :: "(string \<times> analysis_next) list" where
  "analysis_nexts = [(''follow_up'', AX_FOLLOW_UP), (''callback'', AX_CALLBACK), (''send_information'', AX_SEND_INFORMATION),
     (''sales_contact'', AX_SALES_CONTACT), (''no_action'', AX_NO_ACTION), (''manual_review'', AX_MANUAL_REVIEW)]"

definition enum_text :: "(string \<times> 'e) list \<Rightarrow> 'e \<Rightarrow> string" where
  "enum_text table v = (case find (\<lambda>(_, x). x = v) table of Some (s, _) \<Rightarrow> s | None \<Rightarrow> [])"

record qa_answer =
  qa_summary :: string
  qa_intent :: analysis_intent
  qa_interest :: interest_status
  qa_sentiment :: analysis_sentiment
  qa_next :: analysis_next
  qa_feedback :: "string option"
  qa_key_facts :: "string list"
  qa_objections :: "string list"
  qa_needs :: "string list"
  qa_language :: string
  qa_signals :: scoring_signals

text \<open>The columns that the worker fills from it.\<close>

definition strs :: "string list \<Rightarrow> jval" where "strs xs = JList (map JStr xs)"

definition answer_columns :: "qa_answer \<Rightarrow> payload" where
  "answer_columns r = [(''summary'', JStr (qa_summary r)), (''intent'', JStr (enum_text analysis_intents (qa_intent r))),
     (''interest_status'', JStr (enum_text interest_statuses (qa_interest r))), (''sentiment'', JStr (enum_text analysis_sentiments (qa_sentiment r))),
     (''next_action'', JStr (enum_text analysis_nexts (qa_next r))), (''feedback'', j_opt_str (qa_feedback r)), (''key_facts'', strs (qa_key_facts r)),
     (''objections'', strs (qa_objections r)), (''customer_needs'', strs (qa_needs r)), (''language'', JStr (qa_language r))]"

definition answer_result :: "qa_answer \<Rightarrow> analysis_result" where
  "answer_result r = \<lparr> ar_output = answer_columns r, ar_signals = qa_signals r \<rparr>"

section \<open>Validation\<close>

definition CONTRACT_VERSION :: string where "CONTRACT_VERSION = ''cp14b.v1''"

text \<open>\<open>_REQUIRED\<close>, in the order in which the message of a missing field sorts it.\<close>

definition REQUIRED :: "string list" where
  "REQUIRED = [''intent'', ''interest_status'', ''language'', ''next_action'', ''schema_version'', ''sentiment'', ''signals'', ''summary'']"

definition ALLOWED :: "string list" where
  "ALLOWED = REQUIRED @ [''feedback'', ''key_facts'', ''objections'', ''customer_needs'']"

definition BOOL_SIGNALS :: "string list" where
  "BOOL_SIGNALS = [''explicit_interest'', ''purchase_intent'', ''requested_callback'', ''requested_pricing'', ''has_timeline'',
     ''explicit_rejection'', ''opted_out'', ''information_requested'']"

definition MAX_SUMMARY :: nat where "MAX_SUMMARY = 1000"
definition MAX_FEEDBACK :: nat where "MAX_FEEDBACK = 500"
definition MAX_ITEM :: nat where "MAX_ITEM = 200"
definition MAX_ITEMS :: nat where "MAX_ITEMS = 10"
definition MAX_LANGUAGE :: nat where "MAX_LANGUAGE = 16"
definition MAX_OBJECTIONS_COUNT :: int where "MAX_OBJECTIONS_COUNT = 20"

definition parse_enum :: "(string \<times> 'e) list \<Rightarrow> jval \<Rightarrow> string \<Rightarrow> string + 'e" where
  "parse_enum table v field =
    (case v of JStr s \<Rightarrow> (case map_of table s of Some x \<Rightarrow> Inr x | None \<Rightarrow> Inl (field @ '' has an unknown value''))
     | _ \<Rightarrow> Inl (field @ '' not a string''))"

definition parse_text :: "jval \<Rightarrow> string \<Rightarrow> nat \<Rightarrow> bool \<Rightarrow> string + string option" where
  "parse_text v field limit required =
    (case v of
       JNull \<Rightarrow> if required then Inl (field @ '' missing'') else Inr None
     | JStr s \<Rightarrow>
        (let cleaned = py_join '' '' (py_split s) in
         if required \<and> cleaned = [] then Inl (field @ '' empty'')
         else if length cleaned > limit then Inl (field @ '' exceeds '' @ int_text (int limit) @ '' characters'')
         else Inr (if cleaned = [] then None else Some cleaned))
     | _ \<Rightarrow> Inl (field @ '' not a string''))"

fun parse_item_list :: "string \<Rightarrow> jval list \<Rightarrow> string + string list" where
  "parse_item_list field [] = Inr []"
| "parse_item_list field (v # vs) =
    rbind (parse_text v field MAX_ITEM True) (\<lambda>t. rbind (parse_item_list field vs) (\<lambda>ts.
      Inr ((case t of Some s \<Rightarrow> s | None \<Rightarrow> []) # ts)))"

definition parse_items :: "jval \<Rightarrow> string \<Rightarrow> string + string list" where
  "parse_items v field =
    (case v of
       JNull \<Rightarrow> Inr []
     | JList vs \<Rightarrow> if length vs > MAX_ITEMS then Inl (field @ '' has more than '' @ int_text (int MAX_ITEMS) @ '' entries'')
         else parse_item_list field vs
     | _ \<Rightarrow> Inl (field @ '' not a list''))"

definition find_qa_payload :: "string \<Rightarrow> jval \<Rightarrow> string + payload option" where
  "find_qa_payload configured annotations =
    (case annotations of
       JObj kvs \<Rightarrow>
        (if kvs = [] then Inr None
         else if configured \<noteq> [] then Inr (case map_of kvs configured of Some (JObj p) \<Rightarrow> Some p | _ \<Rightarrow> None)
         else let found = concat (map (\<lambda>(_, v). case v of JObj p \<Rightarrow> if map_of p ''schema_version'' = Some (JStr CONTRACT_VERSION) then [p] else []
                     | _ \<Rightarrow> []) kvs)
              in if length found > 1 then Inl ''ambiguous: more than one annotation carries the contract marker''
                 else Inr (case found of [] \<Rightarrow> None | p # _ \<Rightarrow> Some p))
     | _ \<Rightarrow> Inr None)"

fun parse_flags :: "payload \<Rightarrow> string list \<Rightarrow> string + (string \<times> bool) list" where
  "parse_flags raw [] = Inr []"
| "parse_flags raw (n # ns) =
    (case (case map_of raw n of Some v \<Rightarrow> v | None \<Rightarrow> JBool False) of
       JBool b \<Rightarrow> rbind (parse_flags raw ns) (\<lambda>fs. Inr ((n, b) # fs))
     | _ \<Rightarrow> Inl (''signal '' @ n @ '' not a boolean''))"

definition parse_count :: "jval \<Rightarrow> string + int" where
  "parse_count v =
    (case v of JInt n \<Rightarrow> if 0 \<le> n \<and> n \<le> MAX_OBJECTIONS_COUNT then Inr n else Inl ''objection_count out of range''
     | _ \<Rightarrow> Inl ''objection_count out of range'')"

definition parse_signals :: "payload \<Rightarrow> string + scoring_signals" where
  "parse_signals raw =
    (if list_ex (\<lambda>f. fst f \<notin> set BOOL_SIGNALS \<and> fst f \<noteq> ''objection_count'') raw then Inl ''unexpected signal(s) present''
     else rbind (parse_flags raw BOOL_SIGNALS) (\<lambda>fs.
       rbind (parse_count (case map_of raw ''objection_count'' of Some v \<Rightarrow> v | None \<Rightarrow> JInt 0)) (\<lambda>n.
         let flag = (\<lambda>k. map_of fs k = Some True) in
         Inr \<lparr> sg_explicit_interest = flag ''explicit_interest'', sg_purchase_intent = flag ''purchase_intent'',
           sg_requested_callback = flag ''requested_callback'', sg_requested_pricing = flag ''requested_pricing'',
           sg_has_timeline = flag ''has_timeline'', sg_objection_count = n, sg_explicit_rejection = flag ''explicit_rejection'',
           sg_opted_out = flag ''opted_out'', sg_information_requested = flag ''information_requested'' \<rparr>)))"

definition contradictory :: "scoring_signals \<Rightarrow> analysis_intent \<Rightarrow> interest_status \<Rightarrow> bool" where
  "contradictory g i s \<longleftrightarrow> (sg_opted_out g \<or> sg_explicit_rejection g) \<and> (i \<in> {AI_INTERESTED, AI_CALLBACK_REQUESTED} \<or> s = IS_INTERESTED)"

definition field_of :: "payload \<Rightarrow> string \<Rightarrow> jval" where
  "field_of p k = (case map_of p k of Some v \<Rightarrow> v | None \<Rightarrow> JNull)"

definition required_text :: "string option \<Rightarrow> string" where
  "required_text t = (case t of Some s \<Rightarrow> s | None \<Rightarrow> [])"

definition parse_answer :: "payload \<Rightarrow> scoring_signals \<Rightarrow> string + qa_answer" where
  "parse_answer p g =
    rbind (parse_enum analysis_intents (field_of p ''intent'') ''intent'') (\<lambda>i.
    rbind (parse_enum interest_statuses (field_of p ''interest_status'') ''interest_status'') (\<lambda>s.
    if contradictory g i s then Inl ''positive classification contradicts an explicit rejection or opt-out''
    else rbind (parse_text (field_of p ''summary'') ''summary'' MAX_SUMMARY True) (\<lambda>summary.
    rbind (parse_text (field_of p ''language'') ''language'' MAX_LANGUAGE True) (\<lambda>language.
    rbind (parse_enum analysis_sentiments (field_of p ''sentiment'') ''sentiment'') (\<lambda>sentiment.
    rbind (parse_enum analysis_nexts (field_of p ''next_action'') ''next_action'') (\<lambda>nxt.
    rbind (parse_text (field_of p ''feedback'') ''feedback'' MAX_FEEDBACK False) (\<lambda>feedback.
    rbind (parse_items (field_of p ''key_facts'') ''key_facts'') (\<lambda>facts.
    rbind (parse_items (field_of p ''objections'') ''objections'') (\<lambda>objections.
    rbind (parse_items (field_of p ''customer_needs'') ''customer_needs'') (\<lambda>needs.
    Inr \<lparr> qa_summary = required_text summary, qa_intent = i, qa_interest = s, qa_sentiment = sentiment, qa_next = nxt, qa_feedback = feedback,
      qa_key_facts = facts, qa_objections = objections, qa_needs = needs, qa_language = required_text language, qa_signals = g \<rparr>))))))))))"

definition parse_qa_payload :: "(payload \<Rightarrow> nat option) \<Rightarrow> nat \<Rightarrow> payload \<Rightarrow> string + qa_answer" where
  "parse_qa_payload dumped max_bytes p =
    (case dumped p of
       None \<Rightarrow> Inl ''not serialisable''
     | Some bytes \<Rightarrow>
        let missing = filter (\<lambda>k. map_of p k = None) REQUIRED in
        if bytes > max_bytes then Inl ''output exceeds the configured size limit''
        else if missing \<noteq> [] then Inl (''missing required field(s): '' @ py_join '', '' missing)
        else if list_ex (\<lambda>f. fst f \<notin> set ALLOWED) p then Inl ''unexpected field(s) present''
        else if map_of p ''schema_version'' \<noteq> Some (JStr CONTRACT_VERSION) then Inl ''unsupported schema_version''
        else case map_of p ''signals'' of
            Some (JObj raw) \<Rightarrow> rbind (parse_signals raw) (parse_answer p)
          | _ \<Rightarrow> Inl ''signals not an object'')"

section \<open>The adapter\<close>

record qa_settings =
  qs_key :: string
  qs_max_bytes :: nat
  qs_min_duration :: rat

definition no_result_yet_or_never :: "qa_settings \<Rightarrow> payload \<Rightarrow> analysis_context \<Rightarrow> llm_error" where
  "no_result_yet_or_never q run cx =
    (if map_of run ''is_completed'' = Some (JBool False) then Not_ready
     else case cx_duration cx of Some t \<Rightarrow> if t < qs_min_duration q then Unavailable else Not_ready | None \<Rightarrow> Not_ready)"

definition charge_usd :: "payload \<Rightarrow> rat option" where
  "charge_usd run =
    (case map_of run ''cost_info'' of
       Some (JObj info) \<Rightarrow>
        (let amounts = concat (map (\<lambda>k. case map_of info k of Some (JInt n) \<Rightarrow> if 0 \<le> n then [of_int n] else []
             | Some (JRat x) \<Rightarrow> if 0 \<le> x then [x] else [] | _ \<Rightarrow> []) [''charge_usd'', ''total_cost_usd'', ''total_cost''])
         in case amounts of [] \<Rightarrow> None | x # _ \<Rightarrow> Some x)
     | _ \<Rightarrow> None)"

definition classify_api_error :: "api_error \<Rightarrow> llm_error" where
  "classify_api_error e =
    (if ae_category e = RATE_LIMITED_CAT then Rate_limited (ae_retry_after e)
     else if ae_category e \<in> {AUTHENTICATION_ERROR, VALIDATION_ERROR} then Permanent
     else if ae_category e = PROVIDER_REJECTED then Permanent
     else if ae_category e \<in> {TIMEOUT, AMBIGUOUS_REQUEST} then Provider_timeout
     else if ae_category e = UNKNOWN_PROVIDER_ERROR \<and> 200 \<le> ae_status e \<and> ae_status e < 300 then Invalid_output
     else Provider_error)"

text \<open>\<open>analyze\<close>; the second result is \<open>last_observed_run_cost_usd\<close> after it.\<close>

definition dograh_analyze :: "qa_settings \<Rightarrow> (payload \<Rightarrow> nat option) \<Rightarrow> (int \<Rightarrow> int \<Rightarrow> api_error + payload) \<Rightarrow> string list \<Rightarrow> analysis_context \<Rightarrow>
    (llm_error + analysis_result) \<times> rat option" where
  "dograh_analyze q dumped get_run transcript_lines cx =
    (case (cx_workflow cx, cx_run cx) of
       (Some flow, Some i) \<Rightarrow>
        (case get_run flow i of
           Inl e \<Rightarrow> (Inl (classify_api_error e), None)
         | Inr run \<Rightarrow>
            ((case find_qa_payload (qs_key q) (field_of run ''annotations'') of
                Inl _ \<Rightarrow> Inl Invalid_output
              | Inr None \<Rightarrow> Inl (no_result_yet_or_never q run cx)
              | Inr (Some p) \<Rightarrow> (case parse_qa_payload dumped (qs_max_bytes q) p of
                   Inl _ \<Rightarrow> Inl Invalid_output
                 | Inr r \<Rightarrow> Inr (answer_result r))), charge_usd run))
     | _ \<Rightarrow> (Inl Permanent, None))"

section \<open>What is accepted\<close>

definition item_ok :: "string \<Rightarrow> bool" where
  "item_ok s \<longleftrightarrow> s \<noteq> [] \<and> length s \<le> MAX_ITEM"

definition items_ok :: "string list \<Rightarrow> bool" where
  "items_ok xs \<longleftrightarrow> length xs \<le> MAX_ITEMS \<and> list_all item_ok xs"

definition answer_ok :: "qa_answer \<Rightarrow> bool" where
  "answer_ok r \<longleftrightarrow> qa_summary r \<noteq> [] \<and> length (qa_summary r) \<le> MAX_SUMMARY \<and> qa_language r \<noteq> [] \<and> length (qa_language r) \<le> MAX_LANGUAGE \<and>
    (case qa_feedback r of None \<Rightarrow> True | Some s \<Rightarrow> s \<noteq> [] \<and> length s \<le> MAX_FEEDBACK) \<and>
    items_ok (qa_key_facts r) \<and> items_ok (qa_objections r) \<and> items_ok (qa_needs r) \<and>
    0 \<le> sg_objection_count (qa_signals r) \<and> sg_objection_count (qa_signals r) \<le> MAX_OBJECTIONS_COUNT \<and>
    (sg_opted_out (qa_signals r) \<or> sg_explicit_rejection (qa_signals r) \<longrightarrow>
       qa_intent r \<noteq> AI_INTERESTED \<and> qa_intent r \<noteq> AI_CALLBACK_REQUESTED \<and> qa_interest r \<noteq> IS_INTERESTED)"

lemma parse_text_Inr:
  "parse_text v f n True = Inr t \<Longrightarrow> \<exists>s. t = Some s \<and> s \<noteq> [] \<and> length s \<le> n"
  "parse_text v f n False = Inr t \<Longrightarrow> (case t of None \<Rightarrow> True | Some s \<Rightarrow> s \<noteq> [] \<and> length s \<le> n)"
  by (auto simp: parse_text_def Let_def split: jval.splits if_splits)

lemma parse_item_list_ok: "parse_item_list f vs = Inr xs \<Longrightarrow> length xs = length vs \<and> list_all item_ok xs"
proof (induction vs arbitrary: xs)
  case (Cons v vs)
  then obtain t ts where t: "parse_text v f MAX_ITEM True = Inr t" "parse_item_list f vs = Inr ts"
    "xs = (case t of Some s \<Rightarrow> s | None \<Rightarrow> []) # ts" by (auto simp: rbind_Inr_iff)
  from parse_text_Inr(1) [OF t(1)] Cons.IH [OF t(2)] show ?case by (auto simp: t(3) item_ok_def)
qed simp

lemma parse_items_ok: "parse_items v f = Inr xs \<Longrightarrow> items_ok xs"
  by (auto simp: parse_items_def items_ok_def split: jval.splits if_splits dest: parse_item_list_ok)

lemma parse_signals_ok: "parse_signals raw = Inr g \<Longrightarrow> 0 \<le> sg_objection_count g \<and> sg_objection_count g \<le> MAX_OBJECTIONS_COUNT"
  by (auto simp: parse_signals_def parse_count_def rbind_Inr_iff Let_def split: jval.splits if_splits)

lemma parse_answer_ok:
  assumes "parse_answer p g = Inr r" "0 \<le> sg_objection_count g" "sg_objection_count g \<le> MAX_OBJECTIONS_COUNT"
  shows "answer_ok r"
proof -
  obtain summary language where r: "parse_text (field_of p ''summary'') ''summary'' MAX_SUMMARY True = Inr summary"
    "parse_text (field_of p ''language'') ''language'' MAX_LANGUAGE True = Inr language" "qa_summary r = required_text summary"
    "qa_language r = required_text language" "parse_text (field_of p ''feedback'') ''feedback'' MAX_FEEDBACK False = Inr (qa_feedback r)"
    "parse_items (field_of p ''key_facts'') ''key_facts'' = Inr (qa_key_facts r)"
    "parse_items (field_of p ''objections'') ''objections'' = Inr (qa_objections r)"
    "parse_items (field_of p ''customer_needs'') ''customer_needs'' = Inr (qa_needs r)" "qa_signals r = g"
    "\<not> contradictory g (qa_intent r) (qa_interest r)"
    using assms(1) by (auto simp: parse_answer_def rbind_Inr_iff split: if_splits)
  from parse_text_Inr(1) [OF r(1)] parse_text_Inr(1) [OF r(2)] parse_text_Inr(2) [OF r(5)] r(3,4,6-10) assms(2,3)
  show ?thesis by (auto simp: answer_ok_def required_text_def parse_items_ok contradictory_def)
qed

lemma parse_payload_Inr:
  assumes "parse_qa_payload dumped n p = Inr r"
  obtains bytes raw g where "dumped p = Some bytes" "bytes \<le> n" "\<forall>k \<in> set REQUIRED. map_of p k \<noteq> None" "\<forall>f \<in> set p. fst f \<in> set ALLOWED"
    "map_of p ''schema_version'' = Some (JStr CONTRACT_VERSION)" "map_of p ''signals'' = Some (JObj raw)" "parse_signals raw = Inr g" "parse_answer p g = Inr r"
  using assms by (auto simp: parse_qa_payload_def Let_def rbind_Inr_iff list_ex_iff filter_empty_conv split: option.splits if_splits jval.splits)

text \<open>
  C38: what the adapter hands to the worker as a result is bounded and consistent: a payload of the contract's version and
  within the size limit, complete and without unknown fields, every text non-empty and within its length, no positive
  classification next to a rejection or an opt-out; and its score is 0 after an opt-out. Anything else is an error.
\<close>

theorem qa_result_sound:
  assumes "dograh_analyze q dumped get_run lines cx = (Inr result, cost)"
  shows "\<exists>flow i run p r bytes. cx_workflow cx = Some flow \<and> cx_run cx = Some i \<and> get_run flow i = Inr run \<and>
    find_qa_payload (qs_key q) (field_of run ''annotations'') = Inr (Some p) \<and> dumped p = Some bytes \<and> bytes \<le> qs_max_bytes q \<and>
    map_of p ''schema_version'' = Some (JStr CONTRACT_VERSION) \<and> (\<forall>f \<in> set p. fst f \<in> set ALLOWED) \<and>
    result = answer_result r \<and> answer_ok r \<and> 0 \<le> compute_lead_score (ar_signals result) \<and> compute_lead_score (ar_signals result) \<le> 100 \<and>
    (sg_opted_out (ar_signals result) \<longrightarrow> compute_lead_score (ar_signals result) = 0)"
proof -
  obtain flow i run p r where f: "cx_workflow cx = Some flow" "cx_run cx = Some i" "get_run flow i = Inr run"
    "find_qa_payload (qs_key q) (field_of run ''annotations'') = Inr (Some p)" "parse_qa_payload dumped (qs_max_bytes q) p = Inr r" "result = answer_result r"
    using assms by (auto simp: dograh_analyze_def split: option.splits sum.splits)
  obtain bytes raw g where p: "dumped p = Some bytes" "bytes \<le> qs_max_bytes q" "\<forall>k \<in> set REQUIRED. map_of p k \<noteq> None" "\<forall>f \<in> set p. fst f \<in> set ALLOWED"
    "map_of p ''schema_version'' = Some (JStr CONTRACT_VERSION)" "map_of p ''signals'' = Some (JObj raw)" "parse_signals raw = Inr g" "parse_answer p g = Inr r"
    by (rule parse_payload_Inr [OF f(5)])
  have "answer_ok r" using parse_answer_ok [OF p(8)] parse_signals_ok [OF p(7)] by blast
  with f p lead_score_bounds [of "ar_signals result"] show ?thesis by blast
qed

definition warm_payload :: payload where
  "warm_payload = [(''schema_version'', JStr CONTRACT_VERSION), (''summary'', JStr '' wants  a call ''), (''intent'', JStr ''interested''),
     (''interest_status'', JStr ''maybe''), (''sentiment'', JStr ''positive''), (''next_action'', JStr ''callback''), (''language'', JStr ''en''),
     (''signals'', JObj [(''explicit_interest'', JBool True), (''objection_count'', JInt 2)]), (''key_facts'', JList [JStr ''owns a shop''])]"

definition qa_defaults :: qa_settings where
  "qa_defaults = \<lparr> qs_key = [], qs_max_bytes = 16384, qs_min_duration = 15 \<rparr>"

definition run_42 :: "int \<Rightarrow> int \<Rightarrow> api_error + payload" where
  "run_42 flow i = Inr [(''is_completed'', JBool True), (''annotations'', JObj [(''qa'', JObj warm_payload), (''other'', JInt 1)])]"

lemma warm_parsed: "case dograh_analyze qa_defaults (\<lambda>_. Some 300) run_42 [] \<lparr> cx_workflow = Some 4, cx_run = Some 42, cx_duration = None \<rparr> of
    (Inr r, _) \<Rightarrow> map_of (ar_output r) ''summary'' = Some (JStr ''wants a call'') | _ \<Rightarrow> False"
  by code_simp

theorem qa_result_sound_witness:
  "\<exists>result cost r. dograh_analyze qa_defaults (\<lambda>_. Some 300) run_42 [] \<lparr> cx_workflow = Some 4, cx_run = Some 42, cx_duration = None \<rparr> = (Inr result, cost) \<and>
    result = answer_result r \<and> answer_ok r"
proof -
  obtain result cost where a: "dograh_analyze qa_defaults (\<lambda>_. Some 300) run_42 [] \<lparr> cx_workflow = Some 4, cx_run = Some 42, cx_duration = None \<rparr> = (Inr result, cost)"
    using warm_parsed by (auto split: prod.splits sum.splits)
  from qa_result_sound [OF a] a show ?thesis by blast
qed

end
