(* ===== verification/Ip_Address.thy ===== *)
theory Ip_Address imports Py_Text begin

text \<open>
  The part of Python's \<open>ipaddress\<close> module that \<open>app/core/client_address.py\<close> uses: reading and printing of IPv4 and IPv6
  addresses (an address is the unbounded integer \<open>_ip\<close>, an IPv6 address may carry a scope), networks with their masks, and
  membership. Reading back what was printed is proved for every address.
\<close>

section \<open>Splitting and joining at a character\<close>

fun split_on :: "char \<Rightarrow> string \<Rightarrow> string list" where
  "split_on d [] = [[]]"
| "split_on d (c # cs) =
    (if c = d then [] # split_on d cs else (case split_on d cs of w # ws \<Rightarrow> (c # w) # ws | [] \<Rightarrow> [[c]]))"

fun join_on :: "char \<Rightarrow> string list \<Rightarrow> string" where
  "join_on d [] = []"
| "join_on d [w] = w"
| "join_on d (w # ws) = w @ d # join_on d ws"

lemma split_on_ne [simp]: "split_on d s \<noteq> []"
  by (induction s) (auto split: list.split)

lemma join_split [simp]: "join_on d (split_on d s) = s"
proof (induction s)
  case (Cons c cs)
  obtain w ws where w: "split_on d cs = w # ws" using split_on_ne by (metis list.exhaust)
  show ?case using Cons w by (cases ws) auto
qed simp

lemma split_no: "d \<notin> set w \<Longrightarrow> split_on d w = [w]"
  by (induction w) auto

lemma split_append: "d \<notin> set w \<Longrightarrow> split_on d (w @ d # r) = w # split_on d r"
  by (induction w) auto

lemma split_join: "ws \<noteq> [] \<Longrightarrow> \<forall>w \<in> set ws. d \<notin> set w \<Longrightarrow> split_on d (join_on d ws) = ws"
  by (induction d ws rule: join_on.induct) (auto simp: split_no split_append)

lemma set_join: "set (join_on d ws) \<subseteq> insert d (\<Union>w \<in> set ws. set w)"
  by (induction d ws rule: join_on.induct) auto

section \<open>Addresses\<close>

datatype ip = V4 nat | V6 nat "string option"

fun map_all :: "('a \<Rightarrow> 'b option) \<Rightarrow> 'a list \<Rightarrow> 'b list option" where
  "map_all f [] = Some []"
| "map_all f (x # xs) = (case f x of None \<Rightarrow> None | Some y \<Rightarrow> map_option (\<lambda>ys. y # ys) (map_all f xs))"

definition parse_octet :: "string \<Rightarrow> nat option" where
  "parse_octet s =
    (if \<not> py_digits s \<or> length s > 3 \<or> (s \<noteq> ''0'' \<and> take 1 s = ''0'') \<or> digits_value s > 255 then None
     else Some (nat (digits_value s)))"

definition of_digits :: "nat \<Rightarrow> nat list \<Rightarrow> nat" where
  "of_digits b ds = foldl (\<lambda>a d. b * a + d) 0 ds"

definition parse_v4 :: "string \<Rightarrow> nat option" where
  "parse_v4 s = (let parts = split_on CHR ''.'' s in
     if length parts \<noteq> 4 then None else map_option (of_digits 256) (map_all parse_octet parts))"

fun hex_text :: "nat \<Rightarrow> string" where
  "hex_text n = (if n < 16 then [hex_char n] else hex_text (n div 16) @ [hex_char (n mod 16)])"

declare hex_text.simps [simp del]

definition parse_hextet :: "string \<Rightarrow> nat option" where
  "parse_hextet s = (if length s > 4 \<or> CHR ''_'' \<in> set s then None else int_digits 16 0 False s)"

text \<open>An IPv4 suffix becomes two groups.\<close>

definition v4_tail :: "string list \<Rightarrow> string list option" where
  "v4_tail parts =
    (if CHR ''.'' \<in> set (last parts)
     then map_option (\<lambda>n. butlast parts @ [hex_text (n div 65536), hex_text (n mod 65536)]) (parse_v4 (last parts))
     else Some parts)"

text \<open>The empty groups that are not at an end, and the groups before and after the gap with the number of groups in it.\<close>

definition gaps :: "string list \<Rightarrow> nat list" where
  "gaps parts = filter (\<lambda>i. parts ! i = []) [1..<length parts - 1]"

definition v6_groups :: "string list \<Rightarrow> (string list \<times> nat \<times> string list) option" where
  "v6_groups parts =
    (let n = length parts in
     if n > 9 then None
     else case gaps parts of
       [] \<Rightarrow> if n \<noteq> 8 \<or> hd parts = [] \<or> last parts = [] then None else Some (parts, 0, [])
     | [i] \<Rightarrow>
        (let hi = (if hd parts = [] then i - 1 else i);
             lo = (if last parts = [] then n - i - 2 else n - i - 1)
         in if (hd parts = [] \<and> hi \<noteq> 0) \<or> (last parts = [] \<and> lo \<noteq> 0) \<or> hi + lo > 7 then None
            else Some (take hi parts, 8 - (hi + lo), drop (n - lo) parts))
     | _ \<Rightarrow> None)"

definition parse_v6_int :: "string \<Rightarrow> nat option" where
  "parse_v6_int s =
    (let parts = split_on CHR '':'' s in
     if s = [] \<or> length parts < 3 then None
     else case Option.bind (v4_tail parts) v6_groups of
       None \<Rightarrow> None
     | Some (his, k, los) \<Rightarrow>
        (case (map_all parse_hextet his, map_all parse_hextet los) of
           (Some hs, Some ls) \<Rightarrow> Some (of_digits 65536 (hs @ replicate k 0 @ ls))
         | _ \<Rightarrow> None))"

definition split_scope :: "string \<Rightarrow> (string \<times> string option) option" where
  "split_scope s =
    (case split_on CHR 0x25 s of
       [a] \<Rightarrow> Some (a, None)
     | [a, sc] \<Rightarrow> if sc = [] then None else Some (a, Some sc)
     | _ \<Rightarrow> None)"

definition parse_v6 :: "string \<Rightarrow> ip option" where
  "parse_v6 s =
    (if CHR ''/'' \<in> set s then None
     else case split_scope s of None \<Rightarrow> None | Some (a, sc) \<Rightarrow> map_option (\<lambda>n. V6 n sc) (parse_v6_int a))"

definition ip_address :: "string \<Rightarrow> ip option" where
  "ip_address s = (case parse_v4 s of Some n \<Rightarrow> Some (V4 n) | None \<Rightarrow> parse_v6 s)"

section \<open>Printing\<close>

text \<open>The \<open>k\<close> lowest digits of \<open>n\<close>, the most significant first.\<close>

fun to_digits :: "nat \<Rightarrow> nat \<Rightarrow> nat \<Rightarrow> nat list" where
  "to_digits b 0 n = []"
| "to_digits b (Suc k) n = to_digits b k (n div b) @ [n mod b]"

definition v4_text :: "nat \<Rightarrow> string" where
  "v4_text n = join_on CHR ''.'' (map decimal (to_digits 256 4 n))"

text \<open>\<open>_compress_hextets\<close>: the index, the best run of zero groups so far and the current run, each a start and a length.\<close>

fun zero_run :: "nat \<Rightarrow> string list \<Rightarrow> nat \<times> nat \<Rightarrow> nat \<times> nat \<Rightarrow> nat \<times> nat" where
  "zero_run i [] best cur = best"
| "zero_run i (h # hs) best cur =
    (if h = ''0''
     then let cur' = (if snd cur = 0 then i else fst cur, snd cur + 1) in
       zero_run (i + 1) hs (if snd cur' > snd best then cur' else best) cur'
     else zero_run (i + 1) hs best (0, 0))"

definition compress :: "string list \<Rightarrow> string list" where
  "compress hs =
    (case zero_run 0 hs (0, 0) (0, 0) of (s, l) \<Rightarrow>
      if l > 1
      then let hs1 = (if s + l = length hs then hs @ [[]] else hs);
               hs2 = take s hs1 @ [[]] @ drop (s + l) hs1
           in if s = 0 then [] # hs2 else hs2
      else hs)"

definition v6_text :: "nat \<Rightarrow> string" where
  "v6_text n = join_on CHR '':'' (compress (map hex_text (to_digits 65536 8 n)))"

fun ip_text :: "ip \<Rightarrow> string" where
  "ip_text (V4 n) = v4_text n"
| "ip_text (V6 n sc) = v6_text n @ (case sc of None \<Rightarrow> [] | Some z \<Rightarrow> CHR 0x25 # z)"

section \<open>Networks\<close>

datatype network = Net4 nat nat | Net6 nat nat

definition masked :: "nat \<Rightarrow> nat \<Rightarrow> nat \<Rightarrow> nat" where
  "masked width p n = n div 2 ^ (width - p) * 2 ^ (width - p)"

fun ip_in :: "ip \<Rightarrow> network \<Rightarrow> bool" where
  "ip_in (V4 n) (Net4 a p) = (masked 32 p n = a)"
| "ip_in (V6 n sc) (Net6 a p) = (masked 128 p n = a)"
| "ip_in _ _ = False"

definition parse_prefix :: "nat \<Rightarrow> string \<Rightarrow> nat option" where
  "parse_prefix width s = (if py_digits s \<and> digits_value s \<le> int width then Some (nat (digits_value s)) else None)"

text \<open>A dotted netmask, or a dotted host mask.\<close>

definition mask_prefix :: "nat \<Rightarrow> nat option" where
  "mask_prefix m = find (\<lambda>p. m = (2 ^ p - 1) * 2 ^ (32 - p)) [0..<33]"

definition parse_mask4 :: "string \<Rightarrow> nat option" where
  "parse_mask4 s =
    (case parse_prefix 32 s of
       Some p \<Rightarrow> Some p
     | None \<Rightarrow> (case parse_v4 s of
         None \<Rightarrow> None
       | Some m \<Rightarrow> (case mask_prefix m of Some p \<Rightarrow> Some p | None \<Rightarrow> mask_prefix (2 ^ 32 - 1 - m))))"

definition net4_of :: "string \<Rightarrow> nat option \<Rightarrow> network option" where
  "net4_of a p = (case (parse_v4 a, p) of (Some n, Some p) \<Rightarrow> Some (Net4 (masked 32 p n) p) | _ \<Rightarrow> None)"

definition net6_of :: "string \<Rightarrow> nat option \<Rightarrow> network option" where
  "net6_of a p = (case (parse_v6 a, p) of (Some (V6 n sc), Some p) \<Rightarrow> Some (Net6 (masked 128 p n) p) | _ \<Rightarrow> None)"

text \<open>\<open>ip_network(text, strict=False)\<close>.\<close>

definition ip_network :: "string \<Rightarrow> network option" where
  "ip_network s =
    (case split_on CHR ''/'' s of
       [a] \<Rightarrow> (case net4_of a (Some 32) of Some n \<Rightarrow> Some n | None \<Rightarrow> net6_of a (Some 128))
     | [a, m] \<Rightarrow> (case net4_of a (parse_mask4 m) of Some n \<Rightarrow> Some n | None \<Rightarrow> net6_of a (parse_prefix 128 m))
     | _ \<Rightarrow> None)"

text \<open>\<open>str(ip_network((address, 64), strict=False))\<close>: the scope survives when no host bit is set.\<close>

definition net64_text :: "nat \<Rightarrow> string option \<Rightarrow> string" where
  "net64_text n sc =
    ip_text (if masked 128 64 n = n then V6 n sc else V6 (masked 128 64 n) None) @ ''/64''"

section \<open>Reading back what was printed\<close>

lemma of_digits_snoc: "of_digits b (ds @ [d]) = b * of_digits b ds + d"
  by (simp add: of_digits_def)

lemma of_to_digits: "b > 0 \<Longrightarrow> n < b ^ k \<Longrightarrow> of_digits b (to_digits b k n) = n"
proof (induction k arbitrary: n)
  case (Suc k)
  then have "n div b < b ^ k" by (simp add: less_mult_imp_div_less mult.commute)
  then show ?case using Suc by (simp add: of_digits_snoc)
qed (simp add: of_digits_def)

lemma length_to_digits [simp]: "length (to_digits b k n) = k"
  by (induction k arbitrary: n) simp_all

lemma to_digits_less: "b > 0 \<Longrightarrow> d \<in> set (to_digits b k n) \<Longrightarrow> d < b"
  by (induction k arbitrary: n) auto

lemma map_all_map: "(\<And>x. x \<in> set xs \<Longrightarrow> f (g x) = Some x) \<Longrightarrow> map_all f (map g xs) = Some xs"
  by (induction xs) auto

lemma map_all_Some: "map_all f xs = Some ys \<Longrightarrow> length ys = length xs \<and> (\<forall>y \<in> set ys. \<exists>x \<in> set xs. f x = Some y)"
  by (induction xs arbitrary: ys) (fastforce split: option.splits)+

subsection \<open>IPv4\<close>

lemma decimal_digits: "c \<in> set (decimal n) \<Longrightarrow> 48 \<le> (of_char c :: nat) \<and> (of_char c :: nat) \<le> 57"
  using decimal_value [of n] by (auto simp: py_digits_def list_all_iff)

lemma decimal_length: "n < 10 ^ Suc k \<Longrightarrow> length (decimal n) \<le> Suc k"
proof (induction k arbitrary: n)
  case (Suc k)
  have "n div 10 < 10 ^ Suc k" using Suc.prems by (simp add: less_mult_imp_div_less mult.commute)
  then show ?case using Suc.IH [of "n div 10"] by (subst decimal.simps) simp
qed (simp add: decimal.simps)

lemma decimal_lead: "n > 0 \<Longrightarrow> take 1 (decimal n) \<noteq> ''0''"
proof (induction n rule: decimal.induct)
  case (1 n)
  show ?case
  proof (cases "n < 10")
    case True
    have z: "(of_char (CHR ''0'') :: nat) = 48" by simp
    have "char_of (48 + n) \<noteq> CHR ''0''" using digit_char [OF True] z 1(2) by (metis add_cancel_left_right less_nat_zero_code)
    then show ?thesis using True by (simp add: decimal.simps)
  next
    case False
    then have p: "take 1 (decimal (n div 10)) \<noteq> ''0''" "decimal (n div 10) \<noteq> []"
      using 1(1) decimal_value [of "n div 10"] by (auto simp: py_digits_def)
    then have "take 1 (decimal n) = take 1 (decimal (n div 10))" using False by (subst decimal.simps) (cases "decimal (n div 10)"; simp)
    then show ?thesis using p by simp
  qed
qed

lemma parse_octet_decimal: "n < 256 \<Longrightarrow> parse_octet (decimal n) = Some n"
proof -
  assume n: "n < 256"
  have "length (decimal n) \<le> 3" using decimal_length [of n 2] n by simp
  moreover have "decimal n = ''0'' \<or> take 1 (decimal n) \<noteq> ''0''"
    using decimal_lead [of n] by (cases "n = 0") (simp_all add: decimal.simps)
  ultimately show ?thesis using n decimal_value [of n] by (auto simp: parse_octet_def)
qed

lemma v4_text_roundtrip: "n < 2 ^ 32 \<Longrightarrow> parse_v4 (v4_text n) = Some n"
proof -
  assume n: "n < 2 ^ 32"
  have "CHR ''.'' \<notin> set (decimal d)" for d using decimal_digits [of "CHR ''.''" d] by auto
  then have "split_on CHR ''.'' (v4_text n) = map decimal (to_digits 256 4 n)"
    unfolding v4_text_def using length_to_digits [of 256 4 n] by (intro split_join) (auto simp del: length_to_digits)
  moreover have "map_all parse_octet (map decimal (to_digits 256 4 n)) = Some (to_digits 256 4 n)"
    by (rule map_all_map) (simp add: parse_octet_decimal to_digits_less)
  moreover have "of_digits 256 (to_digits 256 4 n) = n" by (rule of_to_digits) (use n in simp_all)
  ultimately show ?thesis by (simp add: parse_v4_def)
qed

lemma parse_v4_chars:
  assumes "parse_v4 s = Some n"
  shows "\<forall>c \<in> set s. c = CHR ''.'' \<or> (48 \<le> (of_char c :: nat) \<and> (of_char c :: nat) \<le> 57)"
proof -
  have a: "list_all (\<lambda>w. parse_octet w \<noteq> None) ws" if "map_all parse_octet ws = Some ys" for ws ys
    using that by (induction ws arbitrary: ys) (auto split: option.splits)
  have o: "parse_octet w \<noteq> None \<Longrightarrow> py_digits w" for w by (auto simp: parse_octet_def split: if_splits)
  obtain ys where "map_all parse_octet (split_on CHR ''.'' s) = Some ys"
    using assms by (auto simp: parse_v4_def Let_def split: if_splits)
  then have "\<forall>w \<in> set (split_on CHR ''.'' s). py_digits w" using a o by (simp add: list_all_iff)
  then show ?thesis using set_join [of "CHR ''.''" "split_on CHR ''.'' s"] by (auto simp: py_digits_def list_all_iff)
qed

subsection \<open>IPv6\<close>

lemma hex_text_ne [simp]: "hex_text n \<noteq> []" "[] \<noteq> hex_text n"
  by (subst hex_text.simps, simp)+

lemma hex_text_chars: "set (hex_text n) \<subseteq> hex_set"
proof (induction n rule: hex_text.induct)
  case (1 n)
  show ?case by (subst hex_text.simps) (use 1 digit_hex_char in auto)
qed

lemma hex_set_marks [simp]: "CHR '':'' \<notin> hex_set" "CHR ''.'' \<notin> hex_set" "CHR ''/'' \<notin> hex_set" "CHR 0x25 \<notin> hex_set"
  by (simp_all add: hex_set_def digit_of_def)

lemma hex_text_length: "n < 16 ^ Suc k \<Longrightarrow> length (hex_text n) \<le> Suc k"
proof (induction k arbitrary: n)
  case (Suc k)
  have "n div 16 < 16 ^ Suc k" using Suc.prems by (simp add: less_mult_imp_div_less mult.commute)
  then show ?case using Suc.IH [of "n div 16"] by (subst hex_text.simps) simp
qed (simp add: hex_text.simps)

lemma hex_text_value: "int_digits 16 0 False (hex_text n) = Some n"
proof (induction n rule: hex_text.induct)
  case (1 n)
  have d: "digit_of (hex_char (n mod 16)) = Some (n mod 16)" "hex_char (n mod 16) \<noteq> CHR ''_''"
    using digit_hex_char [of "n mod 16"] by auto
  show ?case
  proof (cases "n < 16")
    case True
    then show ?thesis using d by (subst hex_text.simps) simp
  next
    case False
    then have e: "hex_text n = hex_text (n div 16) @ [hex_char (n mod 16)]" by (subst hex_text.simps) simp
    show ?thesis unfolding e int_digits_append [OF hex_text_ne(1) 1 [OF False]] using d by simp
  qed
qed

lemma parse_hextet_hex: "n < 65536 \<Longrightarrow> parse_hextet (hex_text n) = Some n"
  using hex_text_length [of n 3] hex_text_chars [of n] hex_text_value [of n] by (auto simp: parse_hextet_def)

lemma hex_text_zero: "hex_text n = ''0'' \<longleftrightarrow> n = 0"
proof
  assume "hex_text n = ''0''"
  moreover have "hex_text 0 = ''0''" by code_simp
  ultimately have "Some n = Some (0 :: nat)" using hex_text_value [of n] hex_text_value [of 0] by metis
  then show "n = 0" by simp
next
  have "hex_text 0 = ''0''" by code_simp
  then show "n = 0 \<Longrightarrow> hex_text n = ''0''" by simp
qed

text \<open>A run of zero groups: a start and a length.\<close>

definition run_in :: "string list \<Rightarrow> nat \<times> nat \<Rightarrow> bool" where
  "run_in hs r \<longleftrightarrow> fst r + snd r \<le> length hs \<and> (\<forall>j < snd r. hs ! (fst r + j) = ''0'')"

lemma run_in_append: "run_in pre r \<Longrightarrow> run_in (pre @ hs) r"
  by (auto simp: run_in_def nth_append)

lemma run_in_snoc: "run_in pre (s, l) \<Longrightarrow> s + l = length pre \<Longrightarrow> run_in (pre @ [''0'']) (s, l + 1)"
  by (auto simp: run_in_def nth_append less_Suc_eq)

lemma zero_run_in:
  assumes "run_in pre best" "run_in pre cur" "snd cur = 0 \<or> fst cur + snd cur = length pre" "i = length pre"
  shows "run_in (pre @ hs) (zero_run i hs best cur)"
  using assms
proof (induction hs arbitrary: pre best cur i)
  case (Cons h hs)
  show ?case
  proof (cases "h = ''0''")
    case True
    define cur' where "cur' = (if snd cur = 0 then i else fst cur, snd cur + 1)"
    have c: "run_in (pre @ [h]) cur'"
    proof (cases "snd cur = 0")
      case True
      then show ?thesis using Cons.prems(4) \<open>h = ''0''\<close> by (simp add: cur'_def run_in_def nth_append)
    next
      case False
      then show ?thesis using Cons.prems(2,3) run_in_snoc [of pre "fst cur" "snd cur"] True by (simp add: cur'_def)
    qed
    have f: "fst cur' + snd cur' = length (pre @ [h])" using Cons.prems(3,4) by (auto simp: cur'_def)
    have "run_in ((pre @ [h]) @ hs) (zero_run (i + 1) hs (if snd cur' > snd best then cur' else best) cur')"
      by (rule Cons.IH) (use c f Cons.prems run_in_append in auto)
    moreover have "zero_run i (h # hs) best cur = zero_run (i + 1) hs (if snd cur' > snd best then cur' else best) cur'"
      by (simp add: True cur'_def Let_def)
    ultimately show ?thesis by (simp only: append_assoc append.simps)
  next
    case False
    have "run_in ((pre @ [h]) @ hs) (zero_run (i + 1) hs best (0, 0))"
      by (rule Cons.IH) (use Cons.prems run_in_append in \<open>auto simp: run_in_def nth_append\<close>)
    then show ?thesis using False by simp
  qed
qed simp

definition gapped :: "string list \<Rightarrow> string list \<Rightarrow> string list" where
  "gapped hi lo = (if hi = [] then [[]] else []) @ hi @ [[]] @ lo @ (if lo = [] then [[]] else [])"

lemma compress_cases:
  obtains "compress hs = hs"
  | hi k lo where "hs = hi @ replicate k ''0'' @ lo" "k \<ge> 2" "compress hs = gapped hi lo"
proof -
  obtain s l where r: "zero_run 0 hs (0, 0) (0, 0) = (s, l)" by fastforce
  have "run_in ([] @ hs) (zero_run 0 hs (0, 0) (0, 0))" by (rule zero_run_in) (simp_all add: run_in_def)
  then have run: "s + l \<le> length hs" "\<And>j. j < l \<Longrightarrow> hs ! (s + j) = ''0''" by (simp_all add: r run_in_def)
  show thesis
  proof (cases "l > 1")
    case True
    have "take l (drop s hs) = replicate l ''0''" by (rule nth_equalityI) (use run in auto)
    then have "hs = take s hs @ replicate l ''0'' @ drop (s + l) hs"
      by (metis append_take_drop_id add.commute drop_drop)
    moreover have "s = 0 \<longleftrightarrow> take s hs = []" using run(1) True by auto
    then have "compress hs = gapped (take s hs) (drop (s + l) hs)"
      using True run(1) by (auto simp: compress_def r gapped_def)
    ultimately show thesis using True by (intro that(2)) auto
  next
    case False
    then show thesis by (intro that(1)) (simp add: compress_def r)
  qed
qed

lemma gaps_one:
  assumes "1 \<le> i" "i + 1 < length ws" "\<And>j. 1 \<le> j \<Longrightarrow> j + 1 < length ws \<Longrightarrow> ws ! j = [] \<longleftrightarrow> j = i"
  shows "gaps ws = [i]"
proof -
  have u: "[1..<length ws - 1] = [1..<i] @ [i] @ [i + 1..<length ws - 1]"
    using assms(1,2) upt_add_eq_append [of 1 i "length ws - 1 - i"] upt_rec [of i "length ws - 1"] by simp
  have "filter (\<lambda>j. ws ! j = []) [1..<i] = []" "filter (\<lambda>j. ws ! j = []) [i + 1..<length ws - 1] = []"
    using assms by (auto simp: filter_empty_conv)
  then show ?thesis unfolding gaps_def u using assms by simp
qed

lemma groups_gapped:
  assumes "\<forall>w \<in> set hi \<union> set lo. w \<noteq> []" "length hi + length lo \<le> 6"
  shows "v6_groups (gapped hi lo) = Some (hi, 8 - (length hi + length lo), lo)"
proof -
  let ?i = "if hi = [] then 1 else length hi"
  have nth: "hi ! j \<noteq> []" if "j < length hi" for j using assms(1) that by auto
  have nth2: "lo ! j \<noteq> []" if "j < length lo" for j using assms(1) that by auto
  have g: "gaps (gapped hi lo) = [?i]"
    by (rule gaps_one) (auto simp: gapped_def nth_append nth_Cons Suc_le_eq nth nth2 split: if_splits nat.split)
  have h: "hd (gapped hi lo) = [] \<longleftrightarrow> hi = []" using assms(1) by (cases hi) (auto simp: gapped_def)
  have l: "last (gapped hi lo) = [] \<longleftrightarrow> lo = []" using assms(1) by (cases lo rule: rev_cases) (auto simp: gapped_def)
  show ?thesis unfolding v6_groups_def Let_def g h l using assms(2) by (auto simp: gapped_def)
qed

lemma groups_full: "\<forall>w \<in> set ws. w \<noteq> [] \<Longrightarrow> length ws = 8 \<Longrightarrow> v6_groups ws = Some (ws, 0, [])"
proof -
  assume a: "\<forall>w \<in> set ws. w \<noteq> []" "length ws = 8"
  then have "gaps ws = []" by (auto simp: gaps_def filter_empty_conv)
  moreover have "ws \<noteq> []" using a(2) by auto
  ultimately show ?thesis using a by (simp add: v6_groups_def Let_def)
qed

lemma gapped_set: "w \<in> set (gapped hi lo) \<Longrightarrow> w = [] \<or> w \<in> set hi \<or> w \<in> set lo"
  by (auto simp: gapped_def split: if_splits)

lemma compressed_groups:
  assumes "\<forall>d \<in> set ds. d < 65536" "length ds = 8"
  shows "\<exists>d1 k d3. v6_groups (compress (map hex_text ds)) = Some (map hex_text d1, k, map hex_text d3) \<and> ds = d1 @ replicate k 0 @ d3 \<and>
    length (compress (map hex_text ds)) \<ge> 3"
proof (cases "map hex_text ds" rule: compress_cases)
  case 1
  then show ?thesis using groups_full [of "map hex_text ds"] assms(2) by (intro exI [of _ ds] exI [of _ 0] exI [of _ "[]"]) auto
next
  case (2 hi k lo)
  obtain d1 d2 d3 where d: "ds = d1 @ d2 @ d3" "hi = map hex_text d1" "replicate k ''0'' = map hex_text d2" "lo = map hex_text d3"
    using 2(1) by (auto simp: map_eq_append_conv append_eq_map_conv)
  have "\<forall>x \<in> set d2. hex_text x = ''0''" using d(3) by (metis image_eqI in_set_replicate list.set_map)
  then have d2: "d2 = replicate k 0" using d(3) hex_text_zero by (metis length_map length_replicate replicate_length_same)
  then have "length hi + length lo = 8 - k" "k \<le> 8" using assms(2) d by auto
  moreover have "\<forall>w \<in> set hi \<union> set lo. w \<noteq> []" using d by auto
  ultimately have "v6_groups (gapped hi lo) = Some (hi, k, lo)" using 2(2) groups_gapped [of hi lo] by simp
  moreover have "length (gapped hi lo) \<ge> 3" by (cases hi; cases lo) (simp_all add: gapped_def)
  ultimately show ?thesis using 2(3) d d2 by auto
qed

lemma compress_parts: "w \<in> set (compress (map hex_text ds)) \<Longrightarrow> set w \<subseteq> hex_set"
proof (cases "map hex_text ds" rule: compress_cases)
  case 1
  then show "w \<in> set (compress (map hex_text ds)) \<Longrightarrow> ?thesis" using hex_text_chars by auto
next
  case (2 hi k lo)
  assume "w \<in> set (compress (map hex_text ds))"
  then have "w = [] \<or> w \<in> set (map hex_text ds)" using gapped_set 2 by (auto dest!: gapped_set)
  then show ?thesis using hex_text_chars by auto
qed

lemma v6_text_roundtrip:
  assumes "n < 2 ^ 128"
  shows "parse_v6_int (v6_text n) = Some n" "set (v6_text n) \<subseteq> insert (CHR '':'') hex_set" "CHR '':'' \<in> set (v6_text n)"
proof -
  let ?ds = "to_digits 65536 8 n" and ?ws = "compress (map hex_text (to_digits 65536 8 n))"
  have less: "\<forall>d \<in> set ?ds. d < 65536" using to_digits_less [of 65536] by auto
  obtain d1 k d3 where g: "v6_groups ?ws = Some (map hex_text d1, k, map hex_text d3)" "?ds = d1 @ replicate k 0 @ d3" "length ?ws \<ge> 3"
    using compressed_groups [OF less] by auto
  have parts: "\<forall>w \<in> set ?ws. set w \<subseteq> hex_set" using compress_parts by blast
  have "split_on CHR '':'' (v6_text n) = ?ws"
    unfolding v6_text_def using g(3) parts hex_set_marks(1) by (intro split_join) (fastforce, blast)
  note s = this
  have "?ws \<noteq> []" using g(3) by auto
  then have "set (last ?ws) \<subseteq> hex_set" using parts by simp
  then have "v4_tail ?ws = Some ?ws" by (auto simp: v4_tail_def)
  moreover have "map_all parse_hextet (map hex_text d1) = Some d1" "map_all parse_hextet (map hex_text d3) = Some d3"
    by (rule map_all_map, rule parse_hextet_hex, use less g(2) in auto)+
  moreover have "of_digits 65536 ?ds = n" by (rule of_to_digits) (use assms in simp_all)
  moreover have "length (split_on CHR '':'' (v6_text n)) \<ge> 3" using g(3) by (simp only: s)
  then have "v6_text n \<noteq> []" by auto
  ultimately show "parse_v6_int (v6_text n) = Some n" using g by (simp add: parse_v6_int_def s)
  show "set (v6_text n) \<subseteq> insert (CHR '':'') hex_set" using set_join [of "CHR '':''" ?ws] parts unfolding v6_text_def by auto
  show "CHR '':'' \<in> set (v6_text n)"
  proof (rule ccontr)
    assume no: "CHR '':'' \<notin> set (v6_text n)"
    have "length ?ws = 1" unfolding s [symmetric] split_no [OF no] by simp
    then show False using g(3) by simp
  qed
qed

subsection \<open>Every address\<close>

fun wf_ip :: "ip \<Rightarrow> bool" where
  "wf_ip (V4 n) = (n < 2 ^ 32)"
| "wf_ip (V6 n sc) = (n < 2 ^ 128 \<and> (case sc of None \<Rightarrow> True | Some z \<Rightarrow> z \<noteq> [] \<and> CHR 0x25 \<notin> set z \<and> CHR ''/'' \<notin> set z))"

lemma v6_not_v4: "n < 2 ^ 128 \<Longrightarrow> parse_v4 (v6_text n @ r) = None"
proof (rule ccontr)
  assume n: "n < 2 ^ 128" and p: "parse_v4 (v6_text n @ r) \<noteq> None"
  obtain m where m: "parse_v4 (v6_text n @ r) = Some m" using p by blast
  have "CHR '':'' \<in> set (v6_text n @ r)" unfolding set_append by (rule UnI1 [OF v6_text_roundtrip(3) [OF n]])
  from bspec [OF parse_v4_chars [OF m] this] show False by simp
qed

lemma ip_text_roundtrip_all: "wf_ip a \<Longrightarrow> ip_address (ip_text a) = Some a"
proof (cases a)
  case (V4 n)
  then show "wf_ip a \<Longrightarrow> ?thesis" using v4_text_roundtrip [of n] by (simp add: ip_address_def)
next
  case (V6 n sc)
  assume "wf_ip a"
  then have n: "n < 2 ^ 128" "\<And>z. sc = Some z \<Longrightarrow> z \<noteq> [] \<and> CHR 0x25 \<notin> set z \<and> CHR ''/'' \<notin> set z" using V6 by auto
  let ?t = "ip_text a"
  have chars: "CHR 0x25 \<notin> set (v6_text n)" "CHR ''/'' \<notin> set (v6_text n)" using v6_text_roundtrip(2) [OF n(1)] by auto
  have "split_scope ?t = Some (v6_text n, sc)"
  proof (cases sc)
    case (Some z)
    then show ?thesis using n(2) chars V6 by (simp add: split_scope_def split_append split_no)
  qed (use chars V6 in \<open>simp add: split_scope_def split_no\<close>)
  moreover have "CHR ''/'' \<notin> set ?t" using chars n(2) V6 by (auto split: option.split)
  ultimately have "parse_v6 ?t = Some a" using V6 v6_text_roundtrip(1) [OF n(1)] by (simp add: parse_v6_def)
  then show ?thesis using v6_not_v4 [OF n(1)] V6 by (simp add: ip_address_def)
qed

text \<open>
  What \<open>str\<close> prints of an address, \<open>ip_address\<close> reads back, whatever run of zero groups was compressed and with any
  scope.
\<close>

theorem ip_text_roundtrip: "wf_ip a \<Longrightarrow> ip_address (ip_text a) = Some a"
  by (rule ip_text_roundtrip_all)

theorem ip_text_roundtrip_witness:
  "ip_text (V6 42540766411282592856903984951653826561 None) = ''2001:db8::1'' \<and>
   ip_address ''2001:db8::1'' = Some (V6 42540766411282592856903984951653826561 None)"
proof -
  let ?a = "V6 42540766411282592856903984951653826561 None"
  have "to_digits 65536 (Suc (Suc (Suc (Suc (Suc (Suc (Suc (Suc 0)))))))) 42540766411282592856903984951653826561 = [8193, 3512, 0, 0, 0, 0, 0, 1]"
    by simp
  moreover have "(8 :: nat) = Suc (Suc (Suc (Suc (Suc (Suc (Suc (Suc 0)))))))" by simp
  ultimately have d: "to_digits 65536 8 42540766411282592856903984951653826561 = [8193, 3512, 0, 0, 0, 0, 0, 1]" by metis
  have c: "hex_char 0 = CHR ''0''" "hex_char 1 = CHR ''1''" "hex_char 2 = CHR ''2''" "hex_char 8 = CHR ''8''"
    "hex_char 11 = CHR ''b''" "hex_char 13 = CHR ''d''" by code_simp+
  have h: "hex_text 8193 = ''2001''" "hex_text 3512 = ''db8''" "hex_text 0 = ''0''" "hex_text 1 = ''1''"
    using c by (simp_all add: hex_text.simps)
  have "join_on CHR '':'' (compress [''2001'', ''db8'', ''0'', ''0'', ''0'', ''0'', ''0'', ''1'']) = ''2001:db8::1''" by code_simp
  then have t: "ip_text ?a = ''2001:db8::1''" by (simp only: ip_text.simps v6_text_def d list.map h option.case append_Nil2)
  show ?thesis using ip_text_roundtrip [of ?a] unfolding t by simp
qed

end
