(* ===== verification/Client_Address.thy ===== *)
theory Client_Address imports Ip_Address begin

text \<open>
  \<open>app/core/client_address.py\<close>: which address a request counts as. A request is its socket peer and the values of its
  \<open>X-Forwarded-For\<close> headers (\<open>None\<close>: reading them failed). The configured text of the trusted proxies is an argument.
\<close>

section \<open>Operations\<close>

record http_request =
  rq_peer :: "string option"
  rq_forwarded :: "string list option"

definition UNKNOWN :: string where "UNKNOWN = ''unknown''"
definition MAX_CHAIN_ENTRIES :: nat where "MAX_CHAIN_ENTRIES = 64"
definition MAX_HEADER_CHARS :: nat where "MAX_HEADER_CHARS = 4096"

text \<open>\<open>Inl\<close> is the offending entry.\<close>

fun parse_networks :: "string list \<Rightarrow> string + network list" where
  "parse_networks [] = Inr []"
| "parse_networks (part # parts) =
    (let entry = py_strip part in
     if entry = [] then parse_networks parts
     else case ip_network entry of
       None \<Rightarrow> Inl entry
     | Some n \<Rightarrow> rbind (parse_networks parts) (\<lambda>ns. Inr (n # ns)))"

definition parse_trusted_proxies :: "string \<Rightarrow> string + network list" where
  "parse_trusted_proxies raw = parse_networks (split_on CHR '','' raw)"

definition trusted_networks :: "string \<Rightarrow> network list" where
  "trusted_networks raw = (case parse_trusted_proxies raw of Inr ns \<Rightarrow> ns | Inl _ \<Rightarrow> [])"

definition normalise :: "ip \<Rightarrow> ip" where
  "normalise a = (case a of V6 n sc \<Rightarrow> if n div 2 ^ 32 = 65535 then V4 (n mod 2 ^ 32) else a | V4 n \<Rightarrow> a)"

definition parse_ip :: "string \<Rightarrow> ip option" where
  "parse_ip t =
    (let token = py_strip t;
         address = (\<lambda>s. map_option normalise (ip_address s))
     in if token = [] \<or> length token > 64 then None
        else if take 1 token = ''['' then
          (if CHR '']'' \<in> set token then address (takeWhile (\<lambda>c. c \<noteq> CHR '']'') (drop 1 token)) else None)
        else if count_where (\<lambda>c. c = CHR '':'') token = 1 then address (takeWhile (\<lambda>c. c \<noteq> CHR '':'') token)
        else address token)"

definition in_any :: "ip \<Rightarrow> network list \<Rightarrow> bool" where
  "in_any a nets = list_ex (ip_in a) nets"

definition forwarded_entries :: "http_request \<Rightarrow> string list" where
  "forwarded_entries r =
    (case rq_forwarded r of
       None \<Rightarrow> []
     | Some values \<Rightarrow> (let joined = join_on CHR '','' values in
         if joined = [] \<or> length joined > MAX_HEADER_CHARS * 4 then []
         else last_n MAX_CHAIN_ENTRIES (split_on CHR '','' joined)))"

text \<open>The entries are read from the last one to the first.\<close>

fun first_untrusted :: "network list \<Rightarrow> ip \<Rightarrow> string list \<Rightarrow> ip" where
  "first_untrusted trusted peer [] = peer"
| "first_untrusted trusted peer (t # ts) =
    (case parse_ip t of
       None \<Rightarrow> peer
     | Some a \<Rightarrow> if in_any a trusted then first_untrusted trusted peer ts else a)"

definition client_address :: "string \<Rightarrow> http_request \<Rightarrow> string" where
  "client_address raw r =
    (case rq_peer r of
       None \<Rightarrow> UNKNOWN
     | Some peer_text \<Rightarrow>
        if peer_text = [] then UNKNOWN
        else case parse_ip peer_text of
          None \<Rightarrow> peer_text
        | Some peer \<Rightarrow>
           (let trusted = trusted_networks raw in
            if trusted = [] \<or> \<not> in_any peer trusted then ip_text peer
            else ip_text (first_untrusted trusted peer (rev (forwarded_entries r)))))"

definition rate_limit_identity :: "string \<Rightarrow> http_request \<Rightarrow> string" where
  "rate_limit_identity raw r =
    (let t = client_address raw r in
     ''ip:'' @ (case ip_address t of None \<Rightarrow> t | Some (V4 n) \<Rightarrow> ip_text (V4 n) | Some (V6 n sc) \<Rightarrow> net64_text n sc))"

section \<open>Who decides the address\<close>

definition from_proxy :: "string \<Rightarrow> http_request \<Rightarrow> bool" where
  "from_proxy raw r \<longleftrightarrow> (\<exists>p a. rq_peer r = Some p \<and> p \<noteq> [] \<and> parse_ip p = Some a \<and> in_any a (trusted_networks raw))"

definition is_proxy :: "string \<Rightarrow> string \<Rightarrow> bool" where
  "is_proxy raw entry \<longleftrightarrow> (\<exists>a. parse_ip entry = Some a \<and> in_any a (trusted_networks raw))"

definition peer_address :: "http_request \<Rightarrow> string" where
  "peer_address r = (case rq_peer r of None \<Rightarrow> UNKNOWN | Some p \<Rightarrow> if p = [] then UNKNOWN else (case parse_ip p of None \<Rightarrow> p | Some a \<Rightarrow> ip_text a))"

lemma not_from_proxy: "\<not> from_proxy raw r \<Longrightarrow> client_address raw r = peer_address r"
  by (auto simp: from_proxy_def client_address_def peer_address_def Let_def split: option.split)

lemma trusted_skipped:
  "\<forall>p \<in> set ps. is_proxy raw p \<Longrightarrow> first_untrusted (trusted_networks raw) peer (rev ps @ ts) = first_untrusted (trusted_networks raw) peer ts"
  by (induction ps arbitrary: ts) (auto simp: is_proxy_def)

lemma last_n_suffix: "length ys \<le> n \<Longrightarrow> last_n n (xs @ ys) = last_n (n - length ys) xs @ ys"
  by (simp add: last_n_def)

definition chain :: "string list \<Rightarrow> string list" where
  "chain values = split_on CHR '','' (join_on CHR '','' values)"

definition short_header :: "string list \<Rightarrow> bool" where
  "short_header values \<longleftrightarrow> length (join_on CHR '','' values) \<le> 16384"

lemma behind_proxy:
  assumes "from_proxy raw r" "rq_forwarded r = Some values" "short_header values"
  obtains peer where "peer_address r = ip_text peer"
    "client_address raw r = ip_text (first_untrusted (trusted_networks raw) peer (rev (last_n MAX_CHAIN_ENTRIES (chain values))))"
proof -
  obtain p peer where p: "rq_peer r = Some p" "p \<noteq> []" "parse_ip p = Some peer" "in_any peer (trusted_networks raw)"
    using assms(1) by (auto simp: from_proxy_def)
  have "trusted_networks raw \<noteq> []" using p(4) by (auto simp: in_any_def)
  then have c: "client_address raw r = ip_text (first_untrusted (trusted_networks raw) peer (rev (forwarded_entries r)))"
    using p by (simp add: client_address_def Let_def)
  have "parse_ip [] = None" by (simp add: parse_ip_def py_strip_def)
  then have "first_untrusted (trusted_networks raw) peer (rev (forwarded_entries r)) =
      first_untrusted (trusted_networks raw) peer (rev (last_n MAX_CHAIN_ENTRIES (chain values)))"
    using assms(2,3) by (auto simp: forwarded_entries_def Let_def chain_def short_header_def MAX_HEADER_CHARS_def MAX_CHAIN_ENTRIES_def last_n_def)
  then show thesis using c p by (intro that [of peer]) (simp_all add: peer_address_def)
qed

lemma all_proxies: "\<forall>p \<in> set ps. is_proxy raw p \<Longrightarrow> first_untrusted (trusted_networks raw) peer (rev ps) = peer"
  using trusted_skipped [of ps raw peer "[]"] by simp

lemma decisive_entry:
  assumes "\<forall>p \<in> set proxies. is_proxy raw p" "\<not> is_proxy raw e"
  shows "first_untrusted (trusted_networks raw) peer (rev (left @ e # proxies)) = (case parse_ip e of Some a \<Rightarrow> a | None \<Rightarrow> peer)"
  using trusted_skipped [OF assms(1), of peer "e # rev left"] assms(2) by (auto simp: is_proxy_def split: option.split)

text \<open>
  C4: a request that does not come from a trusted proxy counts as its peer, whatever it claims. One that does, with a
  header of at most 16384 characters, counts as exactly the last entry of the chain that no trusted proxy vouches for,
  and as its peer only when that entry is no address, or no such entry is among the last 64, or there is no header: what
  stands to the left of that entry has no influence.
\<close>

theorem client_address_unspoofable:
  shows "(\<not> from_proxy raw r \<longrightarrow> client_address raw r = peer_address r) \<and>
    (from_proxy raw r \<and> rq_forwarded r = None \<longrightarrow> client_address raw r = peer_address r) \<and>
    (from_proxy raw r \<and> rq_forwarded r = Some values \<and> short_header values \<longrightarrow>
      (chain values = left @ e # proxies \<and> length proxies < 64 \<and> (\<forall>p \<in> set proxies. is_proxy raw p) \<and> \<not> is_proxy raw e \<longrightarrow>
         client_address raw r = (case parse_ip e of Some a \<Rightarrow> ip_text a | None \<Rightarrow> peer_address r)) \<and>
      ((\<forall>p \<in> set (last_n 64 (chain values)). is_proxy raw p) \<longrightarrow> client_address raw r = peer_address r))"
proof (intro conjI impI)
  show "client_address raw r = peer_address r" if "\<not> from_proxy raw r" using that by (rule not_from_proxy)
  show "client_address raw r = peer_address r" if "from_proxy raw r \<and> rq_forwarded r = None"
    using that by (auto simp: from_proxy_def client_address_def peer_address_def forwarded_entries_def Let_def)
next
  assume a: "from_proxy raw r \<and> rq_forwarded r = Some values \<and> short_header values"
    "chain values = left @ e # proxies \<and> length proxies < 64 \<and> (\<forall>p \<in> set proxies. is_proxy raw p) \<and> \<not> is_proxy raw e"
  obtain peer where peer: "peer_address r = ip_text peer"
    "client_address raw r = ip_text (first_untrusted (trusted_networks raw) peer (rev (last_n MAX_CHAIN_ENTRIES (chain values))))"
    using behind_proxy a(1) by blast
  have "last_n MAX_CHAIN_ENTRIES (left @ e # proxies) = last_n (MAX_CHAIN_ENTRIES - length (e # proxies)) left @ e # proxies"
    by (rule last_n_suffix) (use a(2) in \<open>simp add: MAX_CHAIN_ENTRIES_def\<close>)
  then show "client_address raw r = (case parse_ip e of Some a \<Rightarrow> ip_text a | None \<Rightarrow> peer_address r)"
    using a(2) decisive_entry by (simp add: peer split: option.split)
next
  assume a: "from_proxy raw r \<and> rq_forwarded r = Some values \<and> short_header values" "\<forall>p \<in> set (last_n 64 (chain values)). is_proxy raw p"
  obtain peer where peer: "peer_address r = ip_text peer"
    "client_address raw r = ip_text (first_untrusted (trusted_networks raw) peer (rev (last_n MAX_CHAIN_ENTRIES (chain values))))"
    using behind_proxy a(1) by blast
  then show "client_address raw r = peer_address r" using all_proxies [OF a(2)] by (simp add: MAX_CHAIN_ENTRIES_def)
qed

text \<open>A client behind a trusted proxy can still hide in the address of the proxy: a header of more than 16384 characters is
  ignored as a whole.\<close>

lemma long_header_hides:
  assumes "from_proxy raw r" "rq_forwarded r = Some values" "length (join_on CHR '','' values) > MAX_HEADER_CHARS * 4"
  shows "client_address raw r = peer_address r"
proof -
  have "forwarded_entries r = []" using assms(2,3) by (simp add: forwarded_entries_def Let_def)
  then show ?thesis using assms(1) by (auto simp: from_proxy_def client_address_def peer_address_def Let_def)
qed

section \<open>Buckets\<close>

lemma masked_eq: "masked 128 64 n = masked 128 64 m \<longleftrightarrow> n div 2 ^ 64 = m div 2 ^ 64"
  by (simp add: masked_def)

lemma masked_le: "masked w p n \<le> n"
  by (simp add: masked_def div_times_less_eq_dividend)

lemma bucket_of:
  assumes "client_address raw r = ip_text a" "wf_ip a"
  shows "rate_limit_identity raw r = ''ip:'' @ (case a of V4 n \<Rightarrow> ip_text (V4 n) | V6 n sc \<Rightarrow> net64_text n sc)"
  using ip_text_roundtrip_all [OF assms(2)] by (cases a) (simp_all add: rate_limit_identity_def assms(1))


text \<open>What an address is counted as: an IPv4 address alone, an IPv6 address with its whole /64.\<close>

fun bucket :: "ip \<Rightarrow> nat + nat" where
  "bucket (V4 n) = Inl n"
| "bucket (V6 n sc) = Inr (n div 2 ^ 64)"

fun scopeless :: "ip \<Rightarrow> bool" where
  "scopeless (V4 n) = True"
| "scopeless (V6 n sc) = (sc = None)"

lemma ip_text_inj: "wf_ip a \<Longrightarrow> wf_ip b \<Longrightarrow> ip_text a = ip_text b \<Longrightarrow> a = b"
  using ip_text_roundtrip_all by (metis option.inject)

lemma v4_text_no_slash: "n < 2 ^ 32 \<Longrightarrow> CHR ''/'' \<notin> set (v4_text n)"
  using parse_v4_chars [OF v4_text_roundtrip] by fastforce

lemma net64_text_eq: "net64_text n None = ip_text (V6 (masked 128 64 n) None) @ ''/64''"
  by (simp add: net64_text_def)

text \<open>
  C39: two clients share a failure counter exactly when they have the same IPv4 address, or IPv6 addresses with the same
  first 64 bits (so choosing other low bits gives no fresh counter).
\<close>

theorem buckets_by_prefix:
  assumes "client_address raw r1 = ip_text a" "wf_ip a" "scopeless a"
    and "client_address raw r2 = ip_text b" "wf_ip b" "scopeless b"
  shows "rate_limit_identity raw r1 = rate_limit_identity raw r2 \<longleftrightarrow> bucket a = bucket b"
proof (cases a; cases b)
  fix n m assume e: "a = V4 n" "b = V4 m"
  show ?thesis using ip_text_inj [OF assms(2,5)] by (auto simp: bucket_of [OF assms(1,2)] bucket_of [OF assms(4,5)] e)
next
  fix n m sc sc' assume e: "a = V6 n sc" "b = V6 m sc'"
  have w: "wf_ip (V6 (masked 128 64 n) None)" "wf_ip (V6 (masked 128 64 m) None)"
    using assms(2,5) masked_le [of 128 64] e by (auto intro: le_less_trans)
  have "net64_text n None = net64_text m None \<longleftrightarrow> masked 128 64 n = masked 128 64 m"
    using ip_text_inj [OF w] by (auto simp: net64_text_eq)
  then show ?thesis using assms(3,6) by (simp add: bucket_of [OF assms(1,2)] bucket_of [OF assms(4,5)] e masked_eq)
next
  fix n m sc assume e: "a = V4 n" "b = V6 m sc"
  have "CHR ''/'' \<in> set (net64_text m sc)" by (simp add: net64_text_def)
  then have "net64_text m sc \<noteq> v4_text n" using v4_text_no_slash [of n] assms(2) e by auto
  then show ?thesis by (auto simp: bucket_of [OF assms(1,2)] bucket_of [OF assms(4,5)] e)
next
  fix n m sc assume e: "a = V6 n sc" "b = V4 m"
  have "CHR ''/'' \<in> set (net64_text n sc)" by (simp add: net64_text_def)
  then have "net64_text n sc \<noteq> v4_text m" using v4_text_no_slash [of m] assms(5) e by auto
  then show ?thesis by (auto simp: bucket_of [OF assms(1,2)] bucket_of [OF assms(4,5)] e)
qed

section \<open>A request through two proxies\<close>

lemma parse_v4_by:
  assumes "split_on CHR ''.'' s = [a, b, c, d]" "parse_octet a = Some i" "parse_octet b = Some j" "parse_octet c = Some k" "parse_octet d = Some l"
  shows "parse_v4 s = Some (of_digits 256 [i, j, k, l])"
  using assms by (simp add: parse_v4_def)

lemma parse_ip_v4:
  assumes "py_strip t = s" "parse_v4 s = Some n" "s \<noteq> []" "length s \<le> 64" "take 1 s \<noteq> ''[''" "count_where (\<lambda>c. c = CHR '':'') s = 0"
  shows "parse_ip t = Some (V4 n)"
  using assms by (simp add: parse_ip_def ip_address_def normalise_def)

lemma small_octets: "parse_octet ''10'' = Some 10" "parse_octet ''0'' = Some 0" "parse_octet ''1'' = Some 1" "parse_octet ''2'' = Some 2"
    "parse_octet ''203'' = Some 203" "parse_octet ''113'' = Some 113" "parse_octet ''9'' = Some 9"
  by code_simp+

definition proxy_conf :: string where "proxy_conf = ''10.0.0.0/8''"

definition proxied :: http_request where
  "proxied = \<lparr> rq_peer = Some ''10.0.0.1'', rq_forwarded = Some [''6.6.6.6, 203.0.113.9'', ''10.0.0.2''] \<rparr>"

lemma addresses: "parse_ip ''10.0.0.1'' = Some (V4 167772161)" "parse_ip ''10.0.0.2'' = Some (V4 167772162)" "parse_ip '' 203.0.113.9'' = Some (V4 3405803785)"
proof -
  have "parse_v4 ''10.0.0.1'' = Some (of_digits 256 [10, 0, 0, 1])" "parse_v4 ''10.0.0.2'' = Some (of_digits 256 [10, 0, 0, 2])"
    "parse_v4 ''203.0.113.9'' = Some (of_digits 256 [203, 0, 113, 9])"
    by ((rule parse_v4_by, code_simp, rule small_octets, rule small_octets, rule small_octets, rule small_octets)+)
  then have v: "parse_v4 ''10.0.0.1'' = Some 167772161" "parse_v4 ''10.0.0.2'' = Some 167772162" "parse_v4 ''203.0.113.9'' = Some 3405803785"
    by (simp_all add: of_digits_def)
  show "parse_ip ''10.0.0.1'' = Some (V4 167772161)" by (rule parse_ip_v4 [OF _ v(1)]) code_simp+
  show "parse_ip ''10.0.0.2'' = Some (V4 167772162)" by (rule parse_ip_v4 [OF _ v(2)]) code_simp+
  show "parse_ip '' 203.0.113.9'' = Some (V4 3405803785)" by (rule parse_ip_v4 [OF _ v(3)]) code_simp+
qed

lemma trusted_conf: "trusted_networks proxy_conf = [Net4 167772160 8]"
proof -
  have "parse_v4 ''10.0.0.0'' = Some (of_digits 256 [10, 0, 0, 0])" by (rule parse_v4_by) (code_simp, rule small_octets, rule small_octets, rule small_octets, rule small_octets)
  moreover have "parse_mask4 ''8'' = Some 8" "split_on CHR ''/'' ''10.0.0.0/8'' = [''10.0.0.0'', ''8'']" by code_simp+
  ultimately have "ip_network ''10.0.0.0/8'' = Some (Net4 167772160 8)" by (simp add: ip_network_def net4_of_def masked_def of_digits_def)
  moreover have "split_on CHR '','' proxy_conf = [''10.0.0.0/8'']" "py_strip ''10.0.0.0/8'' = ''10.0.0.0/8''" by code_simp+
  ultimately show ?thesis by (simp add: trusted_networks_def parse_trusted_proxies_def)
qed

theorem client_address_unspoofable_witness:
  "from_proxy proxy_conf proxied \<and> \<not> is_proxy proxy_conf '' 203.0.113.9'' \<and> client_address proxy_conf proxied = ip_text (V4 3405803785)"
proof -
  have s: "chain [''6.6.6.6, 203.0.113.9'', ''10.0.0.2''] = [''6.6.6.6''] @ '' 203.0.113.9'' # [''10.0.0.2'']" by code_simp
  have l: "short_header [''6.6.6.6, 203.0.113.9'', ''10.0.0.2'']" by (simp add: short_header_def)
  have f: "from_proxy proxy_conf proxied" "is_proxy proxy_conf ''10.0.0.2''" "\<not> is_proxy proxy_conf '' 203.0.113.9''"
    by (simp_all add: from_proxy_def is_proxy_def proxied_def addresses trusted_conf in_any_def masked_def)
  show ?thesis using client_address_unspoofable [of proxy_conf proxied "[''6.6.6.6, 203.0.113.9'', ''10.0.0.2'']" "[''6.6.6.6'']" "'' 203.0.113.9''" "[''10.0.0.2'']"] s f l
    by (simp add: proxied_def addresses)
qed

theorem buckets_by_prefix_witness:
  "client_address [] \<lparr> rq_peer = Some ''10.0.0.1'', rq_forwarded = None \<rparr> = ip_text (V4 167772161) \<and>
   rate_limit_identity [] \<lparr> rq_peer = Some ''10.0.0.1'', rq_forwarded = None \<rparr> \<noteq> rate_limit_identity [] \<lparr> rq_peer = Some ''10.0.0.2'', rq_forwarded = None \<rparr>"
proof -
  have t: "trusted_networks [] = []" by code_simp
  have c: "client_address [] \<lparr> rq_peer = Some ''10.0.0.1'', rq_forwarded = None \<rparr> = ip_text (V4 167772161)"
    "client_address [] \<lparr> rq_peer = Some ''10.0.0.2'', rq_forwarded = None \<rparr> = ip_text (V4 167772162)"
    by (simp_all add: client_address_def addresses t)
  show ?thesis using buckets_by_prefix [OF c(1) _ _ c(2)] c(1) by simp
qed

end
