(* ===== verification/Rate_Limit.thy ===== *)
theory Rate_Limit imports Client_Address Data_Model "HOL-Library.AList" begin

text \<open>
  \<open>app/core/rate_limit.py\<close>: fixed-window counters in Redis, and what is counted and refused with them. A counter is a
  number and the instant at which it expires (\<open>None\<close>: never). Whether Redis answers is an argument of every operation.
\<close>

section \<open>Counters\<close>

type_synonym rate_counters = "(string \<times> int \<times> instant option) list"

definition live_counter :: "instant \<Rightarrow> rate_counters \<Rightarrow> string \<Rightarrow> (int \<times> instant option) option" where
  "live_counter now cs k = (case map_of cs k of
     None \<Rightarrow> None
   | Some (n, None) \<Rightarrow> Some (n, None)
   | Some (n, Some t) \<Rightarrow> if now < t then Some (n, Some t) else None)"

text \<open>The answer of the \<open>TTL\<close> command: -2 without a key, -1 without an expiry, else the rounded seconds.\<close>

definition ttl_of :: "instant \<Rightarrow> (int \<times> instant option) option \<Rightarrow> int" where
  "ttl_of now c = (case c of None \<Rightarrow> - 2 | Some (n, None) \<Rightarrow> - 1 | Some (n, Some t) \<Rightarrow> (t - now + 500000) div 1000000)"

definition KEY_PREFIX :: string where "KEY_PREFIX = ''ratelimit:''"

text \<open>The script \<open>_ATOMIC_INCR\<close>.\<close>

definition atomic_incr :: "instant \<Rightarrow> string \<Rightarrow> int \<Rightarrow> rate_counters \<Rightarrow> (int \<times> int) \<times> rate_counters" where
  "atomic_incr now k window cs =
    (let (n, expiry) = (case live_counter now cs k of Some (n, e) \<Rightarrow> (n + 1, e) | None \<Rightarrow> (1, None));
         ttl = ttl_of now (Some (n, expiry))
     in if n = 1 \<or> ttl < 0 then ((n, window), AList.update k (n, Some (now + seconds window)) cs)
        else ((n, ttl), AList.update k (n, expiry) cs))"

datatype rate_answer = Within | Degraded | Exceeded int | Limiter_down

definition check_rate_limit :: "bool \<Rightarrow> instant \<Rightarrow> string \<Rightarrow> int \<Rightarrow> int \<Rightarrow> bool \<Rightarrow> rate_counters \<Rightarrow> rate_answer \<times> rate_counters" where
  "check_rate_limit up now key limit window fail_closed cs =
    (if \<not> up then (if fail_closed then Limiter_down else Degraded, cs)
     else case atomic_incr now (KEY_PREFIX @ key) window cs of ((n, ttl), cs') \<Rightarrow>
       (if n \<le> limit then Within else Exceeded (max ttl 1), cs'))"

text \<open>\<open>None\<close> is a Redis error.\<close>

definition record_failure_key :: "bool \<Rightarrow> instant \<Rightarrow> string \<Rightarrow> int \<Rightarrow> rate_counters \<Rightarrow> (int \<times> int) option \<times> rate_counters" where
  "record_failure_key up now key window cs =
    (if up then (case atomic_incr now (KEY_PREFIX @ key) window cs of (r, cs') \<Rightarrow> (Some r, cs')) else (None, cs))"

definition failure_state :: "bool \<Rightarrow> instant \<Rightarrow> string \<Rightarrow> rate_counters \<Rightarrow> (int \<times> int) option" where
  "failure_state up now key cs =
    (if up then Some (case live_counter now cs (KEY_PREFIX @ key) of None \<Rightarrow> (0, 0) | Some (n, e) \<Rightarrow> (n, ttl_of now (Some (n, e)))) else None)"

section \<open>The gate of a process\<close>

text \<open>A refused request: the status and \<open>Retry-After\<close>.\<close>

datatype http_error = Http nat "int option"

record gate_settings =
  gs_trusted :: string
  gs_login_limit :: int
  gs_login_ip_ceiling :: int
  gs_webhook_limit :: int
  gs_webhook_ceiling :: int
  gs_dograh_secret :: string
  gs_telephony_secret :: string
  gs_admin :: "string \<times> string"
  gs_operator :: "string \<times> string"

record entry_gate =
  gt_counters :: rate_counters
  gt_degraded :: "(string \<times> instant) list"
  gt_written :: "((string \<times> string) \<times> instant) list"
  gt_db :: db

text \<open>The answers of one request: the clock, whether Redis and PostgreSQL take its writes, and its request id.\<close>

record gate_answers =
  ga_now :: instant
  ga_redis :: bool
  ga_db :: bool
  ga_request :: jval

definition DEGRADED_AUDIT_INTERVAL :: int where "DEGRADED_AUDIT_INTERVAL = seconds 60"
definition WINDOW_SECONDS :: int where "WINDOW_SECONDS = 60"

definition too_many :: "int \<Rightarrow> http_error" where "too_many retry_after = Http 429 (Some (max retry_after 1))"

definition audit_degraded :: "gate_answers \<Rightarrow> string \<Rightarrow> entry_gate \<Rightarrow> entry_gate" where
  "audit_degraded an prefix g =
    (case map_of (gt_degraded g) prefix of
       Some t \<Rightarrow> if ga_now an - t < DEGRADED_AUDIT_INTERVAL then g
         else g\<lparr> gt_degraded := AList.update prefix (ga_now an) (gt_degraded g),
                 gt_db := (if ga_db an then record_audit_event ''rate-limiter'' ''rate_limit.unavailable_failed_open'' ''system'' None
                   [(''endpoint'', JStr prefix)] (gt_db g) else gt_db g) \<rparr>
     | None \<Rightarrow> g\<lparr> gt_degraded := AList.update prefix (ga_now an) (gt_degraded g),
                 gt_db := (if ga_db an then record_audit_event ''rate-limiter'' ''rate_limit.unavailable_failed_open'' ''system'' None
                   [(''endpoint'', JStr prefix)] (gt_db g) else gt_db g) \<rparr>)"

definition rate_limit_dependency :: "int \<Rightarrow> int \<Rightarrow> string \<Rightarrow> bool \<Rightarrow> gate_answers \<Rightarrow> string \<Rightarrow> entry_gate \<Rightarrow> http_error option \<times> entry_gate" where
  "rate_limit_dependency limit window prefix fail_closed an owner g =
    (case check_rate_limit (ga_redis an) (ga_now an) (prefix @ '':'' @ owner) limit window fail_closed (gt_counters g) of
       (Within, cs) \<Rightarrow> (None, g\<lparr> gt_counters := cs \<rparr>)
     | (Degraded, cs) \<Rightarrow> (None, audit_degraded an prefix (g\<lparr> gt_counters := cs \<rparr>))
     | (Exceeded t, cs) \<Rightarrow> (Some (Http 429 (Some t)), g\<lparr> gt_counters := cs \<rparr>)
     | (Limiter_down, cs) \<Rightarrow> (Some (Http 503 None), g\<lparr> gt_counters := cs \<rparr>))"

definition enforce_valid_webhook_ceiling :: "gate_settings \<Rightarrow> gate_answers \<Rightarrow> http_request \<Rightarrow> string \<Rightarrow> entry_gate \<Rightarrow> http_error option \<times> entry_gate" where
  "enforce_valid_webhook_ceiling st an r prefix g =
    (case check_rate_limit (ga_redis an) (ga_now an) (prefix @ '':'' @ rate_limit_identity (gs_trusted st) r) (gs_webhook_ceiling st)
        WINDOW_SECONDS False (gt_counters g) of
       (Exceeded t, cs) \<Rightarrow> (Some (too_many t), g\<lparr> gt_counters := cs \<rparr>)
     | (Degraded, cs) \<Rightarrow> (None, audit_degraded an prefix (g\<lparr> gt_counters := cs \<rparr>))
     | (_, cs) \<Rightarrow> (None, g\<lparr> gt_counters := cs \<rparr>))"

definition throttle_failed_webhook_auth :: "gate_settings \<Rightarrow> gate_answers \<Rightarrow> http_request \<Rightarrow> string \<Rightarrow> entry_gate \<Rightarrow> http_error option \<times> entry_gate" where
  "throttle_failed_webhook_auth st an r prefix g =
    (case record_failure_key (ga_redis an) (ga_now an) (prefix @ ''_authfail:'' @ rate_limit_identity (gs_trusted st) r) WINDOW_SECONDS (gt_counters g) of
       (None, cs) \<Rightarrow> (None, g\<lparr> gt_counters := cs \<rparr>)
     | (Some (n, ttl), cs) \<Rightarrow> (if n > gs_webhook_limit st then Some (too_many ttl) else None, g\<lparr> gt_counters := cs \<rparr>))"

text \<open>A failure bucket is a key and its limit. The \<open>i\<close>-th read of Redis may fail.\<close>

fun scan_buckets :: "(nat \<Rightarrow> bool) \<Rightarrow> nat \<Rightarrow> instant \<Rightarrow> rate_counters \<Rightarrow> (string \<times> int) list \<Rightarrow> bool \<times> int \<Rightarrow> (bool \<times> int) option" where
  "scan_buckets up i now cs [] found = Some found"
| "scan_buckets up i now cs ((key, limit) # bs) found =
    (case failure_state (up i) now key cs of
       None \<Rightarrow> None
     | Some (n, ttl) \<Rightarrow> scan_buckets up (Suc i) now cs bs (if n \<ge> limit then (True, max (snd found) ttl) else found))"

definition enforce_failure_buckets :: "(nat \<Rightarrow> bool) \<Rightarrow> instant \<Rightarrow> rate_counters \<Rightarrow> (string \<times> int) list \<Rightarrow> http_error option" where
  "enforce_failure_buckets up now cs bs =
    (case scan_buckets up 0 now cs bs (False, 0) of
       None \<Rightarrow> Some (Http 503 None)
     | Some (over, worst) \<Rightarrow> if over then Some (too_many worst) else None)"

fun record_failure_buckets :: "(nat \<Rightarrow> bool) \<Rightarrow> nat \<Rightarrow> instant \<Rightarrow> (string \<times> int) list \<Rightarrow> rate_counters \<Rightarrow> rate_counters" where
  "record_failure_buckets up i now [] cs = cs"
| "record_failure_buckets up i now ((key, limit) # bs) cs =
    (case record_failure_key (up i) now key WINDOW_SECONDS cs of
       (None, cs') \<Rightarrow> cs'
     | (Some _, cs') \<Rightarrow> record_failure_buckets up (Suc i) now bs cs')"

section \<open>Facts\<close>

lemma map_of_update: "map_of (AList.update k v xs) j = (if j = k then Some v else map_of xs j)"
  by (simp add: update_conv')

lemma live_update: "live_counter now (AList.update k v cs) j = (if j = k then live_counter now [(k, v)] k else live_counter now cs j)"
  by (simp add: live_counter_def map_of_update)

text \<open>Every counter has an expiry, at most a window ahead, and counts something.\<close>

definition counters_ok :: "instant \<Rightarrow> rate_counters \<Rightarrow> bool" where
  "counters_ok now cs \<longleftrightarrow> (\<forall>k n e. map_of cs k = Some (n, e) \<longrightarrow> n > 0 \<and> (\<exists>t. e = Some t \<and> t \<le> now + seconds WINDOW_SECONDS))"

lemma counters_ok_later: "counters_ok now cs \<Longrightarrow> now \<le> later \<Longrightarrow> counters_ok later cs"
  by (force simp: counters_ok_def)

lemma counters_ok_Nil [simp]: "counters_ok now []"
  by (simp add: counters_ok_def)

lemma counters_ok_live: "counters_ok now cs \<Longrightarrow> live_counter now cs k = Some (n, e) \<Longrightarrow> n > 0 \<and> (\<exists>t. e = Some t \<and> now < t)"
  by (fastforce simp: counters_ok_def live_counter_def split: option.splits if_splits)

lemma incr_other: "j \<noteq> k \<Longrightarrow> map_of (snd (atomic_incr now k w cs)) j = map_of cs j"
  by (auto simp: atomic_incr_def Let_def map_of_update split: prod.split)

lemma incr_same:
  assumes "counters_ok now cs"
  shows "snd (atomic_incr now k WINDOW_SECONDS cs) =
    AList.update k (case live_counter now cs k of Some (n, e) \<Rightarrow> (n + 1, e) | None \<Rightarrow> (1, Some (now + seconds WINDOW_SECONDS))) cs"
proof (cases "live_counter now cs k")
  case None
  then show ?thesis by (simp add: atomic_incr_def Let_def)
next
  case (Some c)
  obtain n t where c: "c = (n, Some t)" "n > 0" "now < t" using counters_ok_live [OF assms] Some by (cases c) blast
  have "\<not> (t - now + 500000) div 1000000 < 0" using c(3) by (simp add: pos_imp_zdiv_neg_iff)
  then show ?thesis using c Some by (simp add: atomic_incr_def Let_def ttl_of_def)
qed

lemma incr_ok: "counters_ok now cs \<Longrightarrow> counters_ok now (snd (atomic_incr now k WINDOW_SECONDS cs))"
proof -
  assume a: "counters_ok now cs"
  have new: "(case live_counter now cs k of Some (n, e) \<Rightarrow> (n + 1, e) | None \<Rightarrow> (1, Some (now + seconds WINDOW_SECONDS))) = (n, e) \<Longrightarrow>
      n > 0 \<and> (\<exists>t. e = Some t \<and> t \<le> now + seconds WINDOW_SECONDS)" for n e
    using a by (fastforce simp: counters_ok_def live_counter_def split: option.splits if_splits)
  show ?thesis unfolding incr_same [OF a] using new a by (auto simp: counters_ok_def map_of_update)
qed

lemma record_up: "record_failure_buckets (\<lambda>_. True) i now bs cs = foldl (\<lambda>cs b. snd (atomic_incr now (KEY_PREFIX @ fst b) WINDOW_SECONDS cs)) cs bs"
  by (induction bs arbitrary: i cs) (auto simp: record_failure_key_def split: prod.split)

lemma fold_other:
  "k \<notin> (\<lambda>b. KEY_PREFIX @ fst b) ` set bs \<Longrightarrow>
    map_of (foldl (\<lambda>cs b. snd (atomic_incr now (KEY_PREFIX @ fst b) w cs)) cs bs) k = map_of cs k"
  by (induction bs arbitrary: cs) (auto simp: incr_other)

lemma fold_ok: "counters_ok now cs \<Longrightarrow> counters_ok now (foldl (\<lambda>cs b. snd (atomic_incr now (KEY_PREFIX @ fst b) WINDOW_SECONDS cs)) cs bs)"
  by (induction bs arbitrary: cs) (auto simp: incr_ok)

lemma fold_same:
  assumes "counters_ok now cs" "distinct (map fst bs)" "K \<in> fst ` set bs"
  shows "map_of (foldl (\<lambda>cs b. snd (atomic_incr now (KEY_PREFIX @ fst b) WINDOW_SECONDS cs)) cs bs) (KEY_PREFIX @ K) =
    Some (case live_counter now cs (KEY_PREFIX @ K) of Some (n, e) \<Rightarrow> (n + 1, e) | None \<Rightarrow> (1, Some (now + seconds WINDOW_SECONDS)))"
  using assms
proof (induction bs arbitrary: cs)
  case (Cons b bs)
  let ?cs = "snd (atomic_incr now (KEY_PREFIX @ fst b) WINDOW_SECONDS cs)"
  show ?case
  proof (cases "fst b = K")
    case True
    then have "KEY_PREFIX @ K \<notin> (\<lambda>b. KEY_PREFIX @ fst b) ` set bs" using Cons.prems(2) by auto
    then show ?thesis using fold_other [of "KEY_PREFIX @ K" bs now WINDOW_SECONDS ?cs] True incr_same [OF Cons.prems(1), of "KEY_PREFIX @ K"]
      by (simp add: map_of_update)
  next
    case False
    have "live_counter now ?cs (KEY_PREFIX @ K) = live_counter now cs (KEY_PREFIX @ K)" using False by (simp add: live_counter_def incr_other)
    moreover have "K \<in> fst ` set bs" "distinct (map fst bs)" using Cons.prems False by auto
    ultimately show ?thesis using Cons.IH [of ?cs] incr_ok [OF Cons.prems(1)] by simp
  qed
qed simp

definition level :: "instant \<Rightarrow> rate_counters \<Rightarrow> string \<Rightarrow> int" where
  "level now cs k = (case live_counter now cs k of Some (n, e) \<Rightarrow> n | None \<Rightarrow> 0)"

lemma failure_state_level: "failure_state up now key cs = Some (n, t) \<Longrightarrow> n = level now cs (KEY_PREFIX @ key)"
  by (auto simp: failure_state_def level_def split: if_splits option.splits)

lemma scan_passes:
  "scan_buckets up i now cs bs found = Some (False, w) \<Longrightarrow> \<not> fst found \<and> (\<forall>(key, limit) \<in> set bs. level now cs (KEY_PREFIX @ key) < limit)"
proof (induction bs arbitrary: i found)
  case (Cons b bs)
  obtain key limit where b: "b = (key, limit)" by fastforce
  obtain n t where f: "failure_state (up i) now key cs = Some (n, t)" using Cons.prems b by (auto split: option.splits)
  have s: "scan_buckets up (Suc i) now cs bs (if n \<ge> limit then (True, max (snd found) t) else found) = Some (False, w)"
    using Cons.prems by (simp add: b f)
  have "\<not> n \<ge> limit" using Cons.IH [OF s] by auto
  then show ?case using Cons.IH [OF s] failure_state_level [OF f] b by auto
qed simp

lemma enforce_passes:
  assumes "enforce_failure_buckets up now cs bs = None" "(key, limit) \<in> set bs"
  shows "level now cs (KEY_PREFIX @ key) < limit"
proof -
  obtain w where "scan_buckets up 0 now cs bs (False, 0) = Some (False, w)"
    using assms(1) by (auto simp: enforce_failure_buckets_def split: option.splits if_splits prod.splits)
  from scan_passes [OF this] assms(2) show ?thesis by auto
qed

lemma scan_cong:
  "\<forall>b \<in> set bs. map_of cs (KEY_PREFIX @ fst b) = map_of cs' (KEY_PREFIX @ fst b) \<Longrightarrow>
    scan_buckets up i now cs bs found = scan_buckets up i now cs' bs found"
proof (induction bs arbitrary: i found)
  case (Cons b bs)
  obtain key limit where b: "b = (key, limit)" by fastforce
  have "failure_state u now key cs = failure_state u now key cs'" for u using Cons.prems b by (simp add: failure_state_def live_counter_def)
  then show ?case using Cons b by (simp split: option.split)
qed simp

end
