(* ===== verification/Entry_Points.thy ===== *)
theory Entry_Points imports Rate_Limit Dograh_Webhook Telephony_Webhook begin

text \<open>
  What stands before the services: the audit of security events (\<open>app/services/security_audit.py\<close>), the login of the
  console (\<open>app/api/routes/admin_auth.py\<close>, \<open>app/services/admin/auth.py\<close>), the check of its tokens
  (\<open>app/api/admin_deps.py\<close>), and the two webhook routes (\<open>app/api/routes/dograh_webhook.py\<close>, \<open>webhooks.py\<close>). The hash
  of names (\<open>sha\<close>, in hexadecimal) and the decoding of a token by PyJWT are arguments.
\<close>

section \<open>Security events\<close>

definition THROTTLE_SECONDS :: int where "THROTTLE_SECONDS = seconds 60"
definition THROTTLE_MAX_KEYS :: nat where "THROTTLE_MAX_KEYS = 10000"

definition should_write :: "instant \<Rightarrow> string \<Rightarrow> string option \<Rightarrow> ((string \<times> string) \<times> instant) list \<Rightarrow> bool \<times> ((string \<times> string) \<times> instant) list" where
  "should_write now action throttle written =
    (case throttle of
       None \<Rightarrow> (True, written)
     | Some key \<Rightarrow>
        if (case map_of written (action, key) of None \<Rightarrow> False | Some t \<Rightarrow> now - t < THROTTLE_SECONDS) then (False, written)
        else (True, AList.update (action, key) now (if length written \<ge> THROTTLE_MAX_KEYS then [] else written)))"

definition record_security_event :: "gate_answers \<Rightarrow> string \<Rightarrow> string \<Rightarrow> string \<Rightarrow> uuid option \<Rightarrow> payload \<Rightarrow> string option \<Rightarrow> entry_gate \<Rightarrow> entry_gate" where
  "record_security_event an action actor entity_type entity meta throttle g =
    (case should_write (ga_now an) action throttle (gt_written g) of
       (False, written) \<Rightarrow> g\<lparr> gt_written := written \<rparr>
     | (True, written) \<Rightarrow> g\<lparr> gt_written := written, gt_db := (if ga_db an
         then record_audit_event actor action entity_type entity (meta @ [(''request_id'', ga_request an)]) (gt_db g) else gt_db g) \<rparr>)"

section \<open>The login\<close>

record principal =
  pr_username :: string
  pr_role :: string

definition authenticate :: "gate_settings \<Rightarrow> string \<Rightarrow> string \<Rightarrow> principal option" where
  "authenticate st username password =
    (if (username, password) = gs_admin st then Some \<lparr> pr_username = username, pr_role = ''admin'' \<rparr>
     else if (username, password) = gs_operator st then Some \<lparr> pr_username = username, pr_role = ''operator'' \<rparr>
     else None)"

definition failure_buckets :: "gate_settings \<Rightarrow> (string \<Rightarrow> string) \<Rightarrow> http_request \<Rightarrow> string \<Rightarrow> (string \<times> int) list" where
  "failure_buckets st sha r username =
    (let identity = rate_limit_identity (gs_trusted st) r;
         user_hash = take 16 (sha (map lower_char (py_strip username)))
     in [(''login_fail_user:'' @ identity @ '':'' @ user_hash, gs_login_limit st), (''login_fail_ip:'' @ identity, gs_login_ip_ceiling st)])"

text \<open>A login in two steps: the check of the counters, and what follows when it passes.\<close>

definition login_admit :: "gate_settings \<Rightarrow> (string \<Rightarrow> string) \<Rightarrow> (nat \<Rightarrow> bool) \<Rightarrow> instant \<Rightarrow> http_request \<Rightarrow> string \<Rightarrow> entry_gate \<Rightarrow> http_error option" where
  "login_admit st sha reads now r username g = enforce_failure_buckets reads now (gt_counters g) (failure_buckets st sha r username)"

definition login_conclude :: "gate_settings \<Rightarrow> (string \<Rightarrow> string) \<Rightarrow> (nat \<Rightarrow> bool) \<Rightarrow> gate_answers \<Rightarrow> http_request \<Rightarrow> string \<Rightarrow> string \<Rightarrow> entry_gate \<Rightarrow>
    (http_error + principal) \<times> entry_gate" where
  "login_conclude st sha writes an r username password g =
    (let source_ip = client_address (gs_trusted st) r in
     case authenticate st username password of
       None \<Rightarrow> (Inl (Http 401 None),
         record_security_event an ''auth.login_failed'' ''anonymous'' ''security'' None
           [(''username_fingerprint'', JStr (take 12 (sha username))), (''source_ip'', JStr source_ip)] (Some source_ip)
           (g\<lparr> gt_counters := record_failure_buckets writes 0 (ga_now an) (failure_buckets st sha r username) (gt_counters g) \<rparr>))
     | Some p \<Rightarrow> (Inr p,
         record_security_event an ''auth.login_succeeded'' (pr_username p) ''security'' None
           [(''role'', JStr (pr_role p)), (''source_ip'', JStr source_ip)] None g))"

definition login :: "gate_settings \<Rightarrow> (string \<Rightarrow> string) \<Rightarrow> (nat \<Rightarrow> bool) \<Rightarrow> (nat \<Rightarrow> bool) \<Rightarrow> gate_answers \<Rightarrow> http_request \<Rightarrow> string \<Rightarrow> string \<Rightarrow> entry_gate \<Rightarrow>
    (http_error + principal) \<times> entry_gate" where
  "login st sha reads writes an r username password g =
    (case login_admit st sha reads (ga_now an) r username g of
       Some e \<Rightarrow> (Inl e, g)
     | None \<Rightarrow> login_conclude st sha writes an r username password g)"

section \<open>Tokens\<close>

definition bearer_token :: "string option \<Rightarrow> string option" where
  "bearer_token authorization =
    (case authorization of
       None \<Rightarrow> None
     | Some a \<Rightarrow> if take 7 (map lower_char a) = ''bearer '' then Some (py_strip (drop 1 (dropWhile (\<lambda>c. c \<noteq> CHR '' '') a))) else None)"

definition token_payload :: "int \<Rightarrow> int \<Rightarrow> principal \<Rightarrow> payload" where
  "token_payload now expires_in p = [(''sub'', JStr (pr_username p)), (''role'', JStr (pr_role p)), (''iat'', JInt now), (''exp'', JInt (now + expires_in))]"

definition decode_access_token :: "(string \<Rightarrow> payload option) \<Rightarrow> string \<Rightarrow> principal option" where
  "decode_access_token jwt t =
    (case jwt t of
       None \<Rightarrow> None
     | Some p \<Rightarrow> (case (map_of p ''role'', map_of p ''sub'') of
         (Some (JStr role), Some (JStr username)) \<Rightarrow>
           if role \<notin> {''admin'', ''operator''} \<or> username = [] then None else Some \<lparr> pr_username = username, pr_role = role \<rparr>
       | _ \<Rightarrow> None))"

definition require_admin :: "(string \<Rightarrow> payload option) \<Rightarrow> string option \<Rightarrow> http_error + principal" where
  "require_admin jwt authorization =
    (case bearer_token authorization of
       None \<Rightarrow> Inl (Http 401 None)
     | Some t \<Rightarrow> (case decode_access_token jwt t of None \<Rightarrow> Inl (Http 401 None) | Some p \<Rightarrow> Inr p))"

text \<open>\<open>method\<close> and \<open>route\<close> are the method and the template of the route, \<open>ids\<close> its path parameters.\<close>

definition require_role :: "string \<Rightarrow> (string \<Rightarrow> payload option) \<Rightarrow> gate_answers \<Rightarrow> string \<Rightarrow> string \<Rightarrow> payload \<Rightarrow> string option \<Rightarrow> entry_gate \<Rightarrow>
    (http_error + principal) \<times> entry_gate" where
  "require_role role jwt an http_method route ids authorization g =
    (case require_admin jwt authorization of
       Inl e \<Rightarrow> (Inl e, g)
     | Inr p \<Rightarrow>
        if pr_role p \<noteq> role
        then (Inl (Http 403 None), record_security_event an ''authz.denied'' (pr_username p) ''security'' None
          [(''role'', JStr (pr_role p)), (''required_role'', JStr role), (''method'', JStr http_method), (''route'', JStr route),
           (''resource_ids'', JObj ids)] (Some (pr_username p @ '':'' @ http_method @ '':'' @ route)) g)
        else (Inr p, g))"

section \<open>The webhook routes\<close>

definition refuse_webhook :: "gate_settings \<Rightarrow> gate_answers \<Rightarrow> string \<Rightarrow> string \<Rightarrow> bool \<Rightarrow> http_request \<Rightarrow> entry_gate \<Rightarrow> http_error option \<times> entry_gate" where
  "refuse_webhook st an prefix endpoint presented r g =
    (let source_ip = client_address (gs_trusted st) r;
         g1 = record_security_event an ''webhook.auth_failed'' ''anonymous'' ''webhook'' None
           [(''endpoint'', JStr endpoint), (''credential_presented'', JBool presented), (''source_ip'', JStr source_ip)]
           (Some (endpoint @ '':'' @ source_ip)) g
     in case throttle_failed_webhook_auth st an r prefix g1 of
          (Some e, g2) \<Rightarrow> (Some e, g2)
        | (None, g2) \<Rightarrow> (Some (Http 401 None), g2))"

definition dograh_credential :: "gate_settings \<Rightarrow> string option \<Rightarrow> string option \<Rightarrow> bool" where
  "dograh_credential st authorization api_key \<longleftrightarrow>
    (case bearer_token authorization of None \<Rightarrow> False | Some t \<Rightarrow> t \<noteq> [] \<and> t = gs_dograh_secret st) \<or>
    (case api_key of None \<Rightarrow> False | Some k \<Rightarrow> k \<noteq> [] \<and> k = gs_dograh_secret st)"

definition is_presented :: "string option \<Rightarrow> bool" where
  "is_presented s = (case s of None \<Rightarrow> False | Some t \<Rightarrow> t \<noteq> [])"

definition authenticate_dograh :: "gate_settings \<Rightarrow> gate_answers \<Rightarrow> string option \<Rightarrow> string option \<Rightarrow> http_request \<Rightarrow> entry_gate \<Rightarrow> http_error option \<times> entry_gate" where
  "authenticate_dograh st an authorization api_key r g =
    (if dograh_credential st authorization api_key then enforce_valid_webhook_ceiling st an r ''dograh_webhook'' g
     else refuse_webhook st an ''dograh_webhook'' ''dograh'' (is_presented (bearer_token authorization) \<or> is_presented api_key) r g)"

definition authenticate_telephony :: "gate_settings \<Rightarrow> gate_answers \<Rightarrow> string option \<Rightarrow> http_request \<Rightarrow> entry_gate \<Rightarrow> http_error option \<times> entry_gate" where
  "authenticate_telephony st an secret r g =
    (if is_presented secret \<and> secret = Some (gs_telephony_secret st) then enforce_valid_webhook_ceiling st an r ''telephony_webhook'' g
     else refuse_webhook st an ''telephony_webhook'' ''telephony'' (is_presented secret) r g)"

fun webhook_status :: "webhook_error \<Rightarrow> nat" where
  "webhook_status Unprocessable = 422"
| "webhook_status Not_found = 404"
| "webhook_status Uncorrelated = 409"
| "webhook_status Crashed = 500"

text \<open>The body is validated after the authentication; \<open>None\<close> is an invalid one.\<close>

definition dograh_call_completed :: "gate_settings \<Rightarrow> gate_answers \<Rightarrow> 'p env \<Rightarrow> hook_answers \<Rightarrow> string option \<Rightarrow> string option \<Rightarrow> http_request \<Rightarrow> webhook option \<Rightarrow>
    entry_gate \<times> schedule \<Rightarrow> (http_error + uuid \<times> webhook_outcome) \<times> analysis_job option \<times> entry_gate \<times> schedule" where
  "dograh_call_completed st an w han authorization api_key r body s =
    (case s of (g, sch) \<Rightarrow>
      case authenticate_dograh st an authorization api_key r g of
        (Some e, g1) \<Rightarrow> (Inl e, None, g1, sch)
      | (None, g1) \<Rightarrow>
         (case body of
            None \<Rightarrow> (Inl (Http 422 None), None, g1, sch)
          | Some p \<Rightarrow>
             (case process_dograh_webhook w han p (gt_db g1, sch) of
                (Inl e, job, d, sch') \<Rightarrow> (Inl (Http (webhook_status e) None), job, g1\<lparr> gt_db := d \<rparr>, sch')
              | (Inr (i, out), job, d, sch') \<Rightarrow>
                  let g2 = g1\<lparr> gt_db := d \<rparr> in
                  (Inr (i, out), job, if out = Already_processed
                     then record_security_event an ''webhook.duplicate'' ''dograh'' ''call_attempt'' (Some i) [(''endpoint'', JStr ''dograh'')] None g2
                     else g2, sch'))))"

definition receive_call_status :: "gate_settings \<Rightarrow> gate_answers \<Rightarrow> (db \<Rightarrow> db) \<Rightarrow> string option \<Rightarrow> http_request \<Rightarrow> call_status option \<Rightarrow> entry_gate \<Rightarrow>
    (http_error + app_error + status_answer) \<times> entry_gate" where
  "receive_call_status st an others secret r body g =
    (case authenticate_telephony st an secret r g of
       (Some e, g1) \<Rightarrow> (Inl e, g1)
     | (None, g1) \<Rightarrow>
        (case body of
           None \<Rightarrow> (Inl (Http 422 None), g1)
         | Some p \<Rightarrow> (case process_call_status others (ga_now an) p (gt_db g1) of
             (answer, d) \<Rightarrow> (Inr answer, (if answer = Inr Status_already
               then record_security_event an ''webhook.duplicate'' ''telephony'' ''webhook'' None [(''endpoint'', JStr ''telephony'')] None (g1\<lparr> gt_db := d \<rparr>)
               else g1\<lparr> gt_db := d \<rparr>)))))"

end
