(* ===== verification/Entry_Safety.thy ===== *)
theory Entry_Safety imports Entry_Points begin

text \<open>
  What the entry points guarantee: how many passwords an address can try in a minute, with any number of requests in
  progress at once; that nobody's failures block somebody else; and that a webhook without its secret does nothing.
\<close>

section \<open>Keys\<close>

lemma bucket_keys_distinct: "distinct (map fst (failure_buckets st sha r u))"
  by (simp add: failure_buckets_def Let_def)

text \<open>A key belongs to one kind of bucket, so its limit does not depend on the request.\<close>

lemma bucket_limit:
  assumes "(K, L) \<in> set (failure_buckets st sha r u)" "(K, M) \<in> set (failure_buckets st sha r' u')"
  shows "M = L"
  using assms by (auto simp: failure_buckets_def Let_def)

lemma bucket_keys_disjoint:
  assumes "\<And>s. length (sha s) = 64" "rate_limit_identity (gs_trusted st) r \<noteq> rate_limit_identity (gs_trusted st) r'"
  shows "fst ` set (failure_buckets st sha r u) \<inter> fst ` set (failure_buckets st sha r' u') = {}"
proof -
  have e: "fst ` set (failure_buckets st sha q v) = {''login_fail_user:'' @ rate_limit_identity (gs_trusted st) q @ '':'' @ take 16 (sha (map lower_char (py_strip v))),
      ''login_fail_ip:'' @ rate_limit_identity (gs_trusted st) q}" for q v
    by (simp add: failure_buckets_def Let_def)
  have "x @ z \<noteq> y @ z'" if "x \<noteq> y" "length z = length z'" for x y z z' :: string using that by simp
  then have "rate_limit_identity (gs_trusted st) r @ '':'' @ take 16 (sha s) \<noteq> rate_limit_identity (gs_trusted st) r' @ '':'' @ take 16 (sha t)" for s t
    using assms by (metis length_append length_take)
  then show ?thesis unfolding e using assms(2) by simp
qed

lemma event_counters [simp]: "gt_counters (record_security_event an a b c i m t g) = gt_counters g"
  by (simp add: record_security_event_def split: prod.split bool.split)

lemma conclude_counters:
  "gt_counters (snd (login_conclude st sha writes an r u p g)) = (if authenticate st u p = None
     then record_failure_buckets writes 0 (ga_now an) (failure_buckets st sha r u) (gt_counters g) else gt_counters g)"
  by (simp add: login_conclude_def Let_def split: option.split)

section \<open>Many logins in progress\<close>

text \<open>The requests that passed the check and are not concluded, and the guesses made so far: their instants and keys.\<close>

record login_sys =
  ls_gate :: entry_gate
  ls_pending :: "(http_request \<times> string \<times> string) list"
  ls_guesses :: "(instant \<times> string list) list"

datatype login_event = Arrive http_request string string | Conclude nat

definition bucket_keys :: "gate_settings \<Rightarrow> (string \<Rightarrow> string) \<Rightarrow> http_request \<Rightarrow> string \<Rightarrow> string list" where
  "bucket_keys st sha r u = map fst (failure_buckets st sha r u)"

definition login_step :: "gate_settings \<Rightarrow> (string \<Rightarrow> string) \<Rightarrow> gate_answers \<times> (nat \<Rightarrow> bool) \<times> login_event \<Rightarrow> login_sys \<Rightarrow> login_sys" where
  "login_step st sha ev s =
    (case ev of
       (an, up, Arrive r u p) \<Rightarrow>
         (if login_admit st sha up (ga_now an) r u (ls_gate s) = None then s\<lparr> ls_pending := ls_pending s @ [(r, u, p)] \<rparr> else s)
     | (an, up, Conclude k) \<Rightarrow>
         (if k < length (ls_pending s)
          then (case ls_pending s ! k of (r, u, p) \<Rightarrow>
             s\<lparr> ls_gate := snd (login_conclude st sha up an r u p (ls_gate s)), ls_pending := take k (ls_pending s) @ drop (Suc k) (ls_pending s),
                ls_guesses := (if authenticate st u p = None then ls_guesses s @ [(ga_now an, bucket_keys st sha r u)] else ls_guesses s) \<rparr>)
          else s))"

fun login_run :: "gate_settings \<Rightarrow> (string \<Rightarrow> string) \<Rightarrow> (gate_answers \<times> (nat \<Rightarrow> bool) \<times> login_event) list \<Rightarrow> login_sys \<Rightarrow> login_sys" where
  "login_run st sha [] s = s"
| "login_run st sha (ev # evs) s = login_run st sha evs (login_step st sha ev s)"

definition holders :: "gate_settings \<Rightarrow> (string \<Rightarrow> string) \<Rightarrow> string \<Rightarrow> login_sys \<Rightarrow> nat" where
  "holders st sha K s = count_where (\<lambda>(r, u, p). K \<in> set (bucket_keys st sha r u)) (ls_pending s)"

definition guesses_in :: "instant \<Rightarrow> string \<Rightarrow> login_sys \<Rightarrow> nat" where
  "guesses_in T K s = count_where (\<lambda>(t, ks). K \<in> set ks \<and> T \<le> t \<and> t < T + seconds WINDOW_SECONDS) (ls_guesses s)"

text \<open>The count of the key and the requests in progress stay below \<open>B\<close>; in the minute from \<open>T\<close> the guesses are counted by
  the counter that was there (it expires before the minute ends), or by the one after it, next to at most \<open>B\<close> before.\<close>

definition guess_inv :: "gate_settings \<Rightarrow> (string \<Rightarrow> string) \<Rightarrow> string \<Rightarrow> int \<Rightarrow> instant \<Rightarrow> instant \<Rightarrow> login_sys \<Rightarrow> bool" where
  "guess_inv st sha K B T now s \<longleftrightarrow>
    (let cs = gt_counters (ls_gate s); n = level now cs (KEY_PREFIX @ K); g = int (guesses_in T K s) in
     counters_ok now cs \<and> n + int (holders st sha K s) \<le> B \<and>
     (now < T \<longrightarrow> g = 0) \<and> g \<le> 2 * B \<and>
     (T \<le> now \<and> now < T + seconds WINDOW_SECONDS \<longrightarrow>
       (case live_counter now cs (KEY_PREFIX @ K) of
          Some (_, Some e) \<Rightarrow> if e < T + seconds WINDOW_SECONDS then g \<le> n else g \<le> B + n
        | _ \<Rightarrow> g \<le> B)))"

lemma level_later: "counters_ok now cs \<Longrightarrow> now \<le> later \<Longrightarrow> level later cs k \<le> level now cs k \<and> 0 \<le> level later cs k"
  by (fastforce simp: level_def live_counter_def counters_ok_def split: option.split)

lemma live_later: "now \<le> later \<Longrightarrow> live_counter later cs k = Some (n, Some e) \<Longrightarrow> live_counter now cs k = Some (n, Some e)"
  by (auto simp: live_counter_def split: option.splits if_splits)

lemma guess_inv_later:
  assumes "guess_inv st sha K B T now s" "now \<le> later" "0 \<le> B"
  shows "guess_inv st sha K B T later s"
proof -
  let ?cs = "gt_counters (ls_gate s)" and ?k = "KEY_PREFIX @ K" and ?g = "int (guesses_in T K s)" and ?W = "seconds WINDOW_SECONDS"
  have inv: "counters_ok now ?cs" "level now ?cs ?k + int (holders st sha K s) \<le> B" "now < T \<Longrightarrow> ?g = 0" "?g \<le> 2 * B"
    "T \<le> now \<Longrightarrow> now < T + ?W \<Longrightarrow> (case live_counter now ?cs ?k of Some (_, Some e) \<Rightarrow> if e < T + ?W then ?g \<le> level now ?cs ?k else ?g \<le> B + level now ?cs ?k | _ \<Rightarrow> ?g \<le> B)"
    using assms(1) by (auto simp: guess_inv_def Let_def)
  note l = level_later [OF inv(1) assms(2), of ?k]
  have "(case live_counter later ?cs ?k of Some (_, Some e) \<Rightarrow> if e < T + ?W then ?g \<le> level later ?cs ?k else ?g \<le> B + level later ?cs ?k | _ \<Rightarrow> ?g \<le> B)"
    if t: "T \<le> later" "later < T + ?W"
  proof (cases "now < T")
    case True
    then show ?thesis using inv(3) l assms(3) by (auto split: option.split prod.split)
  next
    case False
    then have i: "case live_counter now ?cs ?k of Some (_, Some e) \<Rightarrow> if e < T + ?W then ?g \<le> level now ?cs ?k else ?g \<le> B + level now ?cs ?k | _ \<Rightarrow> ?g \<le> B"
      using inv(5) t assms(2) by simp
    show ?thesis
    proof (cases "live_counter later ?cs ?k")
      case (Some c)
      then obtain n e where c: "live_counter later ?cs ?k = Some (n, Some e)"
        using counters_ok_live [OF counters_ok_later [OF inv(1) assms(2)]] by (cases c) blast
      have "level later ?cs ?k = level now ?cs ?k" using c live_later [OF assms(2) c] by (simp add: level_def)
      then show ?thesis using i c live_later [OF assms(2) c] by simp
    next
      case None
      have "?g \<le> B"
      proof (cases "live_counter now ?cs ?k")
        case (Some c)
        then obtain n e where c: "live_counter now ?cs ?k = Some (n, Some e)" using counters_ok_live [OF inv(1)] by (cases c) blast
        then have "e \<le> later" using None by (auto simp: live_counter_def split: option.splits if_splits)
        then have "?g \<le> level now ?cs ?k" using i c t by simp
        then show ?thesis using inv(2) by simp
      qed (use i in simp)
      then show ?thesis using None by simp
    qed
  qed
  then show ?thesis using inv(2-4) l assms(2) counters_ok_later [OF inv(1) assms(2)] by (auto simp: guess_inv_def Let_def)
qed


lemma count_where_single: "count_where P [x] = (if P x then 1 else 0)"
  by (simp add: count_where_def)

lemma count_where_drop: "k < length xs \<Longrightarrow> count_where P (take k xs @ drop (Suc k) xs) + (if P (xs ! k) then 1 else 0) = count_where P xs"
proof -
  assume "k < length xs"
  then have "count_where P xs = count_where P (take k xs @ [xs ! k] @ drop (Suc k) xs)" by (simp add: Cons_nth_drop_Suc)
  then show ?thesis by (simp add: count_where_def)
qed

lemma arrive_inv:
  assumes "guess_inv st sha K B T now s" "ga_now an = now" "login_admit st sha up now r u (ls_gate s) = None"
    and "(K, L) \<in> set (failure_buckets st sha r0 u0)" "B = L - 1 + int m" "holders st sha K (s\<lparr> ls_pending := ls_pending s @ [(r, u, p)] \<rparr>) \<le> m"
  shows "guess_inv st sha K B T now (s\<lparr> ls_pending := ls_pending s @ [(r, u, p)] \<rparr>)"
proof -
  let ?s = "s\<lparr> ls_pending := ls_pending s @ [(r, u, p)] \<rparr>" and ?n = "level now (gt_counters (ls_gate s)) (KEY_PREFIX @ K)"
  have "?n + int (holders st sha K ?s) \<le> B"
  proof (cases "K \<in> set (bucket_keys st sha r u)")
    case True
    then obtain M where M: "(K, M) \<in> set (failure_buckets st sha r u)" by (auto simp: bucket_keys_def)
    then have "?n < L" using enforce_passes [OF assms(3) [unfolded login_admit_def] M] bucket_limit [OF assms(4) M] by simp
    then show ?thesis using assms(5,6) by simp
  next
    case False
    then have "holders st sha K ?s = holders st sha K s" by (simp add: holders_def count_where_single)
    then show ?thesis using assms(1) by (simp add: guess_inv_def Let_def)
  qed
  then show ?thesis using assms(1) by (simp add: guess_inv_def Let_def guesses_in_def)
qed


lemma recorded_live:
  assumes "counters_ok now cs" "distinct (map fst bs)"
  defines "cs' \<equiv> record_failure_buckets (\<lambda>_. True) 0 now bs cs"
  shows "counters_ok now cs'"
    and "K \<notin> fst ` set bs \<Longrightarrow> live_counter now cs' (KEY_PREFIX @ K) = live_counter now cs (KEY_PREFIX @ K)"
    and "K \<in> fst ` set bs \<Longrightarrow> live_counter now cs' (KEY_PREFIX @ K) = Some (level now cs (KEY_PREFIX @ K) + 1,
      case live_counter now cs (KEY_PREFIX @ K) of Some (n, e) \<Rightarrow> e | None \<Rightarrow> Some (now + seconds WINDOW_SECONDS))"
proof -
  note f = record_up [of 0 now bs cs]
  show "counters_ok now cs'" unfolding cs'_def f by (rule fold_ok [OF assms(1)])
  {
    assume "K \<notin> fst ` set bs"
    then have "KEY_PREFIX @ K \<notin> (\<lambda>b. KEY_PREFIX @ fst b) ` set bs" by auto
    from fold_other [OF this, of now WINDOW_SECONDS cs] show "live_counter now cs' (KEY_PREFIX @ K) = live_counter now cs (KEY_PREFIX @ K)"
      unfolding cs'_def f by (simp add: live_counter_def)
  }
  assume K: "K \<in> fst ` set bs"
  note m = fold_same [OF assms(1,2) K]
  show "live_counter now cs' (KEY_PREFIX @ K) = Some (level now cs (KEY_PREFIX @ K) + 1,
      case live_counter now cs (KEY_PREFIX @ K) of Some (n, e) \<Rightarrow> e | None \<Rightarrow> Some (now + seconds WINDOW_SECONDS))"
  proof (cases "live_counter now cs (KEY_PREFIX @ K)")
    case None
    have "0 < seconds WINDOW_SECONDS" by (simp add: WINDOW_SECONDS_def)
    with None m show ?thesis unfolding cs'_def f by (simp add: live_counter_def [of now "foldl _ _ _"] level_def)
  next
    case (Some c)
    obtain n t where "c = (n, Some t)" "now < t" using counters_ok_live [OF assms(1)] Some by (cases c) blast
    with Some m show ?thesis unfolding cs'_def f by (simp add: live_counter_def [of now "foldl _ _ _"] level_def)
  qed
qed

lemma conclude_inv:
  assumes "guess_inv st sha K B T now s" "ga_now an = now" "k < length (ls_pending s)" "0 \<le> B"
  shows "guess_inv st sha K B T now (login_step st sha (an, \<lambda>_. True, Conclude k) s)"
proof -
  obtain r u p where q: "ls_pending s ! k = (r, u, p)" by (metis prod_cases3)
  let ?s = "login_step st sha (an, \<lambda>_. True, Conclude k) s" and ?own = "K \<in> set (bucket_keys st sha r u)" and ?k = "KEY_PREFIX @ K"
  let ?cs = "gt_counters (ls_gate s)" and ?cs' = "gt_counters (ls_gate ?s)" and ?W = "seconds WINDOW_SECONDS"
  have pending: "holders st sha K ?s + (if ?own then 1 else 0) = holders st sha K s"
    using count_where_drop [OF assms(3), of "\<lambda>(r, u, p). K \<in> set (bucket_keys st sha r u)"] assms(3)
    by (simp add: login_step_def holders_def q)
  have inv: "counters_ok now ?cs" "level now ?cs ?k + int (holders st sha K s) \<le> B" "now < T \<Longrightarrow> guesses_in T K s = 0" "int (guesses_in T K s) \<le> 2 * B"
    "T \<le> now \<Longrightarrow> now < T + ?W \<Longrightarrow> (case live_counter now ?cs ?k of Some (_, Some e) \<Rightarrow> if e < T + ?W then int (guesses_in T K s) \<le> level now ?cs ?k
       else int (guesses_in T K s) \<le> B + level now ?cs ?k | _ \<Rightarrow> int (guesses_in T K s) \<le> B)"
    using assms(1) by (auto simp: guess_inv_def Let_def)
  show ?thesis
  proof (cases "authenticate st u p")
    case (Some pr)
    then have "?cs' = ?cs" "guesses_in T K ?s = guesses_in T K s"
      using assms(3) by (simp_all add: login_step_def q conclude_counters guesses_in_def)
    then show ?thesis using inv pending by (simp add: guess_inv_def Let_def split: if_splits)
  next
    case None
    note rec = recorded_live [OF inv(1) bucket_keys_distinct [of st sha r u]]
    have cs: "?cs' = record_failure_buckets (\<lambda>_. True) 0 now (failure_buckets st sha r u) ?cs"
      using None assms(2,3) by (simp add: login_step_def q conclude_counters)
    have ok: "counters_ok now ?cs'" unfolding cs by (rule rec(1))
    have g: "guesses_in T K ?s = guesses_in T K s + (if ?own \<and> T \<le> now \<and> now < T + ?W then 1 else 0)"
      using None assms(2,3) by (simp add: login_step_def q guesses_in_def count_where_single)
    have own: "?own \<longleftrightarrow> K \<in> fst ` set (failure_buckets st sha r u)" by (simp add: bucket_keys_def)
    show ?thesis
    proof (cases ?own)
      case False
      then have l: "live_counter now ?cs' ?k = live_counter now ?cs ?k" using rec(2) [of K] own cs by simp
      have lv: "level now ?cs' ?k = level now ?cs ?k" using l by (simp add: level_def)
      have h: "holders st sha K ?s = holders st sha K s" "guesses_in T K ?s = guesses_in T K s" using pending g False by simp_all
      show ?thesis using ok inv unfolding guess_inv_def Let_def lv l h by (intro conjI impI) (blast | simp)+
    next
      case True
      let ?n = "level now ?cs ?k"
      have l: "live_counter now ?cs' ?k = Some (?n + 1, case live_counter now ?cs ?k of Some (n, e) \<Rightarrow> e | None \<Rightarrow> Some (now + ?W))" using rec(3) [of K] own cs True by simp
      then have n: "level now ?cs' ?k = ?n + 1" by (simp add: level_def)
      have g': "int (guesses_in T K ?s) = int (guesses_in T K s) + (if T \<le> now \<and> now < T + ?W then 1 else 0)" using g True by simp
      have h: "int (holders st sha K ?s) = int (holders st sha K s) - 1" using pending True by simp
      have c: "case live_counter now ?cs' ?k of Some (_, Some e) \<Rightarrow> if e < T + ?W then int (guesses_in T K ?s) \<le> ?n + 1 else int (guesses_in T K ?s) \<le> B + (?n + 1)
          | _ \<Rightarrow> int (guesses_in T K ?s) \<le> B" if t: "T \<le> now" "now < T + ?W"
      proof (cases "live_counter now ?cs ?k")
        case None
        then have "int (guesses_in T K s) \<le> B" "?n = 0" using inv(5) t by (simp_all add: level_def)
        then show ?thesis using None t g' l by simp
      next
        case (Some x)
        then obtain m e where x: "live_counter now ?cs ?k = Some (m, Some e)" using counters_ok_live [OF inv(1)] by (cases x) blast
        then show ?thesis using inv(5) t g' l by (auto split: if_splits)
      qed
      have "int (guesses_in T K ?s) \<le> 2 * B"
      proof (cases "T \<le> now \<and> now < T + ?W")
        case True
        then show ?thesis using c inv(2) h n by (auto split: option.splits if_splits)
      next
        case False
        then show ?thesis using g' inv(4) by auto
      qed
      then show ?thesis using inv(2,3) g' h c ok unfolding guess_inv_def Let_def n by simp
    qed
  qed
qed


definition event_time :: "gate_answers \<times> (nat \<Rightarrow> bool) \<times> login_event \<Rightarrow> instant" where
  "event_time ev = ga_now (fst ev)"

text \<open>Redis takes the count of every failed guess.\<close>

definition recorded :: "gate_answers \<times> (nat \<Rightarrow> bool) \<times> login_event \<Rightarrow> bool" where
  "recorded ev = (case ev of (an, up, Conclude k) \<Rightarrow> up = (\<lambda>_. True) | _ \<Rightarrow> True)"

lemma step_inv:
  assumes "guess_inv st sha K B T now s" "event_time ev = now" "recorded ev" "(K, L) \<in> set (failure_buckets st sha r0 u0)"
    and "B = L - 1 + int m" "0 < L" "holders st sha K (login_step st sha ev s) \<le> m"
  shows "guess_inv st sha K B T now (login_step st sha ev s)"
proof -
  obtain an up e where ev: "ev = (an, up, e)" by (rule prod_cases3)
  have now: "ga_now an = now" using assms(2) by (simp add: event_time_def ev)
  show ?thesis
  proof (cases e)
    case (Arrive r u p)
    show ?thesis
    proof (cases "login_admit st sha up now r u (ls_gate s) = None")
      case True
      then have st: "login_step st sha ev s = s\<lparr> ls_pending := ls_pending s @ [(r, u, p)] \<rparr>" by (simp add: login_step_def ev Arrive now)
      show ?thesis using arrive_inv [OF assms(1) now True assms(4,5)] assms(7) unfolding st by blast
    next
      case False
      then have "login_step st sha ev s = s" by (simp add: login_step_def ev Arrive now)
      then show ?thesis using assms(1) by (simp only:)
    qed
  next
    case (Conclude k)
    show ?thesis
    proof (cases "k < length (ls_pending s)")
      case True
      have "up = (\<lambda>_. True)" using assms(3) by (simp add: recorded_def ev Conclude)
      then show ?thesis using conclude_inv [OF assms(1) now True] assms(5,6) by (simp add: ev Conclude)
    next
      case False
      then show ?thesis using assms(1) by (simp add: login_step_def ev Conclude)
    qed
  qed
qed

lemma login_run_inv:
  assumes "guess_inv st sha K B T now s" "sorted (now # map event_time evs)" "\<forall>ev \<in> set evs. recorded ev"
    and "(K, L) \<in> set (failure_buckets st sha r0 u0)" "B = L - 1 + int m" "0 < L"
    and "\<forall>i \<le> length evs. holders st sha K (login_run st sha (take i evs) s) \<le> m"
  shows "\<exists>later. guess_inv st sha K B T later (login_run st sha evs s)"
  using assms
proof (induction evs arbitrary: s now)
  case (Cons ev evs)
  have B: "0 \<le> B" using Cons.prems(5,6) by simp
  have later: "guess_inv st sha K B T (event_time ev) s" using guess_inv_later [OF Cons.prems(1) _ B] Cons.prems(2) by simp
  have tail: "holders st sha K (login_run st sha (take i evs) (login_step st sha ev s)) \<le> m" if "i \<le> length evs" for i
    using Cons.prems(7) [rule_format, of "Suc i"] that by simp
  have "holders st sha K (login_step st sha ev s) \<le> m" using tail [of 0] by simp
  from step_inv [OF later refl _ Cons.prems(4,5,6) this] Cons.prems(3)
  have "guess_inv st sha K B T (event_time ev) (login_step st sha ev s)" by simp
  from Cons.IH [OF this _ _ Cons.prems(4,5,6)] Cons.prems(2,3) tail show ?case by simp
qed auto

definition no_logins :: "entry_gate \<Rightarrow> login_sys" where
  "no_logins g = \<lparr> ls_gate = g, ls_pending = [], ls_guesses = [] \<rparr>"

text \<open>
  C7: however requests to log in arrive and interleave, when at most \<open>m\<close> of one counter are in progress at any time, at most
  \<open>2 * (limit - 1 + m)\<close> wrong passwords are tried against it in any minute; with one request at a time, twice its limit.
\<close>

theorem login_guesses_bounded:
  assumes "sorted (map event_time evs)" "\<forall>ev \<in> set evs. recorded ev" "gt_counters g = []"
    and "(K, L) \<in> set (failure_buckets st sha r0 u0)" "0 < L"
    and "\<forall>i \<le> length evs. holders st sha K (login_run st sha (take i evs) (no_logins g)) \<le> m"
  shows "int (guesses_in T K (login_run st sha evs (no_logins g))) \<le> 2 * (L - 1 + int m)"
proof -
  define now where "now = (case evs of [] \<Rightarrow> 0 | ev # _ \<Rightarrow> event_time ev)"
  have "sorted (now # map event_time evs)" using assms(1) by (cases evs) (simp_all add: now_def)
  moreover have "guess_inv st sha K (L - 1 + int m) T now (no_logins g)"
    using assms(3,5) by (simp add: guess_inv_def Let_def no_logins_def level_def live_counter_def holders_def guesses_in_def count_where_def)
  ultimately obtain later where "guess_inv st sha K (L - 1 + int m) T later (login_run st sha evs (no_logins g))"
    using login_run_inv [of st sha K "L - 1 + int m" T now "no_logins g" evs L r0 u0 m] assms by auto
  then show ?thesis by (simp add: guess_inv_def Let_def)
qed

section \<open>Nobody else's failures\<close>

lemma record_other:
  "K \<notin> fst ` set bs \<Longrightarrow> map_of (record_failure_buckets up i now bs cs) (KEY_PREFIX @ K) = map_of cs (KEY_PREFIX @ K)"
proof (induction bs arbitrary: i cs)
  case (Cons b bs)
  obtain key limit where b: "b = (key, limit)" by fastforce
  have k: "KEY_PREFIX @ K \<noteq> KEY_PREFIX @ key" using Cons.prems b by auto
  show ?case
  proof (cases "up i")
    case True
    obtain a cs' where a: "atomic_incr now (KEY_PREFIX @ key) WINDOW_SECONDS cs = (a, cs')" by fastforce
    show ?thesis using Cons b True incr_other [OF k, of now WINDOW_SECONDS cs] by (simp add: record_failure_key_def a)
  next
    case False
    then show ?thesis by (simp add: b record_failure_key_def)
  qed
qed simp

lemma admit_cong:
  assumes "\<forall>K \<in> fst ` set (failure_buckets st sha r u). map_of (gt_counters g) (KEY_PREFIX @ K) = map_of (gt_counters g') (KEY_PREFIX @ K)"
  shows "login_admit st sha up now r u g = login_admit st sha up now r u g'"
proof -
  have "scan_buckets up 0 now (gt_counters g) bs (False, 0) = scan_buckets up 0 now (gt_counters g') bs (False, 0)"
    if "bs = failure_buckets st sha r u" for bs by (rule scan_cong) (use assms that in auto)
  then show ?thesis by (simp add: login_admit_def enforce_failure_buckets_def)
qed

definition by_others :: "gate_settings \<Rightarrow> http_request \<Rightarrow> http_request \<Rightarrow> bool" where
  "by_others st r r' \<longleftrightarrow> rate_limit_identity (gs_trusted st) r \<noteq> rate_limit_identity (gs_trusted st) r'"

definition event_by_others :: "gate_settings \<Rightarrow> http_request \<Rightarrow> gate_answers \<times> (nat \<Rightarrow> bool) \<times> login_event \<Rightarrow> bool" where
  "event_by_others st r ev = (case ev of (an, up, Arrive r' u p) \<Rightarrow> by_others st r r' | _ \<Rightarrow> True)"

lemma step_by_others:
  assumes "\<And>s. length (sha s) = 64" "event_by_others st r ev" "\<forall>(r', u', p') \<in> set (ls_pending s). by_others st r r'"
    and "K \<in> fst ` set (failure_buckets st sha r u)"
  shows "(\<forall>(r', u', p') \<in> set (ls_pending (login_step st sha ev s)). by_others st r r') \<and>
    map_of (gt_counters (ls_gate (login_step st sha ev s))) (KEY_PREFIX @ K) = map_of (gt_counters (ls_gate s)) (KEY_PREFIX @ K)"
proof -
  obtain an up e where ev: "ev = (an, up, e)" by (rule prod_cases3)
  show ?thesis
  proof (cases e)
    case (Arrive r' u' p')
    then show ?thesis using assms(2,3) by (auto simp: login_step_def ev event_by_others_def)
  next
    case (Conclude k)
    show ?thesis
    proof (cases "k < length (ls_pending s)")
      case True
      obtain r' u' p' where q: "ls_pending s ! k = (r', u', p')" by (rule prod_cases3)
      have "by_others st r r'" using assms(3) True q by (metis (mono_tags, lifting) case_prodD nth_mem)
      then have "K \<notin> fst ` set (failure_buckets st sha r' u')" 
        using bucket_keys_disjoint [where sha = sha and st = st and r = r and r' = r' and u = u and u' = u', OF assms(1)] assms(4)
        unfolding by_others_def by blast
      then show ?thesis using True assms(3) record_other
        by (auto simp: login_step_def ev Conclude q conclude_counters dest!: in_set_takeD in_set_dropD)
    next
      case False
      then show ?thesis using assms(3) by (simp add: login_step_def ev Conclude)
    qed
  qed
qed

lemma run_by_others:
  assumes "\<And>s. length (sha s) = 64" "\<forall>ev \<in> set evs. event_by_others st r ev" "\<forall>(r', u', p') \<in> set (ls_pending s). by_others st r r'"
    and "K \<in> fst ` set (failure_buckets st sha r u)"
  shows "map_of (gt_counters (ls_gate (login_run st sha evs s))) (KEY_PREFIX @ K) = map_of (gt_counters (ls_gate s)) (KEY_PREFIX @ K)"
  using assms(2,3)
proof (induction evs arbitrary: s)
  case (Cons ev evs)
  have "event_by_others st r ev" using Cons.prems(1) by simp
  note s = conjunct1 [OF step_by_others [OF assms(1) this Cons.prems(2) assms(4)]] conjunct2 [OF step_by_others [OF assms(1) this Cons.prems(2) assms(4)]]
  from Cons.IH [OF _ s(1)] Cons.prems(1) s(2) show ?case by simp
qed simp

text \<open>
  C40: whether a login is admitted never depends on what other addresses tried: any run of login requests that count as
  other clients leaves the answer to this client, and to the correct password, as it was.
\<close>

theorem others_never_block_login:
  assumes "\<And>s. length (sha s) = 64" "\<forall>ev \<in> set evs. event_by_others st r ev"
  shows "login_admit st sha up now r u (ls_gate (login_run st sha evs (no_logins g))) = login_admit st sha up now r u g"
proof (rule admit_cong, rule ballI)
  fix K assume "K \<in> fst ` set (failure_buckets st sha r u)"
  from run_by_others [OF assms _ this, of "no_logins g"] show "map_of (gt_counters (ls_gate (login_run st sha evs (no_logins g)))) (KEY_PREFIX @ K) =
      map_of (gt_counters g) (KEY_PREFIX @ K)" by (simp add: no_logins_def)
qed


section \<open>The webhook routes\<close>

datatype hook_try = Try_dograh gate_answers "string option" "string option" http_request | Try_telephony gate_answers "string option" http_request

fun hook_try_step :: "gate_settings \<Rightarrow> entry_gate \<Rightarrow> hook_try \<Rightarrow> entry_gate" where
  "hook_try_step st g (Try_dograh an authorization api_key r) = snd (authenticate_dograh st an authorization api_key r g)"
| "hook_try_step st g (Try_telephony an secret r) = snd (authenticate_telephony st an secret r g)"

fun bad_try :: "gate_settings \<Rightarrow> hook_try \<Rightarrow> bool" where
  "bad_try st (Try_dograh an authorization api_key r) = (\<not> dograh_credential st authorization api_key)"
| "bad_try st (Try_telephony an secret r) = (\<not> (is_presented secret \<and> secret = Some (gs_telephony_secret st)))"

definition counts_failures :: "string \<Rightarrow> bool" where
  "counts_failures k \<longleftrightarrow> (\<exists>x. k = KEY_PREFIX @ ''dograh_webhook'' @ ''_authfail:'' @ x \<or> k = KEY_PREFIX @ ''telephony_webhook'' @ ''_authfail:'' @ x)"

lemma throttle_counters:
  "gt_counters (snd (throttle_failed_webhook_auth st an r prefix g)) = (if ga_redis an
     then snd (atomic_incr (ga_now an) (KEY_PREFIX @ prefix @ ''_authfail:'' @ rate_limit_identity (gs_trusted st) r) WINDOW_SECONDS (gt_counters g))
     else gt_counters g)"
  unfolding throttle_failed_webhook_auth_def record_failure_key_def by (simp split: prod.split)

lemma refuse_counters:
  assumes "\<not> counts_failures k" "prefix \<in> {''dograh_webhook'', ''telephony_webhook''}"
  shows "map_of (gt_counters (snd (refuse_webhook st an prefix endpoint presented r g))) k = map_of (gt_counters g) k"
proof -
  define f where "f = KEY_PREFIX @ prefix @ ''_authfail:'' @ rate_limit_identity (gs_trusted st) r"
  have "k \<noteq> f" using assms unfolding counts_failures_def f_def by blast
  note other = incr_other [OF this, of "ga_now an" WINDOW_SECONDS "gt_counters g"]
  have "map_of (gt_counters (snd (throttle_failed_webhook_auth st an r prefix g1))) k = map_of (gt_counters g) k" if "gt_counters g1 = gt_counters g" for g1
    unfolding throttle_counters that f_def [symmetric] using other by (simp only: if_cancel split: if_split) simp
  then show ?thesis by (simp add: refuse_webhook_def Let_def split: prod.split option.split) (metis event_counters snd_conv)
qed

lemma bad_tries_counters:
  assumes "\<not> counts_failures k"
  shows "\<forall>t \<in> set tries. bad_try st t \<Longrightarrow> map_of (gt_counters (foldl (hook_try_step st) g tries)) k = map_of (gt_counters g) k"
proof (induction tries arbitrary: g)
  case (Cons t tries)
  have "map_of (gt_counters (hook_try_step st g t)) k = map_of (gt_counters g) k"
    using Cons.prems by (cases t) (auto simp: authenticate_dograh_def authenticate_telephony_def refuse_counters [OF assms])
  then show ?case using Cons by simp
qed simp

lemma incr_cong: "map_of cs k = map_of cs' k \<Longrightarrow> fst (atomic_incr now k w cs) = fst (atomic_incr now k w cs')"
  by (simp add: atomic_incr_def live_counter_def Let_def split: prod.split)

lemma check_cong:
  assumes "map_of cs (KEY_PREFIX @ k) = map_of cs' (KEY_PREFIX @ k)"
  shows "fst (check_rate_limit up now k l w fc cs) = fst (check_rate_limit up now k l w fc cs')"
  using incr_cong [OF assms, of now w] by (auto simp: check_rate_limit_def split: prod.split)

lemma ceiling_answer:
  "fst (enforce_valid_webhook_ceiling st an r prefix g) =
    (case fst (check_rate_limit (ga_redis an) (ga_now an) (prefix @ '':'' @ rate_limit_identity (gs_trusted st) r) (gs_webhook_ceiling st) WINDOW_SECONDS False (gt_counters g)) of
       Exceeded t \<Rightarrow> Some (too_many t) | _ \<Rightarrow> None)"
  by (simp add: enforce_valid_webhook_ceiling_def split: prod.split rate_answer.split)

lemma event_db: "gt_db (record_security_event an a b c i m t g) = gt_db g \<or>
    (\<exists>row. gt_db (record_security_event an a b c i m t g) = (gt_db g)\<lparr> audits := audits (gt_db g) @ [row] \<rparr>)"
  by (auto simp: record_security_event_def record_audit_event_def split: prod.split bool.split)

lemma refused_webhook:
  obtains code retry g' where "refuse_webhook st an prefix endpoint presented r g = (Some (Http code retry), g')" "code \<in> {401, 429}"
    "gt_db g' = gt_db g \<or> (\<exists>row. gt_db g' = (gt_db g)\<lparr> audits := audits (gt_db g) @ [row] \<rparr>)"
proof -
  define g1 where "g1 = record_security_event an ''webhook.auth_failed'' ''anonymous'' ''webhook'' None
           [(''endpoint'', JStr endpoint), (''credential_presented'', JBool presented), (''source_ip'', JStr (client_address (gs_trusted st) r))]
           (Some (endpoint @ '':'' @ client_address (gs_trusted st) r)) g"
  obtain e g2 where t: "throttle_failed_webhook_auth st an r prefix g1 = (e, g2)" by fastforce
  have e: "e = None \<or> (\<exists>ttl. e = Some (Http 429 ttl))" "gt_db g2 = gt_db g1"
    using t by (auto simp: throttle_failed_webhook_auth_def too_many_def split: prod.splits option.splits if_splits)
  have r: "refuse_webhook st an prefix endpoint presented r g = (case e of Some x \<Rightarrow> (Some x, g2) | None \<Rightarrow> (Some (Http 401 None), g2))"
    using t by (simp add: refuse_webhook_def Let_def g1_def split: option.split)
  have "gt_db g2 = gt_db g \<or> (\<exists>row. gt_db g2 = (gt_db g)\<lparr> audits := audits (gt_db g) @ [row] \<rparr>)"
    unfolding e(2) g1_def by (rule event_db)
  then show thesis using that e(1) r by (cases e) auto
qed

text \<open>
  C6: a completion webhook without the secret is refused with 401 or 429 and does nothing but write at most one audit row,
  also when Redis is down. One with the secret is answered as if no failed authentication had ever happened, on either route
  and from any address, and it is accepted when Redis is down.
\<close>

theorem webhook_secret_decides:
  shows "(\<not> dograh_credential st authorization api_key \<longrightarrow>
      (\<exists>code retry g'. dograh_call_completed st an w han authorization api_key r body (g, sch) = (Inl (Http code retry), None, g', sch) \<and> code \<in> {401, 429} \<and>
        (gt_db g' = gt_db g \<or> (\<exists>row. gt_db g' = (gt_db g)\<lparr> audits := audits (gt_db g) @ [row] \<rparr>)))) \<and>
    (dograh_credential st authorization api_key \<and> (\<forall>t \<in> set tries. bad_try st t) \<longrightarrow>
      fst (authenticate_dograh st an authorization api_key r (foldl (hook_try_step st) g tries)) = fst (authenticate_dograh st an authorization api_key r g) \<and>
      (\<not> ga_redis an \<longrightarrow> fst (authenticate_dograh st an authorization api_key r g) = None))"
proof (intro conjI impI; (elim conjE)?)
  assume "\<not> dograh_credential st authorization api_key"
  then show "\<exists>code retry g'. dograh_call_completed st an w han authorization api_key r body (g, sch) = (Inl (Http code retry), None, g', sch) \<and> code \<in> {401, 429} \<and>
        (gt_db g' = gt_db g \<or> (\<exists>row. gt_db g' = (gt_db g)\<lparr> audits := audits (gt_db g) @ [row] \<rparr>))"
    by (rule_tac refused_webhook [of st an "''dograh_webhook''" "''dograh''" "is_presented (bearer_token authorization) \<or> is_presented api_key" r g])
      (simp add: dograh_call_completed_def authenticate_dograh_def)
next
  assume a: "dograh_credential st authorization api_key" "\<forall>t \<in> set tries. bad_try st t"
  let ?k = "''dograh_webhook'' @ '':'' @ rate_limit_identity (gs_trusted st) r"
  have "\<not> counts_failures (KEY_PREFIX @ ?k)" unfolding counts_failures_def by simp
  note c = check_cong [OF bad_tries_counters [OF this a(2), of g]]
  show "fst (authenticate_dograh st an authorization api_key r (foldl (hook_try_step st) g tries)) = fst (authenticate_dograh st an authorization api_key r g)"
    using a(1) unfolding authenticate_dograh_def by (simp only: if_True ceiling_answer c)
next
  assume "dograh_credential st authorization api_key" "\<not> ga_redis an"
  then show "fst (authenticate_dograh st an authorization api_key r g) = None"
    by (simp add: authenticate_dograh_def ceiling_answer check_rate_limit_def)
qed

end
