(* ===== verification/Entry_Runs.thy ===== *)
theory Entry_Runs imports Entry_Safety Report_Runs begin

text \<open>
  Concrete requests: a client that guesses a password, three of its requests at the same time, and a webhook with and
  without its secret. The properties of \<open>Entry_Safety\<close> applied to them.
\<close>

definition small_gate :: gate_settings where
  "small_gate = \<lparr> gs_trusted = [], gs_login_limit = 10, gs_login_ip_ceiling = 2, gs_webhook_limit = 120, gs_webhook_ceiling = 6000,
     gs_dograh_secret = ''hook-secret'', gs_telephony_secret = ''phone-secret'', gs_admin = (''admin'', ''correct horse''),
     gs_operator = (''operator'', ''battery staple'') \<rparr>"

definition open_gate :: entry_gate where
  "open_gate = \<lparr> gt_counters = [], gt_degraded = [], gt_written = [], gt_db = empty_db \<rparr>"

definition at_time :: "instant \<Rightarrow> gate_answers" where
  "at_time t = \<lparr> ga_now = seconds t, ga_redis = True, ga_db = True, ga_request = JNull \<rparr>"

definition from_peer :: "string \<Rightarrow> http_request" where
  "from_peer peer = \<lparr> rq_peer = Some peer, rq_forwarded = None \<rparr>"

definition zero_sha :: "string \<Rightarrow> string" where
  "zero_sha s = replicate 64 CHR ''0''"

definition guess :: "gate_answers \<times> (nat \<Rightarrow> bool) \<times> login_event" where
  "guess = (at_time 1, \<lambda>_. True, Arrive (from_peer ''testclient'') ''admin'' ''guess'')"

definition answer :: "gate_answers \<times> (nat \<Rightarrow> bool) \<times> login_event" where
  "answer = (at_time 2, \<lambda>_. True, Conclude 0)"

definition client_key :: string where "client_key = ''login_fail_ip:ip:testclient''"

lemma client_bucket: "(client_key, 2) \<in> set (failure_buckets small_gate zero_sha (from_peer ''testclient'') ''admin'')"
  by code_simp

lemma one_guess:
  "map (\<lambda>i. holders small_gate zero_sha client_key (login_run small_gate zero_sha (take i [guess, answer]) (no_logins open_gate))) [0, 1, 2] = [0, 1, 0]"
  "guesses_in 0 client_key (login_run small_gate zero_sha [guess, answer] (no_logins open_gate)) = 1"
  by code_simp+

theorem login_guesses_bounded_witness:
  "guesses_in 0 client_key (login_run small_gate zero_sha [guess, answer] (no_logins open_gate)) = 1 \<and>
   int (guesses_in 0 client_key (login_run small_gate zero_sha [guess, answer] (no_logins open_gate))) \<le> 2 * (2 - 1 + int 1)"
proof -
  have t: "sorted (map event_time [guess, answer])" by (simp add: event_time_def guess_def answer_def at_time_def)
  have r: "\<forall>ev \<in> set [guess, answer]. recorded ev" by (simp add: recorded_def guess_def answer_def)
  have h: "\<forall>i \<le> length [guess, answer]. holders small_gate zero_sha client_key (login_run small_gate zero_sha (take i [guess, answer]) (no_logins open_gate)) \<le> 1"
    using one_guess(1) by (simp add: le_Suc_eq numeral_2_eq_2)
  have g: "gt_counters open_gate = []" by (simp add: open_gate_def)
  show ?thesis using login_guesses_bounded [OF t r g client_bucket _ h, of 0] one_guess(2) by simp
qed

text \<open>Counters that are read before and written after the check of the password do not see the requests in progress: three
  guesses at once against a limit of two.\<close>

lemma concurrent_guesses_exceed_limit:
  "guesses_in 0 client_key (login_run small_gate zero_sha [guess, guess, guess, answer, answer, answer] (no_logins open_gate)) = 3"
  by code_simp

definition others :: "(gate_answers \<times> (nat \<Rightarrow> bool) \<times> login_event) list" where
  "others = [(at_time 1, \<lambda>_. True, Arrive (from_peer ''elsewhere'') ''admin'' ''guess''), answer]"

theorem others_never_block_login_witness:
  "login_admit small_gate zero_sha (\<lambda>_. True) 3 (from_peer ''testclient'') ''admin'' (ls_gate (login_run small_gate zero_sha others (no_logins open_gate))) =
   login_admit small_gate zero_sha (\<lambda>_. True) 3 (from_peer ''testclient'') ''admin'' open_gate"
proof (rule others_never_block_login)
  have "rate_limit_identity [] (from_peer ''testclient'') \<noteq> rate_limit_identity [] (from_peer ''elsewhere'')" by code_simp
  then show "\<forall>ev \<in> set others. event_by_others small_gate (from_peer ''testclient'') ev"
    by (simp add: others_def answer_def event_by_others_def by_others_def small_gate_def)
qed (simp add: zero_sha_def)

theorem webhook_secret_decides_witness:
  "\<not> dograh_credential small_gate None (Some ''guess'') \<and> dograh_credential small_gate None (Some ''hook-secret'') \<and>
   (\<exists>code retry g'. dograh_call_completed small_gate (at_time 1) dograh_env calm_answers None (Some ''guess'') (from_peer ''testclient'') None (open_gate, []) =
      (Inl (Http code retry), None, g', []) \<and> code \<in> {401, 429}) \<and>
   fst (authenticate_dograh small_gate (at_time 2) None (Some ''hook-secret'') (from_peer ''testclient'')
     (foldl (hook_try_step small_gate) open_gate [Try_dograh (at_time 1) None (Some ''guess'') (from_peer ''testclient'')])) =
   fst (authenticate_dograh small_gate (at_time 2) None (Some ''hook-secret'') (from_peer ''testclient'') open_gate)"
proof -
  have c: "\<not> dograh_credential small_gate None (Some ''guess'')" "dograh_credential small_gate None (Some ''hook-secret'')" by code_simp+
  show ?thesis using webhook_secret_decides [of small_gate None "Some ''guess''" "at_time 1" dograh_env calm_answers "from_peer ''testclient''" None open_gate "[]"]
      webhook_secret_decides [of small_gate None "Some ''hook-secret''" "at_time 2" dograh_env calm_answers "from_peer ''testclient''" None open_gate "[]"
        "[Try_dograh (at_time 1) None (Some ''guess'') (from_peer ''testclient'')]"] c by auto
qed

end
