(* ===== verification/Transcript_Fetch.thy ===== *)
theory Transcript_Fetch imports Ip_Address Transcripts begin

text \<open>
  \<open>app/services/telephony/transcript_fetch.py\<close>: the download of a transcript from an address that somebody else chose.
  \<open>urllib.parse.urlsplit\<close> is written out for 8-bit text. The name service (\<open>dns\<close>), the HTTP client (\<open>http\<close>) and the JSON
  parser (\<open>json\<close>) are arguments; the requests sent are part of the result.
\<close>

section \<open>URLs\<close>

definition before :: "char \<Rightarrow> string \<Rightarrow> string" where "before d s = takeWhile (\<lambda>c. c \<noteq> d) s"
definition after :: "char \<Rightarrow> string \<Rightarrow> string" where "after d s = drop 1 (dropWhile (\<lambda>c. c \<noteq> d) s)"

definition is_alpha :: "char \<Rightarrow> bool" where
  "is_alpha c = (let n = of_char c :: nat in 65 \<le> n \<and> n \<le> 90 \<or> 97 \<le> n \<and> n \<le> 122)"

definition scheme_char :: "char \<Rightarrow> bool" where
  "scheme_char c \<longleftrightarrow> is_alpha c \<or> py_digit c \<or> c \<in> set ''+-.''"

record split_url =
  su_scheme :: string
  su_netloc :: string
  su_path :: string
  su_query :: string

text \<open>The check of a host in brackets: \<open>v\<close>, hexadecimal digits, a dot and something, or an IPv6 address.\<close>

definition bracketed_host_ok :: "string \<Rightarrow> bool" where
  "bracketed_host_ok h =
    (if take 1 h = ''v''
     then (let r = drop 1 h; x = takeWhile (\<lambda>c. case digit_of c of Some k \<Rightarrow> k < 16 | None \<Rightarrow> False) r; y = drop (length x) r
           in x \<noteq> [] \<and> take 1 y = ''.'' \<and> length y > 1)
     else (case ip_address h of Some (V6 n sc) \<Rightarrow> True | _ \<Rightarrow> False))"

text \<open>\<open>None\<close> is a \<open>ValueError\<close>.\<close>

definition urlsplit :: "string \<Rightarrow> split_url option" where
  "urlsplit url =
    (let u = filter (\<lambda>c. c \<notin> {CHR 0x09, CHR 0x0A, CHR 0x0D}) (dropWhile (\<lambda>c. of_char c \<le> (32 :: nat)) url);
         s = before CHR '':'' u;
         has = (s \<noteq> u \<and> s \<noteq> [] \<and> is_alpha (hd s) \<and> list_all scheme_char s);
         r = (if has then after CHR '':'' u else u);
         here = (take 2 r = ''//'');
         netloc = (if here then takeWhile (\<lambda>c. c \<notin> set ''/?#'') (drop 2 r) else []);
         r1 = (if here then dropWhile (\<lambda>c. c \<notin> set ''/?#'') (drop 2 r) else r);
         r2 = before CHR ''#'' r1
     in if (CHR ''['' \<in> set netloc) \<noteq> (CHR '']'' \<in> set netloc) then None
        else if CHR ''['' \<in> set netloc \<and> \<not> bracketed_host_ok (before CHR '']'' (after CHR ''['' netloc)) then None
        else Some \<lparr> su_scheme = (if has then map lower_char s else []), su_netloc = netloc, su_path = before CHR ''?'' r2, su_query = after CHR ''?'' r2 \<rparr>)"

definition host_and_port :: "string \<Rightarrow> string \<times> string" where
  "host_and_port netloc =
    (let info = rev (before CHR ''@'' (rev netloc)) in
     if CHR ''['' \<in> set info
     then (let b = after CHR ''['' info in (before CHR '']'' b, after CHR '':'' (after CHR '']'' b)))
     else (before CHR '':'' info, after CHR '':'' info))"

definition url_hostname :: "split_url \<Rightarrow> string option" where
  "url_hostname u =
    (let h = fst (host_and_port (su_netloc u)) in
     if h = [] then None else Some (map lower_char (before CHR 0x25 h) @ drop (length (before CHR 0x25 h)) h))"

text \<open>\<open>None\<close> is a \<open>ValueError\<close>, \<open>Some None\<close> no port.\<close>

definition url_port :: "split_url \<Rightarrow> nat option option" where
  "url_port u =
    (let p = snd (host_and_port (su_netloc u)) in
     if p = [] then Some None
     else if py_digits p \<and> digits_value p \<le> 65535 then Some (Some (nat (digits_value p))) else None)"

section \<open>Addresses\<close>

definition v4n :: "nat list \<Rightarrow> nat" where "v4n ds = of_digits 256 (ds @ replicate (4 - length ds) 0)"
definition v6n :: "nat list \<Rightarrow> nat" where "v6n hs = of_digits 65536 (hs @ replicate (8 - length hs) 0)"

definition private_v4 :: "network list" where
  "private_v4 = [Net4 (v4n [0]) 8, Net4 (v4n [10]) 8, Net4 (v4n [127]) 8, Net4 (v4n [169, 254]) 16, Net4 (v4n [172, 16]) 12, Net4 (v4n [192, 0, 0]) 24,
     Net4 (v4n [192, 0, 0, 170]) 31, Net4 (v4n [192, 0, 2]) 24, Net4 (v4n [192, 168]) 16, Net4 (v4n [198, 18]) 15, Net4 (v4n [198, 51, 100]) 24,
     Net4 (v4n [203, 0, 113]) 24, Net4 (v4n [240]) 4, Net4 (v4n [255, 255, 255, 255]) 32]"

definition private_v4_exceptions :: "network list" where
  "private_v4_exceptions = [Net4 (v4n [192, 0, 0, 9]) 32, Net4 (v4n [192, 0, 0, 10]) 32]"

definition private_v6 :: "network list" where
  "private_v6 = [Net6 1 128, Net6 0 128, Net6 (v6n [0, 0, 0, 0, 0, 65535]) 96, Net6 (v6n [0x64, 0xFF9B, 1]) 48, Net6 (v6n [0x100]) 64,
     Net6 (v6n [0x2001]) 23, Net6 (v6n [0x2001, 0xDB8]) 32, Net6 (v6n [0x2002]) 16, Net6 (v6n [0xFC00]) 7, Net6 (v6n [0xFE80]) 10]"

definition private_v6_exceptions :: "network list" where
  "private_v6_exceptions = [Net6 (v6n [0x2001, 1, 0, 0, 0, 0, 0, 1]) 128, Net6 (v6n [0x2001, 1, 0, 0, 0, 0, 0, 2]) 128, Net6 (v6n [0x2001, 3]) 32,
     Net6 (v6n [0x2001, 4, 0x112]) 48, Net6 (v6n [0x2001, 0x20]) 28, Net6 (v6n [0x2001, 0x30]) 28]"

definition reserved_v6 :: "network list" where
  "reserved_v6 = [Net6 0 8, Net6 (v6n [0x100]) 8, Net6 (v6n [0x200]) 7, Net6 (v6n [0x400]) 6, Net6 (v6n [0x800]) 5, Net6 (v6n [0x1000]) 4,
     Net6 (v6n [0x4000]) 3, Net6 (v6n [0x6000]) 3, Net6 (v6n [0x8000]) 3, Net6 (v6n [0xA000]) 3, Net6 (v6n [0xC000]) 3, Net6 (v6n [0xE000]) 4,
     Net6 (v6n [0xF000]) 5, Net6 (v6n [0xF800]) 6, Net6 (v6n [0xFE00]) 9]"

definition in_nets :: "ip \<Rightarrow> network list \<Rightarrow> bool" where
  "in_nets a nets = list_ex (ip_in a) nets"

text \<open>Loopback, link-local, unspecified, multicast or reserved.\<close>

fun never_allowed :: "ip \<Rightarrow> bool" where
  "never_allowed (V4 n) = (in_nets (V4 n) [Net4 (v4n [127]) 8, Net4 (v4n [169, 254]) 16, Net4 (v4n [224]) 4, Net4 (v4n [240]) 4] \<or> n = 0)"
| "never_allowed (V6 n sc) = (n = 1 \<or> n = 0 \<or> in_nets (V6 n sc) [Net6 (v6n [0xFE80]) 10, Net6 (v6n [0xFF00]) 8] \<or> in_nets (V6 n sc) reserved_v6)"

fun is_global :: "ip \<Rightarrow> bool" where
  "is_global (V4 n) = (\<not> in_nets (V4 n) [Net4 (v4n [100, 64]) 10] \<and> \<not> (in_nets (V4 n) private_v4 \<and> \<not> in_nets (V4 n) private_v4_exceptions))"
| "is_global (V6 n sc) = (\<not> (in_nets (V6 n sc) private_v6 \<and> \<not> in_nets (V6 n sc) private_v6_exceptions))"

definition unmapped :: "ip \<Rightarrow> ip" where
  "unmapped a = (case a of V6 n sc \<Rightarrow> if n div 2 ^ 32 = 65535 then V4 (n mod 2 ^ 32) else a | V4 n \<Rightarrow> a)"

definition allowed_ip :: "ip \<Rightarrow> bool \<Rightarrow> bool" where
  "allowed_ip a trusted = (let b = unmapped a in \<not> never_allowed b \<and> (trusted \<or> is_global b))"

section \<open>The target\<close>

record fetch_settings =
  fs_production :: bool
  fs_base_url :: string
  fs_extra_hosts :: "string list"
  fs_max_bytes :: nat
  fs_max_lines :: nat

text \<open>The answer of the name service: an \<open>OSError\<close>, the \<open>UnicodeError\<close> of a name that has no IDNA form, or addresses.\<close>

datatype dns_answer = Dns_error | Dns_unicode_error | Dns_addresses "ip list"

record fetch_target =
  ft_scheme :: string
  ft_host :: string
  ft_port :: nat
  ft_ip :: ip
  ft_path :: string

text \<open>\<open>Raised\<close> is an exception that the function lets through.\<close>

datatype target_result = Blocked | Raised | Target fetch_target

definition default_port :: "string \<Rightarrow> nat" where
  "default_port scheme = (if scheme = ''https'' then 443 else 80)"

definition is_trusted_host :: "fetch_settings \<Rightarrow> split_url \<Rightarrow> string \<Rightarrow> bool" where
  "is_trusted_host st base host \<longleftrightarrow> url_hostname base = Some host \<or> host \<in> set (fs_extra_hosts st)"

definition resolve_target :: "fetch_settings \<Rightarrow> (string \<Rightarrow> nat \<Rightarrow> dns_answer) \<Rightarrow> string \<Rightarrow> target_result" where
  "resolve_target st dns url =
    (case urlsplit url of
       None \<Rightarrow> Blocked
     | Some u \<Rightarrow>
        (case (url_port u, url_hostname u) of
           (None, _) \<Rightarrow> Blocked
         | (_, None) \<Rightarrow> Blocked
         | (Some given, Some host) \<Rightarrow>
            let scheme = map lower_char (su_scheme u) in
            if scheme \<notin> (if fs_production st then {''https''} else {''https'', ''http''}) then Blocked
            else if CHR ''@'' \<in> set (su_netloc u) then Blocked
            else (case urlsplit (fs_base_url st) of
               None \<Rightarrow> Raised
             | Some base \<Rightarrow>
                let trusted = is_trusted_host st base host;
                    port = (case given of Some p \<Rightarrow> p | None \<Rightarrow> default_port scheme)
                in if given \<noteq> None \<and> \<not> trusted \<and> port \<noteq> default_port scheme then Blocked
                   else (case dns host port of
                      Dns_error \<Rightarrow> Blocked
                    | Dns_unicode_error \<Rightarrow> Raised
                    | Dns_addresses addresses \<Rightarrow>
                        (case addresses of
                           [] \<Rightarrow> Blocked
                         | a # _ \<Rightarrow> if \<not> list_all (\<lambda>b. allowed_ip b trusted) addresses then Blocked
                             else Target \<lparr> ft_scheme = scheme, ft_host = host, ft_port = port, ft_ip = a,
                               ft_path = (if su_path u = [] then ''/'' else su_path u) @ (if su_query u = [] then [] else ''?'' @ su_query u) \<rparr>)))))"

section \<open>The download\<close>

record http_get =
  hg_scheme :: string
  hg_address :: string
  hg_port :: nat
  hg_path :: string
  hg_host_header :: string
  hg_sni :: "string option"

text \<open>A reply: status, content type, content length, the chunks of the body (each with: the deadline has passed), and
  whether the transport fails after them.\<close>

datatype http_reply = Transport_error | Reply nat "string option" string "(string \<times> bool) list" bool

definition is_json_content_type :: "string option \<Rightarrow> bool" where
  "is_json_content_type header =
    (let media = map lower_char (py_strip (before CHR '';'' (case header of None \<Rightarrow> [] | Some h \<Rightarrow> h))) in
     media \<in> {''application/json'', ''text/json'', ''text/plain'', ''application/octet-stream''} \<or>
     (length media \<ge> 5 \<and> drop (length media - 5) media = ''+json''))"

definition request_of :: "fetch_target \<Rightarrow> http_get" where
  "request_of t =
    (let ip = ip_text (ft_ip t) in
     \<lparr> hg_scheme = ft_scheme t, hg_address = (if CHR '':'' \<in> set ip then ''['' @ ip @ '']'' else ip), hg_port = ft_port t, hg_path = ft_path t,
       hg_host_header = (if ft_port t = default_port (ft_scheme t) then ft_host t else ft_host t @ '':'' @ decimal (ft_port t)),
       hg_sni = (if ft_scheme t = ''https'' then Some (ft_host t) else None) \<rparr>)"

fun read_body :: "nat \<Rightarrow> string \<Rightarrow> (string \<times> bool) list \<Rightarrow> bool \<Rightarrow> string + string" where
  "read_body max_bytes body [] broken = (if broken then Inl ''network_error'' else Inr body)"
| "read_body max_bytes body ((chunk, late) # rest) broken =
    (if length (body @ chunk) > max_bytes then Inl ''too_large''
     else if late then Inl ''deadline''
     else read_body max_bytes (body @ chunk) rest broken)"

definition fetch_body :: "fetch_settings \<Rightarrow> (http_get \<Rightarrow> http_reply) \<Rightarrow> fetch_target \<Rightarrow> string + string" where
  "fetch_body st http t =
    (case http (request_of t) of
       Transport_error \<Rightarrow> Inl ''network_error''
     | Reply status content_type content_length chunks broken \<Rightarrow>
        if status \<noteq> 200 then Inl ''http_status''
        else if \<not> is_json_content_type content_type then Inl ''content_type''
        else if py_digits content_length \<and> digits_value content_length > int (fs_max_bytes st) then Inl ''too_large''
        else read_body (fs_max_bytes st) [] chunks broken)"

text \<open>The result (\<open>None\<close>: an exception) and the requests sent.\<close>

definition fetch_transcript :: "fetch_settings \<Rightarrow> (string \<Rightarrow> nat \<Rightarrow> dns_answer) \<Rightarrow> (http_get \<Rightarrow> http_reply) \<Rightarrow> (string \<Rightarrow> jval option) \<Rightarrow> string \<Rightarrow>
    transcript_result option \<times> http_get list" where
  "fetch_transcript st dns http json url =
    (case resolve_target st dns url of
       Raised \<Rightarrow> (None, [])
     | Blocked \<Rightarrow> (Some (unavailable ''url_blocked''), [])
     | Target t \<Rightarrow> (Some
        (case fetch_body st http t of
           Inl reason \<Rightarrow> unavailable reason
         | Inr body \<Rightarrow>
            (case json body of
               None \<Rightarrow> unavailable ''invalid_json''
             | Some (JList items) \<Rightarrow>
                (let objects = concat (map (\<lambda>v. case v of JObj o1 \<Rightarrow> [o1] | _ \<Rightarrow> []) items);
                     picked = take (fs_max_lines st) objects
                 in if picked = [] then \<lparr> tr_kind = TK_EMPTY, tr_lines = [], tr_reason = None \<rparr>
                    else \<lparr> tr_kind = TK_OK, tr_lines = picked, tr_reason = None \<rparr>)
             | Some _ \<Rightarrow> unavailable ''unexpected_shape'')), [request_of t]))"

section \<open>Where a download can go\<close>

lemma replicate_few: "replicate 2 x = [x, x]" "replicate 3 x = [x, x, x]" "replicate 4 x = [x, x, x, x]" "replicate 5 x = [x, x, x, x, x]"
  "replicate 6 x = [x, x, x, x, x, x]" "replicate 7 x = [x, x, x, x, x, x, x]"
  by (simp_all add: numeral_eq_Suc)

lemmas network_values = v4n_def v6n_def of_digits_def masked_def replicate_few

lemma masked_masked: "p \<le> q \<Longrightarrow> q \<le> w \<Longrightarrow> masked w p (masked w q n) = masked w p n"
proof -
  assume a: "p \<le> q" "q \<le> w"
  then have e: "2 ^ (w - p) = (2 ^ (w - q) * 2 ^ (q - p) :: nat)" by (simp flip: power_add)
  show ?thesis unfolding masked_def e by (simp add: div_mult2_eq)
qed

text \<open>Networks that are not for an untrusted host: the private IPv4 ranges, the carrier range and unique local IPv6.\<close>

definition internal_networks :: "network list" where
  "internal_networks = [Net4 (v4n [10]) 8, Net4 (v4n [172, 16]) 12, Net4 (v4n [192, 168]) 16, Net4 (v4n [100, 64]) 10, Net6 (v6n [0xFC00]) 7]"

text \<open>Networks that are for no host: this host, and the link with the metadata service of a cloud.\<close>

definition local_networks :: "network list" where
  "local_networks = [Net4 (v4n [127]) 8, Net4 (v4n [169, 254]) 16, Net4 0 32, Net6 1 128, Net6 0 128, Net6 (v6n [0xFE80]) 10]"

lemma masked_full: "masked w w n = n"
  by (simp add: masked_def)

lemma v4_not_exception: "masked 32 p n = a \<Longrightarrow> masked 32 p (v4n [192, 0, 0, 9]) \<noteq> a \<Longrightarrow> masked 32 p (v4n [192, 0, 0, 10]) \<noteq> a \<Longrightarrow>
    \<not> in_nets (V4 n) private_v4_exceptions"
  by (auto simp: in_nets_def private_v4_exceptions_def masked_full)

lemma v6_not_exception:
  assumes "masked 128 7 n = v6n [0xFC00]"
  shows "\<not> in_nets (V6 n sc) private_v6_exceptions"
proof
  assume "in_nets (V6 n sc) private_v6_exceptions"
  then have "\<exists>(q, m) \<in> set [(128, [0x2001, 1, 0, 0, 0, 0, 0, 1]), (128, [0x2001, 1, 0, 0, 0, 0, 0, 2]), (32, [0x2001, 3]), (48, [0x2001, 4, 0x112]),
      (28, [0x2001, 0x20]), (28, [0x2001, 0x30])]. masked 128 q n = v6n m"
    by (simp add: in_nets_def private_v6_exceptions_def)
  then obtain q m where q: "(q, m) \<in> set [(128, [0x2001, 1, 0, 0, 0, 0, 0, 1]), (128, [0x2001, 1, 0, 0, 0, 0, 0, 2]), (32, [0x2001, 3]), (48, [0x2001, 4, 0x112]),
      (28, [0x2001, 0x20]), (28, [0x2001, 0x30])]" "masked 128 q n = v6n m" by blast
  have "7 \<le> q" "q \<le> 128" using q(1) by auto
  then have "masked 128 7 (v6n m) = v6n [0xFC00]" using masked_masked [of 7 q 128 n] q(2) assms by simp
  then show False using q(1) by (auto simp: network_values)
qed

lemma allowed_not_local: "allowed_ip b trusted \<Longrightarrow> net \<in> set local_networks \<Longrightarrow> \<not> ip_in (unmapped b) net"
  by (cases "unmapped b") (auto simp: allowed_ip_def Let_def local_networks_def in_nets_def masked_full)

lemma allowed_not_internal: "allowed_ip b False \<Longrightarrow> net \<in> set internal_networks \<Longrightarrow> \<not> ip_in (unmapped b) net"
proof
  assume a: "allowed_ip b False" "net \<in> set internal_networks" "ip_in (unmapped b) net"
  then have g: "is_global (unmapped b)" by (simp add: allowed_ip_def Let_def)
  show False
  proof (cases "unmapped b")
    case (V4 n)
    have v: "masked 32 8 (v4n [192, 0, 0, 9]) \<noteq> v4n [10]" "masked 32 8 (v4n [192, 0, 0, 10]) \<noteq> v4n [10]"
      "masked 32 12 (v4n [192, 0, 0, 9]) \<noteq> v4n [172, 16]" "masked 32 12 (v4n [192, 0, 0, 10]) \<noteq> v4n [172, 16]"
      "masked 32 16 (v4n [192, 0, 0, 9]) \<noteq> v4n [192, 168]" "masked 32 16 (v4n [192, 0, 0, 10]) \<noteq> v4n [192, 168]"
      by (simp_all add: network_values)
    have "\<not> in_nets (V4 n) private_v4_exceptions" if "masked 32 8 n = v4n [10] \<or> masked 32 12 n = v4n [172, 16] \<or> masked 32 16 n = v4n [192, 168]"
      using that v v4_not_exception by blast
    then show False using a(2,3) g V4 by (auto simp: internal_networks_def in_nets_def private_v4_def)
  next
    case (V6 n sc)
    then have "masked 128 7 n = v6n [0xFC00]" using a(2,3) by (auto simp: internal_networks_def)
    then show False using g V6 v6_not_exception [of n sc] by (auto simp: in_nets_def private_v6_def)
  qed
qed

text \<open>What a target is.\<close>

definition target_ok :: "fetch_settings \<Rightarrow> (string \<Rightarrow> nat \<Rightarrow> dns_answer) \<Rightarrow> string \<Rightarrow> fetch_target \<Rightarrow> bool" where
  "target_ok st dns url t \<longleftrightarrow> (\<exists>u base addresses.
     urlsplit url = Some u \<and> url_hostname u = Some (ft_host t) \<and> urlsplit (fs_base_url st) = Some base \<and>
     dns (ft_host t) (ft_port t) = Dns_addresses addresses \<and> ft_ip t \<in> set addresses \<and>
     (\<forall>b \<in> set addresses. \<forall>net \<in> set local_networks. \<not> ip_in (unmapped b) net) \<and>
     (\<not> is_trusted_host st base (ft_host t) \<longrightarrow> ft_port t = default_port (ft_scheme t) \<and>
        (\<forall>b \<in> set addresses. \<forall>net \<in> set internal_networks. \<not> ip_in (unmapped b) net)) \<and>
     ft_scheme t \<in> {''https'', ''http''} \<and> (fs_production st \<longrightarrow> ft_scheme t = ''https''))"

lemma resolved_target:
  assumes "resolve_target st dns url = Target t"
  shows "target_ok st dns url t"
proof -
  obtain u given host base where u: "urlsplit url = Some u" "url_port u = Some given" "url_hostname u = Some host" "urlsplit (fs_base_url st) = Some base"
    "map lower_char (su_scheme u) \<in> (if fs_production st then {''https''} else {''https'', ''http''})"
    using assms by (auto simp: resolve_target_def Let_def split: option.splits if_splits)
  let ?scheme = "map lower_char (su_scheme u)" and ?port = "case given of Some p \<Rightarrow> p | None \<Rightarrow> default_port (map lower_char (su_scheme u))"
  obtain a as where d: "dns host ?port = Dns_addresses (a # as)" "list_all (\<lambda>b. allowed_ip b (is_trusted_host st base host)) (a # as)"
    "ft_scheme t = ?scheme" "ft_host t = host" "ft_port t = ?port" "ft_ip t = a" "\<not> (given \<noteq> None \<and> \<not> is_trusted_host st base host \<and> ?port \<noteq> default_port ?scheme)"
    using assms u by (auto simp: resolve_target_def Let_def split: option.splits if_splits dns_answer.splits list.splits)
  have p: "\<not> is_trusted_host st base host \<Longrightarrow> ?port = default_port ?scheme" using d(7) by (cases given) auto
  have loc: "\<forall>b \<in> set (a # as). \<forall>net \<in> set local_networks. \<not> ip_in (unmapped b) net"
    using d(2) allowed_not_local unfolding list_all_iff by blast
  have inner: "\<not> is_trusted_host st base host \<Longrightarrow> \<forall>b \<in> set (a # as). \<forall>net \<in> set internal_networks. \<not> ip_in (unmapped b) net"
    using d(2) allowed_not_internal unfolding list_all_iff by simp
  have sch: "?scheme \<in> {''https'', ''http''}" "fs_production st \<longrightarrow> ?scheme = ''https''" using u(5) by (auto split: if_splits)
  show ?thesis unfolding target_ok_def d(3-6)
    by (intro exI [of _ u] exI [of _ base] exI [of _ "a # as"] conjI impI) (use u d(1) p loc inner sch in auto)
qed

lemma read_body_bounded: "read_body m body chunks broken = Inr b \<Longrightarrow> length body \<le> m \<Longrightarrow> length b \<le> m"
  by (induction m body chunks broken rule: read_body.induct) (auto split: if_splits)

text \<open>
  C5: whatever address is asked for, at most one request is sent, to an address that the one lookup of its host gave, none of
  which is this host or link-local, and, unless the host is a configured one, none in a private network and the port is the
  scheme's; in production only over https. A redirect or any other status but 200 is not followed, and what is kept is within
  the limits.
\<close>

theorem transcript_fetch_contained:
  assumes "fetch_transcript st dns http json url = (res, requests)"
  shows "length requests \<le> 1 \<and> (\<forall>q \<in> set requests. \<exists>t. q = request_of t \<and> target_ok st dns url t) \<and>
    (\<forall>r. res = Some r \<longrightarrow> length (tr_lines r) \<le> fs_max_lines st \<and>
      (tr_kind r \<noteq> TK_UNAVAILABLE \<longrightarrow> (\<exists>t content_type content_length chunks body. requests = [request_of t] \<and>
         http (request_of t) = Reply 200 content_type content_length chunks False \<and> body = concat (map fst chunks) \<and>
         length body \<le> fs_max_bytes st \<and> json body \<noteq> None)))"
proof -
  have body: "read_body m b chunks broken = Inr x \<Longrightarrow> \<not> broken \<and> x = b @ concat (map fst chunks)" for m b chunks broken x
    by (induction m b chunks broken rule: read_body.induct) (auto split: if_splits)
  show ?thesis
  proof (cases "resolve_target st dns url")
    case (Target t)
    have req: "requests = [request_of t]" using assms by (simp add: fetch_transcript_def Target)
    have kept: "length (tr_lines r) \<le> fs_max_lines st" if "res = Some r" for r
      using assms that by (auto simp: fetch_transcript_def Target unavailable_def Let_def split: sum.splits option.splits jval.splits if_splits)
    have used: "\<exists>b. fetch_body st http t = Inr b \<and> json b \<noteq> None" if "res = Some r" "tr_kind r \<noteq> TK_UNAVAILABLE" for r
      using assms that by (auto simp: fetch_transcript_def Target unavailable_def Let_def split: sum.splits option.splits jval.splits if_splits)
    have reply: "\<exists>ct cl chunks. http (request_of t) = Reply 200 ct cl chunks False \<and> b = concat (map fst chunks) \<and> length b \<le> fs_max_bytes st"
      if f: "fetch_body st http t = Inr b" for b
    proof -
      obtain ct cl chunks broken where h: "http (request_of t) = Reply 200 ct cl chunks broken" "read_body (fs_max_bytes st) [] chunks broken = Inr b"
        using f by (auto simp: fetch_body_def split: http_reply.splits if_splits)
      then show ?thesis using body [OF h(2)] read_body_bounded [OF h(2)] by auto
    qed
    show ?thesis using req kept used reply resolved_target [OF Target] by fastforce
  qed (use assms in \<open>auto simp: fetch_transcript_def unavailable_def\<close>)
qed

text \<open>A host name without an IDNA form (a label of more than 63 characters) makes the lookup raise a \<open>UnicodeError\<close>, which
  nothing catches.\<close>

lemma undecodable_host_raises:
  assumes "urlsplit url = Some u" "url_hostname u = Some host" "url_port u = Some None" "su_scheme u = ''https''" "CHR ''@'' \<notin> set (su_netloc u)"
    and "urlsplit (fs_base_url st) = Some base" "dns host 443 = Dns_unicode_error"
  shows "fetch_transcript st dns http json url = (None, [])"
proof -
  have "map lower_char ''https'' = ''https''" by code_simp
  then show ?thesis using assms by (simp add: fetch_transcript_def resolve_target_def Let_def default_port_def)
qed

section \<open>One download\<close>

definition fetch_conf :: fetch_settings where
  "fetch_conf = \<lparr> fs_production = True, fs_base_url = ''https://app.dograh.com/api'', fs_extra_hosts = [], fs_max_bytes = 100, fs_max_lines = 10 \<rparr>"

definition public_dns :: "string \<Rightarrow> nat \<Rightarrow> dns_answer" where
  "public_dns host port = Dns_addresses [V4 134744072]"

definition one_line :: "http_get \<Rightarrow> http_reply" where
  "one_line q = Reply 200 (Some ''application/json; charset=utf-8'') [] [(''[{}'', False), ('']'', False)] False"

lemma public_allowed: "allowed_ip (V4 134744072) False"
  by (simp add: allowed_ip_def unmapped_def in_nets_def private_v4_def network_values)

theorem transcript_fetch_contained_witness:
  "\<exists>r q t. fetch_transcript fetch_conf public_dns one_line (\<lambda>_. Some (JList [JObj []])) ''https://store.example.com/t.json?k=1'' = (Some r, [q]) \<and>
    tr_kind r = TK_OK \<and> q = request_of t \<and> target_ok fetch_conf public_dns ''https://store.example.com/t.json?k=1'' t"
proof -
  define u where "u = \<lparr> su_scheme = ''https'', su_netloc = ''store.example.com'', su_path = ''/t.json'', su_query = ''k=1'' \<rparr>"
  define base where "base = \<lparr> su_scheme = ''https'', su_netloc = ''app.dograh.com'', su_path = ''/api'', su_query = [] \<rparr>"
  have u: "urlsplit ''https://store.example.com/t.json?k=1'' = Some u" "urlsplit (fs_base_url fetch_conf) = Some base"
    "url_hostname u = Some ''store.example.com''" "url_port u = Some None" "map lower_char (su_scheme u) = ''https''"
    "is_trusted_host fetch_conf base ''store.example.com'' = False" "CHR ''@'' \<notin> set (su_netloc u)" "is_json_content_type (Some ''application/json; charset=utf-8'')"
    unfolding u_def base_def by code_simp+
  obtain t where t: "resolve_target fetch_conf public_dns ''https://store.example.com/t.json?k=1'' = Target t"
    using u public_allowed by (simp add: resolve_target_def Let_def public_dns_def fetch_conf_def)
  have "fetch_body fetch_conf one_line t = Inr ''[{}]''" using u(8) by (simp add: fetch_body_def one_line_def py_digits_def fetch_conf_def)
  then obtain r where f: "fetch_transcript fetch_conf public_dns one_line (\<lambda>_. Some (JList [JObj []])) ''https://store.example.com/t.json?k=1'' = (Some r, [request_of t])"
    "tr_kind r = TK_OK" using t by (simp add: fetch_transcript_def fetch_conf_def Let_def)
  from transcript_fetch_contained [OF f(1)] f show ?thesis by auto
qed

end
