(* ===== verification/Csv_Text.thy ===== *)
theory Csv_Text imports Prelude begin

text \<open>
  What \<open>csv.writer\<close> and \<open>csv.DictReader\<close> of the standard library do in their default dialect, as
  \<open>app/services/dnc_copy.py\<close> uses them: fields are quoted when they have to be, a quote is doubled, a row ends with
  CR LF. The reader is its state machine over the characters; blank rows are skipped. A row of one empty field
  (which the writer would quote) is not written by the code.
\<close>

section \<open>Writing\<close>

abbreviation "DQUOTE \<equiv> CHR 0x22"
abbreviation "COMMA \<equiv> CHR 0x2C"
abbreviation "CR \<equiv> CHR 0x0D"
abbreviation "LF \<equiv> CHR 0x0A"

definition csv_special :: "char \<Rightarrow> bool" where
  "csv_special c \<longleftrightarrow> c = COMMA \<or> c = DQUOTE \<or> c = CR \<or> c = LF"

definition csv_double :: "string \<Rightarrow> string" where
  "csv_double x = concat (map (\<lambda>c. if c = DQUOTE then [DQUOTE, DQUOTE] else [c]) x)"

definition csv_field :: "string \<Rightarrow> string" where
  "csv_field x = (if list_ex csv_special x then DQUOTE # csv_double x @ [DQUOTE] else x)"

fun csv_row :: "string list \<Rightarrow> string" where
  "csv_row [] = [CR, LF]"
| "csv_row [x] = csv_field x @ [CR, LF]"
| "csv_row (x # y # rest) = csv_field x @ COMMA # csv_row (y # rest)"

definition csv_text :: "string list list \<Rightarrow> string" where
  "csv_text rows = concat (map csv_row rows)"

section \<open>Reading\<close>

datatype csv_state = Start_record | After_cr | Start_field | In_field | In_quoted | Quote_in_quoted

type_synonym csv_scanner = "csv_state \<times> string \<times> string list"

text \<open>One character: the next state and the rows it completes.\<close>

definition csv_plain :: "char \<Rightarrow> string \<Rightarrow> string list \<Rightarrow> csv_scanner \<times> string list list" where
  "csv_plain c f fs =
    (if c = CR then ((After_cr, [], []), [fs @ [f]])
     else if c = LF then ((Start_record, [], []), [fs @ [f]])
     else if c = COMMA then ((Start_field, [], fs @ [f]), [])
     else ((In_field, f @ [c], fs), []))"

definition csv_start :: "char \<Rightarrow> csv_scanner \<times> string list list" where
  "csv_start c =
    (if c = CR then ((After_cr, [], []), [[]])
     else if c = LF then ((Start_record, [], []), [[]])
     else if c = DQUOTE then ((In_quoted, [], []), [])
     else csv_plain c [] [])"

fun csv_char :: "char \<Rightarrow> csv_scanner \<Rightarrow> csv_scanner \<times> string list list" where
  "csv_char c (Start_record, f, fs) = csv_start c"
| "csv_char c (After_cr, f, fs) = (if c = LF then ((Start_record, [], []), []) else csv_start c)"
| "csv_char c (Start_field, f, fs) = (if c = DQUOTE then ((In_quoted, f, fs), []) else csv_plain c f fs)"
| "csv_char c (In_field, f, fs) = csv_plain c f fs"
| "csv_char c (In_quoted, f, fs) = (if c = DQUOTE then ((Quote_in_quoted, f, fs), []) else ((In_quoted, f @ [c], fs), []))"
| "csv_char c (Quote_in_quoted, f, fs) = (if c = DQUOTE then ((In_quoted, f @ [c], fs), []) else csv_plain c f fs)"

fun csv_scan :: "csv_scanner \<Rightarrow> string \<Rightarrow> string list list" where
  "csv_scan (st, f, fs) [] = (if st = Start_record \<or> st = After_cr then [] else [fs @ [f]])"
| "csv_scan s (c # cs) = (case csv_char c s of (s', out) \<Rightarrow> out @ csv_scan s' cs)"

definition csv_rows :: "string \<Rightarrow> string list list" where
  "csv_rows text = csv_scan (Start_record, [], []) text"

section \<open>What is written is read back\<close>

named_theorems scan

lemma scan_plain [scan]: "\<not> list_ex csv_special x \<Longrightarrow> csv_scan (In_field, f, fs) (x @ cs) = csv_scan (In_field, f @ x, fs) cs"
  by (induction x arbitrary: f) (simp_all add: csv_special_def csv_plain_def)

lemma scan_double [scan]: "csv_scan (In_quoted, f, fs) (csv_double x @ cs) = csv_scan (In_quoted, f @ x, fs) cs"
  by (induction x arbitrary: f) (simp_all add: csv_double_def)

lemma scan_field:
  assumes "d = COMMA \<or> d = CR"
  shows "csv_scan (Start_field, [], fs) (csv_field x @ d # cs) = (case csv_plain d x fs of (s, out) \<Rightarrow> out @ csv_scan s cs)"
proof (cases "list_ex csv_special x")
  case True
  then show ?thesis using assms by (auto simp: csv_field_def scan)
next
  case False
  show ?thesis
  proof (cases x)
    case Nil
    then show ?thesis using assms by (auto simp: csv_field_def)
  next
    case (Cons c r)
    have "csv_scan (Start_field, [], fs) (x @ d # cs) = csv_scan (In_field, [c], fs) (r @ d # cs)"
      using False by (simp add: Cons csv_special_def csv_plain_def)
    also have "\<dots> = csv_scan (In_field, x, fs) (d # cs)" using False by (simp add: scan Cons)
    finally show ?thesis using False by (simp add: csv_field_def)
  qed
qed

lemma scan_row_from_field: "xs \<noteq> [] \<Longrightarrow> csv_scan (Start_field, [], fs) (csv_row xs @ cs) = (fs @ xs) # csv_scan (Start_record, [], []) cs"
proof (induction xs arbitrary: fs rule: csv_row.induct)
  case (2 x)
  have "csv_scan (Start_field, [], fs) (csv_field x @ CR # LF # cs) = (fs @ [x]) # csv_scan (After_cr, [], []) (LF # cs)"
    by (subst scan_field) (simp_all add: csv_plain_def)
  then show ?case by simp
next
  case (3 x y rest)
  have "csv_scan (Start_field, [], fs) (csv_field x @ COMMA # csv_row (y # rest) @ cs) = csv_scan (Start_field, [], fs @ [x]) (csv_row (y # rest) @ cs)"
    by (subst scan_field) (simp_all add: csv_plain_def)
  then show ?case using 3 by simp
qed simp

lemma row_starts: "2 \<le> length xs \<Longrightarrow> \<exists>c r. csv_row xs = c # r \<and> c \<noteq> CR \<and> c \<noteq> LF"
proof (induction xs rule: csv_row.induct)
  case (3 x y rest)
  then show ?case by (cases x) (auto simp: csv_field_def csv_special_def)
qed simp_all

lemma scan_row: "2 \<le> length xs \<Longrightarrow> csv_scan (Start_record, [], []) (csv_row xs @ cs) = xs # csv_scan (Start_record, [], []) cs"
proof -
  assume len: "2 \<le> length xs"
  then obtain c r where c: "csv_row xs = c # r" "c \<noteq> CR" "c \<noteq> LF" using row_starts by blast
  then have "csv_scan (Start_record, [], []) (csv_row xs @ cs) = csv_scan (Start_field, [], []) (csv_row xs @ cs)" by (simp add: csv_start_def)
  then show ?thesis using scan_row_from_field [of xs "[]"] len by fastforce
qed

lemma csv_roundtrip: "\<forall>r \<in> set rows. 2 \<le> length r \<Longrightarrow> csv_rows (csv_text rows) = rows"
  by (induction rows) (simp_all add: csv_rows_def csv_text_def scan_row)

end
