(* ===== verification/Secondary_Copy.thy ===== *)
theory Secondary_Copy imports Csv_Text Erasure "HOL-Library.List_Lexorder" "HOL-Library.Char_ord" begin

text \<open>
  \<open>app/services/dnc_copy.py\<close>: the encrypted copies of the do-not-call table and of the erasure log, kept apart from
  the backups. The \<open>age\<close> program, SHA-256 and \<open>isoformat\<close> with its inverse are the fields of \<open>copy_env\<close>; a manifest is
  its record, not its JSON text. A directory maps file names to contents; the temporary names are not modelled (they
  are unlinked or renamed before the function returns).
\<close>

record copy_env =
  ce_encrypt :: "string list \<Rightarrow> string \<Rightarrow> string option"
  ce_decrypt :: "string \<Rightarrow> string \<Rightarrow> string option"
  ce_sha :: "string \<Rightarrow> string"
  ce_iso :: "instant \<Rightarrow> string"
  ce_from_iso :: "string \<Rightarrow> instant option"

datatype copy_error = Copy_error string | Copy_fault

datatype copy_kind = K_DNC | K_ERASURE

record copy_manifest =
  mf_kind :: copy_kind
  mf_artifact :: string
  mf_rows :: nat
  mf_newest :: "instant option"
  mf_size :: nat
  mf_sha :: string
  mf_recipient :: string

record copy_dir =
  cd_other :: bool
  cd_files :: "string \<Rightarrow> string option"
  cd_manifests :: "string \<Rightarrow> copy_manifest option"

record copy_row =
  cr_number :: string
  cr_source :: string
  cr_reason :: "string option"
  cr_at :: instant

record erasure_copy_row =
  ecr_fingerprint :: string
  ecr_at :: instant

fun copy_prefix :: "copy_kind \<Rightarrow> string" where
  "copy_prefix K_DNC = ''dnc''"
| "copy_prefix K_ERASURE = ''erasure''"

fun copy_fields :: "copy_kind \<Rightarrow> string list" where
  "copy_fields K_DNC = [''phone_number'', ''source'', ''reason'', ''created_at'']"
| "copy_fields K_ERASURE = [''fingerprint'', ''created_at'']"

section \<open>Export\<close>

definition dnc_record :: "copy_env \<Rightarrow> suppression \<Rightarrow> string list \<times> instant" where
  "dnc_record ce s = ([s_number s, suppression_source_value (s_source s), (case s_reason s of None \<Rightarrow> [] | Some r \<Rightarrow> r),
     ce_iso ce (s_requested_at s)], s_requested_at s)"

definition dnc_records :: "copy_env \<Rightarrow> suppression list \<Rightarrow> (string list \<times> instant) list" where
  "dnc_records ce rows = map (dnc_record ce) (sort_key s_number rows)"

definition erasure_record :: "copy_env \<Rightarrow> erasure_row stamped \<Rightarrow> string list \<times> instant" where
  "erasure_record ce e = ([el_fingerprint (st_row e), ce_iso ce (st_at e)], st_at e)"

definition erasure_records :: "copy_env \<Rightarrow> erasure_row stamped list \<Rightarrow> (string list \<times> instant) list" where
  "erasure_records ce rows = map (erasure_record ce) (sort_key (\<lambda>e. el_fingerprint (st_row e)) (sort_key st_at rows))"

fun newest_of :: "instant option \<Rightarrow> instant list \<Rightarrow> instant option" where
  "newest_of n [] = n"
| "newest_of None (t # ts) = newest_of (Some t) ts"
| "newest_of (Some n) (t # ts) = newest_of (Some (if t > n then t else n)) ts"

definition recipient_fingerprint :: "copy_env \<Rightarrow> string list \<Rightarrow> string" where
  "recipient_fingerprint ce recipients = take 16 (ce_sha ce (concat (case recipients of [] \<Rightarrow> [] | r # rs \<Rightarrow> r # map (\<lambda>q. COMMA # q) rs)))"

definition copy_name :: "copy_kind \<Rightarrow> string \<Rightarrow> string" where
  "copy_name kind stamp = copy_prefix kind @ ''-'' @ stamp @ ''.csv.age''"

text \<open>\<open>stamp\<close> is the text of \<open>now\<close>; a failing \<open>age\<close> leaves no file.\<close>

definition export_copy :: "copy_env \<Rightarrow> copy_kind \<Rightarrow> (string list \<times> instant) list \<Rightarrow> string list \<Rightarrow> string \<Rightarrow> string \<Rightarrow> bool \<Rightarrow> copy_dir \<Rightarrow>
    copy_error + (copy_manifest \<times> copy_dir)" where
  "export_copy ce kind records recipients stamp env allow_unencrypted dir =
    (let final = copy_name kind stamp in
     if allow_unencrypted then Inl (Copy_error ''unencrypted DNC copies are not supported'')
     else if recipients = [] then Inl (Copy_error ''at least one age recipient is required'')
     else if env \<noteq> ''development'' \<and> cd_other dir then Inl (Copy_error ''destination is accessible by other'')
     else if cd_files dir final \<noteq> None then Inl (Copy_error ''already exists (refusing to overwrite)'')
     else case ce_encrypt ce recipients (csv_text (copy_fields kind # map fst records)) of
         None \<Rightarrow> Inl (Copy_error ''age failed to encrypt the export'')
       | Some content \<Rightarrow>
           let m = \<lparr> mf_kind = kind, mf_artifact = final, mf_rows = length records, mf_newest = newest_of None (map snd records),
                     mf_size = length content, mf_sha = ce_sha ce content, mf_recipient = recipient_fingerprint ce recipients \<rparr>
           in Inr (m, dir\<lparr> cd_files := (cd_files dir)(final \<mapsto> content), cd_manifests := (cd_manifests dir)(final \<mapsto> m) \<rparr>))"

section \<open>Reading back\<close>

definition over_field_limit :: "string list \<Rightarrow> bool" where
  "over_field_limit row = list_ex (\<lambda>f. int (length f) > 131072) row"

text \<open>A missing field is None, which \<open>fromisoformat\<close> refuses; \<open>None\<close> of the model is the exception.\<close>

definition parse_dnc_row :: "copy_env \<Rightarrow> string list \<Rightarrow> copy_row option" where
  "parse_dnc_row ce row = (case row of
     number # source # reason # stamp # _ \<Rightarrow>
       (case ce_from_iso ce stamp of None \<Rightarrow> None
        | Some t \<Rightarrow> Some \<lparr> cr_number = number, cr_source = source, cr_reason = (if reason = [] then None else Some reason), cr_at = t \<rparr>)
   | _ \<Rightarrow> None)"

definition parse_erasure_row :: "copy_env \<Rightarrow> string list \<Rightarrow> erasure_copy_row option" where
  "parse_erasure_row ce row = (case row of
     print # stamp # _ \<Rightarrow> (case ce_from_iso ce stamp of None \<Rightarrow> None | Some t \<Rightarrow> Some \<lparr> ecr_fingerprint = print, ecr_at = t \<rparr>)
   | _ \<Rightarrow> None)"

definition read_copy :: "copy_env \<Rightarrow> (string list \<Rightarrow> 'r option) \<Rightarrow> copy_kind \<Rightarrow> string \<Rightarrow> string \<Rightarrow> copy_dir \<Rightarrow>
    copy_error + (copy_manifest \<times> 'r list)" where
  "read_copy ce parse kind name identity dir =
    (case cd_manifests dir name of
       None \<Rightarrow> Inl (Copy_error ''manifest next to the copy is missing'')
     | Some m \<Rightarrow>
         if mf_kind m \<noteq> kind then Inl (Copy_error ''manifest is not of this kind'')
         else case cd_files dir name of
             None \<Rightarrow> Inl Copy_fault
           | Some content \<Rightarrow>
               if length content \<noteq> mf_size m \<or> ce_sha ce content \<noteq> mf_sha m then Inl (Copy_error ''CHECKSUM MISMATCH'')
               else case ce_decrypt ce identity content of
                   None \<Rightarrow> Inl (Copy_error ''age could not decrypt the copy'')
                 | Some text \<Rightarrow>
                     (case csv_rows text of
                        [] \<Rightarrow> Inl (Copy_error ''unexpected columns'')
                      | header # rest \<Rightarrow>
                          if over_field_limit header then Inl Copy_fault
                          else if header \<noteq> copy_fields kind then Inl (Copy_error ''unexpected columns'')
                          else if list_ex over_field_limit rest then Inl Copy_fault
                          else case those (map parse (filter (\<lambda>r. r \<noteq> []) rest)) of
                              None \<Rightarrow> Inl Copy_fault
                            | Some parsed \<Rightarrow>
                                if length parsed \<noteq> mf_rows m then Inl (Copy_error ''row count differs from the manifest'')
                                else Inr (m, parsed)))"

section \<open>A copy that is read is the one that was written\<close>

text \<open>What reading gives for a row of the table: an empty reason becomes none.\<close>

definition copied :: "suppression \<Rightarrow> copy_row" where
  "copied s = \<lparr> cr_number = s_number s, cr_source = suppression_source_value (s_source s),
     cr_reason = (if s_reason s = Some [] then None else s_reason s), cr_at = s_requested_at s \<rparr>"

definition copied_erasure :: "erasure_row stamped \<Rightarrow> erasure_copy_row" where
  "copied_erasure e = \<lparr> ecr_fingerprint = el_fingerprint (st_row e), ecr_at = st_at e \<rparr>"

definition faithful_copy_env :: "copy_env \<Rightarrow> string list \<Rightarrow> string \<Rightarrow> bool" where
  "faithful_copy_env ce recipients identity \<longleftrightarrow>
    (\<forall>x c. ce_encrypt ce recipients x = Some c \<longrightarrow> ce_decrypt ce identity c = Some x) \<and> (\<forall>t. ce_from_iso ce (ce_iso ce t) = Some t)"

lemma those_map: "(\<And>x. x \<in> set xs \<Longrightarrow> f x = Some (g x)) \<Longrightarrow> those (map f xs) = Some (map g xs)"
  by (induction xs) simp_all

text \<open>
  What \<open>export_copy\<close> wrote, \<open>read_copy\<close> reads back, row by row, when the identity belongs to a recipient.
\<close>

lemma copy_read_back:
  assumes "export_copy ce kind records recipients stamp env un dir = Inr (m, dir')" "faithful_copy_env ce recipients identity"
    and "\<And>r. r \<in> set records \<Longrightarrow> 2 \<le> length (fst r) \<and> \<not> over_field_limit (fst r) \<and> parse (fst r) = Some (seen r)"
  shows "read_copy ce parse kind (mf_artifact m) identity dir' = Inr (m, map seen records)"
proof -
  obtain content where c: "ce_encrypt ce recipients (csv_text (copy_fields kind # map fst records)) = Some content"
    and m: "mf_kind m = kind" "mf_rows m = length records" "mf_size m = length content" "mf_sha m = ce_sha ce content"
    and d: "cd_files dir' (mf_artifact m) = Some content" "cd_manifests dir' (mf_artifact m) = Some m"
    using assms(1) by (auto simp: export_copy_def Let_def split: if_splits option.splits)
  have dec: "ce_decrypt ce identity content = Some (csv_text (copy_fields kind # map fst records))"
    using assms(2) c by (simp add: faithful_copy_env_def)
  have f: "2 \<le> length (copy_fields kind)" "\<not> over_field_limit (copy_fields kind)" by (cases kind; simp add: over_field_limit_def)+
  have rows: "csv_rows (csv_text (copy_fields kind # map fst records)) = copy_fields kind # map fst records"
    using assms(3) f(1) by (intro csv_roundtrip) auto
  have lim: "\<not> list_ex over_field_limit (map fst records)" using assms(3) by (auto simp: list_ex_iff)
  have "filter (\<lambda>r. r \<noteq> []) (map fst records) = map fst records" using assms(3) by (fastforce intro!: filter_True)
  moreover have "those (map parse (map fst records)) = Some (map seen records)"
    using those_map [of records "\<lambda>r. parse (fst r)" seen] assms(3) by (simp add: comp_def)
  ultimately have "those (map parse (filter (\<lambda>r. r \<noteq> []) (map fst records))) = Some (map seen records)" by simp
  then show ?thesis using m d dec rows f lim by (simp add: read_copy_def)
qed

definition short_rows :: "copy_env \<Rightarrow> suppression list \<Rightarrow> bool" where
  "short_rows ce rows = list_all (\<lambda>s. \<not> over_field_limit (fst (dnc_record ce s))) rows"

lemma dnc_copy_read_back:
  assumes "export_copy ce K_DNC (dnc_records ce rows) recipients stamp env un dir = Inr (m, dir')" "faithful_copy_env ce recipients identity"
    and "short_rows ce rows"
  shows "read_copy ce (parse_dnc_row ce) K_DNC (mf_artifact m) identity dir' = Inr (m, map copied (sort_key s_number rows))"
proof -
  have row: "parse_dnc_row ce (fst (dnc_record ce s)) = Some (copied s)" for s
    using assms(2) by (auto simp: dnc_record_def parse_dnc_row_def copied_def faithful_copy_env_def split: option.splits)
  let ?seen = "\<lambda>r. the (parse_dnc_row ce (fst r))"
  have "read_copy ce (parse_dnc_row ce) K_DNC (mf_artifact m) identity dir' = Inr (m, map ?seen (dnc_records ce rows))"
    by (rule copy_read_back [OF assms(1,2)])
      (use assms(3) row in \<open>auto simp: dnc_records_def dnc_record_def short_rows_def list_all_iff\<close>)
  then show ?thesis by (simp add: dnc_records_def row comp_def)
qed

lemma erasure_copy_read_back:
  assumes "export_copy ce K_ERASURE (erasure_records ce rows) recipients stamp env un dir = Inr (m, dir')" "faithful_copy_env ce recipients identity"
    and "list_all (\<lambda>e. \<not> over_field_limit (fst (erasure_record ce e))) rows"
  shows "read_copy ce (parse_erasure_row ce) K_ERASURE (mf_artifact m) identity dir' =
    Inr (m, map copied_erasure (sort_key (\<lambda>e. el_fingerprint (st_row e)) (sort_key st_at rows)))"
proof -
  have row: "parse_erasure_row ce (fst (erasure_record ce e)) = Some (copied_erasure e)" for e
    using assms(2) by (simp add: erasure_record_def parse_erasure_row_def copied_erasure_def faithful_copy_env_def)
  let ?seen = "\<lambda>r. the (parse_erasure_row ce (fst r))"
  have "read_copy ce (parse_erasure_row ce) K_ERASURE (mf_artifact m) identity dir' = Inr (m, map ?seen (erasure_records ce rows))"
    by (rule copy_read_back [OF assms(1,2)])
      (use assms(3) row in \<open>auto simp: erasure_records_def erasure_record_def list_all_iff\<close>)
  then show ?thesis by (simp add: erasure_records_def row comp_def)
qed

text \<open>A copy whose bytes are not those the manifest describes is never applied, not even in part.\<close>

lemma damaged_copy_refused:
  assumes "cd_manifests dir name = Some m" "cd_files dir name = Some content" "length content \<noteq> mf_size m \<or> ce_sha ce content \<noteq> mf_sha m"
  shows "\<exists>e. read_copy ce parse kind name identity dir = Inl (Copy_error e)"
  using assms by (auto simp: read_copy_def)

end
