(* ===== verification/Reconcile.thy ===== *)
theory Reconcile imports Secondary_Copy begin

text \<open>
  \<open>app/scripts/reconcile_suppressions.py\<close>: after a restore, the do-not-call numbers and the erasure fingerprints of
  the secondary copies that the database lacks are added again. \<open>removals\<close> are the dated audit rows of the restored
  database; the ids of new rows come with the rows of the copy.
\<close>

definition RECONCILE_ACTOR :: string where "RECONCILE_ACTOR = ''restore_reconcile''"

section \<open>The do-not-call list\<close>

definition removal_times :: "audit_row stamped list \<Rightarrow> string \<Rightarrow> instant option" where
  "removal_times rows print =
    (let times = map st_at (filter (\<lambda>a. au_action (st_row a) = ''suppression.removed'' \<and>
           map_of (au_metadata (st_row a)) ''fingerprint'' = Some (JStr print)) rows)
     in if times = [] then None else Some (foldr max times (last times)))"

record reconcile_counts =
  rk_rows :: nat
  rk_present :: nat
  rk_skipped :: nat
  rk_would :: nat
  rk_added :: nat

definition no_counts :: reconcile_counts where
  "no_counts = \<lparr> rk_rows = 0, rk_present = 0, rk_skipped = 0, rk_would = 0, rk_added = 0 \<rparr>"

fun source_of :: "string \<Rightarrow> suppression_source" where
  "source_of v = (if v = ''agent_in_call'' then SUP_AGENT_IN_CALL else SUP_MANUAL_API)"

definition removed_since :: "'p env \<Rightarrow> (string \<Rightarrow> instant option) \<Rightarrow> string \<Rightarrow> instant \<Rightarrow> bool" where
  "removed_since w removed e164 created = (case removed (ev_fingerprint w e164) of None \<Rightarrow> False | Some t \<Rightarrow> t > created)"

definition reconcile_row :: "'p env \<Rightarrow> instant \<Rightarrow> (string \<Rightarrow> instant option) \<Rightarrow> bool \<Rightarrow> uuid \<times> copy_row \<Rightarrow> reconcile_counts \<times> db \<Rightarrow>
    reconcile_counts \<times> db" where
  "reconcile_row w now removed apply r s =
    (case r of (new_id, row) \<Rightarrow> case s of (k, d) \<Rightarrow>
      let k1 = k\<lparr> rk_rows := rk_rows k + 1 \<rparr>; e164 = canonical_number w (cr_number row) in
      if list_ex (\<lambda>s. s_number s = e164) (suppressions d) then (k1\<lparr> rk_present := rk_present k1 + 1 \<rparr>, d)
      else if removed_since w removed e164 (cr_at row) then (k1\<lparr> rk_skipped := rk_skipped k1 + 1 \<rparr>, d)
      else let k2 = k1\<lparr> rk_would := rk_would k1 + 1 \<rparr> in
        if \<not> apply then (k2, d)
        else case insert_if_absent w now new_id e164 (source_of (cr_source row)) (Some ''restore_reconcile'') None (Some RECONCILE_ACTOR) d of
          (new, d1) \<Rightarrow> (if new = None then k2 else k2\<lparr> rk_added := rk_added k2 + 1 \<rparr>, d1))"

definition counts_payload :: "reconcile_counts \<Rightarrow> payload" where
  "counts_payload k = [(''copy_rows'', JInt (int (rk_rows k))), (''already_present'', JInt (int (rk_present k))),
     (''skipped_removed'', JInt (int (rk_skipped k))), (''would_add'', JInt (int (rk_would k))), (''added'', JInt (int (rk_added k)))]"

definition reconcile :: "'p env \<Rightarrow> instant \<Rightarrow> audit_row stamped list \<Rightarrow> bool \<Rightarrow> (uuid \<times> copy_row) list \<Rightarrow> db \<Rightarrow> reconcile_counts \<times> db" where
  "reconcile w now removals apply rows d =
    (case fold (reconcile_row w now (removal_times removals) apply) rows (no_counts, d) of
      (k, d1) \<Rightarrow> (k, if apply then record_audit_event RECONCILE_ACTOR ''suppression.reconciled'' ''suppression'' None (counts_payload k) d1 else d1))"

section \<open>The erasure log\<close>

record erasure_counts =
  ek_rows :: nat
  ek_present :: nat
  ek_would :: nat
  ek_added :: nat

definition reconcile_erasure_row :: "bool \<Rightarrow> uuid \<times> erasure_copy_row \<Rightarrow> erasure_counts \<times> string set \<times> erasure_row stamped list \<Rightarrow>
    erasure_counts \<times> string set \<times> erasure_row stamped list" where
  "reconcile_erasure_row apply r s =
    (case r of (new_id, row) \<Rightarrow> case s of (k, known, entries) \<Rightarrow>
      let k1 = k\<lparr> ek_rows := ek_rows k + 1 \<rparr> in
      if ecr_fingerprint row \<in> known then (k1\<lparr> ek_present := ek_present k1 + 1 \<rparr>, known, entries)
      else let k2 = k1\<lparr> ek_would := ek_would k1 + 1 \<rparr> in
        if \<not> apply then (k2, known, entries)
        else (k2\<lparr> ek_added := ek_added k2 + 1 \<rparr>, insert (ecr_fingerprint row) known,
          entries @ [\<lparr> st_id = new_id, st_at = ecr_at row,
            st_row = \<lparr> el_id = new_id, el_fingerprint = ecr_fingerprint row, el_actor = RECONCILE_ACTOR,
                       el_reason = Some ''restored from the secondary erasure copy'', el_counts = [] \<rparr> \<rparr>]))"

definition reconcile_erasures :: "bool \<Rightarrow> (uuid \<times> erasure_copy_row) list \<Rightarrow> db \<times> erasure_row stamped list \<Rightarrow>
    erasure_counts \<times> db \<times> erasure_row stamped list" where
  "reconcile_erasures apply rows s =
    (case s of (d, entries) \<Rightarrow>
      case fold (reconcile_erasure_row apply) rows
          (\<lparr> ek_rows = 0, ek_present = 0, ek_would = 0, ek_added = 0 \<rparr>, set (map (\<lambda>e. el_fingerprint (st_row e)) entries), entries) of
        (k, known, entries1) \<Rightarrow>
          (k, if apply then record_audit_event RECONCILE_ACTOR ''erasure_log.reconciled'' ''erasure_log'' None
                [(''copy_rows'', JInt (int (ek_rows k))), (''already_present'', JInt (int (ek_present k))),
                 (''would_add'', JInt (int (ek_would k))), (''added'', JInt (int (ek_added k)))] d
              else d, entries1))"

section \<open>Only additions\<close>

lemma removal_times_Some:
  assumes "removal_times rows print = Some t"
  shows "\<exists>a \<in> set rows. au_action (st_row a) = ''suppression.removed'' \<and> map_of (au_metadata (st_row a)) ''fingerprint'' = Some (JStr print) \<and> st_at a = t"
proof -
  have "foldr max ts t \<in> insert t (set ts)" for ts :: "instant list" and t
    by (induction ts) (auto simp: max_def)
  then have in_set: "t \<in> set ts \<Longrightarrow> foldr max ts t \<in> set ts" for ts :: "instant list" and t
    by (metis insert_absorb)
  let ?ts = "map st_at (filter (\<lambda>a. au_action (st_row a) = ''suppression.removed'' \<and>
           map_of (au_metadata (st_row a)) ''fingerprint'' = Some (JStr print)) rows)"
  have ne: "?ts \<noteq> []" using assms unfolding removal_times_def Let_def by (auto simp del: map_is_Nil_conv)
  moreover have "t = foldr max ?ts (last ?ts)" using assms unfolding removal_times_def Let_def if_not_P [OF ne] by simp
  ultimately have "t \<in> set ?ts" using in_set [OF last_in_set] by blast
  then show ?thesis by auto
qed

text \<open>The rows that were there stay, in their order; \<open>P\<close> holds of the numbers of the new ones.\<close>

definition extends_list :: "(string \<Rightarrow> bool) \<Rightarrow> db \<Rightarrow> db \<Rightarrow> bool" where
  "extends_list P d d' \<longleftrightarrow> (\<exists>new. d' = d\<lparr> suppressions := suppressions d @ new \<rparr> \<and> (\<forall>s \<in> set new. P (s_number s)))"

lemma extends_refl [simp]: "extends_list P d d"
  unfolding extends_list_def by (rule exI [of _ "[]"]) simp

lemma extends_trans: "extends_list P d d1 \<Longrightarrow> extends_list P d1 d2 \<Longrightarrow> extends_list P d d2"
  unfolding extends_list_def by (elim exE conjE, rule exI) auto

lemma extends_mono: "extends_list P d d' \<Longrightarrow> (\<And>n. P n \<Longrightarrow> Q n) \<Longrightarrow> extends_list Q d d'"
  unfolding extends_list_def by blast

lemma extends_keeps: "extends_list P d d' \<Longrightarrow> is_suppressed w n d \<Longrightarrow> is_suppressed w n d'"
  by (auto simp: extends_list_def is_suppressed_def)

lemma insert_absent:
  assumes "\<not> list_ex (\<lambda>s. s_number s = n) (suppressions d)" "canonical_number w n = n"
  shows "insert_if_absent w now i n src reason None actor d =
    (Some i, d\<lparr> suppressions := suppressions d @ [\<lparr> s_id = i, s_contact = None, s_number = n, s_reason = reason, s_source = src,
       s_created_by = actor, s_requested_at = now \<rparr>] \<rparr>)"
  using assms by (simp add: insert_if_absent_def)

text \<open>The three things that can happen to a row.\<close>

lemma reconcile_row_cases:
  assumes "reconcile_row w now removed True (i, row) (k, d) = (k', d')" "\<And>n. canonical_number w (canonical_number w n) = canonical_number w n"
  obtains
    (present) "is_suppressed w (cr_number row) d" "d' = d" "k' = k\<lparr> rk_rows := rk_rows k + 1, rk_present := rk_present k + 1 \<rparr>"
  | (skipped) "removed_since w removed (canonical_number w (cr_number row)) (cr_at row)" "d' = d"
      "k' = k\<lparr> rk_rows := rk_rows k + 1, rk_skipped := rk_skipped k + 1 \<rparr>"
  | (added) s where "\<not> removed_since w removed (canonical_number w (cr_number row)) (cr_at row)" "d' = d\<lparr> suppressions := suppressions d @ [s] \<rparr>"
      "s_number s = canonical_number w (cr_number row)" "k' = k\<lparr> rk_rows := rk_rows k + 1, rk_would := rk_would k + 1, rk_added := rk_added k + 1 \<rparr>"
proof (cases "list_ex (\<lambda>s. s_number s = canonical_number w (cr_number row)) (suppressions d)")
  case True
  then show thesis using assms(1) by (intro present) (simp_all add: reconcile_row_def Let_def is_suppressed_def)
next
  case False
  show thesis
  proof (cases "removed_since w removed (canonical_number w (cr_number row)) (cr_at row)")
    case True
    then show thesis using assms(1) False by (intro skipped) (simp_all add: reconcile_row_def Let_def)
  next
    case new: False
    show thesis using assms(1) new False
      by (intro added [of "\<lparr> s_id = i, s_contact = None, s_number = canonical_number w (cr_number row), s_reason = Some ''restore_reconcile'',
            s_source = source_of (cr_source row), s_created_by = Some RECONCILE_ACTOR, s_requested_at = now \<rparr>"])
        (simp_all add: reconcile_row_def Let_def insert_absent [OF False assms(2)] del: source_of.simps)
  qed
qed

lemma extends_one: "P (s_number s) \<Longrightarrow> extends_list P d (d\<lparr> suppressions := suppressions d @ [s] \<rparr>)"
  unfolding extends_list_def by (rule exI [of _ "[s]"]) simp

lemma row_extends:
  assumes "reconcile_row w now removed True (i, row) (k, d) = (k', d')" "\<And>n. canonical_number w (canonical_number w n) = canonical_number w n"
  shows "extends_list (\<lambda>n. n = canonical_number w (cr_number row) \<and> \<not> removed_since w removed n (cr_at row)) d d'"
    "is_suppressed w (cr_number row) d' \<or> removed_since w removed (canonical_number w (cr_number row)) (cr_at row)"
    "rk_rows k' = rk_rows k + 1" "rk_rows k = rk_present k + rk_skipped k + rk_would k \<Longrightarrow> rk_rows k' = rk_present k' + rk_skipped k' + rk_would k'"
    "rk_added k = rk_would k \<Longrightarrow> rk_added k' = rk_would k'"
  by (rule reconcile_row_cases [OF assms]; simp add: extends_one is_suppressed_def)+

lemma rows_extend:
  assumes "fold (reconcile_row w now removed True) rows (k, d) = (k', d')" "\<And>n. canonical_number w (canonical_number w n) = canonical_number w n"
    and "rk_rows k = rk_present k + rk_skipped k + rk_would k" "rk_added k = rk_would k"
  shows "extends_list (\<lambda>n. \<exists>(i, row) \<in> set rows. n = canonical_number w (cr_number row) \<and> \<not> removed_since w removed n (cr_at row)) d d' \<and>
    (\<forall>(i, row) \<in> set rows. is_suppressed w (cr_number row) d' \<or> removed_since w removed (canonical_number w (cr_number row)) (cr_at row)) \<and>
    rk_rows k' = rk_rows k + length rows \<and> rk_rows k' = rk_present k' + rk_skipped k' + rk_would k' \<and> rk_added k' = rk_would k'"
  using assms(1,3,4)
proof (induction rows arbitrary: k d)
  case (Cons r rows)
  obtain i row where r: "r = (i, row)" by force
  obtain k1 d1 where 1: "reconcile_row w now removed True (i, row) (k, d) = (k1, d1)" by force
  note one = row_extends [OF 1 assms(2)]
  have IH: "extends_list (\<lambda>n. \<exists>(i, row) \<in> set rows. n = canonical_number w (cr_number row) \<and> \<not> removed_since w removed n (cr_at row)) d1 d' \<and>
      (\<forall>(i, row) \<in> set rows. is_suppressed w (cr_number row) d' \<or> removed_since w removed (canonical_number w (cr_number row)) (cr_at row)) \<and>
      rk_rows k' = rk_rows k1 + length rows \<and> rk_rows k' = rk_present k' + rk_skipped k' + rk_would k' \<and> rk_added k' = rk_would k'"
    using Cons.IH [of k1 d1] Cons.prems 1 r one(4,5) by simp
  note ext = IH [THEN conjunct1]
  let ?P = "\<lambda>n. \<exists>(i, row) \<in> set (r # rows). n = canonical_number w (cr_number row) \<and> \<not> removed_since w removed n (cr_at row)"
  have "extends_list ?P d d1" using one(1) by (rule extends_mono) (auto simp: r)
  moreover have "extends_list ?P d1 d'" using ext by (rule extends_mono) auto
  ultimately have "extends_list ?P d d'" by (rule extends_trans)
  moreover have "is_suppressed w (cr_number row) d' \<or> removed_since w removed (canonical_number w (cr_number row)) (cr_at row)"
    using one(2) extends_keeps [OF ext] by blast
  ultimately show ?case using IH one(3) unfolding r by auto
qed simp

lemma dry_row: "snd (reconcile_row w now removed False r (k, d)) = d"
  by (cases r) (simp add: reconcile_row_def Let_def)

lemma dry_rows: "snd (fold (reconcile_row w now removed False) rows (k, d)) = d"
proof (induction rows arbitrary: k)
  case (Cons r rows)
  then show ?case using dry_row [of w now removed r k d] by (cases "reconcile_row w now removed False r (k, d)") simp
qed simp

section \<open>A restore loses no opt-out\<close>

text \<open>
  Take a copy of the do-not-call table, restore any other state of the database, read the copy back and
  reconcile: every number of the table is suppressed again unless the restored audit log holds a removal of it that is newer
  than its entry. Nothing else is added, no row is changed or removed, every row of the copy is accounted for, and
  a dry run changes nothing.
\<close>

theorem restore_keeps_opt_outs:
  assumes "export_copy ce K_DNC (dnc_records ce (suppressions old)) recipients stamp e un dir = Inr (m, dir')"
    and "faithful_copy_env ce recipients identity" "short_rows ce (suppressions old)"
    and "\<And>n. canonical_number w (canonical_number w n) = canonical_number w n"
  shows "\<exists>rows. read_copy ce (parse_dnc_row ce) K_DNC (mf_artifact m) identity dir' = Inr (m, rows) \<and>
    (\<forall>ids. length ids = length rows \<longrightarrow>
      (case reconcile w now removals True (zip ids rows) d of (k, d') \<Rightarrow>
        (\<forall>s \<in> set (suppressions old). is_suppressed w (s_number s) d' \<or>
           (\<exists>a \<in> set removals. au_action (st_row a) = ''suppression.removed'' \<and> st_at a > s_requested_at s \<and>
              map_of (au_metadata (st_row a)) ''fingerprint'' = Some (JStr (ev_fingerprint w (canonical_number w (s_number s)))))) \<and>
        (\<exists>new. suppressions d' = suppressions d @ new \<and>
           (\<forall>q \<in> set new. \<exists>s \<in> set (suppressions old). s_number q = canonical_number w (s_number s))) \<and>
        contacts d' = contacts d \<and> length (audits d') = length (audits d) + 1 \<and>
        rk_rows k = length (suppressions old) \<and> rk_rows k = rk_present k + rk_skipped k + rk_added k) \<and>
      snd (reconcile w now removals False (zip ids rows) d) = d)"
proof -
  let ?rows = "map copied (sort_key s_number (suppressions old))"
  have read: "read_copy ce (parse_dnc_row ce) K_DNC (mf_artifact m) identity dir' = Inr (m, ?rows)"
    by (rule dnc_copy_read_back [OF assms(1-3)])
  show ?thesis
  proof (rule exI [of _ ?rows], intro conjI allI impI, rule read)
    fix ids :: "uuid list" assume len: "length ids = length ?rows"
    have set_rows: "(\<exists>(i, row) \<in> set (zip ids ?rows). P row) = (\<exists>s \<in> set (suppressions old). P (copied s))" for P
    proof -
      have "snd ` set (zip ids ?rows) = copied ` set (suppressions old)"
        using len by (metis list.set_map map_snd_zip set_sort)
      then show ?thesis by (metis (no_types, lifting) case_prod_beta imageE image_eqI)
    qed
    show "snd (reconcile w now removals False (zip ids ?rows) d) = d"
      using dry_rows by (simp add: reconcile_def split_def)
    obtain k d1 where f: "fold (reconcile_row w now (removal_times removals) True) (zip ids ?rows) (no_counts, d) = (k, d1)" by force
    note all = rows_extend [OF f assms(4)]
    have all: "extends_list (\<lambda>n. \<exists>(i, row) \<in> set (zip ids ?rows). n = canonical_number w (cr_number row) \<and>
          \<not> removed_since w (removal_times removals) n (cr_at row)) d d1"
        "\<forall>(i, row) \<in> set (zip ids ?rows). is_suppressed w (cr_number row) d1 \<or>
          removed_since w (removal_times removals) (canonical_number w (cr_number row)) (cr_at row)"
        "rk_rows k = length (suppressions old)" "rk_rows k = rk_present k + rk_skipped k + rk_added k"
      using all len by (auto simp: no_counts_def)
    obtain new where new: "d1 = d\<lparr> suppressions := suppressions d @ new \<rparr>"
      "\<forall>q \<in> set new. \<exists>(i, row) \<in> set (zip ids ?rows). s_number q = canonical_number w (cr_number row)"
      using all(1) unfolding extends_list_def by blast
    have each: "is_suppressed w (s_number s) d1 \<or>
        (\<exists>a \<in> set removals. au_action (st_row a) = ''suppression.removed'' \<and> st_at a > s_requested_at s \<and>
           map_of (au_metadata (st_row a)) ''fingerprint'' = Some (JStr (ev_fingerprint w (canonical_number w (s_number s)))))"
      if s: "s \<in> set (suppressions old)" for s
    proof -
      have "is_suppressed w (s_number s) d1 \<or> removed_since w (removal_times removals) (canonical_number w (s_number s)) (s_requested_at s)"
        using all(2) set_rows [of "\<lambda>row. \<not> (is_suppressed w (cr_number row) d1 \<or>
          removed_since w (removal_times removals) (canonical_number w (cr_number row)) (cr_at row))"] s
        by (auto simp: copied_def)
      then show ?thesis by (auto simp: removed_since_def split: option.splits dest!: removal_times_Some)
    qed
    have "\<forall>q \<in> set new. \<exists>s \<in> set (suppressions old). s_number q = canonical_number w (s_number s)"
    proof
      fix q assume "q \<in> set new"
      then show "\<exists>s \<in> set (suppressions old). s_number q = canonical_number w (s_number s)"
        using new(2) set_rows [of "\<lambda>row. s_number q = canonical_number w (cr_number row)"] by (simp add: copied_def)
    qed
    then show "case reconcile w now removals True (zip ids ?rows) d of (k, d') \<Rightarrow>
        (\<forall>s \<in> set (suppressions old). is_suppressed w (s_number s) d' \<or>
           (\<exists>a \<in> set removals. au_action (st_row a) = ''suppression.removed'' \<and> st_at a > s_requested_at s \<and>
              map_of (au_metadata (st_row a)) ''fingerprint'' = Some (JStr (ev_fingerprint w (canonical_number w (s_number s)))))) \<and>
        (\<exists>new. suppressions d' = suppressions d @ new \<and>
           (\<forall>q \<in> set new. \<exists>s \<in> set (suppressions old). s_number q = canonical_number w (s_number s))) \<and>
        contacts d' = contacts d \<and> length (audits d') = length (audits d) + 1 \<and>
        rk_rows k = length (suppressions old) \<and> rk_rows k = rk_present k + rk_skipped k + rk_added k"
      using each new(1) all(3,4) by (auto simp: reconcile_def f is_suppressed_def record_audit_event_def)
  qed
qed

end
