(* ===== verification/Spec2Isabelle.thy ===== *)
theory Spec2Isabelle imports Schedule_Contract Report_Runs Lifecycle_Runs Conversation_Runs QA_Contract Entry_Runs Transcript_Fetch Reconcile begin

text \<open>
  A verification library for the AI calling agent backend (\<open>src/backend/app\<close>).

  \<^bold>\<open>The program.\<close> Campaigns hold contacts. An enqueue request puts the first attempts of the due contacts into a Redis
  stream; the dialer worker reads it, asks the gate (kill switch, provider halt, budget), takes a lease, checks the
  contact, claims the attempt and sends one trigger request to the voice platform Dograh. The outcome comes back as a
  webhook (or is found by reconciliation, or a sweeper gives the call up). A call that did not succeed is retried through a
  schedule in Redis that is rebuilt from PostgreSQL. A finished call is analysed by a worker that owns its row through a
  claim token. A conversation that the backend runs itself goes through the orchestrator. Retention and erasure remove
  personal data later, and after a restore the encrypted secondary copies bring back opt-outs and erasures. Login, rate limits, client addresses and the download of transcripts guard the edges.

  \<^bold>\<open>How the model follows the code.\<close> A table is the list of its rows in \<open>db\<close> (theory \<open>Data_Model\<close>), an ORM object is a
  row and its write an update of that row; an id is a natural number given by an argument; an instant is a number of
  microseconds. Errors are \<open>Inl\<close> values or \<open>None\<close>. A Redis structure is a list or a map with its expiry times, and every
  operation is told whether Redis answers. What another process does between two statements is a function argument applied
  there. Text is 8-bit; \<open>int\<close>, \<open>float\<close>, \<open>UUID\<close>, \<open>str.split\<close>, \<open>ipaddress\<close>, \<open>urlsplit\<close>, \<open>csv\<close> and
  \<open>json\<close> are written out (\<open>Py_Int\<close>, \<open>Py_Text\<close>, \<open>Ip_Address\<close>, \<open>Transcript_Fetch\<close>, \<open>Csv_Text\<close>, \<open>Json_Text\<close>). Third-party code is an argument: the \<open>phonenumbers\<close> library, the time
  zone data, the HTTP answers of Dograh, the \<open>age\<close> program and SHA-256, the language model, the speech services, PyJWT, the name service, the keyed hash.
  Log lines are left out; audit rows and call events are kept.

  \<^bold>\<open>Theories and sources.\<close>
  \<^item> \<open>Prelude\<close>, \<open>Keyset\<close>, \<open>Data_Model\<close>: rows, lookups, pages; \<open>models/\<close>, \<open>repositories/\<close>. The locale \<open>keyed_rows\<close> is
    the contract of a table, interpreted on contacts, attempts, campaigns and policies.
  \<^item> \<open>Calling_Window\<close>, \<open>Phone\<close>, \<open>Suppression\<close> (locale \<open>block_list\<close>), \<open>Retry_Policy\<close>, \<open>Campaigns\<close>, \<open>Eligibility\<close>:
    the services of these names and \<open>campaign_contact_service.py\<close>, \<open>contact_import_service.py\<close>. Windows over midnight,
    canonical numbers, one row per number, defaults, status transitions, both eligibility checks.
  \<^item> \<open>Outbound_Control\<close>: \<open>kill_switch.py\<close>, \<open>provider_halt.py\<close>, \<open>spend_cap.py\<close>, \<open>outbound_gate.py\<close>. The gate opens only on
    fresh positive evidence.
  \<^item> \<open>Stream_Queue\<close> (locale \<open>once_guard\<close>), \<open>Leases\<close>, \<open>Admission\<close> (locale \<open>slot_pool\<close>): \<open>services/queue/\<close> and the circuit
    breaker. Nothing is lost from the stream; leases stay within every limit.
  \<^item> \<open>Recovery\<close>, \<open>Enqueue\<close>, \<open>Schedule_Contract\<close>: \<open>services/recovery/\<close>, \<open>enqueue_service.py\<close>. Decisions follow the policy,
    the dispatcher loses no dial that is owed, a rebuild adds every retry that is owed (and keeps what it does not know),
    a complete scan has queued every due contact.
  \<^item> \<open>Dograh_Outcome\<close>, \<open>Trigger\<close>, \<open>Reconciliation\<close>, \<open>Py_Int\<close>, \<open>Py_Text\<close>: \<open>dograh_client.py\<close>, \<open>dograh_outcome.py\<close>,
    \<open>dograh_reconciliation.py\<close>.
  \<^item> \<open>Dialer\<close>, \<open>Dialer_Safety\<close>, \<open>Dialer_Contract\<close>, \<open>Dialer_Settlement\<close>, \<open>Dialer_Hold\<close>, \<open>Dialer_Runs\<close>: \<open>dialer_worker.py\<close>. The worker is a list of
    database and Redis operations (\<open>exec_op\<close>), so that a crash is a prefix of the list and other processes run between its
    jobs. No attempt sends two requests that may have placed a call; a request needs every check; what is acknowledged is
    accounted for in the database or the schedule.
  \<^item> \<open>Transcripts\<close>, \<open>Dograh_Webhook\<close>, \<open>Webhook_Facts\<close>, \<open>Webhook_Contract\<close>, \<open>Telephony_Webhook\<close>, \<open>Sweeper\<close>,
    \<open>Outcome_Types\<close>, \<open>System_Safety\<close>, \<open>Report_Runs\<close>: \<open>dograh_webhook_service.py\<close>, \<open>transcript_store.py\<close>,
    \<open>webhook_service.py\<close>, \<open>stuck_call_sweeper.py\<close>, and all writers together.
  \<^item> \<open>Analysis_Admission\<close> to \<open>Analysis_Runs\<close>: \<open>services/analysis/\<close>. The row refines a lock with an owner; a superseded
    worker writes nothing; the ledger balances; whatever is acknowledged is durable; \<open>QA_Contract\<close> is the strict reader of
    Dograh's annotations.
  \<^item> \<open>Retention\<close>, \<open>Retention_Run\<close>, \<open>Erasure\<close>, \<open>Lifecycle_Runs\<close>: \<open>services/data_lifecycle/\<close>. Legal holds are respected
    however a run ends (but for audit rows about calls and analyses), runs complete and remove only what is due in each
    class, an erasure changes exactly the data of its contacts, and the erasure log replays over a restored database.
  \<^item> \<open>Csv_Text\<close>, \<open>Secondary_Copy\<close>, \<open>Reconcile\<close>: \<open>dnc_copy.py\<close>, \<open>scripts/reconcile_suppressions.py\<close>. What a copy was
    written from is read back, a damaged copy is refused, and a restore brings back every opt-out not removed since.
  \<^item> \<open>Conversation_Policy\<close>, \<open>Json_Text\<close>, \<open>Conversation_Memory\<close>, \<open>Conversation\<close>, \<open>Conversation_Facts\<close>, \<open>Conversation_Contract\<close>,
    \<open>Conversation_Safety\<close>, \<open>Conversation_Runs\<close>: \<open>services/ai/\<close>. A conversation is a record, what happens to it is a
    list of \<open>conv_event\<close>s (an utterance, silence, a barge-in, a disconnect); the provider answers may be interrupted at any
    call. Conversations are bounded, an opt-out is enforced for good, memory survives a disconnect
    (in PostgreSQL as a row, in Redis as JSON text).
  \<^item> \<open>Ip_Address\<close>, \<open>Client_Address\<close>, \<open>Rate_Limit\<close>, \<open>Entry_Points\<close>, \<open>Entry_Safety\<close>, \<open>Entry_Runs\<close>: \<open>core/client_address.py\<close>,
    \<open>core/rate_limit.py\<close>, \<open>security_audit.py\<close>, the login and the webhook routes. Addresses behind the proxies cannot be spoofed, guesses are
    bounded under any interleaving, the secret alone decides about a webhook.
  \<^item> \<open>Transcript_Fetch\<close>: \<open>transcript_fetch.py\<close>. A download goes to a checked address only.

  The theories named \<open>..._Runs\<close> (and the last section of some others) apply the properties to concrete data.

  \<^bold>\<open>Bounds and fuel.\<close> The enqueue scan takes fuel because other processes may add contacts for ever; two rounds more than
  the contacts it can see are enough (\<open>enqueue_terminates\<close>). The purge and rebuild loops have a measure. The
  JSON reader takes twice the length of the text and two as its fuel (\<open>loads_text\<close> shows it is enough for what is written). Everything else
  recurses on its data. Retries of the language model, regenerations, pages and chunks have the code's own limits.

  \<^bold>\<open>Not modelled.\<close> FastAPI routing, (de)serialisation and the request body cap; the read-only aggregates of the console and
  the export of a person's data; the process loops and signals of the workers, the other operator scripts and migrations; the
  mock providers; the CSV upload of contacts; the text of the system prompt. They compute nothing the properties depend on, or are
  input and output of other software. The size of a re-serialised QA payload, the JSON of transcripts and the
  text of a float in JSON are arguments; cached memories with floats are left out of the round trip. A database transaction is its effect on the rows; isolation between statements is what the interleaved
  operations of the dialer, the webhook and the analysis state.
\<close>

end
